(* ===== verification/Prelude.thy ===== *)
theory Prelude
  imports Main "HOL-Library.AList"
begin

text \<open>
  Shared vocabulary of the development: insertion-ordered maps (a JavaScript
  \<open>Map\<close> or plain object keeps its keys in the order of their first insertion),
  callback traces, and the generic list facts the component theories use.
\<close>

named_theorems omap_simps \<open>lookups and keys after an update of an insertion-ordered map\<close>
named_theorems store_defs \<open>definitions of store handlers, unfolded by the store proofs\<close>

section \<open>Insertion-ordered maps\<close>

text \<open>
  \<open>Map.prototype.set\<close> overwrites the value of a present key in place and appends an
  absent one; that is the library's \<^const>\<open>AList.update\<close>. \<open>Map.prototype.delete\<close> is
  \<^const>\<open>AList.delete\<close>; \<open>get\<close> is \<^const>\<open>map_of\<close>.
\<close>

type_synonym ('k, 'v) omap = "('k \<times> 'v) list"

abbreviation om_get :: "('k, 'v) omap \<Rightarrow> 'k \<Rightarrow> 'v option" where
  "om_get m k \<equiv> map_of m k"

abbreviation om_set :: "'k \<Rightarrow> 'v \<Rightarrow> ('k, 'v) omap \<Rightarrow> ('k, 'v) omap" where
  "om_set \<equiv> AList.update"

abbreviation om_delete :: "'k \<Rightarrow> ('k, 'v) omap \<Rightarrow> ('k, 'v) omap" where
  "om_delete \<equiv> AList.delete"

definition om_has :: "('k, 'v) omap \<Rightarrow> 'k \<Rightarrow> bool" where
  "om_has m k = (om_get m k \<noteq> None)"

abbreviation om_keys :: "('k, 'v) omap \<Rightarrow> 'k list" where
  "om_keys m \<equiv> map fst m"

abbreviation om_values :: "('k, 'v) omap \<Rightarrow> 'v list" where
  "om_values m \<equiv> map snd m"

text \<open>Every map the program builds starts empty and is changed by \<open>set\<close> and \<open>delete\<close>
  only, so its keys are distinct.\<close>

definition om_ok :: "('k, 'v) omap \<Rightarrow> bool" where
  "om_ok m = distinct (om_keys m)"

lemma om_ok_Nil [simp]: "om_ok []"
  by (simp add: om_ok_def)

lemma om_ok_set [simp]: "om_ok m \<Longrightarrow> om_ok (om_set k v m)"
  unfolding om_ok_def by (rule distinct_update)

lemma om_ok_delete [simp]: "om_ok m \<Longrightarrow> om_ok (om_delete k m)"
  unfolding om_ok_def by (rule distinct_delete)

lemma om_get_set [omap_simps]: "om_get (om_set k v m) k' = (if k' = k then Some v else om_get m k')"
  by (simp add: update_conv')

lemma om_get_delete [omap_simps]: "om_get (om_delete k m) k' = (if k' = k then None else om_get m k')"
  by (simp add: delete_conv')

lemma om_has_set [omap_simps]: "om_has (om_set k v m) k' = (k' = k \<or> om_has m k')"
  by (simp add: om_has_def om_get_set)

lemma om_has_delete [omap_simps]: "om_has (om_delete k m) k' = (k' \<noteq> k \<and> om_has m k')"
  by (simp add: om_has_def om_get_delete)

lemma om_has_iff_key: "om_has m k \<longleftrightarrow> k \<in> set (om_keys m)"
  by (simp add: om_has_def map_of_eq_None_iff)

lemma set_keys_set [omap_simps]: "set (om_keys (om_set k v m)) = insert k (set (om_keys m))"
  using om_has_iff_key [of "om_set k v m"] om_has_iff_key [of m] by (auto simp: om_has_set)

lemma set_keys_delete [omap_simps]: "set (om_keys (om_delete k m)) = set (om_keys m) - {k}"
  using om_has_iff_key [of "om_delete k m"] om_has_iff_key [of m] by (auto simp: om_has_delete)

lemma om_set_absent: "\<not> om_has m k \<Longrightarrow> om_set k v m = m @ [(k, v)]"
  by (induction m) (auto simp: om_has_def split: if_splits)

lemma om_keys_set_present: "om_has m k \<Longrightarrow> om_keys (om_set k v m) = om_keys m"
  by (induction m) (auto simp: om_has_def split: if_splits)

lemma om_delete_absent: "\<not> om_has m k \<Longrightarrow> om_delete k m = m"
  by (simp add: om_has_iff_key delete_idem)

lemma length_om_delete: "om_ok m \<Longrightarrow> om_has m k \<Longrightarrow> Suc (length (om_delete k m)) = length m"
proof (induction m)
  case Nil
  then show ?case by (simp add: om_has_def)
next
  case (Cons p m)
  show ?case
  proof (cases "fst p = k")
    case True
    with Cons.prems have "k \<notin> set (om_keys m)" by (simp add: om_ok_def)
    then have "om_delete k m = m" by (simp add: delete_idem)
    with True show ?thesis by (cases p) (simp add: om_has_def)
  next
    case False
    with Cons show ?thesis by (cases p) (auto simp: om_ok_def om_has_def)
  qed
qed

lemma length_om_set: "length (om_set k v m) = (if om_has m k then length m else Suc (length m))"
  by (induction m) (auto simp: om_has_def split: if_splits)

section \<open>Callbacks\<close>

text \<open>
  The services of the main process are asynchronous: an operation reports by calling
  \<open>callback(error, data)\<close>. The model of an operation returns the calls it makes, in
  order, so "calls back once", "never calls back" and "calls back twice" are different
  values. \<open>Threw e\<close> stands for an exception that leaves the operation, after which nothing
  of it runs.
\<close>

datatype ('e, 'a) call = Failed 'e | Done 'a | Threw 'e

type_synonym ('e, 'a) calls = "('e, 'a) call list"

definition once :: "('e, 'a) calls \<Rightarrow> bool" where
  "once cs = (length cs = 1)"

lemma once_singleton [simp]: "once [c]"
  by (simp add: once_def)

text \<open>
  \<open>op((error) => { if (error) { callback(error); return; } next(); })\<close>: every failure goes
  to the callback, every success starts the next operation; an exception ends the run.
\<close>

fun and_then :: "('e, 'a) calls \<Rightarrow> ('s \<Rightarrow> ('e, 'b) calls \<times> 's) \<Rightarrow> 's \<Rightarrow> ('e, 'b) calls \<times> 's" where
  "and_then [] k s = ([], s)"
| "and_then (Done x # cs) k s =
     (let (r, s1) = k s; (r', s2) = and_then cs k s1 in (r @ r', s2))"
| "and_then (Failed e # cs) k s = (let (r, s1) = and_then cs k s in (Failed e # r, s1))"
| "and_then (Threw e # cs) k s = ([Threw e], s)"

lemma and_then_single:
  "and_then [c] k s = (case c of Done x \<Rightarrow> k s | Failed e \<Rightarrow> ([Failed e], s) | Threw e \<Rightarrow> ([Threw e], s))"
  by (cases c) (auto split: prod.split)

end
