(* ===== verification/JS_Number.thy ===== *)
theory JS_Number
  imports Complex_Main "HOL-Library.Log_Nat" Prelude
begin

text \<open>
  JavaScript numbers: IEEE 754 binary64 values, as the language standard defines them.
  A finite value is the rational number it denotes; every arithmetic operation computes
  the exact rational result and rounds it to binary64, to nearest with ties to even.
  The sign of zero is not represented (the modelled code never observes it).
\<close>

datatype jsnum = NaN | PInf | MInf | Fin rat

section \<open>Rounding to binary64\<close>

text \<open>\<open>ilog2 q\<close> is the exponent of the binade of \<open>q\<close>: the bit lengths of numerator and
  denominator give it up to one.\<close>

definition ilog2 :: "rat \<Rightarrow> int" where
  "ilog2 q = (let (n, d) = quotient_of (abs q);
                  k = int (floorlog 2 (nat n)) - int (floorlog 2 (nat d))
              in if 2 powi k \<le> abs q then k else k - 1)"

text \<open>Distance of neighbouring values around \<open>q\<close>: 53 bits of precision, least exponent -1074.\<close>

definition ulp :: "rat \<Rightarrow> rat" where
  "ulp q = 2 powi (max (ilog2 q) (- 1022) - 52)"

definition round_half_even :: "rat \<Rightarrow> int" where
  "round_half_even x =
     (let f = \<lfloor>x\<rfloor>; r = x - of_int f
      in if r < 1 / 2 then f else if 1 / 2 < r then f + 1 else if even f then f else f + 1)"

definition rnd :: "rat \<Rightarrow> jsnum" where
  "rnd q = (let m = of_int (round_half_even (q / ulp q)) * ulp q
            in if 2 ^ 1024 \<le> m then PInf else if m \<le> - (2 ^ 1024) then MInf else Fin m)"

lemma ulp_pos [simp]: "0 < ulp q"
  by (simp add: ulp_def)

lemma round_half_even_of_int [simp]: "round_half_even (of_int k) = k"
  by (simp add: round_half_even_def)

lemma rnd_0 [simp]: "rnd 0 = Fin 0"
  using round_half_even_of_int [of 0] by (simp add: rnd_def)

text \<open>A multiple of the unit in the last place is a binary64 value: rounding keeps it.\<close>

lemma rnd_multiple:
  assumes "q = of_int k * ulp q" and "\<bar>q\<bar> < 2 ^ 1024"
  shows "rnd q = Fin q"
proof -
  have "q / ulp q = of_int k"
    using assms(1) ulp_pos [of q] by (metis nonzero_mult_div_cancel_right less_irrefl)
  then have "of_int (round_half_even (q / ulp q)) * ulp q = q"
    using assms(1) by simp
  then show ?thesis using assms(2) by (simp add: rnd_def Let_def abs_less_iff)
qed

lemma ilog2_le:
  assumes "q \<noteq> 0"
  shows "2 powi (ilog2 q) \<le> \<bar>q\<bar>"
proof -
  obtain n d where nd: "quotient_of \<bar>q\<bar> = (n, d)" by (cases "quotient_of \<bar>q\<bar>")
  then have q: "\<bar>q\<bar> = of_int n / of_int d" and d: "0 < d"
    by (auto intro: quotient_of_div quotient_of_denom_pos)
  with assms have n: "0 < n" by (metis abs_eq_0 abs_ge_zero divide_eq_0_iff linorder_neqE_linordered_idom
        not_le of_int_0_eq_iff of_int_less_0_iff of_int_pos divide_neg_pos)
  let ?fn = "floorlog 2 (nat n)" and ?fd = "floorlog 2 (nat d)"
  define k where "k = int ?fn - int ?fd"
  have fn: "2 ^ (?fn - 1) \<le> nat n" and fn1: "0 < ?fn"
    using floorlog_bounds [of "nat n" 2] n by (auto intro: Nat.gr0I)
  have fd: "nat d < 2 ^ ?fd" using floorlog_bounds [of "nat d" 2] d by auto
  have "(2::rat) ^ (?fn - 1) \<le> of_int n"
    using fn n by (metis of_nat_le_iff of_nat_nat less_imp_le of_int_of_nat_eq of_nat_numeral of_nat_power)
  moreover have "of_int d \<le> (2::rat) ^ ?fd"
    using fd d by (metis of_nat_le_iff of_nat_nat less_imp_le of_int_of_nat_eq of_nat_numeral of_nat_power)
  ultimately have "(2::rat) ^ (?fn - 1) / 2 ^ ?fd \<le> \<bar>q\<bar>"
    unfolding q using d n by (intro frac_le) auto
  moreover have "(2::rat) ^ (?fn - 1) / 2 ^ ?fd = 2 powi (k - 1)"
  proof -
    have "k - 1 = int (?fn - 1) - int ?fd" using fn1 by (simp add: k_def)
    then show ?thesis by (simp add: power_int_diff)
  qed
  ultimately show ?thesis by (auto simp: ilog2_def nd k_def Let_def)
qed

lemma ilog2_less:
  assumes "q \<noteq> 0" and "\<bar>q\<bar> < 2 powi e"
  shows "ilog2 q < e"
proof (rule ccontr)
  assume "\<not> ilog2 q < e"
  then have "(2::rat) powi e \<le> 2 powi (ilog2 q)" by (intro power_int_increasing) auto
  with ilog2_le [OF assms(1)] assms(2) show False by simp
qed

text \<open>Integers of at most 53 bits are exact.\<close>

lemma rnd_int:
  assumes "\<bar>k\<bar> < 2 ^ 53"
  shows "rnd (of_int k) = Fin (of_int k)"
proof (cases "k = 0")
  case False
  let ?q = "of_int k :: rat" and ?e = "max (ilog2 (of_int k)) (- 1022) - 52"
  have lt: "\<bar>?q\<bar> < 2 powi 53" using assms by (metis of_int_abs of_int_less_iff of_int_numeral of_int_power power_int_numeral)
  then have "?e \<le> 0" using ilog2_less [OF _ lt] False by simp
  then have "ulp ?q * 2 ^ nat (- ?e) = 1"
    by (simp add: ulp_def power_int_def field_simps)
  then have "?q = of_int (k * 2 ^ nat (- ?e)) * ulp ?q"
    by (metis (no_types, opaque_lifting) mult.assoc mult.commute mult.right_neutral of_int_mult of_int_numeral of_int_power)
  moreover have "\<bar>?q\<bar> < 2 ^ 1024"
    using lt power_increasing [of 53 1024 "2::rat"] by simp
  ultimately show ?thesis by (rule rnd_multiple)
qed simp

lemma rnd_numeral [simp]: "(numeral n :: int) < 2 ^ 53 \<Longrightarrow> rnd (numeral n) = Fin (numeral n)"
  using rnd_int [of "numeral n"] by simp

lemma rnd_1 [simp]: "rnd 1 = Fin 1"
  using rnd_int [of 1] by simp

section \<open>Arithmetic\<close>

fun jneg :: "jsnum \<Rightarrow> jsnum" where
  "jneg NaN = NaN"
| "jneg PInf = MInf"
| "jneg MInf = PInf"
| "jneg (Fin a) = Fin (- a)"

fun jadd :: "jsnum \<Rightarrow> jsnum \<Rightarrow> jsnum" where
  "jadd (Fin a) (Fin b) = rnd (a + b)"
| "jadd NaN _ = NaN"
| "jadd _ NaN = NaN"
| "jadd PInf MInf = NaN"
| "jadd MInf PInf = NaN"
| "jadd PInf _ = PInf"
| "jadd _ PInf = PInf"
| "jadd MInf _ = MInf"
| "jadd _ MInf = MInf"

definition jsub :: "jsnum \<Rightarrow> jsnum \<Rightarrow> jsnum" where
  "jsub x y = jadd x (jneg y)"

text \<open>An infinity of the sign of the product of two signs; NaN where one factor is zero.\<close>

definition signed_inf :: "rat \<Rightarrow> jsnum" where
  "signed_inf s = (if 0 < s then PInf else if s < 0 then MInf else NaN)"

fun jmul :: "jsnum \<Rightarrow> jsnum \<Rightarrow> jsnum" where
  "jmul (Fin a) (Fin b) = rnd (a * b)"
| "jmul NaN _ = NaN"
| "jmul _ NaN = NaN"
| "jmul PInf (Fin b) = signed_inf b"
| "jmul MInf (Fin b) = signed_inf (- b)"
| "jmul (Fin a) PInf = signed_inf a"
| "jmul (Fin a) MInf = signed_inf (- a)"
| "jmul PInf PInf = PInf"
| "jmul MInf MInf = PInf"
| "jmul PInf MInf = MInf"
| "jmul MInf PInf = MInf"

text \<open>Division; a zero divisor counts as positive zero.\<close>

fun jdiv :: "jsnum \<Rightarrow> jsnum \<Rightarrow> jsnum" where
  "jdiv (Fin a) (Fin b) = (if b = 0 then signed_inf a else rnd (a / b))"
| "jdiv NaN _ = NaN"
| "jdiv _ NaN = NaN"
| "jdiv (Fin a) _ = Fin 0"
| "jdiv PInf (Fin b) = (if b < 0 then MInf else PInf)"
| "jdiv MInf (Fin b) = (if b < 0 then PInf else MInf)"
| "jdiv _ _ = NaN"

definition jint :: "int \<Rightarrow> jsnum" where
  "jint k = Fin (of_int k)"

lemma jadd_jint [simp]:
  "\<bar>a + b\<bar> < 2 ^ 53 \<Longrightarrow> jadd (jint a) (jint b) = jint (a + b)"
  by (simp add: jint_def rnd_int flip: of_int_add)

lemma jsub_jint [simp]:
  "\<bar>a - b\<bar> < 2 ^ 53 \<Longrightarrow> jsub (jint a) (jint b) = jint (a - b)"
  using rnd_int [of "a - b"] by (simp add: jint_def jsub_def)

section \<open>Comparison\<close>

text \<open>Every comparison with NaN is false.\<close>

fun jlt :: "jsnum \<Rightarrow> jsnum \<Rightarrow> bool" where
  "jlt NaN _ = False"
| "jlt _ NaN = False"
| "jlt (Fin a) (Fin b) = (a < b)"
| "jlt MInf y = (y \<noteq> MInf)"
| "jlt _ MInf = False"
| "jlt PInf _ = False"
| "jlt _ PInf = True"

definition jeq :: "jsnum \<Rightarrow> jsnum \<Rightarrow> bool" where
  "jeq x y = (x \<noteq> NaN \<and> x = y)"

definition jle :: "jsnum \<Rightarrow> jsnum \<Rightarrow> bool" where
  "jle x y = (jlt x y \<or> jeq x y)"

definition is_finite :: "jsnum \<Rightarrow> bool" where
  "is_finite x = (case x of Fin _ \<Rightarrow> True | _ \<Rightarrow> False)"

lemma is_finite_simps [simp]:
  "is_finite (Fin a)" "\<not> is_finite NaN" "\<not> is_finite PInf" "\<not> is_finite MInf"
  by (simp_all add: is_finite_def)

lemma is_finite_iff: "is_finite x \<longleftrightarrow> (\<exists>a. x = Fin a)"
  by (cases x) simp_all

lemma jle_Fin [simp]: "jle (Fin a) (Fin b) = (a \<le> b)"
  by (auto simp: jle_def jeq_def)

lemma jeq_Fin [simp]: "jeq (Fin a) (Fin b) = (a = b)"
  by (simp add: jeq_def)

lemma jeq_NaN [simp]: "\<not> jeq NaN x" "\<not> jeq x NaN"
  by (auto simp: jeq_def)

lemma jle_NaN [simp]: "\<not> jle NaN x" "\<not> jle x NaN"
  by (cases x; simp add: jle_def)+

lemma jlt_NaN2 [simp]: "\<not> jlt x NaN"
  by (cases x) simp_all

lemma jlt_trans: "jlt x y \<Longrightarrow> jlt y z \<Longrightarrow> jlt x z"
  by (cases x; cases y; cases z) auto

lemma jlt_irrefl [simp]: "\<not> jlt x x"
  by (cases x) auto

lemma jlt_total: "x \<noteq> NaN \<Longrightarrow> y \<noteq> NaN \<Longrightarrow> jlt x y \<or> x = y \<or> jlt y x"
  by (cases x; cases y) auto

lemma not_jlt: "x \<noteq> NaN \<Longrightarrow> y \<noteq> NaN \<Longrightarrow> \<not> jlt x y \<longleftrightarrow> jle y x"
  by (cases x; cases y) (auto simp: jle_def jeq_def)

lemma jle_trans: "jle x y \<Longrightarrow> jle y z \<Longrightarrow> jle x z"
  by (auto simp: jle_def jeq_def intro: jlt_trans)

lemma jle_refl: "x \<noteq> NaN \<Longrightarrow> jle x x"
  by (simp add: jle_def jeq_def)

text \<open>\<open>Math.max\<close> and \<open>Math.min\<close>: NaN if an argument is NaN.\<close>

definition jmax :: "jsnum \<Rightarrow> jsnum \<Rightarrow> jsnum" where
  "jmax x y = (if x = NaN \<or> y = NaN then NaN else if jlt x y then y else x)"

definition jmin :: "jsnum \<Rightarrow> jsnum \<Rightarrow> jsnum" where
  "jmin x y = (if x = NaN \<or> y = NaN then NaN else if jlt y x then y else x)"

section \<open>Constants\<close>

text \<open>\<open>Number.MAX_VALUE\<close>, \<open>Number.MIN_VALUE\<close> (the least positive value) and
  \<open>Number.MAX_SAFE_INTEGER\<close>.\<close>

definition MAX_VALUE :: jsnum where
  "MAX_VALUE = Fin ((2 ^ 53 - 1) * 2 ^ 971)"

definition MIN_VALUE :: jsnum where
  "MIN_VALUE = Fin (1 / 2 ^ 1074)"

definition MAX_SAFE_INTEGER :: int where
  "MAX_SAFE_INTEGER = 2 ^ 53 - 1"

end
