(* ===== verification/JS_String.thy ===== *)
theory JS_String
  imports JS_Number "HOL-Library.Char_ord" "HOL-Library.List_Lexorder" "HOL-Library.Sublist"
begin

text \<open>
  JavaScript strings and the conversions of the standard library the program uses:
  trimming, case folding, substring tests, decimal printing, and the reading of
  numbers from strings (\<open>Number\<close>, \<open>parseFloat\<close>). A string is a list of characters
  of code 0 to 255; code units above 255 do not occur in the model. Strings are
  ordered lexicographically by code, as LevelDB orders its keys.
\<close>

section \<open>Characters\<close>

definition is_digit :: "char \<Rightarrow> bool" where
  "is_digit c = (let n = (of_char c :: nat) in 48 \<le> n \<and> n \<le> 57)"

definition is_space :: "char \<Rightarrow> bool" where
  "is_space c = (let n = (of_char c :: nat) in (9 \<le> n \<and> n \<le> 13) \<or> n = 32 \<or> n = 160)"

definition to_lower_char :: "char \<Rightarrow> char" where
  "to_lower_char c =
     (let n = (of_char c :: nat)
      in if (65 \<le> n \<and> n \<le> 90) \<or> (192 \<le> n \<and> n \<le> 222 \<and> n \<noteq> 215) then char_of (n + 32) else c)"

definition toLowerCase :: "string \<Rightarrow> string" where
  "toLowerCase s = map to_lower_char s"

text \<open>\<open>s.trim()\<close> and \<open>s.replace(/\s+/g, '')\<close>.\<close>

definition trim :: "string \<Rightarrow> string" where
  "trim s = rev (dropWhile is_space (rev (dropWhile is_space s)))"

definition remove_spaces :: "string \<Rightarrow> string" where
  "remove_spaces s = filter (\<lambda>c. \<not> is_space c) s"

text \<open>\<open>s.indexOf(t) >= 0\<close>.\<close>

definition str_contains :: "string \<Rightarrow> string \<Rightarrow> bool" where
  "str_contains s t = sublist t s"

text \<open>\<open>s.substr(-n)\<close>, and \<open>s.substr(0, n)\<close>.\<close>

definition substr_last :: "nat \<Rightarrow> string \<Rightarrow> string" where
  "substr_last n s = drop (length s - n) s"

definition substr_first :: "nat \<Rightarrow> string \<Rightarrow> string" where
  "substr_first n s = take n s"

section \<open>Printing naturals\<close>

definition digit_char :: "nat \<Rightarrow> char" where
  "digit_char d = char_of (48 + d)"

definition digit_val :: "char \<Rightarrow> nat" where
  "digit_val c = of_char c - 48"

fun show_nat :: "nat \<Rightarrow> string" where
  "show_nat n = (if n < 10 then [digit_char n] else show_nat (n div 10) @ [digit_char (n mod 10)])"

declare show_nat.simps [simp del]

definition digits_val :: "string \<Rightarrow> nat" where
  "digits_val = foldl (\<lambda>v c. 10 * v + digit_val c) 0"

lemma of_char_digit_char [simp]: "d < 10 \<Longrightarrow> of_char (digit_char d) = (48 + d :: nat)"
  by (simp add: digit_char_def)

lemma digit_val_char [simp]: "d < 10 \<Longrightarrow> digit_val (digit_char d) = d"
  by (simp add: digit_val_def)

lemma is_digit_digit_char [simp]: "d < 10 \<Longrightarrow> is_digit (digit_char d)"
  by (simp add: is_digit_def Let_def)

lemma digits_val_snoc [simp]: "digits_val (s @ [c]) = 10 * digits_val s + digit_val c"
  by (simp add: digits_val_def)

lemma show_nat_digits: "list_all is_digit (show_nat n)"
proof (induction n rule: show_nat.induct)
  case (1 n)
  then show ?case by (subst show_nat.simps) simp
qed

lemma show_nat_nonempty [simp]: "show_nat n \<noteq> []"
  by (subst show_nat.simps) simp

lemma digits_val_show_nat [simp]: "digits_val (show_nat n) = n"
proof (induction n rule: show_nat.induct)
  case (1 n)
  then show ?case by (subst show_nat.simps) (simp add: digits_val_def)
qed

lemma length_show_nat_le: "n < 10 ^ k \<Longrightarrow> 0 < k \<Longrightarrow> length (show_nat n) \<le> k"
proof (induction n arbitrary: k rule: show_nat.induct)
  case (1 n)
  show ?case
  proof (cases "n < 10")
    case True
    with "1.prems" show ?thesis by (subst show_nat.simps) simp
  next
    case False
    then obtain k' where k: "k = Suc k'" "0 < k'" using "1.prems" by (cases k; cases "k - 1") auto
    with "1.prems" have "n div 10 < 10 ^ k'" by auto
    with "1.IH" False k show ?thesis by (subst show_nat.simps) simp
  qed
qed

section \<open>Order of digit strings\<close>

lemma char_less_iff: "c < d \<longleftrightarrow> (of_char c :: nat) < of_char d"
  by (simp add: less_char_def)

text \<open>Numbers printed at the same width are ordered as their digit strings.\<close>

lemma digits_val_replicate_0 [simp]: "digits_val (replicate k (CHR ''0'') @ s) = digits_val s"
proof -
  have "foldl (\<lambda>v c. 10 * v + digit_val c) 0 (replicate k (CHR ''0'')) = 0"
    by (induction k) (simp_all add: digit_val_def)
  then show ?thesis by (simp add: digits_val_def)
qed

lemma digits_val_Cons: "digits_val (c # s) = digit_val c * 10 ^ length s + digits_val s"
proof (induction s rule: rev_induct)
  case Nil
  then show ?case by (simp add: digits_val_def)
next
  case (snoc d s)
  have "digits_val (c # s @ [d]) = 10 * digits_val (c # s) + digit_val d"
    using digits_val_snoc [of "c # s" d] by simp
  with snoc show ?case by (simp add: algebra_simps)
qed

lemma digits_val_less: "list_all is_digit s \<Longrightarrow> digits_val s < 10 ^ length s"
proof (induction s)
  case Nil
  then show ?case by (simp add: digits_val_def)
next
  case (Cons c s)
  then have "digit_val c \<le> 9" by (auto simp: is_digit_def Let_def digit_val_def)
  then have "digit_val c * 10 ^ length s \<le> 9 * 10 ^ length s" by simp
  moreover have "digits_val s < 10 ^ length s" using Cons by simp
  ultimately have "digit_val c * 10 ^ length s + digits_val s < 10 * 10 ^ length s" by linarith
  then show ?case by (simp add: digits_val_Cons)
qed

lemma digit_val_inject:
  assumes "is_digit c" and "is_digit d"
  shows "digit_val c = digit_val d \<longleftrightarrow> c = d"
proof
  assume "digit_val c = digit_val d"
  with assms have "(of_char c :: nat) = of_char d" unfolding is_digit_def Let_def digit_val_def by linarith
  then show "c = d" by simp
qed simp

lemma digits_less_iff:
  assumes "length s = length t" and "list_all is_digit s" and "list_all is_digit t"
  shows "s < t \<longleftrightarrow> digits_val s < digits_val t"
  using assms
proof (induction s t rule: list_induct2)
  case Nil
  then show ?case by simp
next
  case (Cons c s d t)
  have b: "digits_val s < 10 ^ length s" "digits_val t < 10 ^ length s"
    using Cons digits_val_less [of s] digits_val_less [of t] by auto
  have cd: "c < d \<longleftrightarrow> digit_val c < digit_val d" "c = d \<longleftrightarrow> digit_val c = digit_val d"
    using Cons.prems
    by (auto simp: char_less_iff is_digit_def Let_def digit_val_def digit_val_inject [symmetric])
  consider "digit_val c < digit_val d" | "digit_val c = digit_val d" | "digit_val d < digit_val c"
    by linarith
  then show ?case
  proof cases
    case 1
    then have "(digit_val c + 1) * 10 ^ length s \<le> digit_val d * 10 ^ length s"
      by (intro mult_right_mono) auto
    with b 1 cd Cons show ?thesis by (simp add: digits_val_Cons)
  next
    case 2
    with cd Cons show ?thesis by (simp add: digits_val_Cons)
  next
    case 3
    then have "(digit_val d + 1) * 10 ^ length s \<le> digit_val c * 10 ^ length s"
      by (intro mult_right_mono) auto
    with b 3 cd Cons show ?thesis by (auto simp: digits_val_Cons)
  qed
qed

section \<open>Reading numbers\<close>

text \<open>
  \<open>strip_sign\<close> splits an optional sign off. \<open>read_decimal\<close> reads the longest prefix that is
  an unsigned decimal literal (digits, fraction, exponent) and returns its value and the
  rest of the string.
\<close>

definition strip_sign :: "string \<Rightarrow> rat \<times> string" where
  "strip_sign s = (case s of
       c # r \<Rightarrow> (if c = CHR ''-'' then (-1, r) else if c = CHR ''+'' then (1, r) else (1, s))
     | [] \<Rightarrow> (1, []))"

definition read_exponent :: "string \<Rightarrow> int \<times> string" where
  "read_exponent s = (case s of
       c # r \<Rightarrow>
         (let (sg, u) = strip_sign r; ds = takeWhile is_digit u
          in if (c = CHR ''e'' \<or> c = CHR ''E'') \<and> ds \<noteq> []
             then (if sg < 0 then - int (digits_val ds) else int (digits_val ds), dropWhile is_digit u)
             else (0, s))
     | [] \<Rightarrow> (0, []))"

definition read_decimal :: "string \<Rightarrow> (rat \<times> string) option" where
  "read_decimal s =
     (let ip = takeWhile is_digit s; r1 = dropWhile is_digit s;
          (fp, r2) = (case r1 of
              c # r \<Rightarrow> if c = CHR ''.'' then (takeWhile is_digit r, dropWhile is_digit r) else ([], r1)
            | [] \<Rightarrow> ([], []))
      in if ip = [] \<and> fp = [] then None
         else let (e, r3) = read_exponent r2
              in Some (of_nat (digits_val (ip @ fp)) * 10 powi (e - int (length fp)), r3))"

definition prefix_radix :: "string \<Rightarrow> (nat \<times> string) option" where
  "prefix_radix s = (case s of
       z # x # r \<Rightarrow>
         (if z = CHR ''0'' then
            (if x = CHR ''x'' \<or> x = CHR ''X'' then Some (16, r)
             else if x = CHR ''o'' \<or> x = CHR ''O'' then Some (8, r)
             else if x = CHR ''b'' \<or> x = CHR ''B'' then Some (2, r) else None)
          else None)
     | _ \<Rightarrow> None)"

text \<open>The value of a digit in a radix up to 16; 16 for a character that is no digit.\<close>

definition radix_digit :: "char \<Rightarrow> nat" where
  "radix_digit c =
     (let n = (of_char c :: nat)
      in if is_digit c then n - 48
         else if 97 \<le> n \<and> n \<le> 102 then n - 87
         else if 65 \<le> n \<and> n \<le> 70 then n - 55 else 16)"

text \<open>\<open>Number(s)\<close> for a string: white space is trimmed and the empty string is zero.\<close>

definition to_number :: "string \<Rightarrow> jsnum" where
  "to_number s0 =
     (let s = trim s0
      in if s = [] then Fin 0
         else case prefix_radix s of
             Some (b, r) \<Rightarrow>
               (if r \<noteq> [] \<and> list_all (\<lambda>c. radix_digit c < b) r
                then rnd (of_nat (foldl (\<lambda>v c. b * v + radix_digit c) 0 r)) else NaN)
           | None \<Rightarrow>
               (let (sg, u) = strip_sign s
                in if u = ''Infinity'' then (if sg < 0 then MInf else PInf)
                   else case read_decimal u of
                       Some (q, []) \<Rightarrow> rnd (sg * q)
                     | _ \<Rightarrow> NaN))"

text \<open>\<open>parseFloat(s)\<close>: the longest numeric prefix after leading white space.\<close>

definition parseFloat :: "string \<Rightarrow> jsnum" where
  "parseFloat s0 =
     (let (sg, u) = strip_sign (dropWhile is_space s0)
      in if take 8 u = ''Infinity'' then (if sg < 0 then MInf else PInf)
         else case read_decimal u of Some (q, _) \<Rightarrow> rnd (sg * q) | None \<Rightarrow> NaN)"

lemma digit_not_special:
  "is_digit c \<Longrightarrow> \<not> is_space c \<and> c \<noteq> CHR ''-'' \<and> c \<noteq> CHR ''+'' \<and> c \<noteq> CHR ''I''
     \<and> c \<noteq> CHR ''x'' \<and> c \<noteq> CHR ''X'' \<and> c \<noteq> CHR ''o'' \<and> c \<noteq> CHR ''O'' \<and> c \<noteq> CHR ''b'' \<and> c \<noteq> CHR ''B''"
  by (auto simp: is_digit_def is_space_def Let_def)

lemma takeWhile_all: "list_all P s \<Longrightarrow> takeWhile P s = s \<and> dropWhile P s = []"
  by (auto simp: list_all_iff dropWhile_eq_Nil_conv)

lemma read_decimal_digits:
  "list_all is_digit s \<Longrightarrow> s \<noteq> [] \<Longrightarrow> read_decimal s = Some (of_nat (digits_val s), [])"
  by (simp add: read_decimal_def takeWhile_all read_exponent_def)

lemma trim_digits: "list_all is_digit s \<Longrightarrow> trim s = s"
proof -
  assume "list_all is_digit s"
  then have "\<forall>c\<in>set s. \<not> is_space c" by (auto simp: list_all_iff digit_not_special)
  then have "dropWhile is_space s = s" and "dropWhile is_space (rev s) = rev s"
    by (auto simp: dropWhile_eq_self_iff hd_rev)
  then show ?thesis by (simp add: trim_def)
qed

text \<open>A string of digits is read back as the number it denotes.\<close>

lemma to_number_digits:
  assumes "list_all is_digit s" and "s \<noteq> []"
  shows "to_number s = rnd (of_nat (digits_val s))"
proof -
  obtain c r where s: "s = c # r" using assms(2) by (cases s) auto
  with assms(1) have c: "is_digit c" by simp
  have "prefix_radix s = None"
    using s assms(1) by (auto simp: prefix_radix_def split: list.splits dest: digit_not_special)
  moreover have "strip_sign s = (1, s)" using s digit_not_special [OF c] by (simp add: strip_sign_def)
  moreover have "s \<noteq> ''Infinity''" using s digit_not_special [OF c] by auto
  ultimately show ?thesis using assms by (simp add: to_number_def trim_digits read_decimal_digits)
qed

lemma to_number_show_nat: "n < 2 ^ 53 \<Longrightarrow> to_number (show_nat n) = jint (int n)"
  using rnd_int [of "int n"] by (simp add: to_number_digits show_nat_digits jint_def)

end
