(* ===== verification/JS_Value.thy ===== *)
theory JS_Value
  imports JS_String
begin

text \<open>
  JavaScript values as the program passes them around: JSON-like objects with
  insertion-ordered properties, property access, \<open>Object.assign\<close>, truthiness, and
  serialisation. A string that \<open>JSON.stringify\<close> produced is kept symbolically as
  \<open>JJson v\<close>, where \<open>v\<close> is the value \<open>JSON.parse\<close> gives back; \<open>JStr\<close> holds every other
  string.
\<close>

datatype jsval =
    JUndef
  | JNull
  | JBool bool
  | JNum jsnum
  | JStr string
  | JArr "jsval list"
  | JObj "(string \<times> jsval) list"
  | JJson jsval

type_synonym jsobj = "(string, jsval) omap"

text \<open>Errors: those of the database and the schema validator, those the language throws, and
  the program's own messages.\<close>

datatype jserr =
    NotFoundError
  | OperationError string
  | SchemaErrors "string list"
  | TypeError
  | SyntaxError
  | ErrorMsg string

section \<open>Objects\<close>

definition obj_get :: "jsobj \<Rightarrow> string \<Rightarrow> jsval" where
  "obj_get ob k = (case om_get ob k of None \<Rightarrow> JUndef | Some v \<Rightarrow> v)"

text \<open>\<open>Object.assign(a, b)\<close>: the properties of \<open>b\<close> are set on \<open>a\<close> in their order.\<close>

definition assign :: "jsobj \<Rightarrow> jsobj \<Rightarrow> jsobj" where
  "assign a b = fold (\<lambda>(k, v). om_set k v) b a"

lemma obj_get_set [simp]: "obj_get (om_set k v ob) k' = (if k' = k then v else obj_get ob k')"
  by (simp add: obj_get_def om_get_set)

lemma obj_get_Nil [simp]: "obj_get [] k = JUndef"
  by (simp add: obj_get_def)

lemma om_get_assign: "om_ok b \<Longrightarrow> om_get (assign a b) k = (case om_get b k of None \<Rightarrow> om_get a k | Some v \<Rightarrow> Some v)"
proof (induction b arbitrary: a)
  case Nil
  then show ?case by (simp add: assign_def)
next
  case (Cons p b)
  obtain j v where p: "p = (j, v)" by (cases p)
  from Cons.prems p have "om_get b j = None" and ok: "om_ok b"
    by (auto simp: om_ok_def map_of_eq_None_iff)
  with Cons.IH [OF ok, of "om_set j v a"] p show ?case
    by (auto simp: assign_def om_get_set split: option.split)
qed

lemma assign_ok [simp]: "om_ok a \<Longrightarrow> om_ok (assign a b)"
  by (induction b arbitrary: a) (auto simp: assign_def)

lemma obj_get_assign: "om_ok b \<Longrightarrow> obj_get (assign a b) k = (if om_has b k then obj_get b k else obj_get a k)"
  by (auto simp: obj_get_def om_get_assign om_has_def split: option.split)

section \<open>Truthiness and equality\<close>

definition truthy :: "jsval \<Rightarrow> bool" where
  "truthy v = (case v of
       JUndef \<Rightarrow> False
     | JNull \<Rightarrow> False
     | JBool b \<Rightarrow> b
     | JNum n \<Rightarrow> n \<noteq> NaN \<and> n \<noteq> Fin 0
     | JStr s \<Rightarrow> s \<noteq> []
     | _ \<Rightarrow> True)"

lemma truthy_simps [simp]:
  "\<not> truthy JUndef" "\<not> truthy JNull" "truthy (JBool b) = b"
  "truthy (JStr s) = (s \<noteq> [])" "truthy (JArr vs)" "truthy (JObj fs)" "truthy (JJson v)"
  by (simp_all add: truthy_def)

section \<open>Serialisation\<close>

text \<open>
  What survives \<open>JSON.stringify\<close>: properties whose value is \<open>undefined\<close> are dropped,
  \<open>undefined\<close> array elements and non-finite numbers become \<open>null\<close>.
\<close>

fun json_norm :: "jsval \<Rightarrow> jsval" where
  "json_norm JUndef = JNull"
| "json_norm JNull = JNull"
| "json_norm (JBool b) = JBool b"
| "json_norm (JNum n) = (if is_finite n then JNum n else JNull)"
| "json_norm (JStr s) = JStr s"
| "json_norm (JArr vs) = JArr (map json_norm vs)"
| "json_norm (JObj fs) = JObj (map (\<lambda>(k, v). (k, json_norm v)) (filter (\<lambda>(k, v). v \<noteq> JUndef) fs))"
| "json_norm (JJson v) = JJson v"

text \<open>\<open>JSON.stringify(undefined)\<close> is \<open>undefined\<close>.\<close>

definition stringify :: "jsval \<Rightarrow> jsval" where
  "stringify v = (if v = JUndef then JUndef else JJson (json_norm v))"

definition json_parse :: "jsval \<Rightarrow> jserr + jsval" where
  "json_parse v = (case v of JJson w \<Rightarrow> Inr w | _ \<Rightarrow> Inl SyntaxError)"

definition is_string :: "jsval \<Rightarrow> bool" where
  "is_string v = (case v of JStr _ \<Rightarrow> True | JJson _ \<Rightarrow> True | _ \<Rightarrow> False)"

text \<open>\<open>if (typeof v === 'string') v = JSON.parse(v)\<close>\<close>

definition parse_if_string :: "jsval \<Rightarrow> jserr + jsval" where
  "parse_if_string v = (if is_string v then json_parse v else Inr v)"

text \<open>Values as \<open>JSON.parse\<close> gives them: no \<open>undefined\<close>, only finite numbers.\<close>

fun is_json :: "jsval \<Rightarrow> bool" where
  "is_json JUndef = False"
| "is_json JNull = True"
| "is_json (JBool b) = True"
| "is_json (JNum n) = is_finite n"
| "is_json (JStr s) = True"
| "is_json (JArr vs) = list_all is_json vs"
| "is_json (JObj fs) = list_all (\<lambda>(k, v). is_json v) fs"
| "is_json (JJson v) = True"

lemma json_norm_id: "is_json v \<Longrightarrow> json_norm v = v"
proof (induction v rule: json_norm.induct)
  case (6 vs)
  then show ?case by (simp add: list_all_iff map_idI)
next
  case (7 fs)
  have "filter (\<lambda>(k, v). v \<noteq> JUndef) fs = fs"
    using 7 by (auto simp: list_all_iff intro!: filter_True)
  moreover have "map (\<lambda>(k, v). (k, json_norm v)) fs = fs"
    using 7 calculation by (intro map_idI) (auto simp: list_all_iff)
  ultimately show ?case by simp
qed auto

text \<open>A JSON value survives the trip through its serialised form.\<close>

lemma json_roundtrip: "is_json v \<Longrightarrow> json_parse (stringify v) = Inr v"
  using json_norm_id [of v] by (cases "v = JUndef") (simp_all add: stringify_def json_parse_def)

section \<open>Reading typed fields\<close>

definition as_string :: "jsval \<Rightarrow> string" where
  "as_string v = (case v of JStr s \<Rightarrow> s | _ \<Rightarrow> [])"

definition as_obj :: "jsval \<Rightarrow> jsobj" where
  "as_obj v = (case v of JObj ob \<Rightarrow> ob | _ \<Rightarrow> [])"

definition as_arr :: "jsval \<Rightarrow> jsval list" where
  "as_arr v = (case v of JArr vs \<Rightarrow> vs | _ \<Rightarrow> [])"

definition as_num :: "jsval \<Rightarrow> jsnum" where
  "as_num v = (case v of JNum n \<Rightarrow> n | _ \<Rightarrow> NaN)"

lemma as_simps [simp]:
  "as_string (JStr s) = s" "as_obj (JObj ob) = ob" "as_arr (JArr vs) = vs" "as_num (JNum n) = n"
  by (simp_all add: as_string_def as_obj_def as_arr_def as_num_def)

end
