(* ===== verification/Time_Aggregator.thy ===== *)
theory Time_Aggregator
  imports JS_Value
begin

text \<open>
  The stream transform of \<open>app/main/TimeAggregator.js\<close>, which groups CSV records by time. Its
  state is a record, the rows it pushes are a list, and \<open>moment.utc(s).valueOf()\<close> is a
  parameter. The lemmas show that counting loses no record, and which timestamps the groups
  carry.
\<close>

datatype agg_function = AggSum | AggAvg | AggCount | AggMin | AggMax

record agg_options =
  ao_timefield :: string
  ao_valuefield :: string
  ao_function :: "agg_function option"
  ao_interval :: "jsnum option"

record aggregator =
  ag_timebucket :: jsnum
  ag_interval :: jsnum
  ag_valuefield :: string
  ag_timefield :: string
  ag_function :: agg_function
  ag_bucket_timestamp :: jsnum
  ag_bucket_value :: jsnum
  ag_count :: nat

text \<open>\<open>_reset\<close>: a new bucket, which starts at the current value of \<open>_timebucket\<close>.\<close>

definition agg_reset :: "aggregator \<Rightarrow> aggregator" where
  "agg_reset a = a\<lparr>ag_bucket_timestamp := ag_timebucket a,
     ag_bucket_value := (case ag_function a of AggMin \<Rightarrow> MAX_VALUE | AggMax \<Rightarrow> MIN_VALUE | _ \<Rightarrow> Fin 0),
     ag_count := 0\<rparr>"

text \<open>The constructor; a missing or zero interval is a minute.\<close>

definition new_aggregator :: "agg_options \<Rightarrow> aggregator" where
  "new_aggregator opts = agg_reset
     \<lparr>ag_timebucket = Fin 0,
      ag_interval = (case ao_interval opts of
          Some i \<Rightarrow> if i = Fin 0 \<or> i = NaN then Fin 60000 else i
        | None \<Rightarrow> Fin 60000),
      ag_valuefield = ao_valuefield opts, ag_timefield = ao_timefield opts,
      ag_function = (case ao_function opts of Some f \<Rightarrow> f | None \<Rightarrow> AggCount),
      ag_bucket_timestamp = Fin 0, ag_bucket_value = Fin 0, ag_count = 0\<rparr>"

definition agg_update :: "(string \<times> string) list \<Rightarrow> aggregator \<Rightarrow> aggregator" where
  "agg_update data a = (case om_get data (ag_valuefield a) of
       None \<Rightarrow> a
     | Some s \<Rightarrow>
         (let a = a\<lparr>ag_count := ag_count a + 1\<rparr>; v = parseFloat s; b = ag_bucket_value a
          in a\<lparr>ag_bucket_value := (case ag_function a of
                 AggSum \<Rightarrow> jadd b v
               | AggAvg \<Rightarrow> jadd b (jdiv (jsub v b) (jint (int (ag_count a))))
               | AggCount \<Rightarrow> jint (int (ag_count a))
               | AggMin \<Rightarrow> if jlt v b then v else b
               | AggMax \<Rightarrow> if jlt b v then v else b)\<rparr>))"

definition agg_publish :: "aggregator \<Rightarrow> (string, jsnum) omap list \<times> aggregator" where
  "agg_publish a =
     ((if 0 < ag_count a
       then [om_set (ag_valuefield a) (ag_bucket_value a) (om_set (ag_timefield a) (ag_bucket_timestamp a) [])]
       else []),
      agg_reset (a\<lparr>ag_timebucket := jadd (ag_timebucket a) (ag_interval a)\<rparr>))"

definition agg_transform ::
    "(string \<Rightarrow> jsnum) \<Rightarrow> (string \<times> string) list \<Rightarrow> aggregator \<Rightarrow> (string, jsnum) omap list \<times> aggregator" where
  "agg_transform utc data a = (case om_get data (ag_timefield a) of
       None \<Rightarrow> ([], a)
     | Some s \<Rightarrow>
         (let timestamp = utc s;
              (out, a) = (if jeq (ag_timebucket a) (Fin 0)
                          then ([], a\<lparr>ag_timebucket := jadd timestamp (ag_interval a)\<rparr>)
                          else if jle (ag_timebucket a) timestamp then agg_publish a
                          else ([], a))
          in (out, agg_update data a)))"

text \<open>\<open>_flush\<close> publishes what is left.\<close>

definition agg_flush :: "aggregator \<Rightarrow> (string, jsnum) omap list \<times> aggregator" where
  "agg_flush a = agg_publish a"

fun agg_run :: "(string \<Rightarrow> jsnum) \<Rightarrow> (string \<times> string) list list \<Rightarrow> aggregator \<Rightarrow> (string, jsnum) omap list" where
  "agg_run utc [] a = fst (agg_flush a)"
| "agg_run utc (data # rows) a =
     (let (out, a') = agg_transform utc data a in out @ agg_run utc rows a')"

definition aggregate :: "(string \<Rightarrow> jsnum) \<Rightarrow> agg_options \<Rightarrow> (string \<times> string) list list \<Rightarrow> (string, jsnum) omap list" where
  "aggregate utc opts rows = agg_run utc rows (new_aggregator opts)"

section \<open>Counting\<close>

lemma agg_reset_simps [simp]:
  "ag_function (agg_reset a) = ag_function a" "ag_valuefield (agg_reset a) = ag_valuefield a"
  "ag_timefield (agg_reset a) = ag_timefield a" "ag_interval (agg_reset a) = ag_interval a"
  "ag_timebucket (agg_reset a) = ag_timebucket a" "ag_count (agg_reset a) = 0"
  "ag_bucket_timestamp (agg_reset a) = ag_timebucket a"
  by (simp_all add: agg_reset_def)

lemma agg_update_simps [simp]:
  "ag_function (agg_update data a) = ag_function a" "ag_valuefield (agg_update data a) = ag_valuefield a"
  "ag_timefield (agg_update data a) = ag_timefield a" "ag_interval (agg_update data a) = ag_interval a"
  "ag_timebucket (agg_update data a) = ag_timebucket a"
  "ag_bucket_timestamp (agg_update data a) = ag_bucket_timestamp a"
  "ag_count (agg_update data a) = (if om_has data (ag_valuefield a) then ag_count a + 1 else ag_count a)"
  by (auto simp: agg_update_def om_has_def Let_def split: option.split)

definition published :: "string \<Rightarrow> (string, jsnum) omap list \<Rightarrow> jsnum list" where
  "published name out = map (\<lambda>r. case om_get r name of Some v \<Rightarrow> v | None \<Rightarrow> NaN) out"

lemma published_append [simp]: "published name (xs @ ys) = published name xs @ published name ys"
  and published_Nil [simp]: "published name [] = []"
  by (simp_all add: published_def)

lemma publish_values:
  "published (ag_valuefield a) (fst (agg_publish a)) = (if 0 < ag_count a then [ag_bucket_value a] else [])"
  by (simp add: agg_publish_def published_def om_get_set)

text \<open>A counting aggregator holds its count as the value of the bucket.\<close>

definition counting :: "aggregator \<Rightarrow> bool" where
  "counting a = (ag_function a = AggCount \<and> ag_bucket_value a = jint (int (ag_count a)))"

lemma counting_reset: "ag_function a = AggCount \<Longrightarrow> counting (agg_reset a)"
  by (simp add: counting_def agg_reset_def jint_def)

lemma counting_update: "counting a \<Longrightarrow> counting (agg_update data a)"
  by (auto simp: counting_def agg_update_def Let_def split: option.split)

definition counted :: "aggregator \<Rightarrow> (string \<times> string) list \<Rightarrow> bool" where
  "counted a data = (om_has data (ag_timefield a) \<and> om_has data (ag_valuefield a))"

lemma agg_transform_counting:
  assumes "counting a" and "agg_transform utc data a = (out, a')"
  shows "counting a' \<and> ag_timefield a' = ag_timefield a \<and> ag_valuefield a' = ag_valuefield a \<and>
    (\<exists>ns. published (ag_valuefield a) out = map (\<lambda>n. jint (int n)) ns \<and> (\<forall>n\<in>set ns. 0 < n) \<and>
      sum_list ns + ag_count a' = ag_count a + (if counted a data then 1 else 0))"
proof (cases "om_get data (ag_timefield a)")
  case None
  with assms show ?thesis by (auto simp: agg_transform_def counted_def om_has_def intro!: exI [of _ "[]"])
next
  case (Some s)
  then have has: "om_has data (ag_timefield a)" by (simp add: om_has_def)
  show ?thesis
  proof (cases "\<not> jeq (ag_timebucket a) (Fin 0) \<and> jle (ag_timebucket a) (utc s)")
    case True
    then have out: "out = fst (agg_publish a)" and a': "a' = agg_update data (snd (agg_publish a))"
      using assms(2) Some by (auto simp: agg_transform_def Let_def split: prod.splits)
    have c: "counting (snd (agg_publish a))" "ag_count (snd (agg_publish a)) = 0"
      "ag_timefield (snd (agg_publish a)) = ag_timefield a" "ag_valuefield (snd (agg_publish a)) = ag_valuefield a"
      using assms(1) by (auto simp: agg_publish_def counting_def intro!: counting_reset [unfolded counting_def])
        (simp add: agg_reset_def jint_def)
    have "published (ag_valuefield a) out = map (\<lambda>n. jint (int n)) (if 0 < ag_count a then [ag_count a] else [])"
      using assms(1) by (simp add: out publish_values counting_def)
    moreover have "counting a'" using c(1) by (simp add: a' counting_update)
    ultimately show ?thesis
      using c has by (intro conjI exI [of _ "if 0 < ag_count a then [ag_count a] else []"])
        (auto simp: a' counted_def)
  next
    case False
    then have "out = []" and "\<exists>t. a' = agg_update data (a\<lparr>ag_timebucket := t\<rparr>)"
      using assms(2) Some by (auto simp: agg_transform_def Let_def split: if_splits intro: exI [of _ "ag_timebucket a"])
    then show ?thesis
      using assms(1) has by (auto simp: counted_def intro!: exI [of _ "[]"] counting_update) (simp_all add: counting_def)
  qed
qed

lemma agg_run_counting:
  "counting a \<Longrightarrow> \<exists>ns. published (ag_valuefield a) (agg_run utc rows a) = map (\<lambda>n. jint (int n)) ns
     \<and> (\<forall>n\<in>set ns. 0 < n) \<and> sum_list ns = ag_count a + length (filter (counted a) rows)"
proof (induction rows arbitrary: a)
  case Nil
  then show ?case
    by (auto simp: agg_flush_def publish_values counting_def
        intro!: exI [of _ "if 0 < ag_count a then [ag_count a] else []"])
next
  case (Cons data rows)
  obtain out a' where t: "agg_transform utc data a = (out, a')" by fastforce
  from agg_transform_counting [OF Cons.prems t] obtain ns where
    c: "counting a'" "ag_timefield a' = ag_timefield a" "ag_valuefield a' = ag_valuefield a"
    and ns: "published (ag_valuefield a) out = map (\<lambda>n. jint (int n)) ns" "\<forall>n\<in>set ns. 0 < n"
      "sum_list ns + ag_count a' = ag_count a + (if counted a data then 1 else 0)" by blast
  from Cons.IH [OF c(1)] c obtain ms where
    ms: "published (ag_valuefield a) (agg_run utc rows a') = map (\<lambda>n. jint (int n)) ms" "\<forall>n\<in>set ms. 0 < n"
      "sum_list ms = ag_count a' + length (filter (counted a) rows)"
    by (auto simp: counted_def [abs_def])
  show ?case
    using t ns ms by (intro exI [of _ "ns @ ms"]) auto
qed

text \<open>C28: aggregation by count loses and duplicates no record: every published value is a
  positive count, and they add up to the number of records that have both the time field and
  the value field, whatever the timestamps are.\<close>

theorem aggregate_count_total:
  assumes "ao_function opts = None \<or> ao_function opts = Some AggCount"
  shows "\<exists>ns. published (ao_valuefield opts) (aggregate utc opts rows) = map (\<lambda>n. jint (int n)) ns
    \<and> (\<forall>n\<in>set ns. 0 < n)
    \<and> sum_list ns = length (filter (\<lambda>data. om_has data (ao_timefield opts) \<and> om_has data (ao_valuefield opts)) rows)"
proof -
  have "counting (new_aggregator opts)" "ag_count (new_aggregator opts) = 0"
    "ag_timefield (new_aggregator opts) = ao_timefield opts" "ag_valuefield (new_aggregator opts) = ao_valuefield opts"
    using assms by (auto simp: new_aggregator_def counting_def agg_reset_def jint_def)
  with agg_run_counting [of "new_aggregator opts" utc rows] show ?thesis
    by (simp add: aggregate_def counted_def [abs_def])
qed

theorem aggregate_count_total_witness:
  "\<exists>ns. published ''v'' (aggregate (\<lambda>s. to_number s)
        \<lparr>ao_timefield = ''t'', ao_valuefield = ''v'', ao_function = None, ao_interval = None\<rparr>
        [[(''t'', ''1''), (''v'', ''7'')], [(''t'', ''2'')], [(''t'', ''3''), (''v'', ''x'')]])
      = map (\<lambda>n. jint (int n)) ns \<and> sum_list ns = 2"
  using aggregate_count_total [of "\<lparr>ao_timefield = ''t'', ao_valuefield = ''v'', ao_function = None, ao_interval = None\<rparr>"
      "\<lambda>s. to_number s" "[[(''t'', ''1''), (''v'', ''7'')], [(''t'', ''2'')], [(''t'', ''3''), (''v'', ''x'')]]"]
  by (auto simp: om_has_def)

section \<open>Timestamps\<close>

lemma agg_run_timestamps:
  assumes "ag_timefield a \<noteq> ag_valuefield a" and "ag_interval a = jint I" and "0 \<le> I"
    and "ag_timebucket a = jint B" and "0 < B" and "0 < ag_count a"
    and "\<forall>data\<in>set rows. counted a data" and "B + int (length rows + 1) * I < 2 ^ 53"
  shows "\<exists>m. published (ag_timefield a) (agg_run utc rows a)
     = ag_bucket_timestamp a # map (\<lambda>k. jint (B + int (k + 1) * I)) [0..<m]"
  using assms
proof (induction rows arbitrary: a B)
  case Nil
  then show ?case
    by (intro exI [of _ 0]) (simp add: agg_flush_def agg_publish_def published_def om_get_set)
next
  case (Cons data rows)
  from Cons.prems(7) have has: "om_has data (ag_timefield a)" "om_has data (ag_valuefield a)" by (auto simp: counted_def)
  then obtain s where s: "om_get data (ag_timefield a) = Some s" by (auto simp: om_has_def)
  have nz: "\<not> jeq (ag_timebucket a) (Fin 0)" using Cons.prems by (simp add: jint_def)
  have IB: "0 \<le> I * int (length rows)" using Cons.prems(3) by simp
  show ?case
  proof (cases "jle (ag_timebucket a) (utc s)")
    case True
    define a' where "a' = agg_update data (snd (agg_publish a))"
    have run: "agg_run utc (data # rows) a = fst (agg_publish a) @ agg_run utc rows a'"
      using s nz True by (simp add: agg_transform_def a'_def case_prod_beta Let_def)
    have "B + (I * int (length rows) + 2 * I) < 2 ^ 53" using Cons.prems(8) by (simp add: algebra_simps)
    then have "\<bar>B + I\<bar> < 2 ^ 53" using Cons.prems(3,5) IB by linarith
    then have bucket: "jadd (jint B) (jint I) = jint (B + I)" by (rule jadd_jint)
    have "\<exists>m. published (ag_timefield a') (agg_run utc rows a')
       = ag_bucket_timestamp a' # map (\<lambda>k. jint (B + I + int (k + 1) * I)) [0..<m]"
      using Cons.prems has bucket
      by (intro Cons.IH) (auto simp: a'_def agg_publish_def counted_def algebra_simps)
    then obtain m where m: "published (ag_timefield a) (agg_run utc rows a')
       = jint (B + I) # map (\<lambda>k. jint (B + I + int (k + 1) * I)) [0..<m]"
      using Cons.prems(2,4) bucket by (auto simp: a'_def agg_publish_def)
    have "published (ag_timefield a) (fst (agg_publish a)) = [ag_bucket_timestamp a]"
      using Cons.prems(1,6) by (simp add: agg_publish_def published_def om_get_set)
    then show ?thesis
      using m by (intro exI [of _ "Suc m"]) (simp add: run map_upt_Suc algebra_simps del: upt_Suc agg_run.simps)
  next
    case False
    define a' where "a' = agg_update data a"
    have run: "agg_run utc (data # rows) a = agg_run utc rows a'"
      using s nz False by (simp add: agg_transform_def a'_def Let_def)
    have "\<exists>m. published (ag_timefield a') (agg_run utc rows a')
       = ag_bucket_timestamp a' # map (\<lambda>k. jint (B + int (k + 1) * I)) [0..<m]"
      using Cons.prems has IB by (intro Cons.IH) (auto simp: a'_def counted_def algebra_simps)
    then show ?thesis by (simp add: run a'_def del: agg_run.simps)
  qed
qed

text \<open>the timestamps of the published groups do not depend on when the later records
  happened: for a file of complete records whose first timestamp is \<open>t0\<close>, the first group is
  published with timestamp 0 and the following ones, in order, with \<open>t0 + 2 I\<close>, \<open>t0 + 3 I\<close>, and so
  on in steps of the interval \<open>I\<close>, even when the records jump over several intervals.\<close>

theorem aggregate_timestamps:
  assumes "ao_timefield opts \<noteq> ao_valuefield opts" and "ao_interval opts = Some (jint I)" and "0 < I"
    and "\<forall>data\<in>set (first # rows). om_has data (ao_timefield opts) \<and> om_has data (ao_valuefield opts)"
    and "utc (the (om_get first (ao_timefield opts))) = jint t0" and "0 \<le> t0"
    and "t0 + int (length rows + 2) * I < 2 ^ 53"
  shows "\<exists>m. published (ao_timefield opts) (aggregate utc opts (first # rows))
     = Fin 0 # map (\<lambda>k. jint (t0 + int (k + 2) * I)) [0..<m]"
proof -
  let ?a = "new_aggregator opts"
  have a: "ag_timefield ?a = ao_timefield opts" "ag_valuefield ?a = ao_valuefield opts" "ag_count ?a = 0"
      "ag_interval ?a = jint I" "ag_timebucket ?a = Fin 0" "ag_bucket_timestamp ?a = Fin 0"
    using assms(2,3) by (simp_all add: new_aggregator_def jint_def)
  from assms(4) obtain s where s: "om_get first (ao_timefield opts) = Some s" "utc s = jint t0"
    using assms(5) by (auto simp: om_has_def)
  define b where "b = agg_update first (?a\<lparr>ag_timebucket := jint (t0 + I)\<rparr>)"
  have "0 \<le> I * int (length rows)" using assms(3) by simp
  moreover have "t0 + (I * int (length rows) + 2 * I) < 2 ^ 53" using assms(7) by (simp add: algebra_simps)
  ultimately have le: "\<bar>t0 + I\<bar> < 2 ^ 53" using assms(3,6) by linarith
  have run: "aggregate utc opts (first # rows) = agg_run utc rows b"
    using s a jadd_jint [OF le] by (simp add: aggregate_def agg_transform_def b_def)
  have "\<exists>m. published (ag_timefield b) (agg_run utc rows b)
     = ag_bucket_timestamp b # map (\<lambda>k. jint (t0 + I + int (k + 1) * I)) [0..<m]"
    using assms a by (intro agg_run_timestamps) (auto simp: b_def counted_def algebra_simps)
  then show ?thesis by (simp add: run b_def a algebra_simps)
qed

theorem aggregate_timestamps_witness:
  "\<exists>m. published ''t'' (aggregate to_number
        \<lparr>ao_timefield = ''t'', ao_valuefield = ''v'', ao_function = None, ao_interval = Some (jint 10)\<rparr>
        [[(''t'', ''5''), (''v'', ''7'')], [(''t'', ''99''), (''v'', ''7'')]])
      = Fin 0 # map (\<lambda>k. jint (5 + int (k + 2) * 10)) [0..<m]"
proof -
  have "to_number ''5'' = jint 5" using to_number_digits [of "''5''"]
    by (simp add: is_digit_def digits_val_def digit_val_def jint_def)
  then show ?thesis
    using aggregate_timestamps [of "\<lparr>ao_timefield = ''t'', ao_valuefield = ''v'', ao_function = None, ao_interval = Some (jint 10)\<rparr>"
        10 "[(''t'', ''5''), (''v'', ''7'')]" "[[(''t'', ''99''), (''v'', ''7'')]]" to_number 5]
    by (simp add: om_has_def)
qed

end
