(* ===== verification/Google_Analytics.thy ===== *)
theory Google_Analytics
  imports JS_Value "HOL-Library.Multiset"
begin

text \<open>
  The tracker of usage statistics, \<open>app/browser/lib/Analytics/GoogleAnalytics.js\<close>: hits are queued in
  memory, saved to a store of the browser (IndexedDB) when 20 are waiting, read back and posted
  in batches, and deleted once they have been posted. Every call of the store and of the
  network ends later, in any order, and may fail. The theorems say when no hit is lost,
  how large a request is, and that a hit may be posted twice.
\<close>

section \<open>Hits\<close>

definition hex_char :: "nat \<Rightarrow> char" where
  "hex_char d = (if d < 10 then digit_char d else char_of (55 + d))"

definition percent :: "nat \<Rightarrow> string" where
  "percent b = [CHR ''%'', hex_char (b div 16), hex_char (b mod 16)]"

definition uri_keeps :: "char \<Rightarrow> bool" where
  "uri_keeps c = (let n = (of_char c :: nat) in 48 \<le> n \<and> n \<le> 57 \<or> 65 \<le> n \<and> n \<le> 90 \<or> 97 \<le> n \<and> n \<le> 122
     \<or> c \<in> set '';,/?:@&=+$-_.!~*()#'' \<or> n = 39)"

text \<open>\<open>encodeURI(s)\<close>; characters from 128 on take two bytes.\<close>

definition encodeURI :: "string \<Rightarrow> string" where
  "encodeURI s = concat (map (\<lambda>c. let n = of_char c in
     if uri_keeps c then [c]
     else if n < 128 then percent n
     else percent (192 + n div 64) @ percent (128 + n mod 64)) s)"

definition GA_BATCH_SIZE :: nat where
  "GA_BATCH_SIZE = 20"

definition MAX_QUEUE_SIZE :: nat where
  "MAX_QUEUE_SIZE = 20"

text \<open>\<open>localStorage\<close> with the id of the user; \<open>uuid\<close> is a new one.\<close>

definition getUserId :: "string \<Rightarrow> string option \<Rightarrow> string \<times> string option" where
  "getUserId uuid storage = (case storage of
       Some user \<Rightarrow> if user \<noteq> '''' then (user, storage) else (uuid, Some uuid)
     | None \<Rightarrow> (uuid, Some uuid))"

section \<open>State\<close>

text \<open>
  The tracker (\<open>_header\<close>, \<open>_queue\<close>, the endpoints and whether \<open>_db\<close> is open), the object store
  \<open>pending\<close> with its key generator, and what is under way: transactions that add hits, calls of
  \<open>_upload\<close> that wait for the records, requests and transactions that delete keys. \<open>ga_received\<close> are
  the batches that were posted.
\<close>

record tracker =
  ga_header :: string
  ga_debug :: bool
  ga_queue :: "string list"
  ga_open :: bool
  ga_pending :: "(nat \<times> string) list"
  ga_next :: nat
  ga_saving :: "string list list"
  ga_uploads :: nat
  ga_posting :: "(nat \<times> string) list list"
  ga_received :: "(nat \<times> string) list list"
  ga_deleting :: "nat list list"

definition new_tracker :: "string \<Rightarrow> string \<Rightarrow> string \<Rightarrow> bool \<Rightarrow> string \<Rightarrow> string + tracker" where
  "new_tracker trackingId appName version debug userId =
     (if trackingId = '''' \<and> \<not> debug then Inl ''Invalid Google Analytics Tracking ID''
      else let trackingId = (if trackingId = '''' then ''UA-DEBUG'' else trackingId) in
        Inr \<lparr>ga_header = ''v=1&tid='' @ trackingId @ ''&cid='' @ userId @ ''&an='' @ appName @ ''&av='' @ version,
             ga_debug = debug, ga_queue = [], ga_open = False, ga_pending = [], ga_next = 1, ga_saving = [],
             ga_uploads = 0, ga_posting = [], ga_received = [], ga_deleting = []\<rparr>)"

section \<open>Operations\<close>

definition upload :: "tracker \<Rightarrow> tracker" where
  "upload s = (if ga_open s then s\<lparr>ga_uploads := ga_uploads s + 1\<rparr> else s)"

text \<open>Without an open store the promise is rejected; nobody keeps the hits.\<close>

definition savePending :: "string list \<Rightarrow> tracker \<Rightarrow> tracker" where
  "savePending hits s =
     (if hits = [] then upload s
      else if ga_open s then s\<lparr>ga_saving := ga_saving s @ [hits]\<rparr>
      else s)"

definition synchronize :: "tracker \<Rightarrow> tracker" where
  "synchronize s = savePending (ga_queue s) (s\<lparr>ga_queue := []\<rparr>)"

definition push :: "string \<Rightarrow> tracker \<Rightarrow> tracker" where
  "push payload s =
     (let s = s\<lparr>ga_queue := ga_queue s @ [encodeURI payload]\<rparr>
      in if MAX_QUEUE_SIZE \<le> length (ga_queue s) then synchronize s else s)"

definition pageView :: "string \<Rightarrow> string \<Rightarrow> tracker \<Rightarrow> tracker" where
  "pageView name title s = push (ga_header s @ ''&t=pageView&dp='' @ name @ ''&dt='' @ title) s"

definition track_event :: "string \<Rightarrow> string \<Rightarrow> string \<Rightarrow> nat \<Rightarrow> tracker \<Rightarrow> tracker" where
  "track_event category action label val s =
     push (ga_header s @ ''&t=event&ec='' @ category @ ''&ea='' @ action @ ''&el='' @ label @ ''&ev='' @ show_nat val) s"

definition track_exception :: "string \<Rightarrow> bool \<Rightarrow> tracker \<Rightarrow> tracker" where
  "track_exception description fatal s =
     push (ga_header s @ ''&t=exception&exd='' @ description @ ''&exf='' @ (if fatal then ''1'' else ''0'')) s"

text \<open>The transaction of \<open>_savePending\<close> completes: every hit gets the next key.\<close>

definition add_hit :: "string \<Rightarrow> tracker \<Rightarrow> tracker" where
  "add_hit v s = s\<lparr>ga_pending := ga_pending s @ [(ga_next s, v)], ga_next := ga_next s + 1\<rparr>"

definition saved :: "string list \<Rightarrow> tracker \<Rightarrow> tracker" where
  "saved hits s = upload (fold add_hit hits s)"

text \<open>The loop of \<open>_upload\<close> over \<open>records.splice(0, GA_BATCH_SIZE)\<close>.\<close>

function batches :: "'a list \<Rightarrow> 'a list list" where
  "batches records = (if records = [] then []
     else take GA_BATCH_SIZE records # batches (drop GA_BATCH_SIZE records))"
  by auto
termination by (relation "measure length") (auto simp: GA_BATCH_SIZE_def)

declare batches.simps [simp del]

definition upload_records :: "tracker \<Rightarrow> tracker" where
  "upload_records s = s\<lparr>ga_uploads := ga_uploads s - 1, ga_posting := ga_posting s @ batches (ga_pending s)\<rparr>"

definition post_url :: "bool \<Rightarrow> 'a list \<Rightarrow> string" where
  "post_url debug payload =
     (let endpoint = (if debug then ''https://www.google-analytics.com/debug'' else ''https://www.google-analytics.com'')
      in if length payload = 1 then endpoint @ ''/collect''
         else if debug then endpoint @ ''/collect'' else endpoint @ ''/batch'')"

definition deletePending :: "nat list \<Rightarrow> tracker \<Rightarrow> tracker" where
  "deletePending keys s = (if keys = [] then s else s\<lparr>ga_deleting := ga_deleting s @ [keys]\<rparr>)"

definition delete_keys :: "nat list \<Rightarrow> tracker \<Rightarrow> tracker" where
  "delete_keys keys s = s\<lparr>ga_pending := filter (\<lambda>(k, v). k \<notin> set keys) (ga_pending s)\<rparr>"

section \<open>Events\<close>

text \<open>Calls of the application, and ends of what is under way, by position.\<close>

datatype ga_event =
    Push string
  | Synchronize
  | Opened
  | Saved nat
  | SaveFailed nat
  | Read
  | ReadFailed
  | Posted nat
  | PostFailed nat
  | DeletedKeys nat
  | DeleteFailed nat

definition without :: "nat \<Rightarrow> 'a list \<Rightarrow> 'a list" where
  "without i xs = take i xs @ drop (Suc i) xs"

fun ga_step :: "ga_event \<Rightarrow> tracker \<Rightarrow> tracker option" where
  "ga_step (Push payload) s = Some (push payload s)"
| "ga_step Synchronize s = Some (synchronize s)"
| "ga_step Opened s = (if ga_open s then None else Some (synchronize (s\<lparr>ga_open := True\<rparr>)))"
| "ga_step (Saved i) s = (if i < length (ga_saving s)
     then Some (saved (ga_saving s ! i) (s\<lparr>ga_saving := without i (ga_saving s)\<rparr>)) else None)"
| "ga_step (SaveFailed i) s = (if i < length (ga_saving s)
     then Some (s\<lparr>ga_saving := without i (ga_saving s)\<rparr>) else None)"
| "ga_step Read s = (if 0 < ga_uploads s then Some (upload_records s) else None)"
| "ga_step ReadFailed s = (if 0 < ga_uploads s then Some (s\<lparr>ga_uploads := ga_uploads s - 1\<rparr>) else None)"
| "ga_step (Posted i) s = (if i < length (ga_posting s)
     then let batch = ga_posting s ! i in Some (deletePending (map fst batch)
       (s\<lparr>ga_posting := without i (ga_posting s), ga_received := ga_received s @ [batch]\<rparr>)) else None)"
| "ga_step (PostFailed i) s = (if i < length (ga_posting s)
     then Some (s\<lparr>ga_posting := without i (ga_posting s)\<rparr>) else None)"
| "ga_step (DeletedKeys i) s = (if i < length (ga_deleting s)
     then Some (delete_keys (ga_deleting s ! i) (s\<lparr>ga_deleting := without i (ga_deleting s)\<rparr>)) else None)"
| "ga_step (DeleteFailed i) s = (if i < length (ga_deleting s)
     then Some (s\<lparr>ga_deleting := without i (ga_deleting s)\<rparr>) else None)"

fun ga_run :: "ga_event list \<Rightarrow> tracker \<Rightarrow> tracker option" where
  "ga_run [] s = Some s"
| "ga_run (e # es) s = (case ga_step e s of None \<Rightarrow> None | Some t \<Rightarrow> ga_run es t)"

section \<open>No hit is lost\<close>

lemma set_without: "set (without i xs) \<subseteq> set xs"
  by (auto simp: without_def dest: in_set_takeD in_set_dropD)

lemma mset_without: "i < length xs \<Longrightarrow> mset (concat xs) = mset (xs ! i) + mset (concat (without i xs))"
  by (subst id_take_nth_drop [of i xs]) (simp_all add: without_def)

lemma concat_batches [simp]: "concat (batches xs) = xs"
proof (induction xs rule: batches.induct)
  case (1 xs)
  then show ?case by (subst batches.simps) auto
qed

lemma batches_size: "b \<in> set (batches xs) \<Longrightarrow> b \<noteq> [] \<and> length b \<le> GA_BATCH_SIZE \<and> set b \<subseteq> set xs"
proof (induction xs rule: batches.induct)
  case (1 xs)
  have "xs \<noteq> []" using "1.prems" by (auto simp: batches.simps [of "[]"])
  then have "b = take GA_BATCH_SIZE xs \<or> b \<in> set (batches (drop GA_BATCH_SIZE xs))"
    using "1.prems" by (subst (asm) batches.simps) simp
  then show ?case
    using "1.IH" \<open>xs \<noteq> []\<close> by (auto simp: GA_BATCH_SIZE_def dest: in_set_takeD in_set_dropD)
qed

definition batch_ok :: "'a list \<Rightarrow> 'a list \<Rightarrow> bool" where
  "batch_ok recs b = (b \<noteq> [] \<and> length b \<le> GA_BATCH_SIZE \<and> set b \<subseteq> set recs)"

definition key_sent :: "(nat \<times> string) list list \<Rightarrow> nat \<Rightarrow> bool" where
  "key_sent bs k = (\<exists>v. (k, v) \<in> set (concat bs))"

text \<open>\<open>recs\<close> are all records that were ever saved, \<open>hits\<close> all hits so far.\<close>

definition tracked :: "string list \<Rightarrow> (nat \<times> string) list \<Rightarrow> tracker \<Rightarrow> bool" where
  "tracked hits recs s = (mset hits = mset (ga_queue s) + mset (concat (ga_saving s)) + mset (map snd recs)
     \<and> distinct (map fst recs) \<and> (\<forall>(k, v)\<in>set recs. k < ga_next s)
     \<and> set (ga_pending s) \<subseteq> set recs \<and> set recs \<subseteq> set (ga_pending s) \<union> set (concat (ga_received s))
     \<and> (\<forall>b\<in>set (ga_posting s) \<union> set (ga_received s). batch_ok recs b)
     \<and> (\<forall>ks\<in>set (ga_deleting s). \<forall>k\<in>set ks. key_sent (ga_received s) k))"

lemma tracked_upload [simp]: "tracked hits recs (upload s) = tracked hits recs s"
  by (simp add: tracked_def upload_def)

lemma upload_open [simp]: "ga_open (upload s) = ga_open s"
  by (simp add: upload_def)

lemma tracked_synchronize:
  assumes "tracked hits recs s" and "ga_open s \<or> ga_queue s = []"
  shows "tracked hits recs (synchronize s)"
  using assms by (auto simp: synchronize_def savePending_def tracked_def upload_def)

lemma tracked_push:
  assumes "tracked hits recs s" and "ga_open s \<or> length (ga_queue s) < 19"
  shows "tracked (hits @ [encodeURI p]) recs (push p s)"
proof -
  have q: "tracked (hits @ [encodeURI p]) recs (s\<lparr>ga_queue := ga_queue s @ [encodeURI p]\<rparr>)"
    using assms(1) by (simp add: tracked_def)
  show ?thesis
  proof (cases "ga_open s")
    case True
    then show ?thesis using q by (auto simp: push_def Let_def intro: tracked_synchronize)
  next
    case False
    then show ?thesis using q assms(2) by (simp add: push_def Let_def MAX_QUEUE_SIZE_def)
  qed
qed

text \<open>Saved hits get keys of their own.\<close>

lemma tracked_add_hit:
  assumes "tracked hits recs s"
  shows "tracked (hits @ [v]) (recs @ [(ga_next s, v)]) (add_hit v s)"
proof -
  have "ga_next s \<notin> set (map fst recs)" using assms by (auto simp: tracked_def)
  moreover have "\<forall>(k, v)\<in>set recs. k < ga_next s + 1" using assms by (force simp: tracked_def)
  moreover have "\<forall>b\<in>set (ga_posting s) \<union> set (ga_received s). batch_ok (recs @ [(ga_next s, v)]) b"
    using assms by (auto simp: tracked_def batch_ok_def)
  ultimately show ?thesis using assms by (simp add: tracked_def add_hit_def) blast
qed

lemma tracked_add:
  assumes "tracked hits recs s"
  shows "\<exists>recs'. tracked (hits @ vs) recs' (fold add_hit vs s)"
  using assms
proof (induction vs arbitrary: hits recs s)
  case (Cons v vs)
  from Cons.IH [OF tracked_add_hit [OF Cons.prems]] show ?case by simp
qed auto

lemma tracked_mset: "mset hits = mset hits' \<Longrightarrow> tracked hits recs s = tracked hits' recs s"
  by (simp add: tracked_def)

lemma tracked_saved:
  assumes "tracked hits recs s" and "i < length (ga_saving s)"
  shows "\<exists>recs'. tracked hits recs' (saved (ga_saving s ! i) (s\<lparr>ga_saving := without i (ga_saving s)\<rparr>))"
proof -
  let ?vs = "ga_saving s ! i" and ?s = "s\<lparr>ga_saving := without i (ga_saving s)\<rparr>"
  have m: "mset (concat (ga_saving s)) = mset ?vs + mset (concat (without i (ga_saving s)))"
    by (rule mset_without [OF assms(2)])
  obtain rest where r: "mset hits = mset rest + mset ?vs"
    and t: "tracked rest recs ?s"
  proof
    show "mset hits = mset (ga_queue s @ concat (without i (ga_saving s)) @ map snd recs) + mset ?vs"
      using assms(1) m by (simp add: tracked_def)
    show "tracked (ga_queue s @ concat (without i (ga_saving s)) @ map snd recs) recs ?s"
      using assms(1) by (simp add: tracked_def)
  qed
  from tracked_add [OF t] obtain recs' where "tracked (rest @ ?vs) recs' (fold add_hit ?vs ?s)" by blast
  then show ?thesis using tracked_mset [of "rest @ ?vs" hits] r by (auto simp: saved_def)
qed

lemma tracked_delete:
  assumes "tracked hits recs s" and "ks \<in> set (ga_deleting s)" and "set ds \<subseteq> set (ga_deleting s)"
  shows "tracked hits recs (delete_keys ks (s\<lparr>ga_deleting := ds\<rparr>))"
proof -
  have "(k, v) \<in> set (concat (ga_received s))" if kv: "(k, v) \<in> set recs" and k: "k \<in> set ks" for k v
  proof -
    have "\<exists>w. (k, w) \<in> set (concat (ga_received s))" using assms(1,2) k unfolding tracked_def key_sent_def by blast
    then obtain w where w: "(k, w) \<in> set (concat (ga_received s))" ..
    then have "(k, w) \<in> set recs" using assms(1) by (auto simp: tracked_def batch_ok_def)
    then show ?thesis using w kv assms(1) by (metis eq_key_imp_eq_value tracked_def)
  qed
  then show ?thesis using assms(1,3) by (fastforce simp: tracked_def delete_keys_def)
qed

lemma tracked_read: "tracked hits recs s \<Longrightarrow> tracked hits recs (upload_records s)"
  using batches_size [of _ "ga_pending s"] by (auto simp: tracked_def upload_records_def batch_ok_def)

lemma tracked_posting:
  "tracked hits recs s \<Longrightarrow> set ps \<subseteq> set (ga_posting s) \<Longrightarrow> tracked hits recs (s\<lparr>ga_posting := ps\<rparr>)"
  by (auto simp: tracked_def)

lemma key_sent_snoc: "key_sent (bs @ [b]) k = (key_sent bs k \<or> k \<in> set (map fst b))"
  by (force simp: key_sent_def)

lemma tracked_posted:
  assumes "tracked hits recs s" and "b \<in> set (ga_posting s)"
  shows "tracked hits recs (deletePending (map fst b) (s\<lparr>ga_received := ga_received s @ [b]\<rparr>))"
  using assms by (auto simp: tracked_def deletePending_def key_sent_snoc)

text \<open>The hit that an event pushes.\<close>

definition hits_of :: "ga_event \<Rightarrow> string list" where
  "hits_of e = (case e of Push p \<Rightarrow> [encodeURI p] | _ \<Rightarrow> [])"

lemma hits_of_simps [simp]:
  "hits_of (Push p) = [encodeURI p]" "hits_of Synchronize = []" "hits_of Opened = []" "hits_of (Saved i) = []"
  "hits_of (SaveFailed i) = []" "hits_of Read = []" "hits_of ReadFailed = []" "hits_of (Posted i) = []"
  "hits_of (PostFailed i) = []" "hits_of (DeletedKeys i) = []" "hits_of (DeleteFailed i) = []"
  by (simp_all add: hits_of_def)

lemma tracked_step:
  assumes "ga_step e s = Some t" and "tracked hits recs s"
    and "\<forall>i. e \<noteq> SaveFailed i" and "ga_open s \<or> (case e of Synchronize \<Rightarrow> False | Push p \<Rightarrow> length (ga_queue s) < 19 | _ \<Rightarrow> True)"
  shows "\<exists>recs'. tracked (hits @ hits_of e) recs' t"
proof (cases e)
  case (Push p)
  then show ?thesis using assms tracked_push by fastforce
next
  case Synchronize
  then show ?thesis using assms tracked_synchronize by fastforce
next
  case Opened
  have "tracked hits recs (s\<lparr>ga_open := True\<rparr>)" using assms(2) by (simp add: tracked_def)
  from tracked_synchronize [OF this] show ?thesis using assms(1) Opened by (auto split: if_splits)
next
  case (Saved i)
  then show ?thesis using assms(1,2) tracked_saved by (auto split: if_splits)
next
  case (SaveFailed i)
  then show ?thesis using assms(3) by simp
next
  case Read
  then show ?thesis using assms(1) tracked_read [OF assms(2)] by (auto split: if_splits)
next
  case ReadFailed
  have "tracked hits recs (s\<lparr>ga_uploads := ga_uploads s - 1\<rparr>)" using assms(2) by (simp add: tracked_def)
  then show ?thesis using ReadFailed assms(1) by (auto split: if_splits)
next
  case (Posted i)
  then have i: "i < length (ga_posting s)" using assms(1) by (auto split: if_splits)
  let ?t = "deletePending (map fst (ga_posting s ! i)) (s\<lparr>ga_received := ga_received s @ [ga_posting s ! i]\<rparr>)"
  have "tracked hits recs ?t" by (rule tracked_posted [OF assms(2)]) (simp add: i)
  moreover have "set (without i (ga_posting s)) \<subseteq> set (ga_posting ?t)"
    using set_without [of i "ga_posting s"] by (auto simp: deletePending_def)
  ultimately have "tracked hits recs (?t\<lparr>ga_posting := without i (ga_posting s)\<rparr>)" by (rule tracked_posting)
  moreover have "t = ?t\<lparr>ga_posting := without i (ga_posting s)\<rparr>"
    using Posted assms(1) i by (auto simp: deletePending_def Let_def)
  ultimately show ?thesis using Posted by auto
next
  case (PostFailed i)
  then show ?thesis using assms(1) tracked_posting [OF assms(2) set_without, of i] by (auto split: if_splits)
next
  case (DeletedKeys i)
  then have i: "i < length (ga_deleting s)" using assms(1) by (auto split: if_splits)
  have "tracked hits recs (delete_keys (ga_deleting s ! i) (s\<lparr>ga_deleting := without i (ga_deleting s)\<rparr>))"
    by (rule tracked_delete [OF assms(2) _ set_without]) (simp add: i)
  then show ?thesis using DeletedKeys assms(1) i by auto
next
  case (DeleteFailed i)
  have "tracked hits recs (s\<lparr>ga_deleting := without i (ga_deleting s)\<rparr>)"
    using assms(2) set_without [of i "ga_deleting s"] by (auto simp: tracked_def)
  then show ?thesis using DeleteFailed assms(1) by (auto split: if_splits)
qed

text \<open>What was pushed, and runs that open the store before 20 hits have come in.\<close>

definition pushed :: "ga_event list \<Rightarrow> string list" where
  "pushed es = concat (map hits_of es)"

lemma pushed_simps [simp]: "pushed [] = []" "pushed (e # es) = hits_of e @ pushed es"
  by (simp_all add: pushed_def)

definition in_time :: "ga_event list \<Rightarrow> bool" where
  "in_time es = (let before = takeWhile (\<lambda>e. e \<noteq> Opened) es
     in Synchronize \<notin> set before \<and> length (pushed before) < MAX_QUEUE_SIZE)"

definition saves :: "ga_event list \<Rightarrow> bool" where
  "saves es = list_all (\<lambda>e. case e of SaveFailed i \<Rightarrow> False | _ \<Rightarrow> True) es"

lemma open_step: "ga_step e s = Some t \<Longrightarrow> ga_open s \<or> e = Opened \<Longrightarrow> ga_open t"
proof (cases e)
  case (Saved i)
  have "ga_open (fold add_hit vs u) = ga_open u" for vs u
    by (induction vs arbitrary: u) (auto simp: add_hit_def)
  then show "ga_open t" if "ga_step e s = Some t" "ga_open s \<or> e = Opened"
    using that Saved by (auto simp: saved_def split: if_splits)
qed (auto simp: push_def synchronize_def savePending_def upload_records_def deletePending_def delete_keys_def Let_def
    split: if_splits)

lemma queue_step: "ga_step e s = Some t \<Longrightarrow> \<not> ga_open s \<Longrightarrow> e \<noteq> Opened \<Longrightarrow>
    length (ga_queue t) \<le> length (ga_queue s) + length (hits_of e)"
proof (cases e)
  case (Saved i)
  have "ga_queue (fold add_hit vs u) = ga_queue u" for vs u
    by (induction vs arbitrary: u) (auto simp: add_hit_def)
  then show ?thesis if "ga_step e s = Some t" "\<not> ga_open s" "e \<noteq> Opened"
    using that Saved by (auto simp: saved_def upload_def split: if_splits)
qed (auto simp: push_def synchronize_def savePending_def upload_def upload_records_def deletePending_def delete_keys_def
    Let_def split: if_splits)

lemma tracked_run:
  assumes "ga_run es s = Some t" and "tracked hits recs s" and "saves es"
    and "ga_open s \<or> Synchronize \<notin> set (takeWhile (\<lambda>e. e \<noteq> Opened) es)
      \<and> length (ga_queue s) + length (pushed (takeWhile (\<lambda>e. e \<noteq> Opened) es)) < 20"
  shows "\<exists>recs'. tracked (hits @ pushed es) recs' t"
  using assms
proof (induction es arbitrary: s hits recs)
  case Nil
  then show ?case by auto
next
  case (Cons e es)
  obtain u where u: "ga_step e s = Some u" and r: "ga_run es u = Some t" using Cons.prems(1) by (auto split: option.splits)
  have "\<forall>i. e \<noteq> SaveFailed i" using Cons.prems(3) by (auto simp: saves_def)
  moreover have "ga_open s \<or> (case e of Synchronize \<Rightarrow> False | Push p \<Rightarrow> length (ga_queue s) < 19 | _ \<Rightarrow> True)"
    using Cons.prems(4) by (auto split: ga_event.split)
  ultimately obtain recs' where "tracked (hits @ hits_of e) recs' u" using tracked_step [OF u Cons.prems(2)] by blast
  moreover have "saves es" using Cons.prems(3) by (simp add: saves_def)
  moreover have "ga_open u \<or> Synchronize \<notin> set (takeWhile (\<lambda>e. e \<noteq> Opened) es)
      \<and> length (ga_queue u) + length (pushed (takeWhile (\<lambda>e. e \<noteq> Opened) es)) < 20"
    using open_step [OF u] queue_step [OF u] Cons.prems(4) by (cases "e = Opened"; cases "ga_open s") auto
  ultimately show ?case using Cons.IH [OF r] by fastforce
qed

lemma new_tracker_state:
  assumes "new_tracker i n v d u = Inr s"
  obtains h where "s = \<lparr>ga_header = h, ga_debug = d, ga_queue = [], ga_open = False, ga_pending = [], ga_next = 1,
    ga_saving = [], ga_uploads = 0, ga_posting = [], ga_received = [], ga_deleting = []\<rparr>"
  using assms by (auto simp: new_tracker_def Let_def split: if_splits)

lemmas ga_eval = push_def synchronize_def savePending_def upload_def MAX_QUEUE_SIZE_def saved_def add_hit_def
  upload_records_def deletePending_def delete_keys_def without_def Let_def

lemma tracked_new: "new_tracker i n v d u = Inr s \<Longrightarrow> tracked [] [] s \<and> ga_queue s = [] \<and> \<not> ga_open s"
  by (auto simp: new_tracker_def tracked_def Let_def split: if_splits)

lemma batches_short: "batches [] = []" "length xs < 20 \<Longrightarrow> batches (x # xs) = [x # xs]"
  by (simp add: batches.simps [of "[]"]) (simp add: batches.simps [of "x # xs"] batches.simps [of "[]"] GA_BATCH_SIZE_def)

text \<open>A sum of distinct records is covered by a sum that holds each of them.\<close>

lemma mset_covered:
  assumes "distinct xs" and "set xs \<subseteq> set ys"
  shows "image_mset f (mset xs) \<subseteq># image_mset f (mset ys)"
proof (rule image_mset_subseteq_mono)
  have "mset xs = mset_set (set xs)" using assms(1) by (simp add: mset_set_set)
  also have "\<dots> \<subseteq># mset_set (set ys)" using assms(2) by (simp add: subset_imp_msubset_mset_set)
  also have "\<dots> \<subseteq># mset ys" by (metis mset_remdups_subset_eq mset_set_set set_remdups distinct_remdups)
  finally show "mset xs \<subseteq># mset ys" .
qed

text \<open>C23: when the store opens before 20 hits have come in and no transaction that saves hits fails, no
  hit is ever lost: after any sequence of calls, answers and failures of the network, every hit that was
  pushed is still queued, being saved or stored, or it has been posted; and every request
  carries between one and 20 hits that were pushed.\<close>

theorem no_hit_lost:
  assumes "new_tracker trackingId appName version debug userId = Inr s" and "ga_run es s = Some t"
    and "in_time es" and "saves es"
  shows "mset (pushed es) \<subseteq># mset (ga_queue t) + mset (concat (ga_saving t)) + mset (map snd (ga_pending t))
      + mset (map snd (concat (ga_received t)))
    \<and> (\<forall>b\<in>set (ga_received t). 1 \<le> length b \<and> length b \<le> 20 \<and> snd ` set b \<subseteq> set (pushed es))"
proof -
  have n: "tracked [] [] s" "ga_queue s = []" using tracked_new [OF assms(1)] by auto
  obtain recs where t: "tracked (pushed es) recs t"
    using tracked_run [OF assms(2) n(1) assms(4)] assms(3) n(2) by (auto simp: in_time_def MAX_QUEUE_SIZE_def Let_def)
  have "distinct recs" using t by (auto simp: tracked_def distinct_map)
  moreover have "set recs \<subseteq> set (ga_pending t @ concat (ga_received t))" using t by (auto simp: tracked_def)
  ultimately have "image_mset snd (mset recs) \<subseteq># image_mset snd (mset (ga_pending t @ concat (ga_received t)))"
    by (rule mset_covered)
  then have c: "mset (map snd recs) \<subseteq># mset (map snd (ga_pending t)) + mset (map snd (concat (ga_received t)))"
    by (simp del: mset_concat)
  have m: "mset (pushed es) = (mset (ga_queue t) + mset (concat (ga_saving t))) + mset (map snd recs)"
    using t unfolding tracked_def by blast
  have "mset (pushed es) \<subseteq># (mset (ga_queue t) + mset (concat (ga_saving t)))
      + (mset (map snd (ga_pending t)) + mset (map snd (concat (ga_received t))))"
    unfolding m by (rule subset_mset.add_left_mono [OF c])
  moreover have "snd ` set recs \<subseteq> set (pushed es)" using arg_cong [OF m, of set_mset] by auto
  then have "1 \<le> length b \<and> length b \<le> 20 \<and> snd ` set b \<subseteq> set (pushed es)" if "b \<in> set (ga_received t)" for b
  proof -
    have "batch_ok recs b" using t that unfolding tracked_def by blast
    then show ?thesis using \<open>snd ` set recs \<subseteq> set (pushed es)\<close>
      by (cases b) (auto simp: batch_ok_def GA_BATCH_SIZE_def)
  qed
  ultimately show ?thesis unfolding add.assoc by blast
qed

theorem no_hit_lost_witness:
  "\<exists>s t. new_tracker ''UA-1'' ''HTM Studio'' ''1.0'' False ''me'' = Inr s
    \<and> ga_run [Push ''a b'', Opened, Saved 0, Read, Posted 0, DeletedKeys 0] s = Some t
    \<and> mset [''a%20b''] \<subseteq># mset (map snd (concat (ga_received t)))"
proof -
  let ?es = "[Push ''a b'', Opened, Saved 0, Read, Posted 0, DeletedKeys 0]"
  obtain s where s: "new_tracker ''UA-1'' ''HTM Studio'' ''1.0'' False ''me'' = Inr s" by (simp add: new_tracker_def Let_def)
  then obtain h where "s = \<lparr>ga_header = h, ga_debug = False, ga_queue = [], ga_open = False, ga_pending = [], ga_next = 1,
    ga_saving = [], ga_uploads = 0, ga_posting = [], ga_received = [], ga_deleting = []\<rparr>"
    using new_tracker_state by blast
  then have "\<exists>t. ga_run ?es s = Some t \<and> ga_queue t = [] \<and> ga_saving t = [] \<and> ga_pending t = []"
    by (simp add: ga_eval batches_short)
  then obtain t where t: "ga_run ?es s = Some t" "ga_queue t = []" "ga_saving t = []" "ga_pending t = []" by blast
  have "in_time ?es" "saves ?es" by (simp_all add: in_time_def saves_def MAX_QUEUE_SIZE_def)
  from no_hit_lost [OF s t(1) this] have "mset (pushed ?es) \<subseteq># mset (map snd (concat (ga_received t)))" using t(2-4) by simp
  moreover have "pushed ?es = [''a%20b'']"
    by code_simp
  ultimately show ?thesis using s t(1) by metis
qed

text \<open>when 20 hits come in before the store is open, all of them are lost: after the store has opened, nothing is
  queued, being saved, stored or posted.\<close>

theorem hits_lost_before_open:
  assumes "new_tracker trackingId appName version debug userId = Inr s" and "length payloads = 20"
  shows "\<exists>t. ga_run (map Push payloads @ [Opened]) s = Some t
    \<and> ga_queue t = [] \<and> ga_saving t = [] \<and> ga_pending t = [] \<and> ga_posting t = [] \<and> ga_received t = []"
proof -
  have push: "ga_run (map Push ps) u = Some (u\<lparr>ga_queue := ga_queue u @ map encodeURI ps\<rparr>)"
    if "length (ga_queue u) + length ps < 20" for ps u
    using that by (induction ps arbitrary: u) (auto simp: push_def MAX_QUEUE_SIZE_def Let_def)
  have app: "ga_run (es @ fs) u = (case ga_run es u of None \<Rightarrow> None | Some v \<Rightarrow> ga_run fs v)" for es fs u
    by (induction es arbitrary: u) (auto split: option.splits)
  have s: "ga_queue s = []" "\<not> ga_open s" "ga_saving s = []" "ga_pending s = []" "ga_posting s = []" "ga_received s = []"
    using assms(1) by (auto simp: new_tracker_def Let_def split: if_splits)
  obtain p ps where ps: "payloads = ps @ [p]" "length ps = 19"
    using assms(2) by (cases payloads rule: rev_cases) auto
  then have "ga_run (map Push payloads) s = Some (s\<lparr>ga_queue := []\<rparr>)"
    using push [of s ps] s by (simp add: app push_def synchronize_def savePending_def MAX_QUEUE_SIZE_def Let_def)
  then show ?thesis using s by (simp add: app synchronize_def savePending_def upload_def)
qed

theorem hits_lost_before_open_witness:
  "\<exists>s t. new_tracker ''UA-1'' ''HTM Studio'' ''1.0'' False ''me'' = Inr s
    \<and> ga_run (map Push (replicate 20 ''hit'') @ [Opened]) s = Some t \<and> ga_pending t = []"
proof -
  obtain s where s: "new_tracker ''UA-1'' ''HTM Studio'' ''1.0'' False ''me'' = Inr s" by (simp add: new_tracker_def Let_def)
  show ?thesis using s hits_lost_before_open [OF s, of "replicate 20 ''hit''"] by auto
qed

text \<open>two synchronisations that overlap post the same hit twice: the second reads the record before the
  first has deleted it.\<close>

theorem hit_posted_twice:
  assumes "new_tracker trackingId appName version debug userId = Inr s"
  shows "\<exists>t. ga_run [Opened, Read, Push p, Synchronize, Saved 0, Read, Synchronize, Read, Posted 0, Posted 0,
      DeletedKeys 0, DeletedKeys 0] s = Some t
    \<and> map (map snd) (ga_received t) = [[encodeURI p], [encodeURI p]]"
proof -
  obtain h where "s = \<lparr>ga_header = h, ga_debug = debug, ga_queue = [], ga_open = False, ga_pending = [], ga_next = 1,
    ga_saving = [], ga_uploads = 0, ga_posting = [], ga_received = [], ga_deleting = []\<rparr>"
    using new_tracker_state [OF assms] by blast
  then show ?thesis by (simp add: ga_eval batches_short)
qed

theorem hit_posted_twice_witness:
  "\<exists>s t. new_tracker ''UA-1'' ''HTM Studio'' ''1.0'' False ''me'' = Inr s
    \<and> ga_run [Opened, Read, Push ''x'', Synchronize, Saved 0, Read, Synchronize, Read, Posted 0, Posted 0,
      DeletedKeys 0, DeletedKeys 0] s = Some t \<and> length (ga_received t) = 2"
proof -
  obtain s where s: "new_tracker ''UA-1'' ''HTM Studio'' ''1.0'' False ''me'' = Inr s" by (simp add: new_tracker_def Let_def)
  from hit_posted_twice [OF this, of "''x''"] obtain t where
    "ga_run [Opened, Read, Push ''x'', Synchronize, Saved 0, Read, Synchronize, Read, Posted 0, Posted 0,
      DeletedKeys 0, DeletedKeys 0] s = Some t" and "length (map (map snd) (ga_received t)) = 2"
    by (metis length_Cons list.size(3) numeral_2_eq_2)
  then show ?thesis using s unfolding length_map by blast
qed

end
