(* ===== verification/Common_Utils.thy ===== *)
theory Common_Utils
  imports JS_Value
begin

text \<open>
  The helpers shared by the main and the browser process: \<open>app/common/common-utils.js\<close>,
  \<open>app/common/Constants.js\<close>, \<open>app/common/timestamp.js\<close> and
  \<open>app/browser/lib/browser-utils.js\<close>. The date library \<open>moment\<close> is a parameter. The main
  results specify the binary search: termination, what it finds, and the value it returns
  for an absent key.
\<close>

section \<open>Anomaly scores\<close>

text \<open>The binary64 values of the literals \<open>0.5125976562500002\<close> and \<open>0.4\<close>.\<close>

definition ANOMALY_RED_VALUE :: jsnum where
  "ANOMALY_RED_VALUE = Fin (4617069227356981 / 9007199254740992)"

definition ANOMALY_YELLOW_VALUE :: jsnum where
  "ANOMALY_YELLOW_VALUE = Fin (3602879701896397 / 9007199254740992)"

definition PROBATION_LENGTH :: nat where
  "PROBATION_LENGTH = 390"

definition anomalyScale :: "jsnum \<Rightarrow> jsnum" where
  "anomalyScale value =
     (if jle ANOMALY_RED_VALUE value then Fin (5404319552844595 / 18014398509481984)
      else if jle ANOMALY_YELLOW_VALUE value then Fin (3602879701896397 / 18014398509481984)
      else Fin (3602879701896397 / 36028797018963968))"

text \<open>\<open>None\<close> is the \<open>null\<close> score of a record under probation.\<close>

definition mapAnomalyText :: "jsnum option \<Rightarrow> string" where
  "mapAnomalyText anomaly = (case anomaly of
       None \<Rightarrow> ''N/A''
     | Some a \<Rightarrow> if jle ANOMALY_RED_VALUE a then ''HIGH''
                else if jle ANOMALY_YELLOW_VALUE a then ''MEDIUM'' else ''LOW'')"

text \<open>Theme colours, by their role in the palette.\<close>

datatype colour = disabledColor | dangerColor | warnColor | safeColor | accent3Color

definition mapAnomalyColor :: "jsnum option \<Rightarrow> colour" where
  "mapAnomalyColor anomaly = (case anomaly of
       None \<Rightarrow> disabledColor
     | Some a \<Rightarrow> if jle ANOMALY_RED_VALUE a then dangerColor
                else if jle ANOMALY_YELLOW_VALUE a then warnColor else safeColor)"

lemma yellow_le_red: "jle ANOMALY_RED_VALUE a \<Longrightarrow> jle ANOMALY_YELLOW_VALUE a"
  by (cases a) (auto simp: ANOMALY_RED_VALUE_def ANOMALY_YELLOW_VALUE_def jle_def jeq_def)

section \<open>Template strings\<close>

text \<open>\<open>s.replace(/\n/g, ' ').replace(/\s+/g, ' ')\<close>: every run of white space becomes one blank.\<close>

function collapse_spaces :: "string \<Rightarrow> string" where
  "collapse_spaces [] = []"
| "collapse_spaces (c # s) =
     (if is_space c then CHR '' '' # collapse_spaces (dropWhile is_space s) else c # collapse_spaces s)"
  by pat_completeness auto

termination collapse_spaces
  by (relation "measure length") (auto simp: length_dropWhile_le le_imp_less_Suc)

fun trims :: "string list \<Rightarrow> string list \<Rightarrow> string" where
  "trims [] values = []"
| "trims (s # strings) [] = collapse_spaces s @ trims strings []"
| "trims (s # strings) (v # values) = collapse_spaces s @ v @ trims strings values"

section \<open>Binary search\<close>

text \<open>
  The loop of \<open>binarySearch\<close> on the half-open state \<open>min\<close>, \<open>max\<close>. \<open>(min + max) >>> 1\<close> is a
  32-bit operation, so the sum wraps at \<open>2 ^ 32\<close>; \<open>None\<close> is a loop that does not end.
  \<open>~max\<close> is \<open>- max - 1\<close>.
\<close>

partial_function (option) bsearch_loop ::
    "'a list \<Rightarrow> 'k \<Rightarrow> ('a \<Rightarrow> 'k \<Rightarrow> jsnum) \<Rightarrow> int \<Rightarrow> int \<Rightarrow> int option" where
  "bsearch_loop array key compare lo hi =
     (if lo \<le> hi then
        (let mid = ((lo + hi) mod 2 ^ 32) div 2;
             res = compare (array ! nat mid) key
         in if jlt res (Fin 0) then bsearch_loop array key compare (mid + 1) hi
            else if jlt (Fin 0) res then bsearch_loop array key compare lo (mid - 1)
            else Some mid)
      else Some (- hi - 1))"

definition binarySearch :: "'a list \<Rightarrow> 'k \<Rightarrow> ('a \<Rightarrow> 'k \<Rightarrow> jsnum) \<Rightarrow> int option" where
  "binarySearch array key compare =
     bsearch_loop array key compare 0 (int (length array) - 1)"

text \<open>The array is sorted for the key: the elements below it, those equal, those above.\<close>

definition partitioned :: "'a list \<Rightarrow> 'k \<Rightarrow> ('a \<Rightarrow> 'k \<Rightarrow> jsnum) \<Rightarrow> bool" where
  "partitioned array key compare =
     (\<forall>i j. i \<le> j \<longrightarrow> j < length array \<longrightarrow>
        (jlt (compare (array ! j) key) (Fin 0) \<longrightarrow> jlt (compare (array ! i) key) (Fin 0)) \<and>
        (jlt (Fin 0) (compare (array ! i) key) \<longrightarrow> jlt (Fin 0) (compare (array ! j) key)))"

definition below :: "'a list \<Rightarrow> 'k \<Rightarrow> ('a \<Rightarrow> 'k \<Rightarrow> jsnum) \<Rightarrow> nat" where
  "below array key compare = length (filter (\<lambda>a. jlt (compare a key) (Fin 0)) array)"

lemma jlt_zero_asym: "jlt x (Fin 0) \<Longrightarrow> \<not> jlt (Fin 0) x"
  by (cases x) auto

lemma bsearch_loop_correct:
  assumes "length array \<le> 2 ^ 31" and "partitioned array key compare"
    and "0 \<le> lo" and "lo \<le> hi + 1" and "hi < int (length array)"
    and "\<forall>i. int i < lo \<longrightarrow> jlt (compare (array ! i) key) (Fin 0)"
    and "\<forall>i. hi < int i \<longrightarrow> i < length array \<longrightarrow> jlt (Fin 0) (compare (array ! i) key)"
  shows "\<exists>r. bsearch_loop array key compare lo hi = Some r \<and>
      ((0 \<le> r \<and> r < int (length array) \<and> \<not> jlt (compare (array ! nat r) key) (Fin 0)
          \<and> \<not> jlt (Fin 0) (compare (array ! nat r) key))
       \<or> (r = - int (below array key compare)
          \<and> (\<forall>a\<in>set array. jlt (compare a key) (Fin 0) \<or> jlt (Fin 0) (compare a key))))"
  using assms(3-)
proof (induction "nat (hi + 1 - lo)" arbitrary: lo hi rule: less_induct)
  case less
  let ?lt = "\<lambda>a. jlt (compare a key) (Fin 0)" and ?gt = "\<lambda>a. jlt (Fin 0) (compare a key)"
  show ?case
  proof (cases "lo \<le> hi")
    case True
    define mid where "mid = (lo + hi) div 2"
    have m: "lo \<le> mid" "mid \<le> hi" "mid < int (length array)" "0 \<le> mid"
      using True less.prems by (auto simp: mid_def)
    have "lo + hi < 2 ^ 32" using True less.prems assms(1) by simp
    then have mid: "((lo + hi) mod 2 ^ 32) div 2 = mid"
      using less.prems True by (simp add: mid_def)
    let ?c = "array ! nat mid"
    have part: "?lt (array ! i)" if "?lt ?c" "int i \<le> mid" for i
      using that m assms(2) unfolding partitioned_def by (metis int_eq_iff nat_mono nat_less_iff nat_int)
    have part': "?gt (array ! i)" if "?gt ?c" "mid \<le> int i" "i < length array" for i
      using that m assms(2) unfolding partitioned_def by (metis nat_mono nat_int)
    have loop: "bsearch_loop array key compare lo hi =
       (if ?lt ?c then bsearch_loop array key compare (mid + 1) hi
        else if ?gt ?c then bsearch_loop array key compare lo (mid - 1) else Some mid)"
      by (subst bsearch_loop.simps) (simp only: True mid Let_def if_True)
    consider "?lt ?c" | "\<not> ?lt ?c" "?gt ?c" | "\<not> ?lt ?c" "\<not> ?gt ?c" by blast
    then show ?thesis
    proof cases
      case 1
      have "nat (hi + 1 - (mid + 1)) < nat (hi + 1 - lo)" using m True by simp
      from less.hyps [OF this] 1 m less.prems part show ?thesis
        by (simp add: loop)
    next
      case 2
      have "nat (mid - 1 + 1 - lo) < nat (hi + 1 - lo)" using m True by simp
      from less.hyps [OF this] 2 m less.prems part' show ?thesis
        by (simp add: loop)
    next
      case 3
      with m show ?thesis by (simp add: loop)
    qed
  next
    case False
    with less.prems have hi: "hi = lo - 1" by simp
    let ?k = "nat lo"
    have lt: "?lt (array ! i)" if "i < ?k" for i
      using less.prems(4) that by (simp add: less.prems zless_nat_eq_int_zless)
    have gt: "?gt (array ! i)" if "?k \<le> i" "i < length array" for i
      using less.prems(5) that hi by simp
    have split: "\<forall>i<length array. ?lt (array ! i) = (i < ?k) \<and> ?gt (array ! i) = (?k \<le> i)"
      using lt gt jlt_zero_asym by (meson linorder_not_le)
    have k: "?k \<le> length array" using less.prems hi by simp
    have "filter ?lt array = take ?k array"
    proof -
      have "filter ?lt (take ?k array) = take ?k array" and "filter ?lt (drop ?k array) = []"
        using split k by (auto simp: in_set_conv_nth intro!: filter_True filter_False)
      then show ?thesis by (metis append.right_neutral append_take_drop_id filter_append)
    qed
    with k have "below array key compare = ?k" by (simp add: below_def)
    moreover have "\<forall>a\<in>set array. ?lt a \<or> ?gt a" using split by (auto simp: in_set_conv_nth)
    ultimately show ?thesis using False hi less.prems by (subst bsearch_loop.simps) simp
  qed
qed

text \<open>C36: on any array of at most \<open>2 ^ 31\<close> elements that is sorted for the key the search
  returns: an index whose element compares equal, or, when no element does, minus the number of
  elements below the key. That number is the insertion index, so a key below all elements
  gives 0, which is also the answer for a match at index 0.\<close>

theorem binarySearch_returns:
  assumes "length array \<le> 2 ^ 31" and "partitioned array key compare"
  shows "\<exists>r. binarySearch array key compare = Some r \<and>
      ((0 \<le> r \<and> r < int (length array) \<and> \<not> jlt (compare (array ! nat r) key) (Fin 0)
          \<and> \<not> jlt (Fin 0) (compare (array ! nat r) key))
       \<or> (r = - int (below array key compare)
          \<and> (\<forall>a\<in>set array. jlt (compare a key) (Fin 0) \<or> jlt (Fin 0) (compare a key))))"
  unfolding binarySearch_def using assms by (intro bsearch_loop_correct) auto

theorem binarySearch_returns_witness:
  "binarySearch [Fin 2, Fin 4] (Fin 3) jsub = Some (- 1)"
proof -
  have r: "rnd 1 = Fin 1" "rnd (- 1) = Fin (- 1)" using rnd_int [of 1] rnd_int [of "- 1"] by simp_all
  have "partitioned [Fin 2, Fin 4] (Fin 3) jsub"
    by (auto simp: partitioned_def jsub_def r less_Suc_eq nth_Cons')
  from binarySearch_returns [OF _ this] show ?thesis
    by (auto simp: below_def jsub_def r nth_Cons' split: if_splits)
qed

section \<open>Timestamps\<close>

text \<open>The operations of a \<open>moment\<close> date the program uses.\<close>

record 'm moment =
  moment_utc :: "string \<Rightarrow> 'm"
  moment_utc_format :: "string \<Rightarrow> string \<Rightarrow> 'm"
  moment_parseZone :: "string \<Rightarrow> 'm"
  moment_useParsedZone :: "'m \<Rightarrow> 'm"
  moment_format :: "'m \<Rightarrow> string \<Rightarrow> string"
  moment_valueOf :: "'m \<Rightarrow> int"

text \<open>The regular expression \<open>/.*T.*(\+|\-|Z).*/\<close>: a \<open>T\<close> and, later on its line, \<open>+\<close>, \<open>-\<close> or \<open>Z\<close>.\<close>

fun has_zone_mark :: "string \<Rightarrow> bool" where
  "has_zone_mark [] = False"
| "has_zone_mark (c # s) =
     (c = CHR ''T'' \<and> list_ex (\<lambda>d. d = CHR ''+'' \<or> d = CHR ''-'' \<or> d = CHR ''Z'')
                        (takeWhile (\<lambda>d. d \<noteq> CHR 0x0A \<and> d \<noteq> CHR 0x0D) s)
      \<or> has_zone_mark s)"

definition parseIsoTimestampFallbackUtc :: "'m moment \<Rightarrow> string \<Rightarrow> 'm \<times> bool" where
  "parseIsoTimestampFallbackUtc M timestamp =
     (let hasTimeZone = has_zone_mark timestamp
      in (if hasTimeZone then moment_parseZone M timestamp else moment_utc M timestamp, hasTimeZone))"

definition parseTimestampFallbackUtc :: "'m moment \<Rightarrow> string \<Rightarrow> string \<Rightarrow> 'm \<times> bool" where
  "parseTimestampFallbackUtc M timestamp format =
     (let m = moment_utc_format M timestamp format;
          hasTimeZone = str_contains format ''Z''
      in (if hasTimeZone then moment_useParsedZone M m else m, hasTimeZone))"

definition getNaiveTime :: "'m moment \<Rightarrow> 'm \<Rightarrow> int" where
  "getNaiveTime M m =
     (let noZoneFormat = ''YYYY-MM-DDTHH:mm:ss.SSSSSS'';
          strippedZone = moment_format M m noZoneFormat
      in moment_valueOf M (moment_utc_format M strippedZone noZoneFormat))"

text \<open>A date library that ignores its input, on which properties are exercised.\<close>

definition no_moment :: "unit moment" where
  "no_moment = \<lparr>moment_utc = (\<lambda>s. ()), moment_utc_format = (\<lambda>s f. ()), moment_parseZone = (\<lambda>s. ()),
     moment_useParsedZone = (\<lambda>m. m), moment_format = (\<lambda>m f. f), moment_valueOf = (\<lambda>m. 0)\<rparr>"

end
