(* ===== verification/Chart_Data.thy ===== *)
theory Chart_Data
  imports Common_Utils JS_Value "HOL-Library.Multiset"
begin

text \<open>
  The data of a chart, \<open>app/browser/components/ModelData.jsx\<close> and the parts of \<open>Chart.jsx\<close> that compute
  with them: gaps in the timestamps, the merge of aggregated and raw values, the smallest time step, and
  the point and the anomaly shown under the mouse. Times are rational numbers, on which the code's
  sums and halves are exact; values keep their JavaScript type.
\<close>

section \<open>Rows\<close>

text \<open>A row \<open>[time, value]\<close>, a row \<open>[time, value, nonAggregated]\<close> of the chart.\<close>

type_synonym row = "rat \<times> jsval"
type_synonym point = "rat \<times> jsval \<times> jsval"

text \<open>\<open>v || v === 0\<close>\<close>

definition present :: "jsval \<Rightarrow> bool" where
  "present v = (truthy v \<or> v = JNum (Fin 0))"

definition gap_value :: jsval where
  "gap_value = JNum NaN"

section \<open>Gaps\<close>

definition time_deltas :: "rat list \<Rightarrow> rat list" where
  "time_deltas ts = map (\<lambda>(a, b). b - a) (zip ts (tl ts))"

text \<open>\<open>deltas.length * 0.3\<close> is a product of doubles; \<open>None\<close> is \<open>NaN\<close>, from a list without deltas.\<close>

definition percentile_index :: "nat \<Rightarrow> nat" where
  "percentile_index n = (case jmul (Fin (of_nat n)) (Fin (5404319552844595 / 18014398509481984)) of
       Fin x \<Rightarrow> nat \<lfloor>x\<rfloor> | _ \<Rightarrow> 0)"

definition computeGapThreshold :: "rat list \<Rightarrow> rat option" where
  "computeGapThreshold data =
     (let deltas = sort (filter (\<lambda>delta. 0 < delta) (time_deltas data));
          i = percentile_index (length deltas)
      in if i < length deltas then Some ((1 + 10) * deltas ! i) else None)"

fun insertIntoGaps :: "row list \<Rightarrow> jsval \<Rightarrow> rat option \<Rightarrow> row list" where
  "insertIntoGaps [] vals gapThreshold = []"
| "insertIntoGaps [item] vals gapThreshold = [item]"
| "insertIntoGaps (item # next # data) vals gapThreshold =
     (let delta = fst next - fst item
      in if (case gapThreshold of Some t \<Rightarrow> t < delta | None \<Rightarrow> False)
         then item # (fst item + delta / 2, vals) # insertIntoGaps (next # data) vals gapThreshold
         else item # insertIntoGaps (next # data) vals gapThreshold)"

section \<open>Values of the chart\<close>

text \<open>A result of a model: time, value and anomaly score.\<close>

record result =
  rs_time :: rat
  rs_value :: jsval
  rs_anomaly :: jsnum

text \<open>\<open>_calculateState\<close>: the values and the raw values in the background.\<close>

definition calculateState :: "row list \<Rightarrow> result list \<Rightarrow> bool \<Rightarrow> bool \<Rightarrow> row list \<times> row list" where
  "calculateState metricData modelData aggregated showNonAgg =
     (let rawDataInBackground = modelData \<noteq> [] \<and> aggregated \<and> showNonAgg
      in if modelData \<noteq> [] then
           (let values = map (\<lambda>v. (rs_time v, rs_value v)) modelData;
                gapThreshold = computeGapThreshold (map fst values)
            in (insertIntoGaps values gap_value gapThreshold,
                if rawDataInBackground then insertIntoGaps metricData gap_value gapThreshold else []))
         else (insertIntoGaps metricData gap_value (computeGapThreshold (map fst metricData)), []))"

fun merge_loop :: "'a list \<Rightarrow> 'a list \<Rightarrow> ('a \<Rightarrow> 'a \<Rightarrow> rat) \<Rightarrow> 'a list" where
  "merge_loop [] b compareFunction = b"
| "merge_loop (x # a) b compareFunction =
     takeWhile (\<lambda>y. compareFunction y x < 0) b @
     x # merge_loop a (dropWhile (\<lambda>y. compareFunction y x < 0) b) compareFunction"

text \<open>\<open>None\<close> is an array that is not there.\<close>

definition sortedMerge :: "'a list option \<Rightarrow> 'a list option \<Rightarrow> ('a \<Rightarrow> 'a \<Rightarrow> rat) \<Rightarrow> 'a list" where
  "sortedMerge a b compareFunction = (case (a, b) of
       (None, None) \<Rightarrow> []
     | (None, Some b) \<Rightarrow> b
     | (Some a, None) \<Rightarrow> a
     | (Some a, Some b) \<Rightarrow> merge_loop a b compareFunction)"

definition min_delta :: "rat list \<Rightarrow> rat option" where
  "min_delta ts = fold (\<lambda>delta m. if 0 < delta \<and> (case m of None \<Rightarrow> True | Some d \<Rightarrow> delta < d) then Some delta else m)
     (time_deltas ts) None"

text \<open>\<open>Number(v)\<close>, as \<open>isNaN\<close>, \<open>Math.min\<close> and \<open>Math.max\<close> read a value.\<close>

definition number_of :: "jsval \<Rightarrow> jsnum" where
  "number_of v = (case v of
       JNull \<Rightarrow> Fin 0
     | JBool b \<Rightarrow> Fin (if b then 1 else 0)
     | JNum n \<Rightarrow> n
     | JStr s \<Rightarrow> to_number s
     | _ \<Rightarrow> NaN)"

definition widen :: "row \<Rightarrow> jsnum \<times> jsnum \<Rightarrow> jsnum \<times> jsnum" where
  "widen v extent = (let n = number_of (snd v)
     in if n = NaN then extent else (jmin (fst extent) n, jmax (snd extent) n))"

text \<open>What \<open>_computeState\<close> leaves in the chart; without values it leaves everything as it was.\<close>

record chart_data =
  cd_minDelta :: "rat option"
  cd_valueExtent :: "jsnum \<times> jsnum"
  cd_data :: "point list"

definition computeState :: "bool \<Rightarrow> row list \<Rightarrow> row list \<Rightarrow> chart_data \<Rightarrow> chart_data" where
  "computeState active values values2 s =
     (if values = [] then s
      else
        (let top = fst (last values);
             adjustedValues2 = (if active then takeWhile (\<lambda>v. fst v < top) values2 else values2)
         in \<lparr>cd_minDelta = min_delta (map fst values),
             cd_valueExtent = fold widen adjustedValues2 (fold widen values (PInf, MInf)),
             cd_data = sortedMerge (Some (map (\<lambda>v. (fst v, snd v, JNull)) values))
                         (Some (map (\<lambda>v. (fst v, JNull, snd v)) adjustedValues2)) (\<lambda>a b. fst a - fst b)\<rparr>))"

section \<open>Under the mouse\<close>

definition shown_point :: "point \<Rightarrow> bool" where
  "shown_point p = (present (fst (snd p)) \<or> present (snd (snd p)))"

text \<open>\<open>data.findIndex((item) => time <= item[0])\<close>, and the length when there is none.\<close>

definition hover_index :: "point list \<Rightarrow> rat \<Rightarrow> nat" where
  "hover_index data t = length (takeWhile (\<lambda>p. \<not> t \<le> fst p) data)"

text \<open>\<open>_paintChartHover\<close>: the next shown point at or after the time and the last one before it; the
  first of them wins when they are equally far. \<open>find\<close> is a loop that breaks at the first hit.\<close>

definition hovered_item :: "point list \<Rightarrow> rat \<Rightarrow> point option" where
  "hovered_item data t =
     (let index = hover_index data t;
          right = find shown_point (drop index data);
          left = find shown_point (rev (take index data))
      in case right of
           None \<Rightarrow> left
         | Some r \<Rightarrow> (case left of
               None \<Rightarrow> right
             | Some l \<Rightarrow> if t - fst l < fst r - t then left else right))"

text \<open>The anomaly next to a point (\<open>_chartHoverPaintText\<close>); \<open>None\<close> outside is a search that does not end or an
  index out of range, inside the \<open>null\<close> of the probation.\<close>

definition compare_time :: "result \<Rightarrow> rat \<Rightarrow> jsnum" where
  "compare_time current key = Fin (rs_time current - key)"

definition anomaly_at :: "result list \<Rightarrow> rat \<Rightarrow> jsnum option option" where
  "anomaly_at modelData t = (case binarySearch modelData t compare_time of
       None \<Rightarrow> None
     | Some anomalyIdx \<Rightarrow>
         (let (anomalyIdxFinal, anomalyValue) =
            (if 0 \<le> anomalyIdx then (anomalyIdx, Some (rs_anomaly (modelData ! nat anomalyIdx)))
             else
               let first = - anomalyIdx - 1;
                   second = min (first + 1) (int (length modelData) - 1)
               in if int (length modelData) \<le> first then (first, None)
                  else if jlt (rs_anomaly (modelData ! nat second)) (rs_anomaly (modelData ! nat first))
                  then (first, Some (rs_anomaly (modelData ! nat first)))
                  else (second, Some (rs_anomaly (modelData ! nat second))))
          in case anomalyValue of
               None \<Rightarrow> None
             | Some v \<Rightarrow> Some (if anomalyIdxFinal < PROBATION_LENGTH then None else Some v)))"

section \<open>The merge is a stable sort\<close>

lemma takeWhile_sorted: "sorted (map f b) \<Longrightarrow> takeWhile (\<lambda>y. f y < c) b = filter (\<lambda>y. f y < c) b"
proof (induction b)
  case (Cons y b)
  then show ?case by (cases "f y < c") (auto intro!: filter_False [symmetric] dest: le_less_trans)
qed simp

lemma dropWhile_sorted: "sorted (map f b) \<Longrightarrow> dropWhile (\<lambda>y. f y < c) b = filter (\<lambda>y. c \<le> f y) b"
proof (induction b)
  case (Cons y b)
  then show ?case by (cases "f y < c") (auto intro!: filter_True [symmetric])
qed simp

lemma merge_loop_sort:
  fixes f :: "'a \<Rightarrow> rat"
  assumes "sorted (map f a)" and "sorted (map f b)"
  shows "merge_loop a b (\<lambda>x y. f x - f y) = sort_key f (a @ b)"
  using assms
proof (induction a arbitrary: b)
  case Nil
  then show ?case by (simp add: sorted_sort_id sort_key_id_if_sorted)
next
  case (Cons x a)
  let ?T = "filter (\<lambda>y. f y < f x) b" and ?D = "filter (\<lambda>y. f x \<le> f y) b"
  have "sorted (map f ?D)" using Cons.prems(2) by (rule sorted_filter)
  then have IH: "merge_loop a ?D (\<lambda>x y. f x - f y) = sort_key f (a @ ?D)" using Cons by simp
  have m: "merge_loop (x # a) b (\<lambda>x y. f x - f y) = ?T @ x # sort_key f (a @ ?D)"
    using IH Cons.prems(2) by (simp add: takeWhile_sorted dropWhile_sorted)
  have "sort_key f ((x # a) @ b) = ?T @ x # sort_key f (a @ ?D)"
  proof (rule properties_for_sort_key)
    have "mset b = mset ?T + mset ?D"
      by (metis (mono_tags, lifting) filter_cong linorder_not_less mset_filter multiset_partition)
    then show "mset (?T @ x # sort_key f (a @ ?D)) = mset ((x # a) @ b)" by simp
    have "sorted (map f ?T)" using Cons.prems(2) by (rule sorted_filter)
    then show "sorted (map f (?T @ x # sort_key f (a @ ?D)))"
      using Cons.prems(1) by (auto simp: sorted_append)
    fix k
    assume "k \<in> set (?T @ x # sort_key f (a @ ?D))"
    have "filter (\<lambda>y. f k = f y) b = filter (\<lambda>y. f k = f y) (if f k < f x then ?T else ?D)"
      by (auto simp: filter_filter intro: filter_cong)
    moreover have "f k < f x \<Longrightarrow> filter (\<lambda>y. f k = f y) (a @ ?D) = []"
      using Cons.prems(1) by (auto simp: filter_empty_conv)
    moreover have "\<not> f k < f x \<Longrightarrow> filter (\<lambda>y. f k = f y) ?T = []"
      by (auto simp: filter_empty_conv)
    ultimately show "filter (\<lambda>y. f k = f y) (?T @ x # sort_key f (a @ ?D)) = filter (\<lambda>y. f k = f y) ((x # a) @ b)"
      using sort_key_stable [of f "f k" "a @ ?D"] Cons.prems(1) by (auto simp: eq_commute [of "f k"])
  qed
  with m show ?case by simp
qed

section \<open>Gaps\<close>

definition no_gaps :: "row list \<Rightarrow> bool" where
  "no_gaps data = (\<forall>v\<in>set data. snd v \<noteq> gap_value)"

lemma filter_gaps: "no_gaps data \<Longrightarrow> filter (\<lambda>v. snd v \<noteq> gap_value) (insertIntoGaps data gap_value t) = data"
  by (induction data gap_value t rule: insertIntoGaps.induct) (auto simp: no_gaps_def Let_def)

lemma insertIntoGaps_hd: "data \<noteq> [] \<Longrightarrow> hd (insertIntoGaps data v t) = hd data \<and> insertIntoGaps data v t \<noteq> []"
  by (induction data v t rule: insertIntoGaps.induct) (auto simp: Let_def)

lemma insertIntoGaps_last: "data \<noteq> [] \<Longrightarrow> last (insertIntoGaps data v t) = last data"
  by (induction data v t rule: insertIntoGaps.induct) (auto simp: Let_def insertIntoGaps_hd)

lemma insertIntoGaps_ge: "sorted (map fst data) \<Longrightarrow> r \<in> set (insertIntoGaps data v t) \<Longrightarrow> fst (hd data) \<le> fst r"
proof (induction data v t rule: insertIntoGaps.induct)
  case (3 item nxt data v t)
  let ?mid = "(fst item + (fst nxt - fst item) / 2, v)"
  have le: "fst item \<le> fst nxt" using "3.prems"(1) by simp
  have "set (insertIntoGaps (item # nxt # data) v t) \<subseteq> {item, ?mid} \<union> set (insertIntoGaps (nxt # data) v t)"
    by (auto simp: Let_def)
  with "3.prems"(2) consider "r = item" | "r = ?mid" | "r \<in> set (insertIntoGaps (nxt # data) v t)" by blast
  then show ?case
  proof cases
    case 3
    then have "fst nxt \<le> fst r" using "3.IH" "3.prems"(1) by (metis list.sel(1) list.simps(9) sorted_wrt.simps(2))
    then show ?thesis using le by simp
  qed (use le in simp_all)
qed auto

lemma insertIntoGaps_sorted: "sorted (map fst data) \<Longrightarrow> sorted (map fst (insertIntoGaps data v t))"
proof (induction data v t rule: insertIntoGaps.induct)
  case (3 item nxt data v t)
  let ?r = "insertIntoGaps (nxt # data) v t"
  have s: "sorted (map fst ?r)" and ge: "\<forall>r\<in>set ?r. fst nxt \<le> fst r" and le: "fst item \<le> fst nxt"
    using 3 insertIntoGaps_ge [of "nxt # data" _ v t] by (auto simp: Let_def)
  have mid: "fst item \<le> fst item + (fst nxt - fst item) / 2" "fst item + (fst nxt - fst item) / 2 \<le> fst nxt"
    using le by (simp_all add: field_simps)
  show ?case using s ge le mid by (auto simp: Let_def intro: order_trans)
qed auto

lemma insertIntoGaps_Cons: "data \<noteq> [] \<Longrightarrow> \<exists>rest. insertIntoGaps data v t = hd data # rest"
  using insertIntoGaps_hd [of data v t] by (metis list.collapse)

lemma gaps_split:
  "successively (\<lambda>a b. snd a = gap_value \<or> snd b = gap_value \<or> fst b - fst a \<le> t) (insertIntoGaps data gap_value (Some t))"
proof (induction data gap_value "Some t" rule: insertIntoGaps.induct)
  case (3 item nxt data)
  obtain rest where "insertIntoGaps (nxt # data) gap_value (Some t) = nxt # rest"
    using insertIntoGaps_Cons [of "nxt # data"] by auto
  then show ?case using 3 by (auto simp: Let_def not_less)
qed auto

text \<open>Data sampled in equal steps has no gaps, whatever the step.\<close>

lemma round_half_even_near: "of_int (round_half_even x) \<le> x + 1 / 2" "x - 1 / 2 \<le> of_int (round_half_even x)"
  by (auto simp: round_half_even_def Let_def) linarith+

lemma jmul_third:
  assumes "0 < n" and "n < 2 ^ 32"
  shows "percentile_index n < n"
proof -
  define q :: rat where "q = of_nat n * (5404319552844595 / 18014398509481984)"
  have q: "0 < q" "q < of_nat n / 2" using assms(1) by (simp_all add: q_def)
  have big: "(1::rat) / 4 \<le> q" using assms(1) by (simp add: q_def field_simps)
  let ?m = "of_int (round_half_even (q / ulp q)) * ulp q"
  have "ulp q \<le> q"
  proof (cases "- 1022 \<le> ilog2 q")
    case True
    then have "ulp q \<le> 2 powi ilog2 q" by (simp add: ulp_def power_int_increasing)
    then show ?thesis using ilog2_le [of q] q(1) by simp
  next
    case False
    then have "ulp q = 2 powi (- 1074)" by (simp add: ulp_def)
    also have "\<dots> \<le> (2::rat) powi (- 2)" by (intro power_int_increasing) auto
    also have "\<dots> \<le> q" using big by simp
    finally show ?thesis .
  qed
  moreover have "?m \<le> q + ulp q / 2"
  proof -
    have "?m \<le> (q / ulp q + 1 / 2) * ulp q"
      using round_half_even_near(1) [of "q / ulp q"] by (intro mult_right_mono less_imp_le [OF ulp_pos])
    then show ?thesis using ulp_pos [of q] by (simp add: distrib_right)
  qed
  ultimately have "?m < of_nat n" using q by linarith
  moreover have "(of_nat n :: rat) < 2 ^ 1024"
  proof -
    have "(of_nat n :: rat) < of_nat (2 ^ 32)" using assms(2) by (simp only: of_nat_less_iff)
    also have "\<dots> \<le> 2 ^ 1024" by (simp add: power_increasing [of 32 1024 "2::rat", simplified])
    finally show ?thesis .
  qed
  moreover have "- (2 ^ 1024) < ?m"
  proof -
    have "(q / ulp q - 1 / 2) * ulp q \<le> ?m"
      using round_half_even_near(2) [of "q / ulp q"] by (intro mult_right_mono less_imp_le [OF ulp_pos])
    then have "q - ulp q / 2 \<le> ?m" using ulp_pos [of q] by (simp add: left_diff_distrib)
    then have "0 < ?m" using \<open>ulp q \<le> q\<close> q(1) by linarith
    then show ?thesis by (rule order.strict_trans [rotated]) simp
  qed
  ultimately have "rnd q = Fin ?m" by (simp add: rnd_def Let_def)
  then have "percentile_index n = nat \<lfloor>?m\<rfloor>" by (simp only: percentile_index_def jmul.simps q_def [symmetric] jsnum.case)
  moreover have "\<lfloor>?m\<rfloor> < int n" using \<open>?m < of_nat n\<close> by (simp add: floor_less_iff)
  ultimately show ?thesis using assms(1) by linarith
qed

lemma gapThreshold_some:
  assumes "length data \<le> 2 ^ 31" and "computeGapThreshold data = Some t"
  shows "\<exists>d\<in>set (time_deltas data). 0 < d \<and> t = 11 * d"
proof -
  let ?ds = "filter (\<lambda>delta. 0 < delta) (time_deltas data)"
  let ?i = "percentile_index (length ?ds)"
  have i: "?i < length ?ds" and t: "t = 11 * sort ?ds ! ?i"
    using assms(2) by (auto simp: computeGapThreshold_def Let_def split: if_splits)
  have "sort ?ds ! ?i \<in> set (sort ?ds)" using i by (intro nth_mem) simp
  then show ?thesis using t by auto
qed

lemma gapThreshold_none:
  assumes "length data \<le> 2 ^ 31"
  shows "computeGapThreshold data = None \<longleftrightarrow> (\<forall>d\<in>set (time_deltas data). d \<le> 0)"
proof -
  let ?ds = "filter (\<lambda>delta. 0 < delta) (time_deltas data)"
  have "length ?ds \<le> length (time_deltas data)" by simp
  also have "\<dots> \<le> length data" by (simp add: time_deltas_def)
  finally have l: "length ?ds < 2 ^ 32" using assms by simp
  have "?ds \<noteq> [] \<Longrightarrow> percentile_index (length ?ds) < length ?ds" using l by (intro jmul_third) simp_all
  then have "computeGapThreshold data = None \<longleftrightarrow> ?ds = []"
    by (cases "?ds = []") (auto simp: computeGapThreshold_def Let_def)
  then show ?thesis by (auto simp: filter_empty_conv not_less)
qed

section \<open>What the chart shows\<close>

definition left_point :: "row \<Rightarrow> point" where
  "left_point v = (fst v, snd v, JNull)"

definition right_point :: "row \<Rightarrow> point" where
  "right_point v = (fst v, JNull, snd v)"

definition no_gap_point :: "point \<Rightarrow> bool" where
  "no_gap_point p = (fst (snd p) \<noteq> gap_value \<and> snd (snd p) \<noteq> gap_value)"

lemma gap_null [simp]: "gap_value \<noteq> JNull" "JNull \<noteq> gap_value"
  by (simp_all add: gap_value_def)

lemma filter_left: "filter no_gap_point (map left_point vs) = map left_point (filter (\<lambda>v. snd v \<noteq> gap_value) vs)"
  by (induction vs) (auto simp: no_gap_point_def left_point_def)

lemma filter_right: "filter no_gap_point (map right_point vs) = map right_point (filter (\<lambda>v. snd v \<noteq> gap_value) vs)"
  by (induction vs) (auto simp: no_gap_point_def right_point_def)

lemma map_fst_points [simp]: "map (fst \<circ> left_point) vs = map fst vs" "map (fst \<circ> right_point) vs = map fst vs"
  by (simp_all add: left_point_def right_point_def)

lemma filter_sort_key: "filter P (sort_key f xs) = sort_key f (filter P xs)"
  by (induction xs) (auto simp: filter_insort filter_insort_triv)

lemma computeState_data:
  assumes "values \<noteq> []" and "sorted (map fst values)" and "sorted (map fst values2)"
  shows "cd_data (computeState active values values2 s) = sort_key fst (map left_point values @
    map right_point (if active then filter (\<lambda>v. fst v < fst (last values)) values2 else values2))"
proof -
  let ?v2 = "if active then filter (\<lambda>v. fst v < fst (last values)) values2 else values2"
  have "takeWhile (\<lambda>v. fst v < fst (last values)) values2 = filter (\<lambda>v. fst v < fst (last values)) values2"
    using assms(3) by (rule takeWhile_sorted)
  then have "cd_data (computeState active values values2 s)
      = merge_loop (map left_point values) (map right_point ?v2) (\<lambda>x y. fst x - fst y)"
    using assms(1) by (simp add: computeState_def sortedMerge_def Let_def left_point_def [abs_def] right_point_def [abs_def])
  also have "\<dots> = sort_key fst (map left_point values @ map right_point ?v2)"
    by (rule merge_loop_sort) (use assms in \<open>auto simp: sorted_filter\<close>)
  finally show ?thesis .
qed

text \<open>The raw rows that are drawn behind the aggregated results.\<close>

definition background :: "row list \<Rightarrow> result list \<Rightarrow> bool \<Rightarrow> bool \<Rightarrow> bool \<Rightarrow> row list" where
  "background metricData modelData aggregated showNonAgg active =
     (if modelData \<noteq> [] \<and> aggregated \<and> showNonAgg
      then filter (\<lambda>v. active \<longrightarrow> fst v < rs_time (last modelData)) metricData else [])"

definition foreground :: "row list \<Rightarrow> result list \<Rightarrow> row list" where
  "foreground metricData modelData = (if modelData \<noteq> [] then map (\<lambda>v. (rs_time v, rs_value v)) modelData else metricData)"

text \<open>C13: on data in order of time, the chart's data are in order of time, and apart from the points that
  mark gaps they are the stable sort of the results (before any result: the metric's rows) and, behind
  aggregated results, the metric's rows, for an active model only those before the last result.\<close>

theorem chart_shows_data:
  assumes "sorted (map fst metricData)" and "sorted (map rs_time modelData)"
    and "no_gaps metricData" and "no_gaps (map (\<lambda>v. (rs_time v, rs_value v)) modelData)"
    and "foreground metricData modelData \<noteq> []"
    and "calculateState metricData modelData aggregated showNonAgg = (values, values2)"
    and "data = cd_data (computeState active values values2 s)"
  shows "sorted (map fst data)
    \<and> filter no_gap_point data = sort_key fst (map left_point (foreground metricData modelData)
        @ map right_point (background metricData modelData aggregated showNonAgg active))"
proof -
  let ?F = "foreground metricData modelData"
  obtain t where v: "values = insertIntoGaps ?F gap_value t"
    and v2: "values2 = (if modelData \<noteq> [] \<and> aggregated \<and> showNonAgg then insertIntoGaps metricData gap_value t else [])"
    using assms(6) by (auto simp: calculateState_def foreground_def Let_def split: if_splits)
  have sF: "sorted (map fst ?F)" and nF: "no_gaps ?F" using assms(1-4) by (auto simp: foreground_def comp_def)
  have s: "sorted (map fst values)" "sorted (map fst values2)"
    unfolding v v2 using sF assms(1) by (auto simp: insertIntoGaps_sorted)
  have ne: "values \<noteq> []" "last values = last ?F" using assms(5) by (simp_all add: v insertIntoGaps_hd insertIntoGaps_last)
  let ?v2 = "if active then filter (\<lambda>v. fst v < fst (last values)) values2 else values2"
  have d: "data = sort_key fst (map left_point values @ map right_point ?v2)"
    unfolding assms(7) by (rule computeState_data [OF ne(1) s])
  have "filter (\<lambda>v. snd v \<noteq> gap_value) values = ?F" using nF by (simp add: v filter_gaps)
  moreover have "filter (\<lambda>v. snd v \<noteq> gap_value) ?v2 = background metricData modelData aggregated showNonAgg active"
  proof -
    let ?P = "\<lambda>v. fst v < fst (last values)" and ?N = "\<lambda>v :: row. snd v \<noteq> gap_value"
    have n: "filter ?N values2 = (if modelData \<noteq> [] \<and> aggregated \<and> showNonAgg then metricData else [])"
      using assms(3) by (simp add: v2 filter_gaps)
    have "filter ?N (filter ?P values2) = filter ?P (filter ?N values2)" unfolding filter_filter by (rule filter_cong) auto
    moreover have "fst (last values) = rs_time (last modelData)" if "modelData \<noteq> []"
      using that ne(2) by (simp add: foreground_def last_map)
    ultimately show ?thesis using n by (cases active) (auto simp: background_def simp del: filter_filter)
  qed
  ultimately have "filter no_gap_point data = sort_key fst (map left_point ?F
        @ map right_point (background metricData modelData aggregated showNonAgg active))"
    unfolding d filter_sort_key by (simp only: filter_append filter_left filter_right)
  then show ?thesis unfolding d by simp
qed

lemma insertIntoGaps_None: "insertIntoGaps data v None = data"
  by (induction data v "None :: rat option" rule: insertIntoGaps.induct) auto

text \<open>marking the gaps of data in order of time keeps every row and the order; without a positive time step nothing is
  marked, else the threshold is eleven times one of the positive steps and every step above
  it has a mark in it.\<close>

theorem gaps_marked:
  assumes "no_gaps data" and "sorted (map fst data)" and "length data \<le> 2 ^ 31"
    and "r = insertIntoGaps data gap_value (computeGapThreshold (map fst data))"
  shows "filter (\<lambda>v. snd v \<noteq> gap_value) r = data \<and> sorted (map fst r)
    \<and> (case computeGapThreshold (map fst data) of
         None \<Rightarrow> r = data \<and> (\<forall>d\<in>set (time_deltas (map fst data)). d \<le> 0)
       | Some t \<Rightarrow> (\<exists>d\<in>set (time_deltas (map fst data)). 0 < d \<and> t = 11 * d)
           \<and> successively (\<lambda>a b. snd a = gap_value \<or> snd b = gap_value \<or> fst b - fst a \<le> t) r)"
  using gapThreshold_some [of "map fst data"] gapThreshold_none [of "map fst data"] gaps_split [of _ data] assms(2,3)
    filter_gaps [OF assms(1), of None, unfolded insertIntoGaps_None]
  unfolding assms(4)
  by (cases "computeGapThreshold (map fst data)")
    (simp_all add: filter_gaps [OF assms(1)] insertIntoGaps_sorted insertIntoGaps_None)

theorem gaps_marked_witness:
  "filter (\<lambda>v. snd v \<noteq> gap_value) (insertIntoGaps [(0, JNull), (1, JNull), (20, JNull)] gap_value
      (computeGapThreshold [0, 1, 20])) = [(0, JNull), (1, JNull), (20, JNull)]"
  using gaps_marked [of "[(0, JNull), (1, JNull), (20, JNull)]", OF _ _ _ refl] by (simp add: no_gaps_def)

theorem chart_shows_data_witness:
  "\<exists>values values2. calculateState [(0, JNum (Fin 5)), (1, JNum (Fin 6))] [] False False = (values, values2)
    \<and> filter no_gap_point (cd_data (computeState False values values2 \<lparr>cd_minDelta = None, cd_valueExtent = (PInf, MInf), cd_data = []\<rparr>))
      = [(0, JNum (Fin 5), JNull), (1, JNum (Fin 6), JNull)]"
proof -
  let ?rows = "[(0, JNum (Fin 5)), (1, JNum (Fin 6))] :: row list"
  obtain vs1 vs2 where v: "calculateState ?rows [] False False = (vs1, vs2)" by (meson surj_pair)
  have f: "foreground ?rows [] = ?rows" "background ?rows [] False False False = []"
    by (simp_all add: foreground_def background_def)
  have "no_gaps ?rows" "no_gaps (map (\<lambda>v. (rs_time v, rs_value v)) [])" by (simp_all add: no_gaps_def gap_value_def)
  from chart_shows_data [OF _ _ this _ v refl, of False "\<lparr>cd_minDelta = None, cd_valueExtent = (PInf, MInf), cd_data = []\<rparr>"]
  show ?thesis using v by (simp add: f left_point_def)
qed

section \<open>The point and the anomaly under the mouse\<close>

lemma hover_split:
  assumes "sorted (map fst data)"
  shows "\<forall>p\<in>set (drop (hover_index data t) data). t \<le> fst p" and "\<forall>p\<in>set (take (hover_index data t) data). fst p < t"
proof -
  have d: "drop (hover_index data t) data = dropWhile (\<lambda>p. fst p < t) data"
    and k: "take (hover_index data t) data = takeWhile (\<lambda>p. fst p < t) data"
    by (simp_all add: hover_index_def not_le dropWhile_eq_drop [symmetric] takeWhile_eq_take [symmetric])
  show "\<forall>p\<in>set (drop (hover_index data t) data). t \<le> fst p" unfolding d dropWhile_sorted [OF assms] by simp
  show "\<forall>p\<in>set (take (hover_index data t) data). fst p < t" unfolding k by (auto dest: set_takeWhileD)
qed

lemma find_first:
  assumes "find P xs = Some x"
  shows "x \<in> set xs \<and> P x \<and> (\<forall>y\<in>set xs. P y \<longrightarrow> y = x \<or> (\<exists>us vs. xs = us @ x # vs \<and> y \<in> set vs))"
proof -
  obtain i where i: "i < length xs" "P (xs ! i)" "x = xs ! i" "\<forall>j<i. \<not> P (xs ! j)"
    using assms by (auto simp: find_Some_iff)
  then have "xs = take i xs @ x # drop (Suc i) xs" by (simp add: id_take_nth_drop)
  moreover have "y \<notin> set (take i xs)" if "P y" for y using i that by (auto simp: in_set_conv_nth)
  ultimately show ?thesis using i by (metis Un_iff nth_mem set_ConsD set_append)
qed

lemma find_sorted:
  assumes "sorted_wrt (\<lambda>x y. f x \<le> (f y :: rat)) xs" and "find P xs = Some x"
  shows "x \<in> set xs \<and> P x \<and> (\<forall>y\<in>set xs. P y \<longrightarrow> f x \<le> f y)"
proof -
  have "f x \<le> f y" if "xs = us @ x # vs" "y \<in> set vs" for us vs y
    using assms(1) that by (simp add: sorted_wrt_append)
  then show ?thesis using find_first [OF assms(2)] by blast
qed

lemma find_none: "find P xs = None \<Longrightarrow> \<forall>x\<in>set xs. \<not> P x"
  by (auto simp: find_None_iff)

text \<open>on data in order of time, the point shown for a position of the mouse is a point with a value at the
  smallest distance in time, and none only when no point has a value.\<close>

theorem hover_nearest:
  assumes "sorted (map fst data)"
  shows "case hovered_item data t of
      None \<Rightarrow> \<forall>p\<in>set data. \<not> shown_point p
    | Some p \<Rightarrow> p \<in> set data \<and> shown_point p \<and> (\<forall>q\<in>set data. shown_point q \<longrightarrow> \<bar>fst p - t\<bar> \<le> \<bar>fst q - t\<bar>)"
proof -
  let ?R = "drop (hover_index data t) data" and ?L = "take (hover_index data t) data"
  have split: "set data = set ?L \<union> set ?R" by (metis append_take_drop_id set_append)
  have sR: "sorted_wrt (\<lambda>x y. fst x \<le> fst y) ?R"
    using assms by (simp add: sorted_map sorted_wrt_drop)
  have sL: "sorted_wrt (\<lambda>x y. - fst x \<le> - fst y) (rev ?L)"
    using assms by (simp add: sorted_map sorted_wrt_rev sorted_wrt_take)
  have rd: "\<bar>fst p - t\<bar> = fst p - t" if "p \<in> set ?R" for p using hover_split(1) [OF assms, of t] that by auto
  have ld: "\<bar>fst p - t\<bar> = t - fst p" if "p \<in> set ?L" for p using hover_split(2) [OF assms, of t] that by fastforce
  have r: "p \<in> set ?R \<and> shown_point p \<and> (\<forall>q\<in>set ?R. shown_point q \<longrightarrow> \<bar>fst p - t\<bar> \<le> \<bar>fst q - t\<bar>)"
    if "find shown_point ?R = Some p" for p
    using find_sorted [OF sR that] by (simp add: rd)
  have l: "p \<in> set ?L \<and> shown_point p \<and> (\<forall>q\<in>set ?L. shown_point q \<longrightarrow> \<bar>fst p - t\<bar> \<le> \<bar>fst q - t\<bar>)"
    if "find shown_point (rev ?L) = Some p" for p
    using find_sorted [OF sL that] by (simp add: ld)
  show ?thesis
  proof (cases "find shown_point ?R")
    case None
    note R = this
    show ?thesis
    proof (cases "find shown_point (rev ?L)")
      case None
      have "hovered_item data t = None" using R None by (simp add: hovered_item_def Let_def)
      then show ?thesis using find_none [OF R] find_none [OF None] split by auto
    next
      case (Some p)
      have "hovered_item data t = Some p" using R Some by (simp add: hovered_item_def Let_def)
      then show ?thesis using find_none [OF R] l [OF Some] split by auto
    qed
  next
    case (Some p)
    note R = this
    show ?thesis
    proof (cases "find shown_point (rev ?L)")
      case None
      have "hovered_item data t = Some p" using R None by (simp add: hovered_item_def Let_def)
      then show ?thesis using find_none [OF None] r [OF R] split by auto
    next
      case (Some p')
      have h: "hovered_item data t = (if \<bar>fst p' - t\<bar> < \<bar>fst p - t\<bar> then Some p' else Some p)"
        using R Some rd [of p] ld [of p'] r [OF R] l [OF Some] by (simp add: hovered_item_def Let_def)
      show ?thesis
      proof (cases "\<bar>fst p' - t\<bar> < \<bar>fst p - t\<bar>")
        case True
        have "shown_point q \<longrightarrow> \<bar>fst p' - t\<bar> \<le> \<bar>fst q - t\<bar>" if "q \<in> set ?L \<or> q \<in> set ?R" for q
          using that True r [OF R] l [OF Some] by (meson less_le_trans less_imp_le)
        then have "\<forall>q\<in>set data. shown_point q \<longrightarrow> \<bar>fst p' - t\<bar> \<le> \<bar>fst q - t\<bar>" using split by blast
        moreover have "p' \<in> set data" using l [OF Some] split by blast
        ultimately show ?thesis using True h l [OF Some] by simp
      next
        case False
        have "shown_point q \<longrightarrow> \<bar>fst p - t\<bar> \<le> \<bar>fst q - t\<bar>" if "q \<in> set ?L \<or> q \<in> set ?R" for q
          using that False r [OF R] l [OF Some] by (meson not_less order_trans)
        then have "\<forall>q\<in>set data. shown_point q \<longrightarrow> \<bar>fst p - t\<bar> \<le> \<bar>fst q - t\<bar>" using split by blast
        moreover have "p \<in> set data" using r [OF R] split by blast
        ultimately show ?thesis using False h r [OF R] by simp
      qed
    qed
  qed
qed

theorem hover_nearest_witness:
  "hovered_item [(0, JNum (Fin 5), JNull), (3, gap_value, JNull), (6, JNum (Fin 0), JNull)] 3 = Some (6, JNum (Fin 0), JNull)"
proof -
  let ?data = "[(0, JNum (Fin 5), JNull), (3, gap_value, JNull), (6, JNum (Fin 0), JNull)] :: point list"
  have "sorted (map fst ?data)" by simp
  from hover_nearest [OF this, of 3] show ?thesis
    by (simp add: hovered_item_def hover_index_def shown_point_def present_def gap_value_def truthy_def Let_def)
qed

lemma partitioned_time: "sorted (map rs_time md) \<Longrightarrow> partitioned md t compare_time"
  by (auto simp: partitioned_def compare_time_def sorted_iff_nth_mono)
    (metis add_le_imp_le_diff diff_ge_0_iff_ge diff_gt_0_iff_gt le_less_trans less_le_trans)+

lemma below_time: "below md t compare_time = length (filter (\<lambda>r. rs_time r < t) md)"
  by (simp add: below_def compare_time_def)

text \<open>the anomaly shown for a point in time, on results in order of time: that of a result at exactly this time,
  or else the larger one of the results before and after it (the first result's for a time before all
  results); \<open>null\<close> when the result is one of the first 390.\<close>

theorem anomaly_next_to:
  assumes "sorted (map rs_time md)" and "md \<noteq> []" and "length md \<le> 2 ^ 31" and "\<forall>r\<in>set md. rs_anomaly r \<noteq> NaN"
    and "n = length (filter (\<lambda>r. rs_time r < t) md)"
  shows "\<exists>i<length md. anomaly_at md t = Some (if i < PROBATION_LENGTH then None else Some (rs_anomaly (md ! i)))
    \<and> (if \<exists>r\<in>set md. rs_time r = t then rs_time (md ! i) = t
       else if n = 0 then i = 0
       else (i = n - 1 \<or> i = min n (length md - 1)) \<and> jle (rs_anomaly (md ! (n - 1))) (rs_anomaly (md ! i))
         \<and> jle (rs_anomaly (md ! min n (length md - 1))) (rs_anomaly (md ! i)))"
proof -
  obtain r where r: "binarySearch md t compare_time = Some r"
    and cases: "(0 \<le> r \<and> r < int (length md) \<and> rs_time (md ! nat r) = t)
      \<or> (r = - int n \<and> (\<forall>a\<in>set md. rs_time a \<noteq> t))"
    using bsearch_loop_correct [OF assms(3) partitioned_time [OF assms(1)], of 0 "int (length md) - 1" t] assms(2,5)
    by (auto simp: below_time binarySearch_def compare_time_def)
  show ?thesis
  proof (cases "0 \<le> r")
    case True
    then have "anomaly_at md t = Some (if nat r < PROBATION_LENGTH then None else Some (rs_anomaly (md ! nat r)))"
      using r by (auto simp: anomaly_at_def zless_nat_eq_int_zless)
    moreover have "nat r < length md" using True cases assms(2) by auto
    moreover have "(\<exists>x\<in>set md. rs_time x = t) \<longrightarrow> rs_time (md ! nat r) = t" using cases by auto
    moreover have "\<not> (\<exists>x\<in>set md. rs_time x = t) \<longrightarrow> n = 0 \<and> nat r = 0"
      using cases True by (metis int_nat_eq nat_less_iff neg_0_le_iff_le nth_mem of_nat_0 of_nat_le_0_iff nat_int minus_equation_iff)
    ultimately show ?thesis by (metis (no_types, lifting))
  next
    case False
    then have n: "r = - int n" "0 < n" and none: "\<not> (\<exists>x\<in>set md. rs_time x = t)" using cases by auto
    have le: "n \<le> length md" and pos: "0 < length md" using assms(2) by (simp_all add: assms(5))
    let ?m = "min n (length md - 1)"
    have idx: "nat (int n - 1) = n - 1" "min (int n) (int (length md) - 1) = int ?m"
      "int n - 1 < int PROBATION_LENGTH \<longleftrightarrow> n - 1 < PROBATION_LENGTH"
      using n(2) le pos by linarith+
    let ?i = "if jlt (rs_anomaly (md ! ?m)) (rs_anomaly (md ! (n - 1))) then n - 1 else ?m"
    have "anomaly_at md t = Some (if ?i < PROBATION_LENGTH then None else Some (rs_anomaly (md ! ?i)))"
      using r n le False by (auto simp: anomaly_at_def Let_def idx simp del: One_nat_def)
    moreover have "?i < length md" using n le pos by (auto simp: min_def)
    moreover have "jle (rs_anomaly (md ! (n - 1))) (rs_anomaly (md ! ?i)) \<and> jle (rs_anomaly (md ! ?m)) (rs_anomaly (md ! ?i))"
    proof -
      have "rs_anomaly (md ! (n - 1)) \<noteq> NaN" "rs_anomaly (md ! ?m) \<noteq> NaN"
        using assms(4) n le pos by (auto simp: min_def)
      then show ?thesis by (auto simp: not_jlt jle_def jeq_def)
    qed
    ultimately show ?thesis using n none by (intro exI [of _ ?i]) auto
  qed
qed

theorem anomaly_next_to_witness:
  "anomaly_at [\<lparr>rs_time = 10, rs_value = JNull, rs_anomaly = Fin 1\<rparr>] 20 = Some None"
proof -
  let ?md = "[\<lparr>rs_time = 10, rs_value = JNull, rs_anomaly = Fin 1\<rparr>]"
  have "sorted (map rs_time ?md)" "?md \<noteq> []" "length ?md \<le> 2 ^ 31" "\<forall>r\<in>set ?md. rs_anomaly r \<noteq> NaN" by simp_all
  from anomaly_next_to [OF this refl, of 20] show ?thesis by (auto simp: PROBATION_LENGTH_def)
qed

end
