(* ===== verification/Chart_Window.thy ===== *)
theory Chart_Window
  imports Common_Utils
begin

text \<open>
  The visible time window of a chart, \<open>app/browser/components/Chart.jsx\<close>: where it starts, how new results move it and what
  dragging, zooming, brushing and resizing do to it. \<open>d3\<close> is not modelled: the handlers get the times and
  extents they read from its scales and brush. Times are rational numbers, so the code's
  sums and halves are exact.
\<close>

section \<open>State\<close>

type_synonym window = "rat \<times> rat"

abbreviation span :: "window \<Rightarrow> rat" where
  "span w \<equiv> snd w - fst w"

text \<open>First and last time of the data, \<open>_getMinTimespan()\<close> and whether there are results.\<close>

record chart_env =
  ce_bottom :: rat
  ce_top :: rat
  ce_minTimespan :: rat
  ce_results :: bool

text \<open>
  \<open>_xScale.domain()\<close>, the flags for new results, what a gesture with the brush has done so far, and the
  window that was last sent to the metric store (\<open>ChartUpdateViewpoint\<close>).
\<close>

record chart =
  ch_domain :: window
  ch_jumpToNewResults :: bool
  ch_showAll :: bool
  ch_guardResolution :: bool
  ch_onBackground :: bool
  ch_cancelled :: "window option"
  ch_brushChanged :: bool
  ch_viewpoint :: "window option"

definition ANOMALY_BAR_WIDTH :: rat where
  "ANOMALY_BAR_WIDTH = 10"

text \<open>\<open>null\<close> counts as 0 in the product.\<close>

definition getMinTimespan :: "rat option \<Rightarrow> nat \<Rightarrow> rat" where
  "getMinTimespan minDelta offsetWidth =
     (case minDelta of None \<Rightarrow> 0 | Some d \<Rightarrow> d * of_nat offsetWidth / ANOMALY_BAR_WIDTH)"

section \<open>Operations\<close>

definition onUserSpecifiedScale :: "chart_env \<Rightarrow> chart \<Rightarrow> chart" where
  "onUserSpecifiedScale E s =
     (let extent = ch_domain s; s = s\<lparr>ch_viewpoint := Some extent\<rparr>
      in if ce_results E then
           s\<lparr>ch_jumpToNewResults := (snd extent = ce_top E),
             ch_showAll := (fst extent = ce_bottom E \<and> snd extent = ce_top E),
             ch_guardResolution := (snd extent - fst extent \<noteq> ce_minTimespan E)\<rparr>
         else s)"

definition set_window :: "chart_env \<Rightarrow> window \<Rightarrow> chart \<Rightarrow> chart" where
  "set_window E w s = onUserSpecifiedScale E (s\<lparr>ch_domain := w\<rparr>)"

definition getEndDateWindow :: "chart_env \<Rightarrow> chart \<Rightarrow> window" where
  "getEndDateWindow E s =
     (let timespan = (if ch_guardResolution s then snd (ch_domain s) - fst (ch_domain s) else ce_minTimespan E);
          bottom = ce_bottom E; top = ce_top E;
          extent0 = max bottom (top - timespan);
          discrepancy = timespan - (top - extent0)
      in (extent0, if 0 < discrepancy then top + discrepancy else top))"

text \<open>The window of \<open>componentDidMount\<close>; \<open>stored\<close> is the metric's window.\<close>

definition mount_window :: "chart_env \<Rightarrow> bool \<Rightarrow> window option \<Rightarrow> chart \<Rightarrow> window" where
  "mount_window E active stored s =
     (if active then getEndDateWindow E s
      else case stored of
          Some w \<Rightarrow>
            (let discrepancy = ce_minTimespan E - (snd w - fst w)
             in if 0 < discrepancy then (max (ce_bottom E) (fst w - discrepancy), snd w + discrepancy) else w)
        | None \<Rightarrow> (ce_bottom E, ce_bottom E + ce_minTimespan E))"

definition componentDidMount :: "chart_env \<Rightarrow> bool \<Rightarrow> window option \<Rightarrow> chart \<Rightarrow> chart" where
  "componentDidMount E active stored s =
     (let s = (if ce_results E \<and> \<not> active then s\<lparr>ch_jumpToNewResults := False\<rparr> else s)
      in s\<lparr>ch_domain := mount_window E active stored s\<rparr>)"

definition componentDidUpdate :: "chart_env \<Rightarrow> chart \<Rightarrow> chart" where
  "componentDidUpdate E s =
     (if ch_showAll s then s\<lparr>ch_domain := (ce_bottom E, ce_top E)\<rparr>
      else if ch_jumpToNewResults s \<and> ce_results E then s\<lparr>ch_domain := getEndDateWindow E s\<rparr>
      else s)"

text \<open>\<open>timeDelta\<close> is the time between the two positions of the mouse.\<close>

definition drag_window :: "chart_env \<Rightarrow> rat \<Rightarrow> window \<Rightarrow> window" where
  "drag_window E timeDelta w =
     (let timespan = snd w - fst w;
          bottom = ce_bottom E; top = ce_top E;
          d0 = max bottom (fst w + timeDelta);
          d1 = min top (snd w + timeDelta);
          discrepancy = timespan - (d1 - d0)
      in if 0 < discrepancy then
           (let d0 = max bottom (d0 - discrepancy);
                discrepancy = timespan - (d1 - d0)
            in if 0 < discrepancy then (d0, min top (d1 + discrepancy)) else (d0, d1))
         else (d0, d1))"

definition onChartDrag :: "chart_env \<Rightarrow> rat \<Rightarrow> chart \<Rightarrow> chart" where
  "onChartDrag E timeDelta s = set_window E (drag_window E timeDelta (ch_domain s)) s"

text \<open>A click on a zoom link; \<open>midpoint\<close> is the time in the middle of the chart.\<close>

definition zoom_window :: "chart_env \<Rightarrow> rat \<Rightarrow> rat \<Rightarrow> window" where
  "zoom_window E zoomLevel midpoint =
     (let start = ce_bottom E; fin = ce_top E;
          targetTimespan = (if 0 < zoomLevel then (fin - start) * zoomLevel else ce_minTimespan E);
          w0 = max start (midpoint - targetTimespan / 2);
          w1 = min fin (midpoint + targetTimespan / 2);
          discrepancy = targetTimespan - (w1 - w0)
      in if 0 < discrepancy then
           (let w0 = max start (w0 - discrepancy);
                discrepancy = targetTimespan - (w1 - w0)
            in (w0, if 0 < discrepancy then w1 + discrepancy else w1))
         else (w0, w1))"

definition isCurrentZoom :: "chart_env \<Rightarrow> rat \<Rightarrow> window \<Rightarrow> bool" where
  "isCurrentZoom E zoomLevel w =
     (let timespan = snd w - fst w;
          isMinTimespan = \<bar>timespan - ce_minTimespan E\<bar> < 1 / 10;
          currentZoom = (if isMinTimespan then 0 else timespan / (ce_top E - ce_bottom E))
      in \<bar>currentZoom - zoomLevel\<bar> < 1 / 1000000)"

definition onZoomLink :: "chart_env \<Rightarrow> rat \<Rightarrow> rat \<Rightarrow> chart \<Rightarrow> chart" where
  "onZoomLink E zoomLevel midpoint s =
     (if isCurrentZoom E zoomLevel (ch_domain s) then s else set_window E (zoom_window E zoomLevel midpoint) s)"

definition onBrushStart :: "bool \<Rightarrow> chart \<Rightarrow> chart" where
  "onBrushStart background s = (if background then s\<lparr>ch_onBackground := True\<rparr> else s)\<lparr>ch_brushChanged := False\<rparr>"

definition onBrush :: "chart_env \<Rightarrow> window \<Rightarrow> chart \<Rightarrow> chart" where
  "onBrush E extent s =
     (let minTimespan = ce_minTimespan E
      in if snd extent - fst extent < minTimespan then
           (let s = s\<lparr>ch_cancelled := Some extent\<rparr>;
                movingLeftEdge = (snd extent = snd (ch_domain s));
                movingRightEdge = (fst extent = fst (ch_domain s))
            in if movingLeftEdge \<or> movingRightEdge then
                 (let extent = (if movingLeftEdge then (snd extent - minTimespan, snd extent)
                                else (fst extent, fst extent + minTimespan))
                  in (set_window E extent s)\<lparr>ch_brushChanged := True\<rparr>)
               else s)
         else (set_window E extent s)\<lparr>ch_brushChanged := True, ch_cancelled := None\<rparr>)"

definition brush_click_window :: "chart_env \<Rightarrow> window \<Rightarrow> rat \<Rightarrow> window" where
  "brush_click_window E click brushWidth =
     (let lo = ce_bottom E; hi = ce_top E;
          e0 = max lo (fst click - brushWidth / 2);
          e1 = min hi (snd click + brushWidth / 2);
          discrepancy = brushWidth - (e1 - e0)
      in if 0 < discrepancy then
           (let e1 = min hi (e1 + discrepancy);
                discrepancy = brushWidth - (e1 - e0)
            in (if 0 < discrepancy then max lo (e0 - discrepancy) else e0, e1))
         else (e0, e1))"

text \<open>\<open>None\<close> is the internal error that is thrown.\<close>

definition onBrushEnd :: "chart_env \<Rightarrow> chart \<Rightarrow> chart option" where
  "onBrushEnd E s =
     (if ch_onBackground s \<and> \<not> ch_brushChanged s then
        (case ch_cancelled s of
           None \<Rightarrow> None
         | Some click \<Rightarrow>
             Some ((set_window E (brush_click_window E click (snd (ch_domain s) - fst (ch_domain s))) s)
               \<lparr>ch_cancelled := None, ch_onBackground := False\<rparr>))
      else Some (s\<lparr>ch_onBackground := False\<rparr>))"

text \<open>\<open>w\<close> are the times at the edges of the chart at its new width.\<close>

definition resize_window :: "chart_env \<Rightarrow> window \<Rightarrow> window" where
  "resize_window E w =
     (let lo = ce_bottom E; hi = ce_top E;
          aboveMax = snd w - hi;
          w = (if 0 < aboveMax then (fst w - aboveMax, snd w - aboveMax) else w);
          belowMin = lo - fst w
      in if 0 < belowMin then (fst w + belowMin, min hi (snd w + belowMin)) else w)"

definition onWindowResize :: "chart_env \<Rightarrow> window \<Rightarrow> chart \<Rightarrow> chart" where
  "onWindowResize E edges s = (if ch_showAll s then s else s\<lparr>ch_domain := resize_window E edges\<rparr>)"

section \<open>The windows\<close>

definition inside :: "chart_env \<Rightarrow> window \<Rightarrow> bool" where
  "inside E w = (ce_bottom E \<le> fst w \<and> fst w \<le> snd w \<and> snd w \<le> ce_top E)"

lemma drag_window_span:
  assumes "0 \<le> span w" and "span w \<le> ce_top E - ce_bottom E"
  shows "inside E (drag_window E d w) \<and> span (drag_window E d w) = span w"
  using assms by (auto simp: drag_window_def inside_def Let_def min_def max_def)

lemma drag_window_exact:
  "inside E (fst w + d, snd w + d) \<Longrightarrow> drag_window E d w = (fst w + d, snd w + d)"
  by (auto simp: drag_window_def inside_def Let_def min_def max_def)

lemma zoom_window_span:
  assumes "ce_bottom E \<le> ce_top E" and "0 \<le> zoomLevel" and "0 \<le> ce_minTimespan E"
    and "target = (if 0 < zoomLevel then (ce_top E - ce_bottom E) * zoomLevel else ce_minTimespan E)"
  shows "span (zoom_window E zoomLevel m) = target \<and> ce_bottom E \<le> fst (zoom_window E zoomLevel m)
    \<and> (target \<le> ce_top E - ce_bottom E \<longrightarrow> snd (zoom_window E zoomLevel m) \<le> ce_top E)"
proof -
  have "0 \<le> target" using assms by simp
  then show ?thesis using assms(1)
    unfolding zoom_window_def Let_def assms(4) [symmetric] by (auto simp: min_def max_def field_simps)
qed

lemma brush_click_span:
  assumes "inside E click" and "0 \<le> width" and "width \<le> ce_top E - ce_bottom E"
  shows "inside E (brush_click_window E click width) \<and> width \<le> span (brush_click_window E click width)"
  using assms by (auto simp: brush_click_window_def inside_def Let_def min_def max_def field_simps)

lemma resize_window_inside:
  assumes "fst w \<le> snd w" and "ce_bottom E \<le> ce_top E"
  shows "inside E (resize_window E w) \<and> span (resize_window E w) = min (span w) (ce_top E - ce_bottom E)"
  using assms by (auto simp: resize_window_def inside_def Let_def min_def)

section \<open>Gestures\<close>

text \<open>
  What the user can do to a mounted chart while its data stay the same. The brush reports
  extents within its scale, which \<open>_paintBrush\<close> sets to the data; the zoom links have the levels 0, 0.25 and 1.
\<close>

inductive chart_step :: "chart_env \<Rightarrow> chart \<Rightarrow> chart \<Rightarrow> bool" for E where
  drag: "chart_step E s (onChartDrag E timeDelta s)"
| zoom: "zoomLevel \<in> {0, 1 / 4, 1} \<Longrightarrow> chart_step E s (onZoomLink E zoomLevel midpoint s)"
| brush_start: "chart_step E s (onBrushStart background s)"
| brush: "inside E extent \<Longrightarrow> chart_step E s (onBrush E extent s)"
| brush_end: "onBrushEnd E s = Some t \<Longrightarrow> chart_step E s t"

definition env_ok :: "chart_env \<Rightarrow> bool" where
  "env_ok E = (0 \<le> ce_minTimespan E \<and> 4 * ce_minTimespan E \<le> ce_top E - ce_bottom E)"

definition chart_ok :: "chart_env \<Rightarrow> chart \<Rightarrow> chart \<Rightarrow> bool" where
  "chart_ok E s0 s = (inside E (ch_domain s) \<and> ce_minTimespan E \<le> span (ch_domain s)
     \<and> (\<forall>c. ch_cancelled s = Some c \<longrightarrow> inside E c)
     \<and> (ch_viewpoint s = Some (ch_domain s) \<or> ch_viewpoint s = None \<and> ch_domain s = ch_domain s0))"

lemma user_scale_simps [simp]:
  "ch_domain (onUserSpecifiedScale E s) = ch_domain s" "ch_cancelled (onUserSpecifiedScale E s) = ch_cancelled s"
  "ch_viewpoint (onUserSpecifiedScale E s) = Some (ch_domain s)" "ch_brushChanged (onUserSpecifiedScale E s) = ch_brushChanged s"
  "ch_onBackground (onUserSpecifiedScale E s) = ch_onBackground s"
  by (simp_all add: onUserSpecifiedScale_def Let_def)

lemma chart_ok_set:
  assumes "chart_ok E s0 s" and "inside E w" and "ce_minTimespan E \<le> span w"
  shows "chart_ok E s0 (set_window E w s)"
  using assms by (simp add: chart_ok_def set_window_def)

lemma inside_span: "inside E w \<Longrightarrow> 0 \<le> span w \<and> span w \<le> ce_top E - ce_bottom E"
  by (auto simp: inside_def)

lemma chart_ok_brush:
  assumes "chart_ok E s0 s" and "inside E e" and "env_ok E"
  shows "chart_ok E s0 (onBrush E e s)"
proof (cases "span e < ce_minTimespan E")
  case False
  then have "chart_ok E s0 (set_window E e s)" using assms by (intro chart_ok_set) auto
  then show ?thesis using False by (simp add: onBrush_def chart_ok_def)
next
  case True
  let ?m = "ce_minTimespan E" and ?s = "s\<lparr>ch_cancelled := Some e\<rparr>"
  have s: "chart_ok E s0 ?s" using assms(1,2) by (simp add: chart_ok_def)
  have d: "inside E (ch_domain s)" "?m \<le> span (ch_domain s)" using assms(1) by (simp_all add: chart_ok_def)
  consider "snd e = snd (ch_domain s)" | "snd e \<noteq> snd (ch_domain s)" "fst e = fst (ch_domain s)"
    | "snd e \<noteq> snd (ch_domain s)" "fst e \<noteq> fst (ch_domain s)" by blast
  then show ?thesis
  proof cases
    case 1
    have "chart_ok E s0 (set_window E (snd e - ?m, snd e) ?s)"
      using 1 d assms(3) s by (intro chart_ok_set) (auto simp: inside_def env_ok_def)
    then show ?thesis using 1 True by (simp add: onBrush_def Let_def chart_ok_def)
  next
    case 2
    have "chart_ok E s0 (set_window E (fst e, fst e + ?m) ?s)"
      using 2 d assms(3) s by (intro chart_ok_set) (auto simp: inside_def env_ok_def)
    then show ?thesis using 2 True by (simp add: onBrush_def Let_def chart_ok_def)
  next
    case 3
    then show ?thesis using True s by (simp add: onBrush_def Let_def)
  qed
qed

lemma chart_ok_step:
  assumes "chart_step E s t" and "chart_ok E s0 s" and "env_ok E"
  shows "chart_ok E s0 t"
  using assms(1)
proof (cases rule: chart_step.cases)
  case (drag timeDelta)
  have d: "inside E (ch_domain s)" "ce_minTimespan E \<le> span (ch_domain s)" using assms(2) by (simp_all add: chart_ok_def)
  then show ?thesis
    using drag drag_window_span [of "ch_domain s" E timeDelta] inside_span [OF d(1)]
      chart_ok_set [OF assms(2), of "drag_window E timeDelta (ch_domain s)"]
    by (simp add: onChartDrag_def)
next
  case (zoom zoomLevel midpoint)
  let ?target = "if 0 < zoomLevel then (ce_top E - ce_bottom E) * zoomLevel else ce_minTimespan E"
  have z: "span (zoom_window E zoomLevel midpoint) = ?target \<and> ce_bottom E \<le> fst (zoom_window E zoomLevel midpoint)
    \<and> (?target \<le> ce_top E - ce_bottom E \<longrightarrow> snd (zoom_window E zoomLevel midpoint) \<le> ce_top E)"
    by (rule zoom_window_span [OF _ _ _ refl]) (use zoom assms(3) in \<open>auto simp: env_ok_def\<close>)
  have "zoomLevel = 0 \<or> zoomLevel = 1 / 4 \<or> zoomLevel = 1" using zoom by simp
  then have "ce_minTimespan E \<le> ?target \<and> ?target \<le> ce_top E - ce_bottom E"
  proof (elim disjE)
    assume z: "zoomLevel = 1 / 4"
    show ?thesis unfolding z using assms(3) by (simp add: env_ok_def)
  qed (use assms(3) in \<open>simp_all add: env_ok_def\<close>)
  then show ?thesis
    using zoom z assms(2,3) chart_ok_set [OF assms(2), of "zoom_window E zoomLevel midpoint"]
    by (auto simp: onZoomLink_def inside_def env_ok_def)
next
  case (brush_start background)
  then show ?thesis using assms(2) by (simp add: onBrushStart_def chart_ok_def)
next
  case (brush extent)
  then show ?thesis using brush chart_ok_brush [OF assms(2) _ assms(3)] by simp
next
  case brush_end
  have d: "inside E (ch_domain s)" "ce_minTimespan E \<le> span (ch_domain s)" using assms(2) by (simp_all add: chart_ok_def)
  show ?thesis
  proof (cases "ch_onBackground s \<and> \<not> ch_brushChanged s")
    case True
    then obtain c where c: "ch_cancelled s = Some c" using brush_end by (auto simp: onBrushEnd_def split: option.splits)
    then have "inside E c" using assms(2) by (simp add: chart_ok_def)
    then have "chart_ok E s0 (set_window E (brush_click_window E c (span (ch_domain s))) s)"
      using brush_click_span [of E c "span (ch_domain s)"] inside_span [OF d(1)] d(2)
        chart_ok_set [OF assms(2), of "brush_click_window E c (span (ch_domain s))"] by simp
    then show ?thesis using brush_end True c by (auto simp: onBrushEnd_def chart_ok_def)
  next
    case False
    then show ?thesis using brush_end assms(2) by (auto simp: onBrushEnd_def chart_ok_def)
  qed
qed

lemma chart_ok_reach: "(chart_step E)\<^sup>*\<^sup>* s t \<Longrightarrow> chart_ok E s0 s \<Longrightarrow> env_ok E \<Longrightarrow> chart_ok E s0 t"
  by (induction rule: rtranclp_induct) (auto intro: chart_ok_step)

definition new_chart :: chart where
  "new_chart = \<lparr>ch_domain = (0, 1), ch_jumpToNewResults = True, ch_showAll = False, ch_guardResolution = False,
     ch_onBackground = False, ch_cancelled = None, ch_brushChanged = False, ch_viewpoint = None\<rparr>"

text \<open>C15: a chart whose data span at least four times the smallest timespan and that starts without a stored window or
  with one inside the data: after any sequence of drags, zooms and gestures with the brush, its
  window lies inside the data and is at least the smallest timespan long, and the window stored for the metric is
  the one shown (nothing, as long as the window has not changed).\<close>

theorem window_inside:
  assumes "env_ok E" and "\<forall>w. stored = Some w \<longrightarrow> inside E w \<and> ce_minTimespan E \<le> span w"
    and "s = componentDidMount E False stored new_chart" and "(chart_step E)\<^sup>*\<^sup>* s t"
  shows "ce_bottom E \<le> fst (ch_domain t) \<and> snd (ch_domain t) \<le> ce_top E \<and> ce_minTimespan E \<le> span (ch_domain t)
    \<and> (ch_viewpoint t = Some (ch_domain t) \<or> ch_viewpoint t = None \<and> ch_domain t = ch_domain s)"
proof -
  have "chart_ok E s s" using assms(1-3)
    by (auto simp: componentDidMount_def mount_window_def new_chart_def chart_ok_def inside_def env_ok_def Let_def split: option.split)
  from chart_ok_reach [OF assms(4) this assms(1)] show ?thesis by (simp add: chart_ok_def inside_def)
qed

definition small_env :: chart_env where
  "small_env = \<lparr>ce_bottom = 0, ce_top = 100, ce_minTimespan = 10, ce_results = True\<rparr>"

theorem window_inside_witness:
  "snd (ch_domain (onChartDrag small_env 500 (componentDidMount small_env False None new_chart))) \<le> 100"
proof -
  have "env_ok small_env" by (simp add: env_ok_def small_env_def)
  from window_inside [OF this _ refl, of None, OF _ r_into_rtranclp, OF _ chart_step.drag [of _ _ 500]]
  show ?thesis by (simp add: small_env_def)
qed

text \<open>dragging moves the window by the dragged time where the data allow it and never changes its length.\<close>

theorem drag_keeps_length:
  assumes "inside E (ch_domain s)"
  shows "span (ch_domain (onChartDrag E d s)) = span (ch_domain s)
    \<and> (inside E (fst (ch_domain s) + d, snd (ch_domain s) + d) \<longrightarrow>
        ch_domain (onChartDrag E d s) = (fst (ch_domain s) + d, snd (ch_domain s) + d))"
  using drag_window_span [of "ch_domain s" E d] inside_span [OF assms] drag_window_exact [of E "ch_domain s" d]
  by (simp add: onChartDrag_def set_window_def)

theorem drag_keeps_length_witness:
  "span (ch_domain (onChartDrag small_env 500 (componentDidMount small_env False None new_chart))) = 10"
proof -
  have d: "ch_domain (componentDidMount small_env False None new_chart) = (0, 10)"
    by (simp add: componentDidMount_def mount_window_def small_env_def new_chart_def)
  then have "inside small_env (ch_domain (componentDidMount small_env False None new_chart))"
    by (simp add: inside_def small_env_def)
  from drag_keeps_length [OF this, of 500] d show ?thesis by simp
qed

text \<open>when new results extend the data, a window that the user has moved to the right edge goes on showing the newest
  results at its length (all data, if it showed all), and a window elsewhere stays where it is.\<close>

theorem update_follows:
  assumes "s = set_window E w s0" and "ce_results E" and "inside E w" and "ce_minTimespan E \<le> span w"
    and "E' = E\<lparr>ce_top := top'\<rparr>" and "ce_top E \<le> top'"
  shows "ch_domain (componentDidUpdate E' s) =
      (if w = (ce_bottom E, ce_top E) then (ce_bottom E, top')
       else if snd w = ce_top E then (top' - span w, top')
       else w)"
  using assms by (cases w) (auto simp: componentDidUpdate_def set_window_def onUserSpecifiedScale_def getEndDateWindow_def
      inside_def Let_def max_def)

theorem update_follows_witness:
  "ch_domain (componentDidUpdate (small_env\<lparr>ce_top := 120\<rparr>) (set_window small_env (80, 100) new_chart)) = (100, 120)"
proof -
  have "ce_results small_env" "inside small_env (80, 100)" "ce_minTimespan small_env \<le> span (80, 100)" "ce_top small_env \<le> 120"
    by (simp_all add: small_env_def inside_def)
  from update_follows [OF refl this(1-3) refl this(4), of new_chart] show ?thesis by (simp add: small_env_def)
qed

text \<open>a chart that starts with a stored window shorter than the smallest timespan (the metric's data have got
  coarser) gets a window that is longer than the smallest timespan by what was missing, when there is room to the left,
  because the missing time is added on both sides.\<close>

theorem short_window_overshoots:
  assumes "span w < ce_minTimespan E" and "ce_bottom E \<le> fst w - (ce_minTimespan E - span w)"
  shows "span (ch_domain (componentDidMount E False (Some w) s)) = ce_minTimespan E + (ce_minTimespan E - span w)
    \<and> ce_minTimespan E < span (ch_domain (componentDidMount E False (Some w) s))"
  using assms by (auto simp: componentDidMount_def mount_window_def Let_def max_def)

theorem short_window_overshoots_witness:
  "span (ch_domain (componentDidMount small_env False (Some (50, 54)) new_chart)) = 16"
  using short_window_overshoots [of "(50, 54)" small_env new_chart] by (simp add: small_env_def)

end
