(* ===== verification/Anomaly_Bars.thy ===== *)
theory Anomaly_Bars
  imports Chart_Data Chart_Window
begin

text \<open>
  The anomaly bars under a chart, \<open>app/browser/lib/Dygraphs/AnomalyBarChartUnderlay.js\<close>: the visible time is divided
  into buckets, the results are walked once from the left edge, and each bucket that has results gets a bar with its
  highest score. The theorems say that the walk ends and compare it with a definition that selects the results of a bucket
  by their times.
\<close>

section \<open>The walk over the buckets\<close>

text \<open>A bar: the time of its left edge, its colour and its height relative to the chart.\<close>

record bar =
  bar_start :: rat
  bar_color :: colour
  bar_height :: jsnum

text \<open>\<open>while (i < modelData.length && p(modelData[i].time)) i++\<close>\<close>

definition advance :: "result list \<Rightarrow> nat \<Rightarrow> rat \<Rightarrow> nat" where
  "advance modelData i limit = i + length (takeWhile (\<lambda>r. rs_time r < limit) (drop i modelData))"

definition max_anomaly :: "result list \<Rightarrow> nat \<Rightarrow> nat \<Rightarrow> jsnum" where
  "max_anomaly modelData matchStart matchEnd =
     foldl jmax (Fin 0) (map rs_anomaly (drop (max matchStart PROBATION_LENGTH) (take matchEnd modelData)))"

definition draw_bar :: "result list \<Rightarrow> rat \<Rightarrow> nat \<Rightarrow> nat \<Rightarrow> bar list" where
  "draw_bar modelData bucketStart matchStart matchEnd =
     (if matchStart \<noteq> matchEnd then
        (if matchEnd - 1 < PROBATION_LENGTH
         then [\<lparr>bar_start = bucketStart, bar_color = mapAnomalyColor None, bar_height = anomalyScale (Fin 0)\<rparr>]
         else let maxAnomaly = max_anomaly modelData matchStart matchEnd
              in [\<lparr>bar_start = bucketStart, bar_color = mapAnomalyColor (Some maxAnomaly), bar_height = anomalyScale maxAnomaly\<rparr>])
      else [])"

text \<open>\<open>None\<close> is a loop that does not end.\<close>

partial_function (option) bars_loop ::
    "result list \<Rightarrow> rat \<Rightarrow> rat \<Rightarrow> rat \<Rightarrow> int \<Rightarrow> nat \<Rightarrow> bar list option" where
  "bars_loop modelData width bucketStart0 limit bucketIndex iData =
     (let bucketStart = bucketStart0 + of_int bucketIndex * width
      in if bucketStart \<le> limit then
           (let bucketEnd = bucketStart + width;
                matchStart = advance modelData iData bucketStart;
                matchEnd = advance modelData matchStart bucketEnd
            in Option.bind (bars_loop modelData width bucketStart0 limit (bucketIndex + 1) matchEnd)
                 (\<lambda>bars. Some (draw_bar modelData bucketStart matchStart matchEnd @ bars)))
         else Some [])"

text \<open>The first index of the walk.\<close>

definition first_index :: "result list \<Rightarrow> rat \<Rightarrow> nat option" where
  "first_index modelData t = (case binarySearch modelData t compare_time of
       None \<Rightarrow> None
     | Some iData \<Rightarrow> Some (nat (if iData < 0 then - iData - 1 else iData)))"

text \<open>Without a width the buckets have no width, and the comparisons with \<open>NaN\<close> end the walk at once.\<close>

definition anomaly_bars :: "result list \<Rightarrow> nat \<Rightarrow> window \<Rightarrow> bar list option" where
  "anomaly_bars modelData offsetWidth timespan =
     (if length modelData < 2 then Some []
      else
        (let visibleBucketCount = of_nat offsetWidth / ANOMALY_BAR_WIDTH;
             timestampBucketWidth = (snd timespan - fst timespan) / visibleBucketCount;
             bucketStart0 = rs_time (modelData ! 0) - timestampBucketWidth / 2;
             firstVisibleBucket = \<lfloor>(fst timespan - bucketStart0) / timestampBucketWidth\<rfloor>
         in if offsetWidth = 0 \<or> timestampBucketWidth = 0 then Some []
            else case first_index modelData (fst timespan) of
                None \<Rightarrow> None
              | Some iData \<Rightarrow>
                  bars_loop modelData timestampBucketWidth bucketStart0 (snd timespan) firstVisibleBucket iData))"

section \<open>The bar of a bucket, by the times of its results\<close>

definition bucket_bar :: "result list \<Rightarrow> rat \<Rightarrow> rat \<Rightarrow> bar list" where
  "bucket_bar modelData s e =
     (let idx = filter (\<lambda>i. s \<le> rs_time (modelData ! i) \<and> rs_time (modelData ! i) < e) [0..<length modelData]
      in if idx = [] then []
         else if \<forall>i\<in>set idx. i < PROBATION_LENGTH
         then [\<lparr>bar_start = s, bar_color = disabledColor, bar_height = anomalyScale (Fin 0)\<rparr>]
         else let score = foldl jmax (Fin 0) (map (\<lambda>i. rs_anomaly (modelData ! i)) (filter (\<lambda>i. PROBATION_LENGTH \<le> i) idx))
              in [\<lparr>bar_start = s, bar_color = mapAnomalyColor (Some score), bar_height = anomalyScale score\<rparr>])"

text \<open>Results before a time, by position.\<close>

definition count_before :: "result list \<Rightarrow> rat \<Rightarrow> nat" where
  "count_before md t = length (filter (\<lambda>r. rs_time r < t) md)"

lemma count_before_le: "count_before md t \<le> length md"
  by (simp add: count_before_def)

lemma count_before_nth:
  assumes "sorted (map rs_time md)" and "i < length md"
  shows "i < count_before md t \<longleftrightarrow> rs_time (md ! i) < t"
proof -
  have f: "filter (\<lambda>r. rs_time r < t) md = takeWhile (\<lambda>r. rs_time r < t) md" using assms(1) by (simp add: takeWhile_sorted)
  show ?thesis
  proof
    assume "i < count_before md t"
    then show "rs_time (md ! i) < t" unfolding count_before_def f
      by (metis (mono_tags, lifting) nth_mem set_takeWhileD takeWhile_nth)
  next
    assume a: "rs_time (md ! i) < t"
    have "rs_time (md ! j) < t" if "j < Suc i" for j
    proof -
      have "map rs_time md ! j \<le> map rs_time md ! i" using assms that by (intro sorted_nth_mono) auto
      then show ?thesis using a assms(2) that by simp
    qed
    then have "Suc i \<le> length (takeWhile (\<lambda>r. rs_time r < t) md)"
      using assms(2) by (intro length_takeWhile_less_P_nth) auto
    then show "i < count_before md t" by (simp add: count_before_def f)
  qed
qed

lemma count_before_mono: "s \<le> t \<Longrightarrow> count_before md s \<le> count_before md t"
  by (induction md) (auto simp: count_before_def)

lemma advance_max:
  assumes "sorted (map rs_time md)" and "i \<le> length md"
  shows "advance md i t = max i (count_before md t)"
proof -
  let ?n = "count_before md t"
  have "takeWhile (\<lambda>r. rs_time r < t) (drop i md) = take (?n - i) (drop i md)"
  proof (rule takeWhile_eq_take_P_nth)
    fix j assume j: "j < ?n - i" "j < length (drop i md)"
    then have "i + j < ?n" "i + j < length md" by auto
    then show "rs_time (drop i md ! j) < t" using count_before_nth [OF assms(1), of "i + j" t] j by simp
  next
    assume "?n - i < length (drop i md)"
    then have "i + (?n - i) < length md" using assms(2) by simp
    moreover have "\<not> i + (?n - i) < ?n" by linarith
    ultimately show "\<not> rs_time (drop i md ! (?n - i)) < t"
      using count_before_nth [OF assms(1), of "i + (?n - i)" t] assms(2) by simp
  qed
  then show ?thesis using count_before_le [of md t] assms(2) by (simp add: advance_def)
qed

text \<open>The results of a bucket are those between two counts.\<close>

lemma filter_upt: "b \<le> n \<Longrightarrow> filter (\<lambda>i. a \<le> i \<and> i < b) [0..<n] = [a..<b]"
proof (induction n)
  case (Suc n)
  show ?case
  proof (cases "b = Suc n")
    case True
    have "filter (\<lambda>i. a \<le> i \<and> i < Suc n) [0..<m] = [a..<m]" if "m \<le> Suc n" for m
      using that by (induction m) auto
    then show ?thesis using True by blast
  next
    case False
    then show ?thesis using Suc by auto
  qed
qed simp

lemma bucket_indices:
  assumes "sorted (map rs_time md)"
  shows "filter (\<lambda>i. s \<le> rs_time (md ! i) \<and> rs_time (md ! i) < e) [0..<length md] = [count_before md s..<count_before md e]"
proof -
  have "filter (\<lambda>i. s \<le> rs_time (md ! i) \<and> rs_time (md ! i) < e) [0..<length md]
      = filter (\<lambda>i. count_before md s \<le> i \<and> i < count_before md e) [0..<length md]"
    using count_before_nth [OF assms] by (intro filter_cong) (auto simp: not_less [symmetric])
  then show ?thesis using filter_upt [OF count_before_le] by simp
qed

lemma map_nth_upt: "b \<le> length xs \<Longrightarrow> map (nth xs) [a..<b] = drop a (take b xs)"
  by (rule nth_equalityI) auto

lemma filter_upt_ge: "filter (\<lambda>i. p \<le> i) [a..<b] = [max a p..<b]"
  by (induction b) (auto simp: max_def)

lemma draw_bar_bucket:
  assumes "sorted (map rs_time md)" and "s \<le> e"
  shows "draw_bar md s (count_before md s) (count_before md e) = bucket_bar md s e"
proof (cases "count_before md s = count_before md e")
  case True
  then show ?thesis by (simp add: draw_bar_def bucket_bar_def bucket_indices [OF assms(1)])
next
  case False
  let ?a = "count_before md s" and ?b = "count_before md e"
  have ab: "?a < ?b" using False count_before_mono [OF assms(2), of md] by simp
  have all: "(\<forall>i\<in>set [?a..<?b]. i < PROBATION_LENGTH) \<longleftrightarrow> ?b - 1 < PROBATION_LENGTH" using ab by auto
  have "filter (\<lambda>i. PROBATION_LENGTH \<le> i) [?a..<?b] = [max ?a PROBATION_LENGTH..<?b]" by (rule filter_upt_ge)
  then have "map (\<lambda>i. rs_anomaly (md ! i)) (filter (\<lambda>i. PROBATION_LENGTH \<le> i) [?a..<?b])
      = map rs_anomaly (map (nth md) [max ?a PROBATION_LENGTH..<?b])" by simp
  also have "\<dots> = map rs_anomaly (drop (max ?a PROBATION_LENGTH) (take ?b md))"
    by (simp only: map_nth_upt [OF count_before_le])
  finally show ?thesis using ab all
    by (simp add: draw_bar_def bucket_bar_def bucket_indices [OF assms(1)] max_anomaly_def mapAnomalyColor_def Let_def del: set_upt)
qed

section \<open>The walk ends and draws every bucket\<close>

definition bucket :: "rat \<Rightarrow> rat \<Rightarrow> int \<Rightarrow> rat" where
  "bucket width start0 k = start0 + of_int k * width"

lemma bucket_next: "bucket w s0 (k + 1) = bucket w s0 k + w"
  by (simp add: bucket_def algebra_simps)

lemma bucket_inject: "0 < w \<Longrightarrow> bucket w s0 k = bucket w s0 l \<longleftrightarrow> k = l"
  by (simp add: bucket_def)

lemma bucket_mono: "0 < w \<Longrightarrow> bucket w s0 k \<le> bucket w s0 l \<longleftrightarrow> k \<le> l"
  by (simp add: bucket_def)

lemma draw_bar_start: "b \<in> set (draw_bar md s i j) \<Longrightarrow> bar_start b = s"
  by (auto simp: draw_bar_def Let_def split: if_splits)

text \<open>From a bucket on before which all results have been passed, the walk draws every visible bucket.\<close>

lemma bars_loop_rest:
  assumes "sorted (map rs_time md)" and "0 < w"
  shows "\<exists>bs. bars_loop md w s0 limit k (count_before md (bucket w s0 k)) = Some bs
    \<and> (\<forall>b\<in>set bs. \<exists>j\<ge>k. bar_start b = bucket w s0 j \<and> bucket w s0 j \<le> limit)
    \<and> (\<forall>j\<ge>k. bucket w s0 j \<le> limit \<longrightarrow>
         filter (\<lambda>b. bar_start b = bucket w s0 j) bs = bucket_bar md (bucket w s0 j) (bucket w s0 (j + 1)))"
proof (induction "nat (\<lfloor>(limit - s0) / w\<rfloor> + 1 - k)" arbitrary: k rule: less_induct)
  case less
  let ?s = "bucket w s0 k" and ?e = "bucket w s0 (k + 1)"
  show ?case
  proof (cases "?s \<le> limit")
    case False
    then have "bars_loop md w s0 limit k (count_before md ?s) = Some []"
      by (subst bars_loop.simps) (simp add: bucket_def)
    moreover have "\<forall>j\<ge>k. \<not> bucket w s0 j \<le> limit" using False bucket_mono [OF assms(2), of s0 k] by (meson order_trans)
    ultimately show ?thesis by simp
  next
    case True
    have "of_int k \<le> (limit - s0) / w" using True assms(2) by (simp add: bucket_def field_simps)
    then have "k \<le> \<lfloor>(limit - s0) / w\<rfloor>" by (simp add: le_floor_iff)
    then have "nat (\<lfloor>(limit - s0) / w\<rfloor> + 1 - (k + 1)) < nat (\<lfloor>(limit - s0) / w\<rfloor> + 1 - k)" by simp
    from less.hyps [OF this] obtain bs where
      bs: "bars_loop md w s0 limit (k + 1) (count_before md ?e) = Some bs"
      and start: "\<forall>b\<in>set bs. \<exists>j\<ge>k + 1. bar_start b = bucket w s0 j \<and> bucket w s0 j \<le> limit"
      and bars: "\<forall>j\<ge>k + 1. bucket w s0 j \<le> limit \<longrightarrow>
         filter (\<lambda>b. bar_start b = bucket w s0 j) bs = bucket_bar md (bucket w s0 j) (bucket w s0 (j + 1))" by blast
    have se: "?s \<le> ?e" using assms(2) by (simp add: bucket_next)
    have adv: "advance md (count_before md ?s) ?s = count_before md ?s" "advance md (count_before md ?s) ?e = count_before md ?e"
      using advance_max [OF assms(1) count_before_le] count_before_mono [OF se, of md] by auto
    have d: "draw_bar md ?s (count_before md ?s) (count_before md ?e) = bucket_bar md ?s ?e"
      by (rule draw_bar_bucket [OF assms(1) se])
    have loop: "bars_loop md w s0 limit k (count_before md ?s) = Some (bucket_bar md ?s ?e @ bs)"
      using True bs adv d by (subst bars_loop.simps) (simp add: bucket_def algebra_simps Let_def)
    have first: "b \<in> set (bucket_bar md ?s ?e) \<Longrightarrow> bar_start b = ?s" for b
      using draw_bar_start [of b md ?s] d by metis
    have "filter (\<lambda>b. bar_start b = bucket w s0 j) (bucket_bar md ?s ?e @ bs) = bucket_bar md (bucket w s0 j) (bucket w s0 (j + 1))"
      if j: "k \<le> j" "bucket w s0 j \<le> limit" for j
    proof (cases "j = k")
      case True
      have "filter (\<lambda>b. bar_start b = ?s) bs = []"
        using start bucket_inject [OF assms(2), of s0] by (fastforce simp: filter_empty_conv)
      then show ?thesis using True first by (simp add: filter_id_conv)
    next
      case False
      then have "filter (\<lambda>b. bar_start b = bucket w s0 j) (bucket_bar md ?s ?e) = []"
        using first bucket_inject [OF assms(2), of s0] by (auto simp: filter_empty_conv)
      then show ?thesis using False bars j by simp
    qed
    moreover have "\<exists>j\<ge>k. bar_start b = bucket w s0 j \<and> bucket w s0 j \<le> limit"
      if "b \<in> set (bucket_bar md ?s ?e @ bs)" for b
    proof (cases "b \<in> set bs")
      case True
      then obtain j where "k + 1 \<le> j" "bar_start b = bucket w s0 j" "bucket w s0 j \<le> limit" using start by blast
      then show ?thesis by (intro exI [of _ j]) simp
    next
      case False
      then show ?thesis using that first True by (intro exI [of _ k]) simp
    qed
    ultimately show ?thesis using loop by (intro exI [of _ "bucket_bar md ?s ?e @ bs"]) blast
  qed
qed

lemma first_index_before:
  assumes "sorted (map rs_time md)" and "md \<noteq> []" and "length md \<le> 2 ^ 31" and "t < e"
  shows "\<exists>i. first_index md t = Some i \<and> i \<le> count_before md e"
proof -
  obtain r where r: "binarySearch md t compare_time = Some r"
    and cases: "(0 \<le> r \<and> r < int (length md) \<and> rs_time (md ! nat r) = t) \<or> r = - int (count_before md t)"
    using bsearch_loop_correct [OF assms(3) partitioned_time [OF assms(1)], of 0 "int (length md) - 1" t] assms(2)
    by (auto simp: below_time binarySearch_def compare_time_def count_before_def)
  have "r < 0 \<Longrightarrow> nat (- r - 1) \<le> count_before md e"
    using cases count_before_mono [of t e md] assms(4) by auto
  moreover have "nat r \<le> count_before md e" if "0 \<le> r"
  proof (cases "r = 0")
    case False
    then have "nat r < length md" "rs_time (md ! nat r) < e" using cases that assms(4) by auto
    then show ?thesis using count_before_nth [OF assms(1), of "nat r" e] by simp
  qed simp
  ultimately show ?thesis using r by (auto simp: first_index_def)
qed

text \<open>C14: on at least two results in order of time and a visible time of positive length the walk ends; every bar starts at a
  bucket of the visible time, and each bucket after the first has exactly the bar that its results determine: none without
  results, the colour of the probation when all are among the first 390, and else colour and
  height of the highest score of the others. (In the first bucket, results more than one before
  the left edge are passed over.)\<close>

theorem bars_by_bucket:
  assumes "sorted (map rs_time md)" and "2 \<le> length md" and "length md \<le> 2 ^ 31" and "0 < offsetWidth" and "t0 < t1"
    and "w = (t1 - t0) / (of_nat offsetWidth / 10)" and "s0 = rs_time (md ! 0) - w / 2" and "k0 = \<lfloor>(t0 - s0) / w\<rfloor>"
  shows "\<exists>bs. anomaly_bars md offsetWidth (t0, t1) = Some bs
    \<and> (\<forall>b\<in>set bs. \<exists>k\<ge>k0. bar_start b = bucket w s0 k \<and> bucket w s0 k \<le> t1)
    \<and> (\<forall>k>k0. bucket w s0 k \<le> t1 \<longrightarrow>
         filter (\<lambda>b. bar_start b = bucket w s0 k) bs = bucket_bar md (bucket w s0 k) (bucket w s0 (k + 1)))"
proof -
  have w: "0 < w" using assms(4-6) by simp
  let ?s = "bucket w s0 k0" and ?e = "bucket w s0 (k0 + 1)"
  have k: "of_int k0 \<le> (t0 - s0) / w" "(t0 - s0) / w < of_int k0 + 1" unfolding assms(8) by linarith+
  have s: "?s \<le> t0" and e: "t0 < ?e" using k w by (simp_all add: bucket_def field_simps)
  obtain i where i: "first_index md t0 = Some i" "i \<le> count_before md ?e"
  proof -
    have "md \<noteq> []" using assms(2) by auto
    from first_index_before [OF assms(1) this assms(3) e] show ?thesis using that by blast
  qed
  have il: "i \<le> length md" using i(2) count_before_le [of md ?e] by simp
  let ?m = "max i (count_before md ?s)"
  have se: "?s \<le> ?e" using w by (simp add: bucket_next)
  have ml: "?m \<le> length md" using il count_before_le [of md ?s] by simp
  have adv: "advance md i ?s = ?m" "advance md ?m ?e = count_before md ?e"
    using advance_max [OF assms(1) il] advance_max [OF assms(1) ml] i(2) count_before_mono [OF se, of md] by auto
  obtain bs where bs: "bars_loop md w s0 t1 (k0 + 1) (count_before md ?e) = Some bs"
    and start: "\<forall>b\<in>set bs. \<exists>j\<ge>k0 + 1. bar_start b = bucket w s0 j \<and> bucket w s0 j \<le> t1"
    and bars: "\<forall>j\<ge>k0 + 1. bucket w s0 j \<le> t1 \<longrightarrow>
         filter (\<lambda>b. bar_start b = bucket w s0 j) bs = bucket_bar md (bucket w s0 j) (bucket w s0 (j + 1))"
    using bars_loop_rest [OF assms(1) w] by blast
  let ?first = "draw_bar md ?s ?m (count_before md ?e)"
  have st: "?s \<le> t1" using s assms(5) by simp
  have "bars_loop md w s0 t1 k0 i = Some (?first @ bs)"
    using st bs adv by (subst bars_loop.simps) (simp add: bucket_def algebra_simps Let_def)
  then have "anomaly_bars md offsetWidth (t0, t1) = Some (?first @ bs)"
    using assms(2,4) w i(1) unfolding anomaly_bars_def Let_def fst_conv snd_conv ANOMALY_BAR_WIDTH_def
      assms(6) [symmetric] assms(7) [symmetric] assms(8) [symmetric] by simp
  moreover have "\<exists>k\<ge>k0. bar_start b = bucket w s0 k \<and> bucket w s0 k \<le> t1" if "b \<in> set (?first @ bs)" for b
  proof (cases "b \<in> set bs")
    case True
    then obtain j where "k0 + 1 \<le> j" "bar_start b = bucket w s0 j" "bucket w s0 j \<le> t1" using start by blast
    then show ?thesis by (intro exI [of _ j]) simp
  next
    case False
    then show ?thesis using that draw_bar_start [of b md ?s] st by (intro exI [of _ k0]) auto
  qed
  moreover have "filter (\<lambda>b. bar_start b = bucket w s0 j) (?first @ bs) = bucket_bar md (bucket w s0 j) (bucket w s0 (j + 1))"
    if j: "k0 < j" "bucket w s0 j \<le> t1" for j
  proof -
    have "bar_start b \<noteq> bucket w s0 j" if "b \<in> set ?first" for b
      using draw_bar_start [OF that] bucket_inject [OF w, of s0 k0 j] j(1) by simp
    then have "filter (\<lambda>b. bar_start b = bucket w s0 j) ?first = []" by (simp add: filter_empty_conv)
    then show ?thesis using bars j by simp
  qed
  ultimately show ?thesis by blast
qed

theorem bars_by_bucket_witness:
  "\<exists>bs. anomaly_bars [\<lparr>rs_time = 0, rs_value = JNull, rs_anomaly = Fin 1\<rparr>, \<lparr>rs_time = 10, rs_value = JNull, rs_anomaly = Fin 1\<rparr>]
      20 (0, 20) = Some bs \<and> filter (\<lambda>b. bar_start b = 5) bs
    = [\<lparr>bar_start = 5, bar_color = disabledColor, bar_height = anomalyScale (Fin 0)\<rparr>]"
proof -
  let ?md = "[\<lparr>rs_time = 0, rs_value = JNull, rs_anomaly = Fin 1\<rparr>, \<lparr>rs_time = 10, rs_value = JNull, rs_anomaly = Fin 1\<rparr>]"
  have "sorted (map rs_time ?md)" "2 \<le> length ?md" "length ?md \<le> 2 ^ 31" "0 < (20 :: nat)" "(0 :: rat) < 20" by simp_all
  from bars_by_bucket [OF this refl refl refl] obtain bs where
    b: "anomaly_bars ?md 20 (0, 20) = Some bs" and f: "bucket 10 (- 5) 1 \<le> 20 \<longrightarrow> \<lfloor>(5 :: rat) / 10\<rfloor> < 1 \<longrightarrow>
         filter (\<lambda>b. bar_start b = bucket 10 (- 5) 1) bs = bucket_bar ?md (bucket 10 (- 5) 1) (bucket 10 (- 5) 2)" by auto
  have "bucket 10 (- 5) 1 = 5" "bucket 10 (- 5) 2 = 15" "\<lfloor>(5 :: rat) / 10\<rfloor> < 1" by (simp_all add: bucket_def floor_less_iff)
  moreover have "bucket_bar ?md 5 15 = [\<lparr>bar_start = 5, bar_color = disabledColor, bar_height = anomalyScale (Fin 0)\<rparr>]"
    by (simp add: bucket_bar_def PROBATION_LENGTH_def upt_rec)
  ultimately show ?thesis using b f by auto
qed

end
