(* ===== verification/Flux.thy ===== *)
theory Flux
  imports JS_Value
begin

text \<open>
  The vocabulary of the browser's stores (\<open>fluxible\<close>): a handler changes its store and either
  emits a change, stays quiet, or throws. What a handler changed before it threw stays changed.
\<close>

datatype outcome = Changed | Quiet | Raised jserr

type_synonym 's handled = "outcome \<times> 's"

text \<open>The string property under which the stores keep an object.\<close>

definition str_prop :: "jsobj \<Rightarrow> string \<Rightarrow> string" where
  "str_prop ob k = as_string (obj_get ob k)"

text \<open>\<open>xs.forEach(f)\<close> with a body that may throw: the rest is skipped.\<close>

fun for_each :: "('a \<Rightarrow> 's \<Rightarrow> 's handled) \<Rightarrow> 'a list \<Rightarrow> 's \<Rightarrow> 's handled" where
  "for_each body [] s = (Quiet, s)"
| "for_each body (x # xs) s = (case body x s of
       (Raised e, s1) \<Rightarrow> (Raised e, s1)
     | (_, s1) \<Rightarrow> for_each body xs s1)"

text \<open>\<open>...; this.emitChange();\<close>\<close>

definition then_change :: "'s handled \<Rightarrow> 's handled" where
  "then_change r = (case r of (Raised e, s) \<Rightarrow> (Raised e, s) | (_, s) \<Rightarrow> (Changed, s))"

lemma then_change_simps [simp]:
  "then_change (Quiet, s) = (Changed, s)" "then_change (Raised e, s) = (Raised e, s)"
  by (simp_all add: then_change_def)

lemma snd_then_change [simp]: "snd (then_change r) = snd r"
  by (simp add: then_change_def split: prod.split outcome.split)

lemma for_each_induct:
  assumes "I s" and "\<And>x t. x \<in> set xs \<Longrightarrow> I t \<Longrightarrow> I (snd (body x t))"
  shows "I (snd (for_each body xs s))"
  using assms
proof (induction xs arbitrary: s)
  case Nil
  then show ?case by simp
next
  case (Cons x xs)
  have "I (snd (body x s))" using Cons.prems by simp
  then show ?case
    using Cons.IH [of "snd (body x s)"] Cons.prems(2)
    by (cases "body x s"; cases "fst (body x s)") auto
qed

lemma for_each_quiet:
  assumes "\<And>x t. x \<in> set xs \<Longrightarrow> body x t = (Quiet, f x t)"
  shows "for_each body xs s = (Quiet, fold f xs s)"
  using assms by (induction xs arbitrary: s) auto

lemma str_prop_set [simp]: "str_prop (om_set k v ob) k' = (if k' = k then as_string v else str_prop ob k')"
  by (simp add: str_prop_def)

lemma str_prop_assign: "om_ok b \<Longrightarrow> str_prop (assign a b) k = (if om_has b k then str_prop b k else str_prop a k)"
  by (simp add: str_prop_def obj_get_assign)

section \<open>Records of a schema\<close>

text \<open>\<open>INSTANCE\<close> and \<open>VALIDATOR.validate(record, schema).errors\<close>.\<close>

record record_env =
  re_instance :: jsobj
  re_validate :: "jsobj \<Rightarrow> string list"

text \<open>\<open>Object.assign({}, INSTANCE, ob)\<close>\<close>

definition new_record :: "record_env \<Rightarrow> jsobj \<Rightarrow> jsobj" where
  "new_record R ob = assign (assign [] (re_instance R)) ob"

section \<open>Keyed collections\<close>

text \<open>A store that keeps objects under one of their own properties.\<close>

definition keyed_by :: "string \<Rightarrow> (string, jsobj) omap \<Rightarrow> bool" where
  "keyed_by name m = (om_ok m \<and> (\<forall>(k, v)\<in>set m. str_prop v name = k))"

lemma keyed_by_Nil [simp]: "keyed_by name []"
  by (simp add: keyed_by_def)

lemma set_om_set: "set (om_set k v m) \<subseteq> insert (k, v) (set m)"
  by (induction m) auto

lemma set_om_delete: "set (om_delete k m) = {p \<in> set m. fst p \<noteq> k}"
  by (induction m) auto

lemma keyed_by_set [intro]: "keyed_by name m \<Longrightarrow> str_prop v name = k \<Longrightarrow> keyed_by name (om_set k v m)"
  using set_om_set [of k v m] by (auto simp: keyed_by_def)

lemma keyed_by_delete [intro]: "keyed_by name m \<Longrightarrow> keyed_by name (om_delete k m)"
  by (auto simp: keyed_by_def set_om_delete)

lemma keyed_by_get: "keyed_by name m \<Longrightarrow> om_get m k = Some v \<Longrightarrow> str_prop v name = k"
  by (auto simp: keyed_by_def dest: map_of_SomeD)

section \<open>The contract of a store\<close>

text \<open>
  Components read a store through \<open>view\<close> and render again when it emits a change, so a handler
  that stays quiet must leave the view as it was.
\<close>

definition reread :: "'s handled \<Rightarrow> 'v \<Rightarrow> 'v \<Rightarrow> 'v" where
  "reread r new old = (if fst r = Changed then new else old)"

locale flux_store =
  fixes handle :: "'a \<Rightarrow> 's \<Rightarrow> 's handled"
    and view :: "'s \<Rightarrow> 'v"
  assumes quiet: "fst (handle a s) = Quiet \<Longrightarrow> view (snd (handle a s)) = view s"
begin

lemma seen_current:
  assumes "\<forall>e. fst (handle a s) \<noteq> Raised e"
  shows "reread (handle a s) (view (snd (handle a s))) (view s) = view (snd (handle a s))"
  using assms quiet by (cases "fst (handle a s)") (auto simp: reread_def)

end

text \<open>What every handler keeps for payloads that are \<open>fine\<close>, also when it throws.\<close>

locale flux_invariant =
  fixes handle :: "'a \<Rightarrow> 's \<Rightarrow> 's handled"
    and fine :: "'a \<Rightarrow> bool"
    and inv :: "'s \<Rightarrow> bool"
  assumes keeps: "fine a \<Longrightarrow> inv s \<Longrightarrow> inv (snd (handle a s))"
begin

lemma keeps_run: "list_all fine as \<Longrightarrow> inv s \<Longrightarrow> inv (fold (\<lambda>a s. snd (handle a s)) as s)"
  by (induction as arbitrary: s) (auto intro: keeps)

end

end
