(* ===== verification/File_Store.thy ===== *)
theory File_Store
  imports Flux
begin

text \<open>
  The stores behind the file list and the file details page, \<open>app/browser/stores/FileStore.js\<close>
  and \<open>FileDetailsStore.js\<close>. The lemmas show which files are expanded after the list has been
  loaded, on every branch.
\<close>

section \<open>File store\<close>

text \<open>\<open>_files\<close>, by file name in the order of insertion.\<close>

type_synonym file_store = "(string, jsobj) omap"

definition new_file_store :: file_store where
  "new_file_store = []"

definition getFiles :: "file_store \<Rightarrow> jsobj list" where
  "getFiles s = om_values s"

definition store_getFile :: "string \<Rightarrow> file_store \<Rightarrow> jsobj option" where
  "store_getFile filename s = om_get s filename"

definition handleDeleteFile :: "string \<Rightarrow> file_store \<Rightarrow> file_store handled" where
  "handleDeleteFile filename s =
     (if om_has s filename then (Changed, om_delete filename s) else (Quiet, s))"

text \<open>\<open>Object.assign({expanded: flag}, file)\<close>\<close>

definition with_expanded :: "bool \<Rightarrow> jsobj \<Rightarrow> jsobj" where
  "with_expanded flag fl = assign [(''expanded'', JBool flag)] fl"

definition is_uploaded :: "jsobj \<Rightarrow> bool" where
  "is_uploaded fl = (obj_get fl ''type'' = JStr ''uploaded'')"

text \<open>\<open>this._files.get(filename).expanded = expanded\<close>: an absent file throws.\<close>

definition set_expanded :: "string \<Rightarrow> jsval \<Rightarrow> file_store \<Rightarrow> file_store handled" where
  "set_expanded filename expanded s = (case om_get s filename of
       None \<Rightarrow> (Raised TypeError, s)
     | Some fl \<Rightarrow> (Changed, om_set filename (om_set ''expanded'' expanded fl) s))"

text \<open>\<open>None\<close> is a payload that is not there.\<close>

definition handleListFiles :: "jsobj list option \<Rightarrow> file_store \<Rightarrow> file_store handled" where
  "handleListFiles files s = (case files of
       None \<Rightarrow> (Quiet, s)
     | Some fs \<Rightarrow>
         (let s1 = fold (\<lambda>fl. om_set (str_prop fl ''filename'') (with_expanded False fl)) fs s;
              haveUploadedFiles = list_ex is_uploaded fs
          in if \<not> haveUploadedFiles then
               (case getFiles s1 of
                  [] \<Rightarrow> (Raised TypeError, s1)
                | fl # _ \<Rightarrow> set_expanded (str_prop fl ''filename'') (JBool True) s1)
             else (Changed, s1)))"

definition handleSetFile :: "jsobj \<Rightarrow> file_store \<Rightarrow> file_store handled" where
  "handleSetFile fl s = (Changed, om_set (str_prop fl ''filename'') (assign [] fl) s)"

definition handleSetFileExpandedState :: "string \<Rightarrow> bool \<Rightarrow> file_store \<Rightarrow> file_store handled" where
  "handleSetFileExpandedState filename expanded s = set_expanded filename (JBool expanded) s"

definition handleUploadedFile :: "jsobj \<Rightarrow> file_store \<Rightarrow> file_store handled" where
  "handleUploadedFile fl s = (Changed, om_set (str_prop fl ''filename'') (with_expanded True fl) s)"

section \<open>File details store\<close>

text \<open>The properties of the store; values it only passes on are kept as they come.\<close>

record details_store =
  ds_file :: jsval
  ds_fields :: "jsobj list option"
  ds_error :: jsval
  ds_warning :: jsval
  ds_visible :: bool
  ds_newFile :: bool

definition new_details_store :: details_store where
  "new_details_store = \<lparr>ds_file = JNull, ds_fields = None, ds_error = JNull, ds_warning = JNull,
     ds_visible = False, ds_newFile = False\<rparr>"

text \<open>\<open>a.index - b.index\<close>: the index of a field is a number of the file service.\<close>

definition field_index :: "jsobj \<Rightarrow> rat" where
  "field_index f = (case as_num (obj_get f ''index'') of Fin q \<Rightarrow> q | _ \<Rightarrow> 0)"

text \<open>\<open>sort\<close> sorts the array of the store in place.\<close>

definition details_getFields :: "details_store \<Rightarrow> jsobj list option \<times> details_store" where
  "details_getFields s = (case ds_fields s of
       None \<Rightarrow> (None, s)
     | Some fs \<Rightarrow> (let fs' = sort_key field_index fs in (Some fs', s\<lparr>ds_fields := Some fs'\<rparr>)))"

definition isVisible :: "details_store \<Rightarrow> bool" where
  "isVisible s = (ds_file s \<noteq> JNull \<and> ds_visible s)"

definition isNewFile :: "details_store \<Rightarrow> bool" where
  "isNewFile s = (ds_file s \<noteq> JNull \<and> ds_newFile s)"

text \<open>The payload \<open>{file, fields, error, warning}\<close>.\<close>

record details =
  dt_file :: jsval
  dt_fields :: "jsobj list option"
  dt_error :: jsval
  dt_warning :: jsval

definition showFileDetails :: "details \<Rightarrow> details_store \<Rightarrow> details_store handled" where
  "showFileDetails results s =
     (Changed, s\<lparr>ds_file := dt_file results, ds_fields := dt_fields results, ds_error := dt_error results,
        ds_warning := dt_warning results, ds_visible := True, ds_newFile := False\<rparr>)"

definition hideFileDetails :: "details_store \<Rightarrow> details_store handled" where
  "hideFileDetails s =
     (Changed, s\<lparr>ds_visible := False, ds_newFile := False, ds_file := JNull, ds_fields := None,
        ds_error := JNull, ds_warning := JNull\<rparr>)"

definition handleFileValidate :: "details \<Rightarrow> details_store \<Rightarrow> details_store handled" where
  "handleFileValidate results s =
     (Changed, s\<lparr>ds_visible := True, ds_newFile := True, ds_error := dt_error results,
        ds_warning := dt_warning results, ds_file := dt_file results, ds_fields := dt_fields results\<rparr>)"

section \<open>Lemmas\<close>

lemma filename_with_expanded [simp]:
  "om_ok fl \<Longrightarrow> str_prop (with_expanded b fl) ''filename'' = str_prop fl ''filename''"
  by (auto simp: with_expanded_def str_prop_assign) (simp add: str_prop_def om_has_def obj_get_def)

lemma expanded_with_expanded:
  "om_ok fl \<Longrightarrow> \<not> om_has fl ''expanded'' \<Longrightarrow> obj_get (with_expanded b fl) ''expanded'' = JBool b"
  by (simp add: with_expanded_def obj_get_assign) (simp add: obj_get_def)

text \<open>Loading files with different names into an empty store appends them in their order.\<close>

lemma fold_set_files:
  assumes "distinct (map name fs)" and "\<forall>fl\<in>set fs. \<not> om_has s (name fl)"
  shows "fold (\<lambda>fl. om_set (name fl) (mk fl)) fs s = s @ map (\<lambda>fl. (name fl, mk fl)) fs"
  using assms
proof (induction fs arbitrary: s)
  case Nil
  then show ?case by simp
next
  case (Cons fl fs)
  then have "om_set (name fl) (mk fl) s = s @ [(name fl, mk fl)]" by (intro om_set_absent) simp
  moreover have "\<forall>g\<in>set fs. \<not> om_has (s @ [(name fl, mk fl)]) (name g)"
    using Cons.prems by (auto simp: om_has_iff_key) (metis imageI)
  ultimately show ?case using Cons by simp
qed

definition listed :: "jsobj list \<Rightarrow> bool" where
  "listed fs = (distinct (map (\<lambda>fl. str_prop fl ''filename'') fs) \<and> (\<forall>fl\<in>set fs. om_ok fl \<and> \<not> om_has fl ''expanded''))"

definition expanded_flags :: "file_store \<Rightarrow> jsval list" where
  "expanded_flags s = map (\<lambda>fl. obj_get fl ''expanded'') (getFiles s)"

lemma loaded_files:
  assumes "listed fs"
  shows "fold (\<lambda>fl. om_set (str_prop fl ''filename'') (with_expanded False fl)) fs new_file_store
    = map (\<lambda>fl. (str_prop fl ''filename'', with_expanded False fl)) fs"
  using assms fold_set_files [of "\<lambda>fl. str_prop fl ''filename''" fs "[]" "with_expanded False"]
  by (simp add: listed_def new_file_store_def om_has_def)

text \<open>loading the file list on start-up (\<open>FileStore._handleListFiles\<close>): the files keep the
  order of the list; without an uploaded file exactly the first one is expanded, with one none
  is; an empty list makes the handler throw a \<open>TypeError\<close>.\<close>

theorem listFiles_expands:
  assumes "listed fs"
  shows "\<exists>r s. handleListFiles (Some fs) new_file_store = (r, s)
    \<and> om_keys s = map (\<lambda>fl. str_prop fl ''filename'') fs
    \<and> (if fs = [] then r = Raised TypeError
       else r = Changed \<and> expanded_flags s =
         map JBool (if list_ex is_uploaded fs then replicate (length fs) False
                    else True # replicate (length fs - 1) False))"
proof -
  have flags: "map (\<lambda>fl. obj_get (with_expanded False fl) ''expanded'') gs = replicate (length gs) (JBool False)"
    if "set gs \<subseteq> set fs" for gs
    using assms that by (induction gs) (auto simp: listed_def expanded_with_expanded)
  show ?thesis
  proof (cases fs)
    case Nil
    then show ?thesis using loaded_files [OF assms]
      by (simp add: handleListFiles_def getFiles_def new_file_store_def)
  next
    case (Cons fl gs)
    have ok: "om_ok fl" using assms Cons by (simp add: listed_def)
    have "str_prop fl ''filename'' \<notin> (\<lambda>fl. str_prop fl ''filename'') ` set gs" 
      using assms Cons by (auto simp: listed_def)
    then show ?thesis
      using loaded_files [OF assms] flags [of gs] flags [of fs] Cons ok
      by (auto simp: handleListFiles_def getFiles_def set_expanded_def expanded_flags_def comp_def)
  qed
qed

theorem listFiles_expands_witness:
  "\<exists>r s. handleListFiles (Some [[(''filename'', JStr ''a'')], [(''filename'', JStr ''b''), (''type'', JStr ''sample'')]])
      new_file_store = (r, s) \<and> om_keys s = [''a'', ''b''] \<and> r = Changed \<and> expanded_flags s = [JBool True, JBool False]"
  using listFiles_expands [of "[[(''filename'', JStr ''a'')], [(''filename'', JStr ''b''), (''type'', JStr ''sample'')]]"]
  by (simp add: listed_def om_ok_def str_prop_def obj_get_def om_has_def is_uploaded_def)

end
