(* ===== verification/Metric_Store.thy ===== *)
theory Metric_Store
  imports Flux
begin

text \<open>
  The metrics and their raw data in the browser, \<open>app/browser/stores/MetricStore.js\<close> and
  \<open>MetricDataStore.js\<close>. The schema validator and the default record made from the schema are
  parameters. The lemmas show that the store holds validated records by their id and what the
  chart and model handlers may change of them, that \<open>DELETE_FILE\<close> removes no metric, and that
  loading data replaces what was there.
\<close>

section \<open>Metric store\<close>

type_synonym metric_store = "(string, jsobj) omap"

definition getMetrics :: "metric_store \<Rightarrow> metric_store" where
  "getMetrics s = s"

definition get_metric :: "string \<Rightarrow> metric_store \<Rightarrow> jsobj option" where
  "get_metric metricId s = om_get s metricId"

definition getMetricsByFileId :: "string \<Rightarrow> metric_store \<Rightarrow> jsobj list" where
  "getMetricsByFileId fileId s = filter (\<lambda>v. obj_get v ''file_uid'' = JStr fileId) (om_values s)"

definition getMetricsByFileName :: "string \<Rightarrow> metric_store \<Rightarrow> jsobj list" where
  "getMetricsByFileName filename s = filter (\<lambda>v. obj_get v ''filename'' = JStr filename) (om_values s)"

definition metrics_handleDeleteFile :: "string \<Rightarrow> metric_store \<Rightarrow> metric_store handled" where
  "metrics_handleDeleteFile filename s =
     (Changed, fold (\<lambda>(key, v) m. if obj_get v ''filename'' = JStr filename then om_delete key m else m) s s)"

definition list_metric :: "record_env \<Rightarrow> jsobj \<Rightarrow> metric_store \<Rightarrow> metric_store handled" where
  "list_metric R metric s =
     (let record = new_record R metric
      in if re_validate R record \<noteq> []
         then (Raised (ErrorMsg ''New Metric did not validate against schema''), s)
         else (Quiet, om_set (str_prop metric ''uid'') record s))"

definition handleListMetrics :: "record_env \<Rightarrow> jsobj list option \<Rightarrow> metric_store \<Rightarrow> metric_store handled" where
  "handleListMetrics R metrics s = (case metrics of
       None \<Rightarrow> (Quiet, s)
     | Some ms \<Rightarrow> then_change (for_each (list_metric R) ms s))"

text \<open>The payload \<open>{aggOpts, inputOpts, metricId, modelOpts}\<close> of a model start.\<close>

record model_start =
  st_metricId :: string
  st_aggOpts :: jsobj
  st_inputOpts :: jsobj
  st_modelOpts :: jsobj

definition handleUpdateMetric :: "model_start \<Rightarrow> metric_store \<Rightarrow> metric_store handled" where
  "handleUpdateMetric payload s = (case om_get s (st_metricId payload) of
       None \<Rightarrow> (Quiet, s)
     | Some metric \<Rightarrow>
         (Changed, om_set (st_metricId payload)
            (om_set ''model_options'' (JObj (st_modelOpts payload))
              (om_set ''input_options'' (JObj (st_inputOpts payload))
                (om_set ''aggregation_options'' (JObj (st_aggOpts payload)) metric))) s))"

definition handleUpdateViewpoint :: "string \<Rightarrow> jsval \<Rightarrow> metric_store \<Rightarrow> metric_store handled" where
  "handleUpdateViewpoint metricId dateWindow s = (case om_get s metricId of
       None \<Rightarrow> (Quiet, s)
     | Some metric \<Rightarrow> (Quiet, om_set metricId (om_set ''dateWindow'' dateWindow metric) s))"

section \<open>Metric data store\<close>

text \<open>The loaded rows per metric. The map is keyed by any value, as the handler of a load looks
  up a property of the payload that the actions never set.\<close>

type_synonym metric_data_store = "(jsval, jsval list) omap"

text \<open>The payload \<open>{metricId, data}\<close>; \<open>data\<close> is kept beside the properties.\<close>

definition handLoadData :: "jsobj option \<Rightarrow> jsval list \<Rightarrow> metric_data_store \<Rightarrow> metric_data_store handled" where
  "handLoadData payload data s = (case payload of
       None \<Rightarrow> (Quiet, s)
     | Some p \<Rightarrow>
         if om_has p ''metricId'' then
           (case om_get s (obj_get p ''_metrics'') of
              Some metric \<Rightarrow> (Changed, om_set (obj_get p ''_metrics'') (metric @ data) s)
            | None \<Rightarrow> (Changed, om_set (obj_get p ''metricId'') data s))
         else (Quiet, s))"

definition handleUnloadData :: "string \<Rightarrow> metric_data_store \<Rightarrow> metric_data_store handled" where
  "handleUnloadData metricId s = (Changed, om_delete (JStr metricId) s)"

definition metricData_handleHideModel :: "string \<Rightarrow> metric_data_store \<Rightarrow> metric_data_store handled" where
  "metricData_handleHideModel metricId s = handleUnloadData metricId s"

definition row_time :: "jsval \<Rightarrow> jsval" where
  "row_time row = (case as_arr row of [] \<Rightarrow> JUndef | t # _ \<Rightarrow> t)"

text \<open>\<open>{from, to}\<close> of the first and last row; \<open>None\<close> is \<open>null\<close>.\<close>

definition rows_range :: "jsval list \<Rightarrow> (jsval \<times> jsval) option" where
  "rows_range data = (if data \<noteq> [] then Some (row_time (hd data), row_time (last data)) else None)"

definition metricData_getTimeRange :: "string \<Rightarrow> metric_data_store \<Rightarrow> (jsval \<times> jsval) option" where
  "metricData_getTimeRange metricId s = (case om_get s (JStr metricId) of None \<Rightarrow> None | Some data \<Rightarrow> rows_range data)"

definition metricData_getData :: "string \<Rightarrow> metric_data_store \<Rightarrow> jsval list" where
  "metricData_getData metricId s = (case om_get s (JStr metricId) of None \<Rightarrow> [] | Some data \<Rightarrow> data)"

section \<open>Lemmas\<close>

text \<open>The handlers of the metric store as steps.\<close>

inductive metric_step :: "record_env \<Rightarrow> metric_store \<Rightarrow> metric_store \<Rightarrow> bool" for R where
  list: "metric_step R s (snd (handleListMetrics R ms s))"
| delete: "metric_step R s (snd (metrics_handleDeleteFile f s))"
| update: "metric_step R s (snd (handleUpdateMetric p s))"
| viewpoint: "metric_step R s (snd (handleUpdateViewpoint m w s))"

abbreviation metric_reach :: "record_env \<Rightarrow> metric_store \<Rightarrow> bool" where
  "metric_reach R \<equiv> (metric_step R)\<^sup>*\<^sup>* []"

text \<open>A schema without a property \<open>filename\<close> and without additional properties.\<close>

definition rejects_filename :: "record_env \<Rightarrow> bool" where
  "rejects_filename R = (\<forall>r. re_validate R r = [] \<longrightarrow> \<not> om_has r ''filename'')"

definition no_filename :: "metric_store \<Rightarrow> bool" where
  "no_filename s = (\<forall>v\<in>snd ` set s. \<not> om_has v ''filename'')"

lemma no_filename_set: "no_filename s \<Longrightarrow> \<not> om_has v ''filename'' \<Longrightarrow> no_filename (om_set k v s)"
  using set_om_set [of k v s] by (force simp: no_filename_def)

lemma no_filename_get: "no_filename s \<Longrightarrow> om_get s k = Some v \<Longrightarrow> \<not> om_has v ''filename''"
  by (force simp: no_filename_def dest: map_of_SomeD)

lemma fold_delete_subset: "set (fold (\<lambda>(k, v) m. if P v then om_delete k m else m) xs s) \<subseteq> set s"
proof (induction xs arbitrary: s)
  case Nil
  then show ?case by simp
next
  case (Cons p xs)
  have "set (om_delete (fst p) s) \<subseteq> set s" by (auto simp: set_om_delete)
  then show ?case using Cons.IH [of s] Cons.IH [of "om_delete (fst p) s"]
    by (auto simp: case_prod_beta)
qed

lemma metric_step_no_filename:
  assumes "metric_step R s s'" and "rejects_filename R" and "no_filename s"
  shows "no_filename s'"
  using assms
proof cases
  case (list ms)
  have "no_filename (snd (for_each (list_metric R) ms s))" for ms
    by (rule for_each_induct) (use assms(2,3) in \<open>auto simp: list_metric_def Let_def rejects_filename_def intro: no_filename_set\<close>)
  with list assms(3) show ?thesis by (simp add: handleListMetrics_def split: option.split)
next
  case (delete f)
  then show ?thesis using assms(3) fold_delete_subset [of "\<lambda>v. obj_get v ''filename'' = JStr f" s s]
    by (auto simp: metrics_handleDeleteFile_def no_filename_def)
next
  case (update p)
  then show ?thesis using assms(3)
    by (auto simp: handleUpdateMetric_def om_has_set intro!: no_filename_set dest: no_filename_get split: option.splits)
next
  case (viewpoint m w)
  then show ?thesis using assms(3)
    by (auto simp: handleUpdateViewpoint_def om_has_set intro!: no_filename_set dest: no_filename_get split: option.splits)
qed

lemma metric_reach_no_filename: "metric_reach R s \<Longrightarrow> rejects_filename R \<Longrightarrow> no_filename s"
  by (induction rule: rtranclp_induct) (auto simp: no_filename_def [of "[]"] intro: metric_step_no_filename)

lemma no_filename_obj_get: "no_filename s \<Longrightarrow> (k, v) \<in> set s \<Longrightarrow> obj_get v ''filename'' = JUndef"
  by (auto simp: no_filename_def om_has_def obj_get_def split: option.splits dest!: bspec)

lemma fold_delete_none: "(\<And>k v. (k, v) \<in> set xs \<Longrightarrow> \<not> P v) \<Longrightarrow>
    fold (\<lambda>(k, v) m. if P v then om_delete k m else m) xs s = s"
proof (induction xs arbitrary: s)
  case Nil
  then show ?case by simp
next
  case (Cons p xs)
  have "\<not> P (snd p)" using Cons.prems [of "fst p" "snd p"] by simp
  moreover have "fold (\<lambda>(k, v) m. if P v then om_delete k m else m) xs s = s"
    by (rule Cons.IH, rule Cons.prems [OF list.set_intros(2)])
  ultimately show ?case by (cases p) simp
qed

text \<open>\<open>MetricStore\<close> compares the property \<open>filename\<close>, which the metric schema does not allow: in
  every store the handlers can reach, \<open>DELETE_FILE\<close> removes no metric of the deleted file and
  \<open>getMetricsByFileName\<close> finds none.\<close>

theorem deleteFile_keeps_metrics:
  assumes "rejects_filename R" and "metric_reach R s"
  shows "metrics_handleDeleteFile filename s = (Changed, s) \<and> getMetricsByFileName filename s = []"
proof -
  have none: "obj_get v ''filename'' = JUndef" if "(k, v) \<in> set s" for k v
    using metric_reach_no_filename [OF assms(2,1)] that by (rule no_filename_obj_get)
  then have "metrics_handleDeleteFile filename s = (Changed, s)"
    unfolding metrics_handleDeleteFile_def by (subst fold_delete_none) auto
  moreover have "getMetricsByFileName filename s = []"
    using none by (force simp: getMetricsByFileName_def filter_empty_conv)
  ultimately show ?thesis ..
qed

definition strict_env :: record_env where
  "strict_env = \<lparr>re_instance = [], re_validate = (\<lambda>r. if om_has r ''filename'' then [''additional property''] else [])\<rparr>"

theorem deleteFile_keeps_metrics_witness:
  "metrics_handleDeleteFile ''a.csv'' [(''m'', [(''uid'', JStr ''m''), (''file_uid'', JStr ''f'')])]
     = (Changed, [(''m'', [(''uid'', JStr ''m''), (''file_uid'', JStr ''f'')])])"
proof -
  let ?m = "[(''uid'', JStr ''m''), (''file_uid'', JStr ''f'')]"
  have "snd (handleListMetrics strict_env (Some [?m]) []) = [(''m'', ?m)]"
    by (simp add: handleListMetrics_def list_metric_def new_record_def assign_def strict_env_def
        om_has_def str_prop_def obj_get_def)
  then have "metric_reach strict_env [(''m'', ?m)]"
    using metric_step.list [of strict_env "[]" "Some [?m]"] by (simp add: r_into_rtranclp)
  then show ?thesis
    using deleteFile_keeps_metrics [of strict_env "[(''m'', ?m)]" "''a.csv''"]
    by (simp add: rejects_filename_def strict_env_def)
qed

text \<open>\<open>MetricDataStore\<close>: for a payload of \<open>LoadMetricData\<close> (it has a \<open>metricId\<close> and no property
  \<open>_metrics\<close>) and string keys, loading never appends: the rows of the metric are the loaded
  ones, whatever was there, and every other metric keeps its rows; unloading or hiding removes
  them, and the time range is that of the first and last row.\<close>

theorem metric_data_replaced:
  assumes "\<not> om_has s JUndef"
  shows "\<exists>s'. handLoadData (Some [(''metricId'', JStr m), (''data'', JArr rows)]) rows s = (Changed, s')
     \<and> metricData_getData m s' = rows
     \<and> (\<forall>m'. m' \<noteq> m \<longrightarrow> metricData_getData m' s' = metricData_getData m' s)
     \<and> \<not> om_has s' JUndef
     \<and> metricData_getTimeRange m s' = (if rows = [] then None else Some (row_time (hd rows), row_time (last rows)))
     \<and> metricData_getData m (snd (metricData_handleHideModel m s')) = []"
proof -
  have "om_get s JUndef = None" using assms by (simp add: om_has_def)
  then have "handLoadData (Some [(''metricId'', JStr m), (''data'', JArr rows)]) rows s
    = (Changed, om_set (JStr m) rows s)"
    by (simp add: handLoadData_def om_has_def obj_get_def)
  then show ?thesis using assms
    by (auto simp: metricData_getData_def metricData_getTimeRange_def rows_range_def omap_simps
        metricData_handleHideModel_def handleUnloadData_def simp del: set_map)
qed

theorem metric_data_replaced_witness:
  "metricData_getData ''m'' (snd (handLoadData (Some [(''metricId'', JStr ''m''), (''data'', JArr [JNum (Fin 2)])])
      [JNum (Fin 2)] [(JStr ''m'', [JNum (Fin 1)])])) = [JNum (Fin 2)]"
  using metric_data_replaced [of "[(JStr ''m'', [JNum (Fin 1)])]" "''m''" "[JNum (Fin 2)]"]
  by (auto simp: om_has_def)

end
