(* ===== verification/Model_Store.thy ===== *)
theory Model_Store
  imports Flux "HOL-Library.Multiset"
begin

text \<open>
  The models in the browser, \<open>app/browser/stores/ModelStore.js\<close>. The stack of visible models
  holds references to the objects of the map, so the objects live in a store of their own and
  map and stack hold addresses. The lemmas show that the stack is exactly the visible models
  as long as no model is added twice, what goes wrong otherwise, and what the state of a model
  (active, error, ran) can be.
\<close>

section \<open>State\<close>

record model_store =
  ms_objs :: "jsobj list"
  ms_models :: "(string, nat) omap"
  ms_stack :: "nat list"

definition new_model_store :: model_store where
  "new_model_store = \<lparr>ms_objs = [], ms_models = [], ms_stack = []\<rparr>"

text \<open>Assigning properties of the object at an address.\<close>

definition upd :: "nat \<Rightarrow> (jsobj \<Rightarrow> jsobj) \<Rightarrow> model_store \<Rightarrow> model_store" where
  "upd a f s = s\<lparr>ms_objs := (ms_objs s)[a := f (ms_objs s ! a)]\<rparr>"

section \<open>Handlers\<close>

text \<open>The payload is a list of models or one model.\<close>

datatype models_arg = ModelList "jsobj list" | OneModel jsobj

definition add_model :: "record_env \<Rightarrow> jsobj \<Rightarrow> model_store \<Rightarrow> model_store handled" where
  "add_model R model s =
     (let record = new_record R model
      in if re_validate R record \<noteq> []
         then (Raised (ErrorMsg ''New Model did not validate against schema''), s)
         else (Quiet, s\<lparr>ms_objs := ms_objs s @ [record],
                        ms_models := om_set (str_prop model ''modelId'') (length (ms_objs s)) (ms_models s)\<rparr>))"

definition addModels :: "record_env \<Rightarrow> models_arg \<Rightarrow> model_store \<Rightarrow> model_store handled" where
  "addModels R models s =
     (let records = (case models of
            ModelList ms \<Rightarrow> ms
          | OneModel m \<Rightarrow> if om_has m ''modelId'' then [m] else [])
      in then_change (for_each (add_model R) records s))"

text \<open>\<open>splice(indexOf(model), 1)\<close> when the model is found.\<close>

definition unstack :: "nat \<Rightarrow> model_store \<Rightarrow> model_store" where
  "unstack a s = s\<lparr>ms_stack := remove1 a (ms_stack s)\<rparr>"

definition store_deleteModel :: "string \<Rightarrow> model_store \<Rightarrow> model_store handled" where
  "store_deleteModel modelId s =
     (let s = (case om_get (ms_models s) modelId of None \<Rightarrow> s | Some a \<Rightarrow> unstack a s)
      in (Changed, s\<lparr>ms_models := om_delete modelId (ms_models s)\<rparr>))"

definition hideModel :: "string \<Rightarrow> model_store \<Rightarrow> model_store handled" where
  "hideModel modelId s = (case om_get (ms_models s) modelId of
       None \<Rightarrow> (Quiet, s)
     | Some a \<Rightarrow> (Changed, unstack a (upd a (om_set ''visible'' (JBool False)) s)))"

definition showModel :: "string \<Rightarrow> model_store \<Rightarrow> model_store handled" where
  "showModel modelId s = (case om_get (ms_models s) modelId of
       None \<Rightarrow> (Quiet, s)
     | Some a \<Rightarrow>
         if \<not> truthy (obj_get (ms_objs s ! a) ''visible'') then
           (let s = upd a (om_set ''visible'' (JBool True)) s
            in (Changed, s\<lparr>ms_stack := a # ms_stack s\<rparr>))
         else (Quiet, s))"

definition startModel :: "string \<Rightarrow> jsval \<Rightarrow> model_store \<Rightarrow> model_store handled" where
  "startModel modelId aggregated s = (case om_get (ms_models s) modelId of
       None \<Rightarrow> (Quiet, s)
     | Some a \<Rightarrow> (Changed, upd a (om_set ''ran'' (JBool True) \<circ> om_set ''error'' JNull
                     \<circ> om_set ''aggregated'' aggregated \<circ> om_set ''active'' (JBool True)) s))"

definition stopModel :: "string \<Rightarrow> model_store \<Rightarrow> model_store handled" where
  "stopModel modelId s = (case om_get (ms_models s) modelId of
       None \<Rightarrow> (Quiet, s)
     | Some a \<Rightarrow> (Changed, upd a (om_set ''error'' JNull \<circ> om_set ''active'' (JBool False)) s))"

definition handleModelFailed :: "string \<Rightarrow> jsval \<Rightarrow> model_store \<Rightarrow> model_store handled" where
  "handleModelFailed modelId error s = (case om_get (ms_models s) modelId of
       None \<Rightarrow> (Quiet, s)
     | Some a \<Rightarrow> (Changed, upd a (om_set ''error'' error \<circ> om_set ''active'' (JBool False)) s))"

definition get_model :: "string \<Rightarrow> model_store \<Rightarrow> jsobj" where
  "get_model modelId s = (case om_get (ms_models s) modelId of None \<Rightarrow> [] | Some a \<Rightarrow> assign [] (ms_objs s ! a))"

definition get_models :: "model_store \<Rightarrow> jsobj list" where
  "get_models s = map ((!) (ms_objs s)) (om_values (ms_models s))"

definition getVisibleModelStack :: "model_store \<Rightarrow> jsobj list" where
  "getVisibleModelStack s = map ((!) (ms_objs s)) (ms_stack s)"

section \<open>Steps\<close>

text \<open>The events the store handles; adding one model stands for each element of a list.\<close>

datatype model_event =
    Add jsobj
  | Delete string
  | Hide string
  | Show string
  | Start string jsval
  | Stop string
  | Fail string jsval

fun model_handle :: "record_env \<Rightarrow> model_event \<Rightarrow> model_store \<Rightarrow> model_store handled" where
  "model_handle R (Add m) s = addModels R (ModelList [m]) s"
| "model_handle R (Delete i) s = store_deleteModel i s"
| "model_handle R (Hide i) s = hideModel i s"
| "model_handle R (Show i) s = showModel i s"
| "model_handle R (Start i g) s = startModel i g s"
| "model_handle R (Stop i) s = stopModel i s"
| "model_handle R (Fail i e) s = handleModelFailed i e s"

abbreviation model_run :: "record_env \<Rightarrow> model_event list \<Rightarrow> model_store \<Rightarrow> model_store" where
  "model_run R evs s \<equiv> fold (\<lambda>e s. snd (model_handle R e s)) evs s"

section \<open>The stack of visible models\<close>

definition is_visible :: "jsobj \<Rightarrow> bool" where
  "is_visible ob = truthy (obj_get ob ''visible'')"

text \<open>Addresses of the map are allocated and no two ids share one.\<close>

definition heap_ok :: "model_store \<Rightarrow> bool" where
  "heap_ok s = (om_ok (ms_models s) \<and> distinct (om_values (ms_models s))
     \<and> set (om_values (ms_models s)) \<union> set (ms_stack s) \<subseteq> {..<length (ms_objs s)})"

definition stack_ok :: "model_store \<Rightarrow> bool" where
  "stack_ok s = (heap_ok s \<and> distinct (ms_stack s)
     \<and> set (ms_stack s) = {a \<in> set (om_values (ms_models s)). is_visible (ms_objs s ! a)})"

lemma upd_simps [simp]:
  "ms_models (upd a f s) = ms_models s" "ms_stack (upd a f s) = ms_stack s"
  "length (ms_objs (upd a f s)) = length (ms_objs s)"
  "ms_models (unstack a s) = ms_models s" "ms_objs (unstack a s) = ms_objs s"
  "ms_stack (unstack a s) = remove1 a (ms_stack s)"
  by (simp_all add: upd_def unstack_def)

lemma upd_obj: "a < length (ms_objs s) \<Longrightarrow> ms_objs (upd a f s) ! b = (if b = a then f (ms_objs s ! a) else ms_objs s ! b)"
  by (auto simp: upd_def)

lemma get_value: "om_get m k = Some a \<Longrightarrow> a \<in> set (om_values m)"
  by (force dest: map_of_SomeD)

lemma heap_get: "heap_ok s \<Longrightarrow> om_get (ms_models s) k = Some a \<Longrightarrow> a < length (ms_objs s)"
  using get_value [of "ms_models s" k a] by (auto simp: heap_ok_def)

lemma value_get: "om_ok m \<Longrightarrow> a \<in> set (om_values m) \<Longrightarrow> \<exists>k. om_get m k = Some a"
  by (force simp: om_ok_def intro: map_of_is_SomeI)

lemma values_delete_value:
  assumes "om_ok m" and "distinct (om_values m)" and "om_get m k = Some a"
  shows "set (om_values (om_delete k m)) = set (om_values m) - {a} \<and> distinct (om_values (om_delete k m))"
  using assms
proof (induction m)
  case Nil
  then show ?case by simp
next
  case (Cons p m)
  obtain j b where p: "p = (j, b)" by (cases p)
  show ?case
  proof (cases "j = k")
    case True
    then have "om_delete k m = m" using Cons.prems(1) p by (intro om_delete_absent) (simp add: om_ok_def om_has_iff_key)
    with True p Cons.prems show ?thesis by (auto simp del: set_map) 
  next
    case False
    then have "om_get m k = Some a" using Cons.prems(3) p by simp
    then have "set (om_values (om_delete k m)) = set (om_values m) - {a} \<and> distinct (om_values (om_delete k m))"
      using Cons.prems p by (intro Cons.IH) (auto simp: om_ok_def)
    moreover have "b \<noteq> a" using Cons.prems(2) p get_value [OF \<open>om_get m k = Some a\<close>] by auto
    ultimately show ?thesis using False p Cons.prems(2) by (auto simp del: set_map)
  qed
qed

lemma heap_ok_new [simp]: "heap_ok new_model_store"
  by (simp add: heap_ok_def new_model_store_def)

lemma heap_ok_upd [simp]: "heap_ok (upd a f s) = heap_ok s"
  by (simp add: heap_ok_def)

lemma heap_ok_unstack [simp]: "heap_ok s \<Longrightarrow> heap_ok (unstack a s)"
  using set_remove1_subset [of a "ms_stack s"] by (auto simp: heap_ok_def)

text \<open>Updating a model without touching \<open>visible\<close> keeps the stack right.\<close>

lemma stack_ok_upd:
  assumes "stack_ok s" and "om_get (ms_models s) i = Some a" and "\<And>ob. is_visible (f ob) = is_visible ob"
  shows "stack_ok (upd a f s)"
proof -
  have "a < length (ms_objs s)" using assms heap_get by (simp add: stack_ok_def)
  then have "is_visible (ms_objs (upd a f s) ! b) = is_visible (ms_objs s ! b)" for b
    by (simp add: upd_obj assms(3))
  with assms(1) show ?thesis by (simp add: stack_ok_def)
qed

lemma stack_ok_show:
  assumes "stack_ok s" 
  shows "stack_ok (snd (showModel i s))"
proof (cases "om_get (ms_models s) i")
  case None
  then show ?thesis using assms by (simp add: showModel_def)
next
  case (Some a)
  have a: "a < length (ms_objs s)" "a \<in> set (om_values (ms_models s))"
    using assms Some heap_get get_value by (auto simp: stack_ok_def simp del: set_map)
  show ?thesis
  proof (cases "is_visible (ms_objs s ! a)")
    case True
    then show ?thesis using assms Some by (simp add: showModel_def is_visible_def)
  next
    case False
    let ?t = "upd a (om_set ''visible'' (JBool True)) s"
    have "is_visible (ms_objs ?t ! b) = (b = a \<or> is_visible (ms_objs s ! b))" for b
      using a(1) by (simp add: upd_obj is_visible_def)
    then show ?thesis using assms Some False a
      by (auto simp: stack_ok_def showModel_def is_visible_def heap_ok_def upd_def Let_def simp del: set_map)
  qed
qed

lemma stack_ok_hide:
  assumes "stack_ok s" 
  shows "stack_ok (snd (hideModel i s))"
proof (cases "om_get (ms_models s) i")
  case None
  then show ?thesis using assms by (simp add: hideModel_def)
next
  case (Some a)
  have a: "a < length (ms_objs s)" using assms Some heap_get by (simp add: stack_ok_def)
  let ?t = "upd a (om_set ''visible'' (JBool False)) s"
  have "is_visible (ms_objs ?t ! b) = (b \<noteq> a \<and> is_visible (ms_objs s ! b))" for b
    using a by (simp add: upd_obj is_visible_def)
  moreover have "heap_ok (unstack a ?t)" using assms by (simp add: stack_ok_def)
  ultimately show ?thesis using assms Some
    by (auto simp: stack_ok_def hideModel_def set_remove1_eq)
qed

lemma stack_ok_delete:
  assumes "stack_ok s" 
  shows "stack_ok (snd (store_deleteModel i s))"
proof (cases "om_get (ms_models s) i")
  case None
  then have "om_delete i (ms_models s) = ms_models s" by (simp add: om_delete_absent om_has_def)
  then show ?thesis using assms None by (simp add: store_deleteModel_def)
next
  case (Some a)
  have v: "set (om_values (om_delete i (ms_models s))) = set (om_values (ms_models s)) - {a}
    \<and> distinct (om_values (om_delete i (ms_models s)))"
    using assms Some by (intro values_delete_value) (auto simp: stack_ok_def heap_ok_def)
  then show ?thesis using assms Some
    by (auto simp: stack_ok_def heap_ok_def store_deleteModel_def set_remove1_eq simp del: set_map)
qed

lemma addModels_one: "addModels R (ModelList [m]) s = (case add_model R m s of
    (Raised e, t) \<Rightarrow> (Raised e, t) | (_, t) \<Rightarrow> (Changed, t))"
  by (simp add: addModels_def then_change_def split: prod.split outcome.split)

lemma stack_ok_add:
  assumes "stack_ok s" and "\<not> om_has (ms_models s) (str_prop m ''modelId'')" and "\<not> is_visible (new_record R m)"
  shows "stack_ok (snd (addModels R (ModelList [m]) s))"
proof -
  let ?n = "length (ms_objs s)"
  have "om_set (str_prop m ''modelId'') ?n (ms_models s) = ms_models s @ [(str_prop m ''modelId'', ?n)]"
    using assms(2) by (rule om_set_absent)
  moreover have "om_ok (om_set (str_prop m ''modelId'') ?n (ms_models s))"
    using assms(1) by (simp add: stack_ok_def heap_ok_def)
  moreover have "\<forall>a\<in>set (om_values (ms_models s)) \<union> set (ms_stack s). a < ?n"
    using assms(1) by (auto simp: stack_ok_def heap_ok_def)
  ultimately show ?thesis using assms(1,3)
    by (auto simp: addModels_one add_model_def Let_def stack_ok_def heap_ok_def nth_append less_Suc_eq
        simp del: set_map split: if_splits)
qed

text \<open>The events that do not add a known model, and add models as not visible.\<close>

fun fresh_event :: "record_env \<Rightarrow> model_event \<Rightarrow> model_store \<Rightarrow> bool" where
  "fresh_event R (Add m) s =
     (\<not> om_has (ms_models s) (str_prop m ''modelId'') \<and> \<not> is_visible (new_record R m))"
| "fresh_event R e s = True"

inductive shown_reach :: "record_env \<Rightarrow> model_store \<Rightarrow> bool" for R where
  init: "shown_reach R new_model_store"
| step: "shown_reach R s \<Longrightarrow> fresh_event R e s \<Longrightarrow> shown_reach R (snd (model_handle R e s))"

lemma stack_ok_event:
  assumes "stack_ok s" and "fresh_event R e s"
  shows "stack_ok (snd (model_handle R e s))"
proof (cases e)
  case (Add m)
  then show ?thesis using assms stack_ok_add by simp
next
  case (Start i g)
  then show ?thesis using assms(1)
    by (auto simp: startModel_def is_visible_def intro!: stack_ok_upd split: option.split)
next
  case (Stop i)
  then show ?thesis using assms(1)
    by (auto simp: stopModel_def is_visible_def intro!: stack_ok_upd split: option.split)
next
  case (Fail i err)
  then show ?thesis using assms(1)
    by (auto simp: handleModelFailed_def is_visible_def intro!: stack_ok_upd split: option.split)
qed (use assms stack_ok_show stack_ok_hide stack_ok_delete in simp_all)

lemma shown_reach_ok: "shown_reach R s \<Longrightarrow> stack_ok s"
  by (induction rule: shown_reach.induct) (auto intro: stack_ok_event, simp add: stack_ok_def new_model_store_def heap_ok_def)

lemma stack_mset:
  assumes "stack_ok s"
  shows "mset (getVisibleModelStack s) = mset (filter is_visible (get_models s))"
proof -
  let ?vs = "filter (\<lambda>a. is_visible (ms_objs s ! a)) (om_values (ms_models s))"
  have "mset (ms_stack s) = mset ?vs"
    using assms by (intro set_eq_iff_mset_eq_distinct [THEN iffD1]) (auto simp: stack_ok_def heap_ok_def simp del: set_map)
  then have "image_mset ((!) (ms_objs s)) (mset (ms_stack s)) = image_mset ((!) (ms_objs s)) (mset ?vs)" by simp
  then show ?thesis by (simp add: getVisibleModelStack_def get_models_def filter_map comp_def multiset.map_comp)
qed


definition open_env :: record_env where
  "open_env = \<lparr>re_instance = [(''visible'', JBool False), (''active'', JBool False)], re_validate = (\<lambda>r. [])\<rparr>"

abbreviation model_a :: jsobj where
  "model_a \<equiv> [(''modelId'', JStr ''a'')]"

lemma add_model_a:
  "snd (model_handle open_env (Add model_a) new_model_store) = \<lparr>ms_objs =
     [[(''visible'', JBool False), (''active'', JBool False), (''modelId'', JStr ''a'')]],
     ms_models = [(''a'', 0)], ms_stack = []\<rparr>"
  by (simp add: addModels_one add_model_def new_record_def assign_def open_env_def new_model_store_def
      str_prop_def obj_get_def)

lemma fresh_model_a: "fresh_event open_env (Add model_a) new_model_store"
  by (simp add: new_model_store_def om_has_def is_visible_def new_record_def assign_def open_env_def obj_get_def)


section \<open>Adding a known model\<close>

text \<open>An address that the stack holds and the map does not: no handler can remove it any more.\<close>

definition stale :: "nat \<Rightarrow> model_store \<Rightarrow> bool" where
  "stale a s = (a \<in> set (ms_stack s) \<and> a \<notin> set (om_values (ms_models s)) \<and> a < length (ms_objs s))"

lemma om_values_set: "set (om_values (om_set k v m)) \<subseteq> insert v (set (om_values m))"
  using set_om_set [of k v m] by force

lemma om_values_delete: "set (om_values (om_delete k m)) \<subseteq> set (om_values m)"
  by (auto simp: set_om_delete)

lemma stale_event:
  assumes "stale a s"
  shows "stale a (snd (model_handle R e s))"
proof -
  have other: "b \<noteq> a" if "om_get (ms_models s) i = Some b" for i b
    using assms get_value [OF that] by (auto simp: stale_def)
  have keep: "a \<in> set (remove1 b (ms_stack s))" if "om_get (ms_models s) i = Some b" for i b
    using assms other [OF that] by (simp add: stale_def in_set_remove1)
  show ?thesis
  proof (cases e)
    case (Add m)
    then show ?thesis using assms om_values_set [of "str_prop m ''modelId''" "length (ms_objs s)" "ms_models s"]
      by (auto simp: addModels_one add_model_def stale_def Let_def simp del: set_map split: if_splits)
  next
    case (Delete i)
    then show ?thesis using keep assms om_values_delete [of i "ms_models s"]
      by (auto simp: store_deleteModel_def stale_def simp del: set_map split: option.split)
  next
    case (Hide i)
    then show ?thesis using assms keep
      by (auto simp: hideModel_def stale_def simp del: set_map split: option.split)
  next
    case (Show i)
    then show ?thesis using assms
      by (auto simp: showModel_def stale_def Let_def upd_def simp del: set_map split: option.split)
  next
    case (Start i g)
    then show ?thesis using assms by (auto simp: startModel_def stale_def simp del: set_map split: option.split)
  next
    case (Stop i)
    then show ?thesis using assms by (auto simp: stopModel_def stale_def simp del: set_map split: option.split)
  next
    case (Fail i err)
    then show ?thesis using assms by (auto simp: handleModelFailed_def stale_def simp del: set_map split: option.split)
  qed
qed

lemma stale_run: "stale a s \<Longrightarrow> stale a (model_run R evs s)"
  by (induction evs arbitrary: s) (auto intro: stale_event)

lemma value_in: "(k, a) \<in> set m \<Longrightarrow> a \<in> set (om_values m)"
  by force

lemma values_set_value:
  "om_ok m \<Longrightarrow> distinct (om_values m) \<Longrightarrow> om_get m k = Some a \<Longrightarrow> v \<notin> set (om_values m) \<Longrightarrow> a \<notin> set (om_values (om_set k v m))"
proof (induction m)
  case (Cons p m)
  then show ?case
    by (cases p) (auto simp: om_ok_def simp del: set_map split: if_splits dest: value_in)
qed simp

text \<open>adding a model again while it is shown (two quick clicks run \<open>AddShowModel\<close> twice) leaves
  its old object on the stack of visible models, and no later sequence of events removes it:
  hiding or deleting the model works on the new object only.\<close>

theorem readded_model_stays_visible:
  assumes "shown_reach R s" and "om_get (ms_models s) (str_prop m ''modelId'') = Some a"
    and "is_visible (ms_objs s ! a)" and "re_validate R (new_record R m) = []"
  shows "a \<in> set (ms_stack (model_run R evs (snd (model_handle R (Add m) s))))"
proof -
  have ok: "heap_ok s" "a \<in> set (ms_stack s)"
    using shown_reach_ok [OF assms(1)] assms(2,3) get_value [OF assms(2)] by (auto simp: stack_ok_def simp del: set_map)
  then have "length (ms_objs s) \<notin> set (om_values (ms_models s))" by (auto simp: heap_ok_def)
  then have "stale a (snd (model_handle R (Add m) s))"
    using assms(2,4) ok values_set_value [of "ms_models s"] heap_get [OF ok(1) assms(2)]
    by (simp add: addModels_one add_model_def stale_def heap_ok_def del: set_map)
  then show ?thesis using stale_run [of a _ R evs] by (simp add: stale_def)
qed

theorem readded_model_stays_visible_witness:
  "ms_stack (model_run open_env [Hide ''a'', Delete ''a'']
     (snd (model_handle open_env (Add model_a)
       (snd (model_handle open_env (Show ''a'') (snd (model_handle open_env (Add model_a) new_model_store))))))) \<noteq> []"
proof -
  let ?s = "snd (model_handle open_env (Show ''a'') (snd (model_handle open_env (Add model_a) new_model_store)))"
  have "shown_reach open_env ?s"
    by (intro shown_reach.step [OF _ _, of _ _ "Show ''a''"] shown_reach.step [OF shown_reach.init fresh_model_a]) simp
  moreover have "?s = \<lparr>ms_objs = [[(''visible'', JBool True), (''active'', JBool False), (''modelId'', JStr ''a'')]],
     ms_models = [(''a'', 0)], ms_stack = [0]\<rparr>"
    unfolding add_model_a by (simp add: showModel_def obj_get_def upd_def)
  ultimately have "0 \<in> set (ms_stack (model_run open_env [Hide ''a'', Delete ''a''] (snd (model_handle open_env (Add model_a) ?s))))"
    by (intro readded_model_stays_visible) (simp_all add: str_prop_def obj_get_def is_visible_def open_env_def)
  then show ?thesis by auto
qed

section \<open>The state of a model\<close>

text \<open>A model that is active has run and has no error.\<close>

definition status_ok :: "jsobj \<Rightarrow> bool" where
  "status_ok ob = (truthy (obj_get ob ''active'') \<longrightarrow> obj_get ob ''error'' = JNull \<and> obj_get ob ''ran'' = JBool True)"

definition adds_stopped :: "record_env \<Rightarrow> model_event \<Rightarrow> bool" where
  "adds_stopped R e = (case e of Add m \<Rightarrow> \<not> truthy (obj_get (new_record R m) ''active'') | _ \<Rightarrow> True)"

definition all_status_ok :: "model_store \<Rightarrow> bool" where
  "all_status_ok s = list_all status_ok (ms_objs s)"

lemma all_status_ok_upd:
  assumes "all_status_ok s" and "\<And>ob. status_ok ob \<Longrightarrow> status_ok (f ob)"
  shows "all_status_ok (upd a f s)"
proof (cases "a < length (ms_objs s)")
  case True
  then have "status_ok (f (ms_objs s ! a))" using assms by (auto simp: all_status_ok_def list_all_length)
  then show ?thesis using assms(1) set_update_subset_insert [of "ms_objs s" a "f (ms_objs s ! a)"]
    by (auto simp: all_status_ok_def upd_def list_all_iff)
next
  case False
  then show ?thesis using assms(1) by (simp add: upd_def all_status_ok_def list_update_beyond)
qed

lemma all_status_ok_event:
  assumes "all_status_ok s" and "adds_stopped R e"
  shows "all_status_ok (snd (model_handle R e s))"
proof (cases e)
  case (Add m)
  then show ?thesis using assms
    by (auto simp: addModels_one add_model_def all_status_ok_def adds_stopped_def status_ok_def Let_def)
next
  case (Delete i)
  then show ?thesis using assms(1)
    by (auto simp: store_deleteModel_def all_status_ok_def split: option.split)
next
  case (Hide i)
  have "all_status_ok (unstack a (upd a (om_set ''visible'' (JBool False)) s))" for a
    using all_status_ok_upd [OF assms(1), of "om_set ''visible'' (JBool False)" a]
    by (simp add: all_status_ok_def status_ok_def)
  then show ?thesis using Hide assms(1) by (simp add: hideModel_def split: option.split)
next
  case (Show i)
  have "all_status_ok (upd a (om_set ''visible'' (JBool True)) s)" for a
    using all_status_ok_upd [OF assms(1), of "om_set ''visible'' (JBool True)" a]
    by (simp add: status_ok_def)
  then show ?thesis using Show assms(1)
    by (auto simp: showModel_def Let_def all_status_ok_def split: option.split)
qed (use assms(1) in \<open>auto simp: startModel_def stopModel_def handleModelFailed_def status_ok_def
      intro!: all_status_ok_upd split: option.split\<close>)

lemma all_status_ok_run:
  assumes "all_status_ok s" and "list_all (adds_stopped R) evs"
  shows "all_status_ok (model_run R evs s)"
  using assms
proof (induction evs arbitrary: s)
  case (Cons e evs)
  then show ?case using all_status_ok_event [of s R e] by simp
qed simp

definition addr_ok :: "model_store \<Rightarrow> bool" where
  "addr_ok s = (set (om_values (ms_models s)) \<subseteq> {..<length (ms_objs s)})"

lemma addr_ok_event: "addr_ok s \<Longrightarrow> addr_ok (snd (model_handle R e s))"
  using om_values_set [of _ "length (ms_objs s)" "ms_models s"] om_values_delete [of _ "ms_models s"]
  by (cases e) (fastforce simp: addModels_one add_model_def store_deleteModel_def hideModel_def showModel_def
      startModel_def stopModel_def handleModelFailed_def addr_ok_def Let_def less_Suc_eq
      simp del: set_map split: option.split if_splits)+

lemma addr_ok_run: "addr_ok s \<Longrightarrow> addr_ok (model_run R evs s)"
  by (induction evs arbitrary: s) (auto intro: addr_ok_event)

text \<open>\<open>ModelStore\<close>: when models are added as not active, then after any sequence of events every
  active model of the store has run and has no error; starting, stopping and failing set the
  state of the named model.\<close>

theorem model_state_consistent:
  assumes "list_all (adds_stopped R) evs" and "s = model_run R evs new_model_store"
  shows "(\<forall>ob\<in>set (get_models s). truthy (obj_get ob ''active'') \<longrightarrow>
            obj_get ob ''error'' = JNull \<and> obj_get ob ''ran'' = JBool True)
    \<and> (\<forall>i a. om_get (ms_models s) i = Some a \<longrightarrow>
         (\<forall>g. let ob = ms_objs (snd (startModel i g s)) ! a in obj_get ob ''active'' = JBool True
              \<and> obj_get ob ''aggregated'' = g \<and> obj_get ob ''error'' = JNull \<and> obj_get ob ''ran'' = JBool True)
       \<and> (let ob = ms_objs (snd (stopModel i s)) ! a in obj_get ob ''active'' = JBool False \<and> obj_get ob ''error'' = JNull)
       \<and> (\<forall>err. let ob = ms_objs (snd (handleModelFailed i err s)) ! a in
              obj_get ob ''active'' = JBool False \<and> obj_get ob ''error'' = err))"
proof -
  have st: "all_status_ok s"
    using all_status_ok_run [OF _ assms(1), of new_model_store] assms(2)
    by (simp add: all_status_ok_def new_model_store_def)
  have ad: "addr_ok s"
    using addr_ok_run [of new_model_store R evs] assms(2) by (simp add: addr_ok_def new_model_store_def)
  have lt: "a < length (ms_objs s)" if "a \<in> set (om_values (ms_models s))" for a
    using ad that by (auto simp: addr_ok_def simp del: set_map)
  have "\<forall>ob\<in>set (get_models s). status_ok ob"
    using st lt by (auto simp: get_models_def all_status_ok_def list_all_length)
  moreover have "a < length (ms_objs s)" if "om_get (ms_models s) i = Some a" for i a
    using get_value [OF that] by (rule lt)
  ultimately show ?thesis
    by (auto simp: status_ok_def startModel_def stopModel_def handleModelFailed_def upd_obj Let_def simp del: set_map)
qed

theorem model_state_consistent_witness:
  "obj_get (ms_objs (snd (startModel ''a'' (JBool True) (model_run open_env [Add model_a] new_model_store))) ! 0) ''ran''
     = JBool True"
  using model_state_consistent [of open_env "[Add model_a]", OF _ refl] add_model_a
  by (auto simp: adds_stopped_def new_record_def assign_def open_env_def obj_get_def Let_def)

end
