(* ===== verification/Model_Data_Store.thy ===== *)
theory Model_Data_Store
  imports Flux "HOL-Library.Sublist"
begin

text \<open>
  The results of the shown models in the browser, \<open>app/browser/stores/ModelDataStore.js\<close>: rows are
  loaded once and then fetched when the main process announces new ones, at most every 400 ms
  per model, by queries whose answers arrive later and write into the object they were started
  for. The second half puts the store into its surroundings (database, timers, answers and
  load actions under way) and shows for every interleaving that the rows of a model are always
  a prefix of the database's and that no announced row is lost.
\<close>

section \<open>State\<close>

definition TIME_BUFFER :: int where
  "TIME_BUFFER = 400"

text \<open>An entry \<open>{modelId, data, modified, lastFetchTime, fetchTimeoutId}\<close>; times are in milliseconds.\<close>

record 'r mdata =
  md_modelId :: string
  md_data :: "'r list"
  md_modified :: int
  md_lastFetchTime :: int
  md_fetchTimeoutId :: "nat option"

text \<open>A call of \<open>databaseClient.getModelData\<close> whose callback has not run yet, with what it closes over.\<close>

record query =
  q_model :: string
  q_addr :: nat
  q_offset :: nat

text \<open>Entries are objects: the map holds their addresses, as callbacks keep an entry that the map
  has dropped. \<open>dd_pending\<close> is \<open>_pendingModels\<close> with \<open>shouldFetch\<close>; \<open>dd_timers\<close> the timeouts that are set.\<close>

record 'r data_store =
  dd_objs :: "'r mdata list"
  dd_models :: "(string, nat) omap"
  dd_pending :: "(string, bool) omap"
  dd_timers :: "(nat \<times> string) list"
  dd_nextTimer :: nat
  dd_queries :: "query list"

definition new_data_store :: "'r data_store" where
  "new_data_store = \<lparr>dd_objs = [], dd_models = [], dd_pending = [], dd_timers = [], dd_nextTimer = 1, dd_queries = []\<rparr>"

definition put_obj :: "nat \<Rightarrow> ('r mdata \<Rightarrow> 'r mdata) \<Rightarrow> 'r data_store \<Rightarrow> 'r data_store" where
  "put_obj a f s = s\<lparr>dd_objs := (dd_objs s)[a := f (dd_objs s ! a)]\<rparr>"

section \<open>Operations\<close>

definition handlePrepareForResults :: "string \<Rightarrow> 'r data_store \<Rightarrow> 'r data_store handled" where
  "handlePrepareForResults modelId s = (Quiet, s\<lparr>dd_pending := om_set modelId False (dd_pending s)\<rparr>)"

definition fetchNewResults :: "int \<Rightarrow> string \<Rightarrow> 'r data_store \<Rightarrow> 'r data_store" where
  "fetchNewResults now modelId s = (case om_get (dd_models s) modelId of
       None \<Rightarrow> s
     | Some a \<Rightarrow>
         (let s = put_obj a (\<lambda>model. model\<lparr>md_fetchTimeoutId := None, md_lastFetchTime := now\<rparr>) s;
              offset = length (md_data (dd_objs s ! a))
          in s\<lparr>dd_queries := dd_queries s @ [\<lparr>q_model = modelId, q_addr = a, q_offset = offset\<rparr>]\<rparr>))"

text \<open>\<open>setTimeout(fetch, delay)\<close> when the last fetch was less than \<open>TIME_BUFFER\<close> ago.\<close>

definition fetchNewResultsSoon :: "int \<Rightarrow> string \<Rightarrow> 'r data_store \<Rightarrow> 'r data_store" where
  "fetchNewResultsSoon now modelId s = (case om_get (dd_models s) modelId of
       None \<Rightarrow> s
     | Some a \<Rightarrow>
         if md_fetchTimeoutId (dd_objs s ! a) = None then
           (let delay = TIME_BUFFER - (now - md_lastFetchTime (dd_objs s ! a))
            in if 0 < delay then
                 (put_obj a (\<lambda>model. model\<lparr>md_fetchTimeoutId := Some (dd_nextTimer s)\<rparr>) s)
                   \<lparr>dd_timers := dd_timers s @ [(dd_nextTimer s, modelId)], dd_nextTimer := dd_nextTimer s + 1\<rparr>
               else fetchNewResults now modelId s)
         else s)"

definition handleNewModelResults :: "int \<Rightarrow> string \<Rightarrow> 'r data_store \<Rightarrow> 'r data_store handled" where
  "handleNewModelResults now modelId s =
     (Quiet, if om_has (dd_models s) modelId then fetchNewResultsSoon now modelId s
             else if om_has (dd_pending s) modelId then s\<lparr>dd_pending := om_set modelId True (dd_pending s)\<rparr>
             else s)"

definition handleLoadModelData :: "int \<Rightarrow> string \<Rightarrow> 'r list \<Rightarrow> 'r data_store \<Rightarrow> 'r data_store handled" where
  "handleLoadModelData now modelId data s =
     (Changed, case om_get (dd_pending s) modelId of
         Some shouldFetch \<Rightarrow>
           (let model = \<lparr>md_modelId = modelId, md_data = data, md_modified = now, md_lastFetchTime = 0,
                         md_fetchTimeoutId = None\<rparr>;
                s = s\<lparr>dd_pending := om_delete modelId (dd_pending s),
                      dd_objs := dd_objs s @ [model],
                      dd_models := om_set modelId (length (dd_objs s)) (dd_models s)\<rparr>
            in if shouldFetch then fetchNewResultsSoon now modelId s else s)
       | None \<Rightarrow>
           if om_has (dd_models s) modelId then fetchNewResultsSoon now modelId s else s)"

text \<open>\<open>data.splice(offset, records.length, ...records)\<close>\<close>

definition splice :: "nat \<Rightarrow> 'r list \<Rightarrow> 'r list \<Rightarrow> 'r list" where
  "splice offset records data = take offset data @ records @ drop (offset + length records) data"

text \<open>The callback of a query; an error is thrown again.\<close>

definition query_callback :: "int \<Rightarrow> query \<Rightarrow> jserr + 'r list \<Rightarrow> 'r data_store \<Rightarrow> 'r data_store handled" where
  "query_callback now q result s = (case result of
       Inl e \<Rightarrow> (Raised (ErrorMsg ''getModelData failed''), s)
     | Inr records \<Rightarrow>
         (Changed, put_obj (q_addr q) (\<lambda>model. model\<lparr>md_data := splice (q_offset q) records (md_data model),
                                                   md_modified := now\<rparr>) s))"

text \<open>A timeout that is due is taken off the list and calls \<open>_fetchNewResults\<close>.\<close>

definition timer_fires :: "int \<Rightarrow> nat \<times> string \<Rightarrow> 'r data_store \<Rightarrow> 'r data_store" where
  "timer_fires now t s = fetchNewResults now (snd t) (s\<lparr>dd_timers := remove1 t (dd_timers s)\<rparr>)"

definition modelData_handleHideModel :: "string \<Rightarrow> 'r data_store \<Rightarrow> 'r data_store handled" where
  "modelData_handleHideModel modelId s = (Changed, s\<lparr>dd_models := om_delete modelId (dd_models s)\<rparr>)"

definition modelData_handleDeleteModel :: "string \<Rightarrow> 'r data_store \<Rightarrow> 'r data_store handled" where
  "modelData_handleDeleteModel modelId s = (Changed, s\<lparr>dd_models := om_delete modelId (dd_models s)\<rparr>)"

definition clear_timer :: "nat \<Rightarrow> 'r data_store \<Rightarrow> 'r data_store" where
  "clear_timer a s = (case md_fetchTimeoutId (dd_objs s ! a) of
       None \<Rightarrow> s
     | Some t \<Rightarrow> (put_obj a (\<lambda>model. model\<lparr>md_fetchTimeoutId := None\<rparr>) s)
                   \<lparr>dd_timers := filter (\<lambda>p. fst p \<noteq> t) (dd_timers s)\<rparr>)"

definition handleStopApplication :: "'r data_store \<Rightarrow> 'r data_store handled" where
  "handleStopApplication s = (Quiet, fold clear_timer (om_values (dd_models s)) s)"

definition modelData_getTimeRange :: "('r \<Rightarrow> 't) \<Rightarrow> string \<Rightarrow> 'r data_store \<Rightarrow> ('t \<times> 't) option" where
  "modelData_getTimeRange time modelId s = (case om_get (dd_models s) modelId of
       None \<Rightarrow> None
     | Some a \<Rightarrow> (let data = md_data (dd_objs s ! a)
                 in if data \<noteq> [] then Some (time (hd data), time (last data)) else None))"

text \<open>\<open>getData\<close>: rows and time of the last change, empty and 0 for a model that is not there.\<close>

definition modelData_getData :: "string \<Rightarrow> 'r data_store \<Rightarrow> 'r list \<times> int" where
  "modelData_getData modelId s = (case om_get (dd_models s) modelId of
       None \<Rightarrow> ([], 0)
     | Some a \<Rightarrow> (md_data (dd_objs s ! a), md_modified (dd_objs s ! a)))"

section \<open>The store in its surroundings\<close>

text \<open>
  \<open>sy_rows\<close> is the database; \<open>sy_seen\<close> counts the rows a model had when they were last announced.
  \<open>sy_answers\<close> are executed queries whose callback has not run; \<open>sy_loads\<close> are \<open>LoadModelData\<close>
  actions, with their data once the database has answered.
\<close>

record 'r system =
  sy_store :: "'r data_store"
  sy_rows :: "string \<Rightarrow> 'r list"
  sy_seen :: "string \<Rightarrow> nat"
  sy_answers :: "(query \<times> 'r list) list"
  sy_loads :: "(string \<times> 'r list option) list"

definition new_system :: "'r system" where
  "new_system = \<lparr>sy_store = new_data_store, sy_rows = (\<lambda>m. []), sy_seen = (\<lambda>m. 0), sy_answers = [], sy_loads = []\<rparr>"

text \<open>
  All interleavings, at any time \<open>now\<close>. With \<open>careful\<close>, \<open>ShowModel\<close> is only run for a model whose
  results are not loaded.
\<close>

inductive data_step :: "bool \<Rightarrow> 'r system \<Rightarrow> 'r system \<Rightarrow> bool" for careful where
  save: "data_step careful s (s\<lparr>sy_rows := (sy_rows s)(m := sy_rows s m @ [r])\<rparr>)"
| notify: "data_step careful s (s\<lparr>sy_store := snd (handleNewModelResults now m (sy_store s)),
      sy_seen := (sy_seen s)(m := length (sy_rows s m))\<rparr>)"
| show_model: "(careful \<Longrightarrow> \<not> om_has (dd_models (sy_store s)) m) \<Longrightarrow>
    data_step careful s (s\<lparr>sy_store := snd (handlePrepareForResults m (sy_store s)),
      sy_loads := sy_loads s @ [(m, None)]\<rparr>)"
| read_rows: "sy_loads s = xs @ (m, None) # ys \<Longrightarrow>
    data_step careful s (s\<lparr>sy_loads := xs @ (m, Some (sy_rows s m)) # ys\<rparr>)"
| load_data: "sy_loads s = xs @ (m, Some d) # ys \<Longrightarrow>
    data_step careful s (s\<lparr>sy_store := snd (handleLoadModelData now m d (sy_store s)), sy_loads := xs @ ys\<rparr>)"
| execute: "dd_queries (sy_store s) = xs @ q # ys \<Longrightarrow>
    data_step careful s (s\<lparr>sy_store := (sy_store s)\<lparr>dd_queries := xs @ ys\<rparr>,
      sy_answers := sy_answers s @ [(q, drop (q_offset q) (sy_rows s (q_model q)))]\<rparr>)"
| answer: "sy_answers s = xs @ (q, r) # ys \<Longrightarrow>
    data_step careful s (s\<lparr>sy_store := snd (query_callback now q (Inr r) (sy_store s)), sy_answers := xs @ ys\<rparr>)"
| timer: "t \<in> set (dd_timers (sy_store s)) \<Longrightarrow>
    data_step careful s (s\<lparr>sy_store := timer_fires now t (sy_store s)\<rparr>)"
| hide: "data_step careful s (s\<lparr>sy_store := snd (modelData_handleHideModel m (sy_store s))\<rparr>)"

abbreviation data_reach :: "bool \<Rightarrow> 'r system \<Rightarrow> bool" where
  "data_reach careful \<equiv> (data_step careful)\<^sup>*\<^sup>* new_system"

text \<open>Nothing is under way.\<close>

definition settled :: "'r system \<Rightarrow> bool" where
  "settled s = (dd_timers (sy_store s) = [] \<and> dd_queries (sy_store s) = [] \<and> sy_answers s = [] \<and> sy_loads s = [])"

section \<open>Every entry is a prefix of the database\<close>

lemma put_obj_simps [simp]:
  "dd_models (put_obj a f s) = dd_models s" "dd_pending (put_obj a f s) = dd_pending s"
  "dd_timers (put_obj a f s) = dd_timers s" "dd_nextTimer (put_obj a f s) = dd_nextTimer s"
  "dd_queries (put_obj a f s) = dd_queries s" "length (dd_objs (put_obj a f s)) = length (dd_objs s)"
  by (simp_all add: put_obj_def)

lemma put_obj_nth: "a < length (dd_objs s) \<Longrightarrow>
    dd_objs (put_obj a f s) ! b = (if b = a then f (dd_objs s ! a) else dd_objs s ! b)"
  by (auto simp: put_obj_def)

definition query_ok :: "'r data_store \<Rightarrow> query \<Rightarrow> bool" where
  "query_ok s q = (q_addr q < length (dd_objs s) \<and> md_modelId (dd_objs s ! q_addr q) = q_model q
     \<and> q_offset q \<le> length (md_data (dd_objs s ! q_addr q)))"

definition store_ok :: "(string \<Rightarrow> 'r list) \<Rightarrow> 'r data_store \<Rightarrow> bool" where
  "store_ok rows s = (om_ok (dd_models s)
     \<and> (\<forall>m a. om_get (dd_models s) m = Some a \<longrightarrow> a < length (dd_objs s) \<and> md_modelId (dd_objs s ! a) = m)
     \<and> (\<forall>a<length (dd_objs s). prefix (md_data (dd_objs s ! a)) (rows (md_modelId (dd_objs s ! a))))
     \<and> (\<forall>q\<in>set (dd_queries s). query_ok s q))"

definition answer_ok :: "(string \<Rightarrow> 'r list) \<Rightarrow> query \<Rightarrow> 'r list \<Rightarrow> bool" where
  "answer_ok rows q r = prefix (take (q_offset q) (rows (q_model q)) @ r) (rows (q_model q))"

definition system_ok :: "'r system \<Rightarrow> bool" where
  "system_ok s = (store_ok (sy_rows s) (sy_store s)
     \<and> (\<forall>(q, r)\<in>set (sy_answers s). query_ok (sy_store s) q \<and> answer_ok (sy_rows s) q r)
     \<and> (\<forall>m d. (m, Some d) \<in> set (sy_loads s) \<longrightarrow> prefix d (sy_rows s m))
     \<and> (\<forall>m. sy_seen s m \<le> length (sy_rows s m)))"

lemma splice_prefix:
  assumes "prefix d rows" and "off \<le> length d" and "prefix (take off rows @ r) rows"
  shows "prefix (splice off r d) rows \<and> length (splice off r d) = max (length d) (off + length r)"
proof -
  obtain e where e: "rows = d @ e" using assms(1) by (auto simp: prefix_def)
  obtain f where f: "rows = take off d @ r @ f" using assms(2,3) e by (auto simp: prefix_def)
  then have r: "drop off d @ e = r @ f" using e by (metis append_assoc append_take_drop_id same_append_eq)
  show ?thesis
  proof (cases "off + length r \<le> length d")
    case True
    then have "r = take (length r) (drop off d)" using r by (metis (no_types) append_eq_conv_conj assms(2) diff_add_inverse diff_le_mono length_drop take_all_iff take_append append_Nil2 diff_is_0_eq take_0)
    then have "splice off r d = d"
      by (metis append_assoc append_take_drop_id drop_drop splice_def add.commute)
    then show ?thesis using True assms(1) by simp
  next
    case False
    then have "splice off r d = take off d @ r" by (simp add: splice_def)
    then show ?thesis using False f assms(2) by (auto simp: prefix_def)
  qed
qed

text \<open>Operations that keep models and rows of all entries.\<close>

lemma query_ok_put:
  assumes "query_ok s q" and "a < length (dd_objs s)"
    and "\<And>ob. md_modelId (f ob) = md_modelId ob" and "length (md_data (dd_objs s ! a)) \<le> length (md_data (f (dd_objs s ! a)))"
  shows "query_ok (put_obj a f s) q"
  using assms by (auto simp: query_ok_def put_obj_nth)

lemma store_ok_put:
  assumes "store_ok rows s" and "a < length (dd_objs s)"
    and "\<And>ob. md_modelId (f ob) = md_modelId ob"
    and "length (md_data (dd_objs s ! a)) \<le> length (md_data (f (dd_objs s ! a)))"
    and "prefix (md_data (f (dd_objs s ! a))) (rows (md_modelId (dd_objs s ! a)))"
  shows "store_ok rows (put_obj a f s)"
  using assms by (auto simp: store_ok_def put_obj_nth query_ok_put)

lemma store_ok_get: "store_ok rows s \<Longrightarrow> om_get (dd_models s) m = Some a \<Longrightarrow>
    a < length (dd_objs s) \<and> md_modelId (dd_objs s ! a) = m \<and> prefix (md_data (dd_objs s ! a)) (rows m)"
  by (auto simp: store_ok_def)

lemma query_ok_queries [simp]:
  "query_ok (s\<lparr>dd_queries := qs\<rparr>) q = query_ok s q" "query_ok (s\<lparr>dd_timers := ts\<rparr>) q = query_ok s q"
  "query_ok (s\<lparr>dd_timers := ts, dd_nextTimer := n\<rparr>) q = query_ok s q"
  "query_ok (s\<lparr>dd_models := ms\<rparr>) q = query_ok s q" "query_ok (s\<lparr>dd_pending := ps\<rparr>) q = query_ok s q"
  by (simp_all add: query_ok_def)

lemma store_ok_timers [simp]:
  "store_ok rows (s\<lparr>dd_timers := ts\<rparr>) = store_ok rows s"
  "store_ok rows (s\<lparr>dd_timers := ts, dd_nextTimer := n\<rparr>) = store_ok rows s"
  "store_ok rows (s\<lparr>dd_pending := ps\<rparr>) = store_ok rows s"
  by (simp_all add: store_ok_def)

lemma fetchNewResults_ok:
  assumes "store_ok rows s"
  shows "store_ok rows (fetchNewResults now m s) \<and> (query_ok s q \<longrightarrow> query_ok (fetchNewResults now m s) q)"
proof (cases "om_get (dd_models s) m")
  case None
  then show ?thesis using assms by (simp add: fetchNewResults_def)
next
  case (Some a)
  let ?t = "put_obj a (\<lambda>model. model\<lparr>md_fetchTimeoutId := None, md_lastFetchTime := now\<rparr>) s"
  have a: "a < length (dd_objs s)" "md_modelId (dd_objs s ! a) = m" "prefix (md_data (dd_objs s ! a)) (rows m)"
    using store_ok_get [OF assms Some] by auto
  then have "store_ok rows ?t" using assms by (intro store_ok_put) auto
  moreover have "query_ok ?t \<lparr>q_model = m, q_addr = a, q_offset = length (md_data (dd_objs ?t ! a))\<rparr>"
    using a by (simp add: query_ok_def put_obj_nth)
  moreover have "query_ok s q \<longrightarrow> query_ok ?t q" using a by (auto intro: query_ok_put)
  ultimately show ?thesis using Some by (auto simp: fetchNewResults_def Let_def store_ok_def)
qed

lemma fetchNewResultsSoon_ok:
  assumes "store_ok rows s"
  shows "store_ok rows (fetchNewResultsSoon now m s) \<and> (query_ok s q \<longrightarrow> query_ok (fetchNewResultsSoon now m s) q)"
proof (cases "om_get (dd_models s) m")
  case None
  then show ?thesis using assms by (simp add: fetchNewResultsSoon_def)
next
  case (Some a)
  let ?t = "put_obj a (\<lambda>model. model\<lparr>md_fetchTimeoutId := Some (dd_nextTimer s)\<rparr>) s"
  have a: "a < length (dd_objs s)" "md_modelId (dd_objs s ! a) = m" "prefix (md_data (dd_objs s ! a)) (rows m)"
    using store_ok_get [OF assms Some] by auto
  then have "store_ok rows ?t" using assms by (intro store_ok_put) auto
  moreover have "query_ok s q \<longrightarrow> query_ok ?t q" using a by (auto intro: query_ok_put)
  ultimately show ?thesis using Some assms fetchNewResults_ok [OF assms, of now m q]
    by (simp add: fetchNewResultsSoon_def Let_def)
qed

lemma handleLoadModelData_ok:
  assumes "store_ok rows s" and "prefix d (rows m)"
  shows "store_ok rows (snd (handleLoadModelData now m d s))
    \<and> (query_ok s q \<longrightarrow> query_ok (snd (handleLoadModelData now m d s)) q)"
proof (cases "om_get (dd_pending s) m")
  case None
  then show ?thesis using assms(1) fetchNewResultsSoon_ok [OF assms(1), of now m q]
    by (simp add: handleLoadModelData_def)
next
  case (Some b)
  let ?t = "s\<lparr>dd_pending := om_delete m (dd_pending s),
      dd_objs := dd_objs s @ [\<lparr>md_modelId = m, md_data = d, md_modified = now, md_lastFetchTime = 0, md_fetchTimeoutId = None\<rparr>],
      dd_models := om_set m (length (dd_objs s)) (dd_models s)\<rparr>"
  have "store_ok rows ?t" using assms
    by (auto simp: store_ok_def query_ok_def nth_append omap_simps less_Suc_eq simp del: set_map)
  moreover have "query_ok s q \<longrightarrow> query_ok ?t q" by (auto simp: query_ok_def nth_append)
  ultimately show ?thesis using Some fetchNewResultsSoon_ok [of rows ?t now m q]
    by (simp add: handleLoadModelData_def Let_def)
qed

lemma store_ok_rows: "store_ok rows s \<Longrightarrow> (\<And>m. prefix (rows m) (rows' m)) \<Longrightarrow> store_ok rows' s"
  by (auto simp: store_ok_def intro: prefix_order.trans)

lemma answer_ok_rows:
  assumes "answer_ok rows q r" and "\<And>m. prefix (rows m) (rows' m)" and "q_offset q \<le> length (rows (q_model q))"
  shows "answer_ok rows' q r"
proof -
  obtain e where "rows' (q_model q) = rows (q_model q) @ e" using assms(2) by (auto simp: prefix_def)
  moreover obtain z where "rows (q_model q) = (take (q_offset q) (rows (q_model q)) @ r) @ z"
    using assms(1) by (auto simp: answer_ok_def elim: prefixE)
  ultimately have "rows' (q_model q) = (take (q_offset q) (rows' (q_model q)) @ r) @ z @ e"
    using assms(3) by simp
  then show ?thesis unfolding answer_ok_def by (rule prefixI)
qed

lemma query_ok_offset: "store_ok rows s \<Longrightarrow> query_ok s q \<Longrightarrow> q_offset q \<le> length (rows (q_model q))"
  unfolding store_ok_def query_ok_def by (metis le_trans prefix_length_le)

lemma query_callback_ok:
  assumes "store_ok rows s" and "query_ok s q" and "answer_ok rows q r"
  shows "store_ok rows (snd (query_callback now q (Inr r) s))
    \<and> (query_ok s q' \<longrightarrow> query_ok (snd (query_callback now q (Inr r) s)) q')
    \<and> length (md_data (dd_objs (snd (query_callback now q (Inr r) s)) ! q_addr q))
       = max (length (md_data (dd_objs s ! q_addr q))) (q_offset q + length r)"
proof -
  let ?a = "q_addr q" and ?f = "\<lambda>model. model\<lparr>md_data := splice (q_offset q) r (md_data model), md_modified := now\<rparr>"
  have a: "?a < length (dd_objs s)" using assms(2) by (simp add: query_ok_def)
  have "prefix (md_data (dd_objs s ! ?a)) (rows (q_model q))" "md_modelId (dd_objs s ! ?a) = q_model q"
    using assms(1,2) by (auto simp: store_ok_def query_ok_def)
  then have s: "prefix (splice (q_offset q) r (md_data (dd_objs s ! ?a))) (rows (q_model q))
     \<and> length (splice (q_offset q) r (md_data (dd_objs s ! ?a))) = max (length (md_data (dd_objs s ! ?a))) (q_offset q + length r)"
    using assms(2,3) by (intro splice_prefix) (auto simp: query_ok_def answer_ok_def)
  then have "store_ok rows (put_obj ?a ?f s)"
    using assms(1,2) a by (intro store_ok_put) (auto simp: query_ok_def)
  moreover have "query_ok s q' \<longrightarrow> query_ok (put_obj ?a ?f s) q'"
    using a s by (auto intro!: query_ok_put)
  ultimately show ?thesis using s a by (simp add: query_callback_def put_obj_nth)
qed

lemma handleNewModelResults_ok:
  assumes "store_ok rows s"
  shows "store_ok rows (snd (handleNewModelResults now m s))
    \<and> (query_ok s q \<longrightarrow> query_ok (snd (handleNewModelResults now m s)) q)"
  using assms fetchNewResultsSoon_ok [OF assms, of now m q] by (simp add: handleNewModelResults_def)

lemma system_ok_step:
  assumes "data_step c s s'" and "system_ok s"
  shows "system_ok s'"
  using assms
proof cases
  case (save m r)
  have ext: "prefix (sy_rows s i) (((sy_rows s)(m := sy_rows s m @ [r])) i)" for i by simp
  have "store_ok (sy_rows s) (sy_store s)" using assms(2) by (simp add: system_ok_def)
  then have "store_ok ((sy_rows s)(m := sy_rows s m @ [r])) (sy_store s)"
    "\<And>q a. query_ok (sy_store s) q \<Longrightarrow> answer_ok (sy_rows s) q a \<Longrightarrow> answer_ok ((sy_rows s)(m := sy_rows s m @ [r])) q a"
    using ext by (auto intro: store_ok_rows answer_ok_rows query_ok_offset)
  then show ?thesis using save assms(2) by (auto simp: system_ok_def le_SucI)
next
  case (notify m now)
  then show ?thesis using assms(2) handleNewModelResults_ok [of "sy_rows s" "sy_store s" now m]
    by (auto simp: system_ok_def)
next
  case (show_model m)
  then show ?thesis using assms(2) by (auto simp: system_ok_def handlePrepareForResults_def)
next
  case (read_rows xs m ys)
  then show ?thesis using assms(2) by (auto simp: system_ok_def)
next
  case (load_data xs m d ys now)
  then have "prefix d (sy_rows s m)" using assms(2) by (auto simp: system_ok_def)
  then show ?thesis using load_data assms(2) handleLoadModelData_ok [of "sy_rows s" "sy_store s" d m now]
    by (auto simp: system_ok_def)
next
  case (execute xs q ys)
  have q: "query_ok (sy_store s) q" using execute assms(2) by (auto simp: system_ok_def store_ok_def)
  have "answer_ok (sy_rows s) q (drop (q_offset q) (sy_rows s (q_model q)))" by (simp add: answer_ok_def)
  then show ?thesis using execute assms(2) q by (auto simp: system_ok_def store_ok_def)
next
  case (answer xs q r ys now)
  then have "query_ok (sy_store s) q" "answer_ok (sy_rows s) q r" using assms(2) by (auto simp: system_ok_def)
  then show ?thesis using answer assms(2) query_callback_ok [of "sy_rows s" "sy_store s" q r now]
    by (auto simp: system_ok_def)
next
  case (timer t now)
  then show ?thesis using assms(2) fetchNewResults_ok [of "sy_rows s" "(sy_store s)\<lparr>dd_timers := remove1 t (dd_timers (sy_store s))\<rparr>" now "snd t"]
    by (auto simp: system_ok_def timer_fires_def)
next
  case (hide m)
  then show ?thesis using assms(2)
    by (auto simp: system_ok_def modelData_handleHideModel_def store_ok_def omap_simps simp del: set_map)
qed

lemma system_ok_new: "system_ok new_system"
  by (simp add: system_ok_def new_system_def new_data_store_def store_ok_def)

lemma system_ok_reach: "data_reach c s \<Longrightarrow> system_ok s"
  by (induction rule: rtranclp_induct) (rule system_ok_new, rule system_ok_step)

text \<open>C5: \<open>ModelDataStore\<close>: in every interleaving of saving, announcing, loading, fetching, answering (in
  any order), hiding and showing, the rows of a model in the store are a prefix of the rows of
  the database: nothing is missing in between, doubled or out of order.\<close>

theorem model_rows_prefix:
  assumes "data_reach c s"
  shows "prefix (fst (modelData_getData m (sy_store s))) (sy_rows s m)"
proof (cases "om_get (dd_models (sy_store s)) m")
  case None
  then show ?thesis by (simp add: modelData_getData_def)
next
  case (Some a)
  have "store_ok (sy_rows s) (sy_store s)" using system_ok_reach [OF assms] by (simp add: system_ok_def)
  then show ?thesis using store_ok_get [of "sy_rows s" "sy_store s" m a] Some by (simp add: modelData_getData_def)
qed

section \<open>No announced row is lost\<close>

text \<open>A load under way that will bring the announced rows.\<close>

definition load_covers :: "'r system \<Rightarrow> string \<Rightarrow> bool" where
  "load_covers s m = (\<exists>r. (m, r) \<in> set (sy_loads s) \<and> (\<forall>d. r = Some d \<longrightarrow> sy_seen s m \<le> length d))"

text \<open>A timeout or a query under way for the entry at an address.\<close>

definition fetch_coming :: "'r data_store \<Rightarrow> nat \<Rightarrow> bool" where
  "fetch_coming s a = (md_fetchTimeoutId (dd_objs s ! a) \<noteq> None \<or> (\<exists>q\<in>set (dd_queries s). q_addr q = a))"

definition answer_covers :: "'r system \<Rightarrow> string \<Rightarrow> nat \<Rightarrow> bool" where
  "answer_covers s m a = (\<exists>(q, r)\<in>set (sy_answers s). q_addr q = a \<and> sy_seen s m \<le> q_offset q + length r)"

definition covered :: "'r system \<Rightarrow> string \<Rightarrow> nat \<Rightarrow> bool" where
  "covered s m a = (sy_seen s m \<le> length (md_data (dd_objs (sy_store s) ! a))
     \<or> fetch_coming (sy_store s) a \<or> answer_covers s m a \<or> load_covers s m)"

definition timers_ok :: "'r data_store \<Rightarrow> bool" where
  "timers_ok s = (\<forall>m a t. om_get (dd_models s) m = Some a \<longrightarrow> md_fetchTimeoutId (dd_objs s ! a) = Some t \<longrightarrow> (t, m) \<in> set (dd_timers s))"

definition live_ok :: "'r system \<Rightarrow> bool" where
  "live_ok s = (timers_ok (sy_store s)
     \<and> (\<forall>m. om_has (dd_pending (sy_store s)) m \<longrightarrow> \<not> om_has (dd_models (sy_store s)) m)
     \<and> (\<forall>m a. om_get (dd_models (sy_store s)) m = Some a \<longrightarrow> covered s m a)
     \<and> (\<forall>m. om_get (dd_pending (sy_store s)) m = Some False \<longrightarrow> load_covers s m))"

lemma covers_simps [simp]:
  "answer_covers (s\<lparr>sy_store := t\<rparr>) = answer_covers s" "answer_covers (s\<lparr>sy_loads := ls\<rparr>) = answer_covers s"
  "answer_covers (s\<lparr>sy_rows := rs\<rparr>) = answer_covers s" "load_covers (s\<lparr>sy_rows := rs\<rparr>) = load_covers s"
  "load_covers (s\<lparr>sy_store := t\<rparr>) = load_covers s" "load_covers (s\<lparr>sy_answers := xs\<rparr>) = load_covers s"
  "answer_covers (s\<lparr>sy_store := t, sy_loads := ls\<rparr>) = answer_covers s"
  by (simp_all add: fun_eq_iff answer_covers_def load_covers_def)

lemma covers_seen [simp]:
  "i \<noteq> m \<Longrightarrow> answer_covers (s\<lparr>sy_store := t, sy_seen := (sy_seen s)(m := n)\<rparr>) i = answer_covers s i"
  "i \<noteq> m \<Longrightarrow> load_covers (s\<lparr>sy_store := t, sy_seen := (sy_seen s)(m := n)\<rparr>) i = load_covers s i"
  "i \<noteq> m \<Longrightarrow> answer_covers (s\<lparr>sy_seen := (sy_seen s)(m := n)\<rparr>) i = answer_covers s i"
  "i \<noteq> m \<Longrightarrow> load_covers (s\<lparr>sy_seen := (sy_seen s)(m := n)\<rparr>) i = load_covers s i"
  by (simp_all add: fun_eq_iff answer_covers_def load_covers_def)

lemma fetch_coming_pending [simp]: "fetch_coming (s\<lparr>dd_pending := ps\<rparr>) = fetch_coming s"
  "timers_ok (s\<lparr>dd_pending := ps\<rparr>) = timers_ok s" "fetch_coming (s\<lparr>dd_timers := ts\<rparr>) = fetch_coming s"
  by (simp_all add: fetch_coming_def timers_ok_def fun_eq_iff)

text \<open>What the fetch operations leave as it was.\<close>

definition keeps :: "'r data_store \<Rightarrow> 'r data_store \<Rightarrow> bool" where
  "keeps s t = (dd_models t = dd_models s \<and> dd_pending t = dd_pending s
     \<and> (\<forall>b<length (dd_objs s). md_data (dd_objs t ! b) = md_data (dd_objs s ! b) \<and> (fetch_coming s b \<longrightarrow> fetch_coming t b)))"

lemma fetchNewResults_coming:
  assumes "store_ok rows s" and "om_get (dd_models s) m = Some a"
    and "\<forall>i b t. i \<noteq> m \<longrightarrow> om_get (dd_models s) i = Some b \<longrightarrow> md_fetchTimeoutId (dd_objs s ! b) = Some t \<longrightarrow> (t, i) \<in> set (dd_timers s)"
  shows "keeps s (fetchNewResults now m s) \<and> fetch_coming (fetchNewResults now m s) a \<and> timers_ok (fetchNewResults now m s)"
proof -
  have a: "a < length (dd_objs s)" "md_modelId (dd_objs s ! a) = m" using store_ok_get [OF assms(1,2)] by auto
  have other: "b \<noteq> a" if "i \<noteq> m" "om_get (dd_models s) i = Some b" for i b
    using store_ok_get [OF assms(1) that(2)] that(1) a(2) by auto
  let ?t = "fetchNewResults now m s"
  have "(t, i) \<in> set (dd_timers ?t)"
    if i: "om_get (dd_models ?t) i = Some b" and t: "md_fetchTimeoutId (dd_objs ?t ! b) = Some t" for i b t
  proof (cases "i = m")
    case True
    then show ?thesis using i t assms(2) a(1) by (simp add: fetchNewResults_def Let_def put_obj_nth)
  next
    case False
    then show ?thesis using i t assms(2,3) a(1) other [of i b]
      by (simp add: fetchNewResults_def Let_def put_obj_nth)
  qed
  then have "timers_ok ?t" by (simp add: timers_ok_def)
  moreover have "keeps s ?t \<and> fetch_coming ?t a"
    using assms(2) a by (auto simp: fetchNewResults_def Let_def keeps_def fetch_coming_def put_obj_nth)
  ultimately show ?thesis by simp
qed

lemma fetchNewResultsSoon_coming:
  assumes "store_ok rows s" and "om_get (dd_models s) m = Some a" and "timers_ok s"
  shows "keeps s (fetchNewResultsSoon now m s) \<and> fetch_coming (fetchNewResultsSoon now m s) a
    \<and> timers_ok (fetchNewResultsSoon now m s)"
proof -
  have a: "a < length (dd_objs s)" "md_modelId (dd_objs s ! a) = m" using store_ok_get [OF assms(1,2)] by auto
  have other: "b \<noteq> a" if "i \<noteq> m" "om_get (dd_models s) i = Some b" for i b
    using store_ok_get [OF assms(1) that(2)] that(1) a(2) by auto
  show ?thesis
  proof (cases "md_fetchTimeoutId (dd_objs s ! a) = None \<and> 0 < TIME_BUFFER - (now - md_lastFetchTime (dd_objs s ! a))")
    case True
    let ?t = "(put_obj a (\<lambda>model. model\<lparr>md_fetchTimeoutId := Some (dd_nextTimer s)\<rparr>) s)
        \<lparr>dd_timers := dd_timers s @ [(dd_nextTimer s, m)], dd_nextTimer := dd_nextTimer s + 1\<rparr>"
    have "fetchNewResultsSoon now m s = ?t" using True assms(2) by (simp add: fetchNewResultsSoon_def Let_def)
    moreover have "keeps s ?t \<and> fetch_coming ?t a" using a by (auto simp: keeps_def fetch_coming_def put_obj_nth)
    moreover have "timers_ok ?t" unfolding timers_ok_def
    proof (intro allI impI)
      fix i b t
      assume i: "om_get (dd_models ?t) i = Some b" and t: "md_fetchTimeoutId (dd_objs ?t ! b) = Some t"
      show "(t, i) \<in> set (dd_timers ?t)"
      proof (cases "i = m")
        case True
        then show ?thesis using i t assms(2) a by (simp add: put_obj_nth)
      next
        case False
        then show ?thesis using i t other [of i b] assms(3) a by (simp add: put_obj_nth timers_ok_def)
      qed
    qed
    ultimately show ?thesis by simp
  next
    case False
    then consider "md_fetchTimeoutId (dd_objs s ! a) \<noteq> None"
      | "md_fetchTimeoutId (dd_objs s ! a) = None" "\<not> 0 < TIME_BUFFER - (now - md_lastFetchTime (dd_objs s ! a))"
      by auto
    then show ?thesis
    proof cases
      case 1
      then have "fetchNewResultsSoon now m s = s" using assms(2) by (auto simp: fetchNewResultsSoon_def)
      then show ?thesis using 1 assms(3) by (simp add: keeps_def fetch_coming_def)
    next
      case 2
      then have "fetchNewResultsSoon now m s = fetchNewResults now m s"
        using assms(2) by (simp add: fetchNewResultsSoon_def)
      then show ?thesis using fetchNewResults_coming [OF assms(1,2)] assms(3) by (simp add: timers_ok_def)
    qed
  qed
qed

lemma live_notify:
  assumes "store_ok (sy_rows s) (sy_store s)" and "live_ok s"
  shows "live_ok (s\<lparr>sy_store := snd (handleNewModelResults now m (sy_store s)), sy_seen := (sy_seen s)(m := n)\<rparr>)"
proof (cases "om_get (dd_models (sy_store s)) m")
  case None
  then have "om_get (dd_models (sy_store s)) i = Some a \<Longrightarrow> i \<noteq> m" for i a by auto
  moreover have "load_covers (s\<lparr>sy_seen := (sy_seen s)(m := n)\<rparr>) i"
    if i: "om_get (dd_pending (sy_store s)) i = Some False" "om_get (dd_pending (sy_store s)) m = None" for i
  proof -
    have "i \<noteq> m" using i by auto
    then show ?thesis using i(1) assms(2) by (simp add: live_ok_def)
  qed
  ultimately show ?thesis using None assms(2)
    by (auto simp: live_ok_def handleNewModelResults_def om_has_def covered_def om_get_set split: if_splits)
next
  case (Some a)
  let ?t = "fetchNewResultsSoon now m (sy_store s)"
  have tm: "timers_ok (sy_store s)" using assms(2) by (simp add: live_ok_def)
  note t = fetchNewResultsSoon_coming [OF assms(1) Some tm, of now]
  have b: "b < length (dd_objs (sy_store s))" if "om_get (dd_models (sy_store s)) i = Some b" for i b
    using store_ok_get [OF assms(1) that] by simp
  have "om_get (dd_pending (sy_store s)) m = None" using Some assms(2) by (auto simp: live_ok_def om_has_def)
  then have p: "load_covers (s\<lparr>sy_store := ?t, sy_seen := (sy_seen s)(m := n)\<rparr>) i"
    if i: "om_get (dd_pending (sy_store s)) i = Some False" for i
  proof -
    have "i \<noteq> m" using i \<open>om_get (dd_pending (sy_store s)) m = None\<close> by auto
    then show ?thesis using i assms(2) by (simp add: live_ok_def)
  qed
  have "covered (s\<lparr>sy_store := ?t, sy_seen := (sy_seen s)(m := n)\<rparr>) i c" if i: "om_get (dd_models (sy_store s)) i = Some c" for i c
  proof (cases "i = m")
    case True
    then show ?thesis using t i Some by (simp add: covered_def)
  next
    case False
    then show ?thesis using t i b [OF i] assms(2) by (auto simp: covered_def keeps_def live_ok_def)
  qed
  then show ?thesis using Some assms(2) t p
    by (auto simp: live_ok_def handleNewModelResults_def om_has_def keeps_def)
qed

lemma live_show:
  assumes "live_ok s" and "\<not> om_has (dd_models (sy_store s)) m"
  shows "live_ok (s\<lparr>sy_store := snd (handlePrepareForResults m (sy_store s)), sy_loads := sy_loads s @ [(m, None)]\<rparr>)"
proof -
  let ?s = "s\<lparr>sy_store := snd (handlePrepareForResults m (sy_store s)), sy_loads := sy_loads s @ [(m, None)]\<rparr>"
  have "load_covers ?s i" if "load_covers s i \<or> i = m" for i
    using that by (auto simp: load_covers_def)
  then show ?thesis using assms
    by (auto simp: live_ok_def handlePrepareForResults_def covered_def om_has_set om_get_set split: if_splits)
qed

lemma load_covers_read:
  assumes "sy_loads s = xs @ (m, None) # ys" and "sy_seen s m \<le> length (sy_rows s m)" and "load_covers s i"
  shows "load_covers (s\<lparr>sy_loads := xs @ (m, Some (sy_rows s m)) # ys\<rparr>) i"
  using assms by (auto simp: load_covers_def)

lemma live_read:
  assumes "live_ok s" and "sy_loads s = xs @ (m, None) # ys" and "sy_seen s m \<le> length (sy_rows s m)"
  shows "live_ok (s\<lparr>sy_loads := xs @ (m, Some (sy_rows s m)) # ys\<rparr>)"
  using assms(1) load_covers_read [OF assms(2,3)]
  by (auto simp: live_ok_def covered_def)

lemma load_covers_deliver:
  assumes "sy_loads s = xs @ (m, Some d) # ys" and "load_covers s i" and "i \<noteq> m \<or> \<not> sy_seen s m \<le> length d"
  shows "load_covers (s\<lparr>sy_store := t, sy_loads := xs @ ys\<rparr>) i"
  using assms by (auto simp: load_covers_def)

lemma covered_frame:
  assumes "covered s i b" and "sy_loads s = xs @ (m, Some d) # ys" and "i \<noteq> m"
    and "md_data (dd_objs t ! b) = md_data (dd_objs (sy_store s) ! b)" and "fetch_coming (sy_store s) b \<longrightarrow> fetch_coming t b"
  shows "covered (s\<lparr>sy_store := t, sy_loads := xs @ ys\<rparr>) i b"
  using assms load_covers_deliver [OF assms(2), of i t] by (auto simp: covered_def)

lemma live_load_known:
  assumes "store_ok (sy_rows s) (sy_store s)" and "live_ok s" and "sy_loads s = xs @ (m, Some d) # ys"
    and "om_get (dd_models (sy_store s)) m = Some a"
  shows "live_ok (s\<lparr>sy_store := fetchNewResultsSoon now m (sy_store s), sy_loads := xs @ ys\<rparr>)"
proof -
  let ?t = "fetchNewResultsSoon now m (sy_store s)"
  have tm: "timers_ok (sy_store s)" using assms(2) by (simp add: live_ok_def)
  note t = fetchNewResultsSoon_coming [OF assms(1,4) tm, of now]
  have b: "b < length (dd_objs (sy_store s))" if "om_get (dd_models (sy_store s)) i = Some b" for i b
    using store_ok_get [OF assms(1) that] by simp
  have cov: "covered (s\<lparr>sy_store := ?t, sy_loads := xs @ ys\<rparr>) i b" if i: "om_get (dd_models (sy_store s)) i = Some b" for i b
  proof (cases "i = m")
    case True
    then show ?thesis using t i assms(4) by (simp add: covered_def)
  next
    case False
    then show ?thesis using assms(2,3) t b [OF i] i by (intro covered_frame) (auto simp: live_ok_def keeps_def)
  qed
  have "om_get (dd_pending (sy_store s)) m = None" using assms(2,4) by (auto simp: live_ok_def om_has_def)
  then have "load_covers (s\<lparr>sy_store := ?t, sy_loads := xs @ ys\<rparr>) i" if "om_get (dd_pending (sy_store s)) i = Some False" for i
    using that assms(2) by (intro load_covers_deliver [OF assms(3)]) (auto simp: live_ok_def)
  then show ?thesis using t assms(2) cov by (auto simp: live_ok_def keeps_def)
qed

lemma live_load_pending:
  assumes "store_ok (sy_rows s) (sy_store s)" and "live_ok s" and loads: "sy_loads s = xs @ (m, Some d) # ys"
    and "om_get (dd_pending (sy_store s)) m = Some b" and "prefix d (sy_rows s m)"
  shows "live_ok (s\<lparr>sy_store := snd (handleLoadModelData now m d (sy_store s)), sy_loads := xs @ ys\<rparr>)"
proof -
  let ?st = "sy_store s" and ?a = "length (dd_objs (sy_store s))"
  let ?u = "?st\<lparr>dd_pending := om_delete m (dd_pending ?st),
      dd_objs := dd_objs ?st @ [\<lparr>md_modelId = m, md_data = d, md_modified = now, md_lastFetchTime = 0, md_fetchTimeoutId = None\<rparr>],
      dd_models := om_set m ?a (dd_models ?st)\<rparr>"
  let ?t = "snd (handleLoadModelData now m d ?st)"
  have t: "?t = (if b then fetchNewResultsSoon now m ?u else ?u)"
    using assms(4) by (simp add: handleLoadModelData_def Let_def)
  have lt: "a < ?a" if "om_get (dd_models ?st) i = Some a" for i a using store_ok_get [OF assms(1) that] by simp
  have u: "store_ok (sy_rows s) ?u" using assms(1,5)
    by (auto simp: store_ok_def query_ok_def nth_append omap_simps less_Suc_eq simp del: set_map)
  have um: "om_get (dd_models ?u) m = Some ?a" by (simp add: om_get_set)
  have ut: "timers_ok ?u" using assms(2) lt by (auto simp: live_ok_def timers_ok_def om_get_set nth_append)
  note f = fetchNewResultsSoon_coming [OF u um ut, of now]
  have kp: "dd_models ?t = om_set m ?a (dd_models ?st)" "dd_pending ?t = om_delete m (dd_pending ?st)" "timers_ok ?t"
    using t f ut by (auto simp: keeps_def)
  have old: "md_data (dd_objs ?t ! c) = md_data (dd_objs ?st ! c)" "fetch_coming ?st c \<longrightarrow> fetch_coming ?t c" if "c < ?a" for c
    using t f that by (auto simp: keeps_def fetch_coming_def nth_append)
  have new: "md_data (dd_objs ?t ! ?a) = d" "b \<longrightarrow> fetch_coming ?t ?a"
    using t f by (auto simp: keeps_def nth_append)
  have here: "covered (s\<lparr>sy_store := ?t, sy_loads := xs @ ys\<rparr>) m ?a"
  proof (cases "b \<or> sy_seen s m \<le> length d")
    case True
    then show ?thesis using new by (auto simp: covered_def)
  next
    case False
    then have "load_covers s m" using assms(2,4) by (simp add: live_ok_def)
    then have "load_covers (s\<lparr>sy_store := ?t, sy_loads := xs @ ys\<rparr>) m"
      using False by (intro load_covers_deliver [OF loads]) auto
    then show ?thesis by (simp add: covered_def)
  qed
  have there: "covered (s\<lparr>sy_store := ?t, sy_loads := xs @ ys\<rparr>) i c" if "i \<noteq> m" "om_get (dd_models ?st) i = Some c" for i c
    using assms(2) that old [OF lt [OF that(2)]] by (intro covered_frame [OF _ loads]) (auto simp: live_ok_def)
  have "load_covers (s\<lparr>sy_store := ?t, sy_loads := xs @ ys\<rparr>) i" if "i \<noteq> m" "om_get (dd_pending ?st) i = Some False" for i
    using assms(2) that by (intro load_covers_deliver [OF loads]) (auto simp: live_ok_def)
  then show ?thesis using kp here there assms(2)
    by (auto simp: live_ok_def om_get_set om_get_delete om_has_set om_has_delete split: if_splits)
qed

lemma live_load:
  assumes "store_ok (sy_rows s) (sy_store s)" and "live_ok s" and "sy_loads s = xs @ (m, Some d) # ys"
    and "prefix d (sy_rows s m)"
  shows "live_ok (s\<lparr>sy_store := snd (handleLoadModelData now m d (sy_store s)), sy_loads := xs @ ys\<rparr>)"
proof (cases "om_get (dd_pending (sy_store s)) m")
  case (Some b)
  then show ?thesis using assms by (intro live_load_pending)
next
  case None
  show ?thesis
  proof (cases "om_get (dd_models (sy_store s)) m")
    case (Some a)
    then show ?thesis using live_load_known [OF assms(1-3) Some] None
      by (simp add: handleLoadModelData_def om_has_def)
  next
    case n: None
    have "covered (s\<lparr>sy_store := sy_store s, sy_loads := xs @ ys\<rparr>) i c" if "om_get (dd_models (sy_store s)) i = Some c" for i c
      using that n assms(2) by (intro covered_frame [OF _ assms(3)]) (auto simp: live_ok_def)
    moreover have "load_covers (s\<lparr>sy_store := sy_store s, sy_loads := xs @ ys\<rparr>) i" if "om_get (dd_pending (sy_store s)) i = Some False" for i
      using that None assms(2) by (intro load_covers_deliver [OF assms(3)]) (auto simp: live_ok_def)
    ultimately show ?thesis using n None assms(2)
      by (auto simp: handleLoadModelData_def om_has_def live_ok_def)
  qed
qed

lemma live_execute:
  assumes "system_ok s" and "live_ok s" and "dd_queries (sy_store s) = xs @ q # ys"
  shows "live_ok (s\<lparr>sy_store := (sy_store s)\<lparr>dd_queries := xs @ ys\<rparr>,
      sy_answers := sy_answers s @ [(q, drop (q_offset q) (sy_rows s (q_model q)))]\<rparr>)"
proof -
  let ?r = "drop (q_offset q) (sy_rows s (q_model q))"
  let ?s = "s\<lparr>sy_store := (sy_store s)\<lparr>dd_queries := xs @ ys\<rparr>, sy_answers := sy_answers s @ [(q, ?r)]\<rparr>"
  have st: "store_ok (sy_rows s) (sy_store s)" using assms(1) by (simp add: system_ok_def)
  then have q: "query_ok (sy_store s) q" using assms(3) by (simp add: store_ok_def)
  have len: "sy_seen s (q_model q) \<le> q_offset q + length ?r"
    using assms(1) query_ok_offset [OF st q] by (simp add: system_ok_def)
  have "covered ?s m a" if m: "om_get (dd_models (sy_store s)) m = Some a" for m a
  proof -
    have "a = q_addr q \<Longrightarrow> m = q_model q" using q store_ok_get [OF st m] by (simp add: query_ok_def)
    then have "a = q_addr q \<Longrightarrow> answer_covers ?s m a" using len by (auto simp: answer_covers_def)
    moreover have "answer_covers s m a \<longrightarrow> answer_covers ?s m a" by (auto simp: answer_covers_def)
    moreover have "fetch_coming (sy_store s) a \<Longrightarrow> a \<noteq> q_addr q \<Longrightarrow> fetch_coming (sy_store ?s) a"
      using assms(3) by (auto simp: fetch_coming_def)
    moreover have "load_covers ?s = load_covers s" by (simp add: fun_eq_iff load_covers_def)
    moreover have "covered s m a" using assms(2) m by (simp add: live_ok_def)
    ultimately show ?thesis unfolding covered_def by auto
  qed
  then show ?thesis using assms(2) by (auto simp: live_ok_def timers_ok_def load_covers_def)
qed

lemma live_answer:
  assumes "system_ok s" and "live_ok s" and "sy_answers s = xs @ (q, r) # ys"
  shows "live_ok (s\<lparr>sy_store := snd (query_callback now q (Inr r) (sy_store s)), sy_answers := xs @ ys\<rparr>)"
proof -
  let ?t = "snd (query_callback now q (Inr r) (sy_store s))"
  let ?s = "s\<lparr>sy_store := ?t, sy_answers := xs @ ys\<rparr>"
  have st: "store_ok (sy_rows s) (sy_store s)" "query_ok (sy_store s) q" "answer_ok (sy_rows s) q r"
    using assms(1,3) by (auto simp: system_ok_def)
  then have a: "q_addr q < length (dd_objs (sy_store s))" by (simp add: query_ok_def)
  have len: "length (md_data (dd_objs ?t ! q_addr q)) = max (length (md_data (dd_objs (sy_store s) ! q_addr q))) (q_offset q + length r)"
    using query_callback_ok [OF st] by simp
  have same: "dd_models ?t = dd_models (sy_store s)" "dd_pending ?t = dd_pending (sy_store s)" "dd_timers ?t = dd_timers (sy_store s)"
    "fetch_coming ?t = fetch_coming (sy_store s)" "\<And>b. b \<noteq> q_addr q \<Longrightarrow> dd_objs ?t ! b = dd_objs (sy_store s) ! b"
    "\<And>b. md_fetchTimeoutId (dd_objs ?t ! b) = md_fetchTimeoutId (dd_objs (sy_store s) ! b)"
    using a by (auto simp: query_callback_def put_obj_nth fetch_coming_def fun_eq_iff)
  have "covered ?s m b" if m: "om_get (dd_models (sy_store s)) m = Some b" for m b
  proof (cases "b = q_addr q \<and> sy_seen s m \<le> q_offset q + length r")
    case True
    then show ?thesis using len by (auto simp: covered_def le_max_iff_disj)
  next
    case False
    then have "answer_covers s m b \<Longrightarrow> answer_covers ?s m b" using assms(3) by (auto simp: answer_covers_def)
    moreover have "length (md_data (dd_objs (sy_store s) ! b)) \<le> length (md_data (dd_objs ?t ! b))"
      using len same(5) by (cases "b = q_addr q") auto
    moreover have "load_covers ?s = load_covers s" by (simp add: fun_eq_iff load_covers_def)
    moreover have "covered s m b" using assms(2) m by (simp add: live_ok_def)
    ultimately show ?thesis unfolding covered_def using same(4) by auto
  qed
  then show ?thesis using assms(2) same by (auto simp: live_ok_def timers_ok_def load_covers_def)
qed

lemma live_timer:
  assumes "system_ok s" and "live_ok s"
  shows "live_ok (s\<lparr>sy_store := timer_fires now t (sy_store s)\<rparr>)"
proof -
  let ?m = "snd t"
  let ?u = "(sy_store s)\<lparr>dd_timers := remove1 t (dd_timers (sy_store s))\<rparr>"
  have st: "store_ok (sy_rows s) ?u" using assms(1) by (simp add: system_ok_def)
  have tm: "\<forall>i b x. i \<noteq> ?m \<longrightarrow> om_get (dd_models ?u) i = Some b \<longrightarrow> md_fetchTimeoutId (dd_objs ?u ! b) = Some x \<longrightarrow> (x, i) \<in> set (dd_timers ?u)"
    using assms(2) by (cases t) (auto simp: live_ok_def timers_ok_def in_set_remove1)
  show ?thesis
  proof (cases "om_get (dd_models (sy_store s)) ?m")
    case None
    have "(x, i) \<in> set (dd_timers ?u)"
      if i: "om_get (dd_models (sy_store s)) i = Some b" "md_fetchTimeoutId (dd_objs (sy_store s) ! b) = Some x" for i b x
    proof -
      have "i \<noteq> ?m" using None i(1) by auto
      then show ?thesis using tm i by simp
    qed
    then have "timers_ok ?u" by (simp add: timers_ok_def)
    then show ?thesis using None assms(2)
      by (auto simp: timer_fires_def fetchNewResults_def live_ok_def covered_def fetch_coming_def)
  next
    case (Some a)
    then have m: "om_get (dd_models ?u) ?m = Some a" by simp
    note f = fetchNewResults_coming [OF st m tm, of now]
    have "covered (s\<lparr>sy_store := timer_fires now t (sy_store s)\<rparr>) i b" if "om_get (dd_models (sy_store s)) i = Some b" for i b
      using f assms(2) that store_ok_get [OF st, of i b]
      by (auto simp: covered_def timer_fires_def keeps_def live_ok_def)
    then show ?thesis using f assms(2) by (auto simp: live_ok_def timer_fires_def keeps_def)
  qed
qed

lemma live_hide: "live_ok s \<Longrightarrow> live_ok (s\<lparr>sy_store := snd (modelData_handleHideModel m (sy_store s))\<rparr>)"
  by (auto simp: live_ok_def modelData_handleHideModel_def timers_ok_def covered_def fetch_coming_def
      om_get_delete om_has_delete split: if_splits)

lemma live_step:
  assumes "data_step True s s'" and "system_ok s" and "live_ok s"
  shows "live_ok s'"
  using assms
proof cases
  case (save m r)
  then show ?thesis using assms(3) by (auto simp: live_ok_def covered_def)
next
  case (notify m now)
  then show ?thesis using assms live_notify by (auto simp: system_ok_def)
next
  case (show_model m)
  then show ?thesis using assms live_show by auto
next
  case (read_rows xs m ys)
  moreover have "sy_seen s m \<le> length (sy_rows s m)" using assms(2) by (simp add: system_ok_def)
  ultimately show ?thesis using live_read [OF assms(3)] by simp
next
  case (load_data xs m d ys now)
  then have "prefix d (sy_rows s m)" using assms(2) by (auto simp: system_ok_def)
  then show ?thesis using load_data assms live_load by (auto simp: system_ok_def)
next
  case (execute xs q ys)
  then show ?thesis using assms live_execute by auto
next
  case (answer xs q r ys now)
  then show ?thesis using assms live_answer by auto
next
  case (timer t now)
  then show ?thesis using live_timer [OF assms(2,3)] by simp
next
  case (hide m)
  then show ?thesis using assms live_hide by auto
qed

lemma live_reach: "data_reach True s \<Longrightarrow> live_ok s"
proof (induction rule: rtranclp_induct)
  case base
  show ?case by (simp add: live_ok_def new_system_def new_data_store_def timers_ok_def om_has_def)
next
  case (step s s')
  then show ?case using live_step system_ok_reach by blast
qed

text \<open>C4: \<open>ModelDataStore\<close>: if \<open>ShowModel\<close> is only run for models whose results are not loaded, then no
  announced row is lost: whenever nothing is under way any more, the rows of a shown model are
  a prefix of the database's that has at least the rows there were at the last announcement.\<close>

theorem no_announced_row_lost:
  assumes "data_reach True s" and "settled s" and "om_has (dd_models (sy_store s)) m"
  shows "take (sy_seen s m) (sy_rows s m) = take (sy_seen s m) (fst (modelData_getData m (sy_store s)))
    \<and> sy_seen s m \<le> length (fst (modelData_getData m (sy_store s)))"
proof -
  obtain a where a: "om_get (dd_models (sy_store s)) m = Some a" using assms(3) by (auto simp: om_has_def)
  have st: "store_ok (sy_rows s) (sy_store s)" using system_ok_reach [OF assms(1)] by (simp add: system_ok_def)
  have p: "prefix (md_data (dd_objs (sy_store s) ! a)) (sy_rows s m)" using store_ok_get [OF st a] by simp
  have "md_fetchTimeoutId (dd_objs (sy_store s) ! a) = None"
  proof (rule ccontr)
    assume "md_fetchTimeoutId (dd_objs (sy_store s) ! a) \<noteq> None"
    then show False using live_reach [OF assms(1)] assms(2) a by (auto simp: live_ok_def timers_ok_def settled_def)
  qed
  moreover have "covered s m a" using live_reach [OF assms(1)] a by (simp add: live_ok_def)
  ultimately have "sy_seen s m \<le> length (md_data (dd_objs (sy_store s) ! a))"
    using assms(2) by (auto simp: covered_def fetch_coming_def answer_covers_def load_covers_def settled_def)
  then show ?thesis using a p by (auto simp: modelData_getData_def prefix_def)
qed

text \<open>A run on concrete rows: model \<open>m\<close> is shown, then a row is saved and announced.\<close>

definition demo :: "nat mdata list \<Rightarrow> nat \<Rightarrow> (string, bool) omap \<Rightarrow> query list \<Rightarrow> nat list \<Rightarrow> nat
    \<Rightarrow> (query \<times> nat list) list \<Rightarrow> (string \<times> nat list option) list \<Rightarrow> nat system" where
  "demo obs a pending queries rows seen answers loads =
     \<lparr>sy_store = \<lparr>dd_objs = obs, dd_models = [(''m'', a)], dd_pending = pending, dd_timers = [], dd_nextTimer = 1,
                  dd_queries = queries\<rparr>,
      sy_rows = (\<lambda>m. [])(''m'' := rows), sy_seen = (\<lambda>m. 0)(''m'' := seen), sy_answers = answers, sy_loads = loads\<rparr>"

abbreviation demo_entry :: "nat list \<Rightarrow> int \<Rightarrow> int \<Rightarrow> nat mdata" where
  "demo_entry data modified fetched \<equiv> \<lparr>md_modelId = ''m'', md_data = data, md_modified = modified,
     md_lastFetchTime = fetched, md_fetchTimeoutId = None\<rparr>"

abbreviation demo_query :: query where
  "demo_query \<equiv> \<lparr>q_model = ''m'', q_addr = 0, q_offset = 0\<rparr>"

lemma demo_shown: "data_reach c (demo [demo_entry [] 0 0] 0 [] [] [] 0 [] [])"
proof -
  let ?s1 = "new_system\<lparr>sy_store := new_data_store\<lparr>dd_pending := [(''m'', False)]\<rparr>, sy_loads := [(''m'', None)]\<rparr> :: nat system"
  have "data_step c new_system ?s1"
    using data_step.show_model [of c new_system "''m''"]
    by (simp add: new_system_def new_data_store_def om_has_def handlePrepareForResults_def)
  moreover have "data_step c ?s1 (?s1\<lparr>sy_loads := [(''m'', Some [])]\<rparr>)"
    using data_step.read_rows [of ?s1 "[]" "''m''" "[]" c] by (simp add: new_system_def)
  moreover have "data_step c (?s1\<lparr>sy_loads := [(''m'', Some [])]\<rparr>) (demo [demo_entry [] 0 0] 0 [] [] [] 0 [] [])"
    using data_step.load_data [of "?s1\<lparr>sy_loads := [(''m'', Some [])]\<rparr>" "[]" "''m''" "[]" "[]" c 0]
    by (simp add: new_system_def new_data_store_def demo_def handleLoadModelData_def fun_upd_idem)
  ultimately show ?thesis by (meson converse_rtranclp_into_rtranclp rtranclp.rtrancl_refl)
qed

text \<open>A row is saved, announced at time 1000, fetched by a query and written to entry 0.\<close>

lemma demo_fetched:
  "(data_step c)\<^sup>*\<^sup>* (demo [demo_entry [] 0 0] 0 pending [] [] 0 [] loads) (demo [demo_entry [7] 1001 1000] 0 pending [] [7] 1 [] loads)"
proof -
  let ?d = "\<lambda>obs qs rows seen answers. demo obs 0 pending qs rows seen answers loads"
  have "data_step c (?d [demo_entry [] 0 0] [] [] 0 []) (?d [demo_entry [] 0 0] [] [7] 0 [])"
    using data_step.save [of c "?d [demo_entry [] 0 0] [] [] 0 []" "''m''" 7] by (simp add: demo_def)
  moreover have "data_step c (?d [demo_entry [] 0 0] [] [7] 0 []) (?d [demo_entry [] 0 1000] [demo_query] [7] 1 [])"
    using data_step.notify [of c "?d [demo_entry [] 0 0] [] [7] 0 []" "''m''" 1000]
    by (simp add: demo_def handleNewModelResults_def om_has_def fetchNewResultsSoon_def TIME_BUFFER_def
        fetchNewResults_def put_obj_def Let_def)
  moreover have "data_step c (?d [demo_entry [] 0 1000] [demo_query] [7] 1 []) (?d [demo_entry [] 0 1000] [] [7] 1 [(demo_query, [7])])"
    using data_step.execute [of "?d [demo_entry [] 0 1000] [demo_query] [7] 1 []" "[]" demo_query "[]" c]
    by (simp add: demo_def)
  moreover have "data_step c (?d [demo_entry [] 0 1000] [] [7] 1 [(demo_query, [7])]) (?d [demo_entry [7] 1001 1000] [] [7] 1 [])"
    using data_step.answer [of "?d [demo_entry [] 0 1000] [] [7] 1 [(demo_query, [7])]" "[]" demo_query "[7]" "[]" c 1001]
    by (simp add: demo_def query_callback_def put_obj_def splice_def)
  ultimately show ?thesis by (meson converse_rtranclp_into_rtranclp rtranclp.rtrancl_refl)
qed

theorem model_rows_prefix_witness:
  "prefix (fst (modelData_getData ''m'' (sy_store (demo [demo_entry [7] 1001 1000] 0 [] [] [7] 1 [] [])))) [7]"
  using model_rows_prefix [OF rtranclp_trans [OF demo_shown demo_fetched], of "''m''"]
  by (simp add: demo_def)

theorem no_announced_row_lost_witness:
  "fst (modelData_getData ''m'' (sy_store (demo [demo_entry [7] 1001 1000] 0 [] [] [7] 1 [] []))) = [7]"
  using no_announced_row_lost [OF rtranclp_trans [OF demo_shown demo_fetched], of "''m''"]
  by (simp add: demo_def settled_def om_has_def modelData_getData_def)

text \<open>\<open>ModelDataStore\<close>: showing a model whose results are already loaded (a click while the last
  hide overtook its load) can lose an announced row: the fetch it triggers writes into the
  entry that the second \<open>LOAD_MODEL_DATA\<close> replaces, and afterwards nothing is under way.\<close>

theorem show_twice_loses_row:
  "\<exists>s :: nat system. data_reach False s \<and> settled s \<and> om_has (dd_models (sy_store s)) ''m''
     \<and> sy_seen s ''m'' = length (sy_rows s ''m'') \<and> sy_rows s ''m'' = [7]
     \<and> fst (modelData_getData ''m'' (sy_store s)) = []"
proof -
  let ?a = "demo [demo_entry [] 0 0] 0 [] [] [] 0 [] []"
  let ?b = "demo [demo_entry [] 0 0] 0 [(''m'', False)] [] [] 0 [] [(''m'', None)]"
  let ?c = "demo [demo_entry [] 0 0] 0 [(''m'', False)] [] [] 0 [] [(''m'', Some [])]"
  let ?d = "demo [demo_entry [7] 1001 1000] 0 [(''m'', False)] [] [7] 1 [] [(''m'', Some [])]"
  let ?e = "demo [demo_entry [7] 1001 1000, demo_entry [] 1002 0] 1 [] [] [7] 1 [] []"
  have "data_step False ?a ?b"
    using data_step.show_model [of False ?a "''m''"] by (simp add: demo_def handlePrepareForResults_def)
  moreover have "data_step False ?b ?c"
    using data_step.read_rows [of ?b "[]" "''m''" "[]" False] by (simp add: demo_def)
  moreover have "(data_step False)\<^sup>*\<^sup>* ?c ?d" by (rule demo_fetched)
  moreover have "data_step False ?d ?e"
    using data_step.load_data [of ?d "[]" "''m''" "[]" "[]" False 1002]
    by (simp add: demo_def handleLoadModelData_def)
  ultimately have "data_reach False ?e"
    using demo_shown [of False] by (meson rtranclp.rtrancl_into_rtrancl rtranclp_trans)
  then show ?thesis
    by (intro exI [of _ ?e]) (simp add: demo_def settled_def om_has_def modelData_getData_def)
qed

end
