(* ===== verification/Create_Model_Store.thy ===== *)
theory Create_Model_Store
  imports Flux
begin

text \<open>
  The state of the dialog that creates a model, \<open>app/browser/stores/CreateModelStore.js\<close>: results
  of the parameter finder and what the user sets over them. \<open>_.merge\<close> and \<open>_.get\<close> of lodash
  are parameters; the locale \<open>lodash\<close> states what the store relies on. The result is that a
  setting of the user stays in the parameters of the model runner whatever the parameter
  finder reports before or after.
\<close>

section \<open>Lodash\<close>

definition primitive :: "jsval \<Rightarrow> bool" where
  "primitive v = (case v of JBool _ \<Rightarrow> True | JNum _ \<Rightarrow> True | JStr _ \<Rightarrow> True | _ \<Rightarrow> False)"

text \<open>\<open>merge a b\<close> is \<open>_.merge({}, a, b)\<close>, \<open>get v k\<close> is \<open>_.get(v, k)\<close> for a property name: the value
  of a later source wins, an undefined one does not. \<open>plain\<close> names are neither paths (\<open>a.b\<close>) nor
  properties that every object inherits.\<close>

locale lodash =
  fixes merge :: "jsval \<Rightarrow> jsval \<Rightarrow> jsval" and get :: "jsval \<Rightarrow> string \<Rightarrow> jsval"
    and plain :: "string \<Rightarrow> bool"
  assumes merge_later: "plain k \<Longrightarrow> primitive (get b k) \<Longrightarrow> get (merge a b) k = get b k"
    and merge_earlier: "plain k \<Longrightarrow> get b k = JUndef \<Longrightarrow> primitive (get a k) \<Longrightarrow> get (merge a b) k = get a k"
    and get_obj: "plain k \<Longrightarrow> get (JObj ob) k = obj_get ob k"
begin

lemma merge_keeps:
  assumes "plain k" and "primitive (get a k)" and "get b k = JUndef \<or> get b k = get a k"
  shows "get (merge a b) k = get a k"
  using assms merge_later [of k b a] merge_earlier [of k b a] by auto

end

text \<open>One level of merging shows that the laws can hold.\<close>

definition shallow_get :: "jsval \<Rightarrow> string \<Rightarrow> jsval" where
  "shallow_get v k = obj_get (as_obj v) k"

definition shallow_merge :: "jsval \<Rightarrow> jsval \<Rightarrow> jsval" where
  "shallow_merge a b = JObj (fold (\<lambda>(k, v). om_set k v)
     (filter (\<lambda>(k, v). v = obj_get (as_obj b) k \<and> v \<noteq> JUndef) (as_obj b)) (as_obj a))"

lemma fold_set_get:
  "obj_get (fold (\<lambda>(k, v). om_set k v) (filter (\<lambda>(k, v). v = g k \<and> v \<noteq> JUndef) ps) ob) k
     = (if g k \<noteq> JUndef \<and> (k, g k) \<in> set ps then g k else obj_get ob k)"
  by (induction ps arbitrary: ob) (auto split: if_splits)

lemma obj_get_mem: "obj_get ob k \<noteq> JUndef \<Longrightarrow> (k, obj_get ob k) \<in> set ob"
  by (auto simp: obj_get_def dest: map_of_SomeD split: option.splits)

lemma shallow_get_merge:
  "shallow_get (shallow_merge a b) k = (if shallow_get b k \<noteq> JUndef then shallow_get b k else shallow_get a k)"
  using obj_get_mem [of "as_obj b" k] by (simp add: shallow_get_def shallow_merge_def fold_set_get)

interpretation shallow: lodash shallow_merge shallow_get "\<lambda>k. True"
  by unfold_locales (auto simp: shallow_get_merge primitive_def, simp add: shallow_get_def)

section \<open>State\<close>

record create_store =
  cm_fileName :: jsval
  cm_metricId :: jsval
  cm_metricName :: jsval
  cm_aggregateData :: jsval
  cm_paramFinderResults :: jsval
  cm_userParamOverrides :: jsval
  cm_inputOpts :: jsval
  cm_paramFinderError :: jsval

definition reset :: "create_store \<Rightarrow> create_store" where
  "reset s = s\<lparr>cm_fileName := JNull, cm_metricId := JNull, cm_metricName := JNull,
     cm_aggregateData := JBool False, cm_paramFinderResults := JNull, cm_userParamOverrides := JNull,
     cm_inputOpts := JNull, cm_paramFinderError := JNull\<rparr>"

definition new_create_store :: create_store where
  "new_create_store = \<lparr>cm_fileName = JNull, cm_metricId = JNull, cm_metricName = JNull,
     cm_aggregateData = JBool False, cm_paramFinderResults = JNull, cm_userParamOverrides = JNull,
     cm_inputOpts = JNull, cm_paramFinderError = JNull\<rparr>"

text \<open>The functions of lodash as a record, so that the handlers take one parameter.\<close>

record lodash_env =
  lo_merge :: "jsval \<Rightarrow> jsval \<Rightarrow> jsval"
  lo_get :: "jsval \<Rightarrow> string \<Rightarrow> jsval"
  lo_plain :: "string \<Rightarrow> bool"

section \<open>Handlers\<close>

definition modelRunnerParams :: "lodash_env \<Rightarrow> create_store \<Rightarrow> jsval" where
  "modelRunnerParams L s = lo_merge L (cm_paramFinderResults s) (cm_userParamOverrides s)"

definition recommendAggregation :: "lodash_env \<Rightarrow> create_store \<Rightarrow> bool" where
  "recommendAggregation L s = truthy (lo_get L (cm_paramFinderResults s) ''aggInfo'')"

definition setDefaultOverrides :: "lodash_env \<Rightarrow> create_store \<Rightarrow> create_store" where
  "setDefaultOverrides L s =
     (let defaultOverrides = JObj [(''aggInfo'', JObj [(''windowSize'', JNum (Fin 0)), (''func'', JStr ''mean'')])]
      in s\<lparr>cm_userParamOverrides := lo_merge L (cm_userParamOverrides s) defaultOverrides\<rparr>)"

definition handleStartParamFinder :: "jsval \<Rightarrow> jsval \<Rightarrow> create_store \<Rightarrow> create_store handled" where
  "handleStartParamFinder metricId inputOpts s = (Changed, s\<lparr>cm_metricId := metricId, cm_inputOpts := inputOpts\<rparr>)"

definition handleShowCreateModelDialog :: "jsval \<Rightarrow> jsval \<Rightarrow> create_store \<Rightarrow> create_store handled" where
  "handleShowCreateModelDialog fileName metricName s =
     (Changed, s\<lparr>cm_fileName := fileName, cm_metricName := metricName\<rparr>)"

definition handleHideCreateModelDialog :: "create_store \<Rightarrow> create_store handled" where
  "handleHideCreateModelDialog s = (Changed, reset s)"

text \<open>The text of the results may not be JSON.\<close>

definition handleReceiveParamFinderData ::
    "lodash_env \<Rightarrow> jsval \<Rightarrow> jsval \<Rightarrow> create_store \<Rightarrow> create_store handled" where
  "handleReceiveParamFinderData L metricId paramFinderResults s = (case json_parse paramFinderResults of
       Inl e \<Rightarrow> (Raised e, s)
     | Inr results \<Rightarrow>
         (let s = s\<lparr>cm_paramFinderResults := results\<rparr>;
              s = s\<lparr>cm_aggregateData := JBool (recommendAggregation L s)\<rparr>
          in (Changed, s\<lparr>cm_metricId := metricId\<rparr>)))"

definition handleOverrideParamFinderResults :: "lodash_env \<Rightarrow> jsval \<Rightarrow> create_store \<Rightarrow> create_store handled" where
  "handleOverrideParamFinderResults L payload s =
     (let s = (if \<not> truthy (lo_get L (cm_paramFinderResults s) ''aggInfo'')
                  \<and> \<not> truthy (lo_get L (cm_userParamOverrides s) ''aggInfo'')
               then setDefaultOverrides L s else s)
      in (Changed, s\<lparr>cm_userParamOverrides := lo_merge L (cm_userParamOverrides s) payload\<rparr>))"

definition handleToggleAggregateData :: "jsval \<Rightarrow> create_store \<Rightarrow> create_store handled" where
  "handleToggleAggregateData aggregateData s = (Changed, s\<lparr>cm_aggregateData := aggregateData\<rparr>)"

definition handleParamFinderError :: "jsval \<Rightarrow> create_store \<Rightarrow> create_store handled" where
  "handleParamFinderError error s = (Changed, s\<lparr>cm_paramFinderError := error\<rparr>)"

section \<open>Settings of the user\<close>

datatype create_event =
    StartFinder jsval jsval
  | ShowDialog jsval jsval
  | HideDialog
  | ReceiveResults jsval jsval
  | Override jsval
  | Toggle jsval
  | FinderError jsval

fun create_handle :: "lodash_env \<Rightarrow> create_event \<Rightarrow> create_store \<Rightarrow> create_store handled" where
  "create_handle L (StartFinder m i) s = handleStartParamFinder m i s"
| "create_handle L (ShowDialog f m) s = handleShowCreateModelDialog f m s"
| "create_handle L HideDialog s = handleHideCreateModelDialog s"
| "create_handle L (ReceiveResults m r) s = handleReceiveParamFinderData L m r s"
| "create_handle L (Override p) s = handleOverrideParamFinderResults L p s"
| "create_handle L (Toggle b) s = handleToggleAggregateData b s"
| "create_handle L (FinderError e) s = handleParamFinderError e s"

abbreviation create_run :: "lodash_env \<Rightarrow> create_event list \<Rightarrow> create_store \<Rightarrow> create_store" where
  "create_run L evs s \<equiv> fold (\<lambda>e s. snd (create_handle L e s)) evs s"

text \<open>Events that neither close the dialog nor set \<open>k\<close>.\<close>

definition leaves_setting :: "lodash_env \<Rightarrow> string \<Rightarrow> create_event \<Rightarrow> bool" where
  "leaves_setting L k e = (case e of HideDialog \<Rightarrow> False | Override p \<Rightarrow> lo_get L p k = JUndef | _ \<Rightarrow> True)"

definition overrides :: "lodash_env \<Rightarrow> create_store \<Rightarrow> string \<Rightarrow> jsval" where
  "overrides L s k = lo_get L (cm_userParamOverrides s) k"

lemma override_sets:
  assumes "lodash (lo_merge L) (lo_get L) (lo_plain L)" and "lo_plain L k" and "primitive (lo_get L p k)"
  shows "overrides L (snd (handleOverrideParamFinderResults L p s)) k = lo_get L p k"
  using lodash.merge_later [OF assms] by (simp add: handleOverrideParamFinderResults_def overrides_def Let_def)

lemma event_keeps:
  assumes "lodash (lo_merge L) (lo_get L) (lo_plain L)" and "primitive (overrides L s k)" and "lo_plain L k" and "k \<noteq> ''aggInfo''"
    and "leaves_setting L k e"
  shows "overrides L (snd (create_handle L e s)) k = overrides L s k"
proof -
  let ?d = "JObj [(''aggInfo'', JObj [(''windowSize'', JNum (Fin 0)), (''func'', JStr ''mean'')])]"
  have "lo_get L ?d k = JUndef" using lodash.get_obj [OF assms(1,3)] assms(4) by (simp add: obj_get_def)
  then have d: "overrides L (setDefaultOverrides L s) k = overrides L s k"
    using lodash.merge_keeps [OF assms(1,3), of "cm_userParamOverrides s" ?d] assms(2)
    by (simp add: overrides_def setDefaultOverrides_def)
  show ?thesis
  proof (cases e)
    case (Override p)
    then have "lo_get L p k = JUndef" using assms(5) by (simp add: leaves_setting_def)
    then show ?thesis using Override d assms(2)
        lodash.merge_keeps [OF assms(1,3), of "cm_userParamOverrides s" p]
        lodash.merge_keeps [OF assms(1,3), of "cm_userParamOverrides (setDefaultOverrides L s)" p]
      by (simp add: handleOverrideParamFinderResults_def overrides_def Let_def)
  next
    case HideDialog
    then show ?thesis using assms(5) by (simp add: leaves_setting_def)
  qed (simp_all add: handleStartParamFinder_def handleShowCreateModelDialog_def handleReceiveParamFinderData_def
      handleToggleAggregateData_def handleParamFinderError_def overrides_def Let_def split: sum.split)
qed

lemma run_keeps:
  assumes "lodash (lo_merge L) (lo_get L) (lo_plain L)" and "primitive (overrides L s k)" and "lo_plain L k" and "k \<noteq> ''aggInfo''"
    and "list_all (leaves_setting L k) evs"
  shows "overrides L (create_run L evs s) k = overrides L s k"
  using assms(2,5)
proof (induction evs arbitrary: s)
  case (Cons e evs)
  then have "overrides L (snd (create_handle L e s)) k = overrides L s k"
    using event_keeps [OF assms(1) _ assms(3,4)] by simp
  then show ?case using Cons by simp
qed simp

text \<open>C29: \<open>CreateModelStore\<close>: a value the user sets for a parameter is the one \<open>modelRunnerParams\<close> gives to
  the model runner, after any further events (new results of the parameter finder, errors,
  other settings) that neither set it again nor close the dialog.\<close>

theorem user_setting_wins:
  assumes "lodash (lo_merge L) (lo_get L) (lo_plain L)" and "primitive (lo_get L payload k)" and "lo_plain L k" and "k \<noteq> ''aggInfo''"
    and "list_all (leaves_setting L k) evs"
  shows "lo_get L (modelRunnerParams L (create_run L evs (snd (handleOverrideParamFinderResults L payload s)))) k
    = lo_get L payload k"
proof -
  let ?s = "snd (handleOverrideParamFinderResults L payload s)"
  have "overrides L ?s k = lo_get L payload k" using assms(1,3,2) by (rule override_sets)
  then have "overrides L (create_run L evs ?s) k = lo_get L payload k"
    using run_keeps [OF assms(1) _ assms(3-5), of ?s] assms(2) by simp
  then show ?thesis
    using lodash.merge_later [OF assms(1,3), of "cm_userParamOverrides (create_run L evs ?s)"] assms(2)
    by (simp add: modelRunnerParams_def overrides_def)
qed

definition shallow_env :: lodash_env where
  "shallow_env = \<lparr>lo_merge = shallow_merge, lo_get = shallow_get, lo_plain = (\<lambda>k. True)\<rparr>"

theorem user_setting_wins_witness:
  "shallow_get (modelRunnerParams shallow_env (create_run shallow_env
      [ReceiveResults (JStr ''m'') (JJson (JObj [(''window'', JNum (Fin 1))]))]
      (snd (handleOverrideParamFinderResults shallow_env (JObj [(''window'', JNum (Fin 60))]) new_create_store)))) ''window''
    = JNum (Fin 60)"
  using user_setting_wins [of shallow_env "JObj [(''window'', JNum (Fin 60))]" "''window''"
      "[ReceiveResults (JStr ''m'') (JJson (JObj [(''window'', JNum (Fin 1))]))]" new_create_store] shallow.lodash_axioms
  by (simp add: shallow_env_def shallow_get_def primitive_def obj_get_def leaves_setting_def)

end
