(* ===== verification/Process_Service.thy ===== *)
theory Process_Service
  imports JS_Value Common_Utils
begin

text \<open>
  What the model service and the parameter finder service of the main process share: a map
  from ids to child processes, the child processes themselves, and the listeners of the event
  emitter. The locale \<open>process_service\<close> is the contract the IPC layer relies on.
\<close>

section \<open>State\<close>

datatype service_error =
    MaximumConcurrencyError
  | DuplicateIDError
  | ModelNotFoundError
  | ParamFinderNotFoundError
  | OptionsSyntaxError
  | UnknownCommandError string

text \<open>
  A child process runs from \<open>spawn\<close> until it closes. \<open>ch_id\<close> and \<open>ch_index\<close> are the variables its
  handlers close over; \<open>ch_killed\<close> says that it got the signal of \<open>kill()\<close>.
\<close>

record child =
  ch_pid :: nat
  ch_id :: string
  ch_index :: nat
  ch_killed :: bool

text \<open>\<open>ps_map\<close> is \<open>_models\<close> or \<open>_paramFinders\<close>; \<open>ps_listeners\<close> the listeners per event name, in the order of
  registration.\<close>

record 'l psv =
  ps_map :: "(string, nat) omap"
  ps_children :: "child list"
  ps_next :: nat
  ps_listeners :: "(string \<times> 'l) list"

definition new_service :: "'l psv" where
  "new_service = \<lparr>ps_map = [], ps_children = [], ps_next = 0, ps_listeners = []\<rparr>"

abbreviation ps_running :: "'l psv \<Rightarrow> string list" where
  "ps_running s \<equiv> om_keys (ps_map s)"

section \<open>Child processes\<close>

text \<open>\<open>childProcess.spawn\<close> followed by \<open>set(id, {..., child})\<close>.\<close>

definition spawn :: "string \<Rightarrow> 'l psv \<Rightarrow> 'l psv" where
  "spawn ident s = s\<lparr>
     ps_children := ps_children s @ [\<lparr>ch_pid = ps_next s, ch_id = ident, ch_index = 0, ch_killed = False\<rparr>],
     ps_next := ps_next s + 1,
     ps_map := om_set ident (ps_next s) (ps_map s)\<rparr>"

definition kill :: "nat \<Rightarrow> 'l psv \<Rightarrow> 'l psv" where
  "kill pid s = s\<lparr>ps_children := map (\<lambda>c. if ch_pid c = pid then c\<lparr>ch_killed := True\<rparr> else c) (ps_children s)\<rparr>"

definition find_child :: "nat \<Rightarrow> 'l psv \<Rightarrow> child option" where
  "find_child pid s = find (\<lambda>c. ch_pid c = pid) (ps_children s)"

section \<open>Events\<close>

datatype event =
    ErrorEvent string
  | ModelDataEvent nat jsval
  | ParamDataEvent string
  | CloseEvent int

text \<open>\<open>emit(id, ...)\<close> calls the listeners of that id in order.\<close>

definition listeners_of :: "string \<Rightarrow> 'l psv \<Rightarrow> 'l list" where
  "listeners_of ident s = map snd (filter (\<lambda>p. fst p = ident) (ps_listeners s))"

definition add_listener :: "string \<Rightarrow> 'l \<Rightarrow> 'l psv \<Rightarrow> 'l psv" where
  "add_listener ident l s = s\<lparr>ps_listeners := ps_listeners s @ [(ident, l)]\<rparr>"

definition removeAllListeners :: "string \<Rightarrow> 'l psv \<Rightarrow> 'l psv" where
  "removeAllListeners ident s = s\<lparr>ps_listeners := filter (\<lambda>p. fst p \<noteq> ident) (ps_listeners s)\<rparr>"

text \<open>The handler of \<open>close\<close>: the entry of the id goes, whichever child it points to.\<close>

definition child_close :: "nat \<Rightarrow> int \<Rightarrow> 'l psv \<Rightarrow> (string \<times> event) list \<times> 'l psv" where
  "child_close pid code s = (case find_child pid s of
       None \<Rightarrow> ([], s)
     | Some c \<Rightarrow> ([(ch_id c, CloseEvent code)],
                 s\<lparr>ps_children := filter (\<lambda>c. ch_pid c \<noteq> pid) (ps_children s),
                   ps_map := om_delete (ch_id c) (ps_map s)\<rparr>))"

text \<open>The handlers of \<open>error\<close> and of data on \<open>stderr\<close> pass the error on.\<close>

definition child_error :: "nat \<Rightarrow> string \<Rightarrow> 'l psv \<Rightarrow> (string \<times> event) list" where
  "child_error pid err s = (case find_child pid s of None \<Rightarrow> [] | Some c \<Rightarrow> [(ch_id c, ErrorEvent err)])"

text \<open>Stopping an entry that is present: delete it, kill its child, remove the listeners of the id.\<close>

definition stop_entry :: "string \<Rightarrow> nat \<Rightarrow> 'l psv \<Rightarrow> 'l psv" where
  "stop_entry ident pid s =
     removeAllListeners ident (kill pid (s\<lparr>ps_map := om_delete ident (ps_map s)\<rparr>))"

lemma ps_map_simps [simp]:
  "ps_map (kill pid s) = ps_map s" "ps_map (removeAllListeners i s) = ps_map s"
  "ps_map (add_listener i l s) = ps_map s" "ps_map (spawn i s) = om_set i (ps_next s) (ps_map s)"
  "ps_map (stop_entry i pid s) = om_delete i (ps_map s)"
  by (simp_all add: kill_def removeAllListeners_def add_listener_def spawn_def stop_entry_def)

section \<open>The contract\<close>

text \<open>
  Ids are created, removed and listed; a refused operation reports an error (and by its type
  leaves the state). \<open>valid\<close> is the service's own invariant.
\<close>

locale process_service =
  fixes create :: "string \<Rightarrow> 's \<Rightarrow> service_error + 's"
    and remove :: "string \<Rightarrow> 's \<Rightarrow> service_error + 's"
    and running :: "'s \<Rightarrow> string list"
    and valid :: "'s \<Rightarrow> bool"
  assumes running_distinct: "valid s \<Longrightarrow> distinct (running s)"
    and create_running: "create i s = Inr s' \<Longrightarrow> running s' = running s @ [i] \<and> i \<notin> set (running s)"
    and create_valid: "valid s \<Longrightarrow> create i s = Inr s' \<Longrightarrow> valid s'"
    and remove_ok: "i \<in> set (running s) \<Longrightarrow> \<exists>s'. remove i s = Inr s'"
    and remove_unknown: "i \<notin> set (running s) \<Longrightarrow> \<exists>e. remove i s = Inl e"
    and remove_running: "remove i s = Inr s' \<Longrightarrow> running s' = filter (\<lambda>j. j \<noteq> i) (running s)"
    and remove_valid: "valid s \<Longrightarrow> remove i s = Inr s' \<Longrightarrow> valid s'"
begin

lemma create_duplicate: "i \<in> set (running s) \<Longrightarrow> \<exists>e. create i s = Inl e"
  using create_running by (cases "create i s") auto

lemma create_remove:
  assumes "create i s = Inr s1"
  shows "\<exists>s2. remove i s1 = Inr s2 \<and> running s2 = running s"
proof -
  have r: "running s1 = running s @ [i]" "i \<notin> set (running s)" using create_running [OF assms] by auto
  then obtain s2 where s2: "remove i s1 = Inr s2" using remove_ok [of i s1] by auto
  have "filter (\<lambda>j. j \<noteq> i) (running s1) = running s" using r by (auto intro: filter_True)
  with s2 remove_running show ?thesis by metis
qed

lemma remove_twice: "remove i s = Inr s' \<Longrightarrow> \<exists>e. remove i s' = Inl e"
  using remove_running [of i s s'] remove_unknown [of i s'] by simp

lemma remove_absent: "remove i s = Inr s' \<Longrightarrow> i \<notin> set (running s')"
  using remove_running by simp

text \<open>A sequence of requests; a refused request leaves the state as it is.\<close>

fun requests :: "(bool \<times> string) list \<Rightarrow> 's \<Rightarrow> 's" where
  "requests [] s = s"
| "requests ((True, i) # rs) s = requests rs (case create i s of Inl e \<Rightarrow> s | Inr s' \<Rightarrow> s')"
| "requests ((False, i) # rs) s = requests rs (case remove i s of Inl e \<Rightarrow> s | Inr s' \<Rightarrow> s')"

lemma requests_valid: "valid s \<Longrightarrow> valid (requests rs s)"
  by (induction rs s rule: requests.induct) (auto split: sum.split dest: create_valid remove_valid)

lemma requests_distinct: "valid s \<Longrightarrow> distinct (running (requests rs s))"
  by (simp add: running_distinct requests_valid)

end

end
