(* ===== verification/Model_Service.thy ===== *)
theory Model_Service
  imports Process_Service
begin

text \<open>
  The service that runs one Python process per model, \<open>app/main/ModelService.js\<close>: guards of
  \<open>createModel\<close>, its command line, the events made from the output of a child, and
  \<open>removeModel\<close>. A step relation covers requests and what children do. The lemmas bound the
  number of entries and relate the entries to the live processes.
\<close>

section \<open>Operations\<close>

text \<open>\<open>cpus - 1\<close> and gigabytes of memory, but at least two; the memory makes it a fraction.\<close>

definition calculateMaxConcurrency :: "nat \<Rightarrow> nat \<Rightarrow> rat" where
  "calculateMaxConcurrency cpus totalmem = max (min (of_int (int cpus - 1)) (of_nat totalmem / 1073741824)) 2"

definition availableSlots :: "rat \<Rightarrow> 'l psv \<Rightarrow> rat" where
  "availableSlots maxConcurrency s = maxConcurrency - of_nat (length (ps_map s))"

text \<open>The arguments of the Python process.\<close>

definition model_params :: "jsval \<Rightarrow> jsobj \<Rightarrow> jsval \<Rightarrow> jsval list" where
  "model_params inputOpt aggregationOpt modelOpt =
     [JStr ''-E'', JStr ''-m'', JStr ''unicorn_backend.model_runner_2'',
      JStr ''--input'', stringify inputOpt, JStr ''--model'', stringify modelOpt]
     @ (if 1 \<le> length aggregationOpt then [JStr ''--agg'', stringify (JObj aggregationOpt)] else [])"

definition createModel :: "rat \<Rightarrow> string \<Rightarrow> 'l psv \<Rightarrow> service_error + 'l psv" where
  "createModel maxConcurrency modelId s =
     (if availableSlots maxConcurrency s \<le> 0 then Inl MaximumConcurrencyError
      else if om_has (ps_map s) modelId then Inl DuplicateIDError
      else Inr (spawn modelId s))"

definition getModels :: "'l psv \<Rightarrow> string list" where
  "getModels s = om_keys (ps_map s)"

definition removeModel :: "string \<Rightarrow> 'l psv \<Rightarrow> service_error + 'l psv" where
  "removeModel modelId s = (case om_get (ps_map s) modelId of
       None \<Rightarrow> Inl ModelNotFoundError
     | Some pid \<Rightarrow> Inr (stop_entry modelId pid s))"

section \<open>The output of a child\<close>

text \<open>\<open>s.split('\n')\<close>.\<close>

fun split_lines :: "string \<Rightarrow> string list" where
  "split_lines [] = [[]]"
| "split_lines (c # s) = (if c = CHR 0x0A then [] # split_lines s
                          else (case split_lines s of l # ls \<Rightarrow> (c # l) # ls | [] \<Rightarrow> [[c]]))"

text \<open>One result line, parsed as \<open>[timestamp, value, score]\<close>.\<close>

type_synonym result_line = "string \<times> jsval \<times> jsval"

definition model_data :: "'m moment \<Rightarrow> result_line \<Rightarrow> jsval" where
  "model_data M r = (case r of (timestamp, value, score) \<Rightarrow>
     (let (m, z) = parseIsoTimestampFallbackUtc M timestamp
      in JObj [(''iso_timestamp'', JStr timestamp), (''naive_time'', JNum (jint (getNaiveTime M m))),
               (''metric_value'', value), (''anomaly_score'', score)]))"

text \<open>
  The loop over the lines of a chunk, which counts the results in \<open>index\<close>. \<open>parse\<close> is
  \<open>JSON.parse\<close> with the destructuring; a line it rejects throws, and the lines after it are lost.
\<close>

fun data_lines ::
    "(string \<Rightarrow> result_line option) \<Rightarrow> 'm moment \<Rightarrow> string \<Rightarrow> nat \<Rightarrow> string list \<Rightarrow> (string \<times> event) list \<times> nat" where
  "data_lines parse M modelId index [] = ([], index)"
| "data_lines parse M modelId index (line # ls) =
     (if line = [] then data_lines parse M modelId index ls
      else (case parse line of
          None \<Rightarrow> ([], index)
        | Some r \<Rightarrow>
            (let (es, i) = data_lines parse M modelId (index + 1) ls
             in ((modelId, ModelDataEvent index (model_data M r)) # es, i))))"

definition child_data ::
    "(string \<Rightarrow> result_line option) \<Rightarrow> 'm moment \<Rightarrow> nat \<Rightarrow> string \<Rightarrow> 'l psv \<Rightarrow> (string \<times> event) list \<times> 'l psv" where
  "child_data parse M pid data s = (case find_child pid s of
       None \<Rightarrow> ([], s)
     | Some c \<Rightarrow>
         (let (es, i) = data_lines parse M (ch_id c) (ch_index c) (split_lines data)
          in (es, s\<lparr>ps_children := map (\<lambda>c. if ch_pid c = pid then c\<lparr>ch_index := i\<rparr> else c) (ps_children s)\<rparr>)))"

section \<open>The contract\<close>

interpretation models: process_service "createModel maxc" removeModel getModels "\<lambda>s. om_ok (ps_map s)"
proof
  fix s s' :: "'b psv" and i
  assume "createModel maxc i s = Inr s'"
  then show "getModels s' = getModels s @ [i] \<and> i \<notin> set (getModels s)"
    by (auto simp: createModel_def getModels_def om_set_absent om_has_iff_key split: if_splits)
next
  fix s s' :: "'b psv" and i
  assume "removeModel i s = Inr s'"
  then show "getModels s' = filter (\<lambda>j. j \<noteq> i) (getModels s)"
    by (auto simp: removeModel_def getModels_def delete_keys removeAll_filter_not_eq eq_commute split: option.splits)
qed (auto simp: createModel_def removeModel_def getModels_def om_has_def map_of_eq_None_iff
      om_ok_def [symmetric] split: if_splits option.splits)

section \<open>Steps\<close>

text \<open>
  A request that is accepted, or an event of a child: output, and its end. With \<open>careful\<close>, an id
  is created only when no process of that id is alive, not even a killed one.
\<close>

inductive mstep :: "'m moment \<Rightarrow> bool \<Rightarrow> rat \<Rightarrow> 'l psv \<Rightarrow> 'l psv \<Rightarrow> bool" for M careful m where
  step_create: "createModel m i s = Inr s' \<Longrightarrow> careful \<longrightarrow> (\<forall>c\<in>set (ps_children s). ch_id c \<noteq> i) \<Longrightarrow> mstep M careful m s s'"
| step_remove: "removeModel i s = Inr s' \<Longrightarrow> mstep M careful m s s'"
| step_data: "child_data parse M pid data s = (es, s') \<Longrightarrow> mstep M careful m s s'"
| step_close: "child_close pid code s = (es, s') \<Longrightarrow> mstep M careful m s s'"

inductive_cases mstepE: "mstep M careful m s s'"

inductive mreach :: "'m moment \<Rightarrow> bool \<Rightarrow> rat \<Rightarrow> 'l psv \<Rightarrow> bool" for M careful m where
  reach_start: "mreach M careful m new_service"
| reach_step: "mreach M careful m s \<Longrightarrow> mstep M careful m s s' \<Longrightarrow> mreach M careful m s'"

definition minv :: "bool \<Rightarrow> rat \<Rightarrow> 'l psv \<Rightarrow> bool" where
  "minv careful m s =
     (om_ok (ps_map s) \<and> of_nat (length (ps_map s)) < m + 1 \<and>
      distinct (map ch_pid (ps_children s)) \<and> (\<forall>c\<in>set (ps_children s). ch_pid c < ps_next s) \<and>
      (\<forall>i pid. om_get (ps_map s) i = Some pid \<longrightarrow>
         (\<exists>c\<in>set (ps_children s). ch_pid c = pid \<and> ch_id c = i \<and> \<not> ch_killed c)) \<and>
      (careful \<longrightarrow> distinct (map ch_id (ps_children s)) \<and>
         (\<forall>c\<in>set (ps_children s). \<not> ch_killed c \<longrightarrow> om_get (ps_map s) (ch_id c) = Some (ch_pid c))))"

lemma find_child_Some: "find_child pid s = Some c \<Longrightarrow> c \<in> set (ps_children s) \<and> ch_pid c = pid"
  by (auto simp: find_child_def find_Some_iff)

lemma minv_entry:
  "minv careful m s \<Longrightarrow> om_get (ps_map s) i = Some pid \<Longrightarrow>
     \<exists>c\<in>set (ps_children s). ch_pid c = pid \<and> ch_id c = i \<and> \<not> ch_killed c"
  unfolding minv_def by blast

lemma minv_pid: "minv careful m s \<Longrightarrow> c \<in> set (ps_children s) \<Longrightarrow> c' \<in> set (ps_children s) \<Longrightarrow>
    ch_pid c = ch_pid c' \<Longrightarrow> c = c'"
  by (auto simp: minv_def distinct_map inj_on_def)

lemma minv_careful: "minv careful m s \<Longrightarrow> careful \<Longrightarrow> c \<in> set (ps_children s) \<Longrightarrow> \<not> ch_killed c \<Longrightarrow>
    om_get (ps_map s) (ch_id c) = Some (ch_pid c)"
  unfolding minv_def by blast

lemma minv_id: "minv careful m s \<Longrightarrow> careful \<Longrightarrow> c \<in> set (ps_children s) \<Longrightarrow> c' \<in> set (ps_children s) \<Longrightarrow>
    ch_id c = ch_id c' \<Longrightarrow> c = c'"
  unfolding minv_def distinct_map inj_on_def by blast

lemma minvI:
  assumes "om_ok (ps_map s)" and "of_nat (length (ps_map s)) < m + 1" and "distinct (map ch_pid (ps_children s))"
    and "\<And>c. c \<in> set (ps_children s) \<Longrightarrow> ch_pid c < ps_next s"
    and "\<And>i pid. om_get (ps_map s) i = Some pid \<Longrightarrow> \<exists>c\<in>set (ps_children s). ch_pid c = pid \<and> ch_id c = i \<and> \<not> ch_killed c"
    and "careful \<Longrightarrow> distinct (map ch_id (ps_children s))"
    and "\<And>c. careful \<Longrightarrow> c \<in> set (ps_children s) \<Longrightarrow> \<not> ch_killed c \<Longrightarrow> om_get (ps_map s) (ch_id c) = Some (ch_pid c)"
  shows "minv careful m s"
  using assms unfolding minv_def by blast

lemma minvD:
  assumes "minv careful m s"
  shows "om_ok (ps_map s)" and "of_nat (length (ps_map s)) < m + 1" and "distinct (map ch_pid (ps_children s))"
    and "c \<in> set (ps_children s) \<Longrightarrow> ch_pid c < ps_next s" and "careful \<Longrightarrow> distinct (map ch_id (ps_children s))"
  using assms unfolding minv_def by blast+

lemma minv_create:
  assumes "minv careful m s" and "createModel m i s = Inr s'"
    and "careful \<longrightarrow> (\<forall>c\<in>set (ps_children s). ch_id c \<noteq> i)"
  shows "minv careful m s'"
proof -
  have new: "\<not> om_has (ps_map s) i" "of_nat (length (ps_map s)) < m" and s': "s' = spawn i s"
    using assms(2) by (auto simp: createModel_def availableSlots_def split: if_splits)
  have "\<exists>c\<in>set (ps_children s'). ch_pid c = pid \<and> ch_id c = j \<and> \<not> ch_killed c"
    if "om_get (ps_map s') j = Some pid" for j pid
    using that minv_entry [OF assms(1), of j pid] by (auto simp: s' spawn_def om_get_set split: if_splits)
  moreover have "length (ps_map s') = Suc (length (ps_map s))" using new(1) by (simp add: s' length_om_set)
  moreover have "om_get (ps_map s') (ch_id c) = Some (ch_pid c)"
    if "careful" "c \<in> set (ps_children s')" "\<not> ch_killed c" for c
    using that assms(3) minv_careful [OF assms(1), of c] by (auto simp: s' spawn_def om_get_set)
  moreover have "ch_pid c < ps_next s'" if "c \<in> set (ps_children s')" for c
    using that minvD(4) [OF assms(1)] by (fastforce simp: s' spawn_def)
  moreover have "distinct (map ch_pid (ps_children s'))"
    using minvD(3,4) [OF assms(1)] by (fastforce simp: s' spawn_def)
  moreover have "careful \<Longrightarrow> distinct (map ch_id (ps_children s'))"
    using minvD(5) [OF assms(1)] assms(3) by (auto simp: s' spawn_def)
  moreover have "om_ok (ps_map s')" using minvD(1) [OF assms(1)] by (simp add: s')
  moreover have "of_nat (length (ps_map s')) < m + 1" using new(2) calculation(2) by simp
  ultimately show ?thesis by (intro minvI)
qed

lemma minv_remove:
  assumes "minv careful m s" and "removeModel i s = Inr s'"
  shows "minv careful m s'"
proof -
  obtain pid where pid: "om_get (ps_map s) i = Some pid" and s': "s' = stop_entry i pid s"
    using assms(2) by (auto simp: removeModel_def split: option.splits)
  have children: "ps_children s' = map (\<lambda>c. if ch_pid c = pid then c\<lparr>ch_killed := True\<rparr> else c) (ps_children s)"
    by (simp add: s' stop_entry_def removeAllListeners_def kill_def)
  have keep: "map ch_pid (ps_children s') = map ch_pid (ps_children s)" "map ch_id (ps_children s') = map ch_id (ps_children s)"
    by (auto simp: children)
  have "\<exists>c\<in>set (ps_children s'). ch_pid c = q \<and> ch_id c = j \<and> \<not> ch_killed c"
    if j: "om_get (ps_map s') j = Some q" for j q
  proof -
    have "j \<noteq> i" "om_get (ps_map s) j = Some q" using j by (auto simp: s' om_get_delete split: if_splits)
    then obtain c where c: "c \<in> set (ps_children s)" "ch_pid c = q" "ch_id c = j" "\<not> ch_killed c"
      using minv_entry [OF assms(1)] by blast
    have "q \<noteq> pid"
    proof
      assume "q = pid"
      with minv_entry [OF assms(1) pid] obtain c' where "c' \<in> set (ps_children s)" "ch_pid c' = q" "ch_id c' = i" by blast
      then show False using c minv_pid [OF assms(1)] \<open>j \<noteq> i\<close> by metis
    qed
    with c show ?thesis by (auto simp: children image_iff intro!: bexI [of _ c])
  qed
  moreover have "om_get (ps_map s') (ch_id c) = Some (ch_pid c)"
    if "careful" "c \<in> set (ps_children s')" "\<not> ch_killed c" for c
  proof -
    from that(2) obtain x where x: "x \<in> set (ps_children s)" "c = (if ch_pid x = pid then x\<lparr>ch_killed := True\<rparr> else x)"
      unfolding children set_map by blast
    then have c: "c \<in> set (ps_children s)" "ch_pid c \<noteq> pid" using that(3) by (cases "ch_pid x = pid"; simp)+
    then have "om_get (ps_map s) (ch_id c) = Some (ch_pid c)" using minv_careful [OF assms(1) that(1) _ that(3)] by blast
    moreover from this c(2) pid have "ch_id c \<noteq> i" by auto
    ultimately show ?thesis by (simp add: s' om_get_delete)
  qed
  moreover have "length (ps_map s') \<le> length (ps_map s)" by (simp add: s' length_delete_le)
  then have "of_nat (length (ps_map s')) < m + 1" using minvD(2) [OF assms(1)] by (meson le_less_trans of_nat_mono)
  moreover have "ps_next s' = ps_next s" by (simp add: s' stop_entry_def removeAllListeners_def kill_def)
  then have "ch_pid c < ps_next s'" if "c \<in> set (ps_children s')" for c
    using that minvD(4) [OF assms(1)] by (auto simp: children split: if_splits)
  moreover have "om_ok (ps_map s')" using minvD(1) [OF assms(1)] by (simp add: s')
  moreover have "distinct (map ch_pid (ps_children s'))" unfolding keep by (rule minvD(3) [OF assms(1)])
  moreover have "careful \<Longrightarrow> distinct (map ch_id (ps_children s'))" unfolding keep by (rule minvD(5) [OF assms(1)])
  ultimately show ?thesis by (intro minvI)
qed

lemma minv_data:
  assumes "minv careful m s" and "child_data parse M pid data s = (es, s')"
  shows "minv careful m s'"
proof -
  obtain i where "s' = s \<or> s' = s\<lparr>ps_children := map (\<lambda>c. if ch_pid c = pid then c\<lparr>ch_index := i\<rparr> else c) (ps_children s)\<rparr>"
    using assms(2) by (auto simp: child_data_def split: option.splits prod.splits)
  then show ?thesis
  proof
    define f where "f = (\<lambda>c :: child. if ch_pid c = pid then c\<lparr>ch_index := i\<rparr> else c)"
    assume "s' = s\<lparr>ps_children := map (\<lambda>c. if ch_pid c = pid then c\<lparr>ch_index := i\<rparr> else c) (ps_children s)\<rparr>"
    then have s': "s' = s\<lparr>ps_children := map f (ps_children s)\<rparr>" by (simp add: f_def)
    have f: "ch_pid (f c) = ch_pid c" "ch_id (f c) = ch_id c" "ch_killed (f c) = ch_killed c" for c
      by (simp_all add: f_def)
    have "\<exists>c\<in>set (ps_children s'). ch_pid c = q \<and> ch_id c = j \<and> \<not> ch_killed c"
      if "om_get (ps_map s') j = Some q" for q j
      using minv_entry [OF assms(1), of j q] that f by (auto simp: s')
    moreover have "om_get (ps_map s') (ch_id c) = Some (ch_pid c)"
      if "careful" "c \<in> set (ps_children s')" "\<not> ch_killed c" for c
    proof -
      from that(2) obtain x where x: "x \<in> set (ps_children s)" "c = f x" by (auto simp: s')
      then have "\<not> ch_killed x" using that(3) f by simp
      from minv_careful [OF assms(1) that(1) x(1) this] show ?thesis using x f by (simp add: s')
    qed
    ultimately show ?thesis
      using minvD [OF assms(1)] f by (intro minvI) (auto simp: s' comp_def)
  qed (use assms(1) in simp)
qed

lemma minv_close:
  assumes "minv careful m s" and "child_close pid code s = (es, s')"
  shows "minv careful m s'"
proof (cases "find_child pid s")
  case None
  with assms show ?thesis by (simp add: child_close_def)
next
  case (Some c)
  then have c: "c \<in> set (ps_children s)" "ch_pid c = pid" by (auto dest: find_child_Some)
  have s': "s' = s\<lparr>ps_children := filter (\<lambda>c. ch_pid c \<noteq> pid) (ps_children s), ps_map := om_delete (ch_id c) (ps_map s)\<rparr>"
    using assms(2) Some by (simp add: child_close_def)
  have "\<exists>b\<in>set (ps_children s'). ch_pid b = q \<and> ch_id b = j \<and> \<not> ch_killed b"
    if j: "om_get (ps_map s') j = Some q" for j q
  proof -
    have "j \<noteq> ch_id c" "om_get (ps_map s) j = Some q" using j by (auto simp: s' om_get_delete split: if_splits)
    then obtain b where b: "b \<in> set (ps_children s)" "ch_pid b = q" "ch_id b = j" "\<not> ch_killed b"
      using minv_entry [OF assms(1)] by blast
    then have "q \<noteq> pid" using c minv_pid [OF assms(1)] \<open>j \<noteq> ch_id c\<close> by metis
    with b show ?thesis by (auto simp: s')
  qed
  moreover have "om_get (ps_map s') (ch_id b) = Some (ch_pid b)"
    if "careful" "b \<in> set (ps_children s')" "\<not> ch_killed b" for b
  proof -
    have b: "b \<in> set (ps_children s)" "b \<noteq> c" using that(2) c by (auto simp: s')
    then have "ch_id b \<noteq> ch_id c" "om_get (ps_map s) (ch_id b) = Some (ch_pid b)"
      using minv_id [OF assms(1) that(1) b(1) c(1)] minv_careful [OF assms(1) that(1) b(1) that(3)] b(2) by blast+
    then show ?thesis by (simp add: s' om_get_delete)
  qed
  moreover have "length (ps_map s') \<le> length (ps_map s)" by (simp add: s' length_delete_le)
  then have "of_nat (length (ps_map s')) < m + 1" using minvD(2) [OF assms(1)] by (meson le_less_trans of_nat_mono)
  moreover have "distinct (map ch_pid (ps_children s'))" "careful \<Longrightarrow> distinct (map ch_id (ps_children s'))"
    using minvD(3,5) [OF assms(1)] by (auto simp: s' distinct_map_filter)
  moreover have "om_ok (ps_map s')" using minvD(1) [OF assms(1)] by (simp add: s')
  moreover have "ch_pid b < ps_next s'" if "b \<in> set (ps_children s')" for b
    using that minvD(4) [OF assms(1)] by (auto simp: s')
  ultimately show ?thesis by (intro minvI)
qed

lemma mreach_minv: "mreach M careful m s \<Longrightarrow> 0 \<le> m \<Longrightarrow> minv careful m s"
proof (induction rule: mreach.induct)
  case reach_start
  then show ?case by (simp add: minv_def new_service_def)
next
  case (reach_step s s')
  from reach_step(2) reach_step(3) [OF reach_step(4)] show ?case
    by (cases rule: mstep.cases) (auto intro: minv_create minv_remove minv_data minv_close)
qed
section \<open>Lines of output\<close>

lemma split_lines_nonempty [simp]: "split_lines s \<noteq> []"
  by (induction s) (auto split: list.split)

lemma split_lines_append:
  "CHR 0x0A \<notin> set l \<Longrightarrow> split_lines (l @ CHR 0x0A # s) = l # split_lines s"
  by (induction l) auto

lemma split_lines_complete:
  "\<forall>l\<in>set ls. CHR 0x0A \<notin> set l \<Longrightarrow> split_lines (concat (map (\<lambda>l. l @ [CHR 0x0A]) ls)) = ls @ [[]]"
  by (induction ls) (auto simp: split_lines_append)

lemma data_lines_complete:
  "\<forall>l\<in>set ls. l \<noteq> [] \<and> parse l \<noteq> None \<Longrightarrow>
     data_lines parse M modelId index (ls @ [[]]) =
       (map (\<lambda>(i, l). (modelId, ModelDataEvent i (model_data M (the (parse l))))) (List.enumerate index ls),
        index + length ls)"
  by (induction ls arbitrary: index) auto

section \<open>Properties\<close>

lemma concurrency_bounds:
  "0 \<le> calculateMaxConcurrency cpus totalmem" "calculateMaxConcurrency cpus totalmem \<le> of_nat (max (cpus - 1) 2)"
proof -
  have "of_int (int cpus - 1) \<le> (of_nat (cpus - 1) :: rat)" by (cases cpus) auto
  then show "calculateMaxConcurrency cpus totalmem \<le> of_nat (max (cpus - 1) 2)"
    by (auto simp: calculateMaxConcurrency_def of_nat_max min_def max_def)
qed (auto simp: calculateMaxConcurrency_def)

lemma listed_entry: "i \<in> set (getModels s) \<longleftrightarrow> (\<exists>pid. om_get (ps_map s) i = Some pid)"
  unfolding getModels_def om_has_iff_key [symmetric] om_has_def by auto

text \<open>C6: whatever requests are made and whatever the child processes do, the listed models are
  distinct, at most \<open>cpus - 1\<close> of them (or 2 if that is more), and behind each one runs its own process,
  alive and not killed.\<close>

theorem models_alive:
  assumes "mreach M careful (calculateMaxConcurrency cpus totalmem) s"
  shows "distinct (getModels s) \<and> length (getModels s) \<le> max (cpus - 1) 2 \<and>
    (\<forall>i\<in>set (getModels s). \<exists>c\<in>set (ps_children s).
       om_get (ps_map s) i = Some (ch_pid c) \<and> ch_id c = i \<and> \<not> ch_killed c)"
proof -
  have inv: "minv careful (calculateMaxConcurrency cpus totalmem) s"
    using mreach_minv [OF assms] concurrency_bounds(1) by blast
  have "of_nat (length (ps_map s)) < of_nat (max (cpus - 1) 2) + (1 :: rat)"
    using minvD(2) [OF inv] concurrency_bounds(2) [of cpus totalmem] by linarith
  then have "length (ps_map s) < max (cpus - 1) 2 + 1"
    by (metis of_nat_1 of_nat_add of_nat_less_iff)
  moreover have "\<exists>c\<in>set (ps_children s). om_get (ps_map s) i = Some (ch_pid c) \<and> ch_id c = i \<and> \<not> ch_killed c"
    if i: "i \<in> set (getModels s)" for i
  proof -
    obtain pid where "om_get (ps_map s) i = Some pid"
      using i by (auto simp: listed_entry)
    with minv_entry [OF inv this] show ?thesis by auto
  qed
  moreover have "distinct (getModels s)" using minvD(1) [OF inv] by (simp add: getModels_def om_ok_def)
  ultimately show ?thesis by (auto simp: getModels_def)
qed

theorem models_alive_witness:
  "length (getModels (spawn ''a'' (new_service :: unit psv))) \<le> 3"
proof -
  have "createModel (calculateMaxConcurrency 4 0) ''a'' (new_service :: unit psv) = Inr (spawn ''a'' new_service)"
    by (simp add: createModel_def availableSlots_def new_service_def calculateMaxConcurrency_def om_has_def)
  then have "mstep no_moment False (calculateMaxConcurrency 4 0) new_service (spawn ''a'' (new_service :: unit psv))"
    by (rule step_create) simp
  from reach_step [OF reach_start this]
  have "mreach no_moment False (calculateMaxConcurrency 4 0) (spawn ''a'' (new_service :: unit psv))" .
  from models_alive [OF this] show ?thesis by simp
qed

text \<open>as long as no id is created again before its killed process has ended, the processes
  that run unkilled are exactly the listed models, so they too are at most \<open>cpus - 1\<close> (or 2).\<close>

theorem careful_processes_listed:
  assumes "mreach M True (calculateMaxConcurrency cpus totalmem) s"
  shows "set (map ch_id (filter (\<lambda>c. \<not> ch_killed c) (ps_children s))) = set (getModels s) \<and>
    length (filter (\<lambda>c. \<not> ch_killed c) (ps_children s)) \<le> max (cpus - 1) 2"
proof -
  let ?run = "filter (\<lambda>c. \<not> ch_killed c) (ps_children s)"
  have inv: "minv True (calculateMaxConcurrency cpus totalmem) s"
    using mreach_minv [OF assms] concurrency_bounds(1) by blast
  have "ch_id c \<in> set (getModels s)" if "c \<in> set ?run" for c
    using minv_careful [OF inv TrueI, of c] that by (auto simp: listed_entry)
  moreover have "i \<in> set (map ch_id ?run)" if i: "i \<in> set (getModels s)" for i
  proof -
    obtain pid where "om_get (ps_map s) i = Some pid"
      using i by (auto simp: listed_entry)
    with minv_entry [OF inv this] show ?thesis by auto
  qed
  ultimately have eq: "set (map ch_id ?run) = set (getModels s)" by auto
  have "distinct (map ch_id ?run)" using minvD(5) [OF inv] by (simp add: distinct_map_filter)
  then have "length ?run = card (set (getModels s))"
    using eq distinct_card by (metis length_map)
  also have "\<dots> \<le> length (ps_map s)" using card_length [of "getModels s"] by (simp add: getModels_def)
  finally have le: "length ?run \<le> length (ps_map s)" .
  have "of_nat (length (ps_map s)) < of_nat (max (cpus - 1) 2) + (1 :: rat)"
    using minvD(2) [OF inv] concurrency_bounds(2) [of cpus totalmem] by linarith
  then have "length (ps_map s) < max (cpus - 1) 2 + 1"
    by (metis of_nat_1 of_nat_add of_nat_less_iff)
  with le eq show ?thesis by simp
qed

theorem careful_processes_listed_witness:
  "set (map ch_id (filter (\<lambda>c. \<not> ch_killed c) (ps_children (spawn ''a'' (new_service :: unit psv))))) = {''a''}"
proof -
  have "createModel (calculateMaxConcurrency 4 0) ''a'' (new_service :: unit psv) = Inr (spawn ''a'' new_service)"
    by (simp add: createModel_def availableSlots_def new_service_def calculateMaxConcurrency_def om_has_def)
  then have "mstep no_moment True (calculateMaxConcurrency 4 0) new_service (spawn ''a'' (new_service :: unit psv))"
    by (rule step_create) (simp add: new_service_def)
  from reach_step [OF reach_start this]
  have "mreach no_moment True (calculateMaxConcurrency 4 0) (spawn ''a'' (new_service :: unit psv))" .
  from careful_processes_listed [OF this] show ?thesis by (simp add: getModels_def spawn_def new_service_def)
qed

lemma find_append: "find P xs = None \<Longrightarrow> find P (xs @ ys) = find P ys"
  by (induction xs) (auto split: if_splits)

text \<open>C22: without that care the service loses processes: stopping a model and creating it again before the
  old process has closed lets the late \<open>close\<close> event delete the entry of the new process. By
  repetition, for every \<open>n\<close> a state is reachable in which no model is listed while at least \<open>n\<close>
  processes run that nobody has killed.\<close>

theorem models_leak:
  assumes "0 < m"
  shows "\<exists>s :: 'l psv. mreach M False m s \<and> getModels s = [] \<and>
    n \<le> length (filter (\<lambda>c. \<not> ch_killed c) (ps_children s))"
proof (induction n)
  case 0
  show ?case
    by (intro exI [of _ new_service] conjI, rule reach_start) (simp_all add: getModels_def new_service_def)
next
  case (Suc n)
  then obtain s :: "'l psv" where s: "mreach M False m s" "ps_map s = []"
    "n \<le> length (filter (\<lambda>c. \<not> ch_killed c) (ps_children s))" by (auto simp: getModels_def)
  have fresh: "\<And>c. c \<in> set (ps_children s) \<Longrightarrow> ch_pid c < ps_next s"
    using minvD(4) [OF mreach_minv [OF s(1)]] assms by simp
  define p where "p = ps_next s"
  let ?i = "''a''"
  have 1: "mreach M False m (spawn ?i s)"
    using s(1,2) assms by (intro reach_step [OF s(1) step_create [of m ?i s]])
      (simp_all add: createModel_def availableSlots_def om_has_def)
  have 2: "mreach M False m (stop_entry ?i p (spawn ?i s))"
    by (intro reach_step [OF 1 step_remove [of ?i]]) (simp add: removeModel_def om_get_set p_def)
  have 3: "mreach M False m (spawn ?i (stop_entry ?i p (spawn ?i s)))"
    using s(2) assms by (intro reach_step [OF 2 step_create [of m ?i]])
      (simp_all add: createModel_def availableSlots_def om_has_def)
  let ?s = "spawn ?i (stop_entry ?i p (spawn ?i s))"
  have keep: "map (\<lambda>c. if ch_pid c = p then c\<lparr>ch_killed := True\<rparr> else c) (ps_children s) = ps_children s"
    using fresh by (force simp: p_def intro: map_idI)
  have kids: "ps_children ?s = ps_children s @ [\<lparr>ch_pid = p, ch_id = ?i, ch_index = 0, ch_killed = True\<rparr>,
       \<lparr>ch_pid = p + 1, ch_id = ?i, ch_index = 0, ch_killed = False\<rparr>]"
    using keep by (simp add: spawn_def stop_entry_def removeAllListeners_def kill_def p_def)
  have "find_child p ?s = Some \<lparr>ch_pid = p, ch_id = ?i, ch_index = 0, ch_killed = True\<rparr>"
    using fresh unfolding find_child_def kids by (subst find_append) (auto simp: find_None_iff p_def dest!: fresh)
  then have close: "child_close p 0 ?s = ([(?i, CloseEvent 0)],
      ?s\<lparr>ps_children := filter (\<lambda>c. ch_pid c \<noteq> p) (ps_children ?s), ps_map := om_delete ?i (ps_map ?s)\<rparr>)"
    by (simp add: child_close_def)
  let ?t = "?s\<lparr>ps_children := filter (\<lambda>c. ch_pid c \<noteq> p) (ps_children ?s), ps_map := om_delete ?i (ps_map ?s)\<rparr>"
  have "mreach M False m ?t" by (rule reach_step [OF 3 step_close [OF close]])
  moreover have "getModels ?t = []" using s(2) by (simp add: getModels_def)
  moreover have "filter (\<lambda>c. ch_pid c \<noteq> p) (ps_children s) = ps_children s"
    using fresh by (force simp: p_def intro: filter_True)
  then have "length (filter (\<lambda>c. \<not> ch_killed c) (ps_children ?t)) = Suc (length (filter (\<lambda>c. \<not> ch_killed c) (ps_children s)))"
    by (simp add: kids del: filter_filter)
  ultimately show ?case using s(3) by (intro exI [of _ ?t]) simp
qed

theorem models_leak_witness:
  "\<exists>s :: unit psv. getModels s = [] \<and> 5 \<le> length (filter (\<lambda>c. \<not> ch_killed c) (ps_children s))"
  using models_leak [where m = 2 and n = 5 and M = no_moment] by auto

text \<open>creating and removing report errors without a change: a full service refuses with
  \<open>MaximumConcurrencyError\<close>, even an id it runs; with a free slot an id it runs is a
  \<open>DuplicateIDError\<close> and another id is added at the end of the list; removing it again restores the list,
  and removing it twice is a \<open>ModelNotFoundError\<close>.\<close>

theorem createModel_removeModel:
  "(availableSlots m s \<le> 0 \<longrightarrow> createModel m i s = Inl MaximumConcurrencyError) \<and>
   (0 < availableSlots m s \<and> i \<in> set (getModels s) \<longrightarrow> createModel m i s = Inl DuplicateIDError) \<and>
   (0 < availableSlots m s \<and> i \<notin> set (getModels s) \<longrightarrow>
      (\<exists>s1 s2. createModel m i s = Inr s1 \<and> getModels s1 = getModels s @ [i] \<and>
         removeModel i s1 = Inr s2 \<and> getModels s2 = getModels s \<and> removeModel i s2 = Inl ModelNotFoundError))"
proof -
  have new: "createModel m i s = Inr (spawn i s)" if "0 < availableSlots m s" "i \<notin> set (getModels s)"
    using that by (simp add: createModel_def getModels_def om_has_iff_key)
  have "createModel m i s = Inl DuplicateIDError" if "0 < availableSlots m s" "i \<in> set (getModels s)"
    using that by (simp add: createModel_def getModels_def om_has_iff_key)
  moreover have "\<exists>s1 s2. createModel m i s = Inr s1 \<and> getModels s1 = getModels s @ [i] \<and>
         removeModel i s1 = Inr s2 \<and> getModels s2 = getModels s \<and> removeModel i s2 = Inl ModelNotFoundError"
    if free: "0 < availableSlots m s" "i \<notin> set (getModels s)"
  proof -
    obtain s2 where s2: "removeModel i (spawn i s) = Inr s2" "getModels s2 = getModels s"
      using models.create_remove [OF new [OF free]] by blast
    have "om_get (ps_map s2) i = None" using free(2) s2(2) listed_entry [of i s2] by auto
    then have "removeModel i s2 = Inl ModelNotFoundError" by (simp add: removeModel_def)
    with s2 new [OF free] models.create_running [OF new [OF free]] show ?thesis by blast
  qed
  ultimately show ?thesis by (simp add: createModel_def)
qed

theorem createModel_removeModel_witness:
  "\<exists>s1. createModel 2 ''a'' (new_service :: unit psv) = Inr s1 \<and> getModels s1 = [''a'']"
proof -
  have "0 < availableSlots 2 (new_service :: unit psv)" "''a'' \<notin> set (getModels (new_service :: unit psv))"
    "getModels (new_service :: unit psv) = []"
    by (simp_all add: availableSlots_def getModels_def new_service_def)
  with createModel_removeModel [of 2 "new_service :: unit psv" "''a''"] show ?thesis by auto
qed

text \<open>a chunk of complete result lines makes one data event per line, in order, with
  consecutive record indices that continue where the last chunk of that process stopped.\<close>

theorem child_data_indices:
  assumes "find_child pid s = Some c"
    and "\<forall>l\<in>set ls. l \<noteq> [] \<and> CHR 0x0A \<notin> set l \<and> parse l \<noteq> None"
  shows "\<exists>s'. child_data parse M pid (concat (map (\<lambda>l. l @ [CHR 0x0A]) ls)) s =
      (map (\<lambda>(i, l). (ch_id c, ModelDataEvent i (model_data M (the (parse l))))) (List.enumerate (ch_index c) ls), s')
    \<and> find_child pid s' = Some (c\<lparr>ch_index := ch_index c + length ls\<rparr>)"
proof -
  have find: "find (\<lambda>c. ch_pid c = pid) (map (\<lambda>c. if ch_pid c = pid then c\<lparr>ch_index := k\<rparr> else c) cs)
      = map_option (\<lambda>c. c\<lparr>ch_index := k\<rparr>) (find (\<lambda>c. ch_pid c = pid) cs)" for k and cs :: "child list"
    by (induction cs) auto
  have "split_lines (concat (map (\<lambda>l. l @ [CHR 0x0A]) ls)) = ls @ [[]]"
    using assms(2) by (intro split_lines_complete) auto
  moreover have "data_lines parse M (ch_id c) (ch_index c) (ls @ [[]]) =
       (map (\<lambda>(i, l). (ch_id c, ModelDataEvent i (model_data M (the (parse l))))) (List.enumerate (ch_index c) ls),
        ch_index c + length ls)"
    using assms(2) by (intro data_lines_complete) auto
  ultimately show ?thesis
    using assms(1) find by (simp add: child_data_def find_child_def)
qed

theorem child_data_indices_witness:
  "\<exists>s'. child_data (\<lambda>l. Some (l, JNull, JNull)) no_moment 0 [CHR ''x'', CHR 0x0A] (spawn ''a'' (new_service :: unit psv))
     = ([(''a'', ModelDataEvent 0 (model_data no_moment (''x'', JNull, JNull)))], s')"
proof -
  have "find_child 0 (spawn ''a'' (new_service :: unit psv)) = Some \<lparr>ch_pid = 0, ch_id = ''a'', ch_index = 0, ch_killed = False\<rparr>"
    by (simp add: find_child_def spawn_def new_service_def)
  from child_data_indices [OF this, of "[''x'']" "\<lambda>l. Some (l, JNull, JNull)" no_moment] show ?thesis by auto
qed

end
