(* ===== verification/Param_Finder_Service.thy ===== *)
theory Param_Finder_Service
  imports Process_Service
begin

text \<open>
  The service that runs one parameter finder process per metric,
  \<open>app/main/ParamFinderService.js\<close>. It keeps the contract of \<open>Process_Service\<close>; its second
  guard can never fire.
\<close>

definition finder_availableSlots :: "string \<Rightarrow> 'l psv \<Rightarrow> int" where
  "finder_availableSlots metricId s = (if om_has (ps_map s) metricId then 0 else 1)"

definition finder_params :: "jsval \<Rightarrow> jsval list" where
  "finder_params inputOpt =
     [JStr ''-E'', JStr ''-m'', JStr ''unicorn_backend.param_finder_runner'', JStr ''--input'', stringify inputOpt]"

definition createParamFinder :: "string \<Rightarrow> 'l psv \<Rightarrow> service_error + 'l psv" where
  "createParamFinder metricId s =
     (if finder_availableSlots metricId s \<le> 0 then Inl MaximumConcurrencyError
      else if om_has (ps_map s) metricId then Inl DuplicateIDError
      else Inr (spawn metricId s))"

definition getParamFinders :: "'l psv \<Rightarrow> string list" where
  "getParamFinders s = om_keys (ps_map s)"

definition removeParamFinder :: "string \<Rightarrow> 'l psv \<Rightarrow> service_error + 'l psv" where
  "removeParamFinder metricId s = (case om_get (ps_map s) metricId of
       None \<Rightarrow> Inl ParamFinderNotFoundError
     | Some pid \<Rightarrow> Inr (stop_entry metricId pid s))"

text \<open>Data on \<open>stdout\<close> is passed on as it comes.\<close>

definition finder_data :: "nat \<Rightarrow> string \<Rightarrow> 'l psv \<Rightarrow> (string \<times> event) list" where
  "finder_data pid data s = (case find_child pid s of None \<Rightarrow> [] | Some c \<Rightarrow> [(ch_id c, ParamDataEvent data)])"

interpretation finders: process_service createParamFinder removeParamFinder getParamFinders "\<lambda>s. om_ok (ps_map s)"
proof
  fix s s' :: "'a psv" and i
  assume "createParamFinder i s = Inr s'"
  then show "getParamFinders s' = getParamFinders s @ [i] \<and> i \<notin> set (getParamFinders s)"
    by (auto simp: createParamFinder_def getParamFinders_def om_set_absent om_has_iff_key split: if_splits)
next
  fix s s' :: "'a psv" and i
  assume "removeParamFinder i s = Inr s'"
  then show "getParamFinders s' = filter (\<lambda>j. j \<noteq> i) (getParamFinders s)"
    by (auto simp: removeParamFinder_def getParamFinders_def delete_keys removeAll_filter_not_eq eq_commute
        split: option.splits)
qed (auto simp: createParamFinder_def removeParamFinder_def getParamFinders_def om_has_def map_of_eq_None_iff
      om_ok_def [symmetric] split: if_splits option.splits)

lemma finder_listed: "i \<in> set (getParamFinders s) \<longleftrightarrow> om_has (ps_map s) i"
  by (simp add: getParamFinders_def om_has_iff_key)

text \<open>a metric has at most one parameter finder: while one is listed, creating another is refused with
  \<open>MaximumConcurrencyError\<close>, never with \<open>DuplicateIDError\<close>; otherwise it starts and is listed last;
  removing it restores the list, and removing it again is an error. Any sequence of
  requests keeps the listed metrics distinct.\<close>

theorem param_finder_contract:
  fixes s :: "'l psv"
  shows "createParamFinder i s \<noteq> Inl DuplicateIDError \<and>
   (i \<in> set (getParamFinders s) \<longrightarrow> createParamFinder i s = Inl MaximumConcurrencyError) \<and>
   (i \<notin> set (getParamFinders s) \<longrightarrow>
      (\<exists>s1 s2. createParamFinder i s = Inr s1 \<and> getParamFinders s1 = getParamFinders s @ [i] \<and>
         removeParamFinder i s1 = Inr s2 \<and> getParamFinders s2 = getParamFinders s
         \<and> removeParamFinder i s2 = Inl ParamFinderNotFoundError)) \<and>
   distinct (getParamFinders (finders.requests rs (new_service :: 'l psv)))"
proof -
  have "distinct (getParamFinders (finders.requests rs (new_service :: 'l psv)))"
    by (rule finders.requests_distinct) (simp add: new_service_def)
  moreover have "\<exists>s1 s2. createParamFinder i s = Inr s1 \<and> getParamFinders s1 = getParamFinders s @ [i] \<and>
         removeParamFinder i s1 = Inr s2 \<and> getParamFinders s2 = getParamFinders s
         \<and> removeParamFinder i s2 = Inl ParamFinderNotFoundError" if free: "i \<notin> set (getParamFinders s)"
  proof -
    have s1: "createParamFinder i s = Inr (spawn i s)"
      using free by (simp add: finder_listed createParamFinder_def finder_availableSlots_def)
    obtain s2 where s2: "removeParamFinder i (spawn i s) = Inr s2" "getParamFinders s2 = getParamFinders s"
      using finders.create_remove [OF s1] by blast
    have "om_get (ps_map s2) i = None" using free s2(2) finder_listed [of i s2] by (auto simp: om_has_def)
    with s1 s2 finders.create_running [OF s1] show ?thesis by (auto simp: removeParamFinder_def)
  qed
  ultimately show ?thesis
    by (auto simp: finder_listed createParamFinder_def finder_availableSlots_def)
qed

theorem param_finder_contract_witness:
  "\<exists>s1. createParamFinder ''a'' (new_service :: unit psv) = Inr s1 \<and> getParamFinders s1 = [''a'']"
proof -
  have e: "getParamFinders (new_service :: unit psv) = []" by (simp add: getParamFinders_def new_service_def)
  have "\<exists>s1 s2. createParamFinder ''a'' (new_service :: unit psv) = Inr s1 \<and> getParamFinders s1 = getParamFinders (new_service :: unit psv) @ [''a'']"
    using param_finder_contract [of "''a''" "new_service :: unit psv"] unfolding e by auto
  then show ?thesis unfolding e by auto
qed

end
