(* ===== verification/Service_IPC.thy ===== *)
theory Service_IPC
  imports Model_Service Param_Finder_Service
begin

text \<open>
  The IPC layer between the services of the main process and the browser:
  \<open>app/main/ModelServiceIPC.js\<close>, \<open>app/main/ParamFinderServiceIPC.js\<close>, and the listener bookkeeping of
  \<open>handleModelEvents\<close> in \<open>app/main/index.js\<close>. Requests come in as commands, messages to the
  browser go out as a list. The lemmas show that every event of a service is delivered at most
  once.
\<close>

section \<open>State\<close>

text \<open>\<open>DataListener\<close> is the listener that \<open>handleModelEvents\<close> registers to save results,
  \<open>IpcListener\<close> the one that \<open>_attach\<close> registers to forward events.\<close>

datatype listener = DataListener | IpcListener

text \<open>\<open>ipc_active\<close> is the map \<open>activeModels\<close> of \<open>index.js\<close>; \<open>ipc_web\<close> says that the browser window is
  there.\<close>

record ipc =
  ipc_service :: "listener psv"
  ipc_attached :: "string list"
  ipc_active :: "string list"
  ipc_web :: bool

definition new_ipc :: ipc where
  "new_ipc = \<lparr>ipc_service = new_service, ipc_attached = [], ipc_active = [], ipc_web = True\<rparr>"

datatype command =
    CmdCreate "(jsval \<times> jsobj \<times> jsval) option"
  | CmdRemove
  | CmdList
  | CmdUnknown string

datatype ipc_message =
    CommandError string service_error command
  | ServiceError string string
  | Forward string event
  | NotifyNewModelResults string

section \<open>Listeners with the hooks of the main process\<close>

text \<open>\<open>newListener\<close> runs before a listener is added: the first listener of a model brings the
  data listener with it.\<close>

definition model_on :: "string \<Rightarrow> listener \<Rightarrow> ipc \<Rightarrow> ipc" where
  "model_on i l st =
     (let st = (if i \<in> set (ipc_active st) then st
                else st\<lparr>ipc_active := ipc_active st @ [i],
                        ipc_service := add_listener i DataListener (ipc_service st)\<rparr>)
      in st\<lparr>ipc_service := add_listener i l (ipc_service st)\<rparr>)"

text \<open>\<open>removeAllListeners\<close> runs \<open>removeListener\<close> for each listener; the hook of the first one
  drops the data listener and forgets the model.\<close>

definition model_removeAllListeners :: "string \<Rightarrow> ipc \<Rightarrow> ipc" where
  "model_removeAllListeners i st =
     st\<lparr>ipc_service := removeAllListeners i (ipc_service st),
        ipc_active := (if listeners_of i (ipc_service st) \<noteq> [] then removeAll i (ipc_active st) else ipc_active st)\<rparr>"

section \<open>Requests for models\<close>

definition model_attach :: "string \<Rightarrow> ipc \<Rightarrow> ipc" where
  "model_attach modelId st =
     (if modelId \<in> set (ipc_attached st) then st
      else model_on modelId IpcListener (st\<lparr>ipc_attached := ipc_attached st @ [modelId]\<rparr>))"

definition model_detach :: "string \<Rightarrow> ipc \<Rightarrow> ipc" where
  "model_detach modelId st =
     (if modelId \<in> set (ipc_attached st)
      then model_removeAllListeners modelId (st\<lparr>ipc_attached := removeAll modelId (ipc_attached st)\<rparr>)
      else st)"

text \<open>An error leaves the attachment as it was made.\<close>

definition model_onCreate :: "rat \<Rightarrow> string \<Rightarrow> ipc \<Rightarrow> service_error option \<times> ipc" where
  "model_onCreate maxc modelId st =
     (let st = model_attach modelId st
      in case createModel maxc modelId (ipc_service st) of
           Inl e \<Rightarrow> (Some e, st)
         | Inr s \<Rightarrow> (None, st\<lparr>ipc_service := s\<rparr>))"

definition model_onRemove :: "string \<Rightarrow> ipc \<Rightarrow> service_error option \<times> ipc" where
  "model_onRemove modelId st =
     (let st = model_detach modelId st
      in case removeModel modelId (ipc_service st) of
           Inl e \<Rightarrow> (Some e, st)
         | Inr s \<Rightarrow> (None, (model_removeAllListeners modelId st)\<lparr>ipc_service := s\<rparr>))"

definition model_onList :: "ipc \<Rightarrow> string list" where
  "model_onList st = getModels (ipc_service st)"

text \<open>The result: messages, the return value of the event, and the new state. Options that are
  not JSON (\<open>None\<close>) throw before anything is attached.\<close>

definition model_handleIPCEvent ::
    "rat \<Rightarrow> string \<Rightarrow> command \<Rightarrow> ipc \<Rightarrow> ipc_message list \<times> string list option \<times> ipc" where
  "model_handleIPCEvent maxc modelId command st =
     (let (err, ret, st') = (case command of
           CmdCreate None \<Rightarrow> (Some OptionsSyntaxError, None, st)
         | CmdCreate (Some opts) \<Rightarrow> (let (e, st1) = model_onCreate maxc modelId st in (e, None, st1))
         | CmdRemove \<Rightarrow> (let (e, st1) = model_onRemove modelId st in (e, None, st1))
         | CmdList \<Rightarrow> (None, Some (model_onList st), st)
         | CmdUnknown c \<Rightarrow> (Some (UnknownCommandError c), None, st))
      in ((case err of Some e \<Rightarrow> if ipc_web st' then [CommandError modelId e command] else [] | None \<Rightarrow> []), ret, st'))"

text \<open>The listener of \<open>_attach\<close>: results are not forwarded, the rest is.\<close>

definition forward_model_event :: "ipc \<Rightarrow> string \<Rightarrow> event \<Rightarrow> ipc_message list" where
  "forward_model_event st modelId ev =
     (if modelId \<notin> set (ipc_attached st) then []
      else if ipc_web st then
        (case ev of
           ErrorEvent payload \<Rightarrow> [ServiceError modelId payload]
         | ModelDataEvent index v \<Rightarrow> []
         | _ \<Rightarrow> [Forward modelId ev])
      else [])"

section \<open>Requests for parameter finders\<close>

text \<open>The same layer without hooks; here the options are parsed after attaching.\<close>

definition finder_attach :: "string \<Rightarrow> ipc \<Rightarrow> ipc" where
  "finder_attach metricId st =
     (if metricId \<in> set (ipc_attached st) then st
      else st\<lparr>ipc_attached := ipc_attached st @ [metricId],
              ipc_service := add_listener metricId IpcListener (ipc_service st)\<rparr>)"

definition finder_detach :: "string \<Rightarrow> ipc \<Rightarrow> ipc" where
  "finder_detach metricId st =
     (if metricId \<in> set (ipc_attached st)
      then st\<lparr>ipc_attached := removeAll metricId (ipc_attached st),
              ipc_service := removeAllListeners metricId (ipc_service st)\<rparr>
      else st)"

definition finder_onCreate :: "string \<Rightarrow> bool \<Rightarrow> ipc \<Rightarrow> service_error option \<times> ipc" where
  "finder_onCreate metricId params_parse st =
     (let st = finder_attach metricId st
      in if \<not> params_parse then (Some OptionsSyntaxError, st)
         else case createParamFinder metricId (ipc_service st) of
           Inl e \<Rightarrow> (Some e, st)
         | Inr s \<Rightarrow> (None, st\<lparr>ipc_service := s\<rparr>))"

definition finder_onRemove :: "string \<Rightarrow> ipc \<Rightarrow> service_error option \<times> ipc" where
  "finder_onRemove metricId st =
     (let st = finder_detach metricId st
      in case removeParamFinder metricId (ipc_service st) of
           Inl e \<Rightarrow> (Some e, st)
         | Inr s \<Rightarrow> (None, st\<lparr>ipc_service := s\<rparr>))"

definition finder_onList :: "ipc \<Rightarrow> string list" where
  "finder_onList st = getParamFinders (ipc_service st)"

definition finder_handleIPCEvent ::
    "string \<Rightarrow> command \<Rightarrow> ipc \<Rightarrow> ipc_message list \<times> string list option \<times> ipc" where
  "finder_handleIPCEvent metricId command st =
     (let (err, ret, st') = (case command of
           CmdCreate opts \<Rightarrow> (let (e, st1) = finder_onCreate metricId (opts \<noteq> None) st in (e, None, st1))
         | CmdRemove \<Rightarrow> (let (e, st1) = finder_onRemove metricId st in (e, None, st1))
         | CmdList \<Rightarrow> (None, Some (finder_onList st), st)
         | CmdUnknown c \<Rightarrow> (Some (UnknownCommandError c), None, st))
      in ((case err of Some e \<Rightarrow> if ipc_web st' then [CommandError metricId e command] else [] | None \<Rightarrow> []), ret, st'))"

definition forward_finder_event :: "ipc \<Rightarrow> string \<Rightarrow> event \<Rightarrow> ipc_message list" where
  "forward_finder_event st metricId ev =
     (if metricId \<notin> set (ipc_attached st) then []
      else if ipc_web st then
        (case ev of ErrorEvent payload \<Rightarrow> [ServiceError metricId payload] | _ \<Rightarrow> [Forward metricId ev])
      else [])"

section \<open>Listener invariants\<close>

lemma listeners_simps [simp]:
  "listeners_of j (add_listener i l s) = (if j = i then listeners_of j s @ [l] else listeners_of j s)"
  "listeners_of j (removeAllListeners i s) = (if j = i then [] else listeners_of j s)"
  "listeners_of j (spawn i s) = listeners_of j s"
  "listeners_of j (stop_entry i pid s) = (if j = i then [] else listeners_of j s)"
  by (auto simp: listeners_of_def add_listener_def removeAllListeners_def spawn_def stop_entry_def kill_def
      filter_filter cong: conj_cong intro!: arg_cong [of _ _ "map snd"] filter_cong)

text \<open>Attached models have the two listeners, in this order; the others have none. Every
  running model is attached.\<close>

definition ipc_inv :: "ipc \<Rightarrow> bool" where
  "ipc_inv st =
     (\<forall>i. listeners_of i (ipc_service st) = (if i \<in> set (ipc_attached st) then [DataListener, IpcListener] else [])
        \<and> (i \<in> set (ipc_active st) \<longleftrightarrow> i \<in> set (ipc_attached st))
        \<and> (i \<in> set (getModels (ipc_service st)) \<longrightarrow> i \<in> set (ipc_attached st)))"

lemma ipc_inv_attach: "ipc_inv st \<Longrightarrow> ipc_inv (model_attach i st) \<and> i \<in> set (ipc_attached (model_attach i st))"
  by (auto simp: ipc_inv_def model_attach_def model_on_def getModels_def Let_def)

lemma ipc_inv_detach:
  "ipc_inv st \<Longrightarrow> i \<notin> set (ipc_attached (model_detach i st)) \<and>
     (\<forall>j. listeners_of j (ipc_service (model_detach i st)) =
          (if j \<in> set (ipc_attached (model_detach i st)) then [DataListener, IpcListener] else [])
        \<and> (j \<in> set (ipc_active (model_detach i st)) \<longleftrightarrow> j \<in> set (ipc_attached (model_detach i st)))
        \<and> (j \<in> set (getModels (ipc_service (model_detach i st))) \<and> j \<noteq> i \<longrightarrow> j \<in> set (ipc_attached (model_detach i st))))"
  by (auto simp: ipc_inv_def model_detach_def model_removeAllListeners_def getModels_def)

lemma ipc_inv_create: "ipc_inv st \<Longrightarrow> model_onCreate maxc i st = (e, st') \<Longrightarrow> ipc_inv st'"
  using ipc_inv_attach [of st i]
  by (auto simp: model_onCreate_def ipc_inv_def Let_def createModel_def getModels_def set_keys_set
      simp del: set_map split: sum.splits if_splits)

lemma om_get_None: "om_get m i = None \<longleftrightarrow> i \<notin> set (om_keys m)"
  by (simp add: map_of_eq_None_iff)

lemma ipc_inv_remove: "ipc_inv st \<Longrightarrow> model_onRemove i st = (e, st') \<Longrightarrow> ipc_inv st'"
  using ipc_inv_detach [of st i]
  by (auto simp: model_onRemove_def ipc_inv_def Let_def removeModel_def getModels_def model_removeAllListeners_def
      set_keys_delete om_get_None simp del: set_map split: sum.splits option.splits)

text \<open>What happens to the main process: requests, and what the children do to the service.\<close>

inductive ipc_step :: "'m moment \<Rightarrow> rat \<Rightarrow> ipc \<Rightarrow> ipc \<Rightarrow> bool" for M maxc where
  ipc_request: "model_handleIPCEvent maxc i command st = (msgs, ret, st') \<Longrightarrow> ipc_step M maxc st st'"
| ipc_output: "child_data parse M pid data (ipc_service st) = (es, s') \<Longrightarrow> ipc_step M maxc st (st\<lparr>ipc_service := s'\<rparr>)"
| ipc_close: "child_close pid code (ipc_service st) = (es, s') \<Longrightarrow> ipc_step M maxc st (st\<lparr>ipc_service := s'\<rparr>)"

inductive ipc_reach :: "'m moment \<Rightarrow> rat \<Rightarrow> ipc \<Rightarrow> bool" for M maxc where
  ipc_start: "ipc_reach M maxc new_ipc"
| ipc_next: "ipc_reach M maxc st \<Longrightarrow> ipc_step M maxc st st' \<Longrightarrow> ipc_reach M maxc st'"

lemma ipc_step_inv: "ipc_step M maxc st st' \<Longrightarrow> ipc_inv st \<Longrightarrow> ipc_inv st'"
proof (induction rule: ipc_step.induct)
  case (ipc_request i command st msgs ret st')
  then show ?case
    by (auto simp: model_handleIPCEvent_def Let_def split: command.splits option.splits prod.splits
        intro: ipc_inv_create ipc_inv_remove)
next
  case (ipc_output parse pid data st es s')
  then have "ps_map s' = ps_map (ipc_service st)" "ps_listeners s' = ps_listeners (ipc_service st)"
    by (auto simp: child_data_def split: option.splits prod.splits)
  with ipc_output.prems show ?case by (simp add: ipc_inv_def listeners_of_def getModels_def)
next
  case (ipc_close pid code st es s')
  then have "set (getModels s') \<subseteq> set (getModels (ipc_service st))" "ps_listeners s' = ps_listeners (ipc_service st)"
    by (auto simp: child_close_def getModels_def delete_keys simp del: set_map split: option.splits)
  with ipc_close.prems show ?case by (auto simp: ipc_inv_def listeners_of_def)
qed

lemma ipc_reach_inv: "ipc_reach M maxc st \<Longrightarrow> ipc_inv st"
proof (induction rule: ipc_reach.induct)
  case ipc_start
  then show ?case by (simp add: ipc_inv_def new_ipc_def new_service_def listeners_of_def getModels_def)
next
  case (ipc_next st st')
  from ipc_step_inv [OF ipc_next(2,3)] show ?case .
qed

section \<open>Properties\<close>

text \<open>C17: in every state the main process can reach, a model that runs is attached, an attached id
  has exactly one data listener, which comes first, and one forwarding listener, and no other id has a
  listener: so each event of a model is saved and forwarded at most once, and the list request
  answers with the running models.\<close>

theorem ipc_listeners:
  assumes "ipc_reach M maxc st"
  shows "listeners_of i (ipc_service st) = (if i \<in> set (ipc_attached st) then [DataListener, IpcListener] else [])
    \<and> (i \<in> set (getModels (ipc_service st)) \<longrightarrow> i \<in> set (ipc_attached st))
    \<and> model_handleIPCEvent maxc j CmdList st = ([], Some (getModels (ipc_service st)), st)"
  using ipc_reach_inv [OF assms] unfolding ipc_inv_def model_handleIPCEvent_def model_onList_def by auto

theorem ipc_listeners_witness:
  "listeners_of ''a'' (ipc_service (snd (snd (model_handleIPCEvent 2 ''a'' (CmdCreate (Some (JNull, [], JNull))) new_ipc))))
     = [DataListener, IpcListener]"
proof -
  let ?r = "model_handleIPCEvent 2 ''a'' (CmdCreate (Some (JNull, [], JNull))) new_ipc"
  have "ipc_step no_moment 2 new_ipc (snd (snd ?r))"
    by (rule ipc_request [of 2 "''a''" "CmdCreate (Some (JNull, [], JNull))" new_ipc "fst ?r" "fst (snd ?r)"]) simp
  from ipc_listeners [OF ipc_next [OF ipc_start this], of "''a''"] show ?thesis
    by (simp add: model_handleIPCEvent_def model_onCreate_def model_attach_def model_on_def new_ipc_def new_service_def
        createModel_def availableSlots_def om_has_def add_listener_def spawn_def Let_def)
qed

text \<open>a refused request makes one message, with the error and the request, and changes no
  process: removing a model that does not run reports \<open>ModelNotFoundError\<close>; creating one on a full
  service reports \<open>MaximumConcurrencyError\<close>; options that are not JSON and unknown commands are reported
  without any change of state. Without a window nothing is sent.\<close>

theorem ipc_errors:
  shows "(i \<notin> set (getModels (ipc_service st)) \<longrightarrow>
      (\<exists>st'. model_handleIPCEvent maxc i CmdRemove st
         = (if ipc_web st then [CommandError i ModelNotFoundError CmdRemove] else [], None, st')
       \<and> ps_map (ipc_service st') = ps_map (ipc_service st) \<and> ps_children (ipc_service st') = ps_children (ipc_service st)
       \<and> i \<notin> set (ipc_attached st')))
   \<and> (availableSlots maxc (ipc_service st) \<le> 0 \<longrightarrow>
      (\<exists>st'. model_handleIPCEvent maxc i (CmdCreate (Some opts)) st
         = (if ipc_web st then [CommandError i MaximumConcurrencyError (CmdCreate (Some opts))] else [], None, st')
       \<and> ps_map (ipc_service st') = ps_map (ipc_service st) \<and> ps_children (ipc_service st') = ps_children (ipc_service st)))
   \<and> model_handleIPCEvent maxc i (CmdCreate None) st
       = (if ipc_web st then [CommandError i OptionsSyntaxError (CmdCreate None)] else [], None, st)
   \<and> model_handleIPCEvent maxc i (CmdUnknown c) st
       = (if ipc_web st then [CommandError i (UnknownCommandError c) (CmdUnknown c)] else [], None, st)"
proof -
  have d: "ps_map (ipc_service (model_detach i st)) = ps_map (ipc_service st)"
    "ps_children (ipc_service (model_detach i st)) = ps_children (ipc_service st)"
    "ipc_web (model_detach i st) = ipc_web st" "i \<notin> set (ipc_attached (model_detach i st))"
    by (auto simp: model_detach_def model_removeAllListeners_def removeAllListeners_def)
  have a: "ps_map (ipc_service (model_attach i st)) = ps_map (ipc_service st)"
    "ps_children (ipc_service (model_attach i st)) = ps_children (ipc_service st)"
    "ipc_web (model_attach i st) = ipc_web st"
    by (auto simp: model_attach_def model_on_def add_listener_def Let_def)
  have "om_get (ps_map (ipc_service st)) i = None" if "i \<notin> set (getModels (ipc_service st))"
    using that listed_entry [of i "ipc_service st"] by auto
  then show ?thesis
    using a d by (auto simp: model_handleIPCEvent_def model_onRemove_def model_onCreate_def removeModel_def
        createModel_def availableSlots_def Let_def)
qed

theorem ipc_errors_witness:
  "fst (model_handleIPCEvent 2 ''a'' CmdRemove new_ipc) = [CommandError ''a'' ModelNotFoundError CmdRemove]"
proof -
  have "''a'' \<notin> set (getModels (ipc_service new_ipc))" "ipc_web new_ipc"
    by (simp_all add: new_ipc_def new_service_def getModels_def)
  with ipc_errors [of "''a''" new_ipc 2 "(JNull, [], JNull)" "''x''"] show ?thesis by auto
qed

end
