(* ===== verification/Generate_Id.thy ===== *)
theory Generate_Id
  imports JS_String
begin

text \<open>
  Identifiers of files, metrics and data records (\<open>app/main/generateId.js\<close>) and the POSIX
  path functions of Node they rest on. The SHA-1 function of Node's \<open>crypto\<close> module is a
  parameter. The lemmas show that the keys of the records of one metric sort by record
  index and that the key range a query asks for holds the records of that metric only.
\<close>

section \<open>POSIX paths\<close>

definition strip_trailing_slashes :: "string \<Rightarrow> string" where
  "strip_trailing_slashes s = rev (dropWhile (\<lambda>c. c = CHR ''/'') (rev s))"

text \<open>\<open>path.basename\<close>, \<open>path.dirname\<close> and \<open>path.join(dir, name)\<close>.\<close>

definition basename :: "string \<Rightarrow> string" where
  "basename s = rev (takeWhile (\<lambda>c. c \<noteq> CHR ''/'') (rev (strip_trailing_slashes s)))"

definition dirname :: "string \<Rightarrow> string" where
  "dirname s =
     (let t = strip_trailing_slashes s; d = rev (dropWhile (\<lambda>c. c \<noteq> CHR ''/'') (rev t))
      in if s = [] then ''.'' else if t = [] then ''/'' else if d = [] then ''.''
         else if length d = 1 then ''/'' else butlast d)"

definition path_join :: "string \<Rightarrow> string \<Rightarrow> string" where
  "path_join d s = d @ ''/'' @ s"

lemma strip_trailing_slashes_id: "s \<noteq> [] \<Longrightarrow> last s \<noteq> CHR ''/'' \<Longrightarrow> strip_trailing_slashes s = s"
  using dropWhile_eq_self_iff [of "\<lambda>c. c = CHR ''/''" "rev s"]
  by (simp add: strip_trailing_slashes_def hd_rev)

lemma basename_join:
  assumes "s \<noteq> []" and "CHR ''/'' \<notin> set s"
  shows "basename (path_join d s) = s"
proof -
  have "last (path_join d s) \<noteq> CHR ''/''"
    using assms by (metis append_is_Nil_conv last_appendR last_in_set path_join_def)
  then have "strip_trailing_slashes (path_join d s) = path_join d s"
    using assms by (intro strip_trailing_slashes_id) (auto simp: path_join_def)
  moreover have "takeWhile (\<lambda>c. c \<noteq> CHR ''/'') (rev s) = rev s"
    and "takeWhile (\<lambda>c. c \<noteq> CHR ''/'') (rev s @ CHR ''/'' # rev d) = rev s"
    using assms by (auto simp: takeWhile_eq_all_conv takeWhile_append)
  ultimately show ?thesis using assms by (simp add: basename_def path_join_def)
qed

lemma dirname_join:
  assumes "s \<noteq> []" and "CHR ''/'' \<notin> set s" and "d \<noteq> []"
  shows "dirname (path_join d s) = d"
proof -
  have "last (path_join d s) \<noteq> CHR ''/''"
    using assms by (metis append_is_Nil_conv last_appendR last_in_set path_join_def)
  then have "strip_trailing_slashes (path_join d s) = path_join d s"
    using assms by (intro strip_trailing_slashes_id) (auto simp: path_join_def)
  moreover have "dropWhile (\<lambda>c. c \<noteq> CHR ''/'') (rev s @ CHR ''/'' # rev d) = CHR ''/'' # rev d"
    using assms(2) by (subst dropWhile_append2) auto
  ultimately show ?thesis using assms by (simp add: dirname_def path_join_def Let_def butlast_append)
qed

section \<open>Identifiers\<close>

definition generateId :: "(string \<Rightarrow> string) \<Rightarrow> string \<Rightarrow> string" where
  "generateId sha1 seed = sha1 seed"

definition generateFileId :: "(string \<Rightarrow> string) \<Rightarrow> string \<Rightarrow> string" where
  "generateFileId sha1 filename = substr_first 16 (generateId sha1 (basename filename))"

definition generateMetricId :: "(string \<Rightarrow> string) \<Rightarrow> string \<Rightarrow> string \<Rightarrow> string" where
  "generateMetricId sha1 filename metric =
     (let fileId = generateFileId sha1 filename;
          metricId = substr_first 16 (generateId sha1 metric)
      in fileId @ ''!'' @ metricId)"

definition generateMetricDataId :: "string \<Rightarrow> nat \<Rightarrow> string" where
  "generateMetricDataId metricId index =
     (let indexString = substr_last 13 (''000000000000'' @ show_nat index)
      in metricId @ ''!'' @ indexString)"

text \<open>The range \<open>{gte: id, lt: id + '\xff'}\<close> of the stream queries.\<close>

definition in_id_range :: "string \<Rightarrow> string \<Rightarrow> bool" where
  "in_id_range ident key = (ident \<le> key \<and> key < ident @ [CHR 0xFF])"

section \<open>The index part of a key\<close>

definition index_string :: "nat \<Rightarrow> string" where
  "index_string i = substr_last 13 (''000000000000'' @ show_nat i)"

lemma generateMetricDataId_index: "generateMetricDataId m i = m @ ''!'' @ index_string i"
  by (simp add: generateMetricDataId_def index_string_def)

lemma length_index_string [simp]: "length (index_string i) = 13"
proof -
  have "length (show_nat i) \<noteq> 0" by simp
  then show ?thesis by (cases "length (show_nat i)") (simp_all add: index_string_def substr_last_def)
qed

lemma index_string_padded:
  assumes "i < 10 ^ 13"
  shows "index_string i = replicate (13 - length (show_nat i)) (CHR ''0'') @ show_nat i"
proof -
  have l: "0 < length (show_nat i)" "length (show_nat i) \<le> 13"
    using assms length_show_nat_le [of i 13] by auto
  have "''000000000000'' = replicate 12 (CHR ''0'')" by (simp add: numeral_eq_Suc)
  then have "index_string i = drop (length (show_nat i) - 1) (replicate 12 (CHR ''0'')) @ show_nat i"
    using l by (simp add: index_string_def substr_last_def)
  moreover have "12 - (length (show_nat i) - 1) = 13 - length (show_nat i)" using l by arith
  ultimately show ?thesis by simp
qed

lemma list_all_drop: "list_all P s \<Longrightarrow> list_all P (drop n s)"
  by (auto simp: list_all_iff dest: in_set_dropD)

lemma index_string_digits: "list_all is_digit (index_string i)"
proof -
  have "list_all is_digit (''000000000000'' @ show_nat i)"
    using show_nat_digits [of i] by (simp add: is_digit_def)
  then show ?thesis unfolding index_string_def substr_last_def by (rule list_all_drop)
qed

lemma digits_val_index_string: "i < 10 ^ 13 \<Longrightarrow> digits_val (index_string i) = i"
  by (simp add: index_string_padded)

lemma index_string_less_iff:
  "i < 10 ^ 13 \<Longrightarrow> j < 10 ^ 13 \<Longrightarrow> index_string i < index_string j \<longleftrightarrow> i < j"
  by (simp add: digits_less_iff index_string_digits digits_val_index_string)

lemma append_less_append_iff [simp]: "(xs @ ys :: string) < xs @ zs \<longleftrightarrow> ys < zs"
  by (induction xs) auto

lemma dataId_less_iff:
  "i < 10 ^ 13 \<Longrightarrow> j < 10 ^ 13 \<Longrightarrow>
     generateMetricDataId m i < generateMetricDataId m j \<longleftrightarrow> i < j"
  by (simp add: generateMetricDataId_index index_string_less_iff)

lemma dataId_eq_iff:
  "i < 10 ^ 13 \<Longrightarrow> j < 10 ^ 13 \<Longrightarrow>
     generateMetricDataId m i = generateMetricDataId m j \<longleftrightarrow> i = j"
  by (metis dataId_less_iff less_irrefl linorder_neqE_nat)

section \<open>Key ranges\<close>

lemma char_less_ff: "c < CHR 0xFF \<longleftrightarrow> c \<noteq> CHR 0xFF"
proof
  assume "c \<noteq> CHR 0xFF"
  then have "(of_char c :: nat) \<noteq> of_char (CHR 0xFF)" unfolding of_char_eq_iff .
  then have "(of_char c :: nat) \<noteq> 255" by simp
  then have "(of_char c :: nat) < 255" using nat_of_char_less_256 [of c] by linarith
  then show "c < CHR 0xFF" by (simp add: char_less_iff)
qed auto

text \<open>A key without the character \<open>\xff\<close> is in the range of an id exactly if the id is a prefix.\<close>

lemma in_id_range_iff_prefix:
  assumes "CHR 0xFF \<notin> set key"
  shows "in_id_range ident key \<longleftrightarrow> prefix ident key"
  using assms
proof (induction ident arbitrary: key)
  case Nil
  then show ?case by (cases key) (auto simp: in_id_range_def char_less_ff)
next
  case (Cons c ident)
  then show ?case by (cases key) (auto simp: in_id_range_def)
qed

lemma digit_not_ff: "list_all is_digit s \<Longrightarrow> CHR 0xFF \<notin> set s"
  by (auto simp: list_all_iff is_digit_def)

text \<open>Ids of one length: the range of an id holds the data keys of that id and no others.\<close>

lemma dataId_in_range_iff:
  assumes "length m = length m'" and "CHR 0xFF \<notin> set m'"
  shows "in_id_range m (generateMetricDataId m' i) \<longleftrightarrow> m = m'"
proof -
  have "CHR 0xFF \<notin> set (generateMetricDataId m' i)"
    using assms(2) digit_not_ff [OF index_string_digits] by (simp add: generateMetricDataId_index)
  then have "in_id_range m (generateMetricDataId m' i) \<longleftrightarrow> prefix m (generateMetricDataId m' i)"
    by (rule in_id_range_iff_prefix)
  also have "\<dots> \<longleftrightarrow> m = m'"
    using assms(1) by (auto simp: generateMetricDataId_index prefix_def append_eq_append_conv)
  finally show ?thesis .
qed

end
