(* ===== verification/Level_Store.thy ===== *)
theory Level_Store
  imports JS_Value Generate_Id
begin

text \<open>
  The ordered key-value store behind the database service (LevelDB through \<open>levelup\<close> and
  \<open>level-sublevel\<close>, third-party code). Its operations are a record that the service takes
  as a parameter; what the service relies on is the locale \<open>level_store\<close>, and an in-memory
  store shows that the laws can hold, with and without write failures.
\<close>

section \<open>The operations\<close>

datatype 'v batch_op = PutOp string 'v | DelOp string

text \<open>
  Writes return an error, if any, and the new state. \<open>lv_range\<close> is a read stream: the entries
  with \<open>gte <= key < lt\<close> (all entries for \<open>None\<close>) and the error that ended it, if any.
\<close>

record ('s, 'v) level =
  lv_get :: "'s \<Rightarrow> string \<Rightarrow> jserr + 'v"
  lv_put :: "string \<Rightarrow> 'v \<Rightarrow> 's \<Rightarrow> jserr option \<times> 's"
  lv_del :: "string \<Rightarrow> 's \<Rightarrow> jserr option \<times> 's"
  lv_batch :: "'v batch_op list \<Rightarrow> 's \<Rightarrow> jserr option \<times> 's"
  lv_range :: "'s \<Rightarrow> (string \<times> string) option \<Rightarrow> jserr option \<times> (string \<times> 'v) list"

definition key_in :: "(string \<times> string) option \<Rightarrow> string \<Rightarrow> bool" where
  "key_in r k = (case r of None \<Rightarrow> True | Some (lo, hi) \<Rightarrow> lo \<le> k \<and> k < hi)"

text \<open>The range \<open>{gte: id, lt: id + '\xff'}\<close>.\<close>

definition id_range :: "string \<Rightarrow> (string \<times> string) option" where
  "id_range ident = Some (ident, ident @ [CHR 0xFF])"

lemma key_in_id_range [simp]: "key_in (id_range ident) k = in_id_range ident k"
  by (simp add: key_in_def id_range_def in_id_range_def)

lemma key_in_None [simp]: "key_in None k"
  by (simp add: key_in_def)

fun apply_op :: "'v batch_op \<Rightarrow> (string \<rightharpoonup> 'v) \<Rightarrow> (string \<rightharpoonup> 'v)" where
  "apply_op (PutOp k v) m = m(k \<mapsto> v)"
| "apply_op (DelOp k) m = m(k := None)"

definition apply_ops :: "'v batch_op list \<Rightarrow> (string \<rightharpoonup> 'v) \<Rightarrow> (string \<rightharpoonup> 'v)" where
  "apply_ops ops m = fold apply_op ops m"

lemma apply_ops_dels: "apply_ops (map DelOp ks) m = (\<lambda>k. if k \<in> set ks then None else m k)"
  by (induction ks arbitrary: m) (auto simp: apply_ops_def fun_eq_iff)

lemma apply_ops_puts: "apply_ops (map (\<lambda>(k, v). PutOp k v) kvs) m = m ++ map_of (rev kvs)"
proof (induction kvs arbitrary: m)
  case Nil
  then show ?case by (simp add: apply_ops_def)
next
  case (Cons p kvs)
  then show ?case by (cases p) (auto simp: apply_ops_def map_add_def fun_eq_iff split: option.split)
qed

section \<open>Sorted entry lists\<close>

definition sorted_entries :: "(string \<times> 'v) list \<Rightarrow> bool" where
  "sorted_entries xs = sorted_wrt (<) (map fst xs)"

lemma sorted_entries_distinct: "sorted_entries xs \<Longrightarrow> distinct (map fst xs)"
  by (auto simp: sorted_entries_def strict_sorted_iff)

lemma sorted_entries_unique:
  assumes "sorted_entries xs" and "sorted_entries ys" and "map_of xs = map_of ys"
  shows "xs = ys"
proof -
  have d: "distinct (map fst xs)" "distinct (map fst ys)"
    using assms(1,2) by (auto intro: sorted_entries_distinct)
  have "set xs = set ys"
    using assms(3) d by (metis map_of_inject_set)
  moreover have "inj_on fst (set xs \<union> set ys)"
    using d(1) calculation by (simp add: distinct_map)
  ultimately show ?thesis
    using assms(1,2) d by (intro map_sorted_distinct_set_unique [of fst])
      (auto simp: sorted_entries_def strict_sorted_iff)
qed

section \<open>The laws\<close>

text \<open>
  A store has a content. Successful writes change it as documented, failed writes leave it
  (writes and batches are atomic); reads of a store that works return the content, in the
  order of the keys.
\<close>

locale level_store =
  fixes L :: "('s, 'v) level"
    and content :: "'s \<Rightarrow> string \<rightharpoonup> 'v"
    and healthy :: "'s \<Rightarrow> bool"
  assumes get_ok: "healthy s \<Longrightarrow>
      lv_get L s k = (case content s k of None \<Rightarrow> Inl NotFoundError | Some v \<Rightarrow> Inr v)"
    and put_ok: "healthy s \<Longrightarrow> fst (lv_put L k v s) = None"
    and put_healthy: "healthy s \<Longrightarrow> healthy (snd (lv_put L k v s))"
    and put_content: "lv_put L k v s = (None, s') \<Longrightarrow> content s' = (content s)(k \<mapsto> v)"
    and put_failed: "lv_put L k v s = (Some e, s') \<Longrightarrow> content s' = content s"
    and del_ok: "healthy s \<Longrightarrow> fst (lv_del L k s) = None"
    and del_healthy: "healthy s \<Longrightarrow> healthy (snd (lv_del L k s))"
    and del_content: "lv_del L k s = (None, s') \<Longrightarrow> content s' = (content s)(k := None)"
    and del_failed: "lv_del L k s = (Some e, s') \<Longrightarrow> content s' = content s"
    and batch_ok: "healthy s \<Longrightarrow> fst (lv_batch L ops s) = None"
    and batch_healthy: "healthy s \<Longrightarrow> healthy (snd (lv_batch L ops s))"
    and batch_content: "lv_batch L ops s = (None, s') \<Longrightarrow> content s' = apply_ops ops (content s)"
    and batch_failed: "lv_batch L ops s = (Some e, s') \<Longrightarrow> content s' = content s"
    and range_ok: "healthy s \<Longrightarrow> fst (lv_range L s r) = None"
    and range_entries: "lv_range L s r = (None, xs) \<Longrightarrow>
      sorted_entries xs \<and> map_of xs = (\<lambda>k. if key_in r k then content s k else None)"
begin

lemma put_eq:
  assumes "healthy s"
  obtains s' where "lv_put L k v s = (None, s')" and "content s' = (content s)(k \<mapsto> v)" and "healthy s'"
  using put_ok [OF assms, of k v] put_healthy [OF assms, of k v] put_content
  by (metis prod.collapse)

lemma del_eq:
  assumes "healthy s"
  obtains s' where "lv_del L k s = (None, s')" and "content s' = (content s)(k := None)" and "healthy s'"
  using del_ok [OF assms, of k] del_healthy [OF assms, of k] del_content
  by (metis prod.collapse)

lemma batch_eq:
  assumes "healthy s"
  obtains s' where "lv_batch L ops s = (None, s')" and "content s' = apply_ops ops (content s)" and "healthy s'"
  using batch_ok [OF assms, of ops] batch_healthy [OF assms, of ops] batch_content
  by (metis prod.collapse)

text \<open>A range query on a working store returns the only sorted list of the entries in range.\<close>

lemma range_eqI:
  assumes "healthy s" and "sorted_entries xs"
    and "map_of xs = (\<lambda>k. if key_in r k then content s k else None)"
  shows "lv_range L s r = (None, xs)"
proof -
  obtain ys where ys: "lv_range L s r = (None, ys)"
    using range_ok [OF assms(1), of r] by (metis prod.collapse)
  then have "sorted_entries ys" and "map_of ys = map_of xs"
    using range_entries assms(3) by auto
  then have "ys = xs" using sorted_entries_unique [OF _ assms(2)] by blast
  with ys show ?thesis by simp
qed

lemma range_keys:
  assumes "lv_range L s r = (None, xs)"
  shows "set (map fst xs) = {k. key_in r k \<and> content s k \<noteq> None}"
proof -
  have "set (map fst xs) = dom (map_of xs)" by (simp add: dom_map_of_conv_image_fst)
  then show ?thesis using range_entries [OF assms] by (auto split: if_splits)
qed

text \<open>Deleting all keys that a range query returned empties the range and nothing else.\<close>

lemma delete_range:
  assumes "lv_range L s r = (None, xs)" and "lv_batch L (map DelOp (map fst xs)) s = (None, s')"
  shows "content s' = (\<lambda>k. if key_in r k then None else content s k)"
proof -
  have "content s' = (\<lambda>k. if k \<in> set (map fst xs) then None else content s k)"
    using batch_content [OF assms(2)] by (simp only: apply_ops_dels)
  then show ?thesis using range_keys [OF assms(1)] by (auto simp: fun_eq_iff)
qed

end

section \<open>An in-memory store\<close>

text \<open>\<open>mem_fail\<close> makes every write fail, as a full disk would.\<close>

record 'v mem =
  mem_fail :: bool
  mem_data :: "(string \<times> 'v) list"

definition mem_write :: "((string \<times> 'v) list \<Rightarrow> (string \<times> 'v) list) \<Rightarrow> 'v mem \<Rightarrow> jserr option \<times> 'v mem" where
  "mem_write f s = (if mem_fail s then (Some (OperationError ''write failed''), s)
                    else (None, s\<lparr>mem_data := f (mem_data s)\<rparr>))"

fun mem_apply :: "'v batch_op \<Rightarrow> (string \<times> 'v) list \<Rightarrow> (string \<times> 'v) list" where
  "mem_apply (PutOp k v) xs = om_set k v xs"
| "mem_apply (DelOp k) xs = om_delete k xs"

definition mem_entries :: "(string \<times> 'v) list \<Rightarrow> (string \<times> 'v) list" where
  "mem_entries xs = map (\<lambda>k. (k, the (map_of xs k))) (sort (remdups (map fst xs)))"

definition mem_level :: "('v mem, 'v) level" where
  "mem_level =
     \<lparr>lv_get = (\<lambda>s k. case map_of (mem_data s) k of None \<Rightarrow> Inl NotFoundError | Some v \<Rightarrow> Inr v),
      lv_put = (\<lambda>k v. mem_write (om_set k v)),
      lv_del = (\<lambda>k. mem_write (om_delete k)),
      lv_batch = (\<lambda>ops. mem_write (fold mem_apply ops)),
      lv_range = (\<lambda>s r. (None, filter (\<lambda>(k, v). key_in r k) (mem_entries (mem_data s))))\<rparr>"

definition mem_content :: "'v mem \<Rightarrow> string \<rightharpoonup> 'v" where
  "mem_content s = map_of (mem_data s)"

lemma mem_fold_apply: "map_of (fold mem_apply ops xs) = apply_ops ops (map_of xs)"
proof (induction ops arbitrary: xs)
  case Nil
  then show ?case by (simp add: apply_ops_def)
next
  case (Cons p ops)
  then show ?case by (cases p) (simp_all add: apply_ops_def update_conv' delete_conv')
qed

lemma map_of_mem_entries: "map_of (mem_entries xs) = map_of xs"
proof
  fix k
  have "map_of (mem_entries xs) k = (if k \<in> fst ` set xs then Some (the (map_of xs k)) else None)"
    by (simp add: mem_entries_def map_of_map_restrict restrict_map_def)
  then show "map_of (mem_entries xs) k = map_of xs k"
    using map_of_eq_None_iff [of xs k] by auto
qed

lemma sorted_mem_entries: "sorted_entries (filter P (mem_entries xs))"
proof -
  have "sorted_entries (mem_entries xs)"
    by (simp add: sorted_entries_def mem_entries_def strict_sorted_iff comp_def)
  then show ?thesis by (auto simp: sorted_entries_def sorted_wrt_map sorted_wrt_filter)
qed

lemma map_of_filter_keys: "map_of (filter (\<lambda>(k, v). P k) xs) k = (if P k then map_of xs k else None)"
  by (induction xs) auto

interpretation mem: level_store mem_level mem_content "\<lambda>s. \<not> mem_fail s"
proof
  fix s s' :: "'v mem" and r xs
  assume "lv_range mem_level s r = (None, xs)"
  then have "xs = filter (\<lambda>(k, v). key_in r k) (mem_entries (mem_data s))"
    by (simp add: mem_level_def)
  then show "sorted_entries xs \<and> map_of xs = (\<lambda>k. if key_in r k then mem_content s k else None)"
    by (simp add: sorted_mem_entries mem_content_def fun_eq_iff map_of_filter_keys map_of_mem_entries)
qed (auto simp: mem_level_def mem_content_def mem_write_def mem_fold_apply update_conv' delete_conv'
      split: if_splits)

end
