(* ===== verification/Database_Service.thy ===== *)
theory Database_Service
  imports Level_Store Common_Utils
begin

text \<open>
  The database service of the main process, \<open>app/main/DatabaseService.js\<close>, without
  \<open>uploadFile\<close> (theory \<open>Upload\<close>). Each operation returns the calls it makes to its callback and
  the new state. The key-value store (\<open>levelup\<close>), the schema validator (\<open>jsonschema\<close>), the
  SHA-1 function and the date library are parameters. The lemmas show that the time series of
  a metric or model behaves as a list that batches append to, that a rejected record changes
  nothing, and what each delete removes.
\<close>

section \<open>State and environment\<close>

datatype schema = DBFileSchema | DBMetricSchema | DBMetricDataSchema | DBModelSchema | DBModelDataSchema

text \<open>One sublevel per kind of record, and the files of the cache directory by full name.\<close>

record 's db =
  db_files :: 's
  db_metrics :: 's
  db_metricData :: 's
  db_models :: 's
  db_modelData :: 's
  db_cache :: "string list"

text \<open>\<open>db_unlink_fails\<close> says for which files \<open>fs.unlink\<close> reports an error.\<close>

record 's db_env =
  db_level :: "('s, jsval) level"
  db_validate :: "schema \<Rightarrow> jsval \<Rightarrow> string list"
  db_sha1 :: "string \<Rightarrow> string"
  db_fileCachePath :: string
  db_unlink_fails :: "string \<Rightarrow> bool"

type_synonym 's db_result = "(jserr, jsval) calls \<times> 's db"

definition done_call :: "jserr option \<Rightarrow> (jserr, jsval) call" where
  "done_call r = (case r of None \<Rightarrow> Done JUndef | Some e \<Rightarrow> Failed e)"

definition field :: "jsval \<Rightarrow> string \<Rightarrow> jsval" where
  "field v k = obj_get (as_obj v) k"

section \<open>Reading\<close>

text \<open>\<open>stringifyResultsCallback(callback)\<close> applied to the outcome of a lookup or of a stream.\<close>

definition stringifyResultsCallback :: "jserr + jsval \<Rightarrow> (jserr, jsval) calls" where
  "stringifyResultsCallback r = (case r of Inl e \<Rightarrow> [Failed e] | Inr v \<Rightarrow> [Done (stringify v)])"

definition getFile :: "'s db_env \<Rightarrow> string \<Rightarrow> 's db \<Rightarrow> (jserr, jsval) calls" where
  "getFile E uid d = stringifyResultsCallback (lv_get (db_level E) (db_files d) uid)"

definition getFileByName :: "'s db_env \<Rightarrow> string \<Rightarrow> 's db \<Rightarrow> (jserr, jsval) calls" where
  "getFileByName E filename d =
     (let fileid = generateFileId (db_sha1 E) filename
      in stringifyResultsCallback (lv_get (db_level E) (db_files d) fileid))"

definition getMetric :: "'s db_env \<Rightarrow> string \<Rightarrow> 's db \<Rightarrow> (jserr, jsval) calls" where
  "getMetric E uid d = stringifyResultsCallback (lv_get (db_level E) (db_metrics d) uid)"

definition getModel :: "'s db_env \<Rightarrow> string \<Rightarrow> 's db \<Rightarrow> (jserr, jsval) calls" where
  "getModel E modelId d = stringifyResultsCallback (lv_get (db_level E) (db_models d) modelId)"

text \<open>A value stream: what \<open>on('data')\<close> collects is reported at the end, an error at once.\<close>

definition value_stream ::
    "'s db_env \<Rightarrow> 's \<Rightarrow> (string \<times> string) option \<Rightarrow> (jsval \<Rightarrow> jsval) \<Rightarrow> (jserr, jsval) calls" where
  "value_stream E s r push = (case lv_range (db_level E) s r of
       (Some e, _) \<Rightarrow> [Failed e]
     | (None, entries) \<Rightarrow> stringifyResultsCallback (Inr (JArr (map (push \<circ> snd) entries))))"

definition getAllFiles :: "'s db_env \<Rightarrow> 's db \<Rightarrow> (jserr, jsval) calls" where
  "getAllFiles E d = value_stream E (db_files d) None (\<lambda>file. file)"

definition getAllMetrics :: "'s db_env \<Rightarrow> 's db \<Rightarrow> (jserr, jsval) calls" where
  "getAllMetrics E d = value_stream E (db_metrics d) None (\<lambda>metric. metric)"

definition getMetricsByFile :: "'s db_env \<Rightarrow> string \<Rightarrow> 's db \<Rightarrow> (jserr, jsval) calls" where
  "getMetricsByFile E fileId d = value_stream E (db_metrics d) (id_range fileId) (\<lambda>metric. metric)"

definition getAllModels :: "'s db_env \<Rightarrow> 's db \<Rightarrow> (jserr, jsval) calls" where
  "getAllModels E d = value_stream E (db_models d) None (\<lambda>model. model)"

definition model_row :: "jsval \<Rightarrow> jsval" where
  "model_row metric = JArr [field metric ''naive_time'', field metric ''metric_value'', field metric ''anomaly_score'']"

definition metric_row :: "jsval \<Rightarrow> jsval" where
  "metric_row metric = JArr [field metric ''naive_time'', field metric ''metric_value'']"

text \<open>\<open>offset || 0\<close>: \<open>None\<close> is the \<open>null\<close> offset.\<close>

definition getModelData :: "'s db_env \<Rightarrow> string \<Rightarrow> nat option \<Rightarrow> 's db \<Rightarrow> (jserr, jsval) calls" where
  "getModelData E metricId offset d =
     (let start = generateMetricDataId metricId (case offset of None \<Rightarrow> 0 | Some n \<Rightarrow> n);
          end' = metricId @ [CHR 0xFF]
      in value_stream E (db_modelData d) (Some (start, end')) model_row)"

definition getMetricData :: "'s db_env \<Rightarrow> string \<Rightarrow> 's db \<Rightarrow> (jserr, jsval) calls" where
  "getMetricData E metricId d = value_stream E (db_metricData d) (id_range metricId) metric_row"

section \<open>Writing\<close>

text \<open>Validation, then \<open>put(key, value, callback)\<close> on one sublevel.\<close>

definition validated_put ::
    "'s db_env \<Rightarrow> schema \<Rightarrow> string \<Rightarrow> jsval \<Rightarrow> 's \<Rightarrow> (jserr, jsval) calls \<times> 's" where
  "validated_put E sch key v s =
     (let errors = db_validate E sch v
      in if errors \<noteq> [] then ([Failed (SchemaErrors errors)], s)
         else (let (r, s') = lv_put (db_level E) key v s in ([done_call r], s')))"

text \<open>The loop over a batch: the errors of the first record that has any.\<close>

fun first_errors :: "(jsval \<Rightarrow> string list) \<Rightarrow> jsval list \<Rightarrow> string list" where
  "first_errors check [] = []"
| "first_errors check (v # vs) = (if check v \<noteq> [] then check v else first_errors check vs)"

definition validated_batch ::
    "'s db_env \<Rightarrow> schema \<Rightarrow> (nat \<Rightarrow> jsval \<Rightarrow> string) \<Rightarrow> jsval \<Rightarrow> 's \<Rightarrow> (jserr, jsval) calls \<times> 's" where
  "validated_batch E sch key data s = (case data of
       JArr vs \<Rightarrow>
         (let errors = first_errors (db_validate E sch) vs
          in if errors \<noteq> [] then ([Failed (SchemaErrors errors)], s)
             else (let ops = map (\<lambda>(i, value). PutOp (key i value) value) (List.enumerate 0 vs);
                       (r, s') = lv_batch (db_level E) ops s
                   in ([done_call r], s')))
     | _ \<Rightarrow> ([Threw TypeError], s))"

definition uid_key :: "jsval \<Rightarrow> string" where
  "uid_key v = as_string (field v ''uid'')"

definition modelId_key :: "jsval \<Rightarrow> string" where
  "modelId_key v = as_string (field v ''modelId'')"

definition putFile :: "'s db_env \<Rightarrow> jsval \<Rightarrow> 's db \<Rightarrow> 's db_result" where
  "putFile E file d = (case parse_if_string file of
       Inl e \<Rightarrow> ([Threw e], d)
     | Inr file \<Rightarrow>
         (let (cs, s) = validated_put E DBFileSchema (uid_key file) file (db_files d)
          in (cs, d\<lparr>db_files := s\<rparr>)))"

definition putFileBatch :: "'s db_env \<Rightarrow> jsval \<Rightarrow> 's db \<Rightarrow> 's db_result" where
  "putFileBatch E files d = (case parse_if_string files of
       Inl e \<Rightarrow> ([Threw e], d)
     | Inr files \<Rightarrow>
         (let (cs, s) = validated_batch E DBFileSchema (\<lambda>i. uid_key) files (db_files d)
          in (cs, d\<lparr>db_files := s\<rparr>)))"

definition putMetric :: "'s db_env \<Rightarrow> jsval \<Rightarrow> 's db \<Rightarrow> 's db_result" where
  "putMetric E metric d = (case parse_if_string metric of
       Inl e \<Rightarrow> ([Threw e], d)
     | Inr metric \<Rightarrow>
         (let (cs, s) = validated_put E DBMetricSchema (uid_key metric) metric (db_metrics d)
          in (cs, d\<lparr>db_metrics := s\<rparr>)))"

definition putMetricBatch :: "'s db_env \<Rightarrow> jsval \<Rightarrow> 's db \<Rightarrow> 's db_result" where
  "putMetricBatch E metrics d = (case parse_if_string metrics of
       Inl e \<Rightarrow> ([Threw e], d)
     | Inr metrics \<Rightarrow>
         (let (cs, s) = validated_batch E DBMetricSchema (\<lambda>i. uid_key) metrics (db_metrics d)
          in (cs, d\<lparr>db_metrics := s\<rparr>)))"

text \<open>The guard \<open>typeof metric === 'string'\<close> names no variable of \<open>putModel\<close>, so it is never
  true: a serialised model goes to the validator as a string.\<close>

definition putModel :: "'s db_env \<Rightarrow> jsval \<Rightarrow> 's db \<Rightarrow> 's db_result" where
  "putModel E model d =
     (let (cs, s) = validated_put E DBModelSchema (modelId_key model) model (db_models d)
      in (cs, d\<lparr>db_models := s\<rparr>))"

definition putModelBatch :: "'s db_env \<Rightarrow> jsval \<Rightarrow> 's db \<Rightarrow> 's db_result" where
  "putModelBatch E models d = (case parse_if_string models of
       Inl e \<Rightarrow> ([Threw e], d)
     | Inr models \<Rightarrow>
         (let (cs, s) = validated_batch E DBModelSchema (\<lambda>i. modelId_key) models (db_models d)
          in (cs, d\<lparr>db_models := s\<rparr>)))"

definition putModelData :: "'s db_env \<Rightarrow> string \<Rightarrow> nat \<Rightarrow> jsval \<Rightarrow> 's db \<Rightarrow> 's db_result" where
  "putModelData E modelId recordIndex modelData d =
     (let key = generateMetricDataId modelId recordIndex;
          (cs, s) = validated_put E DBModelDataSchema key modelData (db_modelData d)
      in (cs, d\<lparr>db_modelData := s\<rparr>))"

definition putModelDataBatch :: "'s db_env \<Rightarrow> string \<Rightarrow> nat \<Rightarrow> jsval \<Rightarrow> 's db \<Rightarrow> 's db_result" where
  "putModelDataBatch E modelId firstRecordIndex data d = (case parse_if_string data of
       Inl e \<Rightarrow> ([Threw e], d)
     | Inr data \<Rightarrow>
         (let (cs, s) = validated_batch E DBModelDataSchema
                (\<lambda>i value. generateMetricDataId modelId (firstRecordIndex + i)) data (db_modelData d)
          in (cs, d\<lparr>db_modelData := s\<rparr>)))"

definition putMetricData :: "'s db_env \<Rightarrow> string \<Rightarrow> nat \<Rightarrow> jsval \<Rightarrow> 's db \<Rightarrow> 's db_result" where
  "putMetricData E metricId recordIndex metricData d = (case parse_if_string metricData of
       Inl e \<Rightarrow> ([Threw e], d)
     | Inr metricData \<Rightarrow>
         (let key = generateMetricDataId metricId recordIndex;
              (cs, s) = validated_put E DBMetricDataSchema key metricData (db_metricData d)
          in (cs, d\<lparr>db_metricData := s\<rparr>)))"

definition putMetricDataBatch :: "'s db_env \<Rightarrow> string \<Rightarrow> nat \<Rightarrow> jsval \<Rightarrow> 's db \<Rightarrow> 's db_result" where
  "putMetricDataBatch E metricId firstRecordIndex data d = (case parse_if_string data of
       Inl e \<Rightarrow> ([Threw e], d)
     | Inr data \<Rightarrow>
         (let (cs, s) = validated_batch E DBMetricDataSchema
                (\<lambda>i value. generateMetricDataId metricId (firstRecordIndex + i)) data (db_metricData d)
          in (cs, d\<lparr>db_metricData := s\<rparr>)))"

section \<open>Deleting\<close>

text \<open>A key stream over the range of an id fills a \<open>Batch\<close> with deletions, written at the end.\<close>

definition delete_stream :: "'s db_env \<Rightarrow> string \<Rightarrow> 's \<Rightarrow> (jserr, jsval) calls \<times> 's" where
  "delete_stream E ident s = (case lv_range (db_level E) s (id_range ident) of
       (Some e, _) \<Rightarrow> ([Failed e], s)
     | (None, entries) \<Rightarrow>
         (let (r, s') = lv_batch (db_level E) (map DelOp (map fst entries)) s
          in ([done_call r], s')))"

definition deleteMetricData :: "'s db_env \<Rightarrow> string \<Rightarrow> 's db \<Rightarrow> 's db_result" where
  "deleteMetricData E metricId d =
     (let (cs, s) = delete_stream E metricId (db_metricData d) in (cs, d\<lparr>db_metricData := s\<rparr>))"

definition deleteModelData :: "'s db_env \<Rightarrow> string \<Rightarrow> 's db \<Rightarrow> 's db_result" where
  "deleteModelData E metricId d =
     (let (cs, s) = delete_stream E metricId (db_modelData d) in (cs, d\<lparr>db_modelData := s\<rparr>))"

definition deleteModel :: "'s db_env \<Rightarrow> string \<Rightarrow> 's db \<Rightarrow> 's db_result" where
  "deleteModel E modelId d =
     (let (r, s) = lv_del (db_level E) modelId (db_models d)
      in and_then [done_call r] (deleteModelData E modelId) (d\<lparr>db_models := s\<rparr>))"

definition deleteMetric :: "'s db_env \<Rightarrow> string \<Rightarrow> 's db \<Rightarrow> 's db_result" where
  "deleteMetric E metricId d =
     (let (r, s) = lv_del (db_level E) metricId (db_metrics d)
      in and_then [done_call r]
           (\<lambda>d1. let (cs, d2) = deleteMetricData E metricId d1
                 in and_then cs (deleteModel E metricId) d2)
           (d\<lparr>db_metrics := s\<rparr>))"

text \<open>
  The callback given to each \<open>deleteMetric\<close> of the loop: it passes errors on and reports
  success when \<open>metricsDeleted\<close> reaches the number of metrics.
\<close>

fun count_deleted :: "nat \<Rightarrow> nat \<Rightarrow> (jserr, jsval) calls \<Rightarrow> (jserr, jsval) calls \<times> nat" where
  "count_deleted expected metricsDeleted [] = ([], metricsDeleted)"
| "count_deleted expected metricsDeleted (Done x # cs) =
     (let (r, k) = count_deleted expected (metricsDeleted + 1) cs
      in ((if metricsDeleted + 1 = expected then Done JUndef # r else r), k))"
| "count_deleted expected metricsDeleted (Failed e # cs) =
     (let (r, k) = count_deleted expected metricsDeleted cs in (Failed e # r, k))"
| "count_deleted expected metricsDeleted (Threw e # cs) = ([Threw e], metricsDeleted)"

fun delete_each :: "'s db_env \<Rightarrow> nat \<Rightarrow> nat \<Rightarrow> string list \<Rightarrow> 's db \<Rightarrow> 's db_result" where
  "delete_each E expected metricsDeleted [] d = ([], d)"
| "delete_each E expected metricsDeleted (m # ms) d =
     (let (cs, d1) = deleteMetric E m d;
          (r, k) = count_deleted expected metricsDeleted cs;
          (r', d2) = delete_each E expected k ms d1
      in (r @ r', d2))"

definition deleteMetricsByFile :: "'s db_env \<Rightarrow> string \<Rightarrow> 's db \<Rightarrow> 's db_result" where
  "deleteMetricsByFile E fileId d = (case lv_range (db_level E) (db_metrics d) (id_range fileId) of
       (Some e, _) \<Rightarrow> ([Failed e], d)
     | (None, entries) \<Rightarrow>
         (let metrics = map fst entries in delete_each E (length metrics) 0 metrics d))"

text \<open>The file system part without a callback: only files directly in the cache are removed,
  and an \<open>unlink\<close> error is not reported.\<close>

definition deleteFileFromCache :: "'s db_env \<Rightarrow> string \<Rightarrow> 's db \<Rightarrow> 's db" where
  "deleteFileFromCache E filename d =
     (if dirname filename = db_fileCachePath E \<and> filename \<in> set (db_cache d)
         \<and> \<not> db_unlink_fails E filename
      then d\<lparr>db_cache := filter (\<lambda>f. f \<noteq> filename) (db_cache d)\<rparr> else d)"

definition deleteFile :: "'s db_env \<Rightarrow> string \<Rightarrow> 's db \<Rightarrow> 's db_result" where
  "deleteFile E filename d =
     (let d = deleteFileFromCache E filename d;
          fileId = generateFileId (db_sha1 E) filename;
          (r, s) = lv_del (db_level E) fileId (db_files d)
      in and_then [done_call r] (deleteMetricsByFile E fileId) (d\<lparr>db_files := s\<rparr>))"

section \<open>Updating\<close>

text \<open>\<open>metric[name] = options; this.putMetric(metric, callback)\<close> after a lookup.\<close>

definition set_metric_option :: "'s db_env \<Rightarrow> string \<Rightarrow> string \<Rightarrow> jsval \<Rightarrow> 's db \<Rightarrow> 's db_result" where
  "set_metric_option E name metricId options d = (case parse_if_string options of
       Inl e \<Rightarrow> ([Threw e], d)
     | Inr options \<Rightarrow>
         (case lv_get (db_level E) (db_metrics d) metricId of
            Inl e \<Rightarrow> ([Failed e], d)
          | Inr metric \<Rightarrow> putMetric E (JObj (om_set name options (as_obj metric))) d))"

definition setMetricAggregationOptions :: "'s db_env \<Rightarrow> string \<Rightarrow> jsval \<Rightarrow> 's db \<Rightarrow> 's db_result" where
  "setMetricAggregationOptions E = set_metric_option E ''aggregation_options''"

definition setMetricModelOptions :: "'s db_env \<Rightarrow> string \<Rightarrow> jsval \<Rightarrow> 's db \<Rightarrow> 's db_result" where
  "setMetricModelOptions E = set_metric_option E ''model_options''"

definition setMetricInputOptions :: "'s db_env \<Rightarrow> string \<Rightarrow> jsval \<Rightarrow> 's db \<Rightarrow> 's db_result" where
  "setMetricInputOptions E = set_metric_option E ''input_options''"

text \<open>\<open>(error) => callback(error, record)\<close>\<close>

definition report_record :: "jsval \<Rightarrow> (jserr, jsval) call \<Rightarrow> (jserr, jsval) call" where
  "report_record v c = (case c of Done _ \<Rightarrow> Done v | Failed e \<Rightarrow> Failed e | Threw e \<Rightarrow> Threw e)"

definition updateModel :: "'s db_env \<Rightarrow> string \<Rightarrow> jsval \<Rightarrow> 's db \<Rightarrow> 's db_result" where
  "updateModel E modelId properties d = (case parse_if_string properties of
       Inl e \<Rightarrow> ([Threw e], d)
     | Inr properties \<Rightarrow>
         (case lv_get (db_level E) (db_models d) modelId of
            Inl e \<Rightarrow> ([Failed e], d)
          | Inr model \<Rightarrow>
              (let newModel = assign (assign [] (as_obj model)) (as_obj properties);
                   newModel = JObj (om_set ''modelId'' (JStr modelId) newModel);
                   errors = db_validate E DBModelSchema newModel
               in if errors \<noteq> [] then ([Failed (SchemaErrors errors)], d)
                  else (let (cs, d1) = putModel E newModel d
                        in (map (report_record newModel) cs, d1)))))"

definition updateMetric :: "'s db_env \<Rightarrow> string \<Rightarrow> jsval \<Rightarrow> 's db \<Rightarrow> 's db_result" where
  "updateMetric E metricId properties d = (case parse_if_string properties of
       Inl e \<Rightarrow> ([Threw e], d)
     | Inr properties \<Rightarrow>
         (case lv_get (db_level E) (db_metrics d) metricId of
            Inl e \<Rightarrow> ([Failed e], d)
          | Inr metric \<Rightarrow>
              (let newMetric = assign (assign [] (as_obj metric)) (as_obj properties);
                   newMetric = JObj (om_set ''uid'' (JStr metricId) newMetric);
                   errors = db_validate E DBMetricSchema newMetric
               in if errors \<noteq> [] then ([Failed (SchemaErrors errors)], d)
                  else (let (cs, d1) = putMetric E newMetric d
                        in (map (report_record newMetric) cs, d1)))))"

section \<open>Exporting\<close>

text \<open>
  The handler of one record: \<open>idx\<close> records came before it. The score of a record under
  probation is \<open>null\<close>; an empty \<open>timestampFormat\<close> keeps the stored timestamp.
\<close>

definition export_row :: "'m moment \<Rightarrow> string \<Rightarrow> nat \<Rightarrow> nat \<Rightarrow> jsval \<Rightarrow> jsval" where
  "export_row M timestampFormat probationLength idx result =
     (let score = (if idx + 1 \<le> probationLength then None
                   else Some (as_num (field result ''anomaly_score'')));
          iso = as_string (field result ''iso_timestamp'');
          timestamp = (if timestampFormat \<noteq> [] then
                         moment_format M (fst (parseIsoTimestampFallbackUtc M iso)) timestampFormat
                       else iso)
      in stringify (JObj [(''timestamp'', JStr timestamp),
                          (''metric_value'', field result ''metric_value''),
                          (''anomaly_level'', JStr (mapAnomalyText score)),
                          (''raw_anomaly_score'', field result ''anomaly_score'')]))"

text \<open>What the CSV writer is given, and the calls; the writer itself is a library.\<close>

definition exportModelData ::
    "'s db_env \<Rightarrow> 'm moment \<Rightarrow> string \<Rightarrow> string \<Rightarrow> nat \<Rightarrow> 's db \<Rightarrow> jsval list \<times> (jserr, jsval) calls" where
  "exportModelData E M metricId timestampFormat probationLength d =
     (let (err, entries) = lv_range (db_level E) (db_modelData d) (id_range metricId);
          written = map (\<lambda>(idx, result). export_row M timestampFormat probationLength idx result)
                        (List.enumerate 0 (map snd entries))
      in (written, [done_call err]))"

section \<open>Time series\<close>

text \<open>
  The abstract view of a data sublevel: for each metric (or model) a list of records with
  increasing indices. Thirteen digits of the key hold the index.
\<close>

definition keyed :: "string \<Rightarrow> (nat \<times> jsval) list \<Rightarrow> (string \<times> jsval) list" where
  "keyed m ps = map (\<lambda>p. (generateMetricDataId m (fst p), snd p)) ps"

definition ok_series :: "(nat \<times> jsval) list \<Rightarrow> bool" where
  "ok_series ps = (sorted_wrt (<) (map fst ps) \<and> (\<forall>i\<in>set (map fst ps). i < 10 ^ 13))"

definition holds_series :: "(string \<rightharpoonup> jsval) \<Rightarrow> string \<Rightarrow> (nat \<times> jsval) list \<Rightarrow> bool" where
  "holds_series c m ps = (\<forall>k. in_id_range m k \<longrightarrow> c k = map_of (keyed m ps) k)"

lemma self_le_append: "(m :: string) \<le> m @ xs"
  by (induction m) auto

lemma data_key_in_range [simp]: "in_id_range m (generateMetricDataId m i)"
  by (simp add: in_id_range_def generateMetricDataId_index char_less_ff self_le_append)

lemma key_in_from: "key_in (Some (generateMetricDataId m start, m @ [CHR 0xFF])) k \<longleftrightarrow>
    in_id_range m k \<and> generateMetricDataId m start \<le> k"
  using self_le_append [of m "''!'' @ index_string start"]
  by (auto simp: key_in_def in_id_range_def generateMetricDataId_index)

lemma ok_series_Nil [simp]: "ok_series []"
  by (simp add: ok_series_def)

lemma ok_series_append:
  "ok_series (ps @ qs) \<longleftrightarrow> ok_series ps \<and> ok_series qs \<and> (\<forall>i\<in>set (map fst ps). \<forall>j\<in>set (map fst qs). i < j)"
  by (auto simp: ok_series_def sorted_wrt_append)

lemma ok_series_filter: "ok_series ps \<Longrightarrow> ok_series (filter P ps)"
  by (auto simp: ok_series_def sorted_wrt_map sorted_wrt_filter)

lemma ok_series_enumerate: "n + length vs \<le> 10 ^ 13 \<Longrightarrow> ok_series (List.enumerate n vs)"
  by (auto simp: ok_series_def)

lemma ok_series_less: "ok_series ps \<Longrightarrow> p \<in> set ps \<Longrightarrow> fst p < 10 ^ 13"
  by (simp add: ok_series_def)

lemma sorted_keyed: "ok_series ps \<Longrightarrow> sorted_entries (keyed m ps)"
  unfolding ok_series_def sorted_entries_def keyed_def
  by (induction ps) (auto simp: dataId_less_iff simp del: power_numeral)

lemma keyed_append [simp]: "keyed m (ps @ qs) = keyed m ps @ keyed m qs"
  by (simp add: keyed_def)

lemma snd_keyed [simp]: "map snd (keyed m ps) = map snd ps"
  by (simp add: keyed_def)

lemma keyed_filter:
  assumes "ok_series ps" and "start < 10 ^ 13"
  shows "keyed m (filter (\<lambda>p. start \<le> fst p) ps)
         = filter (\<lambda>(k, v). generateMetricDataId m start \<le> k) (keyed m ps)"
proof -
  have "start \<le> fst p \<longleftrightarrow> generateMetricDataId m start \<le> generateMetricDataId m (fst p)" if "p \<in> set ps" for p
    using dataId_less_iff [OF ok_series_less [OF assms(1) that] assms(2), of m] by (simp add: not_less [symmetric])
  then show ?thesis by (auto simp: keyed_def filter_map comp_def cong: filter_cong)
qed

lemma keyed_in_range:
  assumes "map_of (keyed m ps) k = Some v"
  shows "in_id_range m k"
  using map_of_SomeD [OF assms] by (auto simp: keyed_def)

text \<open>The keys of one metric are outside the range of any other metric of the same id length.\<close>

definition separate :: "string \<Rightarrow> string \<Rightarrow> bool" where
  "separate m m' = (m \<noteq> m' \<and> length m = length m' \<and> CHR 0xFF \<notin> set m')"

lemma separate_keys: "separate m m' \<Longrightarrow> \<not> in_id_range m (generateMetricDataId m' i)"
  by (simp add: separate_def dataId_in_range_iff)

lemma stream_series:
  assumes "level_store (db_level E) content healthy" and "healthy s"
    and "holds_series (content s) m ps" and "ok_series ps" and "start < 10 ^ 13"
  shows "value_stream E s (Some (generateMetricDataId m start, m @ [CHR 0xFF])) f
         = [Done (stringify (JArr (map (f \<circ> snd) (filter (\<lambda>p. start \<le> fst p) ps))))]"
proof -
  let ?r = "Some (generateMetricDataId m start, m @ [CHR 0xFF])" and ?qs = "filter (\<lambda>p. start \<le> fst p) ps"
  have "map_of (keyed m ?qs) k = (if key_in ?r k then content s k else None)" for k
    using assms(3,4,5) keyed_in_range [of m ps k]
    by (cases "map_of (keyed m ps) k") (auto simp: keyed_filter map_of_filter_keys key_in_from holds_series_def)
  then have "lv_range (db_level E) s ?r = (None, keyed m ?qs)"
    using assms(4) by (intro level_store.range_eqI [OF assms(1,2)] sorted_keyed ok_series_filter) auto
  then show ?thesis
    by (simp add: value_stream_def stringifyResultsCallback_def flip: map_map)
qed

lemma stream_series_all:
  assumes "level_store (db_level E) content healthy" and "healthy s"
    and "holds_series (content s) m ps" and "ok_series ps"
  shows "value_stream E s (id_range m) f = [Done (stringify (JArr (map (f \<circ> snd) ps)))]"
proof -
  have "map_of (keyed m ps) k = (if key_in (id_range m) k then content s k else None)" for k
    using assms(3) keyed_in_range [of m ps k] by (auto simp: holds_series_def) (metis option.exhaust)
  then have "lv_range (db_level E) s (id_range m) = (None, keyed m ps)"
    using assms(4) by (intro level_store.range_eqI [OF assms(1,2)] sorted_keyed) auto
  then show ?thesis
    by (simp add: value_stream_def stringifyResultsCallback_def flip: map_map)
qed

lemma first_errors_Nil_iff: "first_errors check vs = [] \<longleftrightarrow> (\<forall>v\<in>set vs. check v = [])"
  by (induction vs) auto

text \<open>Writing a batch of records after the ones a metric has.\<close>

lemma holds_series_put:
  assumes "holds_series c m ps" and "ok_series (ps @ qs)"
  shows "holds_series (apply_ops (map (\<lambda>(k, v). PutOp k v) (keyed m qs)) c) m (ps @ qs)"
proof -
  have "distinct (map fst (keyed m qs))"
    using assms(2) sorted_entries_distinct sorted_keyed ok_series_append by blast
  then have "map_of (rev (keyed m qs)) = map_of (keyed m qs)"
    by (metis distinct_rev map_of_inject_set rev_map set_rev)
  moreover have "map_of (keyed m qs) ++ map_of (keyed m ps) = map_of (keyed m ps) ++ map_of (keyed m qs)"
    using sorted_entries_distinct [OF sorted_keyed [OF assms(2)], of m]
    by (intro map_add_comm) (auto simp: dom_map_of_conv_image_fst)
  ultimately show ?thesis
    using assms(1) by (auto simp: holds_series_def apply_ops_puts map_add_def split: option.split)
qed

lemma holds_series_other:
  assumes "holds_series c m' ps" and "separate m' m"
  shows "holds_series (apply_ops (map (\<lambda>(k, v). PutOp k v) (keyed m qs)) c) m' ps"
proof -
  have "map_of (rev (keyed m qs)) k = None" if "in_id_range m' k" for k
    using that separate_keys [OF assms(2)] by (auto simp: keyed_def map_of_eq_None_iff)
  with assms(1) show ?thesis by (simp add: holds_series_def apply_ops_puts map_add_def)
qed

text \<open>A validated batch on a working store.\<close>

lemma validated_batch_ok:
  assumes "level_store (db_level E) content healthy" and "healthy s"
    and "\<forall>v\<in>set vs. db_validate E sch v = []"
  obtains s' where "validated_batch E sch key (JArr vs) s = ([Done JUndef], s')" and "healthy s'"
    and "content s' = apply_ops (map (\<lambda>(i, v). PutOp (key i v) v) (List.enumerate 0 vs)) (content s)"
proof -
  let ?ops = "map (\<lambda>(i, v). PutOp (key i v) v) (List.enumerate 0 vs)"
  obtain s' where "lv_batch (db_level E) ?ops s = (None, s')"
    and "content s' = apply_ops ?ops (content s)" and "healthy s'"
    using level_store.batch_eq [OF assms(1,2), of ?ops] by blast
  moreover have "first_errors (db_validate E sch) vs = []"
    using assms(3) by (simp add: first_errors_Nil_iff)
  ultimately show ?thesis
    by (intro that [of s']) (simp_all add: validated_batch_def done_call_def)
qed

lemma validated_put_ok:
  assumes "level_store (db_level E) content healthy" and "healthy s" and "db_validate E sch v = []"
  obtains s' where "validated_put E sch key v s = ([Done JUndef], s')" and "healthy s'"
    and "content s' = (content s)(key \<mapsto> v)"
proof -
  obtain s' where "lv_put (db_level E) key v s = (None, s')"
    and "content s' = (content s)(key \<mapsto> v)" and "healthy s'"
    using level_store.put_eq [OF assms(1,2), of key v] by blast
  with assms(3) show ?thesis
    by (intro that [of s']) (simp_all add: validated_put_def done_call_def)
qed

lemma enumerate_ops:
  "map (\<lambda>(i, v). PutOp (generateMetricDataId m (n + i)) v) (List.enumerate 0 vs)
   = map (\<lambda>(k, v). PutOp k v) (keyed m (List.enumerate n vs))"
proof -
  have "List.enumerate n vs = map (\<lambda>(i, v). (n + i, v)) (List.enumerate 0 vs)"
    by (simp add: enumerate_map_upt [symmetric] list_eq_iff_nth_eq nth_enumerate_eq)
  then show ?thesis by (simp add: keyed_def case_prod_beta comp_def)
qed

lemma apply_ops_single: "apply_ops (map (\<lambda>(k, v). PutOp k v) (keyed m [(i, v)])) c = c(generateMetricDataId m i \<mapsto> v)"
  by (simp add: keyed_def apply_ops_def)
text \<open>Writing one metric value: what it does to the series of its metric and of the others.\<close>

lemma putMetricData_ok:
  assumes "level_store (db_level E) content healthy" and "healthy (db_metricData d)"
    and "parse_if_string arg = Inr v" and "db_validate E DBMetricDataSchema v = []"
  obtains s' where "putMetricData E m n arg d = ([Done JUndef], d\<lparr>db_metricData := s'\<rparr>)" and "healthy s'"
    and "\<And>ps. holds_series (content (db_metricData d)) m ps \<Longrightarrow> ok_series (ps @ [(n, v)])
           \<Longrightarrow> holds_series (content s') m (ps @ [(n, v)])"
    and "\<And>m' ps. holds_series (content (db_metricData d)) m' ps \<Longrightarrow> separate m' m \<Longrightarrow> holds_series (content s') m' ps"
proof -
  obtain s' where s': "validated_put E DBMetricDataSchema (generateMetricDataId m n) v (db_metricData d)
      = ([Done JUndef], s')" "healthy s'"
      "content s' = (content (db_metricData d))(generateMetricDataId m n \<mapsto> v)"
    by (rule validated_put_ok [OF assms(1,2,4)])
  show ?thesis
  proof (rule that [of s'])
    show "putMetricData E m n arg d = ([Done JUndef], d\<lparr>db_metricData := s'\<rparr>)"
      using s'(1) assms(3) by (simp add: putMetricData_def)
    show "holds_series (content s') m (ps @ [(n, v)])"
      if "holds_series (content (db_metricData d)) m ps" "ok_series (ps @ [(n, v)])" for ps
      using holds_series_put [OF that] s'(3) by (simp only: apply_ops_single)
    show "holds_series (content s') m' ps"
      if "holds_series (content (db_metricData d)) m' ps" "separate m' m" for m' ps
      using holds_series_other [OF that, of "[(n, v)]"] s'(3) by (simp only: apply_ops_single)
  qed (rule s'(2))
qed

section \<open>Deletion on working stores\<close>

definition works :: "('s \<Rightarrow> bool) \<Rightarrow> 's db \<Rightarrow> bool" where
  "works healthy d = (healthy (db_metrics d) \<and> healthy (db_metricData d) \<and> healthy (db_models d)
     \<and> healthy (db_modelData d))"

text \<open>\<open>d'\<close> is \<open>d\<close> without the metrics and models \<open>ms\<close> and without their data.\<close>

definition without :: "('s \<Rightarrow> string \<rightharpoonup> jsval) \<Rightarrow> string set \<Rightarrow> 's db \<Rightarrow> 's db \<Rightarrow> bool" where
  "without content ms d d' =
     (content (db_metrics d') = content (db_metrics d) |` (- ms)
      \<and> content (db_models d') = content (db_models d) |` (- ms)
      \<and> content (db_metricData d') = content (db_metricData d) |` {k. \<forall>m\<in>ms. \<not> in_id_range m k}
      \<and> content (db_modelData d') = content (db_modelData d) |` {k. \<forall>m\<in>ms. \<not> in_id_range m k}
      \<and> db_files d' = db_files d \<and> db_cache d' = db_cache d)"

lemma without_empty [simp]: "without content {} d d"
  by (auto simp: without_def restrict_map_def)

lemma map_del_restrict: "c(k := None) = c |` (- {k})"
  by (auto simp: restrict_map_def)

lemma without_trans: "without content ms d d1 \<Longrightarrow> without content ns d1 d2 \<Longrightarrow> without content (ms \<union> ns) d d2"
  by (auto simp: without_def Int_def Ball_def Un_def Compl_eq intro!: arg_cong2 [of _ _ _ _ restrict_map])

lemma delete_stream_ok:
  assumes "level_store (db_level E) content healthy" and "healthy s"
  obtains s' where "delete_stream E m s = ([Done JUndef], s')" and "healthy s'"
    and "content s' = content s |` {k. \<not> in_id_range m k}"
proof -
  obtain xs where xs: "lv_range (db_level E) s (id_range m) = (None, xs)"
    using level_store.range_ok [OF assms, of "id_range m"] by (metis prod.collapse)
  obtain s' where s': "lv_batch (db_level E) (map DelOp (map fst xs)) s = (None, s')" and "healthy s'"
    using level_store.batch_eq [OF assms, of "map DelOp (map fst xs)"] by blast
  moreover have "content s' = content s |` {k. \<not> in_id_range m k}"
    using level_store.delete_range [OF assms(1) xs s'] by (auto simp: restrict_map_def)
  ultimately show ?thesis
    using xs by (intro that [of s']) (simp_all add: delete_stream_def done_call_def)
qed

lemma deleteModel_ok:
  assumes "level_store (db_level E) content healthy" and "works healthy d"
  obtains d' where "deleteModel E m d = ([Done JUndef], d')" and "works healthy d'"
    and "content (db_models d') = content (db_models d) |` (- {m})"
    and "content (db_modelData d') = content (db_modelData d) |` {k. \<not> in_id_range m k}"
    and "db_metrics d' = db_metrics d" and "db_metricData d' = db_metricData d"
    and "db_files d' = db_files d" and "db_cache d' = db_cache d"
proof -
  have h: "healthy (db_models d)" "healthy (db_modelData d)" using assms(2) by (auto simp: works_def)
  obtain s where s: "lv_del (db_level E) m (db_models d) = (None, s)" "healthy s"
      "content s = (content (db_models d))(m := None)"
    using level_store.del_eq [OF assms(1) h(1), of m] by blast
  obtain t where t: "delete_stream E m (db_modelData d) = ([Done JUndef], t)" "healthy t"
      "content t = content (db_modelData d) |` {k. \<not> in_id_range m k}"
    using delete_stream_ok [OF assms(1) h(2)] by blast
  show ?thesis
    using s t assms(2)
    by (intro that [of "d\<lparr>db_models := s, db_modelData := t\<rparr>"])
      (simp_all add: deleteModel_def deleteModelData_def done_call_def and_then_single works_def
        map_del_restrict)
qed

lemma deleteMetric_ok:
  assumes "level_store (db_level E) content healthy" and "works healthy d"
  obtains d' where "deleteMetric E m d = ([Done JUndef], d')" and "works healthy d'"
    and "without content {m} d d'"
proof -
  have h: "healthy (db_metrics d)" "healthy (db_metricData d)" using assms(2) by (auto simp: works_def)
  obtain s where s: "lv_del (db_level E) m (db_metrics d) = (None, s)" "healthy s"
      "content s = (content (db_metrics d))(m := None)"
    using level_store.del_eq [OF assms(1) h(1), of m] by blast
  obtain t where t: "delete_stream E m (db_metricData d) = ([Done JUndef], t)" "healthy t"
      "content t = content (db_metricData d) |` {k. \<not> in_id_range m k}"
    using delete_stream_ok [OF assms(1) h(2)] by blast
  let ?d = "d\<lparr>db_metrics := s, db_metricData := t\<rparr>"
  have "works healthy ?d" using s t assms(2) by (simp add: works_def)
  then obtain d' where "deleteModel E m ?d = ([Done JUndef], d')" "works healthy d'"
    "content (db_models d') = content (db_models ?d) |` (- {m})"
    "content (db_modelData d') = content (db_modelData ?d) |` {k. \<not> in_id_range m k}"
    "db_metrics d' = db_metrics ?d" "db_metricData d' = db_metricData ?d"
    "db_files d' = db_files ?d" "db_cache d' = db_cache ?d"
    using deleteModel_ok [OF assms(1)] by blast
  with s t show ?thesis
    by (intro that [of d'])
      (simp_all add: deleteMetric_def deleteMetricData_def done_call_def and_then_single
        map_del_restrict without_def)
qed

lemma delete_each_ok:
  assumes "level_store (db_level E) content healthy" and "works healthy d" and "k + length ms = n"
  shows "\<exists>d'. delete_each E n k ms d = (if ms = [] then [] else [Done JUndef], d')
           \<and> works healthy d' \<and> without content (set ms) d d'"
  using assms(2,3)
proof (induction ms arbitrary: d k)
  case Nil
  then show ?case by simp
next
  case (Cons m ms)
  obtain d1 where d1: "deleteMetric E m d = ([Done JUndef], d1)" "works healthy d1" "without content {m} d d1"
    using deleteMetric_ok [OF assms(1) Cons.prems(1)] by blast
  from Cons.IH [OF d1(2), of "k + 1"] Cons.prems(2)
  obtain d2 where d2: "delete_each E n (k + 1) ms d1 = (if ms = [] then [] else [Done JUndef], d2)"
      "works healthy d2" "without content (set ms) d1 d2" by auto
  have "without content (set (m # ms)) d d2"
    using without_trans [OF d1(3) d2(3)] by simp
  with d1 d2 Cons.prems(2) show ?case by auto
qed
section \<open>Properties\<close>

text \<open>A database over in-memory stores, on which the properties are exercised.\<close>

definition mem_env :: "jsval mem db_env" where
  "mem_env = \<lparr>db_level = mem_level,
     db_validate = (\<lambda>sch v. case v of JObj _ \<Rightarrow> [] | _ \<Rightarrow> [''not an object'']),
     db_sha1 = (\<lambda>s. s), db_fileCachePath = ''/files'', db_unlink_fails = (\<lambda>f. False)\<rparr>"

definition empty_mem :: "jsval mem" where
  "empty_mem = \<lparr>mem_fail = False, mem_data = []\<rparr>"

definition mem_db :: "jsval mem db" where
  "mem_db = \<lparr>db_files = empty_mem, db_metrics = empty_mem, db_metricData = empty_mem,
     db_models = empty_mem, db_modelData = empty_mem, db_cache = []\<rparr>"

lemmas mem_defs = mem_env_def mem_db_def empty_mem_def mem_content_def

lemma mem_env_store: "level_store (db_level mem_env) mem_content (\<lambda>s. \<not> mem_fail s)"
  by (simp add: mem_env_def mem.level_store_axioms)

lemma mem_db_works: "works (\<lambda>s. \<not> mem_fail s) mem_db"
  by (simp add: works_def mem_defs)

lemma mem_db_series: "holds_series (mem_content empty_mem) m []"
  by (simp add: holds_series_def keyed_def mem_defs)

text \<open>C3: a batch of valid model records, serialised or not, written at an index after all
  records of the model, is reported once as done; from then on the model's data from any start
  index is the old records followed by the new ones, in index order, and every other model
  reads as before.\<close>

theorem putModelDataBatch_appends:
  assumes "level_store (db_level E) content healthy" and "healthy (db_modelData d)"
    and "holds_series (content (db_modelData d)) m ps" and "ok_series ps"
    and "parse_if_string arg = Inr (JArr vs)"
    and "\<forall>v\<in>set vs. db_validate E DBModelDataSchema v = []"
    and "\<forall>i\<in>set (map fst ps). i < n" and "n + length vs \<le> 10 ^ 13"
  shows "\<exists>d'. putModelDataBatch E m n arg d = ([Done JUndef], d') \<and>
    (\<forall>start<10 ^ 13. getModelData E m (Some start) d' =
       [Done (stringify (JArr (map (model_row \<circ> snd)
          (filter (\<lambda>p. start \<le> fst p) (ps @ List.enumerate n vs)))))]) \<and>
    (\<forall>m' qs start. separate m' m \<and> ok_series qs \<and> holds_series (content (db_modelData d)) m' qs
       \<and> start < 10 ^ 13 \<longrightarrow> getModelData E m' (Some start) d' = getModelData E m' (Some start) d)"
proof -
  let ?qs = "List.enumerate n vs"
  obtain s' where s': "validated_batch E DBModelDataSchema (\<lambda>i value. generateMetricDataId m (n + i))
        (JArr vs) (db_modelData d) = ([Done JUndef], s')" "healthy s'"
      "content s' = apply_ops (map (\<lambda>(k, v). PutOp k v) (keyed m ?qs)) (content (db_modelData d))"
    by (rule validated_batch_ok [OF assms(1,2,6), of "\<lambda>i value. generateMetricDataId m (n + i)"])
      (simp only: enumerate_ops)
  have ok: "ok_series (ps @ ?qs)"
    using assms(4,7,8) by (auto simp: ok_series_append ok_series_enumerate in_set_enumerate_eq)
  have read: "value_stream E s' (Some (generateMetricDataId m start, m @ [CHR 0xFF])) model_row
      = [Done (stringify (JArr (map (model_row \<circ> snd) (filter (\<lambda>p. start \<le> fst p) (ps @ ?qs)))))]"
    if "start < 10 ^ 13" for start
    using stream_series [OF assms(1) s'(2) _ ok that] holds_series_put [OF assms(3) ok] s'(3) by simp
  have other: "value_stream E s' r model_row = value_stream E (db_modelData d) r model_row"
    if "separate m' m" "ok_series qs" "holds_series (content (db_modelData d)) m' qs" "start < 10 ^ 13"
      and "r = Some (generateMetricDataId m' start, m' @ [CHR 0xFF])" for m' qs start r
    using stream_series [OF assms(1) s'(2) _ that(2,4)] stream_series [OF assms(1,2) that(3,2,4)]
      holds_series_other [OF that(3,1)] s'(3) that(5) by simp
  let ?d = "d\<lparr>db_modelData := s'\<rparr>"
  have "putModelDataBatch E m n arg d = ([Done JUndef], ?d)"
    using s'(1) assms(5) by (simp add: putModelDataBatch_def)
  moreover have "\<forall>start<10 ^ 13. getModelData E m (Some start) ?d = [Done (stringify (JArr (map (model_row \<circ> snd)
          (filter (\<lambda>p. start \<le> fst p) (ps @ ?qs)))))]"
    using read by (simp only: getModelData_def Let_def option.case db.simps) simp
  moreover have "getModelData E m' (Some start) ?d = getModelData E m' (Some start) d"
    if "separate m' m" "ok_series qs" "holds_series (content (db_modelData d)) m' qs" "start < 10 ^ 13" for m' qs start
    using other [OF that refl] by (simp add: getModelData_def)
  ultimately show ?thesis by blast
qed

theorem putModelDataBatch_appends_witness:
  "\<exists>d'. putModelDataBatch mem_env ''m'' 0 (JArr [JObj [(''naive_time'', JNum (Fin 5))], JObj []]) mem_db
      = ([Done JUndef], d') \<and>
    getModelData mem_env ''m'' (Some 1) d' = [Done (stringify (JArr [JArr [JUndef, JUndef, JUndef]]))]"
proof -
  let ?vs = "[JObj [(''naive_time'', JNum (Fin 5))], JObj []]"
  have "level_store (db_level mem_env) mem_content (\<lambda>s. \<not> mem_fail s)" by (rule mem_env_store)
  note * = putModelDataBatch_appends [OF this, of mem_db "''m''" "[]" "JArr ?vs" ?vs 0]
  have "\<not> mem_fail (db_modelData mem_db)" "holds_series (mem_content (db_modelData mem_db)) ''m'' []"
    using mem_db_series by (auto simp: mem_db_def empty_mem_def)
  moreover have "parse_if_string (JArr ?vs) = Inr (JArr ?vs)" by (simp add: parse_if_string_def is_string_def)
  ultimately obtain d' where d': "putModelDataBatch mem_env ''m'' 0 (JArr ?vs) mem_db = ([Done JUndef], d')"
    "\<forall>start<10 ^ 13. getModelData mem_env ''m'' (Some start) d' = [Done (stringify (JArr (map (model_row \<circ> snd)
          (filter (\<lambda>p. start \<le> fst p) ([] @ List.enumerate 0 ?vs)))))]"
    using * by (auto simp: mem_env_def)
  have "getModelData mem_env ''m'' (Some 1) d' = [Done (stringify (JArr [model_row (JObj [])]))]"
    using d'(2) [rule_format, of 1] by simp
  with d'(1) show ?thesis by (auto simp: model_row_def field_def)
qed

text \<open>metric values are written one by one at increasing record indices, with gaps where
  a row was not stored: a valid record written after the others is reported once and read
  back last, with all the earlier ones in order.\<close>

theorem putMetricData_appends:
  assumes "level_store (db_level E) content healthy" and "healthy (db_metricData d)"
    and "holds_series (content (db_metricData d)) m ps" and "ok_series ps"
    and "parse_if_string arg = Inr v" and "db_validate E DBMetricDataSchema v = []"
    and "\<forall>i\<in>set (map fst ps). i < n" and "n < 10 ^ 13"
  shows "\<exists>d'. putMetricData E m n arg d = ([Done JUndef], d') \<and> healthy (db_metricData d') \<and>
    holds_series (content (db_metricData d')) m (ps @ [(n, v)]) \<and>
    getMetricData E m d' = [Done (stringify (JArr (map (metric_row \<circ> snd) (ps @ [(n, v)]))))]"
proof -
  have ok: "ok_series (ps @ [(n, v)])"
    using assms(4,7,8) by (simp add: ok_series_append) (simp add: ok_series_def)
  obtain s' where s': "putMetricData E m n arg d = ([Done JUndef], d\<lparr>db_metricData := s'\<rparr>)" "healthy s'"
      "holds_series (content s') m (ps @ [(n, v)])"
    using putMetricData_ok [OF assms(1,2,5,6)] assms(3) ok by metis
  then show ?thesis
    using stream_series_all [OF assms(1) s'(2,3) ok] by (simp add: getMetricData_def)
qed

theorem putMetricData_appends_witness:
  "\<exists>d'. putMetricData mem_env ''m'' 7 (JJson (JObj [(''naive_time'', JNum (Fin 5))])) mem_db = ([Done JUndef], d') \<and>
    getMetricData mem_env ''m'' d' = [Done (stringify (JArr [JArr [JNum (Fin 5), JUndef]]))]"
proof -
  let ?v = "JObj [(''naive_time'', JNum (Fin 5))]"
  have *: "\<not> mem_fail (db_metricData mem_db)" "holds_series (mem_content (db_metricData mem_db)) ''m'' []"
    using mem_db_series by (auto simp: mem_db_def empty_mem_def)
  have "parse_if_string (JJson ?v) = Inr ?v" "db_validate mem_env DBMetricDataSchema ?v = []"
    by (simp_all add: parse_if_string_def is_string_def json_parse_def mem_env_def)
  from putMetricData_appends [OF mem_env_store * _ this, of 7]
  show ?thesis by (auto simp: metric_row_def field_def obj_get_def)
qed
lemma validated_batch_rejected:
  assumes "i < length vs" and "db_validate E sch (vs ! i) = err" and "err \<noteq> []"
    and "\<forall>j<i. db_validate E sch (vs ! j) = []"
  shows "validated_batch E sch key (JArr vs) s = ([Failed (SchemaErrors err)], s)"
proof -
  have "first_errors (db_validate E sch) vs = err"
    using assms
  proof (induction vs arbitrary: i)
    case (Cons v vs)
    then show ?case by (cases i) (auto simp: All_less_Suc2)
  qed simp
  with assms(3) show ?thesis by (simp add: validated_batch_def)
qed

text \<open>a batch with an invalid record writes nothing: whatever the store, each batch
  operation makes one call, with the validation errors of the first invalid record, and leaves
  the database as it was; a string that is not JSON leaves the operation as an exception.\<close>

theorem put_batch_rejected:
  assumes "parse_if_string arg = Inr (JArr vs)" and "i < length vs"
    and "\<forall>j<i. db_validate E sch (vs ! j) = []" and "db_validate E sch (vs ! i) \<noteq> []"
  shows "(sch = DBFileSchema \<longrightarrow> putFileBatch E arg d = ([Failed (SchemaErrors (db_validate E sch (vs ! i)))], d)) \<and>
    (sch = DBMetricSchema \<longrightarrow> putMetricBatch E arg d = ([Failed (SchemaErrors (db_validate E sch (vs ! i)))], d)) \<and>
    (sch = DBModelSchema \<longrightarrow> putModelBatch E arg d = ([Failed (SchemaErrors (db_validate E sch (vs ! i)))], d)) \<and>
    (sch = DBModelDataSchema \<longrightarrow> putModelDataBatch E m n arg d = ([Failed (SchemaErrors (db_validate E sch (vs ! i)))], d)) \<and>
    (sch = DBMetricDataSchema \<longrightarrow> putMetricDataBatch E m n arg d = ([Failed (SchemaErrors (db_validate E sch (vs ! i)))], d)) \<and>
    putFileBatch E (JStr s) d = ([Threw SyntaxError], d)"
proof -
  note rejected = validated_batch_rejected [OF assms(2) refl assms(4,3)]
  show ?thesis
    using assms(1) rejected
    by (auto simp: putFileBatch_def putMetricBatch_def putModelBatch_def putModelDataBatch_def
        putMetricDataBatch_def parse_if_string_def is_string_def json_parse_def)
qed

theorem put_batch_rejected_witness:
  "putModelDataBatch mem_env ''m'' 3 (JArr [JObj [], JNull]) mem_db
     = ([Failed (SchemaErrors [''not an object''])], mem_db)"
proof -
  have *: "parse_if_string (JArr [JObj [], JNull]) = Inr (JArr [JObj [], JNull])" "1 < length [JObj [], JNull]"
    "\<forall>j<1. db_validate mem_env DBModelDataSchema ([JObj [], JNull] ! j) = []"
    "db_validate mem_env DBModelDataSchema ([JObj [], JNull] ! 1) \<noteq> []"
    by (simp_all add: parse_if_string_def is_string_def mem_env_def)
  from put_batch_rejected [OF *, of mem_db "''m''" 3 "[]"] show ?thesis by (simp add: mem_env_def)
qed

lemma get_stored:
  assumes "level_store (db_level E) content healthy" and "healthy s" and "content s k = Some v"
  shows "lv_get (db_level E) s k = Inr v"
  using level_store.get_ok [OF assms(1,2)] assms(3) by simp



text \<open>on working stores \<open>deleteMetric\<close> reports once and removes the metric, the model of
  the same id, and the metric and model records in the key range of that id; nothing else
  changes: every other metric and model, all files, and the data of every other metric of
  the same id length stay.\<close>

theorem deleteMetric_removes:
  assumes "level_store (db_level E) content healthy" and "works healthy d"
  shows "\<exists>d'. deleteMetric E m d = ([Done JUndef], d') \<and> works healthy d' \<and>
    getMetric E m d' = [Failed NotFoundError] \<and> getModel E m d' = [Failed NotFoundError] \<and>
    getMetricData E m d' = [Done (stringify (JArr []))] \<and>
    (\<forall>k. k \<noteq> m \<longrightarrow> getMetric E k d' = getMetric E k d \<and> getModel E k d' = getModel E k d) \<and>
    (\<forall>k. getFile E k d' = getFile E k d) \<and>
    (\<forall>m' ps. separate m m' \<and> ok_series ps \<and> holds_series (content (db_metricData d)) m' ps
       \<and> CHR 0xFF \<notin> set m \<longrightarrow> getMetricData E m' d' = getMetricData E m' d)"
proof -
  obtain d' where d': "deleteMetric E m d = ([Done JUndef], d')" "works healthy d'" "without content {m} d d'"
    by (rule deleteMetric_ok [OF assms])
  then have h: "healthy (db_metrics d')" "healthy (db_models d')" "healthy (db_metricData d')"
      "healthy (db_metrics d)" "healthy (db_models d)" "healthy (db_metricData d)"
    using assms(2) by (auto simp: works_def)
  note get = level_store.get_ok [OF assms(1)]
  have "holds_series (content (db_metricData d')) m []"
    using d'(3) by (simp add: without_def holds_series_def keyed_def)
  then have none: "getMetricData E m d' = [Done (stringify (JArr []))]"
    using stream_series_all [OF assms(1) h(3), of m "[]" metric_row] by (simp add: getMetricData_def)
  have other: "getMetricData E m' d' = getMetricData E m' d"
    if "separate m m'" "ok_series ps" "holds_series (content (db_metricData d)) m' ps" "CHR 0xFF \<notin> set m" for m' ps
  proof -
    have "\<not> in_id_range m k" if k: "content (db_metricData d) k \<noteq> None" "in_id_range m' k" for k
    proof -
      from k \<open>holds_series (content (db_metricData d)) m' ps\<close> obtain v where "map_of (keyed m' ps) k = Some v"
        by (auto simp: holds_series_def)
      from map_of_SomeD [OF this] show ?thesis
        using separate_keys [OF \<open>separate m m'\<close>] by (auto simp: keyed_def)
    qed
    then have "content (db_metricData d') k = content (db_metricData d) k" if "in_id_range m' k" for k
      using that d'(3) by (cases "content (db_metricData d) k") (auto simp: without_def restrict_map_def)
    then have "holds_series (content (db_metricData d')) m' ps"
      using that(3) by (simp add: holds_series_def)
    then show ?thesis
      using stream_series_all [OF assms(1) h(3) _ that(2)] stream_series_all [OF assms(1) h(6) that(3,2)]
      by (simp add: getMetricData_def)
  qed
  show ?thesis
    using d' none other get [OF h(1)] get [OF h(2)] get [OF h(4)] get [OF h(5)]
    by (intro exI [of _ d']) (auto simp: getMetric_def getModel_def getFile_def stringifyResultsCallback_def without_def)
qed

theorem deleteMetric_removes_witness:
  "\<exists>d'. deleteMetric mem_env ''m'' mem_db = ([Done JUndef], d') \<and> getMetric mem_env ''m'' d' = [Failed NotFoundError]"
  using deleteMetric_removes [OF mem_env_store mem_db_works, of "''m''"] by blast
lemma deleteFile_no_metrics:
  assumes "level_store (db_level E) content healthy" and "healthy (db_files d)" and "healthy (db_metrics d)"
    and "\<forall>k. in_id_range (generateFileId (db_sha1 E) filename) k \<longrightarrow> content (db_metrics d) k = None"
  shows "deleteMetricsByFile E (generateFileId (db_sha1 E) filename) d = ([], d) \<and>
    (\<exists>d'. deleteFile E filename d = ([], d') \<and> getFileByName E filename d' = [Failed NotFoundError])"
proof -
  let ?f = "generateFileId (db_sha1 E) filename"
  have none: "lv_range (db_level E) (db_metrics d) (id_range ?f) = (None, [])"
    using assms(4) by (intro level_store.range_eqI [OF assms(1,3)]) (auto simp: sorted_entries_def)
  obtain s where s: "lv_del (db_level E) ?f (db_files d) = (None, s)" "healthy s"
      "content s = (content (db_files d))(?f := None)"
    using level_store.del_eq [OF assms(1,2), of ?f] by blast
  show ?thesis
    using none s level_store.get_ok [OF assms(1) s(2), of ?f]
    by (simp add: deleteMetricsByFile_def deleteFile_def deleteFileFromCache_def done_call_def
        and_then_single getFileByName_def stringifyResultsCallback_def)
qed

text \<open>deleting the metrics of a file never reports when the file has none: no call is made
  and the database stays as it is, so \<open>deleteFile\<close> removes the file record and never calls
  back.\<close>

theorem deleteFile_silent:
  assumes "level_store (db_level E) content healthy" and "healthy (db_files d)" and "healthy (db_metrics d)"
    and "\<forall>k. in_id_range (generateFileId (db_sha1 E) filename) k \<longrightarrow> content (db_metrics d) k = None"
  shows "deleteMetricsByFile E (generateFileId (db_sha1 E) filename) d = ([], d) \<and>
    (\<exists>d'. deleteFile E filename d = ([], d') \<and> getFileByName E filename d' = [Failed NotFoundError])"
  using deleteFile_no_metrics [OF assms] .

theorem deleteFile_silent_witness: "fst (deleteFile mem_env ''/files/a.csv'' mem_db) = []"
proof -
  have h: "\<not> mem_fail (db_files mem_db)" "\<not> mem_fail (db_metrics mem_db)"
    "\<forall>k. in_id_range (generateFileId (db_sha1 mem_env) ''/files/a.csv'') k \<longrightarrow> mem_content (db_metrics mem_db) k = None"
    by (simp_all add: mem_db_def empty_mem_def mem_content_def)
  from deleteFile_silent [OF mem_env_store h] show ?thesis by auto
qed


definition one_metric_db :: "jsval mem db" where
  "one_metric_db = mem_db\<lparr>db_metrics := \<lparr>mem_fail = False, mem_data = [(''a.csv!x'', JNull)]\<rparr>\<rparr>"


text \<open>when every deletion of a metric fails, \<open>deleteMetricsByFile\<close> calls back once for each
  metric of the file, always with an error, and deletes nothing; so its callback can run more
  than once.\<close>

theorem deleteMetricsByFile_repeats_errors:
  assumes "lv_range (db_level E) (db_metrics d) (id_range fileId) = (None, entries)"
    and "\<forall>k. lv_del (db_level E) k (db_metrics d) = (Some e, db_metrics d)"
  shows "deleteMetricsByFile E fileId d = (replicate (length entries) (Failed e), d)"
proof -
  have one: "deleteMetric E m d = ([Failed e], d)" for m
    using assms(2) by (simp add: deleteMetric_def done_call_def and_then_single)
  have "delete_each E n k ms d = (replicate (length ms) (Failed e), d)" for n k ms
    by (induction ms) (simp_all add: one)
  with assms(1) show ?thesis by (simp add: deleteMetricsByFile_def)
qed

definition full_db :: "jsval mem db" where
  "full_db = mem_db\<lparr>db_metrics := \<lparr>mem_fail = True, mem_data = [(''f!a'', JNull), (''f!b'', JNull)]\<rparr>\<rparr>"

theorem deleteMetricsByFile_repeats_errors_witness:
  "length (fst (deleteMetricsByFile mem_env ''f'' full_db)) = 2"
proof -
  have "in_id_range ''f'' ''f!a''" "in_id_range ''f'' ''f!b''" by (simp_all add: in_id_range_def)
  then have r: "lv_range (db_level mem_env) (db_metrics full_db) (id_range ''f'') = (None, [(''f!a'', JNull), (''f!b'', JNull)])"
    by (simp add: mem_env_def mem_level_def full_db_def mem_entries_def)
  have "\<forall>k. lv_del (db_level mem_env) k (db_metrics full_db)
         = (Some (OperationError ''write failed''), db_metrics full_db)"
    by (simp add: mem_env_def mem_level_def full_db_def mem_write_def)
  from deleteMetricsByFile_repeats_errors [OF r this] show ?thesis by simp
qed
text \<open>\<open>updateModel\<close> merges the given properties into the stored model: when the merged record
  is valid it is stored and reported once; it keeps the id under which it was looked up,
  whatever the properties say, takes every other given property, keeps the rest, and no other
  model changes. When the merged record is invalid, the errors are reported and nothing
  changes.\<close>

theorem updateModel_merges:
  fixes model props :: jsobj
  assumes "level_store (db_level E) content healthy" and "healthy (db_models d)"
    and "content (db_models d) modelId = Some (JObj model)" and "om_ok model" and "om_ok props"
    and "new = om_set ''modelId'' (JStr modelId) (assign (assign [] model) props)"
  shows "(db_validate E DBModelSchema (JObj new) = [] \<longrightarrow>
      (\<exists>d'. updateModel E modelId (JObj props) d = ([Done (JObj new)], d')
        \<and> getModel E modelId d' = [Done (stringify (JObj new))]
        \<and> (\<forall>k. k \<noteq> modelId \<longrightarrow> getModel E k d' = getModel E k d)))
    \<and> (db_validate E DBModelSchema (JObj new) \<noteq> [] \<longrightarrow>
      updateModel E modelId (JObj props) d = ([Failed (SchemaErrors (db_validate E DBModelSchema (JObj new)))], d))
    \<and> obj_get new ''modelId'' = JStr modelId
    \<and> (\<forall>k. k \<noteq> ''modelId'' \<longrightarrow> obj_get new k = (if om_has props k then obj_get props k else obj_get model k))"
proof -
  have fields: "obj_get new k = (if k = ''modelId'' then JStr modelId
      else if om_has props k then obj_get props k else obj_get model k)" for k
    using assms(4-6) by (auto simp: obj_get_assign om_has_def) (simp add: obj_get_def)
  have upd: "updateModel E modelId (JObj props) d =
     (if db_validate E DBModelSchema (JObj new) \<noteq> [] then ([Failed (SchemaErrors (db_validate E DBModelSchema (JObj new)))], d)
      else (let (cs, d1) = putModel E (JObj new) d in (map (report_record (JObj new)) cs, d1)))"
    using get_stored [OF assms(1-3)] by (simp add: updateModel_def parse_if_string_def is_string_def assms(6) Let_def)
  have key: "modelId_key (JObj new) = modelId" by (simp add: modelId_key_def field_def fields)
  have "\<exists>d'. updateModel E modelId (JObj props) d = ([Done (JObj new)], d')
        \<and> getModel E modelId d' = [Done (stringify (JObj new))]
        \<and> (\<forall>k. k \<noteq> modelId \<longrightarrow> getModel E k d' = getModel E k d)"
    if ok: "db_validate E DBModelSchema (JObj new) = []"
  proof -
    obtain s where s: "validated_put E DBModelSchema modelId (JObj new) (db_models d) = ([Done JUndef], s)"
      "healthy s" "content s = (content (db_models d))(modelId \<mapsto> JObj new)"
      by (rule validated_put_ok [OF assms(1,2) ok])
    then show ?thesis
      using upd ok level_store.get_ok [OF assms(1) s(2)] level_store.get_ok [OF assms(1,2)]
      by (intro exI [of _ "d\<lparr>db_models := s\<rparr>"])
        (simp add: putModel_def key report_record_def getModel_def stringifyResultsCallback_def)
  qed
  then show ?thesis using upd fields by auto
qed

definition one_model_db :: "jsval mem db" where
  "one_model_db = mem_db\<lparr>db_models := \<lparr>mem_fail = False, mem_data = [(''m'', JObj [(''active'', JBool True)])]\<rparr>\<rparr>"

theorem updateModel_merges_witness:
  "fst (updateModel mem_env ''m'' (JObj [(''modelId'', JStr ''x''), (''ran'', JBool True)]) one_model_db)
   = [Done (JObj [(''active'', JBool True), (''modelId'', JStr ''m''), (''ran'', JBool True)])]"
proof -
  have *: "\<not> mem_fail (db_models one_model_db)"
    "mem_content (db_models one_model_db) ''m'' = Some (JObj [(''active'', JBool True)])"
    "om_ok [(''active'', JBool True)]" "om_ok [(''modelId'', JStr ''x''), (''ran'', JBool True)]"
    by (simp_all add: one_model_db_def mem_content_def om_ok_def)
  from updateModel_merges [OF mem_env_store * refl] show ?thesis
    by (auto simp: mem_env_def assign_def)
qed

text \<open>What one exported row must show of its record.\<close>

definition export_row_spec :: "string \<Rightarrow> nat \<Rightarrow> nat \<Rightarrow> jsval \<Rightarrow> jsval \<Rightarrow> bool" where
  "export_row_spec format probation i r row =
     (let score = as_num (field r ''anomaly_score''); level = field row ''anomaly_level''
      in field row ''metric_value'' = field r ''metric_value''
       \<and> field row ''raw_anomaly_score'' = field r ''anomaly_score''
       \<and> (i < probation \<longrightarrow> level = JStr ''N/A'')
       \<and> (probation \<le> i \<and> jle ANOMALY_RED_VALUE score \<longrightarrow> level = JStr ''HIGH'')
       \<and> (probation \<le> i \<and> jle ANOMALY_YELLOW_VALUE score \<and> jlt score ANOMALY_RED_VALUE \<longrightarrow> level = JStr ''MEDIUM'')
       \<and> (probation \<le> i \<and> jlt score ANOMALY_YELLOW_VALUE \<longrightarrow> level = JStr ''LOW'')
       \<and> (format = [] \<longrightarrow> field row ''timestamp'' = JStr (as_string (field r ''iso_timestamp''))))"

text \<open>the export of a model's series writes one row per record, in index order, and reports
  success once; the anomaly level of the first \<open>probationLength\<close> rows is \<open>N/A\<close>, that of a later row
  grades its score, and every row carries the stored value and the raw score.\<close>

theorem exportModelData_rows:
  assumes "level_store (db_level E) content healthy" and "healthy (db_modelData d)"
    and "holds_series (content (db_modelData d)) m ps" and "ok_series ps"
  shows "\<exists>rows. exportModelData E M m format probation d = (map stringify rows, [Done JUndef])
    \<and> length rows = length ps
    \<and> (\<forall>i<length ps. export_row_spec format probation i (snd (ps ! i)) (rows ! i))"
proof -
  have "map_of (keyed m ps) k = (if key_in (id_range m) k then content (db_modelData d) k else None)" for k
    using assms(3) keyed_in_range [of m ps k] by (auto simp: holds_series_def) (metis option.exhaust)
  then have r: "lv_range (db_level E) (db_modelData d) (id_range m) = (None, keyed m ps)"
    using assms(4) by (intro level_store.range_eqI [OF assms(1,2)] sorted_keyed) auto
  have not_le: "jlt a b \<Longrightarrow> \<not> jle b a" for a b by (cases a; cases b) (auto simp: jle_def jeq_def)
  define row where "row = (\<lambda>i r. JObj [(''timestamp'', JStr (if format \<noteq> [] then moment_format M
              (fst (parseIsoTimestampFallbackUtc M (as_string (field r ''iso_timestamp'')))) format
            else as_string (field r ''iso_timestamp''))),
       (''metric_value'', field r ''metric_value''),
       (''anomaly_level'', JStr (mapAnomalyText (if i + 1 \<le> probation then None else Some (as_num (field r ''anomaly_score''))))),
       (''raw_anomaly_score'', field r ''anomaly_score'')])"
  let ?rows = "map (\<lambda>(i, r). row i r) (List.enumerate 0 (map snd ps))"
  have "exportModelData E M m format probation d = (map stringify ?rows, [Done JUndef])"
    by (simp add: exportModelData_def r done_call_def export_row_def row_def Let_def case_prod_beta comp_def)
  moreover have "?rows ! i = row i (snd (ps ! i))" if "i < length ps" for i
    using that by (simp add: nth_enumerate_eq)
  ultimately show ?thesis
    using yellow_le_red not_le
    by (intro exI [of _ ?rows]) (auto simp: export_row_spec_def row_def field_def obj_get_def mapAnomalyText_def Let_def)
qed

definition series_db :: "jsval mem db" where
  "series_db = mem_db\<lparr>db_modelData := \<lparr>mem_fail = False, mem_data =
     keyed ''m'' [(0, JObj [(''anomaly_score'', JNum (Fin 1))]), (1, JObj [(''anomaly_score'', JNum (Fin 1))])]\<rparr>\<rparr>"

theorem exportModelData_rows_witness:
  "\<exists>rows. exportModelData mem_env no_moment ''m'' '''' 1 series_db = (map stringify rows, [Done JUndef]) \<and>
     length rows = 2 \<and> field (rows ! 0) ''anomaly_level'' = JStr ''N/A'' \<and>
     field (rows ! 1) ''anomaly_level'' = JStr ''HIGH''"
proof -
  let ?ps = "[(0 :: nat, JObj [(''anomaly_score'', JNum (Fin 1))]), (1, JObj [(''anomaly_score'', JNum (Fin 1))])]"
  have *: "\<not> mem_fail (db_modelData series_db)" "holds_series (mem_content (db_modelData series_db)) ''m'' ?ps" "ok_series ?ps"
    by (simp_all add: series_db_def holds_series_def mem_content_def ok_series_def)
  obtain rows where r: "exportModelData mem_env no_moment ''m'' '''' 1 series_db = (map stringify rows, [Done JUndef])
    \<and> length rows = length ?ps \<and> (\<forall>i<length ?ps. export_row_spec '''' 1 i (snd (?ps ! i)) (rows ! i))"
    using exportModelData_rows [OF mem_env_store *, of no_moment "''''" 1] by (rule exE)
  then have "export_row_spec '''' 1 0 (snd (?ps ! 0)) (rows ! 0)" "export_row_spec '''' 1 1 (snd (?ps ! 1)) (rows ! 1)"
    by (simp_all add: All_less_Suc2)
  then have "field (rows ! 0) ''anomaly_level'' = JStr ''N/A''" "field (rows ! 1) ''anomaly_level'' = JStr ''HIGH''"
    by (simp_all add: export_row_spec_def field_def obj_get_def ANOMALY_RED_VALUE_def jle_def Let_def)
  moreover have "length rows = 2" using r by simp
  ultimately show ?thesis using r by blast
qed

end
