(* ===== verification/File_Service.thy ===== *)
theory File_Service
  imports JS_Value Generate_Id
begin

text \<open>
  The file service of the main process (\<open>app/main/FileService.js\<close>): field guessing, the
  slice of a CSV file a caller asks for, column statistics and the validation of a whole
  file. A file is the list of rows that the CSV parser (\<open>csv-streamify\<close> behind
  \<open>convert-newline\<close>) emits; \<open>moment\<close>, \<open>Date.parse\<close> and SHA-1 are parameters. The lemmas show
  what an accepted file guarantees.
\<close>

section \<open>Environment\<close>

record file_env =
  fe_sha1 :: "string \<Rightarrow> string"
  fe_valid_time :: "string option \<Rightarrow> string option \<Rightarrow> bool \<Rightarrow> bool"
  fe_date_parses :: "string \<Rightarrow> bool"
  fe_now :: "string \<Rightarrow> string"

definition NA_STRINGS :: "string list" where
  "NA_STRINGS = [''nan'', ''none'', ''null'', ''n/a'', ''na'', '''']"

text \<open>The keys of \<open>config/momentjs_to_datetime_strptime.json\<close>.\<close>

definition COMPOUND_TIMESTAMP_FORMATS :: "string list" where
  "COMPOUND_TIMESTAMP_FORMATS =
    [''YYYY-MM-DDTHH:mm:ss.SSSZ'', ''YYYY-MM-DDTHH:mm:ss.SSZ'', ''YYYY-MM-DDTHH:mm:ss.SZ'',
      ''YYYY-MM-DDTHH:mm:ss.SSS'', ''YYYY-MM-DDTHH:mm:ss.SS'', ''YYYY-MM-DDTHH:mm:ss.S'',
      ''YYYY-MM-DDTHH:mm:ssZ'', ''YYYY-MM-DDTHH:mm:ss'', ''YYYY-MM-DDTHH:mmZ'',
      ''YYYY-MM-DDTHH:mm'', ''YYYY-MM-DDTHHZ'', ''YYYY-MM-DDTHH'', ''YYYY/MM/DDTHH:mm:ss.SSSZ'',
      ''YYYY/MM/DDTHH:mm:ss.SSZ'', ''YYYY/MM/DDTHH:mm:ss.SZ'', ''YYYY/MM/DDTHH:mm:ss.SSS'',
      ''YYYY/MM/DDTHH:mm:ss.SS'', ''YYYY/MM/DDTHH:mm:ss.S'', ''YYYY/MM/DDTHH:mm:ssZ'',
      ''YYYY/MM/DDTHH:mm:ss'', ''YYYY/MM/DDTHH:mmZ'', ''YYYY/MM/DDTHH:mm'', ''YYYY/MM/DDTHHZ'',
      ''YYYY/MM/DDTHH'', ''YYYY-MM-DD HH:mm:ss.SSSZ'', ''YYYY-MM-DD HH:mm:ss.SSZ'',
      ''YYYY-MM-DD HH:mm:ss.SZ'', ''YYYY-MM-DD HH:mm:ss.SSS'', ''YYYY-MM-DD HH:mm:ss.SS'',
      ''YYYY-MM-DD HH:mm:ss.S'', ''YYYY-MM-DD HH:mm:ssZ'', ''YYYY-MM-DD HH:mm:ss'',
      ''YYYY-MM-DD HH:mmZ'', ''YYYY-MM-DD HH:mm'', ''YYYY-MM-DD HHZ'', ''YYYY-MM-DD HH'',
      ''YYYY-MM-DD'', ''YYYY/MM/DD HH:mm:ss.SSSZ'', ''YYYY/MM/DD HH:mm:ss.SSZ'',
      ''YYYY/MM/DD HH:mm:ss.SZ'', ''YYYY/MM/DD HH:mm:ss.SSS'', ''YYYY/MM/DD HH:mm:ss.SS'',
      ''YYYY/MM/DD HH:mm:ss.S'', ''YYYY/MM/DD HH:mm:ssZ'', ''YYYY/MM/DD HH:mm:ss'',
      ''YYYY/MM/DD HH:mmZ'', ''YYYY/MM/DD HH:mm'', ''YYYY/MM/DD HHZ'', ''YYYY/MM/DD HH'',
      ''YYYY/MM/DD'', ''MM-DD-YYYY hh:mm:ss.SSS A'', ''MM-DD-YYYY hh:mm:ss.SS A'',
      ''MM-DD-YYYY hh:mm:ss.S A'', ''MM-DD-YYYY hh:mm:ss A'', ''MM-DD-YYYY hh:mm A'',
      ''MM/DD/YYYY hh:mm:ss.SSS A'', ''MM/DD/YYYY hh:mm:ss.SS A'', ''MM/DD/YYYY hh:mm:ss.S A'',
      ''MM/DD/YYYY hh:mm:ss A'', ''MM/DD/YYYY hh:mm A'', ''MM-DD-YYYY HH:mm:ss.SSS'',
      ''MM-DD-YYYY HH:mm:ss.SS'', ''MM-DD-YYYY HH:mm:ss.S'', ''MM-DD-YYYY HH:mm:ss'',
      ''MM-DD-YYYY HH:mm'', ''MM/DD/YYYY HH:mm:ss.SSS'', ''MM/DD/YYYY HH:mm:ss.SS'',
      ''MM/DD/YYYY HH:mm:ss.S'', ''MM/DD/YYYY HH:mm:ss'', ''MM/DD/YYYY HH:mm'', ''MM-DD-YYYY'',
      ''MM-DD-YY'', ''MM/DD/YYYY'', ''MM/DD/YY'', ''MM/DD/YY H:mm'', ''MM/DD/YY H:mm:SS'',
      ''MM/DD/YY HH:mm'', ''MM/DD/YY HH:mm:SS'', ''MM/DD/YY H'', ''MM/DD/YY HH'', ''MM/D/YY H:mm'',
      ''MM/D/YY H:mm:SS'', ''MM/D/YY HH:mm'', ''MM/D/YY HH:mm:SS'', ''MM/D/YY H'', ''MM/D/YY HH'',
      ''MM/D/YY'', ''M/DD/YY H:mm'', ''M/DD/YY H:mm:SS'', ''M/DD/YY HH:mm'', ''M/DD/YY HH:mm:SS'',
      ''M/DD/YY H'', ''M/DD/YY HH'', ''M/DD/YY'', ''M/D/YY H:mm'', ''M/D/YY H:mm:SS'',
      ''M/D/YY HH:mm'', ''M/D/YY HH:mm:SS'', ''M/D/YY H'', ''M/D/YY HH'', ''M/D/YY'',
      ''MM/DD/YYYY H:mm'', ''MM/DD/YYYY H:mm:SS'', ''MM/DD/YYYY HH:mm:SS'', ''MM/DD/YYYY H'',
      ''MM/DD/YYYY HH'', ''MM/D/YYYY H:mm'', ''MM/D/YYYY H:mm:SS'', ''MM/D/YYYY HH:mm'',
      ''MM/D/YYYY HH:mm:SS'', ''MM/D/YYYY H'', ''MM/D/YYYY HH'', ''MM/D/YYYY'', ''M/DD/YYYY H:mm'',
      ''M/DD/YYYY H:mm:SS'', ''M/DD/YYYY HH:mm'', ''M/DD/YYYY HH:mm:SS'', ''M/DD/YYYY H'',
      ''M/DD/YYYY HH'', ''M/DD/YYYY'', ''M/D/YYYY H:mm'', ''M/D/YYYY H:mm:SS'', ''M/D/YYYY HH:mm'',
      ''M/D/YYYY HH:mm:SS'', ''M/D/YYYY H'', ''M/D/YYYY HH'', ''M/D/YYYY'']"

definition UNIX_TIMESTAMP_SEC_MOMENT_FORMAT :: string where
  "UNIX_TIMESTAMP_SEC_MOMENT_FORMAT = ''X''"

definition UNIX_TIMESTAMP_MILLISEC_MOMENT_FORMAT :: string where
  "UNIX_TIMESTAMP_MILLISEC_MOMENT_FORMAT = ''x''"

definition UNIX_TIMESTAMP_FORMATS :: "string list" where
  "UNIX_TIMESTAMP_FORMATS = [UNIX_TIMESTAMP_SEC_MOMENT_FORMAT, UNIX_TIMESTAMP_MILLISEC_MOMENT_FORMAT]"

definition MAX_UNIX_TIMESTAMP_IN_SECONDS :: jsnum where
  "MAX_UNIX_TIMESTAMP_IN_SECONDS = Fin 253402300799"

definition TIMESTAMP_HEADER_SUBSTRINGS :: "string list" where
  "TIMESTAMP_HEADER_SUBSTRINGS = [''time'', ''date'']"

section \<open>Cells and rows\<close>

text \<open>\<open>row[i]\<close>: \<open>undefined\<close> beyond the end.\<close>

definition cell :: "string list \<Rightarrow> nat \<Rightarrow> string option" where
  "cell row i = (if i < length row then Some (row ! i) else None)"

definition isNA :: "string option \<Rightarrow> bool" where
  "isNA entry = (case entry of
       None \<Rightarrow> True
     | Some e \<Rightarrow> remove_spaces (toLowerCase e) \<in> set NA_STRINGS)"

definition containsNA :: "string list \<Rightarrow> bool" where
  "containsNA row = list_ex (\<lambda>entry. isNA (Some entry)) row"

definition guessCompoundTimestampFormat :: "file_env \<Rightarrow> string \<Rightarrow> string option" where
  "guessCompoundTimestampFormat E timestamp =
     find (\<lambda>format. fe_valid_time E (Some timestamp) (Some format) True) COMPOUND_TIMESTAMP_FORMATS"

text \<open>
  The flags of the row are added up by \<open>reduce\<close> without an initial value: an empty row
  throws, and the "sum" of a single flag is that boolean, which never equals the number 1.
\<close>

definition resemblesHeaderRow :: "file_env \<Rightarrow> string list \<Rightarrow> jserr + bool" where
  "resemblesHeaderRow E row =
     (if row = [] then Inl TypeError
      else (let dates = filter (\<lambda>entry. guessCompoundTimestampFormat E entry \<noteq> None) row;
                one_date = (1 < length row \<and> length dates = 1);
                hasNumeric = list_ex (\<lambda>entry. is_finite (to_number entry)) row
            in Inr (\<not> (\<not> containsNA row \<and> one_date \<and> hasNumeric))))"

definition isDate :: "file_env \<Rightarrow> string \<Rightarrow> bool" where
  "isDate E value = (case value of
       [] \<Rightarrow> False
     | c # _ \<Rightarrow> if \<not> is_digit c then False else fe_date_parses E value)"

definition fieldNameCouldBeTimestamp :: "string \<Rightarrow> bool" where
  "fieldNameCouldBeTimestamp name =
     list_ex (\<lambda>v. str_contains (toLowerCase name) v) TIMESTAMP_HEADER_SUBSTRINGS"

section \<open>Guessing fields\<close>

datatype field_type = FDate | FNumber

text \<open>The properties of a field (a metric record) that the service sets.\<close>

record mfield =
  mf_uid :: string
  mf_file_uid :: string
  mf_name :: string
  mf_type :: field_type
  mf_format :: "string option"
  mf_index :: nat

definition mk_field :: "file_env \<Rightarrow> string \<Rightarrow> string \<Rightarrow> field_type \<Rightarrow> string option \<Rightarrow> nat \<Rightarrow> mfield" where
  "mk_field E filename name ty format index =
     \<lparr>mf_uid = generateMetricId (fe_sha1 E) filename name,
      mf_file_uid = generateFileId (fe_sha1 E) filename,
      mf_name = name, mf_type = ty, mf_format = format, mf_index = index\<rparr>"

text \<open>
  The name of a column: from the header row when there is one. A header row that is too short
  gives \<open>undefined\<close>, which \<open>generateMetricId\<close> cannot hash.
\<close>

definition field_name :: "string list option \<Rightarrow> nat \<Rightarrow> string \<Rightarrow> jserr + string" where
  "field_name names index other = (case names of
       None \<Rightarrow> Inr other
     | Some ns \<Rightarrow> if index < length ns then Inr (ns ! index) else Inl TypeError)"

fun guess_loop :: "file_env \<Rightarrow> string \<Rightarrow> string list option \<Rightarrow> nat \<Rightarrow> nat \<Rightarrow> string list \<Rightarrow> mfield list \<Rightarrow> jserr + mfield list" where
  "guess_loop E filename names metricX index [] flds = Inr flds"
| "guess_loop E filename names metricX index (v # vs) flds =
     (let value = trim v
      in if value \<noteq> [] then
           (case guessCompoundTimestampFormat E value of
              Some format \<Rightarrow>
                (case field_name names index ''timestamp'' of
                   Inl e \<Rightarrow> Inl e
                 | Inr name \<Rightarrow> guess_loop E filename names metricX (index + 1) vs
                     (flds @ [mk_field E filename name FDate (Some format) index]))
            | None \<Rightarrow>
                if is_finite (to_number value) then
                  (case field_name names index (''metric'' @ show_nat metricX) of
                     Inl e \<Rightarrow> Inl e
                   | Inr name \<Rightarrow> guess_loop E filename names
                       (if names = None then metricX + 1 else metricX) (index + 1) vs
                       (flds @ [mk_field E filename name FNumber None index]))
                else if isDate E value then
                  (case field_name names index (''timestamp'' @ show_nat (index + 1)) of
                     Inl e \<Rightarrow> Inl e
                   | Inr name \<Rightarrow> guess_loop E filename names metricX (index + 1) vs
                       (flds @ [mk_field E filename name FDate None index]))
                else guess_loop E filename names metricX (index + 1) vs flds)
         else guess_loop E filename names metricX (index + 1) vs flds)"

definition guessFields :: "file_env \<Rightarrow> string \<Rightarrow> string list \<Rightarrow> string list option \<Rightarrow> jserr + mfield list" where
  "guessFields E filename values names = guess_loop E filename names 1 0 values []"

section \<open>The fields of a file\<close>

text \<open>What \<open>getFields\<close> reports: an error, if any, with the fields and the offset; only an
  error; or an exception.\<close>

datatype fields_result =
    FieldsDone "string option" "mfield list" nat
  | NoFields string
  | FieldsThrew jserr

text \<open>A numeric column whose name hints at a time becomes a Unix timestamp.\<close>

definition unix_field :: "string list \<Rightarrow> mfield \<Rightarrow> mfield" where
  "unix_field values field =
     (let valueStr = trim (values ! mf_index field)
      in if mf_type field = FNumber \<and> jle (Fin 0) (to_number valueStr)
            \<and> fieldNameCouldBeTimestamp (mf_name field)
         then field\<lparr>mf_type := FDate,
                    mf_format := Some (if jle (to_number valueStr) MAX_UNIX_TIMESTAMP_IN_SECONDS
                                       then UNIX_TIMESTAMP_SEC_MOMENT_FORMAT
                                       else UNIX_TIMESTAMP_MILLISEC_MOMENT_FORMAT)\<rparr>
         else field)"

definition date_fields :: "mfield list \<Rightarrow> mfield list" where
  "date_fields flds = filter (\<lambda>field. mf_type field = FDate) flds"

definition fields_error :: "mfield list \<Rightarrow> string option" where
  "fields_error flds =
     (let dateFields = date_fields flds
      in if length dateFields \<noteq> 1 then Some ''The file should have one and only one date/time column''
         else if mf_format (hd dateFields) = None then
           Some (''The date/time format used on column '' @ show_nat (mf_index (hd dateFields) + 1)
                 @ '' is not supported'')
         else if \<not> list_ex (\<lambda>field. mf_type field = FNumber) flds then
           Some ''The file should have at least one numeric value''
         else None)"

fun getFields_loop ::
    "file_env \<Rightarrow> string \<Rightarrow> nat \<Rightarrow> nat \<Rightarrow> string list option \<Rightarrow> string list list \<Rightarrow> fields_result" where
  "getFields_loop E filename offset validRowCounter headers [] =
     NoFields ''The CSV file must have at least one row without missing values''"
| "getFields_loop E filename offset validRowCounter headers (values # rows) =
     (case (if validRowCounter = 0 then resemblesHeaderRow E values else Inr False) of
        Inl e \<Rightarrow> FieldsThrew e
      | Inr isHeader \<Rightarrow>
          if \<not> isHeader \<and> containsNA values
          then getFields_loop E filename offset (validRowCounter + 1) headers rows
          else (case guessFields E filename values headers of
              Inl e \<Rightarrow> FieldsThrew e
            | Inr flds \<Rightarrow>
                if (flds \<noteq> [] \<or> offset \<noteq> 0) \<and> \<not> (date_fields flds = [] \<and> offset = 0) then
                  (let flds = (if date_fields flds = [] then map (unix_field values) flds else flds)
                   in FieldsDone (fields_error flds) flds offset)
                else getFields_loop E filename (offset + 1) (validRowCounter + 1) (Some values) rows))"

definition getFields :: "file_env \<Rightarrow> string \<Rightarrow> string list list \<Rightarrow> fields_result" where
  "getFields E filename rows = getFields_loop E filename 0 0 None rows"

section \<open>Reading data\<close>

text \<open>
  The calls \<open>getData\<close> makes for the rows of its last stream: one per record and one without
  arguments. After the limit is reached the listeners are removed, so the end of the stream
  makes no further call.
\<close>

datatype 'r data_call = Record 'r | Finished

fun getData_loop :: "nat \<Rightarrow> nat \<Rightarrow> int \<Rightarrow> 'r list \<Rightarrow> 'r data_call list" where
  "getData_loop offset row limit [] = [Finished]"
| "getData_loop offset row limit (data # rows) =
     (let row = row + 1
      in if row \<le> offset then getData_loop offset row limit rows
         else if 0 < limit then Record data # getData_loop offset row (limit - 1) rows
         else if limit = 0 then [Finished]
         else getData_loop offset row (limit - 1) rows)"

text \<open>The options default to no offset and no limit (\<open>MAX_SAFE_INTEGER\<close> records).\<close>

definition getData :: "nat option \<Rightarrow> int option \<Rightarrow> 'r list \<Rightarrow> 'r data_call list" where
  "getData offset limit rows =
     getData_loop (case offset of None \<Rightarrow> 0 | Some n \<Rightarrow> n) 0
       (case limit of None \<Rightarrow> MAX_SAFE_INTEGER | Some n \<Rightarrow> n) rows"

section \<open>Statistics\<close>

record stat =
  st_min :: jsnum
  st_max :: jsnum
  st_sum :: jsnum
  st_mean :: jsnum
  st_variance :: jsnum
  st_stdev :: jsnum

record stats =
  stats_count :: nat
  stats_fields :: "(string, stat) omap"

text \<open>One cell of a record, after \<open>count\<close> was increased.\<close>

definition stat_cell :: "nat \<Rightarrow> string \<times> string \<Rightarrow> (string, stat) omap \<Rightarrow> (string, stat) omap" where
  "stat_cell count p flds =
     (let name = fst p; val = to_number (snd p)
      in if val = NaN then flds
         else (let f = (case om_get flds name of
                   Some f \<Rightarrow> f
                 | None \<Rightarrow> \<lparr>st_min = MAX_VALUE, st_max = MIN_VALUE, st_sum = Fin 0, st_mean = val,
                            st_variance = Fin 0, st_stdev = Fin 0\<rparr>);
                   f = f\<lparr>st_min := (if jlt val (st_min f) then val else st_min f),
                         st_max := (if jlt (st_max f) val then val else st_max f),
                         st_sum := jadd (st_sum f) val\<rparr>;
                   f = (if 1 < count then
                          (let oldMean = st_mean f;
                               newMean = jadd oldMean (jdiv (jsub val oldMean) (jint (int count)))
                           in f\<lparr>st_mean := newMean,
                                st_variance := jadd (st_variance f) (jmul (jsub val oldMean) (jsub val newMean))\<rparr>)
                        else f)
               in om_set name f flds))"

definition stat_record :: "(string \<times> string) list \<Rightarrow> stats \<Rightarrow> stats" where
  "stat_record data s =
     (let count = stats_count s + 1
      in s\<lparr>stats_count := count, stats_fields := fold (stat_cell count) data (stats_fields s)\<rparr>)"

definition stat_finish :: "(jsnum \<Rightarrow> jsnum) \<Rightarrow> stats \<Rightarrow> stats" where
  "stat_finish msqrt s =
     (if 1 < stats_count s then
        s\<lparr>stats_fields := map (\<lambda>(name, f).
            (let variance = jdiv (st_variance f) (jint (int (stats_count s) - 1))
             in (name, f\<lparr>st_variance := variance, st_stdev := msqrt variance\<rparr>))) (stats_fields s)\<rparr>
      else s)"

fun statistics_calls :: "(jsnum \<Rightarrow> jsnum) \<Rightarrow> stats \<Rightarrow> (string \<times> string) list data_call list \<Rightarrow> stats list" where
  "statistics_calls msqrt s [] = []"
| "statistics_calls msqrt s (Record data # cs) = statistics_calls msqrt (stat_record data s) cs"
| "statistics_calls msqrt s (Finished # cs) = stat_finish msqrt s # statistics_calls msqrt (stat_finish msqrt s) cs"

text \<open>\<open>Math.sqrt\<close> is a parameter; the result lists the statistics given to the callback.\<close>

definition getStatistics ::
    "(jsnum \<Rightarrow> jsnum) \<Rightarrow> nat option \<Rightarrow> int option \<Rightarrow> (string \<times> string) list list \<Rightarrow> stats list" where
  "getStatistics msqrt offset limit rows =
     statistics_calls msqrt \<lparr>stats_count = 0, stats_fields = []\<rparr> (getData offset limit rows)"

section \<open>Validation\<close>

record file_info =
  fi_uid :: string
  fi_name :: string
  fi_filename :: string
  fi_rowOffset :: nat
  fi_records :: "nat option"

definition row_prefix :: "string \<Rightarrow> nat \<Rightarrow> string" where
  "row_prefix what row = ''Invalid '' @ what @ '' at row '' @ show_nat row @ '': ''"

text \<open>A text between single quotes.\<close>

definition quoted :: "string \<Rightarrow> string" where
  "quoted s = CHR 0x27 # s @ [CHR 0x27]"

text \<open>The check of one cell; an error message or none. Missing values are accepted.\<close>

definition check_cell :: "file_env \<Rightarrow> nat \<Rightarrow> string list \<Rightarrow> mfield \<Rightarrow> string option" where
  "check_cell E row data field = (case cell data (mf_index field) of
       None \<Rightarrow> None
     | Some value \<Rightarrow>
         if isNA (Some value) then None
         else (case mf_type field of
             FNumber \<Rightarrow>
               (if is_finite (to_number value) then None
                else Some (row_prefix ''number'' row @ ''Found '' @ quoted (mf_name field) @ '' = '' @ quoted value))
           | FDate \<Rightarrow>
               (let strict = (case mf_format field of None \<Rightarrow> True | Some f \<Rightarrow> f \<notin> set UNIX_TIMESTAMP_FORMATS)
                in if fe_valid_time E (Some value) (mf_format field) strict then None
                   else Some (row_prefix ''date/time'' row @ ''The date/time value is '' @ quoted value @
                     (case mf_format field of None \<Rightarrow> ''''
                      | Some f \<Rightarrow> '' instead of having a format matching '' @ quoted f @
                                  ''. For example: '' @ quoted (fe_now E f))))))"

text \<open>\<open>fields.every\<close> stops at the first failure, whose message is kept.\<close>

fun check_row :: "file_env \<Rightarrow> nat \<Rightarrow> string list \<Rightarrow> mfield list \<Rightarrow> string option" where
  "check_row E row data [] = None"
| "check_row E row data (f # fs) = (case check_cell E row data f of
       Some message \<Rightarrow> Some message
     | None \<Rightarrow> check_row E row data fs)"

record validation =
  va_row :: nat
  va_error :: "string option"
  va_warning :: "string option"

definition valid_timestamp :: "mfield list \<Rightarrow> string list \<Rightarrow> bool" where
  "valid_timestamp flds data = (case find (\<lambda>field. mf_type field = FDate) flds of
       None \<Rightarrow> False
     | Some field \<Rightarrow> \<not> isNA (cell data (mf_index field)))"

definition rows_warning :: string where
  "rows_warning = ''The number of rows exceeds 20,000. While you can''
     @ '' proceed with this file, note that HTM Studio will be''
     @ '' unresponsive during the loading of very large files.''"

definition validate_row :: "file_env \<Rightarrow> mfield list \<Rightarrow> nat \<Rightarrow> string list \<Rightarrow> validation \<Rightarrow> validation" where
  "validate_row E flds offset data s =
     (let validTimestamp = valid_timestamp flds data
      in if va_row s < offset \<or> (va_error s \<noteq> None \<and> validTimestamp) then s\<lparr>va_row := va_row s + 1\<rparr>
         else if va_error s \<noteq> None then s
         else (let row = (if validTimestamp then va_row s + 1 else va_row s);
                   warning = (if 20000 < row then Some rows_warning else va_warning s);
                   message = check_row E row data flds
               in \<lparr>va_row = row, va_error = (if message \<noteq> None then message else va_error s), va_warning = warning\<rparr>))"

datatype validate_result =
    Validated "string option" "string option" file_info "mfield list"
  | ValidateThrew jserr

definition new_file :: "file_env \<Rightarrow> string \<Rightarrow> file_info" where
  "new_file E filename = \<lparr>fi_uid = generateFileId (fe_sha1 E) filename, fi_name = basename filename,
     fi_filename = filename, fi_rowOffset = 1, fi_records = None\<rparr>"

definition validate :: "file_env \<Rightarrow> string \<Rightarrow> string list list \<Rightarrow> validate_result" where
  "validate E filename rows = (case getFields E filename rows of
       FieldsThrew e \<Rightarrow> ValidateThrew e
     | NoFields error \<Rightarrow> Validated (Some error) None (new_file E filename) []
     | FieldsDone error flds offset \<Rightarrow>
         (let s = fold (validate_row E flds offset) rows \<lparr>va_row = 0, va_error = error, va_warning = None\<rparr>;
              file = (new_file E filename)\<lparr>fi_records := Some (va_row s), fi_rowOffset := offset\<rparr>;
              dataError = (if va_row s < 400 \<and> va_error s = None
                           then Some ''The CSV file needs to have at least 400 rows with a valid timestamp''
                           else va_error s)
          in Validated dataError (va_warning s) file flds))"
section \<open>Lemmas\<close>

lemma getData_loop_past:
  "offset \<le> row \<Longrightarrow> getData_loop offset row limit rows = map Record (take (nat limit) rows) @ [Finished]"
proof (induction rows arbitrary: row limit)
  case Nil
  then show ?case by simp
next
  case (Cons r rows)
  consider n where "limit = 1 + int n" | "limit = 0" | "limit < 0"
    by (metis add.commute int_one_le_iff_zero_less linorder_less_linear nonneg_int_cases
        diff_ge_0_iff_ge diff_add_cancel)
  then show ?case
  proof cases
    case 1
    with Cons show ?thesis by (simp add: nat_add_distrib Let_def)
  qed (use Cons in \<open>simp_all add: Let_def\<close>)
qed

lemma getData_loop_eq:
  "row \<le> offset \<Longrightarrow> getData_loop offset row limit rows
     = map Record (take (nat limit) (drop (offset - row) rows)) @ [Finished]"
proof (induction rows arbitrary: row)
  case Nil
  then show ?case by simp
next
  case (Cons r rows)
  show ?case
  proof (cases "row < offset")
    case True
    then have "offset - row = Suc (offset - (row + 1))" by simp
    with True Cons.IH [of "row + 1"] show ?thesis by (simp add: Let_def)
  next
    case False
    with Cons.prems getData_loop_past [of offset row limit "r # rows"] show ?thesis by simp
  qed
qed

text \<open>The guessed fields: in column order, with the ids of their file.\<close>

definition fields_ok :: "file_env \<Rightarrow> string \<Rightarrow> nat \<Rightarrow> mfield list \<Rightarrow> bool" where
  "fields_ok E filename n flds =
     (sorted_wrt (<) (map mf_index flds) \<and>
      (\<forall>f\<in>set flds. mf_index f < n \<and> mf_file_uid f = generateFileId (fe_sha1 E) filename
         \<and> mf_uid f = generateMetricId (fe_sha1 E) filename (mf_name f)))"

lemma fields_ok_snoc:
  "fields_ok E filename n flds \<Longrightarrow> fields_ok E filename (Suc n) (flds @ [mk_field E filename name ty fmt n])"
  by (auto simp: fields_ok_def mk_field_def sorted_wrt_append less_Suc_eq)

lemma fields_ok_Suc: "fields_ok E filename n flds \<Longrightarrow> fields_ok E filename (Suc n) flds"
  by (auto simp: fields_ok_def less_Suc_eq)

lemma guess_loop_ok:
  "guess_loop E filename names metricX index vs flds = Inr flds' \<Longrightarrow> fields_ok E filename index flds
     \<Longrightarrow> fields_ok E filename (index + length vs) flds'"
proof (induction vs arbitrary: metricX index flds)
  case (Cons v vs)
  have "\<exists>mx fs. guess_loop E filename names mx (Suc index) vs fs = Inr flds' \<and> fields_ok E filename (Suc index) fs"
    using Cons.prems
    by (auto simp: Let_def split: if_splits option.splits sum.splits)
      (blast intro: fields_ok_snoc fields_ok_Suc)+
  with Cons.IH show ?case by fastforce
qed simp

lemma guessFields_ok: "guessFields E filename values names = Inr flds \<Longrightarrow> fields_ok E filename (length values) flds"
  unfolding guessFields_def by (drule guess_loop_ok) (auto simp: fields_ok_def)

lemma unix_field_same [simp]:
  "mf_index (unix_field values f) = mf_index f" "mf_file_uid (unix_field values f) = mf_file_uid f"
  "mf_uid (unix_field values f) = mf_uid f" "mf_name (unix_field values f) = mf_name f"
  by (simp_all add: unix_field_def Let_def)

lemma fields_ok_unix: "fields_ok E filename n flds \<Longrightarrow> fields_ok E filename n (map (unix_field values) flds)"
  by (simp add: fields_ok_def comp_def)

lemma getFields_loop_ok:
  "getFields_loop E filename offset counter headers rows = FieldsDone error flds offset' \<Longrightarrow> offset \<le> 1 \<Longrightarrow>
     offset' \<le> 1 \<and> error = fields_error flds \<and>
     (\<exists>row\<in>set rows. fields_ok E filename (length row) flds)"
proof (induction rows arbitrary: offset counter headers)
  case (Cons r rows)
  then show ?case
    by (auto simp: Let_def guessFields_ok fields_ok_unix split: sum.splits if_splits)
qed simp
text \<open>The rows that \<open>validate_row\<close> accepts.\<close>

definition row_ok :: "file_env \<Rightarrow> mfield list \<Rightarrow> string list \<Rightarrow> bool" where
  "row_ok E flds data = (\<forall>f\<in>set flds. check_cell E 0 data f = None)"

lemma check_cell_row: "(check_cell E row data f = None) = (check_cell E row' data f = None)"
  by (auto simp: check_cell_def Let_def split: option.split field_type.split)

lemma check_row_None: "check_row E row data flds = None \<longleftrightarrow> row_ok E flds data"
proof -
  have *: "(check_cell E row data f = None) = (check_cell E 0 data f = None)" for f by (rule check_cell_row)
  show ?thesis
  proof (induction flds)
    case (Cons f flds)
    with * [of f] show ?case
      by (cases "check_cell E row data f"; cases "check_cell E 0 data f") (auto simp: row_ok_def)
  qed (simp add: row_ok_def)
qed

text \<open>The error, once set, stays, so a run without error accepted every row.\<close>

lemma validate_rows_error: "va_error s \<noteq> None \<Longrightarrow> va_error (fold (validate_row E flds offset) rows s) \<noteq> None"
proof (induction rows arbitrary: s)
  case (Cons r rows)
  then have "va_error (validate_row E flds offset r s) \<noteq> None"
    by (auto simp: validate_row_def Let_def)
  with Cons.IH show ?case by simp
qed simp

lemma validate_rows_counted:
  assumes "va_error (fold (validate_row E flds offset) rows s) = None" and "offset \<le> va_row s"
  shows "va_row (fold (validate_row E flds offset) rows s) = va_row s + length (filter (valid_timestamp flds) rows)
    \<and> list_all (row_ok E flds) rows
    \<and> (va_warning (fold (validate_row E flds offset) rows s) = None \<longleftrightarrow> va_warning s = None \<and>
         (rows \<noteq> [] \<longrightarrow> va_row s + length (filter (valid_timestamp flds) rows) \<le> 20000))"
  using assms
proof (induction rows arbitrary: s)
  case (Cons r rows)
  let ?s = "validate_row E flds offset r s"
  have s: "va_error s = None" using Cons.prems validate_rows_error [of s E flds offset "r # rows"] by blast
  have s': "va_error ?s = None" using Cons.prems(1) validate_rows_error [of ?s E flds offset rows] unfolding fold_simps comp_apply by blast
  have step: "va_row ?s = va_row s + (if valid_timestamp flds r then 1 else 0)" "row_ok E flds r"
    "va_warning ?s = (if 20000 < va_row ?s then Some rows_warning else va_warning s)"
    using s s' Cons.prems(2) by (auto simp: validate_row_def Let_def check_row_None split: if_splits)
  moreover have "offset \<le> va_row ?s" using step(1) Cons.prems(2) by simp
  ultimately show ?case using Cons.IH [of ?s] Cons.prems(1) by auto
qed simp

lemma validate_rows_header:
  assumes "offset \<le> 1"
  shows "fold (validate_row E flds offset) rows \<lparr>va_row = 0, va_error = e, va_warning = None\<rparr>
    = fold (validate_row E flds offset) (drop offset rows)
        \<lparr>va_row = min offset (length rows), va_error = e, va_warning = None\<rparr>"
proof (cases "offset = 0 \<or> rows = []")
  case False
  then obtain r rs where "rows = r # rs" and "offset = 1" using assms by (cases rows) auto
  then show ?thesis by (simp add: validate_row_def Let_def)
qed auto

definition iso_env :: file_env where
  "iso_env = \<lparr>fe_sha1 = (\<lambda>s. s),
     fe_valid_time = (\<lambda>v f strict. case v of Some s \<Rightarrow> take 4 s = ''2015'' | None \<Rightarrow> False),
     fe_date_parses = (\<lambda>s. False), fe_now = (\<lambda>f. f)\<rparr>"

text \<open>A small file on which the properties are exercised: dates of the year 2015 are valid.\<close>

lemma iso_guess: "guessCompoundTimestampFormat iso_env s =
    (if take 4 s = ''2015'' then Some (hd COMPOUND_TIMESTAMP_FORMATS) else None)"
  by (auto simp: guessCompoundTimestampFormat_def iso_env_def find_None_iff COMPOUND_TIMESTAMP_FORMATS_def)

abbreviation iso_fields :: "string \<Rightarrow> mfield list" where
  "iso_fields filename \<equiv> [mk_field iso_env filename ''time'' FDate (Some (hd COMPOUND_TIMESTAMP_FORMATS)) 0,
     mk_field iso_env filename ''x'' FNumber None 1]"

lemma iso_getFields:
  "getFields iso_env filename ([''time'', ''x''] # [''2015-01-01'', ''5''] # rows) = FieldsDone None (iso_fields filename) 1"
proof -
  have "to_number ''5'' = Fin 5" using to_number_digits [of "''5''"]
    by (simp add: is_digit_def digits_val_def digit_val_def)
  moreover have "to_number ''time'' = NaN" "to_number ''x'' = NaN" by code_simp+
  moreover have "trim ''time'' = ''time''" "trim ''x'' = ''x''" "trim ''5'' = ''5''" "trim ''2015-01-01'' = ''2015-01-01''"
    by code_simp+
  moreover have "isNA (Some ''2015-01-01'') = False" "isNA (Some ''5'') = False"
    "isNA (Some ''time'') = False" "isNA (Some ''x'') = False" by code_simp+
  ultimately show ?thesis
    by (simp add: getFields_def resemblesHeaderRow_def iso_guess guessFields_def field_name_def
        containsNA_def date_fields_def fields_error_def mk_field_def isDate_def is_digit_def Let_def)
qed

section \<open>Properties\<close>

text \<open>\<open>getData\<close> hands out exactly the requested slice of the rows, in order: after skipping
  \<open>offset\<close> rows, at most \<open>limit\<close> records, one call each, and then exactly one call without
  arguments, whether the limit or the end of the file came first.\<close>

theorem getData_slice:
  "getData offset limit rows =
     map Record (take (case limit of None \<Rightarrow> nat MAX_SAFE_INTEGER | Some n \<Rightarrow> nat n)
       (drop (case offset of None \<Rightarrow> 0 | Some n \<Rightarrow> n) rows)) @ [Finished]"
  by (cases offset; cases limit) (simp_all add: getData_def getData_loop_eq)

text \<open>a file that \<open>getFields\<close> accepts has exactly one date column, of a known format, and a
  numeric column; its fields stand in column order, are columns of a row of the file and carry
  the ids of the file; and the data starts in the first or the second row, as documented.\<close>

theorem getFields_accepts:
  assumes "getFields E filename rows = FieldsDone None flds offset"
  shows "offset \<le> 1 \<and>
    (\<exists>f fmt. filter (\<lambda>f. mf_type f = FDate) flds = [f] \<and> mf_format f = Some fmt) \<and>
    (\<exists>f\<in>set flds. mf_type f = FNumber) \<and>
    sorted_wrt (<) (map mf_index flds) \<and>
    (\<exists>row\<in>set rows. \<forall>f\<in>set flds. mf_index f < length row) \<and>
    (\<forall>f\<in>set flds. mf_file_uid f = generateFileId (fe_sha1 E) filename
        \<and> mf_uid f = generateMetricId (fe_sha1 E) filename (mf_name f))"
proof -
  have *: "offset \<le> 1" "fields_error flds = None" "\<exists>row\<in>set rows. fields_ok E filename (length row) flds"
    using getFields_loop_ok [OF assms [unfolded getFields_def]] by auto
  then have "\<exists>f fmt. date_fields flds = [f] \<and> mf_format f = Some fmt"
    by (auto simp: fields_error_def Let_def length_Suc_conv split: if_splits)
  with * show ?thesis
    by (auto simp: fields_error_def date_fields_def fields_ok_def Let_def list_ex_iff split: if_splits)
qed

theorem getFields_accepts_witness:
  "getFields iso_env ''a.csv'' [[''time'', ''x''], [''2015-01-01'', ''5'']] = FieldsDone None (iso_fields ''a.csv'') 1
   \<and> filter (\<lambda>f. mf_type f = FDate) (iso_fields ''a.csv'') = [hd (iso_fields ''a.csv'')]"
proof -
  have r: "getFields iso_env ''a.csv'' [[''time'', ''x''], [''2015-01-01'', ''5'']] = FieldsDone None (iso_fields ''a.csv'') 1"
    by (rule iso_getFields)
  from getFields_accepts [OF r] r show ?thesis by (auto simp: mk_field_def)
qed

text \<open>C19: when \<open>validate\<close> reports no error, the first row is a header row or the data starts at once, every later
  row passed: each numeric column holds a finite number or a missing value and the date column a
  date of its format or a missing value; and the record count, at least 400, is the number of
  rows with a timestamp plus the header row, so 399 data rows below a header are
  enough; above 20000 the caller is warned.\<close>

theorem validate_accepts:
  assumes "validate E filename rows = Validated None warning file flds"
  shows "\<exists>n. fi_records file = Some n \<and> 400 \<le> n \<and> fi_rowOffset file \<le> 1 \<and>
    n = fi_rowOffset file + length (filter (valid_timestamp flds) (drop (fi_rowOffset file) rows)) \<and>
    (warning = None \<longleftrightarrow> n \<le> 20000) \<and>
    (\<forall>row\<in>set (drop (fi_rowOffset file) rows). \<forall>f\<in>set flds. \<forall>value.
       cell row (mf_index f) = Some value \<and> \<not> isNA (Some value) \<longrightarrow>
         (mf_type f = FNumber \<longrightarrow> is_finite (to_number value)) \<and>
         (mf_type f = FDate \<longrightarrow> (\<exists>strict. fe_valid_time E (Some value) (mf_format f) strict))) \<and>
    getFields E filename rows = FieldsDone None flds (fi_rowOffset file)"
proof -
  obtain error offset where g: "getFields E filename rows = FieldsDone error flds offset"
    using assms by (auto simp: validate_def Let_def split: fields_result.splits)
  have off: "offset \<le> 1" using getFields_loop_ok [OF g [unfolded getFields_def]] by simp
  let ?s0 = "\<lparr>va_row = min offset (length rows), va_error = error, va_warning = None\<rparr>"
  define s where "s = fold (validate_row E flds offset) (drop offset rows) ?s0"
  have e: "va_error s = None" and n: "400 \<le> va_row s" and w: "warning = va_warning s"
    and f: "file = (new_file E filename)\<lparr>fi_records := Some (va_row s), fi_rowOffset := offset\<rparr>"
    using assms by (auto simp: validate_def g Let_def validate_rows_header [OF off] s_def split: if_splits)
  have err: "error = None" using e validate_rows_error [of ?s0 E flds offset "drop offset rows"] by (cases error) (auto simp: s_def)
  have len: "min offset (length rows) = offset"
  proof (rule ccontr)
    assume "min offset (length rows) \<noteq> offset"
    then have "rows = []" using off by (cases rows) auto
    with n show False by (simp add: s_def)
  qed
  have c: "va_row s = offset + length (filter (valid_timestamp flds) (drop offset rows))"
      "list_all (row_ok E flds) (drop offset rows)" "va_warning s = None \<longleftrightarrow> va_row s \<le> 20000"
    using validate_rows_counted [of E flds offset "drop offset rows" ?s0] e n len off by (auto simp: s_def)
  have "(mf_type fd = FNumber \<longrightarrow> is_finite (to_number v)) \<and>
         (mf_type fd = FDate \<longrightarrow> (\<exists>strict. fe_valid_time E (Some v) (mf_format fd) strict))"
    if "row \<in> set (drop offset rows)" "fd \<in> set flds" "cell row (mf_index fd) = Some v" "\<not> isNA (Some v)"
    for row fd v
  proof -
    have "check_cell E 0 row fd = None" using c(2) that(1,2) by (auto simp: list_all_iff row_ok_def)
    with that(3,4) show ?thesis
      by (auto simp: check_cell_def Let_def split: field_type.splits if_splits)
  qed
  with c n g err w f off show ?thesis by auto
qed

lemma validate_good_rows:
  assumes "\<forall>r\<in>set rows. row_ok E flds r \<and> valid_timestamp flds r" and "offset \<le> va_row s"
    and "va_error s = None" and "va_row s + length rows \<le> 20000"
  shows "fold (validate_row E flds offset) rows s = s\<lparr>va_row := va_row s + length rows\<rparr>"
  using assms
proof (induction rows arbitrary: s)
  case (Cons r rows)
  have "check_row E (va_row s + 1) r flds = None" using Cons.prems(1) by (simp add: check_row_None)
  then have "validate_row E flds offset r s = s\<lparr>va_row := va_row s + 1\<rparr>"
    using Cons.prems by (simp add: validate_row_def Let_def)
  with Cons show ?case by simp
qed simp

theorem validate_accepts_witness:
  "\<exists>file. validate iso_env ''a.csv'' ([''time'', ''x''] # replicate 399 [''2015-01-01'', ''5'']) = Validated None None file (iso_fields ''a.csv'')
     \<and> fi_records file = Some 400 \<and> fi_rowOffset file = 1"
proof -
  let ?r = "[''2015-01-01'', ''5'']" and ?h = "[''time'', ''x'']"
  let ?rows = "?h # replicate 399 ?r"
  have g: "getFields iso_env ''a.csv'' ?rows = FieldsDone None (iso_fields ''a.csv'') 1"
    using iso_getFields [of "''a.csv''" "replicate 398 ?r"] by (simp add: numeral_eq_Suc)
  have "to_number ''5'' = Fin 5" using to_number_digits [of "''5''"]
    by (simp add: is_digit_def digits_val_def digit_val_def)
  moreover have "isNA (Some ''2015-01-01'') = False" "isNA (Some ''5'') = False" by code_simp+
  ultimately have "row_ok iso_env (iso_fields ''a.csv'') ?r" "valid_timestamp (iso_fields ''a.csv'') ?r"
    by (simp_all add: row_ok_def valid_timestamp_def check_cell_def cell_def mk_field_def iso_env_def Let_def)
  then have "fold (validate_row iso_env (iso_fields ''a.csv'') 1) (replicate 399 ?r) \<lparr>va_row = 1, va_error = None, va_warning = None\<rparr>
      = \<lparr>va_row = 400, va_error = None, va_warning = None\<rparr>"
    by (subst validate_good_rows) auto
  then have rows: "fold (validate_row iso_env (iso_fields ''a.csv'') 1) ?rows \<lparr>va_row = 0, va_error = None, va_warning = None\<rparr>
      = \<lparr>va_row = 400, va_error = None, va_warning = None\<rparr>"
    by (subst validate_rows_header) simp_all
  have v: "validate iso_env ''a.csv'' ?rows = Validated None None
      ((new_file iso_env ''a.csv'')\<lparr>fi_records := Some 400, fi_rowOffset := 1\<rparr>) (iso_fields ''a.csv'')"
    unfolding validate_def g fields_result.case Let_def rows by simp
  from validate_accepts [OF v] g show ?thesis using v by (auto simp: filter_replicate)
qed
text \<open>a first row that has a missing value is taken for a header row, so the rule that only
  complete rows determine the fields does not hold for it: when one of its cells is a date, its fields are
  the fields of the file, with data from the first row on, and the columns that are empty there
  are lost.\<close>

theorem getFields_incomplete_first_row:
  assumes "containsNA row" and "guessFields E filename row None = Inr flds" and "date_fields flds \<noteq> []"
  shows "getFields E filename (row # rows) = FieldsDone (fields_error flds) flds 0"
proof -
  have "row \<noteq> []" using assms(1) by (auto simp: containsNA_def)
  then have "resemblesHeaderRow E row = Inr True" using assms(1) by (simp add: resemblesHeaderRow_def Let_def)
  moreover have "flds \<noteq> []" using assms(3) by (auto simp: date_fields_def)
  ultimately show ?thesis using assms by (simp add: getFields_def Let_def)
qed

theorem getFields_incomplete_first_row_witness:
  "\<exists>flds. getFields iso_env ''a.csv'' [[''2015-01-01'', '''', ''5''], [''2015-01-02'', ''1'', ''5'']]
     = FieldsDone None flds 0 \<and> map mf_index flds = [0, 2]"
proof -
  let ?r = "[''2015-01-01'', '''', ''5'']"
  have "to_number ''5'' = Fin 5" using to_number_digits [of "''5''"]
    by (simp add: is_digit_def digits_val_def digit_val_def)
  moreover have "trim ''5'' = ''5''" "trim ''2015-01-01'' = ''2015-01-01''" "trim '''' = ''''" by code_simp+
  ultimately have g: "guessFields iso_env ''a.csv'' ?r None = Inr [mk_field iso_env ''a.csv'' ''timestamp'' FDate
      (Some (hd COMPOUND_TIMESTAMP_FORMATS)) 0, mk_field iso_env ''a.csv'' (''metric'' @ show_nat 1) FNumber None 2]"
    by (simp add: guessFields_def iso_guess field_name_def Let_def numeral_2_eq_2)
  have "containsNA ?r" by (simp add: containsNA_def isNA_def remove_spaces_def toLowerCase_def NA_STRINGS_def)
  from getFields_incomplete_first_row [OF this g, of "[[''2015-01-02'', ''1'', ''5'']]"] show ?thesis
    by (simp add: date_fields_def fields_error_def mk_field_def Let_def)
qed

text \<open>The values of a column that \<open>Number\<close> can read, in order.\<close>

definition cell_values :: "string \<Rightarrow> string \<times> string \<Rightarrow> jsnum list" where
  "cell_values name p = (if fst p = name \<and> to_number (snd p) \<noteq> NaN then [to_number (snd p)] else [])"

definition column_values :: "string \<Rightarrow> (string \<times> string) list list \<Rightarrow> jsnum list" where
  "column_values name rows = concat (map (cell_values name) (concat rows))"

text \<open>The extremes of a column as the code keeps them.\<close>

definition extremes :: "jsnum list \<Rightarrow> stat \<Rightarrow> bool" where
  "extremes vs f =
     ((\<forall>v\<in>set vs. jle (st_min f) v \<and> jle v (st_max f))
      \<and> st_min f \<in> insert MAX_VALUE (set vs) \<and> st_max f \<in> insert MIN_VALUE (set vs)
      \<and> jle MIN_VALUE (st_max f))"

definition column_inv :: "string \<Rightarrow> jsnum list \<Rightarrow> (string, stat) omap \<Rightarrow> bool" where
  "column_inv name vs flds = (NaN \<notin> set vs \<and> (case om_get flds name of None \<Rightarrow> vs = [] | Some f \<Rightarrow> vs \<noteq> [] \<and> extremes vs f))"

lemma limits_not_NaN [simp]: "MAX_VALUE \<noteq> NaN" "MIN_VALUE \<noteq> NaN" "NaN \<noteq> MAX_VALUE" "NaN \<noteq> MIN_VALUE"
  by (simp_all add: MAX_VALUE_def MIN_VALUE_def)

lemma extremes_step:
  assumes "extremes vs f" and "v \<noteq> NaN" and "NaN \<notin> set vs"
    and "st_min g = (if jlt v (st_min f) then v else st_min f)"
    and "st_max g = (if jlt (st_max f) v then v else st_max f)"
  shows "extremes (vs @ [v]) g"
proof -
  have n: "st_min f \<noteq> NaN" "st_max f \<noteq> NaN" using assms(1,3) by (auto simp: extremes_def)
  have mn: "jle (st_min g) v" "jle (st_min g) (st_min f)"
    using n assms(2) not_jlt [of v "st_min f"] by (auto simp: assms(4) jle_refl) (auto simp: jle_def)
  have mx: "jle v (st_max g)" "jle (st_max f) (st_max g)"
    using n assms(2) not_jlt [of "st_max f" v] by (auto simp: assms(5) jle_refl) (auto simp: jle_def)
  have "jle (st_min g) w \<and> jle w (st_max g)" if "w \<in> set vs" for w
    using that assms(1) mn(2) mx(2) by (auto simp: extremes_def intro: jle_trans)
  moreover have "jle MIN_VALUE (st_max g)" using assms(1) mx(2) by (auto simp: extremes_def intro: jle_trans)
  ultimately show ?thesis using mn mx assms by (auto simp: extremes_def)
qed

lemma extremes_init: "extremes [] \<lparr>st_min = MAX_VALUE, st_max = MIN_VALUE, st_sum = s, st_mean = m,
    st_variance = v, st_stdev = d\<rparr>"
  by (simp add: extremes_def jle_refl)

lemma stat_cell_inv:
  assumes "column_inv name vs flds"
  shows "column_inv name (vs @ cell_values name p) (stat_cell count p flds)"
proof (cases "fst p = name \<and> to_number (snd p) \<noteq> NaN")
  case False
  then show ?thesis
    using assms by (auto simp: cell_values_def stat_cell_def column_inv_def om_get_set Let_def split: option.splits)
next
  case True
  let ?v = "to_number (snd p)"
  define f where "f = (case om_get flds name of Some f \<Rightarrow> f
      | None \<Rightarrow> \<lparr>st_min = MAX_VALUE, st_max = MIN_VALUE, st_sum = Fin 0, st_mean = ?v,
                 st_variance = Fin 0, st_stdev = Fin 0\<rparr>)"
  have "extremes vs f"
    using assms by (auto simp: f_def column_inv_def extremes_init split: option.splits)
  then have step: "extremes (vs @ [?v]) g"
    if "st_min g = (if jlt ?v (st_min f) then ?v else st_min f)"
      "st_max g = (if jlt (st_max f) ?v then ?v else st_max f)" for g
    using extremes_step True assms that by (auto simp: column_inv_def)
  show ?thesis
    using True assms by (auto simp: cell_values_def stat_cell_def column_inv_def om_get_set Let_def f_def [symmetric] intro!: step)
qed

lemma stat_cells_inv:
  "column_inv name vs flds \<Longrightarrow>
     column_inv name (vs @ concat (map (cell_values name) data)) (fold (stat_cell count) data flds)"
proof (induction data arbitrary: vs flds)
  case (Cons p data)
  from Cons.IH [OF stat_cell_inv [OF Cons.prems, of p count]] show ?case by simp
qed simp

lemma stat_records_inv:
  "column_inv name vs (stats_fields s) \<Longrightarrow>
     column_inv name (vs @ column_values name rows) (stats_fields (fold stat_record rows s))
     \<and> stats_count (fold stat_record rows s) = stats_count s + length rows"
proof (induction rows arbitrary: vs s)
  case (Cons r rows)
  let ?s = "stat_record r s"
  have "column_inv name (vs @ concat (map (cell_values name) r)) (stats_fields ?s)"
    "stats_count ?s = stats_count s + 1"
    using stat_cells_inv [OF Cons.prems] by (simp_all add: stat_record_def Let_def)
  with Cons.IH [OF this(1)] show ?case by (simp add: column_values_def)
qed (simp add: column_values_def)

lemma statistics_calls_records:
  "statistics_calls msqrt s (map Record rows @ [Finished]) = [stat_finish msqrt (fold stat_record rows s)]"
  by (induction rows arbitrary: s) auto

lemma om_get_map_snd: "om_get (map (\<lambda>(k, v). (k, h v)) m) k = map_option h (om_get m k)"
  by (induction m) auto

lemma stat_finish_get: "\<exists>h. (\<forall>f. st_min (h f) = st_min f \<and> st_max (h f) = st_max f) \<and>
    om_get (stats_fields (stat_finish msqrt s)) name = map_option h (om_get (stats_fields s) name)"
proof (cases "1 < stats_count s")
  case True
  let ?h = "\<lambda>f. f\<lparr>st_variance := jdiv (st_variance f) (jint (int (stats_count s) - 1)),
      st_stdev := msqrt (jdiv (st_variance f) (jint (int (stats_count s) - 1)))\<rparr>"
  show ?thesis
    using True by (intro exI [of _ ?h]) (simp add: stat_finish_def Let_def om_get_map_snd)
next
  case False
  then show ?thesis by (intro exI [of _ id]) (simp add: stat_finish_def option.map_id)
qed

text \<open>What the extremes of an entry say of the values of its column.\<close>

definition column_summary :: "jsnum list \<Rightarrow> stat \<Rightarrow> bool" where
  "column_summary vs f =
     ((\<forall>v\<in>set vs. jle (st_min f) v \<and> jle v (st_max f))
      \<and> st_min f \<in> insert MAX_VALUE (set vs) \<and> st_max f \<in> insert MIN_VALUE (set vs)
      \<and> ((\<forall>v\<in>set vs. jle v (Fin 0)) \<longrightarrow> st_max f = MIN_VALUE))"

text \<open>\<open>getStatistics\<close> reports once, counting the records it was given; it has an entry for a
  column exactly if some value of it is a number; the reported extremes bound every such value
  and are attained, except that the minimum can be the largest and the maximum the smallest
  positive double. So the maximum of a column without positive values is
  \<open>Number.MIN_VALUE\<close>, not one of its values.\<close>

theorem getStatistics_extremes:
  assumes "length rows \<le> nat MAX_SAFE_INTEGER"
  shows "\<exists>s. getStatistics msqrt None None rows = [s]
    \<and> stats_count s = length rows
    \<and> (om_get (stats_fields s) name = None \<longleftrightarrow> column_values name rows = [])
    \<and> (\<forall>f. om_get (stats_fields s) name = Some f \<longrightarrow>
            column_summary (column_values name rows) f)"
proof -
  let ?start = "\<lparr>stats_count = 0, stats_fields = []\<rparr>"
  let ?rows = "take (nat MAX_SAFE_INTEGER) rows"
  let ?last = "fold stat_record ?rows ?start"
  have one: "getStatistics msqrt None None rows = [stat_finish msqrt ?last]"
    by (simp add: getStatistics_def getData_def getData_loop_eq statistics_calls_records)
  have "column_inv name [] (stats_fields ?start)" by (simp add: column_inv_def)
  from stat_records_inv [OF this, of rows]
  have inv: "column_inv name (column_values name rows) (stats_fields (fold stat_record rows ?start))"
    and count: "stats_count (fold stat_record rows ?start) = length rows" by auto
  obtain h where h: "\<forall>f. st_min (h f) = st_min f \<and> st_max (h f) = st_max f"
    "om_get (stats_fields (stat_finish msqrt (fold stat_record rows ?start))) name
      = map_option h (om_get (stats_fields (fold stat_record rows ?start)) name)"
    using stat_finish_get by blast
  have neg: "st_max f = MIN_VALUE" if "extremes vs f" "\<forall>v\<in>set vs. jle v (Fin 0)" "vs \<noteq> []" for vs f
  proof (rule ccontr)
    assume "st_max f \<noteq> MIN_VALUE"
    with that have "jle (st_max f) (Fin 0)" "jle MIN_VALUE (st_max f)" by (auto simp: extremes_def)
    then have "jle MIN_VALUE (Fin 0)" by (blast intro: jle_trans)
    then show False by (simp add: MIN_VALUE_def)
  qed
  show ?thesis
  proof (intro exI conjI)
    have rows: "?rows = rows" using assms by simp
    show "getStatistics msqrt None None rows = [stat_finish msqrt ?last]" by (rule one)
    show "stats_count (stat_finish msqrt ?last) = length rows"
      using count by (simp add: rows stat_finish_def)
    show "(om_get (stats_fields (stat_finish msqrt ?last)) name = None) = (column_values name rows = [])"
      using inv h(2) by (simp add: rows column_inv_def split: option.splits)
    show "\<forall>f. om_get (stats_fields (stat_finish msqrt ?last)) name = Some f \<longrightarrow>
            column_summary (column_values name rows) f"
    proof (intro allI impI)
      fix f
      assume "om_get (stats_fields (stat_finish msqrt ?last)) name = Some f"
      then obtain f0 where f0: "om_get (stats_fields (fold stat_record rows ?start)) name = Some f0" "f = h f0"
        using h(2) by (auto simp: rows)
      then have e: "extremes (column_values name rows) f" "column_values name rows \<noteq> []"
        using inv h(1) by (auto simp: column_inv_def extremes_def)
      then show "column_summary (column_values name rows) f"
        using neg [OF e(1) _ e(2)] by (simp add: extremes_def column_summary_def)
    qed
  qed
qed

theorem getStatistics_extremes_witness:
  "\<exists>s f. getStatistics (\<lambda>x. x) None None [[(''x'', ''-5'')], [(''x'', ''-3'')]] = [s]
     \<and> stats_count s = 2 \<and> om_get (stats_fields s) ''x'' = Some f \<and> st_max f = MIN_VALUE"
proof -
  let ?rows = "[[(''x'', ''-5'')], [(''x'', ''-3'')]]"
  have r: "rnd (- 5) = Fin (- 5)" "rnd (- 3) = Fin (- 3)" using rnd_int [of "- 5"] rnd_int [of "- 3"] by simp_all
  have "trim ''-5'' = ''-5''" "trim ''-3'' = ''-3''" "read_decimal ''5'' = Some (5, [])" "read_decimal ''3'' = Some (3, [])"
    by code_simp+
  then have n: "to_number ''-5'' = Fin (- 5)" "to_number ''-3'' = Fin (- 3)"
    by (simp_all add: to_number_def prefix_radix_def strip_sign_def r)
  have "length ?rows \<le> nat MAX_SAFE_INTEGER" by (simp add: MAX_SAFE_INTEGER_def)
  from getStatistics_extremes [OF this, of "\<lambda>x. x" "''x''"] obtain s where s:
    "getStatistics (\<lambda>x. x) None None ?rows = [s] \<and> stats_count s = length ?rows
     \<and> (om_get (stats_fields s) ''x'' = None \<longleftrightarrow> column_values ''x'' ?rows = [])
     \<and> (\<forall>f. om_get (stats_fields s) ''x'' = Some f \<longrightarrow> column_summary (column_values ''x'' ?rows) f)"
    by (rule exE)
  have "column_values ''x'' ?rows = [Fin (- 5), Fin (- 3)]"
    by (simp add: column_values_def cell_values_def n)
  with s show ?thesis by (auto simp: column_summary_def)
qed

end
