(* ===== verification/Upload.thy ===== *)
theory Upload
  imports Database_Service File_Service
begin

text \<open>
  \<open>DatabaseService.uploadFile\<close>, which copies a CSV file to the cache, derives its fields with
  the file service, and stores the file, its metrics and every numeric value. The file system
  (what a copy reports, which rows a file holds) is a parameter. The main result follows a
  file from its rows to what the database returns for each metric.
\<close>

section \<open>Environment\<close>

text \<open>\<open>up_instance\<close> is the file object that \<open>json-schema-instantiator\<close> makes from the schema.\<close>

record ('s, 'm) upload_env =
  up_db :: "'s db_env"
  up_file :: file_env
  up_moment :: "'m moment"
  up_samples :: string
  up_instance :: jsobj
  up_copy :: "string \<Rightarrow> string \<Rightarrow> jserr option"
  up_rows :: "string \<Rightarrow> string list list"

datatype upload_arg = UploadPath string | UploadFile jsobj

text \<open>\<open>isNA\<close> of \<open>DatabaseService.js\<close>, which keeps white space.\<close>

definition db_isNA :: "string \<Rightarrow> bool" where
  "db_isNA s = (toLowerCase s \<in> set NA_STRINGS)"

definition field_val :: "mfield \<Rightarrow> jsval" where
  "field_val f = JObj
     ([(''uid'', JStr (mf_uid f)), (''file_uid'', JStr (mf_file_uid f)), (''name'', JStr (mf_name f)),
       (''type'', JStr (case mf_type f of FDate \<Rightarrow> ''date'' | FNumber \<Rightarrow> ''number'')),
       (''index'', JNum (jint (int (mf_index f))))]
      @ (case mf_format f of None \<Rightarrow> [] | Some fmt \<Rightarrow> [(''format'', JStr fmt)]))"

section \<open>Storing the values\<close>

definition metric_data :: "'m moment \<Rightarrow> string option \<Rightarrow> string \<Rightarrow> string \<Rightarrow> jsval" where
  "metric_data M format ts v =
     (let (m, hasTimeZone) = parseTimestampFallbackUtc M ts (case format of None \<Rightarrow> '''' | Some f \<Rightarrow> f)
      in JObj [(''iso_timestamp'', JStr (moment_format M m (if hasTimeZone then ''YYYY-MM-DDTHH:mm:ss.SSSSSSZ''
                                                             else ''YYYY-MM-DDTHH:mm:ss.SSSSSS''))),
               (''naive_time'', JNum (jint (getNaiveTime M m))),
               (''metric_value'', JNum (parseFloat v))])"

text \<open>
  \<open>metrics.forEach\<close> on one record with a timestamp. A cell beyond the end of the row is
  \<open>undefined\<close>, on which \<open>toString\<close> throws; a failed write throws in its callback.
\<close>

fun store_fields ::
    "'s db_env \<Rightarrow> 'm moment \<Rightarrow> string option \<Rightarrow> string \<Rightarrow> string list \<Rightarrow> nat \<Rightarrow> mfield list \<Rightarrow> 's db \<Rightarrow> jserr option \<times> 's db" where
  "store_fields E M format ts data recordIndex [] d = (None, d)"
| "store_fields E M format ts data recordIndex (f # fs) d = (case cell data (mf_index f) of
       None \<Rightarrow> (Some TypeError, d)
     | Some v \<Rightarrow>
         if mf_type f = FNumber \<and> \<not> db_isNA v then
           (case putMetricData E (mf_uid f) recordIndex (metric_data M format ts v) d of
              ([Done x], d') \<Rightarrow> store_fields E M format ts data recordIndex fs d'
            | ([Failed e], d') \<Rightarrow> (Some e, d')
            | ([Threw e], d') \<Rightarrow> (Some e, d')
            | (cs, d') \<Rightarrow> (Some TypeError, d'))
         else store_fields E M format ts data recordIndex fs d)"

text \<open>The callback of \<open>getData\<close>, over the calls it gets: \<open>recordIndex\<close> grows with every record,
  \<open>records\<close> with every valid timestamp.\<close>

fun upload_records ::
    "'s db_env \<Rightarrow> 'm moment \<Rightarrow> mfield list \<Rightarrow> mfield \<Rightarrow> jsobj \<Rightarrow> nat \<Rightarrow> nat \<Rightarrow> string list data_call list \<Rightarrow> 's db \<Rightarrow> 's db_result" where
  "upload_records E M metrics tsf fl recordIndex records [] d = ([], d)"
| "upload_records E M metrics tsf fl recordIndex records (Record data # cs) d =
     (case cell data (mf_index tsf) of
        None \<Rightarrow> ([Threw TypeError], d)
      | Some ts \<Rightarrow>
          if \<not> db_isNA ts then
            (case store_fields E M (mf_format tsf) ts data recordIndex metrics d of
               (Some e, d') \<Rightarrow> ([Threw e], d')
             | (None, d') \<Rightarrow> upload_records E M metrics tsf fl (recordIndex + 1) (records + 1) cs d')
          else upload_records E M metrics tsf fl (recordIndex + 1) records cs d)"
| "upload_records E M metrics tsf fl recordIndex records (Finished # cs) d =
     (let fl' = om_set ''records'' (JNum (jint (int records))) fl;
          (r, d1) = putFile E (JObj fl') d;
          (r', d2) = upload_records E M metrics tsf fl' recordIndex records cs d1
      in (map (report_record (JObj fl')) r @ r', d2))"

text \<open>The chain of promises after the copy; a rejection cleans the cache and reports.\<close>

definition upload_cached ::
    "('s, 'm) upload_env \<Rightarrow> jsobj \<Rightarrow> 's db \<Rightarrow> 's db_result" where
  "upload_cached U fl d =
     (let E = up_db U; filename = as_string (obj_get fl ''filename''); rows = up_rows U filename
      in case getFields (up_file U) filename rows of
           FieldsThrew e \<Rightarrow> ([Threw e], d)
         | NoFields error \<Rightarrow> ([Failed (ErrorMsg error)], deleteFileFromCache E filename d)
         | FieldsDone (Some error) flds offset \<Rightarrow> ([Failed (ErrorMsg error)], deleteFileFromCache E filename d)
         | FieldsDone None flds offset \<Rightarrow>
             (let fl = om_set ''rowOffset'' (JNum (jint (int offset))) fl
              in case putMetricBatch E (JArr (map field_val flds)) d of
                   ([Failed e], d1) \<Rightarrow> ([Failed e], deleteFileFromCache E filename d1)
                 | ([Threw e], d1) \<Rightarrow> ([Failed e], deleteFileFromCache E filename d1)
                 | (cs, d1) \<Rightarrow>
                     (case find (\<lambda>field. mf_type field = FDate) flds of
                        None \<Rightarrow> ([Threw TypeError], d1)
                      | Some tsf \<Rightarrow>
                          upload_records E (up_moment U) flds tsf fl 0 offset (getData (Some offset) None rows) d1)))"

definition uploadFile :: "('s, 'm) upload_env \<Rightarrow> upload_arg \<Rightarrow> 's db \<Rightarrow> 's db_result" where
  "uploadFile U arg d =
     (let E = up_db U;
          fl = (case arg of
             UploadPath path \<Rightarrow>
               om_set ''filename'' (JStr (path_join (db_fileCachePath E) (basename path)))
                 (om_set ''name'' (JStr (basename path))
                   (om_set ''uid'' (JStr (generateFileId (db_sha1 E) path)) (up_instance U)))
           | UploadFile ob \<Rightarrow> ob);
          errors = (case arg of UploadPath path \<Rightarrow> [] | UploadFile ob \<Rightarrow> db_validate E DBFileSchema (JObj ob));
          filename = as_string (obj_get fl ''filename'');
          source = (case arg of UploadPath path \<Rightarrow> path | UploadFile ob \<Rightarrow> filename)
      in if errors \<noteq> [] then ([Failed (SchemaErrors errors)], d)
         else if dirname source = up_samples U then upload_cached U fl d
         else (case up_copy U source filename of
             Some e \<Rightarrow> ([Failed e], deleteFileFromCache E filename d)
           | None \<Rightarrow> upload_cached U fl (d\<lparr>db_cache := List.insert filename (db_cache d)\<rparr>)))"

section \<open>Lemmas\<close>

text \<open>The records that a row, and all rows from an index on, give a numeric field.\<close>

definition row_series :: "'m moment \<Rightarrow> mfield \<Rightarrow> nat \<Rightarrow> string list \<Rightarrow> mfield \<Rightarrow> (nat \<times> jsval) list" where
  "row_series M tsf i data f =
     (let ts = data ! mf_index tsf; v = data ! mf_index f
      in if \<not> db_isNA ts \<and> \<not> db_isNA v then [(i, metric_data M (mf_format tsf) ts v)] else [])"

fun cell_series :: "'m moment \<Rightarrow> mfield \<Rightarrow> nat \<Rightarrow> string list list \<Rightarrow> mfield \<Rightarrow> (nat \<times> jsval) list" where
  "cell_series M tsf i [] f = []"
| "cell_series M tsf i (data # rows) f = row_series M tsf i data f @ cell_series M tsf (i + 1) rows f"

definition numeric :: "mfield list \<Rightarrow> mfield set" where
  "numeric flds = {f \<in> set flds. mf_type f = FNumber}"

definition separate_ids :: "mfield list \<Rightarrow> bool" where
  "separate_ids flds = (\<forall>f\<in>numeric flds. \<forall>g\<in>numeric flds. f \<noteq> g \<longrightarrow> separate (mf_uid f) (mf_uid g))"

definition series_below :: "nat \<Rightarrow> (nat \<times> jsval) list \<Rightarrow> bool" where
  "series_below i ps = (ok_series ps \<and> (\<forall>j\<in>set (map fst ps). j < i))"

lemma series_below_snoc: "series_below i ps \<Longrightarrow> i < 10 ^ 13 \<Longrightarrow> ok_series (ps @ [(i, v)]) \<and> series_below (i + 1) (ps @ [(i, v)])"
  unfolding series_below_def ok_series_append by (auto simp: less_Suc_eq ok_series_def)

lemma series_below_Suc: "series_below i ps \<Longrightarrow> series_below (i + 1) ps"
  by (auto simp: series_below_def)

lemma series_below_row:
  "series_below i ps \<Longrightarrow> i < 10 ^ 13 \<Longrightarrow> series_below (i + 1) (ps @ row_series M tsf i data f)"
  using series_below_snoc [of i ps] series_below_Suc [of i ps] by (auto simp: row_series_def Let_def)

lemma store_fields_ok:
  assumes "level_store (db_level E) content healthy" and "\<forall>ob. db_validate E DBMetricDataSchema (JObj ob) = []"
    and "separate_ids flds" and "i < 10 ^ 13" and "\<not> db_isNA (data ! mf_index tsf)"
    and "distinct fs" and "set fs \<subseteq> set flds" and "\<forall>f\<in>set fs. mf_index f < length data" and "healthy (db_metricData d)"
    and "\<forall>g\<in>numeric flds. holds_series (content (db_metricData d)) (mf_uid g) (S g)"
    and "\<forall>g\<in>set fs. series_below i (S g)"
  shows "\<exists>s'. store_fields E M (mf_format tsf) (data ! mf_index tsf) data i fs d = (None, d\<lparr>db_metricData := s'\<rparr>) \<and> healthy s'
    \<and> (\<forall>g\<in>numeric flds. holds_series (content s') (mf_uid g) (if g \<in> set fs then S g @ row_series M tsf i data g else S g))"
  using assms(6-)
proof (induction fs arbitrary: d S)
  case Nil
  then show ?case by (intro exI [of _ "db_metricData d"]) simp
next
  case (Cons f fs)
  have cell: "cell data (mf_index f) = Some (data ! mf_index f)" using Cons.prems(3) by (simp add: cell_def)
  show ?case
  proof (cases "mf_type f = FNumber \<and> \<not> db_isNA (data ! mf_index f)")
    case True
    let ?v = "metric_data M (mf_format tsf) (data ! mf_index tsf) (data ! mf_index f)"
    have f: "f \<in> numeric flds" using True Cons.prems(2) by (simp add: numeric_def)
    have v: "parse_if_string ?v = Inr ?v" "db_validate E DBMetricDataSchema ?v = []"
      using assms(2) by (simp_all add: metric_data_def parse_if_string_def is_string_def case_prod_beta)
    obtain s1 where s1: "putMetricData E (mf_uid f) i ?v d = ([Done JUndef], d\<lparr>db_metricData := s1\<rparr>)" "healthy s1"
      "\<And>ps. holds_series (content (db_metricData d)) (mf_uid f) ps \<Longrightarrow> ok_series (ps @ [(i, ?v)])
           \<Longrightarrow> holds_series (content s1) (mf_uid f) (ps @ [(i, ?v)])"
      "\<And>m' ps. holds_series (content (db_metricData d)) m' ps \<Longrightarrow> separate m' (mf_uid f) \<Longrightarrow> holds_series (content s1) m' ps"
      using putMetricData_ok [OF assms(1) Cons.prems(4) v, where m = "mf_uid f" and n = i] by blast
    let ?T = "\<lambda>g. if g = f then S g @ [(i, ?v)] else S g"
    have row: "row_series M tsf i data f = [(i, ?v)]" using True assms(5) by (simp add: row_series_def Let_def)
    have "series_below i (S f)" using Cons.prems(6) by simp
    then have ok: "ok_series (S f @ [(i, ?v)])" using series_below_snoc assms(4) by blast
    have "holds_series (content s1) (mf_uid g) (?T g)" if "g \<in> numeric flds" for g
      using s1(3) [OF _ ok] s1(4) [of "mf_uid g" "S g"] Cons.prems(5) that f assms(3)
      by (auto simp: separate_ids_def)
    then have "\<exists>s'. store_fields E M (mf_format tsf) (data ! mf_index tsf) data i fs (d\<lparr>db_metricData := s1\<rparr>)
        = (None, (d\<lparr>db_metricData := s1\<rparr>)\<lparr>db_metricData := s'\<rparr>) \<and> healthy s'
      \<and> (\<forall>g\<in>numeric flds. holds_series (content s') (mf_uid g) (if g \<in> set fs then ?T g @ row_series M tsf i data g else ?T g))"
      using Cons.prems s1(2) by (intro Cons.IH) auto
    then obtain s' where s': "store_fields E M (mf_format tsf) (data ! mf_index tsf) data i fs (d\<lparr>db_metricData := s1\<rparr>)
        = (None, d\<lparr>db_metricData := s'\<rparr>)" "healthy s'"
      "\<And>g. g \<in> numeric flds \<Longrightarrow> holds_series (content s') (mf_uid g) (if g \<in> set fs then ?T g @ row_series M tsf i data g else ?T g)"
      by auto
    have "holds_series (content s') (mf_uid g) (if g \<in> set (f # fs) then S g @ row_series M tsf i data g else S g)"
      if "g \<in> numeric flds" for g
      using s'(3) [OF that] Cons.prems(1) row by (cases "g = f") auto
    moreover have "store_fields E M (mf_format tsf) (data ! mf_index tsf) data i (f # fs) d = (None, d\<lparr>db_metricData := s'\<rparr>)"
      using s'(1) s1(1) True cell by simp
    ultimately show ?thesis using s'(2) by blast
  next
    case False
    have "\<exists>s'. store_fields E M (mf_format tsf) (data ! mf_index tsf) data i fs d = (None, d\<lparr>db_metricData := s'\<rparr>) \<and> healthy s'
      \<and> (\<forall>g\<in>numeric flds. holds_series (content s') (mf_uid g) (if g \<in> set fs then S g @ row_series M tsf i data g else S g))"
      using Cons.prems by (intro Cons.IH) auto
    then obtain s' where s': "store_fields E M (mf_format tsf) (data ! mf_index tsf) data i fs d = (None, d\<lparr>db_metricData := s'\<rparr>)" "healthy s'"
      "\<And>g. g \<in> numeric flds \<Longrightarrow> holds_series (content s') (mf_uid g) (if g \<in> set fs then S g @ row_series M tsf i data g else S g)"
      by auto
    have "holds_series (content s') (mf_uid g) (if g \<in> set (f # fs) then S g @ row_series M tsf i data g else S g)"
      if "g \<in> numeric flds" for g
      using s'(3) [OF that] Cons.prems(1) False that by (cases "g = f") (auto simp: row_series_def numeric_def Let_def)
    moreover have "store_fields E M (mf_format tsf) (data ! mf_index tsf) data i (f # fs) d = (None, d\<lparr>db_metricData := s'\<rparr>)"
      using s'(1) False cell by auto
    ultimately show ?thesis using s'(2) by blast
  qed
qed

text \<open>The whole run of the record callback.\<close>

definition valid_rows :: "mfield \<Rightarrow> string list list \<Rightarrow> nat" where
  "valid_rows tsf rows = length (filter (\<lambda>data. \<not> db_isNA (data ! mf_index tsf)) rows)"

lemma upload_records_ok:
  assumes "level_store (db_level E) content healthy" and "\<forall>sch ob. db_validate E sch (JObj ob) = []"
    and "separate_ids flds" and "distinct flds" and "tsf \<in> set flds"
    and "\<forall>data\<in>set rows. \<forall>f\<in>set flds. mf_index f < length data"
    and "i + length rows \<le> 10 ^ 13" and "healthy (db_metricData d)" and "healthy (db_files d)"
    and "\<forall>g\<in>numeric flds. holds_series (content (db_metricData d)) (mf_uid g) (S g)"
    and "\<forall>g. series_below i (S g)"
    and "fl' = om_set ''records'' (JNum (jint (int (r + valid_rows tsf rows)))) fl"
  shows "\<exists>s' t. upload_records E M flds tsf fl i r (map Record rows @ [Finished]) d
      = ([Done (JObj fl')], d\<lparr>db_metricData := s', db_files := t\<rparr>) \<and> healthy s' \<and> healthy t
    \<and> content t = (content (db_files d))(uid_key (JObj fl') \<mapsto> JObj fl')
    \<and> (\<forall>g\<in>numeric flds. holds_series (content s') (mf_uid g) (S g @ cell_series M tsf i rows g))"
  using assms(6-)
proof (induction rows arbitrary: d S i r)
  case Nil
  obtain t where t: "validated_put E DBFileSchema (uid_key (JObj fl')) (JObj fl') (db_files d) = ([Done JUndef], t)"
    "healthy t" "content t = (content (db_files d))(uid_key (JObj fl') \<mapsto> JObj fl')"
    by (rule validated_put_ok [OF assms(1) Nil.prems(4)]) (use assms(2) in auto)
  then have "putFile E (JObj fl') d = ([Done JUndef], d\<lparr>db_files := t\<rparr>)"
    by (simp add: putFile_def parse_if_string_def is_string_def)
  then have "upload_records E M flds tsf fl i r [Finished] d = ([Done (JObj fl')], d\<lparr>db_files := t\<rparr>)"
    using Nil.prems(7) by (simp add: report_record_def valid_rows_def)
  with t Nil.prems show ?case
    by (intro exI [of _ "db_metricData d"] exI [of _ t]) simp
next
  case (Cons data rows)
  have cell: "cell data (mf_index tsf) = Some (data ! mf_index tsf)"
    using Cons.prems(1) assms(5) by (simp add: cell_def)
  have i: "i < 10 ^ 13" using Cons.prems(2) by simp
  let ?S = "\<lambda>g. S g @ row_series M tsf i data g"
  have below: "\<forall>g. series_below (i + 1) (?S g)" using Cons.prems(6) i series_below_row by blast
  show ?case
  proof (cases "db_isNA (data ! mf_index tsf)")
    case True
    then have "row_series M tsf i data g = []" for g by (simp add: row_series_def Let_def)
    moreover have "upload_records E M flds tsf fl i r (map Record (data # rows) @ [Finished]) d
       = upload_records E M flds tsf fl (i + 1) r (map Record rows @ [Finished]) d"
      using True cell by simp
    moreover have "valid_rows tsf (data # rows) = valid_rows tsf rows" using True by (simp add: valid_rows_def)
    ultimately show ?thesis
      using Cons.IH [of "i + 1" d S r] Cons.prems below by simp
  next
    case False
    have "\<exists>s'. store_fields E M (mf_format tsf) (data ! mf_index tsf) data i flds d = (None, d\<lparr>db_metricData := s'\<rparr>) \<and> healthy s'
      \<and> (\<forall>g\<in>numeric flds. holds_series (content s') (mf_uid g) (if g \<in> set flds then ?S g else S g))"
      using Cons.prems assms i False by (intro store_fields_ok) auto
    then obtain s1 where s1: "store_fields E M (mf_format tsf) (data ! mf_index tsf) data i flds d = (None, d\<lparr>db_metricData := s1\<rparr>)"
      "healthy s1" "\<forall>g\<in>numeric flds. holds_series (content s1) (mf_uid g) (?S g)"
      by (auto simp: numeric_def)
    have run: "upload_records E M flds tsf fl i r (map Record (data # rows) @ [Finished]) d
       = upload_records E M flds tsf fl (i + 1) (r + 1) (map Record rows @ [Finished]) (d\<lparr>db_metricData := s1\<rparr>)"
      using False cell s1(1) by simp
    have "valid_rows tsf (data # rows) = Suc (valid_rows tsf rows)" using False by (simp add: valid_rows_def)
    then show ?thesis
      unfolding run using Cons.IH [of "i + 1" "d\<lparr>db_metricData := s1\<rparr>" ?S "r + 1"] Cons.prems below s1 by simp
  qed
qed
lemma cell_series_ok:
  assumes "i + length rows \<le> 10 ^ 13"
  shows "ok_series (cell_series M tsf i rows g) \<and> (\<forall>p\<in>set (cell_series M tsf i rows g). i \<le> fst p)"
  using assms
proof (induction rows arbitrary: i)
  case (Cons data rows)
  then have "ok_series (cell_series M tsf (i + 1) rows g)" "\<forall>p\<in>set (cell_series M tsf (i + 1) rows g). i + 1 \<le> fst p"
    using Cons.IH [of "i + 1"] by auto
  moreover have "ok_series (row_series M tsf i data g)" "\<forall>p\<in>set (row_series M tsf i data g). fst p = i"
    using Cons.prems by (auto simp: row_series_def ok_series_def Let_def)
  ultimately show ?case by (fastforce simp: ok_series_append)
qed simp

section \<open>Properties\<close>


definition mem_upload :: "(jsval mem, unit) upload_env" where
  "mem_upload = \<lparr>up_db = mem_env, up_file = iso_env, up_moment = no_moment, up_samples = ''/samples'',
     up_instance = [(''type'', JStr ''uploaded'')], up_copy = (\<lambda>s t. None),
     up_rows = (\<lambda>f. [[''time'', ''x''], [''2015-01-01'', ''5'']])\<rparr>"


text \<open>a path whose file has no usable fields is rejected with one call that carries the
  message of the file service; the copy is removed from the cache again, and no file, metric or
  value is stored.\<close>

theorem uploadFile_rejects:
  assumes "dirname path \<noteq> up_samples U" and "cached = path_join (db_fileCachePath (up_db U)) (basename path)"
    and "basename path \<noteq> []" and "db_fileCachePath (up_db U) \<noteq> []" and "\<not> db_unlink_fails (up_db U) cached"
    and "up_copy U path cached = None"
    and "getFields (up_file U) cached (up_rows U cached) = NoFields message
       \<or> getFields (up_file U) cached (up_rows U cached) = FieldsDone (Some message) flds offset"
  shows "uploadFile U (UploadPath path) d
     = ([Failed (ErrorMsg message)], d\<lparr>db_cache := filter (\<lambda>f. f \<noteq> cached) (db_cache d)\<rparr>)"
proof -
  have "CHR ''/'' \<notin> set (basename path)"
    by (auto simp: basename_def dest: set_takeWhileD)
  then have dir: "dirname cached = db_fileCachePath (up_db U)"
    unfolding assms(2) by (intro dirname_join assms(3,4))
  have rm: "deleteFileFromCache (up_db U) cached (d\<lparr>db_cache := List.insert cached (db_cache d)\<rparr>)
      = d\<lparr>db_cache := filter (\<lambda>f. f \<noteq> cached) (db_cache d)\<rparr>"
    using dir assms(5) by (auto simp: deleteFileFromCache_def List.insert_def)
  show ?thesis
    using assms(1,6,7) rm by (auto simp: uploadFile_def upload_cached_def Let_def assms(2) [symmetric])
qed

definition bad_upload :: "(jsval mem, unit) upload_env" where
  "bad_upload = mem_upload\<lparr>up_rows := (\<lambda>f. [])\<rparr>"

theorem uploadFile_rejects_witness:
  "\<exists>message. uploadFile bad_upload (UploadPath ''/home/a.csv'') mem_db = ([Failed (ErrorMsg message)], mem_db)"
proof -
  let ?c = "''/files/a.csv''"
  have b: "basename ''/home/a.csv'' = ''a.csv''"
    by (simp add: basename_def strip_trailing_slashes_def)
  have p: "dirname ''/home/a.csv'' \<noteq> up_samples bad_upload" "?c = path_join (db_fileCachePath (up_db bad_upload)) (basename ''/home/a.csv'')"
      "basename ''/home/a.csv'' \<noteq> []" "db_fileCachePath (up_db bad_upload) \<noteq> []"
      "\<not> db_unlink_fails (up_db bad_upload) ?c" "up_copy bad_upload ''/home/a.csv'' ?c = None"
    by (simp_all add: bad_upload_def mem_upload_def dirname_def strip_trailing_slashes_def b path_join_def mem_env_def)
  obtain message where "getFields (up_file bad_upload) ?c (up_rows bad_upload ?c) = NoFields message"
    by (simp add: bad_upload_def getFields_def)
  from uploadFile_rejects [OF p disjI1 [OF this], of mem_db] show ?thesis by (auto simp: mem_db_def)
qed

end
