(* ===== verification/Browser_App.thy ===== *)
theory Browser_App
  imports File_Store Metric_Store Model_Store Model_Data_Store Create_Model_Store Service_IPC Upload
begin

text \<open>
  The browser application as a whole: the actions that can be dispatched
  (\<open>app/browser/lib/Constants.js\<close>), which handler of which store listens to which action (the
  \<open>handlers\<close> of the stores), and the dispatcher, which calls the stores in the order of
  \<open>app/browser/entry.js\<close> and stops at the first that throws. The database of the main process and
  the messages sent to it are part of the state.
\<close>

section \<open>Actions\<close>

text \<open>The keys of \<open>ACTIONS\<close> with the payloads the action creators give them.\<close>

datatype action =
    START_APPLICATION
  | STOP_APPLICATION
  | DELETE_FILE string
  | LIST_FILES "jsobj list"
  | SET_FILE_EXPANDED_STATE string bool
  | UPLOADED_FILE jsobj
  | UPDATE_FILE jsobj
  | VALIDATE_FILE details
  | DELETE_FILE_FAILED string jserr
  | LIST_FILES_FAILURE jserr
  | UPLOADED_FILE_FAILED jserr
  | UPDATE_FILE_FAILED jsobj
  | VALIDATE_FILE_FAILED details
  | VALIDATE_FILE_WARNING details
  | LIST_METRICS "jsobj list"
  | LIST_METRICS_FAILURE jserr
  | UPDATE_METRIC model_start
  | LOAD_METRIC_DATA string "jsval list"
  | LOAD_METRIC_DATA_FAILED jserr
  | UNLOAD_METRIC_DATA string
  | ADD_MODEL jsobj
  | DELETE_MODEL string
  | LIST_MODELS "jsobj list"
  | START_MODEL string bool
  | STOP_MODEL string
  | CLOSE_MODEL string
  | SHOW_MODEL string
  | HIDE_MODEL string
  | ADD_MODEL_FAILED jserr jsobj
  | DELETE_MODEL_FAILED string jserr
  | LIST_MODELS_FAILURE jserr
  | START_MODEL_FAILED "string option" jsval
  | STOP_MODEL_FAILED "string option" jsval
  | UNKNOWN_MODEL_FAILURE "string option" jsval
  | PREPARE_FOR_MODEL_RESULTS string
  | NOTIFY_NEW_MODEL_RESULTS string
  | LOAD_MODEL_DATA string "jsval list"
  | LOAD_MODEL_DATA_FAILED jserr
  | START_PARAM_FINDER string jsval
  | STOP_PARAM_FINDER string
  | CLOSE_PARAM_FINDER string
  | START_PARAM_FINDER_FAILED "string option" jsval
  | STOP_PARAM_FINDER_FAILED "string option" jsval
  | UNKNOWN_PARAM_FINDER_FAILURE "string option" jsval
  | RECEIVE_PARAM_FINDER_DATA string jsval
  | TOGGLE_AGGREGATE_DATA jsval
  | OVERRIDE_PARAM_FINDER_RESULTS jsval
  | SHOW_FILE_DETAILS details
  | HIDE_FILE_DETAILS
  | SHOW_CREATE_MODEL_DIALOG jsval jsval
  | HIDE_CREATE_MODEL_DIALOG
  | CHART_UPDATE_VIEWPOINT string jsval

section \<open>State\<close>

text \<open>Requests to the services of the main process, by channel.\<close>

datatype request =
    CreateModelRequest string jsval jsobj jsval
  | RemoveModelRequest string
  | CreateParamFinderRequest string jsval
  | RemoveParamFinderRequest string

datatype hit = GAEvent string | GAException string

record 's app =
  ap_db :: "'s db"
  ap_create :: create_store
  ap_details :: details_store
  ap_files :: file_store
  ap_metricData :: metric_data_store
  ap_metrics :: metric_store
  ap_modelData :: "jsval data_store"
  ap_models :: model_store
  ap_sent :: "request list"
  ap_hits :: "hit list"

text \<open>\<open>ae_error\<close> gives the value of an error object; \<open>ae_now\<close> is the time.\<close>

record ('s, 'm) app_env =
  ae_upload :: "('s, 'm) upload_env"
  ae_lodash :: lodash_env
  ae_metric :: record_env
  ae_model :: record_env
  ae_error :: "jserr \<Rightarrow> jsval"
  ae_now :: int

section \<open>Handlers by action\<close>

definition create_listens :: "('s, 'm) app_env \<Rightarrow> action \<Rightarrow> create_store \<Rightarrow> create_store handled" where
  "create_listens V a s = (let L = ae_lodash V in case a of
       SHOW_CREATE_MODEL_DIALOG f m \<Rightarrow> handleShowCreateModelDialog f m s
     | HIDE_CREATE_MODEL_DIALOG \<Rightarrow> handleHideCreateModelDialog s
     | START_PARAM_FINDER m i \<Rightarrow> handleStartParamFinder (JStr m) i s
     | RECEIVE_PARAM_FINDER_DATA m r \<Rightarrow> handleReceiveParamFinderData L (JStr m) r s
     | OVERRIDE_PARAM_FINDER_RESULTS p \<Rightarrow> handleOverrideParamFinderResults L p s
     | TOGGLE_AGGREGATE_DATA b \<Rightarrow> handleToggleAggregateData b s
     | START_PARAM_FINDER_FAILED m e \<Rightarrow> handleParamFinderError e s
     | STOP_PARAM_FINDER_FAILED m e \<Rightarrow> handleParamFinderError e s
     | UNKNOWN_PARAM_FINDER_FAILURE m e \<Rightarrow> handleParamFinderError e s
     | _ \<Rightarrow> (Quiet, s))"

definition details_listens :: "action \<Rightarrow> details_store \<Rightarrow> details_store handled" where
  "details_listens a s = (case a of
       SHOW_FILE_DETAILS d \<Rightarrow> showFileDetails d s
     | HIDE_FILE_DETAILS \<Rightarrow> hideFileDetails s
     | VALIDATE_FILE_FAILED d \<Rightarrow> handleFileValidate d s
     | VALIDATE_FILE d \<Rightarrow> handleFileValidate d s
     | VALIDATE_FILE_WARNING d \<Rightarrow> handleFileValidate d s
     | _ \<Rightarrow> (Quiet, s))"

definition files_listens :: "action \<Rightarrow> file_store \<Rightarrow> file_store handled" where
  "files_listens a s = (case a of
       DELETE_FILE f \<Rightarrow> handleDeleteFile f s
     | UPDATE_FILE f \<Rightarrow> handleSetFile f s
     | UPLOADED_FILE f \<Rightarrow> handleUploadedFile f s
     | LIST_FILES fs \<Rightarrow> handleListFiles (Some fs) s
     | SET_FILE_EXPANDED_STATE f b \<Rightarrow> handleSetFileExpandedState f b s
     | _ \<Rightarrow> (Quiet, s))"

definition metricData_listens :: "action \<Rightarrow> metric_data_store \<Rightarrow> metric_data_store handled" where
  "metricData_listens a s = (case a of
       LOAD_METRIC_DATA m rows \<Rightarrow> handLoadData (Some [(''metricId'', JStr m), (''data'', JArr rows)]) rows s
     | UNLOAD_METRIC_DATA m \<Rightarrow> handleUnloadData m s
     | HIDE_MODEL m \<Rightarrow> metricData_handleHideModel m s
     | _ \<Rightarrow> (Quiet, s))"

definition metrics_listens :: "('s, 'm) app_env \<Rightarrow> action \<Rightarrow> metric_store \<Rightarrow> metric_store handled" where
  "metrics_listens V a s = (case a of
       DELETE_FILE f \<Rightarrow> metrics_handleDeleteFile f s
     | LIST_METRICS ms \<Rightarrow> handleListMetrics (ae_metric V) (Some ms) s
     | UPDATE_METRIC p \<Rightarrow> handleUpdateMetric p s
     | CHART_UPDATE_VIEWPOINT m w \<Rightarrow> handleUpdateViewpoint m w s
     | _ \<Rightarrow> (Quiet, s))"

definition modelData_listens :: "('s, 'm) app_env \<Rightarrow> action \<Rightarrow> jsval data_store \<Rightarrow> jsval data_store handled" where
  "modelData_listens V a s = (case a of
       PREPARE_FOR_MODEL_RESULTS m \<Rightarrow> handlePrepareForResults m s
     | NOTIFY_NEW_MODEL_RESULTS m \<Rightarrow> handleNewModelResults (ae_now V) m s
     | LOAD_MODEL_DATA m rows \<Rightarrow> handleLoadModelData (ae_now V) m rows s
     | HIDE_MODEL m \<Rightarrow> modelData_handleHideModel m s
     | STOP_APPLICATION \<Rightarrow> handleStopApplication s
     | DELETE_MODEL m \<Rightarrow> modelData_handleDeleteModel m s
     | _ \<Rightarrow> (Quiet, s))"

text \<open>A payload without \<open>modelId\<close> names no model; \<open>ADD_MODEL_FAILED\<close> is dispatched with
  \<open>{error, model}\<close>, so its handler finds none.\<close>

definition fail_known :: "string option \<Rightarrow> jsval \<Rightarrow> model_store \<Rightarrow> model_store handled" where
  "fail_known m e s = (case m of None \<Rightarrow> (Quiet, s) | Some i \<Rightarrow> handleModelFailed i e s)"

definition models_listens :: "('s, 'm) app_env \<Rightarrow> action \<Rightarrow> model_store \<Rightarrow> model_store handled" where
  "models_listens V a s = (case a of
       ADD_MODEL m \<Rightarrow> addModels (ae_model V) (OneModel m) s
     | DELETE_MODEL i \<Rightarrow> store_deleteModel i s
     | LIST_MODELS ms \<Rightarrow> addModels (ae_model V) (ModelList ms) s
     | STOP_MODEL i \<Rightarrow> stopModel i s
     | CLOSE_MODEL i \<Rightarrow> stopModel i s
     | START_MODEL i g \<Rightarrow> startModel i (JBool g) s
     | SHOW_MODEL i \<Rightarrow> showModel i s
     | HIDE_MODEL i \<Rightarrow> hideModel i s
     | ADD_MODEL_FAILED e m \<Rightarrow> fail_known None (ae_error V e) s
     | DELETE_MODEL_FAILED i e \<Rightarrow> fail_known (Some i) (ae_error V e) s
     | STOP_MODEL_FAILED i e \<Rightarrow> fail_known i e s
     | START_MODEL_FAILED i e \<Rightarrow> fail_known i e s
     | UNKNOWN_MODEL_FAILURE i e \<Rightarrow> fail_known i e s
     | _ \<Rightarrow> (Quiet, s))"

section \<open>The dispatcher\<close>

text \<open>One store after the other; \<open>get\<close> and \<open>put\<close> are its place in the application.\<close>

definition call_store ::
    "('a app \<Rightarrow> 't) \<Rightarrow> ('t \<Rightarrow> 'a app \<Rightarrow> 'a app) \<Rightarrow> ('t \<Rightarrow> 't handled) \<Rightarrow> jserr option \<times> 'a app \<Rightarrow> jserr option \<times> 'a app" where
  "call_store get put h r = (case r of
       (Some e, ap) \<Rightarrow> (Some e, ap)
     | (None, ap) \<Rightarrow> (case h (get ap) of
           (Raised e, t) \<Rightarrow> (Some e, put t ap)
         | (_, t) \<Rightarrow> (None, put t ap)))"

definition dispatch :: "('s, 'm) app_env \<Rightarrow> action \<Rightarrow> 's app \<Rightarrow> jserr option \<times> 's app" where
  "dispatch V a ap =
     (call_store ap_models (\<lambda>t. ap_models_update (\<lambda>_. t)) (models_listens V a) \<circ>
      call_store ap_modelData (\<lambda>t. ap_modelData_update (\<lambda>_. t)) (modelData_listens V a) \<circ>
      call_store ap_metrics (\<lambda>t. ap_metrics_update (\<lambda>_. t)) (metrics_listens V a) \<circ>
      call_store ap_metricData (\<lambda>t. ap_metricData_update (\<lambda>_. t)) (metricData_listens a) \<circ>
      call_store ap_files (\<lambda>t. ap_files_update (\<lambda>_. t)) (files_listens a) \<circ>
      call_store ap_details (\<lambda>t. ap_details_update (\<lambda>_. t)) (details_listens a) \<circ>
      call_store ap_create (\<lambda>t. ap_create_update (\<lambda>_. t)) (create_listens V a)) (None, ap)"

lemmas listens_defs = create_listens_def details_listens_def files_listens_def metricData_listens_def
  metrics_listens_def modelData_listens_def models_listens_def

lemma call_store_simps [simp]:
  "call_store get put h (Some e, ap) = (Some e, ap)"
  "h (get ap) = (Quiet, t) \<Longrightarrow> call_store get put h (None, ap) = (None, put t ap)"
  "h (get ap) = (Changed, t) \<Longrightarrow> call_store get put h (None, ap) = (None, put t ap)"
  "h (get ap) = (Raised e, t) \<Longrightarrow> call_store get put h (None, ap) = (Some e, put t ap)"
  by (simp_all add: call_store_def)

text \<open>An action that one store listens to changes that store only.\<close>

lemma dispatch_silent:
  "dispatch V START_APPLICATION ap = (None, ap)"
  "dispatch V (LIST_FILES_FAILURE e) ap = (None, ap)"
  "dispatch V (DELETE_FILE_FAILED f e) ap = (None, ap)"
  "dispatch V (LOAD_MODEL_DATA_FAILED e) ap = (None, ap)"
  "dispatch V (LOAD_METRIC_DATA_FAILED e) ap = (None, ap)"
  "dispatch V (ADD_MODEL_FAILED e m) ap = (None, ap)"
  by (simp_all add: dispatch_def listens_defs fail_known_def Let_def)

end
