(* ===== verification/Actions.thy ===== *)
theory Actions
  imports Browser_App
begin

text \<open>
  The action creators of the browser, \<open>app/browser/actions/*.js\<close>. An action runs the operations of
  the database service through its client, dispatches what its callbacks dispatch and returns
  a promise. Each database call runs to its end before the action goes on; a callback that is
  called several times is run several times, and one that is never called leaves the promise
  pending. A handler that throws inside a callback ends the callback.
\<close>

section \<open>Promises and callbacks\<close>

datatype promise = Pending | Resolved jsval | Rejected jserr

type_synonym 's result = "promise \<times> 's app"

definition event :: "string \<Rightarrow> 's app \<Rightarrow> 's app" where
  "event name ap = ap\<lparr>ap_hits := ap_hits ap @ [GAEvent name]\<rparr>"

definition exception :: "string \<Rightarrow> 's app \<Rightarrow> 's app" where
  "exception name ap = ap\<lparr>ap_hits := ap_hits ap @ [GAException name]\<rparr>"

definition send :: "request \<Rightarrow> 's app \<Rightarrow> 's app" where
  "send r ap = ap\<lparr>ap_sent := ap_sent ap @ [r]\<rparr>"

text \<open>The requests of \<open>ModelClient\<close> and \<open>ParamFinderClient\<close>.\<close>

definition client_createModel :: "string \<Rightarrow> jsval \<Rightarrow> jsobj \<Rightarrow> jsval \<Rightarrow> 's app \<Rightarrow> 's app" where
  "client_createModel modelId inputOpts aggOpts modelOpts = send (CreateModelRequest modelId inputOpts aggOpts modelOpts)"

definition client_removeModel :: "string \<Rightarrow> 's app \<Rightarrow> 's app" where
  "client_removeModel modelId = send (RemoveModelRequest modelId)"

definition client_createParamFinder :: "string \<Rightarrow> jsval \<Rightarrow> 's app \<Rightarrow> 's app" where
  "client_createParamFinder metricId params = send (CreateParamFinderRequest metricId params)"

definition client_removeParamFinder :: "string \<Rightarrow> 's app \<Rightarrow> 's app" where
  "client_removeParamFinder metricId = send (RemoveParamFinderRequest metricId)"

text \<open>\<open>dispatch(a); ...\<close> in a callback, and as the last step of an action or of \<open>then\<close>.\<close>

definition dispatch_then :: "('s, 'm) app_env \<Rightarrow> action \<Rightarrow> ('s app \<Rightarrow> 's result) \<Rightarrow> 's app \<Rightarrow> 's result" where
  "dispatch_then V a k ap = (case dispatch V a ap of (Some e, ap1) \<Rightarrow> (Pending, ap1) | (None, ap1) \<Rightarrow> k ap1)"

definition dispatch_last :: "('s, 'm) app_env \<Rightarrow> action \<Rightarrow> 's app \<Rightarrow> 's result" where
  "dispatch_last V a ap = (case dispatch V a ap of (Some e, ap1) \<Rightarrow> (Rejected e, ap1) | (None, ap1) \<Rightarrow> (Resolved JUndef, ap1))"

definition resolve :: "jsval \<Rightarrow> 's app \<Rightarrow> 's result" where
  "resolve v ap = (Resolved v, ap)"

definition reject :: "jserr \<Rightarrow> 's app \<Rightarrow> 's result" where
  "reject e ap = (Rejected e, ap)"

text \<open>The callback for every call; the first settled promise counts.\<close>

fun on_calls :: "(jserr, jsval) calls \<Rightarrow> (jserr + jsval \<Rightarrow> 's app \<Rightarrow> 's result) \<Rightarrow> 's app \<Rightarrow> 's result" where
  "on_calls [] callback ap = (Pending, ap)"
| "on_calls (Threw e # cs) callback ap = (Pending, ap)"
| "on_calls (Failed e # cs) callback ap =
     (let (p, ap1) = callback (Inl e) ap; (q, ap2) = on_calls cs callback ap1
      in (if p = Pending then q else p, ap2))"
| "on_calls (Done v # cs) callback ap =
     (let (p, ap1) = callback (Inr v) ap; (q, ap2) = on_calls cs callback ap1
      in (if p = Pending then q else p, ap2))"

definition query_db :: "('s db \<Rightarrow> (jserr, jsval) calls) \<Rightarrow> (jserr + jsval \<Rightarrow> 's app \<Rightarrow> 's result) \<Rightarrow> 's app \<Rightarrow> 's result" where
  "query_db f callback ap = on_calls (f (ap_db ap)) callback ap"

definition update_db :: "('s db \<Rightarrow> 's db_result) \<Rightarrow> (jserr + jsval \<Rightarrow> 's app \<Rightarrow> 's result) \<Rightarrow> 's app \<Rightarrow> 's result" where
  "update_db f callback ap = (let (cs, d) = f (ap_db ap) in on_calls cs callback (ap\<lparr>ap_db := d\<rparr>))"

text \<open>\<open>JSON.parse(text)\<close> in a callback.\<close>

definition parsed :: "jsval \<Rightarrow> (jsval \<Rightarrow> 's app \<Rightarrow> 's result) \<Rightarrow> 's app \<Rightarrow> 's result" where
  "parsed text k ap = (case json_parse text of Inl e \<Rightarrow> (Pending, ap) | Inr v \<Rightarrow> k v ap)"

definition objs :: "jsval \<Rightarrow> jsobj list" where
  "objs v = map as_obj (as_arr v)"

text \<open>\<open>p.then(k)\<close>\<close>

definition and_then_p :: "'s result \<Rightarrow> (jsval \<Rightarrow> 's app \<Rightarrow> 's result) \<Rightarrow> 's result" where
  "and_then_p r k = (case r of (Resolved v, ap) \<Rightarrow> k v ap | _ \<Rightarrow> r)"

abbreviation level_env :: "('s, 'm) app_env \<Rightarrow> 's db_env" where
  "level_env V \<equiv> up_db (ae_upload V)"

section \<open>Files\<close>

definition ListFiles :: "('s, 'm) app_env \<Rightarrow> 's app \<Rightarrow> 's result" where
  "ListFiles V = query_db (getAllFiles (level_env V))
     (\<lambda>r. case r of
        Inl error \<Rightarrow> dispatch_then V (LIST_FILES_FAILURE error) (reject error)
      | Inr files \<Rightarrow> parsed files (\<lambda>files. dispatch_then V (LIST_FILES (objs files)) (resolve files)))"

definition ListMetrics :: "('s, 'm) app_env \<Rightarrow> string option \<Rightarrow> 's app \<Rightarrow> 's result" where
  "ListMetrics V fileId =
     (let callback = (\<lambda>r. case r of
            Inl error \<Rightarrow> dispatch_then V (LIST_METRICS_FAILURE error) (reject error)
          | Inr metrics \<Rightarrow> parsed metrics (\<lambda>metrics. dispatch_then V (LIST_METRICS (objs metrics)) (resolve metrics)))
      in case fileId of
           Some i \<Rightarrow> query_db (getMetricsByFile (level_env V) i) callback
         | None \<Rightarrow> query_db (getAllMetrics (level_env V)) callback)"

definition ListModels :: "('s, 'm) app_env \<Rightarrow> 's app \<Rightarrow> 's result" where
  "ListModels V = query_db (getAllModels (level_env V))
     (\<lambda>r. case r of
        Inl error \<Rightarrow> dispatch_then V (LIST_MODELS_FAILURE error) (reject error)
      | Inr models \<Rightarrow> parsed models (\<lambda>models. dispatch_then V (LIST_MODELS (objs models)) (resolve models)))"

definition DeleteFile :: "('s, 'm) app_env \<Rightarrow> string \<Rightarrow> 's app \<Rightarrow> 's result" where
  "DeleteFile V filename ap = update_db (deleteFile (level_env V) filename)
     (\<lambda>r. case r of
        Inl error \<Rightarrow> dispatch_then V (DELETE_FILE_FAILED filename error) (reject error) \<circ> exception ''DELETE_FILE_FAILED''
      | Inr x \<Rightarrow> dispatch_then V (DELETE_FILE filename) (resolve (JStr filename)))
     (event ''DELETE_FILE'' ap)"

definition FileUpdate :: "('s, 'm) app_env \<Rightarrow> jsobj \<Rightarrow> 's app \<Rightarrow> 's result" where
  "FileUpdate V fl ap = update_db (putFile (level_env V) (JObj fl))
     (\<lambda>r. case r of
        Inl error \<Rightarrow> dispatch_then V (UPDATE_FILE_FAILED fl) (reject error) \<circ> exception ''UPDATE_FILE_FAILED''
      | Inr x \<Rightarrow> dispatch_then V (UPDATE_FILE fl) (resolve JUndef))
     (event ''UPDATE_FILE'' ap)"

definition FileUpload :: "('s, 'm) app_env \<Rightarrow> string \<Rightarrow> 's app \<Rightarrow> 's result" where
  "FileUpload V filename ap = and_then_p
     (update_db (uploadFile (ae_upload V) (UploadPath filename))
        (\<lambda>r. case r of
           Inl error \<Rightarrow> dispatch_then V (UPLOADED_FILE_FAILED error) (reject error) \<circ> exception ''UPLOADED_FILE_FAILED''
         | Inr fl \<Rightarrow> dispatch_then V (UPLOADED_FILE (as_obj fl)) (resolve fl))
        (event ''UPLOADED_FILE'' ap))
     (\<lambda>fl. ListMetrics V (Some (str_prop (as_obj fl) ''uid'')))"

text \<open>The object \<open>{file, fields}\<close> that \<open>FileService.validate\<close> reports.\<close>

definition file_val :: "jsobj \<Rightarrow> file_info \<Rightarrow> jsobj" where
  "file_val inst fi =
     (let fl = assign (assign [] inst)
            [(''uid'', JStr (fi_uid fi)), (''name'', JStr (fi_name fi)), (''filename'', JStr (fi_filename fi))]
      in case fi_records fi of
           None \<Rightarrow> fl
         | Some n \<Rightarrow> om_set ''rowOffset'' (JNum (jint (int (fi_rowOffset fi)))) (om_set ''records'' (JNum (jint (int n))) fl))"

definition validation_details :: "jsobj \<Rightarrow> jsval \<Rightarrow> jsval \<Rightarrow> file_info \<Rightarrow> mfield list \<Rightarrow> details" where
  "validation_details inst error warning fi flds =
     \<lparr>dt_file = JObj (file_val inst fi), dt_fields = Some (map (as_obj \<circ> field_val) flds), dt_error = error, dt_warning = warning\<rparr>"

definition opt_str :: "string option \<Rightarrow> jsval" where
  "opt_str v = (case v of None \<Rightarrow> JNull | Some s \<Rightarrow> JStr s)"

text \<open>The executor never calls \<open>resolve\<close> or \<open>reject\<close>.\<close>

definition FileValidate :: "('s, 'm) app_env \<Rightarrow> string \<Rightarrow> 's app \<Rightarrow> 's result" where
  "FileValidate V filename ap = query_db (getFileByName (level_env V) filename)
     (\<lambda>r ap. case r of
        Inr dbfile \<Rightarrow>
          parsed dbfile (\<lambda>fl. dispatch_then V (VALIDATE_FILE_FAILED
              \<lparr>dt_file = fl, dt_fields = Some [], dt_error = JStr ''File already exists'', dt_warning = JNull\<rparr>)
              (Pair Pending) \<circ> exception ''VALIDATE_FILE_FAILED'') ap
      | Inl err \<Rightarrow>
          (case validate (up_file (ae_upload V)) filename (up_rows (ae_upload V) filename) of
             ValidateThrew e \<Rightarrow> (Pending, ap)
           | Validated error warning fi flds \<Rightarrow>
               if error \<noteq> None \<and> error \<noteq> Some [] then
                 dispatch_then V (VALIDATE_FILE_FAILED (validation_details (up_instance (ae_upload V)) (opt_str error) (opt_str warning) fi flds))
                   (Pair Pending) (exception ''VALIDATE_FILE_FAILED'' ap)
               else if warning \<noteq> None \<and> warning \<noteq> Some [] then
                 dispatch_then V (VALIDATE_FILE_WARNING (validation_details (up_instance (ae_upload V)) (opt_str error) (opt_str warning) fi flds))
                   (Pair Pending) ap
               else dispatch_then V (VALIDATE_FILE (validation_details (up_instance (ae_upload V)) JUndef JUndef fi flds)) (Pair Pending) ap))
     (event ''VALIDATE_FILE'' ap)"

definition ShowFileDetails :: "('s, 'm) app_env \<Rightarrow> jsobj \<Rightarrow> 's app \<Rightarrow> 's result" where
  "ShowFileDetails V fl ap =
     (let (p, ap1) = query_db (getMetricsByFile (level_env V) (str_prop fl ''uid''))
            (\<lambda>r. case r of
               Inl error \<Rightarrow> Pair Pending
             | Inr metrics \<Rightarrow> parsed metrics (\<lambda>metrics. dispatch_then V
                 (SHOW_FILE_DETAILS \<lparr>dt_file = JObj fl, dt_fields = Some (objs metrics), dt_error = JUndef, dt_warning = JUndef\<rparr>)
                 (Pair Pending)))
            (event ''SHOW_FILE_DETAILS'' ap)
      in (Resolved JUndef, ap1))"

definition HideFileDetails :: "('s, 'm) app_env \<Rightarrow> 's app \<Rightarrow> 's result" where
  "HideFileDetails V ap = dispatch_last V HIDE_FILE_DETAILS (event ''HIDE_FILE_DETAILS'' ap)"

definition SetFileExpandedState :: "('s, 'm) app_env \<Rightarrow> string \<Rightarrow> bool \<Rightarrow> 's app \<Rightarrow> 's result" where
  "SetFileExpandedState V filename expanded = dispatch_last V (SET_FILE_EXPANDED_STATE filename expanded)"

section \<open>Model and metric data\<close>

definition LoadMetricData :: "('s, 'm) app_env \<Rightarrow> string \<Rightarrow> 's app \<Rightarrow> 's result" where
  "LoadMetricData V metricId = query_db (getMetricData (level_env V) metricId)
     (\<lambda>r. case r of
        Inl error \<Rightarrow> dispatch_then V (LOAD_METRIC_DATA_FAILED error) (reject error)
      | Inr metricData \<Rightarrow> parsed metricData (\<lambda>data. dispatch_then V (LOAD_METRIC_DATA metricId (as_arr data)) (resolve data)))"

definition LoadModelData :: "('s, 'm) app_env \<Rightarrow> string \<Rightarrow> 's app \<Rightarrow> 's result" where
  "LoadModelData V modelId = query_db (getModelData (level_env V) modelId (Some 0))
     (\<lambda>r. case r of
        Inl error \<Rightarrow> dispatch_then V (LOAD_MODEL_DATA_FAILED error) (reject error)
      | Inr modelData \<Rightarrow> parsed modelData (\<lambda>data. dispatch_then V (LOAD_MODEL_DATA modelId (as_arr data)) (resolve data)))"

definition UnloadMetricData :: "('s, 'm) app_env \<Rightarrow> string \<Rightarrow> 's app \<Rightarrow> 's result" where
  "UnloadMetricData V metricId = dispatch_last V (UNLOAD_METRIC_DATA metricId)"

text \<open>\<open>Promise.all([p, q])\<close>\<close>

definition promise_all :: "promise \<Rightarrow> promise \<Rightarrow> promise" where
  "promise_all p q = (case p of
       Rejected e \<Rightarrow> Rejected e
     | Pending \<Rightarrow> (case q of Rejected e \<Rightarrow> Rejected e | _ \<Rightarrow> Pending)
     | Resolved v \<Rightarrow> (case q of Rejected e \<Rightarrow> Rejected e | Pending \<Rightarrow> Pending | Resolved w \<Rightarrow> Resolved (JArr [v, w])))"

definition ShowModel :: "('s, 'm) app_env \<Rightarrow> string \<Rightarrow> 's app \<Rightarrow> 's result" where
  "ShowModel V modelId ap = (case dispatch V (PREPARE_FOR_MODEL_RESULTS modelId) (event ''SHOW_MODEL'' ap) of
       (Some e, ap1) \<Rightarrow> (Rejected e, ap1)
     | (None, ap1) \<Rightarrow>
         (let (p, ap2) = LoadModelData V modelId ap1; (q, ap3) = LoadMetricData V modelId ap2
          in and_then_p (promise_all p q, ap3) (\<lambda>x. dispatch_last V (SHOW_MODEL modelId))))"

definition HideModel :: "('s, 'm) app_env \<Rightarrow> string \<Rightarrow> 's app \<Rightarrow> 's result" where
  "HideModel V modelId ap = dispatch_last V (HIDE_MODEL modelId) (event ''HIDE_MODEL'' ap)"

section \<open>Models\<close>

text \<open>The promise of \<open>ShowModel\<close> is not returned to the chain.\<close>

definition AddShowModel :: "('s, 'm) app_env \<Rightarrow> jsobj \<Rightarrow> 's app \<Rightarrow> 's result" where
  "AddShowModel V model ap = and_then_p
     (update_db (putModel (level_env V) (JObj model))
        (\<lambda>r. case r of
           Inl error \<Rightarrow> dispatch_then V (ADD_MODEL_FAILED error model) (reject error) \<circ> exception ''ADD_MODEL_FAILED''
         | Inr x \<Rightarrow> dispatch_then V (ADD_MODEL model) (resolve (obj_get model ''modelId'')))
        (event ''ADD_MODEL'' ap))
     (\<lambda>x ap. (Resolved JUndef, snd (ShowModel V (str_prop model ''modelId'') ap)))"

definition DeleteModel :: "('s, 'm) app_env \<Rightarrow> string \<Rightarrow> 's app \<Rightarrow> 's result" where
  "DeleteModel V modelId ap = update_db (deleteModel (level_env V) modelId)
     (\<lambda>r. case r of
        Inl error \<Rightarrow> dispatch_then V (DELETE_MODEL_FAILED modelId error) (reject error) \<circ> exception ''DELETE_MODEL_FAILED''
      | Inr x \<Rightarrow> dispatch_then V (DELETE_MODEL modelId) (resolve (JStr modelId) \<circ> client_removeModel modelId))
     (event ''DELETE_MODEL'' ap)"

text \<open>\<open>promisify(f, ...)\<close>: the first call of the callback settles the promise.\<close>

definition promisify :: "('s db \<Rightarrow> 's db_result) \<Rightarrow> 's app \<Rightarrow> 's result" where
  "promisify f ap = (let (cs, d) = f (ap_db ap) in
     ((case cs of [] \<Rightarrow> Pending | Done v # _ \<Rightarrow> Resolved v | Failed e # _ \<Rightarrow> Rejected e | Threw e # _ \<Rightarrow> Rejected e),
      ap\<lparr>ap_db := d\<rparr>))"

definition StartModel :: "('s, 'm) app_env \<Rightarrow> model_start \<Rightarrow> 's app \<Rightarrow> 's result" where
  "StartModel V payload ap =
     (let metricId = st_metricId payload;
          aggregated = (st_aggOpts payload \<noteq> [])
      in case dispatch V (UPDATE_METRIC payload) (event ''START_MODEL'' ap) of
           (Some e, ap1) \<Rightarrow> (Rejected e, ap1)
         | (None, ap1) \<Rightarrow>
             (case and_then_p (and_then_p
                (promisify (updateMetric (level_env V) metricId (JObj
                   [(''input_options'', JObj (st_inputOpts payload)),
                    (''aggregation_options'', JObj (st_aggOpts payload)),
                    (''model_options'', JObj (st_modelOpts payload))])) ap1)
                (\<lambda>metric. promisify (updateModel (level_env V) metricId (JObj
                   [(''ran'', JBool True), (''aggregated'', JBool aggregated)]))))
                (\<lambda>x ap. dispatch_last V (START_MODEL metricId aggregated)
                   (client_createModel metricId (JObj (st_inputOpts payload)) (st_aggOpts payload)
                      (JObj (st_modelOpts payload)) ap))
              of (Rejected e, ap2) \<Rightarrow> (Rejected e, exception ''START_MODEL_FAILED'' ap2)
               | r \<Rightarrow> r))"

definition StopModel :: "('s, 'm) app_env \<Rightarrow> string \<Rightarrow> 's app \<Rightarrow> 's result" where
  "StopModel V modelId ap =
     dispatch_last V (STOP_MODEL modelId) (client_removeModel modelId (event ''STOP_MODEL'' ap))"

definition CloseModel :: "('s, 'm) app_env \<Rightarrow> string \<Rightarrow> 's app \<Rightarrow> 's result" where
  "CloseModel V modelId ap = dispatch_last V (CLOSE_MODEL modelId) (event ''CLOSE_MODEL'' ap)"

definition NotifyNewModelResultsAction :: "('s, 'm) app_env \<Rightarrow> string \<Rightarrow> 's app \<Rightarrow> 's result" where
  "NotifyNewModelResultsAction V modelId = dispatch_last V (NOTIFY_NEW_MODEL_RESULTS modelId)"

text \<open>The payload \<open>{command, modelId, error}\<close>; \<open>None\<close> is \<open>undefined\<close>.\<close>

definition ModelError :: "('s, 'm) app_env \<Rightarrow> string option \<Rightarrow> string option \<Rightarrow> jsval \<Rightarrow> 's app \<Rightarrow> 's result" where
  "ModelError V command modelId error ap =
     (if command = Some ''create'' then
        dispatch_last V (START_MODEL_FAILED modelId error) (exception ''START_MODEL_FAILED'' ap)
      else if command = Some ''remove'' then
        dispatch_last V (STOP_MODEL_FAILED modelId error) (exception ''STOP_MODEL_FAILED'' ap)
      else dispatch_last V (UNKNOWN_MODEL_FAILURE modelId error) (exception ''UNKNOWN_MODEL_FAILURE'' ap))"

section \<open>Parameter finders\<close>

definition StartParamFinder :: "('s, 'm) app_env \<Rightarrow> string \<Rightarrow> jsval \<Rightarrow> 's app \<Rightarrow> 's result" where
  "StartParamFinder V metricId inputOpts ap =
     dispatch_last V (START_PARAM_FINDER metricId inputOpts)
       (client_createParamFinder metricId inputOpts (event ''START_PARAM_FINDER'' ap))"

definition StopParamFinder :: "('s, 'm) app_env \<Rightarrow> string \<Rightarrow> 's app \<Rightarrow> 's result" where
  "StopParamFinder V metricId ap =
     dispatch_last V (STOP_PARAM_FINDER metricId) (client_removeParamFinder metricId (event ''STOP_PARAM_FINDER'' ap))"

definition CloseParamFinder :: "('s, 'm) app_env \<Rightarrow> string \<Rightarrow> 's app \<Rightarrow> 's result" where
  "CloseParamFinder V metricId ap = dispatch_last V (CLOSE_PARAM_FINDER metricId) (event ''CLOSE_PARAM_FINDER'' ap)"

definition ReceiveParamFinderData :: "('s, 'm) app_env \<Rightarrow> string \<Rightarrow> jsval \<Rightarrow> 's app \<Rightarrow> 's result" where
  "ReceiveParamFinderData V metricId paramFinderResults =
     dispatch_last V (RECEIVE_PARAM_FINDER_DATA metricId paramFinderResults)"

definition ParamFinderError :: "('s, 'm) app_env \<Rightarrow> string option \<Rightarrow> string option \<Rightarrow> jsval \<Rightarrow> 's app \<Rightarrow> 's result" where
  "ParamFinderError V command metricId error ap =
     (if command = Some ''create'' then
        dispatch_last V (START_PARAM_FINDER_FAILED metricId error) (exception ''START_PARAM_FINDER_FAILED'' ap)
      else if command = Some ''remove'' then
        dispatch_last V (STOP_PARAM_FINDER_FAILED metricId error) (exception ''STOP_PARAM_FINDER_FAILED'' ap)
      else dispatch_last V (UNKNOWN_PARAM_FINDER_FAILURE metricId error) (exception ''UNKNOWN_PARAM_FINDER_FAILURE'' ap))"

definition OverrideParamFinderResults :: "('s, 'm) app_env \<Rightarrow> jsval \<Rightarrow> 's app \<Rightarrow> 's result" where
  "OverrideParamFinderResults V payload ap =
     dispatch_last V (OVERRIDE_PARAM_FINDER_RESULTS payload) (event ''OVERRIDE_PARAM_FINDER_RESULTS'' ap)"

definition ToggleAggregateData :: "('s, 'm) app_env \<Rightarrow> jsval \<Rightarrow> 's app \<Rightarrow> 's result" where
  "ToggleAggregateData V aggregateData ap =
     dispatch_last V (TOGGLE_AGGREGATE_DATA aggregateData) (event ''TOGGLE_AGGREGATE_DATA'' ap)"

section \<open>Dialog, chart and application\<close>

definition ShowCreateModelDialog :: "('s, 'm) app_env \<Rightarrow> jsval \<Rightarrow> jsval \<Rightarrow> 's app \<Rightarrow> 's result" where
  "ShowCreateModelDialog V fileName metricName ap =
     dispatch_last V (SHOW_CREATE_MODEL_DIALOG fileName metricName) (event ''SHOW_CREATE_MODEL_DIALOG'' ap)"

definition HideCreateModelDialog :: "('s, 'm) app_env \<Rightarrow> 's app \<Rightarrow> 's result" where
  "HideCreateModelDialog V ap = dispatch_last V HIDE_CREATE_MODEL_DIALOG (event ''HIDE_CREATE_MODEL_DIALOG'' ap)"

definition ChartUpdateViewpoint :: "('s, 'm) app_env \<Rightarrow> string \<Rightarrow> jsval \<Rightarrow> 's app \<Rightarrow> 's result" where
  "ChartUpdateViewpoint V metricId dateWindow = dispatch_last V (CHART_UPDATE_VIEWPOINT metricId dateWindow)"

definition StartApplication :: "('s, 'm) app_env \<Rightarrow> 's app \<Rightarrow> 's result" where
  "StartApplication V ap =
     and_then_p (and_then_p (and_then_p (dispatch_last V START_APPLICATION (event ''START_APPLICATION'' ap))
       (\<lambda>x. ListFiles V)) (\<lambda>files. ListMetrics V None)) (\<lambda>x. ListModels V)"

definition StopApplication :: "('s, 'm) app_env \<Rightarrow> 's app \<Rightarrow> 's result" where
  "StopApplication V ap = dispatch_last V STOP_APPLICATION (event ''STOP_APPLICATION'' ap)"

end
