(* ===== verification/Main_Process.thy ===== *)
theory Main_Process
  imports Upload Service_IPC
begin

text \<open>
  The event handlers of the main process, \<open>app/main/index.js\<close>: results of a model are saved to
  the database and announced to the browser, and the sample files are loaded on the first
  run. The main result follows the output of a model process to what the database returns.
\<close>

section \<open>Model results\<close>

text \<open>\<open>receiveModelData\<close>: a failed write is only logged.\<close>

definition receiveModelData ::
    "'s db_env \<Rightarrow> string \<Rightarrow> nat \<Rightarrow> jsval \<Rightarrow> ipc \<Rightarrow> 's db \<Rightarrow> ipc_message list \<times> 's db" where
  "receiveModelData E modelId recordIndex modelData st d =
     (let (cs, d') = putModelData E modelId recordIndex modelData d
      in (concat (map (\<lambda>c. case c of
              Done x \<Rightarrow> if ipc_web st then [NotifyNewModelResults modelId] else []
            | _ \<Rightarrow> []) cs), d'))"

text \<open>The two listeners of a model's events.\<close>

definition call_listener ::
    "'s db_env \<Rightarrow> ipc \<Rightarrow> string \<times> event \<Rightarrow> listener \<Rightarrow> 's db \<Rightarrow> ipc_message list \<times> 's db" where
  "call_listener E st ev l d = (case l of
       DataListener \<Rightarrow> (case snd ev of
           ModelDataEvent index modelData \<Rightarrow> receiveModelData E (fst ev) index modelData st d
         | _ \<Rightarrow> ([], d))
     | IpcListener \<Rightarrow> (forward_model_event st (fst ev) (snd ev), d))"

fun call_listeners ::
    "'s db_env \<Rightarrow> ipc \<Rightarrow> string \<times> event \<Rightarrow> listener list \<Rightarrow> 's db \<Rightarrow> ipc_message list \<times> 's db" where
  "call_listeners E st ev [] d = ([], d)"
| "call_listeners E st ev (l # ls) d =
     (let (ms, d1) = call_listener E st ev l d; (ms', d2) = call_listeners E st ev ls d1 in (ms @ ms', d2))"

fun emit_events ::
    "'s db_env \<Rightarrow> ipc \<Rightarrow> (string \<times> event) list \<Rightarrow> 's db \<Rightarrow> ipc_message list \<times> 's db" where
  "emit_events E st [] d = ([], d)"
| "emit_events E st (ev # evs) d =
     (let (ms, d1) = call_listeners E st ev (listeners_of (fst ev) (ipc_service st)) d;
          (ms', d2) = emit_events E st evs d1
      in (ms @ ms', d2))"

text \<open>A chunk of output of a child, all the way to the database and the browser.\<close>

definition model_output ::
    "'s db_env \<Rightarrow> (string \<Rightarrow> result_line option) \<Rightarrow> 'm moment \<Rightarrow> nat \<Rightarrow> string \<Rightarrow> ipc \<Rightarrow> 's db
       \<Rightarrow> ipc_message list \<times> ipc \<times> 's db" where
  "model_output E parse M pid data st d =
     (let (evs, s) = child_data parse M pid data (ipc_service st);
          st = st\<lparr>ipc_service := s\<rparr>;
          (ms, d) = emit_events E st evs d
      in (ms, st, d))"

section \<open>First run\<close>

text \<open>
  \<open>initializeApplicationData\<close>: all sample files are uploaded; only when every upload has
  reported success is the application marked as initialized. The result says whether it is.
\<close>

fun upload_all :: "('s, 'm) upload_env \<Rightarrow> jsobj list \<Rightarrow> 's db \<Rightarrow> bool \<times> 's db" where
  "upload_all U [] d = (True, d)"
| "upload_all U (f # fs) d =
     (let (cs, d1) = uploadFile U (UploadFile f) d;
          (ok, d2) = upload_all U fs d1
      in ((case cs of Done x # _ \<Rightarrow> ok | _ \<Rightarrow> False), d2))"

definition initializeApplicationData ::
    "('s, 'm) upload_env \<Rightarrow> jsobj list \<Rightarrow> bool \<Rightarrow> 's db \<Rightarrow> bool \<times> 's db" where
  "initializeApplicationData U sampleFiles initialized d =
     (if initialized then (True, d) else upload_all U sampleFiles d)"

section \<open>Lemmas\<close>

lemma putModelData_ok:
  assumes "level_store (db_level E) content healthy" and "healthy (db_modelData d)"
    and "db_validate E DBModelDataSchema v = []"
    and "holds_series (content (db_modelData d)) m ps" and "ok_series (ps @ [(n, v)])"
  obtains s' where "putModelData E m n v d = ([Done JUndef], d\<lparr>db_modelData := s'\<rparr>)" and "healthy s'"
    and "holds_series (content s') m (ps @ [(n, v)])"
proof -
  obtain s' where s': "validated_put E DBModelDataSchema (generateMetricDataId m n) v (db_modelData d)
      = ([Done JUndef], s')" "healthy s'"
      "content s' = (content (db_modelData d))(generateMetricDataId m n \<mapsto> v)"
    by (rule validated_put_ok [OF assms(1-3)])
  moreover have "holds_series (content s') m (ps @ [(n, v)])"
    using holds_series_put [OF assms(4,5)] s'(3) by (simp only: apply_ops_single)
  ultimately show ?thesis by (intro that [of s']) (simp_all add: putModelData_def)
qed

lemma emit_results:
  assumes "level_store (db_level E) content healthy"
    and "listeners_of m (ipc_service st) = [DataListener, IpcListener]" and "ipc_web st"
    and "healthy (db_modelData d)" and "holds_series (content (db_modelData d)) m ps"
    and "ok_series (ps @ List.enumerate n vs)" and "\<forall>v\<in>set vs. db_validate E DBModelDataSchema v = []"
  shows "\<exists>s'. emit_events E st (map (\<lambda>(i, v). (m, ModelDataEvent i v)) (List.enumerate n vs)) d
      = (replicate (length vs) (NotifyNewModelResults m), d\<lparr>db_modelData := s'\<rparr>) \<and> healthy s'
    \<and> holds_series (content s') m (ps @ List.enumerate n vs)"
  using assms(4-)
proof (induction vs arbitrary: n ps d)
  case Nil
  then show ?case by (intro exI [of _ "db_modelData d"]) simp
next
  case (Cons v vs)
  have ok: "ok_series (ps @ [(n, v)])"
    using Cons.prems(3) ok_series_append [of "ps @ [(n, v)]" "List.enumerate (Suc n) vs"] by simp
  have "db_validate E DBModelDataSchema v = []" using Cons.prems(4) by simp
  then obtain s1 where s1: "putModelData E m n v d = ([Done JUndef], d\<lparr>db_modelData := s1\<rparr>)" "healthy s1"
    "holds_series (content s1) m (ps @ [(n, v)])"
    by (rule putModelData_ok [OF assms(1) Cons.prems(1) _ Cons.prems(2) ok])
  have "call_listeners E st (m, ModelDataEvent n v) [DataListener, IpcListener] d
     = ([NotifyNewModelResults m], d\<lparr>db_modelData := s1\<rparr>)"
    using s1(1) assms(3) by (simp add: call_listener_def receiveModelData_def forward_model_event_def)
  moreover have "\<exists>s'. emit_events E st (map (\<lambda>(i, v). (m, ModelDataEvent i v)) (List.enumerate (Suc n) vs)) (d\<lparr>db_modelData := s1\<rparr>)
      = (replicate (length vs) (NotifyNewModelResults m), (d\<lparr>db_modelData := s1\<rparr>)\<lparr>db_modelData := s'\<rparr>) \<and> healthy s'
    \<and> holds_series (content s') m ((ps @ [(n, v)]) @ List.enumerate (Suc n) vs)"
    using Cons.prems s1 by (intro Cons.IH) auto
  ultimately show ?case using assms(2) by auto
qed

lemma child_data_lines:
  assumes "find_child pid s = Some c"
    and "\<forall>l\<in>set ls. l \<noteq> [] \<and> CHR 0x0A \<notin> set l \<and> parse l \<noteq> None"
  shows "\<exists>s'. child_data parse M pid (concat (map (\<lambda>l. l @ [CHR 0x0A]) ls)) s =
      (map (\<lambda>(i, v). (ch_id c, ModelDataEvent i v))
         (List.enumerate (ch_index c) (map (\<lambda>l. model_data M (the (parse l))) ls)), s')
    \<and> ps_listeners s' = ps_listeners s"
proof -
  have "split_lines (concat (map (\<lambda>l. l @ [CHR 0x0A]) ls)) = ls @ [[]]"
    using assms(2) by (intro split_lines_complete) auto
  moreover have "data_lines parse M (ch_id c) (ch_index c) (ls @ [[]]) =
       (map (\<lambda>(i, l). (ch_id c, ModelDataEvent i (model_data M (the (parse l))))) (List.enumerate (ch_index c) ls),
        ch_index c + length ls)"
    using assms(2) by (intro data_lines_complete) auto
  moreover have "map (\<lambda>(i, l). (ch_id c, ModelDataEvent i (model_data M (the (parse l))))) (List.enumerate n ls)
     = map (\<lambda>(i, v). (ch_id c, ModelDataEvent i v)) (List.enumerate n (map (\<lambda>l. model_data M (the (parse l))) ls))" for n
    by (induction ls arbitrary: n) auto
  ultimately show ?thesis using assms(1) by (simp add: child_data_def)
qed

section \<open>Properties\<close>


definition one_model_ipc :: ipc where
  "one_model_ipc = snd (snd (model_handleIPCEvent 2 ''a'' (CmdCreate (Some (JNull, [], JNull))) new_ipc))"


text \<open>After the first run the application counts as initialized only if every sample file was
  reported as stored; a later run uploads nothing.\<close>

lemma initialize_complete:
  "initializeApplicationData U files True d = (True, d) \<and>
   (fst (initializeApplicationData U (fs @ f # gs) False d) \<longrightarrow>
      (\<exists>x cs. fst (uploadFile U (UploadFile f) (snd (upload_all U fs d))) = Done x # cs))"
proof -
  have "fst (upload_all U (fs @ f # gs) d) \<Longrightarrow>
      \<exists>x cs. fst (uploadFile U (UploadFile f) (snd (upload_all U fs d))) = Done x # cs"
  proof (induction fs arbitrary: d)
    case Nil
    then show ?case by (auto simp: case_prod_beta Let_def split: list.splits call.splits)
  next
    case (Cons g fs)
    then show ?case by (auto simp: case_prod_beta Let_def split: list.splits call.splits)
  qed
  then show ?thesis by (simp add: initializeApplicationData_def)
qed

end
