(* ===== verification/Clients.thy ===== *)
theory Clients
  imports Actions Main_Process
begin

text \<open>
  What the browser does with messages of the main process, \<open>app/browser/lib/HTMStudio/ModelClient.js\<close>
  and \<open>ParamFinderClient.js\<close>, and the behaviour of whole flows: showing and starting a model, deleting a file,
  and how errors of the services reach the stores.
\<close>

section \<open>Messages of the services\<close>

fun command_name :: "command \<Rightarrow> string" where
  "command_name (CmdCreate opts) = ''create''"
| "command_name CmdRemove = ''remove''"
| "command_name CmdList = ''list''"
| "command_name (CmdUnknown c) = c"

text \<open>\<open>{error, ipcevent}\<close>; only a refused command comes with its \<open>ipcevent\<close>.\<close>

definition model_handleIPCError ::
    "('s, 'm) app_env \<Rightarrow> jsval \<Rightarrow> (string \<times> string) option \<Rightarrow> 's app \<Rightarrow> 's result" where
  "model_handleIPCError V error ipcevent = ModelError V (map_option snd ipcevent) (map_option fst ipcevent) error"

definition close_message :: "string \<Rightarrow> int \<Rightarrow> jsval" where
  "close_message what code = JStr (''Error closing '' @ what @ '' '' @ (if code < 0 then ''-'' else '''') @ show_nat (nat \<bar>code\<bar>))"

definition handleCloseModel :: "('s, 'm) app_env \<Rightarrow> string \<Rightarrow> int \<Rightarrow> 's app \<Rightarrow> 's result" where
  "handleCloseModel V modelId error =
     (if error \<noteq> 0 then ModelError V (Some ''close'') (Some modelId) (close_message ''model'' error)
      else CloseModel V modelId)"

text \<open>\<open>service_val\<close> is the value of a service error after the message has been sent.\<close>

definition model_client_event ::
    "('s, 'm) app_env \<Rightarrow> (service_error \<Rightarrow> jsval) \<Rightarrow> bool \<Rightarrow> ipc_message \<Rightarrow> 's app \<Rightarrow> 's app" where
  "model_client_event V service_val started msg ap =
     (if \<not> started then ap else (case msg of
        NotifyNewModelResults m \<Rightarrow> snd (NotifyNewModelResultsAction V m ap)
      | CommandError m e cmd \<Rightarrow> snd (model_handleIPCError V (service_val e) (Some (m, command_name cmd)) ap)
      | ServiceError m payload \<Rightarrow> snd (model_handleIPCError V (JStr payload) None ap)
      | Forward m (CloseEvent code) \<Rightarrow> snd (handleCloseModel V m code ap)
      | Forward m ev \<Rightarrow> ap))"

definition finder_handleIPCError ::
    "('s, 'm) app_env \<Rightarrow> jsval \<Rightarrow> (string \<times> string) option \<Rightarrow> 's app \<Rightarrow> 's result" where
  "finder_handleIPCError V error ipcevent = ParamFinderError V (map_option snd ipcevent) (map_option fst ipcevent) error"

definition handleCloseParamFinder :: "('s, 'm) app_env \<Rightarrow> string \<Rightarrow> int \<Rightarrow> 's app \<Rightarrow> 's result" where
  "handleCloseParamFinder V metricId error =
     (if error \<noteq> 0 then ParamFinderError V (Some ''close'') (Some metricId) (close_message ''param finder'' error)
      else CloseParamFinder V metricId)"

text \<open>The text that a parameter finder printed; \<open>read\<close> is its JSON value.\<close>

definition handleParamFinderData :: "('s, 'm) app_env \<Rightarrow> (string \<Rightarrow> jsval) \<Rightarrow> string \<Rightarrow> string \<Rightarrow> 's app \<Rightarrow> 's result" where
  "handleParamFinderData V read metricId paramFinderResults = ReceiveParamFinderData V metricId (read paramFinderResults)"

text \<open>The handlers run in a \<open>setTimeout\<close> of their own, after the message has been handled.\<close>

definition finder_client_event ::
    "('s, 'm) app_env \<Rightarrow> (service_error \<Rightarrow> jsval) \<Rightarrow> (string \<Rightarrow> jsval) \<Rightarrow> bool \<Rightarrow> ipc_message \<Rightarrow> 's app \<Rightarrow> 's app" where
  "finder_client_event V service_val read started msg ap =
     (if \<not> started then ap else (case msg of
        Forward m (ParamDataEvent text) \<Rightarrow> snd (handleParamFinderData V read m text ap)
      | CommandError m e cmd \<Rightarrow> snd (finder_handleIPCError V (service_val e) (Some (m, command_name cmd)) ap)
      | ServiceError m payload \<Rightarrow> snd (finder_handleIPCError V (JStr payload) None ap)
      | Forward m (CloseEvent code) \<Rightarrow> snd (handleCloseParamFinder V m code ap)
      | _ \<Rightarrow> ap))"

section \<open>Errors of models\<close>

lemma dispatch_failed:
  assumes "a = START_MODEL_FAILED m e \<or> a = STOP_MODEL_FAILED m e \<or> a = UNKNOWN_MODEL_FAILURE m e"
  shows "dispatch V a ap = (None, ap\<lparr>ap_models := snd (fail_known m e (ap_models ap))\<rparr>)"
  using assms
  by (auto simp: dispatch_def listens_defs fail_known_def handleModelFailed_def call_store_def Let_def split: option.split)

lemma dispatch_last_failed:
  assumes "a = START_MODEL_FAILED m e \<or> a = STOP_MODEL_FAILED m e \<or> a = UNKNOWN_MODEL_FAILURE m e"
  shows "snd (dispatch_last V a ap) = ap\<lparr>ap_models := snd (fail_known m e (ap_models ap))\<rparr>"
  using dispatch_failed [OF assms, of V ap] by (simp add: dispatch_last_def)

lemma ModelError_models:
  "ap_models (snd (ModelError V c m e ap)) = snd (fail_known m e (ap_models ap))"
  by (simp add: ModelError_def dispatch_last_failed exception_def)

text \<open>C26: a request that the service refuses marks its model in the store as inactive with the error; but
  an error that a running model process reports is sent without the request, so the browser
  dispatches it without a model id and every store stays as it is: the model goes on being
  shown as active without an error.\<close>

theorem model_errors_delivered:
  assumes "om_get (ms_models (ap_models ap)) m = Some a" and "a < length (ms_objs (ap_models ap))"
  shows "obj_get (ms_objs (ap_models (model_client_event V sv True (CommandError m e cmd) ap)) ! a) ''active'' = JBool False
    \<and> obj_get (ms_objs (ap_models (model_client_event V sv True (CommandError m e cmd) ap)) ! a) ''error'' = sv e
    \<and> (\<forall>st msg. m \<in> set (ipc_attached st) \<and> ipc_web st \<longrightarrow>
         forward_model_event st m (ErrorEvent msg) = [ServiceError m msg]
         \<and> model_client_event V sv True (ServiceError m msg) ap
             = ap\<lparr>ap_hits := ap_hits ap @ [GAException ''UNKNOWN_MODEL_FAILURE'']\<rparr>)"
proof -
  have "ap_models (model_client_event V sv True (CommandError m e cmd) ap) = snd (handleModelFailed m (sv e) (ap_models ap))"
    by (simp add: model_client_event_def model_handleIPCError_def ModelError_models fail_known_def)
  moreover have "model_client_event V sv True (ServiceError m msg) ap
             = ap\<lparr>ap_hits := ap_hits ap @ [GAException ''UNKNOWN_MODEL_FAILURE'']\<rparr>" for msg
    by (simp add: model_client_event_def model_handleIPCError_def ModelError_def dispatch_last_failed fail_known_def exception_def)
  ultimately show ?thesis using assms
    by (simp add: handleModelFailed_def upd_obj forward_model_event_def)
qed

text \<open>The application on in-memory stores, on which the flows are exercised.\<close>

definition mem_app_env :: "(jsval mem, unit) app_env" where
  "mem_app_env = \<lparr>ae_upload = mem_upload, ae_lodash = shallow_env, ae_metric = strict_env, ae_model = open_env,
     ae_error = (\<lambda>e. JStr ''error''), ae_now = 1000\<rparr>"

definition mem_app :: "jsval mem app" where
  "mem_app = \<lparr>ap_db = mem_db, ap_create = new_create_store, ap_details = new_details_store, ap_files = new_file_store,
     ap_metricData = [], ap_metrics = [], ap_modelData = new_data_store,
     ap_models = \<lparr>ms_objs = [[(''visible'', JBool False)]], ms_models = [(''m'', 0)], ms_stack = []\<rparr>,
     ap_sent = [], ap_hits = []\<rparr>"

theorem model_errors_delivered_witness:
  "obj_get (ms_objs (ap_models (model_client_event mem_app_env (\<lambda>e. JStr ''refused'') True
      (CommandError ''m'' MaximumConcurrencyError CmdRemove) mem_app)) ! 0) ''error'' = JStr ''refused''"
proof -
  have "om_get (ms_models (ap_models mem_app)) ''m'' = Some 0" "0 < length (ms_objs (ap_models mem_app))"
    by (simp_all add: mem_app_def)
  from model_errors_delivered [OF this, where V = mem_app_env and sv = "\<lambda>e. JStr ''refused''"
      and e = MaximumConcurrencyError and cmd = CmdRemove]
  show ?thesis by simp
qed

section \<open>Showing a model\<close>

lemma dispatch_modelData:
  "dispatch V (PREPARE_FOR_MODEL_RESULTS m) ap = (None, ap\<lparr>ap_modelData := snd (handlePrepareForResults m (ap_modelData ap))\<rparr>)"
  "dispatch V (LOAD_MODEL_DATA m rows) ap = (None, ap\<lparr>ap_modelData := snd (handleLoadModelData (ae_now V) m rows (ap_modelData ap))\<rparr>)"
  by (simp_all add: dispatch_def listens_defs handlePrepareForResults_def handleLoadModelData_def Let_def)

lemma dispatch_metricData:
  "\<not> om_has (ap_metricData ap) JUndef \<Longrightarrow>
    dispatch V (LOAD_METRIC_DATA m rows) ap = (None, ap\<lparr>ap_metricData := om_set (JStr m) rows (ap_metricData ap)\<rparr>)"
  by (simp add: dispatch_def listens_defs handLoadData_def om_has_def obj_get_def Let_def)

lemma dispatch_show:
  "dispatch V (SHOW_MODEL m) ap = (None, ap\<lparr>ap_models := snd (showModel m (ap_models ap))\<rparr>)"
  by (simp add: dispatch_def listens_defs showModel_def call_store_def Let_def split: option.split)

definition served :: "jsval list \<Rightarrow> jsval list" where
  "served rows = as_arr (json_norm (JArr rows))"

lemma json_parse_stringify [simp]: "json_parse (stringify (JArr rows)) = Inr (json_norm (JArr rows))"
  by (simp add: json_parse_def stringify_def)

lemma LoadModelData_ok:
  assumes "level_store (db_level (level_env V)) content healthy" and "healthy (db_modelData (ap_db ap))"
    and "holds_series (content (db_modelData (ap_db ap))) m ps" and "ok_series ps"
  shows "LoadModelData V m ap = (Resolved (json_norm (JArr (map (model_row \<circ> snd) ps))),
    ap\<lparr>ap_modelData := snd (handleLoadModelData (ae_now V) m (served (map (model_row \<circ> snd) ps)) (ap_modelData ap))\<rparr>)"
proof -
  have "getModelData (level_env V) m (Some 0) (ap_db ap) = [Done (stringify (JArr (map (model_row \<circ> snd) ps)))]"
    using stream_series [OF assms, of 0] by (simp add: getModelData_def)
  then show ?thesis
    by (simp add: LoadModelData_def query_db_def parsed_def dispatch_then_def dispatch_modelData resolve_def served_def)
qed

lemma LoadMetricData_ok:
  assumes "level_store (db_level (level_env V)) content healthy" and "healthy (db_metricData (ap_db ap))"
    and "holds_series (content (db_metricData (ap_db ap))) m ps" and "ok_series ps" and "\<not> om_has (ap_metricData ap) JUndef"
  shows "LoadMetricData V m ap = (Resolved (json_norm (JArr (map (metric_row \<circ> snd) ps))),
    ap\<lparr>ap_metricData := om_set (JStr m) (served (map (metric_row \<circ> snd) ps)) (ap_metricData ap)\<rparr>)"
proof -
  have "getMetricData (level_env V) m (ap_db ap) = [Done (stringify (JArr (map (metric_row \<circ> snd) ps)))]"
    using stream_series_all [OF assms(1-4)] by (simp add: getMetricData_def)
  then show ?thesis using assms(5)
    by (simp add: LoadMetricData_def query_db_def parsed_def dispatch_then_def dispatch_metricData resolve_def served_def)
qed

text \<open>C7: showing a hidden model (\<open>ShowModel\<close>) on a working database: the promise resolves, the two data
  stores hold the rows of the database, and the model is marked visible and on top of the
  stack; the database is only read and nothing is sent.\<close>

theorem show_model_flow:
  assumes "level_store (db_level (level_env V)) content healthy"
    and "healthy (db_modelData (ap_db ap))" and "healthy (db_metricData (ap_db ap))"
    and "holds_series (content (db_modelData (ap_db ap))) m ps" and "ok_series ps"
    and "holds_series (content (db_metricData (ap_db ap))) m qs" and "ok_series qs"
    and "\<not> om_has (ap_metricData ap) JUndef"
    and "om_get (ms_models (ap_models ap)) m = Some a" and "\<not> is_visible (ms_objs (ap_models ap) ! a)"
  shows "\<exists>r ap'. ShowModel V m ap = (Resolved r, ap')
    \<and> fst (modelData_getData m (ap_modelData ap')) = served (map (model_row \<circ> snd) ps)
    \<and> metricData_getData m (ap_metricData ap') = served (map (metric_row \<circ> snd) qs)
    \<and> (\<exists>rest. ms_stack (ap_models ap') = a # rest)
    \<and> (a < length (ms_objs (ap_models ap)) \<longrightarrow> is_visible (ms_objs (ap_models ap') ! a))
    \<and> ap_db ap' = ap_db ap \<and> ap_sent ap' = ap_sent ap \<and> ap_files ap' = ap_files ap"
proof -
  let ?ap1 = "event ''SHOW_MODEL'' ap\<lparr>ap_modelData := snd (handlePrepareForResults m (ap_modelData ap))\<rparr>"
  let ?rows = "served (map (model_row \<circ> snd) ps)"
  let ?ap2 = "?ap1\<lparr>ap_modelData := snd (handleLoadModelData (ae_now V) m ?rows (ap_modelData ?ap1))\<rparr>"
  let ?ap3 = "?ap2\<lparr>ap_metricData := om_set (JStr m) (served (map (metric_row \<circ> snd) qs)) (ap_metricData ap)\<rparr>"
  have prep: "dispatch V (PREPARE_FOR_MODEL_RESULTS m) (event ''SHOW_MODEL'' ap) = (None, ?ap1)"
    by (simp add: dispatch_modelData event_def)
  have load: "LoadModelData V m ?ap1 = (Resolved (json_norm (JArr (map (model_row \<circ> snd) ps))), ?ap2)"
    using LoadModelData_ok [OF assms(1), of ?ap1 m ps] assms(2,4,5) by (simp add: event_def)
  have "LoadMetricData V m ?ap2 = (Resolved (json_norm (JArr (map (metric_row \<circ> snd) qs))), ?ap3)"
    using LoadMetricData_ok [OF assms(1), of ?ap2 m qs] assms(3,6-8) by (simp add: event_def)
  then have show': "ShowModel V m ap = (Resolved JUndef, ?ap3\<lparr>ap_models := snd (showModel m (ap_models ap))\<rparr>)"
    using prep load
    by (simp add: ShowModel_def promise_all_def and_then_p_def dispatch_last_def dispatch_show event_def)
  moreover have "fst (modelData_getData m (ap_modelData ?ap2)) = ?rows"
    by (simp add: handlePrepareForResults_def handleLoadModelData_def modelData_getData_def om_get_set Let_def)
  moreover have "snd (showModel m (ap_models ap)) =
      (upd a (om_set ''visible'' (JBool True)) (ap_models ap))\<lparr>ms_stack := a # ms_stack (ap_models ap)\<rparr>"
    using assms(9,10) by (simp add: showModel_def is_visible_def Let_def)
  ultimately show ?thesis
    by (auto simp: metricData_getData_def om_get_set event_def upd_obj is_visible_def)
qed

theorem show_model_flow_witness:
  "fst (ShowModel mem_app_env ''m'' mem_app) \<noteq> Pending
    \<and> ms_stack (ap_models (snd (ShowModel mem_app_env ''m'' mem_app))) \<noteq> []"
proof -
  have h: "level_store (db_level (level_env mem_app_env)) mem_content (\<lambda>s. \<not> mem_fail s)"
    using mem_env_store by (simp add: mem_app_env_def mem_upload_def)
  have d: "\<not> mem_fail (db_modelData (ap_db mem_app))" "\<not> mem_fail (db_metricData (ap_db mem_app))"
    "holds_series (mem_content (db_modelData (ap_db mem_app))) ''m'' []"
    "holds_series (mem_content (db_metricData (ap_db mem_app))) ''m'' []"
    using mem_db_series by (auto simp: mem_app_def mem_db_def empty_mem_def)
  have "\<not> om_has (ap_metricData mem_app) JUndef" "om_get (ms_models (ap_models mem_app)) ''m'' = Some 0"
    "\<not> is_visible (ms_objs (ap_models mem_app) ! 0)"
    by (simp_all add: mem_app_def om_has_def is_visible_def obj_get_def)
  then show ?thesis
    using show_model_flow [OF h d(1,2,3) ok_series_Nil d(4) ok_series_Nil] by auto
qed

section \<open>Deleting a file without metrics\<close>

text \<open>C39: deleting a file that has no metrics: the database drops the file record but never calls back, so
  the promise of \<open>DeleteFile\<close> stays pending, nothing is dispatched, and the file list keeps
  showing a file that the database does not have.\<close>

theorem delete_file_flow:
  assumes "level_store (db_level (level_env V)) content healthy"
    and "healthy (db_files (ap_db ap))" and "healthy (db_metrics (ap_db ap))"
    and "\<forall>k. in_id_range (generateFileId (db_sha1 (level_env V)) filename) k \<longrightarrow> content (db_metrics (ap_db ap)) k = None"
  shows "fst (DeleteFile V filename ap) = Pending
    \<and> ap_files (snd (DeleteFile V filename ap)) = ap_files ap
    \<and> getFileByName (level_env V) filename (ap_db (snd (DeleteFile V filename ap))) = [Failed NotFoundError]"
proof -
  obtain d where "deleteFile (level_env V) filename (ap_db ap) = ([], d)"
    and "getFileByName (level_env V) filename d = [Failed NotFoundError]"
    using deleteFile_no_metrics [OF assms] by blast
  then show ?thesis by (simp add: DeleteFile_def update_db_def event_def)
qed

theorem delete_file_flow_witness:
  "fst (DeleteFile mem_app_env ''/files/a.csv'' mem_app) = Pending"
proof -
  have h: "level_store (db_level (level_env mem_app_env)) mem_content (\<lambda>s. \<not> mem_fail s)"
    using mem_env_store by (simp add: mem_app_env_def mem_upload_def)
  have "\<not> mem_fail (db_files (ap_db mem_app))" "\<not> mem_fail (db_metrics (ap_db mem_app))"
    "\<forall>k. in_id_range (generateFileId (db_sha1 (level_env mem_app_env)) ''/files/a.csv'') k
       \<longrightarrow> mem_content (db_metrics (ap_db mem_app)) k = None"
    by (simp_all add: mem_app_def mem_db_def empty_mem_def mem_content_def)
  then show ?thesis using delete_file_flow [OF h] by blast
qed

section \<open>Starting a model\<close>

lemma dispatch_start:
  "dispatch V (START_MODEL m g) ap = (None, ap\<lparr>ap_models := snd (startModel m (JBool g) (ap_models ap))\<rparr>)"
  "dispatch V (UPDATE_METRIC p) ap = (None, ap\<lparr>ap_metrics := snd (handleUpdateMetric p (ap_metrics ap))\<rparr>)"
  by (simp_all add: dispatch_def listens_defs startModel_def handleUpdateMetric_def call_store_def Let_def split: option.split)

text \<open>C8: \<open>StartModel\<close>: when the options are saved, the request to create the model goes out once, after both
  records have been written, and the model is started in the store; when saving the metric or
  the model fails, the promise is rejected with that error, nothing is sent and the model
  stays as it was, but the metric store already has the new options.\<close>

theorem start_model_flow:
  assumes "metric_opts = JObj [(''input_options'', JObj (st_inputOpts p)), (''aggregation_options'', JObj (st_aggOpts p)),
      (''model_options'', JObj (st_modelOpts p))]"
    and "model_props = JObj [(''ran'', JBool True), (''aggregated'', JBool (st_aggOpts p \<noteq> []))]"
    and "updateMetric (level_env V) (st_metricId p) metric_opts (ap_db ap) = ([c1], d1)"
    and "updateModel (level_env V) (st_metricId p) model_props d1 = ([c2], d2)"
  shows "case c1 of
      Failed e \<Rightarrow> (\<exists>ap'. StartModel V p ap = (Rejected e, ap') \<and> ap_sent ap' = ap_sent ap \<and> ap_models ap' = ap_models ap
          \<and> ap_metrics ap' = snd (handleUpdateMetric p (ap_metrics ap)) \<and> ap_db ap' = d1)
    | Threw e \<Rightarrow> fst (StartModel V p ap) = Rejected e
    | Done x \<Rightarrow> (case c2 of
        Failed e \<Rightarrow> (\<exists>ap'. StartModel V p ap = (Rejected e, ap') \<and> ap_sent ap' = ap_sent ap \<and> ap_models ap' = ap_models ap
          \<and> ap_metrics ap' = snd (handleUpdateMetric p (ap_metrics ap)) \<and> ap_db ap' = d2)
      | Threw e \<Rightarrow> fst (StartModel V p ap) = Rejected e
      | Done y \<Rightarrow> (\<exists>ap'. StartModel V p ap = (Resolved JUndef, ap')
          \<and> ap_sent ap' = ap_sent ap @ [CreateModelRequest (st_metricId p) (JObj (st_inputOpts p)) (st_aggOpts p) (JObj (st_modelOpts p))]
          \<and> ap_models ap' = snd (startModel (st_metricId p) (JBool (st_aggOpts p \<noteq> [])) (ap_models ap))
          \<and> ap_metrics ap' = snd (handleUpdateMetric p (ap_metrics ap)) \<and> ap_db ap' = d2))"
  using assms
  by (auto simp: StartModel_def dispatch_start event_def promisify_def and_then_p_def Let_def exception_def
      dispatch_last_def client_createModel_def send_def split: call.split)

theorem start_model_flow_witness:
  "fst (StartModel mem_app_env \<lparr>st_metricId = ''m'', st_aggOpts = [], st_inputOpts = [], st_modelOpts = []\<rparr> mem_app)
    = Rejected NotFoundError"
proof -
  let ?p = "\<lparr>st_metricId = ''m'', st_aggOpts = [], st_inputOpts = [], st_modelOpts = []\<rparr> :: model_start"
  have "updateMetric (level_env mem_app_env) (st_metricId ?p) (JObj opts) (ap_db mem_app) = ([Failed NotFoundError], mem_db)"
    "updateModel (level_env mem_app_env) (st_metricId ?p) (JObj opts) mem_db = ([Failed NotFoundError], mem_db)" for opts
    by (simp_all add: updateMetric_def updateModel_def mem_app_env_def mem_upload_def mem_env_def mem_app_def mem_level_def
        mem_db_def empty_mem_def parse_if_string_def is_string_def)
  from start_model_flow [OF refl refl this] show ?thesis by auto
qed

end
