(* ===== verification/App_Views.thy ===== *)
theory App_Views
  imports Clients
begin

text \<open>
  What the components see of the stores after any sequence of actions: every store keeps the
  contract of \<open>Flux\<close>, so a component that renders again whenever a store emits a change shows
  what the store holds; and which actions make a handler throw.
\<close>

section \<open>What components read\<close>

text \<open>
  The date window of a metric is stored for the next time its chart is created and is not part of what is
  rendered again (\<open>MetricStore._handleUpdateViewpoint\<close>).
\<close>

definition metrics_view :: "metric_store \<Rightarrow> (string \<times> jsobj) list" where
  "metrics_view s = map (\<lambda>(k, metric). (k, om_delete ''dateWindow'' metric)) s"

definition modelData_view :: "'r data_store \<Rightarrow> string \<Rightarrow> 'r list \<times> int" where
  "modelData_view s = (\<lambda>m. modelData_getData m s)"

definition models_view :: "model_store \<Rightarrow> jsobj list \<times> jsobj list" where
  "models_view s = (get_models s, getVisibleModelStack s)"

section \<open>The stores keep the contract\<close>

lemma listens_create_quiet: "fst (create_listens V a s) = Quiet \<Longrightarrow> snd (create_listens V a s) = s"
  by (cases a) (auto simp: create_listens_def Let_def handleShowCreateModelDialog_def handleHideCreateModelDialog_def
      handleStartParamFinder_def handleReceiveParamFinderData_def handleOverrideParamFinderResults_def
      handleToggleAggregateData_def handleParamFinderError_def split: sum.splits)

interpretation create: flux_store "create_listens V" "\<lambda>s. s" for V
  by unfold_locales (rule listens_create_quiet)

interpretation details: flux_store details_listens "\<lambda>s. s"
proof
  show "snd (details_listens a s) = s" if "fst (details_listens a s) = Quiet" for a s
    using that by (cases a) (auto simp: details_listens_def showFileDetails_def hideFileDetails_def handleFileValidate_def)
qed

lemma then_change_not_quiet [simp]: "fst (then_change r) \<noteq> Quiet"
  by (simp add: then_change_def split: prod.split outcome.split)

lemma listens_files_quiet: "fst (files_listens a s) = Quiet \<Longrightarrow> snd (files_listens a s) = s"
  by (cases a) (auto simp: files_listens_def handleDeleteFile_def handleSetFile_def handleUploadedFile_def handleListFiles_def
      handleSetFileExpandedState_def set_expanded_def Let_def split: if_splits list.splits option.splits)

interpretation files: flux_store files_listens getFiles
  by unfold_locales (simp add: listens_files_quiet)

lemma listens_metricData_quiet: "fst (metricData_listens a s) = Quiet \<Longrightarrow> snd (metricData_listens a s) = s"
  by (cases a) (auto simp: metricData_listens_def handLoadData_def handleUnloadData_def metricData_handleHideModel_def
      split: option.splits if_splits)

interpretation metricData: flux_store metricData_listens "\<lambda>s. s"
  by unfold_locales (rule listens_metricData_quiet)

lemma om_delete_set_same: "om_delete k (om_set k v m) = om_delete k m"
  by (induction m) auto

lemma metrics_view_viewpoint:
  "om_get s m = Some metric \<Longrightarrow> metrics_view (om_set m (om_set ''dateWindow'' w metric) s) = metrics_view s"
  by (induction s) (auto simp: metrics_view_def om_delete_set_same split: if_splits)

interpretation metrics: flux_store "metrics_listens V" metrics_view for V
proof
  show "metrics_view (snd (metrics_listens V a s)) = metrics_view s" if "fst (metrics_listens V a s) = Quiet" for a s
    using that by (cases a) (auto simp: metrics_listens_def metrics_handleDeleteFile_def handleListMetrics_def
      handleUpdateMetric_def handleUpdateViewpoint_def metrics_view_viewpoint split: option.splits)
qed

lemma obj_put:
  assumes "\<And>ob. g (f ob) = g ob"
  shows "g (dd_objs (put_obj a f s) ! b) = g (dd_objs s ! b)"
  using assms by (cases "a < length (dd_objs s)") (simp_all add: put_obj_nth, simp add: put_obj_def list_update_beyond)

lemma getData_put:
  assumes "\<And>ob. md_data (f ob) = md_data ob" and "\<And>ob. md_modified (f ob) = md_modified ob"
  shows "modelData_getData m (put_obj a f s) = modelData_getData m s"
  using assms by (simp add: modelData_getData_def obj_put split: option.split)

text \<open>Timers, queries and pending models are not part of what is read.\<close>

lemma getData_updates [simp]:
  "modelData_getData m (s\<lparr>dd_timers := ts\<rparr>) = modelData_getData m s"
  "modelData_getData m (s\<lparr>dd_nextTimer := n\<rparr>) = modelData_getData m s"
  "modelData_getData m (s\<lparr>dd_queries := qs\<rparr>) = modelData_getData m s"
  "modelData_getData m (s\<lparr>dd_pending := ps\<rparr>) = modelData_getData m s"
  by (simp_all add: modelData_getData_def cong: option.case_cong)

lemma getData_fetch: "modelData_getData m (fetchNewResultsSoon now m' s) = modelData_getData m s"
  by (auto simp: fetchNewResultsSoon_def fetchNewResults_def Let_def getData_put split: option.split)

lemma getData_clear: "modelData_getData m (fold clear_timer as s) = modelData_getData m s"
  by (induction as arbitrary: s) (auto simp: clear_timer_def getData_put split: option.split)

interpretation modelData: flux_store "modelData_listens V" modelData_view for V
proof
  show "modelData_view (snd (modelData_listens V a s)) = modelData_view s" if "fst (modelData_listens V a s) = Quiet" for a s
    using that by (cases a) (auto simp: modelData_listens_def modelData_view_def fun_eq_iff handlePrepareForResults_def
      handleNewModelResults_def handleLoadModelData_def modelData_handleHideModel_def handleStopApplication_def
      modelData_handleDeleteModel_def getData_fetch getData_clear)
qed

lemma listens_models_quiet: "fst (models_listens V a s) = Quiet \<Longrightarrow> snd (models_listens V a s) = s"
  by (cases a) (auto simp: models_listens_def addModels_def store_deleteModel_def stopModel_def startModel_def
      showModel_def hideModel_def fail_known_def handleModelFailed_def Let_def split: option.splits if_splits)

interpretation models: flux_store "models_listens V" models_view for V
  by unfold_locales (simp add: listens_models_quiet)

section \<open>The screen\<close>

record 'r screen =
  sc_create :: create_store
  sc_details :: details_store
  sc_files :: "jsobj list"
  sc_metricData :: metric_data_store
  sc_metrics :: "(string \<times> jsobj) list"
  sc_modelData :: "string \<Rightarrow> 'r list \<times> int"
  sc_models :: "jsobj list \<times> jsobj list"

definition app_screen :: "'s app \<Rightarrow> jsval screen" where
  "app_screen ap = \<lparr>sc_create = ap_create ap, sc_details = ap_details ap, sc_files = getFiles (ap_files ap),
     sc_metricData = ap_metricData ap, sc_metrics = metrics_view (ap_metrics ap),
     sc_modelData = modelData_view (ap_modelData ap), sc_models = models_view (ap_models ap)\<rparr>"

text \<open>The handlers of one action run on the stores of \<open>ap\<close>; where one emits a change, its part of the screen is
  read again from the new stores.\<close>

definition rendered :: "('s, 'm) app_env \<Rightarrow> action \<Rightarrow> 's app \<Rightarrow> jsval screen \<Rightarrow> jsval screen" where
  "rendered V a ap w = (let new = app_screen (snd (dispatch V a ap)) in
     \<lparr>sc_create = reread (create_listens V a (ap_create ap)) (sc_create new) (sc_create w),
      sc_details = reread (details_listens a (ap_details ap)) (sc_details new) (sc_details w),
      sc_files = reread (files_listens a (ap_files ap)) (sc_files new) (sc_files w),
      sc_metricData = reread (metricData_listens a (ap_metricData ap)) (sc_metricData new) (sc_metricData w),
      sc_metrics = reread (metrics_listens V a (ap_metrics ap)) (sc_metrics new) (sc_metrics w),
      sc_modelData = reread (modelData_listens V a (ap_modelData ap)) (sc_modelData new) (sc_modelData w),
      sc_models = reread (models_listens V a (ap_models ap)) (sc_models new) (sc_models w)\<rparr>)"

text \<open>A run ends early, with \<open>None\<close>, at a handler that throws.\<close>

fun run_app :: "('s, 'm) app_env \<Rightarrow> action list \<Rightarrow> 's app \<times> jsval screen \<Rightarrow> ('s app \<times> jsval screen) option" where
  "run_app V [] x = Some x"
| "run_app V (a # as) (ap, w) = (case dispatch V a ap of
       (Some e, ap1) \<Rightarrow> None
     | (None, ap1) \<Rightarrow> run_app V as (ap1, rendered V a ap w))"

lemma call_store_None:
  assumes "call_store get put h r = (None, ap1)"
  shows "\<exists>ap. r = (None, ap) \<and> (\<forall>e. fst (h (get ap)) \<noteq> Raised e) \<and> ap1 = put (snd (h (get ap))) ap"
  using assms by (auto simp: call_store_def split: prod.splits option.splits outcome.splits)

text \<open>A dispatch that does not throw runs every handler on its store.\<close>

lemma dispatch_None:
  assumes "dispatch V a ap = (None, ap1)"
  shows "ap1 = ap\<lparr>ap_create := snd (create_listens V a (ap_create ap)), ap_details := snd (details_listens a (ap_details ap)),
      ap_files := snd (files_listens a (ap_files ap)), ap_metricData := snd (metricData_listens a (ap_metricData ap)),
      ap_metrics := snd (metrics_listens V a (ap_metrics ap)), ap_modelData := snd (modelData_listens V a (ap_modelData ap)),
      ap_models := snd (models_listens V a (ap_models ap))\<rparr>
    \<and> (\<forall>e. fst (create_listens V a (ap_create ap)) \<noteq> Raised e \<and> fst (details_listens a (ap_details ap)) \<noteq> Raised e
      \<and> fst (files_listens a (ap_files ap)) \<noteq> Raised e \<and> fst (metricData_listens a (ap_metricData ap)) \<noteq> Raised e
      \<and> fst (metrics_listens V a (ap_metrics ap)) \<noteq> Raised e \<and> fst (modelData_listens V a (ap_modelData ap)) \<noteq> Raised e
      \<and> fst (models_listens V a (ap_models ap)) \<noteq> Raised e)"
  using assms by (auto simp: dispatch_def dest!: call_store_None)

lemma rendered_current:
  assumes "dispatch V a ap = (None, ap1)"
  shows "rendered V a ap (app_screen ap) = app_screen ap1"
  using dispatch_None [OF assms] assms
  by (simp add: rendered_def app_screen_def create.seen_current details.seen_current files.seen_current
      metricData.seen_current metrics.seen_current modelData.seen_current models.seen_current)

lemma run_app_current: "run_app V as (ap, app_screen ap) = Some (ap1, w1) \<Longrightarrow> w1 = app_screen ap1"
  by (induction as arbitrary: ap) (auto simp: rendered_current split: prod.splits option.splits)



section \<open>Well-formed stores\<close>

text \<open>The payloads that carry files are objects, with every property once.\<close>

definition fine_files :: "action \<Rightarrow> bool" where
  "fine_files a = (case a of
       UPDATE_FILE fl \<Rightarrow> om_ok fl
     | UPLOADED_FILE fl \<Rightarrow> om_ok fl
     | LIST_FILES fs \<Rightarrow> list_all om_ok fs
     | _ \<Rightarrow> True)"

lemma str_prop_assign_Nil [simp]: "om_ok fl \<Longrightarrow> str_prop (assign [] fl) k = str_prop fl k"
  by (simp add: str_prop_assign) (simp add: str_prop_def om_has_def obj_get_def)

lemma keyed_list:
  "list_all om_ok fs \<Longrightarrow> keyed_by ''filename'' s \<Longrightarrow>
    keyed_by ''filename'' (fold (\<lambda>fl. om_set (str_prop fl ''filename'') (with_expanded b fl)) fs s)"
  by (induction fs arbitrary: s) (simp_all add: keyed_by_set)

lemma keyed_set_expanded: "keyed_by ''filename'' s \<Longrightarrow> keyed_by ''filename'' (snd (set_expanded f v s))"
  by (auto simp: set_expanded_def intro!: keyed_by_set dest: keyed_by_get split: option.split)

interpretation file_names: flux_invariant files_listens fine_files "keyed_by ''filename''"
proof
  show "keyed_by ''filename'' (snd (files_listens a s))" if "fine_files a" and "keyed_by ''filename'' s" for a s
    using that by (cases a) (auto simp: files_listens_def fine_files_def handleDeleteFile_def handleSetFile_def
      handleUploadedFile_def handleListFiles_def handleSetFileExpandedState_def Let_def keyed_set_expanded keyed_list
      keyed_by_set keyed_by_delete split: list.split)
qed

lemma addr_ok_updates [simp]:
  "addr_ok (upd a f s) = addr_ok s" "addr_ok (unstack a s) = addr_ok s" "addr_ok (s\<lparr>ms_stack := st\<rparr>) = addr_ok s"
  by (simp_all add: addr_ok_def)

lemma addr_ok_add: "addr_ok s \<Longrightarrow> addr_ok (snd (add_model R m s))"
  using om_values_set [of "str_prop m ''modelId''" "length (ms_objs s)" "ms_models s"]
  by (fastforce simp: add_model_def addr_ok_def Let_def less_Suc_eq simp del: set_map)

lemma addr_ok_addModels: "addr_ok s \<Longrightarrow> addr_ok (snd (addModels R ms s))"
  by (auto simp: addModels_def Let_def intro: for_each_induct addr_ok_add)

lemma addr_ok_delete: "addr_ok s \<Longrightarrow> addr_ok (snd (store_deleteModel i s))"
  using order_trans [OF om_values_delete [of i "ms_models s"]]
  by (simp add: store_deleteModel_def addr_ok_def Let_def del: set_map split: option.split)

interpretation model_addrs: flux_invariant "models_listens V" "\<lambda>a. True" addr_ok for V
proof
  show "addr_ok (snd (models_listens V a s))" if "addr_ok s" for a s
    using that by (cases a) (auto simp: models_listens_def fail_known_def addr_ok_addModels addr_ok_delete
      hideModel_def showModel_def startModel_def stopModel_def handleModelFailed_def Let_def
      split: option.split)
qed

text \<open>Every entry of the results belongs to the model it is kept under.\<close>

definition entries_ok :: "'r data_store \<Rightarrow> bool" where
  "entries_ok s = (\<forall>m a. om_get (dd_models s) m = Some a \<longrightarrow> a < length (dd_objs s) \<and> md_modelId (dd_objs s ! a) = m)"

lemma entries_ok_put: "(\<And>ob. md_modelId (f ob) = md_modelId ob) \<Longrightarrow> entries_ok (put_obj a f s) = entries_ok s"
  by (simp add: entries_ok_def obj_put)

lemma entries_ok_updates [simp]:
  "entries_ok (s\<lparr>dd_timers := ts\<rparr>) = entries_ok s" "entries_ok (s\<lparr>dd_nextTimer := n\<rparr>) = entries_ok s"
  "entries_ok (s\<lparr>dd_queries := qs\<rparr>) = entries_ok s" "entries_ok (s\<lparr>dd_pending := ps\<rparr>) = entries_ok s"
  by (simp_all add: entries_ok_def)

lemma entries_ok_fetch [simp]: "entries_ok (fetchNewResultsSoon now m s) = entries_ok s"
  by (auto simp: fetchNewResultsSoon_def fetchNewResults_def Let_def entries_ok_put split: option.split)

lemma entries_ok_clear [simp]: "entries_ok (fold clear_timer as s) = entries_ok s"
  by (induction as arbitrary: s) (auto simp: clear_timer_def entries_ok_put split: option.split)

lemma entries_ok_delete: "entries_ok s \<Longrightarrow> entries_ok (s\<lparr>dd_models := om_delete m (dd_models s)\<rparr>)"
  by (auto simp: entries_ok_def om_get_delete)

lemma entries_ok_load: "entries_ok s \<Longrightarrow> entries_ok (s\<lparr>dd_pending := ps, dd_objs := dd_objs s @ [\<lparr>md_modelId = m,
    md_data = d, md_modified = now, md_lastFetchTime = 0, md_fetchTimeoutId = None\<rparr>],
    dd_models := om_set m (length (dd_objs s)) (dd_models s)\<rparr>)"
  by (auto simp: entries_ok_def om_get_set nth_append less_Suc_eq)

interpretation entries: flux_invariant "modelData_listens V" "\<lambda>a. True" entries_ok for V
proof
  show "entries_ok (snd (modelData_listens V a s))" if "entries_ok s" for a s
    using that by (cases a) (auto simp: modelData_listens_def handlePrepareForResults_def handleNewModelResults_def
      handleLoadModelData_def modelData_handleHideModel_def handleStopApplication_def modelData_handleDeleteModel_def
      entries_ok_delete entries_ok_load Let_def split: option.split)
qed

definition app_ok :: "'s app \<Rightarrow> bool" where
  "app_ok ap = (keyed_by ''filename'' (ap_files ap) \<and> addr_ok (ap_models ap) \<and> entries_ok (ap_modelData ap))"

lemma call_store_app_ok:
  assumes "app_ok (snd r)" and "\<And>ap. app_ok ap \<Longrightarrow> app_ok (put (snd (h (get ap))) ap)"
  shows "app_ok (snd (call_store get put h r))"
  using assms(1) assms(2) [of "snd r"]
  by (cases r; cases "fst r"; cases "h (get (snd r))"; cases "fst (h (get (snd r)))") (auto simp: call_store_def)

lemma app_ok_dispatch: "fine_files a \<Longrightarrow> app_ok ap \<Longrightarrow> app_ok (snd (dispatch V a ap))"
  unfolding dispatch_def comp_def
  by (intro call_store_app_ok)
    (auto simp: app_ok_def intro: file_names.keeps model_addrs.keeps entries.keeps)

section \<open>Actions that throw\<close>

definition raised :: "'s handled \<Rightarrow> bool" where
  "raised r = (case fst r of Raised e \<Rightarrow> True | _ \<Rightarrow> False)"

lemma raised_simps [simp]: "\<not> raised (Changed, s)" "\<not> raised (Quiet, s)" "raised (Raised e, s)" "raised (then_change r) = raised r"
  by (simp_all add: raised_def then_change_def split: prod.split outcome.split)

definition invalid :: "record_env \<Rightarrow> jsobj \<Rightarrow> bool" where
  "invalid R ob = (re_validate R (new_record R ob) \<noteq> [])"

lemma raised_for_each:
  assumes "\<And>x t. raised (body x t) = bad x"
  shows "raised (for_each body xs s) = list_ex bad xs"
proof (induction xs arbitrary: s)
  case (Cons x xs)
  show ?case using Cons assms [of x s] by (cases "body x s"; cases "fst (body x s)") (auto simp: raised_def)
qed simp

lemma raised_list_metric: "raised (list_metric R m s) = invalid R m"
  by (simp add: list_metric_def invalid_def Let_def)

lemma raised_add_model: "raised (add_model R m s) = invalid R m"
  by (simp add: add_model_def invalid_def Let_def)

definition throws :: "('s, 'm) app_env \<Rightarrow> 's app \<Rightarrow> action \<Rightarrow> bool" where
  "throws V ap a = (case a of
       LIST_FILES fs \<Rightarrow> fs = [] \<and> ap_files ap = []
     | SET_FILE_EXPANDED_STATE f b \<Rightarrow> \<not> om_has (ap_files ap) f
     | LIST_METRICS ms \<Rightarrow> list_ex (invalid (ae_metric V)) ms
     | ADD_MODEL m \<Rightarrow> om_has m ''modelId'' \<and> invalid (ae_model V) m
     | LIST_MODELS ms \<Rightarrow> list_ex (invalid (ae_model V)) ms
     | RECEIVE_PARAM_FINDER_DATA m r \<Rightarrow> isl (json_parse r)
     | _ \<Rightarrow> False)"

lemma fold_set_Nil: "fold (\<lambda>x. om_set (k x) (v x)) xs s = [] \<longleftrightarrow> xs = [] \<and> s = []"
proof (induction xs arbitrary: s)
  case (Cons x xs)
  have "om_set (k x) (v x) s \<noteq> []" by (cases s) auto
  then show ?case using Cons by simp
qed simp

lemma raised_list_files:
  assumes "keyed_by ''filename'' s" and "list_all om_ok fs"
  shows "raised (handleListFiles (Some fs) s) = (fs = [] \<and> s = [])"
proof -
  let ?s1 = "fold (\<lambda>fl. om_set (str_prop fl ''filename'') (with_expanded False fl)) fs s"
  have k: "keyed_by ''filename'' ?s1" using assms by (intro keyed_list)
  have h: "om_has ?s1 (str_prop fl ''filename'')" if "?s1 = (key, fl) # rest" for key fl rest
    using k that by (auto simp: keyed_by_def om_has_iff_key)
  show ?thesis
    using fold_set_Nil [of "\<lambda>fl. str_prop fl ''filename''" "with_expanded False" fs s] h
    by (cases ?s1) (auto simp: handleListFiles_def getFiles_def set_expanded_def om_has_def Let_def split: list.split option.split)
qed

lemma raised_listens:
  "raised (create_listens V a s1) = (case a of RECEIVE_PARAM_FINDER_DATA m r \<Rightarrow> isl (json_parse r) | _ \<Rightarrow> False)"
  "\<not> raised (details_listens a s2)" "\<not> raised (metricData_listens a s3)" "\<not> raised (modelData_listens V a s4)"
  "raised (metrics_listens V a s5) = (case a of LIST_METRICS ms \<Rightarrow> list_ex (invalid (ae_metric V)) ms | _ \<Rightarrow> False)"
  "raised (models_listens V a s6) = (case a of
     ADD_MODEL m \<Rightarrow> om_has m ''modelId'' \<and> invalid (ae_model V) m | LIST_MODELS ms \<Rightarrow> list_ex (invalid (ae_model V)) ms | _ \<Rightarrow> False)"
  subgoal
    by (cases a) (auto simp: create_listens_def Let_def handleShowCreateModelDialog_def handleHideCreateModelDialog_def
      handleStartParamFinder_def handleReceiveParamFinderData_def handleOverrideParamFinderResults_def
      handleToggleAggregateData_def handleParamFinderError_def split: sum.splits)
  subgoal by (cases a) (auto simp: details_listens_def showFileDetails_def hideFileDetails_def handleFileValidate_def)
  subgoal by (cases a) (auto simp: metricData_listens_def handLoadData_def handleUnloadData_def metricData_handleHideModel_def
      split: option.splits)
  subgoal by (cases a) (auto simp: modelData_listens_def handlePrepareForResults_def
      handleNewModelResults_def handleLoadModelData_def modelData_handleHideModel_def handleStopApplication_def
      modelData_handleDeleteModel_def)
  subgoal by (cases a) (auto simp: metrics_listens_def metrics_handleDeleteFile_def handleListMetrics_def
      handleUpdateMetric_def handleUpdateViewpoint_def raised_for_each raised_list_metric split: option.splits)
  subgoal by (cases a) (auto simp: models_listens_def addModels_def store_deleteModel_def stopModel_def startModel_def
      showModel_def hideModel_def fail_known_def handleModelFailed_def Let_def raised_for_each raised_add_model
      split: option.splits)
  done

lemma raised_files:
  assumes "keyed_by ''filename'' s" and "fine_files a"
  shows "raised (files_listens a s) = (case a of
     LIST_FILES fs \<Rightarrow> fs = [] \<and> s = [] | SET_FILE_EXPANDED_STATE f b \<Rightarrow> \<not> om_has s f | _ \<Rightarrow> False)"
  using assms by (cases a) (auto simp: files_listens_def fine_files_def raised_list_files handleDeleteFile_def handleSetFile_def
      handleUploadedFile_def handleSetFileExpandedState_def set_expanded_def om_has_def split: option.split)

lemma call_store_fst: "fst (call_store get put h r) = None \<longleftrightarrow> fst r = None \<and> \<not> raised (h (get (snd r)))"
  by (auto simp: call_store_def raised_def split: prod.split option.split outcome.split)

lemma call_store_keeps:
  assumes "\<And>t ap. f (put t ap) = f ap"
  shows "f (snd (call_store get put h r)) = f (snd r)"
  using assms by (auto simp: call_store_def split: prod.split option.split outcome.split)

lemma dispatch_fst: "fst (dispatch V a ap) = None \<longleftrightarrow> \<not> raised (create_listens V a (ap_create ap))
    \<and> \<not> raised (files_listens a (ap_files ap)) \<and> \<not> raised (metrics_listens V a (ap_metrics ap))
    \<and> \<not> raised (models_listens V a (ap_models ap))"
  by (auto simp: dispatch_def call_store_fst call_store_keeps raised_listens(2,3,4))

definition new_app :: "'s db \<Rightarrow> 's app" where
  "new_app d = \<lparr>ap_db = d, ap_create = new_create_store, ap_details = new_details_store, ap_files = new_file_store,
     ap_metricData = [], ap_metrics = [], ap_modelData = new_data_store, ap_models = new_model_store, ap_sent = [], ap_hits = []\<rparr>"

lemma app_ok_new: "app_ok (new_app d)"
  by (simp add: app_ok_def new_app_def new_file_store_def addr_ok_def new_model_store_def entries_ok_def new_data_store_def)

abbreviation dispatch_all :: "('s, 'm) app_env \<Rightarrow> action list \<Rightarrow> 's app \<Rightarrow> 's app" where
  "dispatch_all V as ap \<equiv> fold (\<lambda>a ap. snd (dispatch V a ap)) as ap"

lemma app_ok_all: "list_all fine_files as \<Longrightarrow> app_ok ap \<Longrightarrow> app_ok (dispatch_all V as ap)"
  by (induction as arbitrary: ap) (auto intro: app_ok_dispatch)

text \<open>C38: after any sequence of dispatched actions, also ones that threw, every file is kept under its
  own name, every model id refers to an object of the store and every entry of results belongs
  to the model it is kept under.\<close>

theorem app_well_formed:
  assumes "list_all fine_files as" and "ap = dispatch_all V as (new_app d)"
  shows "(\<forall>name fl. store_getFile name (ap_files ap) = Some fl \<longrightarrow> str_prop fl ''filename'' = name)
    \<and> (\<forall>m a. om_get (ms_models (ap_models ap)) m = Some a \<longrightarrow> a < length (ms_objs (ap_models ap)))
    \<and> (\<forall>m a. om_get (dd_models (ap_modelData ap)) m = Some a \<longrightarrow>
        a < length (dd_objs (ap_modelData ap)) \<and> md_modelId (dd_objs (ap_modelData ap) ! a) = m)"
proof -
  have ok: "app_ok ap" using app_ok_all [OF assms(1) app_ok_new] assms(2) by simp
  moreover from ok have "a < length (ms_objs (ap_models ap))" if "om_get (ms_models (ap_models ap)) m = Some a" for m a
    using get_value [OF that] by (auto simp: app_ok_def addr_ok_def)
  ultimately show ?thesis
    by (auto simp: app_ok_def entries_ok_def store_getFile_def dest: keyed_by_get)
qed

text \<open>exactly these actions make a handler throw, after any sequence of actions: an empty list of files before
  any file is known, expanding an unknown file, metrics or models that the schema rejects and
  results of the parameter finder that are not JSON.\<close>

theorem dispatch_throws:
  assumes "list_all fine_files as" and "fine_files a" and "ap = dispatch_all V as (new_app d)"
  shows "fst (dispatch V a ap) \<noteq> None \<longleftrightarrow> throws V ap a"
proof -
  have "app_ok ap" using app_ok_all [OF assms(1) app_ok_new] assms(3) by simp
  then have "keyed_by ''filename'' (ap_files ap)" by (simp add: app_ok_def)
  from raised_files [OF this assms(2)] show ?thesis
    by (cases a) (auto simp: dispatch_fst raised_listens throws_def)
qed

theorem app_well_formed_witness:
  "\<exists>fl. store_getFile ''a.csv'' (ap_files (dispatch_all mem_app_env [UPLOADED_FILE [(''filename'', JStr ''a.csv'')]] (new_app mem_db))) = Some fl
    \<and> str_prop fl ''filename'' = ''a.csv''"
proof -
  let ?ap = "dispatch_all mem_app_env [UPLOADED_FILE [(''filename'', JStr ''a.csv'')]] (new_app mem_db)"
  have "list_all fine_files [UPLOADED_FILE [(''filename'', JStr ''a.csv'')]]" by (simp add: fine_files_def om_ok_def)
  note wf = conjunct1 [OF app_well_formed [OF this refl], of mem_app_env mem_db]
  have "\<exists>fl. store_getFile ''a.csv'' (ap_files ?ap) = Some fl"
    by (simp add: dispatch_def listens_defs handleUploadedFile_def new_app_def new_file_store_def store_getFile_def
        str_prop_def obj_get_def Let_def)
  then show ?thesis using wf by blast
qed

theorem dispatch_throws_witness:
  "fst (dispatch mem_app_env (SET_FILE_EXPANDED_STATE ''a.csv'' True) (new_app mem_db)) \<noteq> None"
  using dispatch_throws [of "[]" "SET_FILE_EXPANDED_STATE ''a.csv'' True" "new_app mem_db" mem_app_env mem_db]
  by (simp add: fine_files_def throws_def new_app_def new_file_store_def om_has_def)

end
