(* ===== verification/File_Views.thy ===== *)
theory File_Views
  imports App_Views
begin

text \<open>
  The list of files and the page with the details of a file,
  \<open>app/browser/components/FileList.jsx\<close> and \<open>FileDetails.jsx\<close>: what they render, and what their
  handlers do to the application. The main result is that deleting a file takes exactly the
  models of the file out of the model store. Texts, styles and icons are not modelled.
\<close>

section \<open>The list\<close>

datatype model_status = StatusActive | StatusRan | StatusNone

record metric_item =
  mi_modelId :: string
  mi_name :: string
  mi_checked :: bool
  mi_status :: model_status

definition find_model :: "string \<Rightarrow> jsobj list \<Rightarrow> jsobj option" where
  "find_model modelId models = find (\<lambda>m. obj_get m ''modelId'' = JStr modelId) models"

definition is_date :: "jsobj \<Rightarrow> bool" where
  "is_date metric = (obj_get metric ''type'' = JStr ''date'')"

definition metric_item :: "(string \<Rightarrow> string) \<Rightarrow> jsobj \<Rightarrow> jsobj list \<Rightarrow> jsobj \<Rightarrow> metric_item" where
  "metric_item sha1 fl models metric =
     (let modelId = generateMetricId sha1 (str_prop fl ''filename'') (str_prop metric ''name'')
      in case find_model modelId models of
           Some model \<Rightarrow> \<lparr>mi_modelId = modelId, mi_name = str_prop metric ''name'',
             mi_checked = truthy (obj_get model ''visible''),
             mi_status = (if truthy (obj_get model ''active'') then StatusActive
               else if truthy (obj_get model ''ran'') then StatusRan else StatusNone)\<rparr>
         | None \<Rightarrow> \<lparr>mi_modelId = modelId, mi_name = str_prop metric ''name'', mi_checked = False, mi_status = StatusNone\<rparr>)"

text \<open>Without a date column no metric is listed.\<close>

definition render_metrics :: "(string \<Rightarrow> string) \<Rightarrow> jsobj \<Rightarrow> 's app \<Rightarrow> metric_item list" where
  "render_metrics sha1 fl ap =
     (let fileMetrics = getMetricsByFileId (str_prop fl ''uid'') (ap_metrics ap)
      in case find is_date fileMetrics of
           None \<Rightarrow> []
         | Some timestampField \<Rightarrow>
             map (metric_item sha1 fl (get_models (ap_models ap))) (filter (\<lambda>m. \<not> is_date m) fileMetrics))"

record file_item =
  fi_file :: jsobj
  fi_open :: bool
  fi_can_delete :: bool
  fi_metrics :: "metric_item list"

definition render_files :: "(string \<Rightarrow> string) \<Rightarrow> string \<Rightarrow> 's app \<Rightarrow> file_item list" where
  "render_files sha1 filetype ap =
     map (\<lambda>fl. \<lparr>fi_file = fl, fi_open = truthy (obj_get fl ''expanded''), fi_can_delete = (filetype \<noteq> ''sample''),
                 fi_metrics = render_metrics sha1 fl ap\<rparr>)
       (filter (\<lambda>fl. obj_get fl ''type'' = JStr filetype) (getFiles (ap_files ap)))"

text \<open>Uploaded files, then samples, which have a heading when files have been uploaded.\<close>

definition render_list :: "(string \<Rightarrow> string) \<Rightarrow> 's app \<Rightarrow> file_item list \<times> bool \<times> file_item list" where
  "render_list sha1 ap =
     (let uploadCount = length (filter is_uploaded (getFiles (ap_files ap)))
      in (render_files sha1 ''uploaded'' ap, 0 < uploadCount, render_files sha1 ''sample'' ap))"

section \<open>Handlers of the list\<close>

definition onMetricCheck ::
    "('s, 'm) app_env \<Rightarrow> string \<Rightarrow> string \<Rightarrow> string \<Rightarrow> string \<Rightarrow> bool \<Rightarrow> 's app \<Rightarrow> 's result" where
  "onMetricCheck V modelId filename timestampField metric checked ap =
     (if checked \<and> find_model modelId (get_models (ap_models ap)) \<noteq> None then ShowModel V modelId ap
      else if checked then AddShowModel V
        [(''modelId'', JStr modelId), (''filename'', JStr filename), (''timestampField'', JStr timestampField),
         (''metric'', JStr metric)] ap
      else HideModel V modelId ap)"

definition handleFileToggle :: "('s, 'm) app_env \<Rightarrow> string \<Rightarrow> 's app \<Rightarrow> 's app" where
  "handleFileToggle V fileId ap = (case find (\<lambda>fl. obj_get fl ''uid'' = JStr fileId) (getFiles (ap_files ap)) of
       None \<Rightarrow> ap
     | Some fl \<Rightarrow> snd (SetFileExpandedState V (str_prop fl ''filename'') (\<not> truthy (obj_get fl ''expanded'')) ap))"

text \<open>One round of \<open>models.forEach\<close>; the models are the objects of the store.\<close>

definition delete_model_of :: "('s, 'm) app_env \<Rightarrow> jsobj \<Rightarrow> nat \<Rightarrow> 's app \<Rightarrow> 's app" where
  "delete_model_of V fl a ap =
     (let model = (\<lambda>ap. ms_objs (ap_models ap) ! a)
      in if obj_get (model ap) ''filename'' = obj_get fl ''filename'' then
           (let ap = (if truthy (obj_get (model ap) ''visible'') then snd (HideModel V (str_prop (model ap) ''modelId'') ap) else ap);
                ap = (if truthy (obj_get (model ap) ''active'') then snd (StopModel V (str_prop (model ap) ''modelId'') ap) else ap)
            in snd (DeleteModel V (str_prop (model ap) ''modelId'') ap))
         else ap)"

definition delete_confirmed :: "('s, 'm) app_env \<Rightarrow> jsobj \<Rightarrow> 's app \<Rightarrow> 's app" where
  "delete_confirmed V fl ap =
     snd (DeleteFile V (str_prop fl ''filename'') (fold (delete_model_of V fl) (om_values (ms_models (ap_models ap))) ap))"

datatype menu_action = Detail | Delete

text \<open>\<open>confirmed\<close>: the user confirms the dialog that asks before a file is deleted.\<close>

definition handleFileContextMenu :: "('s, 'm) app_env \<Rightarrow> jsobj \<Rightarrow> menu_action \<Rightarrow> bool \<Rightarrow> 's app \<Rightarrow> 's app" where
  "handleFileContextMenu V fl action confirmed ap = (case action of
       Detail \<Rightarrow> snd (ShowFileDetails V fl ap)
     | Delete \<Rightarrow> if confirmed then delete_confirmed V fl ap else ap)"

section \<open>The details of a file\<close>

record details_ui =
  fd_fileSize :: nat
  fd_fields :: "jsobj list option"
  fd_data :: "string option list list option"

definition new_details_ui :: details_ui where
  "new_details_ui = \<lparr>fd_fileSize = 0, fd_fields = Some [], fd_data = Some []\<rparr>"

text \<open>The calls of the callback of \<open>getData\<close>: an error, a row or the end. The result is what the
  promise is rejected with or resolves to; \<open>None\<close> while it is pending.\<close>

datatype details_call = CallError jserr | CallRow "string list" | CallEnd

definition details_row :: "jsobj list \<Rightarrow> string list \<Rightarrow> string option list" where
  "details_row flds row = map (\<lambda>f. cell row (nat \<lfloor>field_index f\<rfloor>)) flds"

fun details_promise :: "jsobj list option \<Rightarrow> string option list list \<Rightarrow> details_call list
    \<Rightarrow> (jserr + string option list list) option" where
  "details_promise flds data [] = None"
| "details_promise flds data (CallError e # cs) = Some (Inl e)"
| "details_promise flds data (CallRow row # cs) =
     details_promise flds (data @ [case flds of Some fs \<Rightarrow> details_row fs row | None \<Rightarrow> map Some row]) cs"
| "details_promise flds data (CallEnd # cs) = Some (Inr data)"

text \<open>\<open>catch\<close> resolves to \<open>undefined\<close>, which \<open>then\<close> stores as the data.\<close>

definition details_loaded :: "nat \<Rightarrow> jsobj list option \<Rightarrow> details_call list \<Rightarrow> details_ui \<Rightarrow> details_ui" where
  "details_loaded fileSize flds cs ui = (case details_promise flds [] cs of
       None \<Rightarrow> ui
     | Some (Inl e) \<Rightarrow> \<lparr>fd_fileSize = fileSize, fd_fields = flds, fd_data = None\<rparr>
     | Some (Inr data) \<Rightarrow> \<lparr>fd_fileSize = fileSize, fd_fields = flds, fd_data = Some data\<rparr>)"

text \<open>The first 20 rows after the offset, as the file service reads them.\<close>

definition read_calls :: "jsobj \<Rightarrow> string list list \<Rightarrow> details_call list" where
  "read_calls fl rows =
     (let offset = (case obj_get fl ''rowOffset'' of JNum (Fin q) \<Rightarrow> Some (nat \<lfloor>q\<rfloor>) | _ \<Rightarrow> None)
      in map (\<lambda>c. case c of Record row \<Rightarrow> CallRow row | Finished \<Rightarrow> CallEnd) (getData offset (Some 20) rows))"

definition details_willReceiveProps :: "nat \<Rightarrow> string list list \<Rightarrow> details_store \<Rightarrow> details_ui \<Rightarrow> details_ui" where
  "details_willReceiveProps fileSize rows s ui =
     (if isVisible s \<and> truthy (ds_file s) then details_loaded fileSize (ds_fields s) (read_calls (as_obj (ds_file s)) rows) ui
      else ui)"

text \<open>The table has the columns of the fields; reading \<open>length\<close> of what is not there throws.\<close>

definition render_table :: "details_ui \<Rightarrow> jserr + (jsval list \<times> string option list list) option" where
  "render_table ui = (case fd_fields ui of
       None \<Rightarrow> Inl TypeError
     | Some flds \<Rightarrow> if flds = [] then Inr None
         else (case fd_data ui of
             None \<Rightarrow> Inl TypeError
           | Some data \<Rightarrow> Inr (if data = [] then None else Some (map (\<lambda>f. obj_get f ''name'') flds, data))))"

datatype details_note = ErrorWithFormats jsval | ErrorOnly jsval | Warning jsval | NoNote

definition render_note :: "details_store \<Rightarrow> details_note" where
  "render_note s =
     (if truthy (ds_error s) \<and> ds_error s \<noteq> JStr ''File already exists'' then ErrorWithFormats (ds_error s)
      else if truthy (ds_error s) then ErrorOnly (ds_error s)
      else if truthy (ds_warning s) then Warning (ds_warning s) else NoNote)"

text \<open>The body: the note, the number of valid rows, the table, and how many rows are displayed of
  how many.\<close>

definition render_body :: "details_store \<Rightarrow> details_ui
    \<Rightarrow> jserr + details_note \<times> jsval \<times> (jsval list \<times> string option list list) option \<times> jsval option" where
  "render_body s ui = (case render_table ui of
       Inl e \<Rightarrow> Inl e
     | Inr table \<Rightarrow>
         (let records = obj_get (as_obj (ds_file s)) ''records'';
              numRecords = (if jlt (jint 20) (as_num records) then JNum (jint 20) else records)
          in if records = JUndef \<or> records = JNull then Inl TypeError
             else Inr (render_note s, records, table, if table = None then None else Some numRecords)))"

datatype details_button = CancelB | AddFileB bool | CloseB

definition render_actions :: "details_store \<Rightarrow> details_button list" where
  "render_actions s = (if isNewFile s then [CancelB, AddFileB (\<not> truthy (ds_error s))] else [CloseB])"

definition details_onRequestClose :: "('s, 'm) app_env \<Rightarrow> 's app \<Rightarrow> 's app" where
  "details_onRequestClose V ap = snd (HideFileDetails V ap)"

definition details_onSave :: "('s, 'm) app_env \<Rightarrow> 's app \<Rightarrow> 's app" where
  "details_onSave V ap =
     (let fl = ds_file (ap_details ap);
          ap = (if truthy fl then snd (FileUpload V (str_prop (as_obj fl) ''filename'') ap) else ap)
      in snd (HideFileDetails V ap))"


section \<open>Deleting a file\<close>

text \<open>Every model is kept under its id.\<close>

definition ids_ok :: "model_store \<Rightarrow> bool" where
  "ids_ok s = (om_ok (ms_models s) \<and> (\<forall>k a. om_get (ms_models s) k = Some a \<longrightarrow> a < length (ms_objs s)
     \<and> str_prop (ms_objs s ! a) ''modelId'' = k))"

definition of_file :: "jsobj \<Rightarrow> jsobj \<Rightarrow> bool" where
  "of_file fl model = (obj_get model ''filename'' = obj_get fl ''filename'')"

definition removals :: "jsobj \<Rightarrow> jsobj \<Rightarrow> request list" where
  "removals fl model = (if of_file fl model then
       (let r = RemoveModelRequest (str_prop model ''modelId'') in if truthy (obj_get model ''active'') then [r, r] else [r])
     else [])"

lemma hide_effect:
  "ap_models (snd (HideModel V m ap)) = snd (hideModel m (ap_models ap))"
  "ap_db (snd (HideModel V m ap)) = ap_db ap" "ap_sent (snd (HideModel V m ap)) = ap_sent ap"
  by (simp_all add: HideModel_def dispatch_last_def dispatch_def call_store_def listens_defs event_def metricData_handleHideModel_def
      handleUnloadData_def modelData_handleHideModel_def hideModel_def Let_def split: option.split)

lemma stop_effect:
  "ap_models (snd (StopModel V m ap)) = snd (stopModel m (ap_models ap))"
  "ap_db (snd (StopModel V m ap)) = ap_db ap" "ap_sent (snd (StopModel V m ap)) = ap_sent ap @ [RemoveModelRequest m]"
  by (simp_all add: StopModel_def dispatch_last_def dispatch_def call_store_def listens_defs event_def stopModel_def
      client_removeModel_def send_def Let_def split: option.split)

lemma dispatch_delete_model:
  "dispatch V (DELETE_MODEL m) ap = (None, ap\<lparr>ap_modelData := snd (modelData_handleDeleteModel m (ap_modelData ap)),
     ap_models := snd (store_deleteModel m (ap_models ap))\<rparr>)"
  by (cases "om_get (ms_models (ap_models ap)) m")
    (simp_all add: dispatch_def call_store_def listens_defs modelData_handleDeleteModel_def store_deleteModel_def Let_def)

lemma delete_effect:
  assumes "level_store (db_level (level_env V)) content healthy" and "works healthy (ap_db ap)"
  shows "ap_models (snd (DeleteModel V m ap)) = snd (store_deleteModel m (ap_models ap))"
    and "works healthy (ap_db (snd (DeleteModel V m ap)))"
    and "ap_sent (snd (DeleteModel V m ap)) = ap_sent ap @ [RemoveModelRequest m]"
proof -
  obtain d where "deleteModel (level_env V) m (ap_db ap) = ([Done JUndef], d)" "works healthy d"
    using deleteModel_ok [OF assms] by blast
  then show "ap_models (snd (DeleteModel V m ap)) = snd (store_deleteModel m (ap_models ap))"
    and "works healthy (ap_db (snd (DeleteModel V m ap)))"
    and "ap_sent (snd (DeleteModel V m ap)) = ap_sent ap @ [RemoveModelRequest m]"
    by (simp_all add: DeleteModel_def update_db_def event_def dispatch_then_def dispatch_delete_model resolve_def
        client_removeModel_def send_def)
qed

lemma models_on_calls:
  assumes "\<And>r ap. ap_models (snd (cb r ap)) = ap_models ap \<and> ap_sent (snd (cb r ap)) = ap_sent ap"
  shows "ap_models (snd (on_calls cs cb ap)) = ap_models ap \<and> ap_sent (snd (on_calls cs cb ap)) = ap_sent ap"
proof (induction cs arbitrary: ap)
  case (Cons c cs)
  have "on_calls (c # cs) cb ap = (Pending, ap) \<or> (\<exists>p r. on_calls (c # cs) cb ap = (p, snd (on_calls cs cb (snd (cb r ap)))))"
    by (cases c) (auto simp: Let_def case_prod_beta)
  then show ?case using Cons assms by auto
qed simp

lemma delete_file_models:
  "ap_models (snd (DeleteFile V f ap)) = ap_models ap \<and> ap_sent (snd (DeleteFile V f ap)) = ap_sent ap"
proof -
  have d: "ap_models (snd (dispatch V a ap)) = ap_models ap \<and> ap_sent (snd (dispatch V a ap)) = ap_sent ap"
    if "a = DELETE_FILE f \<or> a = DELETE_FILE_FAILED f e" for a e ap
    using that by (auto simp: dispatch_def call_store_def listens_defs handleDeleteFile_def metrics_handleDeleteFile_def Let_def)
  have t: "ap_models (snd (dispatch_then V a k ap)) = ap_models ap \<and> ap_sent (snd (dispatch_then V a k ap)) = ap_sent ap"
    if "a = DELETE_FILE f \<or> a = DELETE_FILE_FAILED f e" and "\<And>x. snd (k x) = x" for a e k ap
    using d [OF that(1), of ap] that(2) by (cases "dispatch V a ap"; cases "fst (dispatch V a ap)") (auto simp: dispatch_then_def)
  show ?thesis
    unfolding DeleteFile_def update_db_def Let_def case_prod_beta
    using models_on_calls [of "\<lambda>r. case r of
        Inl error \<Rightarrow> dispatch_then V (DELETE_FILE_FAILED f error) (reject error) \<circ> exception ''DELETE_FILE_FAILED''
      | Inr x \<Rightarrow> dispatch_then V (DELETE_FILE f) (resolve (JStr f))"
      "fst (deleteFile (level_env V) f (ap_db (event ''DELETE_FILE'' ap)))"
      "event ''DELETE_FILE'' ap\<lparr>ap_db := snd (deleteFile (level_env V) f (ap_db (event ''DELETE_FILE'' ap)))\<rparr>"] t
    by (simp add: resolve_def reject_def event_def exception_def split: sum.split)
qed

lemma delete_one:
  assumes "level_store (db_level (level_env V)) content healthy" and "works healthy (ap_db ap)"
    and "om_get (ms_models (ap_models ap)) k = Some a" and "a < length (ms_objs (ap_models ap))"
    and "str_prop (ms_objs (ap_models ap) ! a) ''modelId'' = k" and "of_file fl (ms_objs (ap_models ap) ! a)"
    and "ap' = delete_model_of V fl a ap"
  shows "ms_models (ap_models ap') = om_delete k (ms_models (ap_models ap))"
    and "length (ms_objs (ap_models ap')) = length (ms_objs (ap_models ap))"
    and "b \<noteq> a \<Longrightarrow> ms_objs (ap_models ap') ! b = ms_objs (ap_models ap) ! b"
    and "works healthy (ap_db ap')"
    and "ap_sent ap' = ap_sent ap @ removals fl (ms_objs (ap_models ap) ! a)"
proof -
  let ?m = "ms_objs (ap_models ap) ! a"
  define ap1 where "ap1 = (if truthy (obj_get ?m ''visible'') then snd (HideModel V k ap) else ap)"
  have 1: "ms_models (ap_models ap1) = ms_models (ap_models ap)" "length (ms_objs (ap_models ap1)) = length (ms_objs (ap_models ap))"
    "obj_get (ms_objs (ap_models ap1) ! a) ''active'' = obj_get ?m ''active''"
    "str_prop (ms_objs (ap_models ap1) ! a) ''modelId'' = k"
    "b \<noteq> a \<Longrightarrow> ms_objs (ap_models ap1) ! b = ms_objs (ap_models ap) ! b" "ap_db ap1 = ap_db ap" "ap_sent ap1 = ap_sent ap" for b
    using assms(3-5) by (auto simp: ap1_def hide_effect hideModel_def upd_obj unstack_def str_prop_def)
  define ap2 where "ap2 = (if truthy (obj_get ?m ''active'') then snd (StopModel V k ap1) else ap1)"
  have 2: "ms_models (ap_models ap2) = ms_models (ap_models ap)" "length (ms_objs (ap_models ap2)) = length (ms_objs (ap_models ap))"
    "str_prop (ms_objs (ap_models ap2) ! a) ''modelId'' = k"
    "b \<noteq> a \<Longrightarrow> ms_objs (ap_models ap2) ! b = ms_objs (ap_models ap) ! b" "ap_db ap2 = ap_db ap"
    "ap_sent ap2 = ap_sent ap @ (if truthy (obj_get ?m ''active'') then [RemoveModelRequest k] else [])" for b
    using assms(3-4) 1 by (auto simp: ap2_def stop_effect stopModel_def upd_obj str_prop_def)
  have e1: "(if truthy (obj_get ?m ''visible'') then snd (HideModel V (str_prop ?m ''modelId'') ap) else ap) = ap1"
    using assms(5) by (simp add: ap1_def)
  have e2: "(if truthy (obj_get (ms_objs (ap_models ap1) ! a) ''active'')
      then snd (StopModel V (str_prop (ms_objs (ap_models ap1) ! a) ''modelId'') ap1) else ap1) = ap2"
    using 1(3,4) by (simp add: ap2_def)
  have ap': "ap' = snd (DeleteModel V k ap2)"
    using assms(6,7) unfolding delete_model_of_def of_file_def Let_def by (simp only: e1 e2 2(3) if_True simp_thms)
  have w: "works healthy (ap_db ap2)" using assms(2) 2(5) by simp
  note del = delete_effect [OF assms(1) w, of k]
  show "ms_models (ap_models ap') = om_delete k (ms_models (ap_models ap))"
    "length (ms_objs (ap_models ap')) = length (ms_objs (ap_models ap))"
    "b \<noteq> a \<Longrightarrow> ms_objs (ap_models ap') ! b = ms_objs (ap_models ap) ! b"
    using 2 assms(3) by (simp_all add: ap' del(1) store_deleteModel_def unstack_def)
  show "works healthy (ap_db ap')" using del(2) by (simp add: ap')
  show "ap_sent ap' = ap_sent ap @ removals fl ?m"
    using del(3) 2(6) assms(5,6) by (auto simp: ap' removals_def Let_def)
qed

lemma skip_one: "\<not> of_file fl (ms_objs (ap_models ap) ! a) \<Longrightarrow> delete_model_of V fl a ap = ap"
  by (simp add: delete_model_of_def of_file_def)

lemma om_delete_entry:
  assumes "\<And>j. (j, a) \<in> set m \<Longrightarrow> j = k" and "om_ok m" and "(k, a) \<in> set m"
  shows "om_delete k m = filter (\<lambda>p. snd p \<noteq> a) m"
proof -
  have "(k \<noteq> fst p) = (snd p \<noteq> a)" if "p \<in> set m" for p
  proof
    assume "k \<noteq> fst p"
    then show "snd p \<noteq> a" using assms(1) [of "fst p"] that by (cases p) auto
  next
    assume n: "snd p \<noteq> a"
    show "k \<noteq> fst p"
    proof
      assume "k = fst p"
      then have "(k, snd p) \<in> set m" using that by simp
      then show False using n eq_key_imp_eq_value [OF _ _ assms(3)] assms(2) by (auto simp: om_ok_def)
    qed
  qed
  then show ?thesis unfolding AList.delete_eq by (intro filter_cong) (simp_all add: case_prod_beta)
qed

lemma om_get_filter: "om_ok m \<Longrightarrow> om_get (filter P m) j = Some b \<Longrightarrow> P (j, b) \<and> om_get m j = Some b"
  using map_of_SomeD [of "filter P m" j b] by (auto simp: om_ok_def)

lemma ids_ok_filter:
  assumes "ids_ok s" and "ms_models t = filter (\<lambda>p. snd p \<noteq> a) (ms_models s)" and "length (ms_objs t) = length (ms_objs s)"
    and "\<And>b. b \<noteq> a \<Longrightarrow> ms_objs t ! b = ms_objs s ! b"
  shows "ids_ok t"
proof -
  have ok: "om_ok (ms_models s)" using assms(1) by (simp add: ids_ok_def)
  then have "om_ok (ms_models t)" using assms(2) by (simp add: om_ok_def distinct_map_filter)
  moreover have "b < length (ms_objs t) \<and> str_prop (ms_objs t ! b) ''modelId'' = j" if "om_get (ms_models t) j = Some b" for j b
    using om_get_filter [OF ok that [unfolded assms(2)]] assms(1,3,4) by (auto simp: ids_ok_def)
  ultimately show ?thesis by (simp add: ids_ok_def)
qed

lemma delete_all:
  assumes "level_store (db_level (level_env V)) content healthy" and "works healthy (ap_db ap)"
    and "ids_ok (ap_models ap)" and "distinct as" and "\<forall>a\<in>set as. \<exists>k. (k, a) \<in> set (ms_models (ap_models ap))"
    and "S = ap_models ap" and "ap' = fold (delete_model_of V fl) as ap"
  shows "ms_models (ap_models ap') = filter (\<lambda>p. \<not> (snd p \<in> set as \<and> of_file fl (ms_objs S ! snd p))) (ms_models S)
    \<and> (\<forall>a. a \<notin> set as \<or> \<not> of_file fl (ms_objs S ! a) \<longrightarrow> ms_objs (ap_models ap') ! a = ms_objs S ! a)
    \<and> ap_sent ap' = ap_sent ap @ concat (map (\<lambda>a. removals fl (ms_objs S ! a)) as)"
  using assms(2-7)
proof (induction as arbitrary: ap S)
  case (Cons a as)
  let ?ap1 = "delete_model_of V fl a ap" and ?m = "ms_objs S ! a"
  obtain k where k: "(k, a) \<in> set (ms_models S)" using Cons.prems(4,5) by auto
  then have get: "om_get (ms_models S) k = Some a" using Cons.prems(2,5) by (simp add: ids_ok_def om_ok_def)
  have id: "a < length (ms_objs S)" "str_prop ?m ''modelId'' = k" using get Cons.prems(2,5) by (auto simp: ids_ok_def)
  show ?case
  proof (cases "of_file fl ?m")
    case False
    then have "?ap1 = ap" using skip_one Cons.prems(5) by blast
    then show ?thesis using Cons.IH [OF Cons.prems(1,2) _ _ Cons.prems(5)] Cons.prems(3,4,6) False
      by (auto simp: removals_def intro!: filter_cong)
  next
    case True
    note one = delete_one [OF assms(1) Cons.prems(1), of k a fl, folded Cons.prems(5), OF get id True refl]
    have uniq: "j = k" if "(j, a) \<in> set (ms_models S)" for j
      using that Cons.prems(2,5) id(2) by (auto simp: ids_ok_def om_ok_def)
    have models: "ms_models (ap_models ?ap1) = filter (\<lambda>p. snd p \<noteq> a) (ms_models S)"
      using one(1) om_delete_entry [OF uniq _ k] Cons.prems(2,5) by (simp add: ids_ok_def)
    have ids: "ids_ok (ap_models ?ap1)"
      by (rule ids_ok_filter [OF _ models]) (use Cons.prems(2,5) one(2,3) in simp_all)
    have "\<forall>b\<in>set as. \<exists>j. (j, b) \<in> set (ms_models (ap_models ?ap1))"
      using Cons.prems(3-5) models by fastforce
    note IH = Cons.IH [OF one(4) ids _ this refl Cons.prems(6) [simplified]]
    have na: "a \<notin> set as" "distinct as" using Cons.prems(3) by simp_all
    have same: "ms_objs (ap_models ?ap1) ! b = ms_objs S ! b" if "b \<in> set as" for b
      using that na(1) by (intro one(3)) auto
    then have "concat (map (\<lambda>b. removals fl (ms_objs (ap_models ?ap1) ! b)) as) = concat (map (\<lambda>b. removals fl (ms_objs S ! b)) as)"
      by (intro arg_cong [of _ _ concat] map_cong) simp_all
    moreover have "filter (\<lambda>p. snd p \<noteq> a \<and> \<not> (snd p \<in> set as \<and> of_file fl (ms_objs (ap_models ?ap1) ! snd p))) (ms_models S)
        = filter (\<lambda>p. \<not> (snd p \<in> set (a # as) \<and> of_file fl (ms_objs S ! snd p))) (ms_models S)"
      using True same by (intro filter_cong) auto
    moreover have "ms_objs (ap_models ap') ! b = ms_objs S ! b" if "b \<notin> set (a # as) \<or> \<not> of_file fl (ms_objs S ! b)" for b
    proof -
      have "b \<noteq> a" using that True by auto
      then have eq: "ms_objs (ap_models ?ap1) ! b = ms_objs S ! b" by (rule one(3))
      then have "b \<notin> set as \<or> \<not> of_file fl (ms_objs (ap_models ?ap1) ! b)" using that by auto
      then show ?thesis using IH na(2) eq by auto
    qed
    ultimately show ?thesis using IH na(2) models one(5) by simp
  qed
qed simp

text \<open>C12: deleting a file from the list, once the user has confirmed, takes exactly its models out of the model store
  of a working database and leaves the others as they are; for each of its models the service
  is asked to remove it, twice for a running one.\<close>

theorem deleting_file_removes_models:
  assumes "level_store (db_level (level_env V)) content healthy" and "works healthy (ap_db ap)"
    and "ids_ok (ap_models ap)" and "distinct (om_values (ms_models (ap_models ap)))"
    and "ap' = handleFileContextMenu V fl Delete True ap"
  shows "ms_models (ap_models ap') = filter (\<lambda>p. \<not> of_file fl (ms_objs (ap_models ap) ! snd p)) (ms_models (ap_models ap))
    \<and> get_models (ap_models ap') = filter (\<lambda>m. \<not> of_file fl m) (get_models (ap_models ap))
    \<and> ap_sent ap' = ap_sent ap @ concat (map (removals fl) (get_models (ap_models ap)))"
proof -
  let ?S = "ap_models ap" and ?as = "om_values (ms_models (ap_models ap))"
  define ap1 where "ap1 = fold (delete_model_of V fl) ?as ap"
  have "\<forall>a\<in>set ?as. \<exists>k. (k, a) \<in> set (ms_models ?S)" by force
  note all = delete_all [OF assms(1-4) this refl ap1_def]
  have ap': "ap_models ap' = ap_models ap1" "ap_sent ap' = ap_sent ap1"
    using delete_file_models [of V "str_prop fl ''filename''" ap1] assms(5)
    by (simp_all add: handleFileContextMenu_def delete_confirmed_def ap1_def)
  have models: "ms_models (ap_models ap') = filter (\<lambda>p. \<not> of_file fl (ms_objs ?S ! snd p)) (ms_models ?S)"
    using all unfolding ap' by (auto intro!: filter_cong)
  have "map (\<lambda>p. ms_objs (ap_models ap') ! snd p) (filter (\<lambda>p. \<not> of_file fl (ms_objs ?S ! snd p)) (ms_models ?S))
      = map (\<lambda>p. ms_objs ?S ! snd p) (filter (\<lambda>p. \<not> of_file fl (ms_objs ?S ! snd p)) (ms_models ?S))"
    using all unfolding ap' by (intro map_cong) auto
  then have "get_models (ap_models ap') = filter (\<lambda>m. \<not> of_file fl m) (get_models ?S)"
    by (simp add: get_models_def models filter_map comp_def)
  moreover have "ap_sent ap' = ap_sent ap @ concat (map (removals fl) (get_models ?S))"
    using all by (simp add: ap' get_models_def comp_def)
  ultimately show ?thesis using models by simp
qed

text \<open>A database in memory.\<close>

definition two_files :: "jsval mem app" where
  "two_files = mem_app\<lparr>ap_models := \<lparr>ms_objs = [[(''modelId'', JStr ''m''), (''filename'', JStr ''a.csv''), (''active'', JBool True)],
       [(''modelId'', JStr ''n''), (''filename'', JStr ''b.csv'')]],
     ms_models = [(''m'', 0), (''n'', 1)], ms_stack = []\<rparr>\<rparr>"

theorem deleting_file_removes_models_witness:
  "ms_models (ap_models (handleFileContextMenu mem_app_env [(''filename'', JStr ''a.csv'')] Delete True two_files)) = [(''n'', 1)]
    \<and> ap_sent (handleFileContextMenu mem_app_env [(''filename'', JStr ''a.csv'')] Delete True two_files)
      = [RemoveModelRequest ''m'', RemoveModelRequest ''m'']"
proof -
  have h: "level_store (db_level (level_env mem_app_env)) mem_content (\<lambda>s. \<not> mem_fail s)"
    using mem_env_store by (simp add: mem_app_env_def mem_upload_def)
  have w: "works (\<lambda>s. \<not> mem_fail s) (ap_db two_files)"
    by (simp add: works_def two_files_def mem_app_def mem_db_def empty_mem_def)
  have i: "ids_ok (ap_models two_files)" "distinct (om_values (ms_models (ap_models two_files)))"
    by (simp_all add: ids_ok_def two_files_def om_ok_def str_prop_def obj_get_def)
  from deleting_file_removes_models [OF h w i refl, of "[(''filename'', JStr ''a.csv'')]"]
  show ?thesis
    by (simp add: two_files_def of_file_def removals_def get_models_def obj_get_def str_prop_def mem_app_def Let_def)
qed

section \<open>The table of the details\<close>

lemma details_promise_rows:
  "details_promise flds data (map CallRow rows @ [CallEnd])
    = Some (Inr (data @ map (\<lambda>row. case flds of Some fs \<Rightarrow> details_row fs row | None \<Rightarrow> map Some row) rows))"
  by (induction rows arbitrary: data) simp_all

text \<open>the page with the details of a file shows the first 20 rows after the offset of the file, one cell for each
  field; but when the file could not be read the data of the page is not defined, and rendering
  its table throws.\<close>

theorem details_show_rows:
  assumes "isVisible s" and "ds_file s = JObj fl" and "ds_fields s = Some flds" and "flds \<noteq> []"
    and "obj_get fl ''rowOffset'' = JNum (jint (int offset))"
  shows "render_table (details_willReceiveProps sz rows s ui)
      = Inr (let shown = map (details_row flds) (take 20 (drop offset rows))
             in if shown = [] then None else Some (map (\<lambda>f. obj_get f ''name'') flds, shown))
    \<and> render_table (details_loaded sz (ds_fields s) (map CallRow (take k rows) @ [CallError e]) ui) = Inl TypeError"
proof -
  have "read_calls fl rows = map CallRow (take 20 (drop offset rows)) @ [CallEnd]"
    using assms(5) by (simp add: read_calls_def jint_def getData_slice comp_def)
  then have 1: "details_willReceiveProps sz rows s ui
      = \<lparr>fd_fileSize = sz, fd_fields = Some flds, fd_data = Some (map (details_row flds) (take 20 (drop offset rows)))\<rparr>"
    using assms(1-3) by (simp add: details_willReceiveProps_def details_loaded_def details_promise_rows)
  have "details_promise flds' data (map CallRow rs @ [CallError e]) = Some (Inl e)" for flds' data rs
    by (induction rs arbitrary: data) simp_all
  then have "details_loaded sz (ds_fields s) (map CallRow (take k rows) @ [CallError e]) ui
      = \<lparr>fd_fileSize = sz, fd_fields = Some flds, fd_data = None\<rparr>"
    using assms(3) by (simp add: details_loaded_def)
  then show ?thesis using 1 assms(4) by (simp add: render_table_def Let_def)
qed

theorem details_show_rows_witness:
  "render_table (details_willReceiveProps 10 [[''t''], [''1'']]
      (new_details_store\<lparr>ds_file := JObj [(''rowOffset'', JNum (jint 1))], ds_visible := True, ds_fields := Some [[(''index'', JNum (jint 0))]]\<rparr>)
      new_details_ui) = Inr (Some ([JUndef], [[Some ''1'']]))"
  using details_show_rows [of "new_details_store\<lparr>ds_file := JObj [(''rowOffset'', JNum (jint 1))], ds_visible := True,
      ds_fields := Some [[(''index'', JNum (jint 0))]]\<rparr>" "[(''rowOffset'', JNum (jint 1))]" "[[(''index'', JNum (jint 0))]]" 1 10
      "[[''t''], [''1'']]" new_details_ui]
  by (simp add: new_details_store_def isVisible_def obj_get_def details_row_def field_index_def jint_def cell_def)

end
