(* ===== verification/Lodash_Paths.thy ===== *)
theory Lodash_Paths
  imports Create_Model_Store
begin

text \<open>
  Paths of property names as lodash reads them, \<open>_.get(v, 'a.b.c')\<close> and \<open>_.set({}, 'a.b.c', v)\<close>,
  and what the dialog for new models relies on when it merges an object that has a single
  path. A deep merge satisfies the laws.
\<close>

section \<open>Paths\<close>

fun join_dots :: "string list \<Rightarrow> string" where
  "join_dots [] = []"
| "join_dots [k] = k"
| "join_dots (k # ks) = k @ CHR ''.'' # join_dots ks"

fun split_dots :: "string \<Rightarrow> string list" where
  "split_dots [] = [[]]"
| "split_dots (c # cs) = (if c = CHR ''.'' then [] # split_dots cs
     else (case split_dots cs of w # ws \<Rightarrow> (c # w) # ws | [] \<Rightarrow> [[c]]))"

definition no_dot :: "string \<Rightarrow> bool" where
  "no_dot k = (CHR ''.'' \<notin> set k)"

lemma split_no_dot: "no_dot k \<Longrightarrow> split_dots k = [k]"
  by (induction k) (auto simp: no_dot_def)

lemma split_append: "no_dot k \<Longrightarrow> split_dots (k @ CHR ''.'' # cs) = k # split_dots cs"
  by (induction k) (auto simp: no_dot_def)

lemma split_join: "list_all no_dot ks \<Longrightarrow> ks \<noteq> [] \<Longrightarrow> split_dots (join_dots ks) = ks"
  by (induction ks rule: join_dots.induct) (simp_all add: split_no_dot split_append)

text \<open>\<open>_.set({}, path, v)\<close>\<close>

fun set_path :: "string list \<Rightarrow> jsval \<Rightarrow> jsval" where
  "set_path [] v = v"
| "set_path (k # ks) v = JObj [(k, set_path ks v)]"

fun path_get :: "string list \<Rightarrow> jsval \<Rightarrow> jsval" where
  "path_get [] v = v"
| "path_get (k # ks) v = path_get ks (obj_get (as_obj v) k)"

lemma path_get_undef [simp]: "ks \<noteq> [] \<Longrightarrow> as_obj v = [] \<Longrightarrow> path_get ks v = JUndef"
proof (induction ks arbitrary: v)
  case (Cons k ks)
  then show ?case by (cases "ks = []") (simp_all add: as_obj_def)
qed simp

lemma path_get_JUndef [simp]: "path_get ks JUndef = JUndef"
  by (cases "ks = []") (simp_all add: as_obj_def)

lemma path_get_set [simp]: "path_get ks (set_path ks v) = v"
  by (induction ks) (simp_all add: obj_get_def)

section \<open>The contract\<close>

text \<open>The laws hold for objects of the kind \<open>JSON.parse\<close> gives and for names that
  no array, string or prototype has.\<close>

locale lodash_objects = lodash +
  assumes merge_obj: "\<exists>ob. merge a b = JObj ob"
    and get_step: "list_all plain (k # ks) \<Longrightarrow> ks \<noteq> [] \<Longrightarrow> get v (join_dots (k # ks)) = get (get v k) (join_dots ks)"
    and merge_given: "list_all plain ks \<Longrightarrow> ks \<noteq> [] \<Longrightarrow> primitive (get b (join_dots ks)) \<or> get b (join_dots ks) = JNull
          \<Longrightarrow> get (merge a b) (join_dots ks) = get b (join_dots ks)"
    and merge_truthy: "list_all plain ks \<Longrightarrow> ks \<noteq> [] \<Longrightarrow> truthy (get b (join_dots ks))
          \<Longrightarrow> truthy (get (merge a b) (join_dots ks))"
    and merge_left: "plain k \<Longrightarrow> get b k = JUndef \<Longrightarrow> truthy (get (merge a b) k) = truthy (get a k)"
    and merge_absent: "plain k \<Longrightarrow> get a k = JUndef \<Longrightarrow> get b k = JUndef \<Longrightarrow> get (merge a b) k = JUndef"
    and get_own: "plain k \<Longrightarrow> get v k = obj_get (as_obj v) k"
begin

lemma get_none: "plain k \<Longrightarrow> v = JUndef \<or> v = JNull \<Longrightarrow> get v k = JUndef"
  by (auto simp: get_own as_obj_def)

lemma get_set_path: "list_all plain ks \<Longrightarrow> ks \<noteq> [] \<Longrightarrow> get (set_path ks v) (join_dots ks) = v"
proof (induction ks)
  case (Cons k ks)
  have step: "get (set_path (k # ks) v) k = set_path ks v"
    using get_obj [of k "[(k, set_path ks v)]"] Cons.prems by (simp add: obj_get_def)
  show ?case
  proof (cases "ks = []")
    case True
    then show ?thesis using step by simp
  next
    case False
    then show ?thesis using get_step [OF Cons.prems(1) False] step Cons by simp
  qed
qed simp

lemma merged_path:
  assumes "list_all plain ks" and "ks \<noteq> []" and "primitive v \<or> v = JNull"
  shows "get (merge a (merge b (set_path ks v))) (join_dots ks) = v"
  using assms by (simp add: merge_given get_set_path)

lemma merged_path_truthy:
  assumes "list_all plain ks" and "ks \<noteq> []" and "truthy v"
  shows "truthy (get (merge a (merge b (set_path ks v))) (join_dots ks))"
  using assms by (intro merge_truthy) (simp_all add: get_set_path)

lemma merge_keeps_truthy:
  assumes "plain k" and "truthy (get a k) \<or> truthy (get b k)" and "get b k = JUndef \<or> truthy (get b k)"
  shows "truthy (get (merge a b) k)"
  using assms merge_truthy [of "[k]" b a] merge_left [of k b a] by auto

text \<open>Two plain names.\<close>

lemma get_two:
  assumes "plain k" and "plain k'"
  shows "get v (join_dots [k, k']) = obj_get (as_obj (obj_get (as_obj v) k)) k'"
  using assms get_step [of k "[k']" v] by (simp add: get_own)

end

section \<open>A deep merge\<close>

lemma size_delete: "size_list f (om_delete k bs) \<le> size_list f bs"
  by (induction bs) (auto simp: AList.delete_eq)

text \<open>Arrays are replaced as a whole.\<close>

function (sequential) deep :: "jsval \<Rightarrow> jsval \<Rightarrow> jsval" and deep_props :: "jsobj \<Rightarrow> jsobj \<Rightarrow> jsobj" where
  "deep a (JObj bs) = JObj (deep_props (as_obj a) bs)"
| "deep a JUndef = a"
| "deep a b = b"
| "deep_props obs [] = obs"
| "deep_props obs ((k, v) # bs) = om_set k (deep (obj_get obs k) v) (deep_props obs (om_delete k bs))"
  by pat_completeness auto

termination
proof (relation "measure (case_sum (\<lambda>(a, b). 2 * size b) (\<lambda>(a, bs). 2 * size_list (size_prod (\<lambda>_. 0) size) bs + 1))",
    goal_cases)
  case (4 obs k v bs)
  show ?case using size_delete [of "size_prod (\<lambda>_. 0) size" k bs] by simp
qed auto

definition deep_merge :: "jsval \<Rightarrow> jsval \<Rightarrow> jsval" where
  "deep_merge a b = JObj (deep_props (as_obj a) (as_obj b))"

definition deep_get :: "jsval \<Rightarrow> string \<Rightarrow> jsval" where
  "deep_get v k = path_get (split_dots k) v"

lemma deep_undef [simp]: "deep a JUndef = a"
  by simp

lemma obj_get_delete: "obj_get (om_delete j ob) k = (if k = j then JUndef else obj_get ob k)"
  by (simp add: obj_get_def om_get_delete)

lemma obj_get_Cons: "obj_get ((j, v) # ob) k = (if k = j then v else obj_get ob k)"
  by (simp add: obj_get_def)

lemma obj_get_deep_props: "obj_get (deep_props obs bs) k = deep (obj_get obs k) (obj_get bs k)"
proof (induction "length bs" arbitrary: bs rule: less_induct)
  case less
  show ?case
  proof (cases bs)
    case (Cons p rest)
    obtain j v where p: "p = (j, v)" by (cases p)
    have "length (om_delete j rest) < length bs"
      using Cons length_delete_le [of j rest] by simp
    from less [OF this] have "obj_get (deep_props obs (om_delete j rest)) k = deep (obj_get obs k) (obj_get (om_delete j rest) k)" .
    then show ?thesis using Cons p by (auto simp: obj_get_delete obj_get_Cons)
  qed simp
qed

lemma path_get_deep:
  "primitive (path_get ks b) \<or> path_get ks b = JNull \<Longrightarrow> path_get ks (deep a b) = path_get ks b"
proof (induction ks arbitrary: a b)
  case Nil
  then show ?case by (cases b) (auto simp: primitive_def)
next
  case (Cons k ks)
  then show ?case by (cases b) (auto simp: as_obj_def obj_get_deep_props primitive_def)
qed

lemma path_get_deep_truthy: "truthy (path_get ks b) \<Longrightarrow> truthy (path_get ks (deep a b))"
proof (induction ks arbitrary: a b)
  case Nil
  then show ?case by (cases b) auto
next
  case (Cons k ks)
  then show ?case by (cases b) (auto simp: as_obj_def obj_get_deep_props)
qed

lemma deep_merge_eq: "ks \<noteq> [] \<Longrightarrow> path_get ks (deep_merge a b) = path_get ks (deep a (JObj (as_obj b)))"
  by (simp add: deep_merge_def)

lemma path_get_as_obj: "ks \<noteq> [] \<Longrightarrow> path_get ks (JObj (as_obj b)) = path_get ks b"
  by (cases ks) simp_all

interpretation deep: lodash_objects deep_merge deep_get no_dot
proof unfold_locales
  show "deep_get (deep_merge a b) k = deep_get b k" if "no_dot k" "primitive (deep_get b k)" for a b k
    using that path_get_deep [of "[k]" "JObj (as_obj b)" a]
    by (simp add: deep_get_def split_no_dot deep_merge_def)
  show "deep_get (deep_merge a b) k = deep_get a k" if "no_dot k" "deep_get b k = JUndef" "primitive (deep_get a k)" for a b k
    using that by (simp add: deep_get_def split_no_dot deep_merge_def obj_get_deep_props)
  show "deep_get (JObj ob) k = obj_get ob k" if "no_dot k" for k ob
    using that by (simp add: deep_get_def split_no_dot)
  show "\<exists>ob. deep_merge a b = JObj ob" for a b by (simp add: deep_merge_def)
  show "deep_get v (join_dots (k # ks)) = deep_get (deep_get v k) (join_dots ks)"
    if "list_all no_dot (k # ks)" "ks \<noteq> []" for k ks v
    using that split_join [of "k # ks"] split_join [of ks] by (simp add: deep_get_def split_no_dot)
  show "deep_get (deep_merge a b) (join_dots ks) = deep_get b (join_dots ks)"
    if "list_all no_dot ks" "ks \<noteq> []" "primitive (deep_get b (join_dots ks)) \<or> deep_get b (join_dots ks) = JNull" for ks b a
    using that path_get_deep [of ks "JObj (as_obj b)" a]
    by (simp add: deep_get_def split_join deep_merge_eq path_get_as_obj)
  show "truthy (deep_get (deep_merge a b) (join_dots ks))"
    if "list_all no_dot ks" "ks \<noteq> []" "truthy (deep_get b (join_dots ks))" for ks b a
    using that path_get_deep_truthy [of ks "JObj (as_obj b)" a]
    by (simp add: deep_get_def split_join deep_merge_eq path_get_as_obj)
  show "truthy (deep_get (deep_merge a b) k) = truthy (deep_get a k)" if "no_dot k" "deep_get b k = JUndef" for k b a
    using that by (simp add: deep_get_def split_no_dot deep_merge_def obj_get_deep_props)
  show "deep_get (deep_merge a b) k = JUndef" if "no_dot k" "deep_get a k = JUndef" "deep_get b k = JUndef" for k a b
    using that by (simp add: deep_get_def split_no_dot deep_merge_def obj_get_deep_props)
  show "deep_get v k = obj_get (as_obj v) k" if "no_dot k" for v k
    using that by (simp add: deep_get_def split_no_dot)
qed

definition deep_env :: lodash_env where
  "deep_env = \<lparr>lo_merge = deep_merge, lo_get = deep_get, lo_plain = no_dot\<rparr>"

end
