(* ===== verification/Create_Dialog.thy ===== *)
theory Create_Dialog
  imports Lodash_Paths App_Views
begin

text \<open>
  The dialog that creates a model, \<open>app/browser/components/CreateModelDialog.jsx\<close>, and its
  settings, \<open>AdvancedSettings.jsx\<close>: what they render for the state of \<open>CreateModelStore\<close>, what
  their handlers dispatch, and the dialog as a state machine over the application. Durations
  of the moment library are a parameter. Styles and texts are not modelled.
\<close>

section \<open>Durations\<close>

text \<open>\<open>moment.duration({hours, minutes, seconds}).asSeconds()\<close> and the accessors of
  \<open>moment.duration(v, 'seconds')\<close>.\<close>

record duration_env =
  du_asSeconds :: "jsnum \<Rightarrow> jsnum \<Rightarrow> jsnum \<Rightarrow> jsnum"
  du_hours :: "jsval \<Rightarrow> jsnum"
  du_minutes :: "jsval \<Rightarrow> jsnum"
  du_seconds :: "jsval \<Rightarrow> jsnum"

locale durations =
  fixes asSeconds :: "jsnum \<Rightarrow> jsnum \<Rightarrow> jsnum \<Rightarrow> jsnum" and hours minutes seconds :: "jsval \<Rightarrow> jsnum"
  assumes as_seconds: "h < 100 \<Longrightarrow> m < 100 \<Longrightarrow> s < 100 \<Longrightarrow>
      asSeconds (jint (int h)) (jint (int m)) (jint (int s)) = jint (int (3600 * h + 60 * m + s))"
    and hours: "n < 2 ^ 31 \<Longrightarrow> hours (JNum (jint (int n))) = jint (int (n div 3600 mod 24))"
    and minutes: "n < 2 ^ 31 \<Longrightarrow> minutes (JNum (jint (int n))) = jint (int (n div 60 mod 60))"
    and seconds: "n < 2 ^ 31 \<Longrightarrow> seconds (JNum (jint (int n))) = jint (int (n mod 60))"

text \<open>The remainder of two numbers has the sign of the first.\<close>

definition jrem :: "jsnum \<Rightarrow> jsnum \<Rightarrow> jsnum" where
  "jrem x y = (case (x, y) of
       (Fin a, Fin b) \<Rightarrow> (if b = 0 then NaN
          else let q = a / b in Fin (a - b * of_int (if 0 \<le> q then \<lfloor>q\<rfloor> else \<lceil>q\<rceil>)))
     | (Fin a, PInf) \<Rightarrow> Fin a
     | (Fin a, MInf) \<Rightarrow> Fin a
     | _ \<Rightarrow> NaN)"

lemma jrem_nat: "0 < b \<Longrightarrow> jrem (jint (int a)) (jint (int b)) = jint (int (a mod b))"
proof -
  assume b: "0 < b"
  have "\<lfloor>of_nat a / of_nat b :: rat\<rfloor> = int (a div b)"
    by (simp add: floor_divide_of_nat_eq)
  moreover have "of_nat a - of_nat b * of_nat (a div b) = (of_nat (a mod b) :: rat)"
    by (metis add_diff_cancel_left' mult_div_mod_eq of_nat_add of_nat_mult)
  ultimately show ?thesis using b by (simp add: jrem_def jint_def Let_def)
qed

section \<open>Settings\<close>

record settings_view =
  sv_aggregate :: bool
  sv_hours :: jsnum
  sv_minutes :: jsnum
  sv_seconds :: jsnum
  sv_method :: jsval
  sv_daily :: bool
  sv_weekly :: bool

definition property :: "jsval \<Rightarrow> string \<Rightarrow> jsval" where
  "property v k = obj_get (as_obj v) k"

definition pattern_path :: "string \<Rightarrow> string list" where
  "pattern_path k = [''modelInfo'', ''modelConfig'', ''modelParams'', ''sensorParams'', ''encoders'', k]"

definition has_encoder :: "lodash_env \<Rightarrow> create_store \<Rightarrow> string \<Rightarrow> bool" where
  "has_encoder L s k = truthy (lo_get L (modelRunnerParams L s) (join_dots (pattern_path k)))"

definition windowSizeSeconds :: "lodash_env \<Rightarrow> create_store \<Rightarrow> jsval" where
  "windowSizeSeconds L s =
     (let aggInfo = property (modelRunnerParams L s) ''aggInfo'';
          size = (if truthy aggInfo then property aggInfo ''windowSize'' else aggInfo)
      in if truthy size then size else JNum (Fin 0))"

definition aggregationMethod :: "lodash_env \<Rightarrow> create_store \<Rightarrow> jsval" where
  "aggregationMethod L s =
     (let aggInfo = property (modelRunnerParams L s) ''aggInfo''
      in if truthy aggInfo \<and> truthy (property aggInfo ''func'') then property aggInfo ''func'' else JStr ''mean'')"

definition render_settings :: "lodash_env \<Rightarrow> duration_env \<Rightarrow> create_store \<Rightarrow> settings_view" where
  "render_settings L D s =
     (let windowSize = windowSizeSeconds L s
      in \<lparr>sv_aggregate = truthy (cm_aggregateData s),
          sv_hours = du_hours D windowSize, sv_minutes = du_minutes D windowSize, sv_seconds = du_seconds D windowSize,
          sv_method = aggregationMethod L s,
          sv_daily = has_encoder L s ''c0_timeOfDay'', sv_weekly = has_encoder L s ''c0_dayOfWeek''\<rparr>)"

text \<open>The handlers; \<open>executeAction\<close> runs the action with the payload.\<close>

definition handleAggregateDataOption :: "('s, 'm) app_env \<Rightarrow> 's app \<Rightarrow> 's app" where
  "handleAggregateDataOption V ap =
     (let aggregateData = cm_aggregateData (ap_create ap);
          ap = snd (OverrideParamFinderResults V JUndef ap)
      in snd (ToggleAggregateData V (JBool (\<not> truthy aggregateData)) ap))"

text \<open>The texts of the three fields.\<close>

definition handleAggregationWindow ::
    "('s, 'm) app_env \<Rightarrow> duration_env \<Rightarrow> string \<Rightarrow> string \<Rightarrow> string \<Rightarrow> 's app \<Rightarrow> 's app" where
  "handleAggregationWindow V D hours minutes seconds ap =
     (let duration = du_asSeconds D (jrem (to_number hours) (jint 99)) (jrem (to_number minutes) (jint 60))
            (jrem (to_number seconds) (jint 60));
          payload = set_path [''aggInfo'', ''windowSize''] (JNum duration)
      in snd (OverrideParamFinderResults V payload ap))"

definition handleAggregationMethod :: "('s, 'm) app_env \<Rightarrow> string \<Rightarrow> 's app \<Rightarrow> 's app" where
  "handleAggregationMethod V val ap =
     snd (OverrideParamFinderResults V (set_path [''aggInfo'', ''func''] (JStr val)) ap)"

definition weeklyEncoder :: jsval where
  "weeklyEncoder = JObj [(''dayOfWeek'', JArr [JNum (Fin 21), JNum (Fin 3)]), (''fieldname'', JStr ''c0''),
     (''type'', JStr ''DateEncoder''), (''name'', JStr ''c0'')]"

definition dailyEncoder :: jsval where
  "dailyEncoder = JObj [(''fieldname'', JStr ''c0''), (''timeOfDay'', JArr [JNum (Fin 21), JNum (Fin 9)]),
     (''type'', JStr ''DateEncoder''), (''name'', JStr ''c0'')]"

definition handleWeeklyPatternOption :: "('s, 'm) app_env \<Rightarrow> 's app \<Rightarrow> 's app" where
  "handleWeeklyPatternOption V ap =
     (let payload = set_path (pattern_path ''c0_dayOfWeek'')
            (if has_encoder (ae_lodash V) (ap_create ap) ''c0_dayOfWeek'' then JNull else weeklyEncoder)
      in snd (OverrideParamFinderResults V payload ap))"

definition handleDailyPatternOption :: "('s, 'm) app_env \<Rightarrow> 's app \<Rightarrow> 's app" where
  "handleDailyPatternOption V ap =
     (let payload = set_path (pattern_path ''c0_timeOfDay'')
            (if has_encoder (ae_lodash V) (ap_create ap) ''c0_timeOfDay'' then JNull else dailyEncoder)
      in snd (OverrideParamFinderResults V payload ap))"

definition settings_didMount :: "('s, 'm) app_env \<Rightarrow> 's app \<Rightarrow> 's app" where
  "settings_didMount V ap = snd (ToggleAggregateData V
     (JBool (truthy (property (modelRunnerParams (ae_lodash V) (ap_create ap)) ''aggInfo''))) ap)"

datatype settings_event = AggregateClick | WindowEdit string string string | MethodClick string | WeeklyClick | DailyClick

fun settings_step :: "('s, 'm) app_env \<Rightarrow> duration_env \<Rightarrow> settings_event \<Rightarrow> 's app \<Rightarrow> 's app" where
  "settings_step V D AggregateClick ap = handleAggregateDataOption V ap"
| "settings_step V D (WindowEdit h m s) ap = handleAggregationWindow V D h m s ap"
| "settings_step V D (MethodClick v) ap = handleAggregationMethod V v ap"
| "settings_step V D WeeklyClick ap = handleWeeklyPatternOption V ap"
| "settings_step V D DailyClick ap = handleDailyPatternOption V ap"

section \<open>The dialog\<close>

datatype description = FinderErrorText | AdvancedText | RecommendAggregateText | RecommendRawText

text \<open>\<open>rd_advanced\<close>: the settings are shown; \<open>rd_link\<close>: the link that shows or hides them is there.\<close>

record ready =
  rd_description :: description
  rd_advanced :: bool
  rd_link :: bool
  rd_disabled :: bool
  rd_metricId :: jsval
  rd_inputOpts :: jsval
  rd_modelOpts :: jsval
  rd_aggOpts :: jsval

datatype dialog_body = Loading | Ready ready

text \<open>\<open>dl_timers\<close> holds when the timers of \<open>setTimeout\<close> are due.\<close>

record dialog_ui =
  dl_open :: bool
  dl_progress :: bool
  dl_showAdvanced :: bool
  dl_timers :: "nat list"

definition new_dialog :: dialog_ui where
  "new_dialog = \<lparr>dl_open = False, dl_progress = True, dl_showAdvanced = False, dl_timers = []\<rparr>"

definition dialog_didMount :: "nat \<Rightarrow> dialog_ui \<Rightarrow> dialog_ui" where
  "dialog_didMount now ui = ui\<lparr>dl_timers := dl_timers ui @ [now + 4000]\<rparr>"

definition dialog_willReceiveProps :: "nat \<Rightarrow> bool \<Rightarrow> dialog_ui \<Rightarrow> dialog_ui" where
  "dialog_willReceiveProps now nextOpen ui =
     (let ui1 = (if \<not> dl_open ui \<and> nextOpen
                 then ui\<lparr>dl_showAdvanced := False, dl_progress := True, dl_timers := dl_timers ui @ [now + 4000]\<rparr>
                 else ui)
      in ui1\<lparr>dl_open := nextOpen\<rparr>)"

definition timers_fire :: "nat \<Rightarrow> dialog_ui \<Rightarrow> dialog_ui" where
  "timers_fire now ui =
     (if \<exists>t\<in>set (dl_timers ui). t \<le> now
      then ui\<lparr>dl_progress := False, dl_timers := filter (\<lambda>t. now < t) (dl_timers ui)\<rparr> else ui)"

definition handleAdvancedOptions :: "dialog_ui \<Rightarrow> dialog_ui" where
  "handleAdvancedOptions ui = ui\<lparr>dl_showAdvanced := \<not> dl_showAdvanced ui\<rparr>"

definition render_dialog :: "lodash_env \<Rightarrow> dialog_ui \<Rightarrow> create_store \<Rightarrow> dialog_body" where
  "render_dialog L ui s =
     (let params = modelRunnerParams L s;
          paramFinderError = truthy (cm_paramFinderError s);
          aggregateData = truthy (cm_aggregateData s)
      in if truthy params \<and> truthy (property params ''modelInfo'') \<and> \<not> dl_progress ui
         then Ready \<lparr>rd_description =
                  (if paramFinderError then FinderErrorText else if dl_showAdvanced ui then AdvancedText
                   else if recommendAggregation L s then RecommendAggregateText else RecommendRawText),
                rd_advanced = dl_showAdvanced ui, rd_link = (\<not> paramFinderError), rd_disabled = paramFinderError,
                rd_metricId = cm_metricId s, rd_inputOpts = cm_inputOpts s,
                rd_modelOpts = property params ''modelInfo'',
                rd_aggOpts = (if aggregateData then property params ''aggInfo'' else JObj [])\<rparr>
         else Loading)"

definition payload_start :: "ready \<Rightarrow> model_start" where
  "payload_start r = \<lparr>st_metricId = as_string (rd_metricId r), st_aggOpts = as_obj (rd_aggOpts r),
     st_inputOpts = as_obj (rd_inputOpts r), st_modelOpts = as_obj (rd_modelOpts r)\<rparr>"

text \<open>\<open>dismiss\<close> is given by \<open>Model\<close>: it closes the dialog and hides it in the store.\<close>

definition dismissCreateModelDialog :: "('s, 'm) app_env \<Rightarrow> nat \<Rightarrow> 's app \<times> dialog_ui \<Rightarrow> 's app \<times> dialog_ui" where
  "dismissCreateModelDialog V now st =
     (let (ap, ui) = st in (snd (HideCreateModelDialog V ap), dialog_willReceiveProps now False ui))"

definition dialog_startModel :: "('s, 'm) app_env \<Rightarrow> nat \<Rightarrow> ready \<Rightarrow> 's app \<times> dialog_ui \<Rightarrow> 's app \<times> dialog_ui" where
  "dialog_startModel V now r st =
     (let (ap, ui) = st;
          ap = snd (ChartUpdateViewpoint V (as_string (rd_metricId r)) JNull ap);
          ap = snd (StartModel V (payload_start r) ap)
      in dismissCreateModelDialog V now (ap, ui))"

section \<open>Dialog and application\<close>

text \<open>Closed, the dialog renders nothing. The user can only reach what is rendered, and the
  settings run \<open>componentDidMount\<close> when they appear.\<close>

definition shown :: "('s, 'm) app_env \<Rightarrow> 's app \<times> dialog_ui \<Rightarrow> ready option" where
  "shown V st = (case render_dialog (ae_lodash V) (snd st) (ap_create (fst st)) of
       Ready r \<Rightarrow> if dl_open (snd st) then Some r else None
     | Loading \<Rightarrow> None)"

definition shows_settings :: "('s, 'm) app_env \<Rightarrow> 's app \<times> dialog_ui \<Rightarrow> bool" where
  "shows_settings V st = (case shown V st of Some r \<Rightarrow> rd_advanced r | None \<Rightarrow> False)"

datatype ui_event =
    Act action
  | Settings settings_event
  | OpenDialog nat
  | Timers nat
  | AdvancedLink
  | CancelButton nat
  | AnalyzeButton nat

fun ui_effect :: "('s, 'm) app_env \<Rightarrow> duration_env \<Rightarrow> ui_event \<Rightarrow> 's app \<times> dialog_ui \<Rightarrow> 's app \<times> dialog_ui" where
  "ui_effect V D (Act a) (ap, ui) = (snd (dispatch V a ap), ui)"
| "ui_effect V D (Settings e) (ap, ui) = (if shows_settings V (ap, ui) then (settings_step V D e ap, ui) else (ap, ui))"
| "ui_effect V D (OpenDialog now) (ap, ui) = (ap, dialog_willReceiveProps now True ui)"
| "ui_effect V D (Timers now) (ap, ui) = (ap, timers_fire now ui)"
| "ui_effect V D AdvancedLink (ap, ui) = (case shown V (ap, ui) of
     Some r \<Rightarrow> if rd_link r then (ap, handleAdvancedOptions ui) else (ap, ui) | None \<Rightarrow> (ap, ui))"
| "ui_effect V D (CancelButton now) (ap, ui) = (case shown V (ap, ui) of
     Some r \<Rightarrow> dismissCreateModelDialog V now (ap, ui) | None \<Rightarrow> (ap, ui))"
| "ui_effect V D (AnalyzeButton now) (ap, ui) = (case shown V (ap, ui) of
     Some r \<Rightarrow> if rd_disabled r then (ap, ui) else dialog_startModel V now r (ap, ui) | None \<Rightarrow> (ap, ui))"

definition ui_step :: "('s, 'm) app_env \<Rightarrow> duration_env \<Rightarrow> ui_event \<Rightarrow> 's app \<times> dialog_ui \<Rightarrow> 's app \<times> dialog_ui" where
  "ui_step V D e st =
     (let st1 = ui_effect V D e st
      in if \<not> shows_settings V st \<and> shows_settings V st1 then (settings_didMount V (fst st1), snd st1) else st1)"

abbreviation ui_run :: "('s, 'm) app_env \<Rightarrow> duration_env \<Rightarrow> ui_event list \<Rightarrow> 's app \<times> dialog_ui \<Rightarrow> 's app \<times> dialog_ui" where
  "ui_run V D evs st \<equiv> fold (ui_step V D) evs st"

text \<open>Overrides and the toggle come from the settings only.\<close>

definition app_event :: "ui_event \<Rightarrow> bool" where
  "app_event e = (case e of
       Act (OVERRIDE_PARAM_FINDER_RESULTS p) \<Rightarrow> False
     | Act (TOGGLE_AGGREGATE_DATA b) \<Rightarrow> False
     | _ \<Rightarrow> True)"

section \<open>The store of the dialog in the application\<close>

lemma create_dispatch: "ap_create (snd (dispatch V a ap)) = snd (create_listens V a (ap_create ap))"
proof -
  have "ap_create (snd (call_store ap_create (\<lambda>t. ap_create_update (\<lambda>_. t)) h (None, ap))) = snd (h (ap_create ap))" for h
    by (cases "h (ap_create ap)"; cases "fst (h (ap_create ap))") (simp_all add: call_store_def)
  then show ?thesis by (simp add: dispatch_def call_store_keeps)
qed

lemma create_dispatch_last: "ap_create (snd (dispatch_last V a ap)) = snd (create_listens V a (ap_create ap))"
  by (simp add: dispatch_last_def create_dispatch [symmetric] split: prod.split option.split)

lemma create_actions:
  "ap_create (snd (OverrideParamFinderResults V p ap)) = snd (handleOverrideParamFinderResults (ae_lodash V) p (ap_create ap))"
  "ap_create (snd (ToggleAggregateData V b ap)) = (ap_create ap)\<lparr>cm_aggregateData := b\<rparr>"
  "ap_create (snd (HideCreateModelDialog V ap)) = reset (ap_create ap)"
  "ap_create (snd (ChartUpdateViewpoint V m w ap)) = ap_create ap"
  by (simp_all add: OverrideParamFinderResults_def ToggleAggregateData_def HideCreateModelDialog_def ChartUpdateViewpoint_def
      create_dispatch_last create_listens_def handleToggleAggregateData_def handleHideCreateModelDialog_def event_def Let_def)

lemma create_promisify: "ap_create (snd (promisify f ap)) = ap_create ap"
  by (simp add: promisify_def split: prod.split)

lemma create_and_then: "(\<And>v ap. ap_create (snd (k v ap)) = ap_create ap) \<Longrightarrow> ap_create (snd (and_then_p r k)) = ap_create (snd r)"
  by (simp add: and_then_p_def split: prod.split promise.split)

lemma create_rejected: "ap_create (snd (case r of (Pending, ap) \<Rightarrow> (Pending, ap) | (Resolved v, ap) \<Rightarrow> (Resolved v, ap)
     | (Rejected e, ap) \<Rightarrow> (Rejected e, exception n ap))) = ap_create (snd r)"
  by (cases r; cases "fst r") (auto simp: exception_def)

lemma create_StartModel: "ap_create (snd (StartModel V p ap)) = ap_create ap"
  by (simp add: StartModel_def dispatch_start create_rejected create_and_then create_promisify dispatch_last_def
      client_createModel_def send_def event_def Let_def)


section \<open>Aggregation\<close>

definition plain_names :: "lodash_env \<Rightarrow> bool" where
  "plain_names L = list_all (lo_plain L) [''aggInfo'', ''windowSize'', ''func'', ''modelInfo'', ''modelConfig'',
     ''modelParams'', ''sensorParams'', ''encoders'', ''c0_dayOfWeek'', ''c0_timeOfDay'']"

definition lodash_laws :: "lodash_env \<Rightarrow> bool" where
  "lodash_laws L = (lodash_objects (lo_merge L) (lo_get L) (lo_plain L) \<and> plain_names L)"

lemma laws_objects: "lodash_laws L \<Longrightarrow> lodash_objects (lo_merge L) (lo_get L) (lo_plain L)"
  by (simp add: lodash_laws_def)

lemma laws_base: "lodash_laws L \<Longrightarrow> lodash (lo_merge L) (lo_get L) (lo_plain L)"
  by (rule lodash_objects.axioms(1) [OF laws_objects])

lemma laws_plain: "lodash_laws L \<Longrightarrow> list_all (lo_plain L) [''aggInfo'', ''windowSize'', ''func'', ''modelInfo'', ''modelConfig'',
     ''modelParams'', ''sensorParams'', ''encoders'', ''c0_dayOfWeek'', ''c0_timeOfDay'']"
  by (simp add: lodash_laws_def plain_names_def)

lemma laws_agg: "lodash_laws L \<Longrightarrow> lo_plain L ''aggInfo''" "lodash_laws L \<Longrightarrow> lo_plain L ''modelInfo''"
  using laws_plain by auto

lemma param_get:
  assumes "lodash_laws L" and "lo_plain L k"
  shows "property (modelRunnerParams L s) k = lo_get L (modelRunnerParams L s) k"
proof -
  obtain ob where "modelRunnerParams L s = JObj ob"
    using lodash_objects.merge_obj [OF laws_objects [OF assms(1)]] by (auto simp: modelRunnerParams_def)
  then show ?thesis using lodash.get_obj [OF laws_base [OF assms(1)] assms(2)] by (simp add: property_def)
qed

lemma set_path_get:
  assumes "lodash_laws L" and "lo_plain L j" and "lo_plain L k"
  shows "lo_get L (set_path (k # ks) v) j = (if j = k then set_path ks v else JUndef)"
  using lodash.get_obj [OF laws_base [OF assms(1)] assms(2)] by (simp add: obj_get_def)

lemma truthy_set_path: "truthy (set_path (ks @ [j]) v)"
  by (cases ks) simp_all

text \<open>The options of aggregation that the parameters can come from.\<close>

definition agg_options :: "lodash_env \<Rightarrow> create_store \<Rightarrow> bool" where
  "agg_options L s = (truthy (lo_get L (cm_paramFinderResults s) ''aggInfo'') \<or> truthy (lo_get L (cm_userParamOverrides s) ''aggInfo''))"

definition agg_inv :: "lodash_env \<Rightarrow> create_store \<Rightarrow> bool" where
  "agg_inv L s = ((truthy (cm_aggregateData s) \<longrightarrow> agg_options L s)
     \<and> (lo_get L (cm_userParamOverrides s) ''aggInfo'' = JUndef \<or> truthy (lo_get L (cm_userParamOverrides s) ''aggInfo'')))"

lemma agg_override:
  assumes "lodash_laws L" and "agg_inv L s"
    and p: "lo_get L p ''aggInfo'' = JUndef \<or> truthy (lo_get L p ''aggInfo'')"
  shows "agg_options L (snd (handleOverrideParamFinderResults L p s)) \<and> agg_inv L (snd (handleOverrideParamFinderResults L p s))"
proof -
  let ?d = "set_path [''aggInfo''] (JObj [(''windowSize'', JNum (Fin 0)), (''func'', JStr ''mean'')])"
  note ob = laws_objects [OF assms(1)] and agg = laws_agg(1) [OF assms(1)]
  have "truthy (lo_get L ?d ''aggInfo'')"
    using set_path_get [OF assms(1) agg agg, of "[]"] by simp
  then have d: "truthy (lo_get L (lo_merge L v ?d) ''aggInfo'')" for v
    by (intro lodash_objects.merge_keeps_truthy [OF ob agg]) auto
  have keeps: "truthy (lo_get L (lo_merge L v p) ''aggInfo'')" if "truthy (lo_get L v ''aggInfo'')" for v
    using that p by (intro lodash_objects.merge_keeps_truthy [OF ob agg]) auto
  have absent: "lo_get L (lo_merge L v p) ''aggInfo'' = JUndef \<or> truthy (lo_get L (lo_merge L v p) ''aggInfo'')"
    if "lo_get L v ''aggInfo'' = JUndef" for v
    using that p lodash_objects.merge_absent [OF ob agg, of v p] lodash_objects.merge_keeps_truthy [OF ob agg, of v p] by auto
  show ?thesis
    using assms(2) keeps d keeps [OF d] absent
    by (auto simp: handleOverrideParamFinderResults_def setDefaultOverrides_def agg_options_def agg_inv_def Let_def)
qed

lemma agg_params:
  assumes "lodash_laws L" and "agg_inv L s" and "agg_options L s"
  shows "truthy (property (modelRunnerParams L s) ''aggInfo'')"
proof -
  have "truthy (lo_get L (modelRunnerParams L s) ''aggInfo'')"
    using assms(2,3) unfolding modelRunnerParams_def agg_options_def agg_inv_def
    by (intro lodash_objects.merge_keeps_truthy [OF laws_objects [OF assms(1)] laws_agg(1) [OF assms(1)]]) auto
  then show ?thesis using param_get [OF assms(1) laws_agg(1) [OF assms(1)]] by simp
qed

lemma params_agg:
  assumes "lodash_laws L" and "truthy (property (modelRunnerParams L s) ''aggInfo'')" and "agg_inv L s"
  shows "agg_options L s"
proof -
  have "truthy (lo_get L (modelRunnerParams L s) ''aggInfo'')"
    using assms(2) param_get [OF assms(1) laws_agg(1) [OF assms(1)]] by simp
  then show ?thesis
    using assms(3) lodash_objects.merge_left [OF laws_objects [OF assms(1)] laws_agg(1) [OF assms(1)],
        of "cm_userParamOverrides s" "cm_paramFinderResults s"]
    by (auto simp: agg_inv_def agg_options_def modelRunnerParams_def)
qed

lemma agg_inv_settings:
  assumes "lodash_laws (ae_lodash V)" and "agg_inv (ae_lodash V) (ap_create ap)"
  shows "agg_inv (ae_lodash V) (ap_create (settings_step V D e ap))"
proof -
  let ?L = "ae_lodash V"
  have over: "agg_inv ?L (ap_create (snd (OverrideParamFinderResults V p ap)))"
    if "lo_get ?L p ''aggInfo'' = JUndef \<or> truthy (lo_get ?L p ''aggInfo'')" for p
    using agg_override [OF assms that] by (simp add: create_actions)
  have path: "lo_get ?L (set_path (k # ks @ [j]) v) ''aggInfo'' = JUndef \<or> truthy (lo_get ?L (set_path (k # ks @ [j]) v) ''aggInfo'')"
    if "lo_plain ?L k" for k ks j v
    using set_path_get [OF assms(1) laws_agg(1) [OF assms(1)] that, of "ks @ [j]" v] truthy_set_path [of ks j v]
    by (simp del: set_path.simps)
  show ?thesis
  proof (cases e)
    case AggregateClick
    have none: "lo_get ?L JUndef ''aggInfo'' = JUndef"
      using lodash_objects.get_none [OF laws_objects [OF assms(1)] laws_agg(1) [OF assms(1)]] by simp
    show ?thesis using AggregateClick agg_override [OF assms, of JUndef] none
      by (auto simp: handleAggregateDataOption_def create_actions agg_inv_def agg_options_def Let_def)
  next
    case WeeklyClick
    then show ?thesis using over path [of "''modelInfo''" "[''modelConfig'', ''modelParams'', ''sensorParams'', ''encoders'']" "''c0_dayOfWeek''"]
        laws_agg(2) [OF assms(1)]
      by (simp add: handleWeeklyPatternOption_def pattern_path_def Let_def)
  next
    case DailyClick
    then show ?thesis using over path [of "''modelInfo''" "[''modelConfig'', ''modelParams'', ''sensorParams'', ''encoders'']" "''c0_timeOfDay''"]
        laws_agg(2) [OF assms(1)]
      by (simp add: handleDailyPatternOption_def pattern_path_def Let_def)
  next
    case (WindowEdit h m sc)
    then show ?thesis using over path [of "''aggInfo''" "[]" "''windowSize''"] laws_agg(1) [OF assms(1)]
      by (simp add: handleAggregationWindow_def Let_def)
  next
    case (MethodClick v)
    then show ?thesis using over path [of "''aggInfo''" "[]" "''func''"] laws_agg(1) [OF assms(1)]
      by (simp add: handleAggregationMethod_def)
  qed
qed

lemma agg_inv_mount:
  assumes "lodash_laws (ae_lodash V)" and "agg_inv (ae_lodash V) (ap_create ap)"
  shows "agg_inv (ae_lodash V) (ap_create (settings_didMount V ap))"
  using assms params_agg [OF assms(1) _ assms(2)]
  by (auto simp: settings_didMount_def create_actions agg_inv_def agg_options_def modelRunnerParams_def)

lemma agg_inv_reset: "lodash_laws L \<Longrightarrow> agg_inv L (reset s)"
  using lodash_objects.get_none [OF laws_objects laws_agg(1)] by (auto simp: agg_inv_def reset_def)

lemma agg_inv_dispatch:
  assumes "lodash_laws (ae_lodash V)" and "app_event (Act a)" and "agg_inv (ae_lodash V) (ap_create ap)"
  shows "agg_inv (ae_lodash V) (ap_create (snd (dispatch V a ap)))"
  using assms(2,3) agg_inv_reset [OF assms(1)]
  by (cases a) (auto simp: create_dispatch create_listens_def app_event_def handleShowCreateModelDialog_def
      handleHideCreateModelDialog_def handleStartParamFinder_def handleReceiveParamFinderData_def handleParamFinderError_def
      agg_inv_def agg_options_def recommendAggregation_def Let_def split: sum.split)

lemma agg_inv_effect:
  assumes "lodash_laws (ae_lodash V)" and "app_event e" and "agg_inv (ae_lodash V) (ap_create (fst st))"
  shows "agg_inv (ae_lodash V) (ap_create (fst (ui_effect V D e st)))"
proof -
  obtain ap ui where st: "st = (ap, ui)" by (cases st)
  show ?thesis
    using assms(2,3) agg_inv_dispatch [OF assms(1), of _ ap] agg_inv_settings [OF assms(1), of ap] agg_inv_reset [OF assms(1)]
    by (cases e) (auto simp: st dismissCreateModelDialog_def dialog_startModel_def create_actions create_StartModel Let_def
        split: option.split)
qed

lemma agg_inv_step:
  assumes "lodash_laws (ae_lodash V)" and "app_event e" and "agg_inv (ae_lodash V) (ap_create (fst st))"
  shows "agg_inv (ae_lodash V) (ap_create (fst (ui_step V D e st)))"
  using agg_inv_effect [OF assms] agg_inv_mount [OF assms(1) agg_inv_effect [OF assms]] by (simp add: ui_step_def Let_def)

lemma agg_inv_run:
  assumes "lodash_laws (ae_lodash V)" and "list_all app_event evs" and "agg_inv (ae_lodash V) (ap_create (fst st))"
  shows "agg_inv (ae_lodash V) (ap_create (fst (ui_run V D evs st)))"
  using assms(2,3) by (induction evs arbitrary: st) (simp_all add: agg_inv_step [OF assms(1)])

lemma agg_inv_new: "lodash_laws L \<Longrightarrow> agg_inv L new_create_store"
  using lodash_objects.get_none [OF laws_objects laws_agg(1)] by (auto simp: agg_inv_def new_create_store_def)

text \<open>C11: \<open>CreateModelDialog\<close>: whatever the user does with the dialog and its settings and whatever the parameter
  finder reports meanwhile, when the dialog can start a model the options of aggregation are
  those of the parameters if the box is ticked, and then they are there, and empty if it is not.\<close>

theorem aggregation_has_options:
  assumes "lodash_laws (ae_lodash V)" and "list_all app_event evs"
    and "st = ui_run V D evs (new_app d, new_dialog)" and "shown V st = Some r"
  shows "if sv_aggregate (render_settings (ae_lodash V) D (ap_create (fst st)))
    then rd_aggOpts r = property (modelRunnerParams (ae_lodash V) (ap_create (fst st))) ''aggInfo'' \<and> truthy (rd_aggOpts r)
    else rd_aggOpts r = JObj []"
proof -
  have inv: "agg_inv (ae_lodash V) (ap_create (fst st))"
    using agg_inv_run [OF assms(1,2), of "(new_app d, new_dialog)"] agg_inv_new [OF assms(1)] assms(3) by (simp add: new_app_def)
  show ?thesis
    using assms(4) agg_params [OF assms(1) inv] inv
    by (auto simp: shown_def render_dialog_def render_settings_def agg_inv_def Let_def split: if_splits)
qed

section \<open>The window of aggregation\<close>

lemma windowSize_set:
  assumes "lodash_laws (ae_lodash V)"
  shows "windowSizeSeconds (ae_lodash V) (ap_create (handleAggregationWindow V D h m sc ap))
    = (let x = du_asSeconds D (jrem (to_number h) (jint 99)) (jrem (to_number m) (jint 60)) (jrem (to_number sc) (jint 60))
       in if truthy (JNum x) then JNum x else JNum (Fin 0))"
proof -
  let ?L = "ae_lodash V" and ?k = "[''aggInfo'', ''windowSize'']" and ?s = "ap_create (handleAggregationWindow V D h m sc ap)"
  define x where "x = du_asSeconds D (jrem (to_number h) (jint 99)) (jrem (to_number m) (jint 60)) (jrem (to_number sc) (jint 60))"
  note ob = laws_objects [OF assms]
  have pl: "list_all (lo_plain ?L) ?k" using laws_plain [OF assms] by simp
  obtain u where "cm_userParamOverrides ?s = lo_merge ?L u (set_path ?k (JNum x))"
    by (simp add: handleAggregationWindow_def create_actions handleOverrideParamFinderResults_def x_def Let_def)
  then have "lo_get ?L (modelRunnerParams ?L ?s) (join_dots ?k) = JNum x"
    using lodash_objects.merged_path [OF ob pl, of "JNum x"] by (simp add: modelRunnerParams_def primitive_def)
  then have "property (property (modelRunnerParams ?L ?s) ''aggInfo'') ''windowSize'' = JNum x"
    using lodash_objects.get_two [OF ob, of "''aggInfo''" "''windowSize''" "modelRunnerParams ?L ?s"] pl by (simp add: property_def)
  moreover from this have "truthy (property (modelRunnerParams ?L ?s) ''aggInfo'')"
    by (auto simp: property_def as_obj_def obj_get_def split: jsval.splits)
  ultimately show ?thesis by (simp add: windowSizeSeconds_def x_def Let_def)
qed

lemma window_fields:
  assumes "lodash_laws (ae_lodash V)"
    and "durations (du_asSeconds D) (du_hours D) (du_minutes D) (du_seconds D)" and "h < 100" and "m < 100" and "s < 100"
  shows "windowSizeSeconds (ae_lodash V) (ap_create (handleAggregationWindow V D (show_nat h) (show_nat m) (show_nat s) ap))
    = JNum (jint (int (3600 * (h mod 99) + 60 * (m mod 60) + s mod 60)))"
proof -
  have n: "jrem (to_number (show_nat k)) (jint (int b)) = jint (int (k mod b))" if "k < 100" "0 < b" for k b
    using that jrem_nat by (simp add: to_number_show_nat del: show_nat.simps)
  have z: "\<not> truthy (JNum (jint k)) \<longrightarrow> Fin 0 = jint k" for k
    by (auto simp: truthy_def jint_def)
  then show ?thesis
    using windowSize_set [OF assms(1), of D "show_nat h" "show_nat m" "show_nat s" ap] assms(3-5)
      n [of h 99] n [of m 60] n [of s 60] durations.as_seconds [OF assms(2), of "h mod 99" "m mod 60" "s mod 60"]
      less_trans [OF mod_less_divisor [of 99 h], of 100] less_trans [OF mod_less_divisor [of 60 m], of 100]
      less_trans [OF mod_less_divisor [of 60 s], of 100]
    by (simp add: Let_def z del: show_nat.simps)
qed

lemma day_parts:
  fixes n :: nat
  shows "60 * (n div 60 mod 60) + n mod 60 = n mod 3600"
    and "3600 * (n div 3600 mod 24) = n mod 86400 div 3600 * 3600"
    and "3600 * (n div 3600 mod 24) + 60 * (n div 60 mod 60) = n mod 86400 div 60 * 60"
proof -
  show hour: "60 * (n div 60 mod 60) + n mod 60 = n mod 3600"
    using mod_mult2_eq [of n 60 60] by simp
  have day: "n mod 86400 = 3600 * (n div 3600 mod 24) + n mod 3600"
    using mod_mult2_eq [of n 3600 24] by simp
  then show "3600 * (n div 3600 mod 24) = n mod 86400 div 3600 * 3600" by simp
  have "n mod 86400 = 60 * (60 * (n div 3600 mod 24) + n div 60 mod 60) + n mod 60"
    using day hour by simp
  moreover have "(60 * q + n mod 60) div 60 = q" for q by simp
  ultimately have "n mod 86400 div 60 = 60 * (n div 3600 mod 24) + n div 60 mod 60" by (simp only:)
  then show "3600 * (n div 3600 mod 24) + 60 * (n div 60 mod 60) = n mod 86400 div 60 * 60" by simp
qed

text \<open>\<open>AdvancedSettings\<close>: typing a number into one of the three fields of the window of aggregation changes
  that part of a window shorter than a day and leaves the others (the hours are taken modulo
  99, minutes and seconds modulo 60); of a longer window the whole days are lost.\<close>

theorem window_edit:
  assumes "lodash_laws (ae_lodash V)"
    and "durations (du_asSeconds D) (du_hours D) (du_minutes D) (du_seconds D)"
    and "windowSizeSeconds (ae_lodash V) (ap_create ap) = JNum (jint (int n))" and "n < 2 ^ 31" and "x < 100"
    and "new = (\<lambda>h m s. windowSizeSeconds (ae_lodash V)
          (ap_create (settings_step V D (WindowEdit (show_nat h) (show_nat m) (show_nat s)) ap)))"
    and "v = render_settings (ae_lodash V) D (ap_create ap)"
  shows "\<exists>h m s. sv_hours v = jint (int h) \<and> sv_minutes v = jint (int m) \<and> sv_seconds v = jint (int s)
    \<and> new x m s = JNum (jint (int (3600 * (x mod 99) + n mod 3600)))
    \<and> new h x s = JNum (jint (int (n mod 86400 div 3600 * 3600 + 60 * (x mod 60) + n mod 60)))
    \<and> new h m x = JNum (jint (int (n mod 86400 div 60 * 60 + x mod 60)))"
proof -
  let ?h = "n div 3600 mod 24" and ?m = "n div 60 mod 60" and ?s = "n mod 60"
  have lt: "?h < 24" "?m < 60" "?s < 60" by simp_all
  have new: "new h m s = JNum (jint (int (3600 * (h mod 99) + 60 * (m mod 60) + s mod 60)))"
    if "h < 100" "m < 100" "s < 100" for h m s
    using window_fields [OF assms(1,2) that] assms(6) by simp
  have "sv_hours v = jint (int ?h) \<and> sv_minutes v = jint (int ?m) \<and> sv_seconds v = jint (int ?s)"
    using durations.hours [OF assms(2,4)] durations.minutes [OF assms(2,4)] durations.seconds [OF assms(2,4)] assms(3,7)
    by (simp add: render_settings_def Let_def)
  moreover have "new x ?m ?s = JNum (jint (int (3600 * (x mod 99) + n mod 3600)))"
    using new [of x ?m ?s] lt assms(5) day_parts(1) [of n] by (simp add: add.assoc)
  moreover have "new ?h x ?s = JNum (jint (int (n mod 86400 div 3600 * 3600 + 60 * (x mod 60) + n mod 60)))"
    using new [of ?h x ?s] lt assms(5) day_parts(2) [of n] by simp
  moreover have "new ?h ?m x = JNum (jint (int (n mod 86400 div 60 * 60 + x mod 60)))"
    using new [of ?h ?m x] lt assms(5) day_parts(3) [of n] by simp
  ultimately show ?thesis by blast
qed

section \<open>Patterns\<close>

lemma pattern_set:
  assumes "lodash_laws (ae_lodash V)" and "k = ''c0_dayOfWeek'' \<or> k = ''c0_timeOfDay''" and "truthy e"
    and "p = (if has_encoder (ae_lodash V) (ap_create ap) k then JNull else e)"
  shows "has_encoder (ae_lodash V) (ap_create (snd (OverrideParamFinderResults V (set_path (pattern_path k) p) ap))) k
    = (\<not> has_encoder (ae_lodash V) (ap_create ap) k)"
proof -
  let ?L = "ae_lodash V" and ?s = "ap_create (snd (OverrideParamFinderResults V (set_path (pattern_path k) p) ap))"
  note ob = laws_objects [OF assms(1)]
  have pl: "list_all (lo_plain ?L) (pattern_path k)" "pattern_path k \<noteq> []"
    using laws_plain [OF assms(1)] assms(2) by (auto simp: pattern_path_def)
  obtain u where u: "modelRunnerParams ?L ?s = lo_merge ?L (cm_paramFinderResults ?s) (lo_merge ?L u (set_path (pattern_path k) p))"
    by (simp add: create_actions handleOverrideParamFinderResults_def modelRunnerParams_def Let_def)
  show ?thesis
  proof (cases "has_encoder ?L (ap_create ap) k")
    case True
    then have "lo_get ?L (modelRunnerParams ?L ?s) (join_dots (pattern_path k)) = JNull"
      using lodash_objects.merged_path [OF ob pl, of p] assms(4) u by simp
    then show ?thesis using True by (simp add: has_encoder_def)
  next
    case False
    then have "has_encoder ?L ?s k"
      using lodash_objects.merged_path_truthy [OF ob pl, of p] assms(3,4) u by (simp add: has_encoder_def)
    then show ?thesis using False by simp
  qed
qed

text \<open>a click on the box for weekly patterns turns it over, whether the encoder came from the parameter finder
  or from an earlier click, and so does a click on the box for daily patterns.\<close>

theorem pattern_boxes_toggle:
  assumes "lodash_laws (ae_lodash V)"
  shows "sv_weekly (render_settings (ae_lodash V) D (ap_create (settings_step V D WeeklyClick ap)))
      = (\<not> sv_weekly (render_settings (ae_lodash V) D (ap_create ap)))
    \<and> sv_daily (render_settings (ae_lodash V) D (ap_create (settings_step V D DailyClick ap)))
      = (\<not> sv_daily (render_settings (ae_lodash V) D (ap_create ap)))"
  using pattern_set [OF assms, of "''c0_dayOfWeek''" weeklyEncoder, OF _ _ refl, of ap]
    pattern_set [OF assms, of "''c0_timeOfDay''" dailyEncoder, OF _ _ refl, of ap]
  by (simp add: render_settings_def handleWeeklyPatternOption_def handleDailyPatternOption_def weeklyEncoder_def
      dailyEncoder_def Let_def del: set_path.simps)

section \<open>A parameter finder that fails\<close>

definition without_results :: "ui_event \<Rightarrow> bool" where
  "without_results e = (case e of
       Act (RECEIVE_PARAM_FINDER_DATA m r) \<Rightarrow> False
     | Act (OVERRIDE_PARAM_FINDER_RESULTS p) \<Rightarrow> False
     | _ \<Rightarrow> True)"

definition no_params :: "lodash_env \<Rightarrow> create_store \<Rightarrow> bool" where
  "no_params L s = (lo_get L (cm_paramFinderResults s) ''modelInfo'' = JUndef \<and> lo_get L (cm_userParamOverrides s) ''modelInfo'' = JUndef)"

lemma no_params_loading: "lodash_laws L \<Longrightarrow> no_params L s \<Longrightarrow> render_dialog L ui s = Loading"
  using lodash_objects.merge_absent [OF laws_objects laws_agg(2), of L "cm_paramFinderResults s" "cm_userParamOverrides s"]
    param_get [OF _ laws_agg(2), of L s]
  by (simp add: no_params_def render_dialog_def modelRunnerParams_def Let_def)

lemma no_params_shown: "lodash_laws (ae_lodash V) \<Longrightarrow> no_params (ae_lodash V) (ap_create (fst st)) \<Longrightarrow> shown V st = None"
  by (simp add: shown_def no_params_loading)

lemma no_params_reset: "lodash_laws L \<Longrightarrow> no_params L (reset s)"
  using lodash_objects.get_none [OF laws_objects laws_agg(2)] by (simp add: no_params_def reset_def)

lemma no_params_dispatch:
  assumes "lodash_laws (ae_lodash V)" and "without_results (Act a)" and "no_params (ae_lodash V) (ap_create ap)"
  shows "no_params (ae_lodash V) (ap_create (snd (dispatch V a ap)))"
  using assms(2,3) no_params_reset [OF assms(1)]
  by (cases a) (auto simp: create_dispatch create_listens_def without_results_def handleShowCreateModelDialog_def
      handleHideCreateModelDialog_def handleStartParamFinder_def handleToggleAggregateData_def handleParamFinderError_def
      no_params_def Let_def)

lemma no_params_step:
  assumes "lodash_laws (ae_lodash V)" and "without_results e" and "no_params (ae_lodash V) (ap_create (fst st))"
  shows "no_params (ae_lodash V) (ap_create (fst (ui_step V D e st))) \<and> (dl_open (snd st) \<longrightarrow> dl_open (snd (ui_step V D e st)))"
proof -
  obtain ap ui where st: "st = (ap, ui)" by (cases st)
  note none = no_params_shown [OF assms(1)]
  have eff: "no_params (ae_lodash V) (ap_create (fst (ui_effect V D e st))) \<and> (dl_open (snd st) \<longrightarrow> dl_open (snd (ui_effect V D e st)))"
    using assms(2,3) no_params_dispatch [OF assms(1), of _ ap] none [of "(ap, ui)"]
    by (cases e) (auto simp: st shows_settings_def dialog_willReceiveProps_def timers_fire_def Let_def)
  then show ?thesis using none [of "ui_effect V D e st"] by (simp add: ui_step_def shows_settings_def Let_def)
qed

lemma no_params_run:
  assumes "lodash_laws (ae_lodash V)" and "list_all without_results evs" and "no_params (ae_lodash V) (ap_create (fst st))"
  shows "no_params (ae_lodash V) (ap_create (fst (ui_run V D evs st))) \<and> (dl_open (snd st) \<longrightarrow> dl_open (snd (ui_run V D evs st)))"
  using assms(2,3) by (induction evs arbitrary: st) (simp_all add: no_params_step [OF assms(1)])

text \<open>when a parameter finder ends without results (also with an error), the dialog shows that it is loading, at
  any later time and whatever the user does: no button is ever rendered, the error is not shown
  and the open dialog cannot be closed.\<close>

theorem failed_finder_blocks:
  assumes "lodash_laws (ae_lodash V)" and "list_all without_results evs"
    and "st = ui_run V D evs (ui_step V D (OpenDialog now) (new_app d, new_dialog))"
  shows "render_dialog (ae_lodash V) (snd st) (ap_create (fst st)) = Loading \<and> dl_open (snd st)"
proof -
  have new: "no_params (ae_lodash V) (ap_create (fst (new_app d, new_dialog)))"
    using no_params_reset [OF assms(1), of new_create_store] by (simp add: new_app_def no_params_def reset_def new_create_store_def)
  have "dl_open (snd (ui_step V D (OpenDialog now) (new_app d, new_dialog)))"
    by (simp add: ui_step_def dialog_willReceiveProps_def Let_def)
  then show ?thesis
    using no_params_run [OF assms(1,2)] no_params_step [OF assms(1) _ new, of "OpenDialog now"] assms(3)
      no_params_loading [OF assms(1)]
    by (simp add: without_results_def)
qed

section \<open>Starting the model\<close>

lemma viewpoint_frame:
  "ap_db (snd (ChartUpdateViewpoint V m w ap)) = ap_db ap" "ap_sent (snd (ChartUpdateViewpoint V m w ap)) = ap_sent ap"
  "ap_models (snd (ChartUpdateViewpoint V m w ap)) = ap_models ap"
  by (simp_all add: ChartUpdateViewpoint_def dispatch_last_def dispatch_def call_store_def listens_defs
      handleUpdateViewpoint_def Let_def split: option.split)

lemma hide_frame:
  "ap_sent (snd (HideCreateModelDialog V ap)) = ap_sent ap" "ap_models (snd (HideCreateModelDialog V ap)) = ap_models ap"
  by (simp_all add: HideCreateModelDialog_def dispatch_last_def dispatch_def call_store_def listens_defs
      handleHideCreateModelDialog_def event_def Let_def)

lemma StartModel_done:
  assumes "updateMetric (level_env V) (st_metricId p) (JObj [(''input_options'', JObj (st_inputOpts p)),
      (''aggregation_options'', JObj (st_aggOpts p)), (''model_options'', JObj (st_modelOpts p))]) (ap_db ap) = ([Done x], d1)"
    and "updateModel (level_env V) (st_metricId p)
      (JObj [(''ran'', JBool True), (''aggregated'', JBool (st_aggOpts p \<noteq> []))]) d1 = ([Done y], d2)"
  shows "ap_sent (snd (StartModel V p ap)) = ap_sent ap @ [CreateModelRequest (st_metricId p) (JObj (st_inputOpts p))
      (st_aggOpts p) (JObj (st_modelOpts p))]"
    and "ap_models (snd (StartModel V p ap)) = snd (startModel (st_metricId p) (JBool (st_aggOpts p \<noteq> [])) (ap_models ap))"
  using assms by (simp_all add: StartModel_def dispatch_start event_def promisify_def and_then_p_def Let_def
      dispatch_last_def client_createModel_def send_def)

text \<open>C9: the button that starts the analysis: when the options are saved, the model service gets one request, for the
  metric and with the options that the dialog shows, without options of aggregation when the box
  is not ticked; the model is marked as running, the dialog closes and forgets the parameters.\<close>

theorem analyze_starts_model:
  assumes "shown V (ap, ui) = Some r" and "\<not> rd_disabled r" and "p = payload_start r"
    and "updateMetric (level_env V) (st_metricId p) (JObj [(''input_options'', JObj (st_inputOpts p)),
      (''aggregation_options'', JObj (st_aggOpts p)), (''model_options'', JObj (st_modelOpts p))]) (ap_db ap) = ([Done x], d1)"
    and "updateModel (level_env V) (st_metricId p)
      (JObj [(''ran'', JBool True), (''aggregated'', JBool (st_aggOpts p \<noteq> []))]) d1 = ([Done y], d2)"
    and "st' = ui_step V D (AnalyzeButton now) (ap, ui)"
  shows "ap_sent (fst st') = ap_sent ap @ [CreateModelRequest (as_string (cm_metricId (ap_create ap)))
        (JObj (as_obj (cm_inputOpts (ap_create ap)))) (st_aggOpts p) (JObj (st_modelOpts p))]
    \<and> ap_models (fst st') = snd (startModel (as_string (cm_metricId (ap_create ap))) (JBool (st_aggOpts p \<noteq> [])) (ap_models ap))
    \<and> (\<not> truthy (cm_aggregateData (ap_create ap)) \<longrightarrow> st_aggOpts p = [])
    \<and> ap_create (fst st') = reset (ap_create ap) \<and> \<not> dl_open (snd st')"
proof -
  let ?ap1 = "snd (ChartUpdateViewpoint V (as_string (rd_metricId r)) JNull ap)"
  let ?ap3 = "snd (HideCreateModelDialog V (snd (StartModel V p ?ap1)))"
  have eff: "ui_effect V D (AnalyzeButton now) (ap, ui) = (?ap3, dialog_willReceiveProps now False ui)"
    using assms(1-3) by (simp add: dialog_startModel_def dismissCreateModelDialog_def Let_def)
  have closed: "\<not> dl_open (dialog_willReceiveProps now False ui)" by (simp add: dialog_willReceiveProps_def Let_def)
  then have "\<not> shows_settings V (?ap3, dialog_willReceiveProps now False ui)"
    by (auto simp: shows_settings_def shown_def split: dialog_body.split)
  then have st': "st' = (?ap3, dialog_willReceiveProps now False ui)"
    using assms(6) by (simp add: ui_step_def eff Let_def del: ui_effect.simps)
  have r: "rd_metricId r = cm_metricId (ap_create ap)" "rd_inputOpts r = cm_inputOpts (ap_create ap)"
    "\<not> truthy (cm_aggregateData (ap_create ap)) \<Longrightarrow> rd_aggOpts r = JObj []"
    using assms(1) by (auto simp: shown_def render_dialog_def Let_def split: if_splits)
  have "updateMetric (level_env V) (st_metricId p) (JObj [(''input_options'', JObj (st_inputOpts p)),
      (''aggregation_options'', JObj (st_aggOpts p)), (''model_options'', JObj (st_modelOpts p))]) (ap_db ?ap1) = ([Done x], d1)"
    using assms(4) by (simp add: viewpoint_frame)
  note start = StartModel_done [OF this assms(5)]
  show ?thesis
    using start r closed
    by (simp add: st' hide_frame viewpoint_frame create_actions create_StartModel assms(3) payload_start_def)
qed

section \<open>A concrete dialog\<close>

definition clock :: duration_env where
  "clock = \<lparr>du_asSeconds = (\<lambda>h m s. jadd (jadd (jmul (jint 3600) h) (jmul (jint 60) m)) s),
     du_hours = (\<lambda>v. case as_num v of Fin q \<Rightarrow> jint (\<lfloor>q\<rfloor> div 3600 mod 24) | _ \<Rightarrow> NaN),
     du_minutes = (\<lambda>v. case as_num v of Fin q \<Rightarrow> jint (\<lfloor>q\<rfloor> div 60 mod 60) | _ \<Rightarrow> NaN),
     du_seconds = (\<lambda>v. case as_num v of Fin q \<Rightarrow> jint (\<lfloor>q\<rfloor> mod 60) | _ \<Rightarrow> NaN)\<rparr>"

lemma jmul_jint: "\<bar>a * b\<bar> < 2 ^ 53 \<Longrightarrow> jmul (jint a) (jint b) = jint (a * b)"
  using rnd_int [of "a * b"] by (simp add: jint_def)

interpretation clock: durations "du_asSeconds clock" "du_hours clock" "du_minutes clock" "du_seconds clock"
proof
  show "du_asSeconds clock (jint (int h)) (jint (int m)) (jint (int s)) = jint (int (3600 * h + 60 * m + s))"
    if "h < 100" "m < 100" "s < 100" for h m s
    using that by (simp add: clock_def jmul_jint)
qed (auto simp: clock_def jint_def zdiv_int zmod_int)

definition deep_app_env :: "(jsval mem, unit) app_env" where
  "deep_app_env = mem_app_env\<lparr>ae_lodash := deep_env\<rparr>"

lemma deep_laws: "lodash_laws (ae_lodash deep_app_env)"
  using deep.lodash_objects_axioms by (simp add: deep_app_env_def lodash_laws_def plain_names_def deep_env_def no_dot_def)

theorem failed_finder_blocks_witness:
  "render_dialog deep_env (snd (ui_run deep_app_env clock
      [Act (UNKNOWN_PARAM_FINDER_FAILURE (Some ''m'') (JStr ''killed'')), Timers 9000, CancelButton 9000]
      (ui_step deep_app_env clock (OpenDialog 0) (new_app mem_db, new_dialog))))
    (ap_create (fst (ui_run deep_app_env clock
      [Act (UNKNOWN_PARAM_FINDER_FAILURE (Some ''m'') (JStr ''killed'')), Timers 9000, CancelButton 9000]
      (ui_step deep_app_env clock (OpenDialog 0) (new_app mem_db, new_dialog))))) = Loading"
  using failed_finder_blocks [OF deep_laws _ refl, of "[Act (UNKNOWN_PARAM_FINDER_FAILURE (Some ''m'') (JStr ''killed'')), Timers 9000, CancelButton 9000]" clock 0 mem_db]
  by (simp add: without_results_def deep_app_env_def)

theorem pattern_boxes_toggle_witness:
  "sv_weekly (render_settings deep_env clock (ap_create (settings_step deep_app_env clock WeeklyClick (new_app mem_db))))
    = (\<not> sv_weekly (render_settings deep_env clock (ap_create (new_app mem_db))))"
  using pattern_boxes_toggle [OF deep_laws, of clock "new_app mem_db"] by (simp add: deep_app_env_def)

theorem window_edit_witness:
  "\<exists>h s. windowSizeSeconds deep_env (ap_create (settings_step deep_app_env clock (WindowEdit (show_nat h) (show_nat 7) (show_nat s)) (new_app mem_db)))
    = JNum (jint 420)"
proof -
  have "modelRunnerParams deep_env (ap_create (new_app mem_db)) = JObj []"
    by (simp add: modelRunnerParams_def deep_env_def deep_merge_def new_app_def new_create_store_def as_obj_def)
  then have "windowSizeSeconds (ae_lodash deep_app_env) (ap_create (new_app mem_db)) = JNum (jint (int 0))"
    by (simp add: windowSizeSeconds_def property_def deep_app_env_def jint_def)
  from window_edit [OF deep_laws clock.durations_axioms this _ _ refl refl, of 7]
  show ?thesis by (auto simp: deep_app_env_def simp del: show_nat.simps)
qed

lemma hidden_settings: "\<not> dl_showAdvanced (snd st) \<Longrightarrow> \<not> shows_settings V st"
  by (auto simp: shows_settings_def shown_def render_dialog_def Let_def split: if_splits)

lemma plain_step: "\<not> dl_showAdvanced (snd (ui_effect V D e st)) \<Longrightarrow> ui_step V D e st = ui_effect V D e st"
  by (simp add: ui_step_def hidden_settings Let_def)

definition found :: jsval where
  "found = JObj [(''modelInfo'', JObj []), (''aggInfo'', JObj [(''windowSize'', JNum (Fin 60))])]"

theorem aggregation_has_options_witness:
  "\<exists>r. shown deep_app_env (ui_run deep_app_env clock
      [Act (RECEIVE_PARAM_FINDER_DATA ''m'' (JJson found)), OpenDialog 0, Timers 5000] (new_app mem_db, new_dialog)) = Some r
    \<and> truthy (rd_aggOpts r)"
proof -
  let ?a = "RECEIVE_PARAM_FINDER_DATA ''m'' (JJson found)"
  let ?evs = "[Act ?a, OpenDialog 0, Timers 5000]"
  define ap where "ap = snd (dispatch deep_app_env ?a (new_app mem_db))"
  have run: "ui_run deep_app_env clock ?evs (new_app mem_db, new_dialog)
      = (ap, \<lparr>dl_open = True, dl_progress = False, dl_showAdvanced = False, dl_timers = []\<rparr>)"
    by (simp add: plain_step ap_def new_dialog_def dialog_willReceiveProps_def timers_fire_def Let_def)
  have agg: "deep_get found ''aggInfo'' = JObj [(''windowSize'', JNum (Fin 60))]"
    by (simp add: found_def deep_get_def as_obj_def obj_get_def)
  have "ap_create ap = new_create_store\<lparr>cm_paramFinderResults := found, cm_aggregateData := JBool True, cm_metricId := JStr ''m''\<rparr>"
    by (simp add: ap_def create_dispatch create_listens_def handleReceiveParamFinderData_def json_parse_def
        recommendAggregation_def deep_app_env_def deep_env_def agg new_app_def Let_def)
  moreover have "modelRunnerParams deep_env (new_create_store\<lparr>cm_paramFinderResults := found, cm_aggregateData := JBool True,
      cm_metricId := JStr ''m''\<rparr>) = found"
    by (simp add: modelRunnerParams_def deep_env_def deep_merge_def new_create_store_def found_def as_obj_def)
  ultimately have par: "modelRunnerParams deep_env (ap_create ap) = found" and t: "truthy (cm_aggregateData (ap_create ap))"
    by simp_all
  have env: "ae_lodash deep_app_env = deep_env" by (simp add: deep_app_env_def)
  have "truthy (property found ''modelInfo'')" "truthy found" by (simp_all add: found_def property_def obj_get_def)
  then obtain r where "shown deep_app_env (ap, \<lparr>dl_open = True, dl_progress = False, dl_showAdvanced = False, dl_timers = []\<rparr>) = Some r"
    by (simp add: shown_def render_dialog_def env par Let_def)
  then have r: "shown deep_app_env (ui_run deep_app_env clock ?evs (new_app mem_db, new_dialog)) = Some r"
    by (simp only: run)
  have "list_all app_event ?evs" by (simp add: app_event_def)
  from aggregation_has_options [OF deep_laws this refl r] have "truthy (rd_aggOpts r)"
    using t by (simp only: run) (auto simp: render_settings_def Let_def split: if_splits)
  then show ?thesis using r by blast
qed

definition ready_app :: "jsval mem app" where
  "ready_app = (new_app (mem_db\<lparr>db_metrics := \<lparr>mem_fail = False, mem_data = [(''m'', JObj [])]\<rparr>,
       db_models := \<lparr>mem_fail = False, mem_data = [(''m'', JObj [])]\<rparr>\<rparr>))
     \<lparr>ap_create := new_create_store\<lparr>cm_paramFinderResults := found, cm_metricId := JStr ''m'', cm_inputOpts := JObj []\<rparr>\<rparr>"

definition ready_ui :: dialog_ui where
  "ready_ui = \<lparr>dl_open = True, dl_progress = False, dl_showAdvanced = False, dl_timers = []\<rparr>"

theorem analyze_starts_model_witness:
  "ap_sent (fst (ui_step deep_app_env clock (AnalyzeButton 5000) (ready_app, ready_ui)))
    = [CreateModelRequest ''m'' (JObj []) [] (JObj [])]"
proof -
  have env: "ae_lodash deep_app_env = deep_env" "level_env deep_app_env = mem_env"
    by (simp_all add: deep_app_env_def mem_app_env_def mem_upload_def)
  have params: "modelRunnerParams deep_env (ap_create ready_app) = found"
    by (simp add: ready_app_def modelRunnerParams_def deep_env_def deep_merge_def new_create_store_def found_def as_obj_def)
  have c: "cm_metricId (ap_create ready_app) = JStr ''m''" "cm_inputOpts (ap_create ready_app) = JObj []"
    "\<not> truthy (cm_paramFinderError (ap_create ready_app))" "\<not> truthy (cm_aggregateData (ap_create ready_app))"
    "ap_sent ready_app = []"
    by (simp_all add: ready_app_def new_create_store_def new_app_def)
  have f: "truthy found" "property found ''modelInfo'' = JObj []" by (simp_all add: found_def property_def obj_get_def)
  obtain r where r: "shown deep_app_env (ready_app, ready_ui) = Some r" "\<not> rd_disabled r" "rd_metricId r = JStr ''m''"
    "rd_aggOpts r = JObj []" "rd_inputOpts r = JObj []" "rd_modelOpts r = JObj []"
    using f c by (simp add: shown_def render_dialog_def env params ready_ui_def Let_def)
  have p: "payload_start r = \<lparr>st_metricId = ''m'', st_aggOpts = [], st_inputOpts = [], st_modelOpts = []\<rparr>"
    by (simp add: payload_start_def r)
  have "\<exists>x d1. updateMetric mem_env ''m'' (JObj opts) (ap_db ready_app) = ([Done x], d1)
      \<and> db_models d1 = \<lparr>mem_fail = False, mem_data = [(''m'', JObj [])]\<rparr>" for opts
    by (simp add: ready_app_def new_app_def updateMetric_def parse_if_string_def is_string_def mem_env_def mem_level_def
        putMetric_def validated_put_def mem_write_def done_call_def report_record_def Let_def)
  then obtain x d1 where d1: "updateMetric mem_env ''m'' (JObj [(''input_options'', JObj []), (''aggregation_options'', JObj []),
      (''model_options'', JObj [])]) (ap_db ready_app) = ([Done x], d1)" "db_models d1 = \<lparr>mem_fail = False, mem_data = [(''m'', JObj [])]\<rparr>"
    by blast
  have "\<exists>y d2. updateModel mem_env ''m'' (JObj opts) d1 = ([Done y], d2)" for opts
    by (simp add: updateModel_def d1(2) parse_if_string_def is_string_def mem_env_def mem_level_def
        putModel_def validated_put_def mem_write_def done_call_def report_record_def Let_def)
  then obtain y d2 where "updateModel mem_env ''m'' (JObj [(''ran'', JBool True), (''aggregated'', JBool False)]) d1 = ([Done y], d2)"
    by blast
  with d1(1) analyze_starts_model [OF r(1,2) p [symmetric], of x d1 y d2 _ clock 5000] show ?thesis
    by (simp add: env c)
qed

end
