(* ===== verification/Timestamp_Formats.thy ===== *)
theory Timestamp_Formats
  imports File_Service
begin

text \<open>
  The formats of timestamps, \<open>app/common/timestamp.js\<close> with the table
  \<open>app/config/momentjs_to_datetime_strptime.json\<close>: for every format of moment.js, with which the browser
  and the file service read a file, the format of Python's \<open>strptime\<close>, with which the model runner
  reads the same column. The theorem compares the table with what the tokens of the two mean.
\<close>

section \<open>The table\<close>

definition MOMENT_TO_STRPTIME :: "(string \<times> (string \<times> string) list) list" where
  "MOMENT_TO_STRPTIME =
   [(''ISO 8601'',
     [(''YYYY-MM-DDTHH:mm:ss.SSSZ'', ''%Y-%m-%dT%H:%M:%S.%f%z''),
       (''YYYY-MM-DDTHH:mm:ss.SSZ'', ''%Y-%m-%dT%H:%M:%S.%f%z''),
       (''YYYY-MM-DDTHH:mm:ss.SZ'', ''%Y-%m-%dT%H:%M:%S.%f%z''),
       (''YYYY-MM-DDTHH:mm:ss.SSS'', ''%Y-%m-%dT%H:%M:%S.%f''),
       (''YYYY-MM-DDTHH:mm:ss.SS'', ''%Y-%m-%dT%H:%M:%S.%f''),
       (''YYYY-MM-DDTHH:mm:ss.S'', ''%Y-%m-%dT%H:%M:%S.%f''),
       (''YYYY-MM-DDTHH:mm:ssZ'', ''%Y-%m-%dT%H:%M:%S%z''), (''YYYY-MM-DDTHH:mm:ss'', ''%Y-%m-%dT%H:%M:%S''),
       (''YYYY-MM-DDTHH:mmZ'', ''%Y-%m-%dT%H:%M%z''), (''YYYY-MM-DDTHH:mm'', ''%Y-%m-%dT%H:%M''),
       (''YYYY-MM-DDTHHZ'', ''%Y-%m-%dT%H%z''), (''YYYY-MM-DDTHH'', ''%Y-%m-%dT%H'')]),
    (''Variation of ISO 8601'',
     [(''YYYY/MM/DDTHH:mm:ss.SSSZ'', ''%Y/%m/%dT%H:%M:%S.%f%z''),
       (''YYYY/MM/DDTHH:mm:ss.SSZ'', ''%Y/%m/%dT%H:%M:%S.%f%z''),
       (''YYYY/MM/DDTHH:mm:ss.SZ'', ''%Y/%m/%dT%H:%M:%S.%f%z''),
       (''YYYY/MM/DDTHH:mm:ss.SSS'', ''%Y/%m/%dT%H:%M:%S.%f''),
       (''YYYY/MM/DDTHH:mm:ss.SS'', ''%Y/%m/%dT%H:%M:%S.%f''),
       (''YYYY/MM/DDTHH:mm:ss.S'', ''%Y/%m/%dT%H:%M:%S.%f''),
       (''YYYY/MM/DDTHH:mm:ssZ'', ''%Y/%m/%dT%H:%M:%S%z''), (''YYYY/MM/DDTHH:mm:ss'', ''%Y/%m/%dT%H:%M:%S''),
       (''YYYY/MM/DDTHH:mmZ'', ''%Y/%m/%dT%H:%M%z''), (''YYYY/MM/DDTHH:mm'', ''%Y/%m/%dT%H:%M''),
       (''YYYY/MM/DDTHHZ'', ''%Y/%m/%dT%H%z''), (''YYYY/MM/DDTHH'', ''%Y/%m/%dT%H'')]),
    (''ISO 8601 no T'',
     [(''YYYY-MM-DD HH:mm:ss.SSSZ'', ''%Y-%m-%d %H:%M:%S.%f%z''),
       (''YYYY-MM-DD HH:mm:ss.SSZ'', ''%Y-%m-%d %H:%M:%S.%f%z''),
       (''YYYY-MM-DD HH:mm:ss.SZ'', ''%Y-%m-%d %H:%M:%S.%f%z''),
       (''YYYY-MM-DD HH:mm:ss.SSS'', ''%Y-%m-%d %H:%M:%S.%f''),
       (''YYYY-MM-DD HH:mm:ss.SS'', ''%Y-%m-%d %H:%M:%S.%f''),
       (''YYYY-MM-DD HH:mm:ss.S'', ''%Y-%m-%d %H:%M:%S.%f''),
       (''YYYY-MM-DD HH:mm:ssZ'', ''%Y-%m-%d %H:%M:%S%z''), (''YYYY-MM-DD HH:mm:ss'', ''%Y-%m-%d %H:%M:%S''),
       (''YYYY-MM-DD HH:mmZ'', ''%Y-%m-%d %H:%M%z''), (''YYYY-MM-DD HH:mm'', ''%Y-%m-%d %H:%M''),
       (''YYYY-MM-DD HHZ'', ''%Y-%m-%d %H%z''), (''YYYY-MM-DD HH'', ''%Y-%m-%d %H''),
       (''YYYY-MM-DD'', ''%Y-%m-%d'')]),
    (''Variation of ISO 8601 no T'',
     [(''YYYY/MM/DD HH:mm:ss.SSSZ'', ''%Y/%m/%d %H:%M:%S.%f%z''),
       (''YYYY/MM/DD HH:mm:ss.SSZ'', ''%Y/%m/%d %H:%M:%S.%f%z''),
       (''YYYY/MM/DD HH:mm:ss.SZ'', ''%Y/%m/%d %H:%M:%S.%f%z''),
       (''YYYY/MM/DD HH:mm:ss.SSS'', ''%Y/%m/%d %H:%M:%S.%f''),
       (''YYYY/MM/DD HH:mm:ss.SS'', ''%Y/%m/%d %H:%M:%S.%f''),
       (''YYYY/MM/DD HH:mm:ss.S'', ''%Y/%m/%d %H:%M:%S.%f''),
       (''YYYY/MM/DD HH:mm:ssZ'', ''%Y/%m/%d %H:%M:%S%z''), (''YYYY/MM/DD HH:mm:ss'', ''%Y/%m/%d %H:%M:%S''),
       (''YYYY/MM/DD HH:mmZ'', ''%Y/%m/%d %H:%M%z''), (''YYYY/MM/DD HH:mm'', ''%Y/%m/%d %H:%M''),
       (''YYYY/MM/DD HHZ'', ''%Y/%m/%d %H%z''), (''YYYY/MM/DD HH'', ''%Y/%m/%d %H''),
       (''YYYY/MM/DD'', ''%Y/%m/%d'')]),
    (''US Date, 12h AM/PM time'',
     [(''MM-DD-YYYY hh:mm:ss.SSS A'', ''%m-%d-%Y %I:%M:%S.%f %p''),
       (''MM-DD-YYYY hh:mm:ss.SS A'', ''%m-%d-%Y %I:%M:%S.%f %p''),
       (''MM-DD-YYYY hh:mm:ss.S A'', ''%m-%d-%Y %I:%M:%S.%f %p''),
       (''MM-DD-YYYY hh:mm:ss A'', ''%m-%d-%Y %I:%M:%S %p''), (''MM-DD-YYYY hh:mm A'', ''%m-%d-%Y %I:%M %p''),
       (''MM/DD/YYYY hh:mm:ss.SSS A'', ''%m/%d/%Y %I:%M:%S.%f %p''),
       (''MM/DD/YYYY hh:mm:ss.SS A'', ''%m/%d/%Y %I:%M:%S.%f %p''),
       (''MM/DD/YYYY hh:mm:ss.S A'', ''%m/%d/%Y %I:%M:%S.%f %p''),
       (''MM/DD/YYYY hh:mm:ss A'', ''%m/%d/%Y %I:%M:%S %p''), (''MM/DD/YYYY hh:mm A'', ''%m/%d/%Y %I:%M %p'')]),
    (''US Date, 24h time'',
     [(''MM-DD-YYYY HH:mm:ss.SSS'', ''%m-%d-%Y %H:%M:%S.%f''),
       (''MM-DD-YYYY HH:mm:ss.SS'', ''%m-%d-%Y %H:%M:%S.%f''),
       (''MM-DD-YYYY HH:mm:ss.S'', ''%m-%d-%Y %H:%M:%S.%f''), (''MM-DD-YYYY HH:mm:ss'', ''%m-%d-%Y %H:%M:%S''),
       (''MM-DD-YYYY HH:mm'', ''%m-%d-%Y %H:%M''), (''MM/DD/YYYY HH:mm:ss.SSS'', ''%m/%d/%Y %H:%M:%S.%f''),
       (''MM/DD/YYYY HH:mm:ss.SS'', ''%m/%d/%Y %H:%M:%S.%f''),
       (''MM/DD/YYYY HH:mm:ss.S'', ''%m/%d/%Y %H:%M:%S.%f''), (''MM/DD/YYYY HH:mm:ss'', ''%m/%d/%Y %H:%M:%S''),
       (''MM/DD/YYYY HH:mm'', ''%m/%d/%Y %H:%M'')]),
    (''US Date, no time'',
     [(''MM-DD-YYYY'', ''%m-%d-%Y''), (''MM-DD-YY'', ''%m-%d-%y''), (''MM/DD/YYYY'', ''%m/%d/%Y''),
       (''MM/DD/YY'', ''%m/%d/%y'')]),
    (''US Date, time (excel default on OSX)'',
     [(''MM/DD/YY H:mm'', ''%m/%d/%y %H:%M''), (''MM/DD/YY H:mm:SS'', ''%m/%d/%y %H:%M:%S''),
       (''MM/DD/YY HH:mm'', ''%m/%d/%y %H:%M''), (''MM/DD/YY HH:mm:SS'', ''%m/%d/%y %H:%M:%S''),
       (''MM/DD/YY H'', ''%m/%d/%y %H''), (''MM/DD/YY HH'', ''%m/%d/%y %H''),
       (''MM/D/YY H:mm'', ''%m/%d/%y %H:%M''), (''MM/D/YY H:mm:SS'', ''%m/%d/%y %H:%M:%S''),
       (''MM/D/YY HH:mm'', ''%m/%d/%y %H:%M''), (''MM/D/YY HH:mm:SS'', ''%m/%d/%y %H:%M:%S''),
       (''MM/D/YY H'', ''%m/%d/%y %H''), (''MM/D/YY HH'', ''%m/%d/%y %H''), (''MM/D/YY'', ''%m/%d/%y''),
       (''M/DD/YY H:mm'', ''%m/%d/%y %H:%M''), (''M/DD/YY H:mm:SS'', ''%m/%d/%y %H:%M:%S''),
       (''M/DD/YY HH:mm'', ''%m/%d/%y %H:%M''), (''M/DD/YY HH:mm:SS'', ''%m/%d/%y %H:%M:%S''),
       (''M/DD/YY H'', ''%m/%d/%y %H''), (''M/DD/YY HH'', ''%m/%d/%y %H''), (''M/DD/YY'', ''%m/%d/%y''),
       (''M/D/YY H:mm'', ''%m/%d/%y %H:%M''), (''M/D/YY H:mm:SS'', ''%m/%d/%y %H:%M:%S''),
       (''M/D/YY HH:mm'', ''%m/%d/%y %H:%M''), (''M/D/YY HH:mm:SS'', ''%m/%d/%y %H:%M:%S''),
       (''M/D/YY H'', ''%m/%d/%y %H''), (''M/D/YY HH'', ''%m/%d/%y %H''), (''M/D/YY'', ''%m/%d/%y'')]),
    (''US Date, time (excel default on Windows)'',
     [(''MM/DD/YYYY H:mm'', ''%m/%d/%Y %H:%M''), (''MM/DD/YYYY H:mm:SS'', ''%m/%d/%Y %H:%M:%S''),
       (''MM/DD/YYYY HH:mm'', ''%m/%d/%Y %H:%M''), (''MM/DD/YYYY HH:mm:SS'', ''%m/%d/%Y %H:%M:%S''),
       (''MM/DD/YYYY H'', ''%m/%d/%Y %H''), (''MM/DD/YYYY HH'', ''%m/%d/%Y %H''),
       (''MM/D/YYYY H:mm'', ''%m/%d/%Y %H:%M''), (''MM/D/YYYY H:mm:SS'', ''%m/%d/%Y %H:%M:%S''),
       (''MM/D/YYYY HH:mm'', ''%m/%d/%Y %H:%M''), (''MM/D/YYYY HH:mm:SS'', ''%m/%d/%Y %H:%M:%S''),
       (''MM/D/YYYY H'', ''%m/%d/%Y %H''), (''MM/D/YYYY HH'', ''%m/%d/%Y %H''), (''MM/D/YYYY'', ''%m/%d/%Y''),
       (''M/DD/YYYY H:mm'', ''%m/%d/%Y %H:%M''), (''M/DD/YYYY H:mm:SS'', ''%m/%d/%Y %H:%M:%S''),
       (''M/DD/YYYY HH:mm'', ''%m/%d/%Y %H:%M''), (''M/DD/YYYY HH:mm:SS'', ''%m/%d/%Y %H:%M:%S''),
       (''M/DD/YYYY H'', ''%m/%d/%Y %H''), (''M/DD/YYYY HH'', ''%m/%d/%Y %H''), (''M/DD/YYYY'', ''%m/%d/%Y''),
       (''M/D/YYYY H:mm'', ''%m/%d/%Y %H:%M''), (''M/D/YYYY H:mm:SS'', ''%m/%d/%Y %H:%M:%S''),
       (''M/D/YYYY HH:mm'', ''%m/%d/%Y %H:%M''), (''M/D/YYYY HH:mm:SS'', ''%m/%d/%Y %H:%M:%S''),
       (''M/D/YYYY H'', ''%m/%d/%Y %H''), (''M/D/YYYY HH'', ''%m/%d/%Y %H''), (''M/D/YYYY'', ''%m/%d/%Y'')])]"

text \<open>\<open>reduce((prev, cur) => Object.assign(prev, cur.mappings), {})\<close>\<close>

definition assign_formats :: "(string, string) omap \<Rightarrow> (string \<times> string) list \<Rightarrow> (string, string) omap" where
  "assign_formats prev mappings = fold (\<lambda>(k, v). om_set k v) mappings prev"

definition COMPOUND_TIMESTAMP_FORMAT_PY_MAPPINGS :: "(string, string) omap" where
  "COMPOUND_TIMESTAMP_FORMAT_PY_MAPPINGS = fold (\<lambda>cur prev. assign_formats prev (snd cur)) MOMENT_TO_STRPTIME []"

definition UNIX_TIMESTAMP_SEC_BACKEND_FORMAT :: string where
  "UNIX_TIMESTAMP_SEC_BACKEND_FORMAT = ''#T''"

definition UNIX_TIMESTAMP_MILLISEC_BACKEND_FORMAT :: string where
  "UNIX_TIMESTAMP_MILLISEC_BACKEND_FORMAT = ''#t''"

definition ALL_TIMESTAMP_FORMAT_PY_MAPPINGS :: "(string, string) omap" where
  "ALL_TIMESTAMP_FORMAT_PY_MAPPINGS = assign_formats (assign_formats [] COMPOUND_TIMESTAMP_FORMAT_PY_MAPPINGS)
     [(UNIX_TIMESTAMP_SEC_MOMENT_FORMAT, UNIX_TIMESTAMP_SEC_BACKEND_FORMAT),
      (UNIX_TIMESTAMP_MILLISEC_MOMENT_FORMAT, UNIX_TIMESTAMP_MILLISEC_BACKEND_FORMAT)]"

section \<open>What the tokens mean\<close>

text \<open>Tokens of moment.js as documented (a run of one letter), and the directive of \<open>strptime\<close> for the
  same part of a time. In moment.js \<open>S\<close> is a digit of the fraction of a second.\<close>

definition token :: "string \<Rightarrow> string" where
  "token w = (case w of [] \<Rightarrow> [] | c # cs \<Rightarrow>
     if c = CHR ''Y'' then (if length cs = 3 then ''%Y'' else ''%y'')
     else if c = CHR ''M'' then ''%m''
     else if c = CHR ''D'' then ''%d''
     else if c = CHR ''H'' then ''%H''
     else if c = CHR ''h'' then ''%I''
     else if c = CHR ''m'' then ''%M''
     else if c = CHR ''s'' then ''%S''
     else if c = CHR ''S'' then ''%f''
     else if c = CHR ''A'' then ''%p''
     else if c = CHR ''Z'' then ''%z'' else w)"

fun runs :: "string \<Rightarrow> string list" where
  "runs [] = []"
| "runs (c # s) = (case runs s of
       [] \<Rightarrow> [[c]]
     | w # ws \<Rightarrow> if hd w = c then (c # w) # ws else [c] # w # ws)"

definition translate :: "string \<Rightarrow> string" where
  "translate s = concat (map token (runs s))"

definition seconds_as_fraction :: "string \<Rightarrow> bool" where
  "seconds_as_fraction f = (take 4 (rev f) = ''SS:m'')"

text \<open>The directive of the last token is the one for whole seconds.\<close>

definition whole_seconds :: "string \<Rightarrow> string" where
  "whole_seconds f = butlast (translate f) @ ''S''"

definition entry_ok :: "string \<times> string \<Rightarrow> bool" where
  "entry_ok p = (snd p = (if seconds_as_fraction (fst p) then whole_seconds (fst p) else translate (fst p)))"

lemma entries_ok: "list_all (\<lambda>c. list_all entry_ok (snd c)) MOMENT_TO_STRPTIME"
  by code_simp

text \<open>One format is listed twice.\<close>

definition table_formats :: "string list" where
  "table_formats = map fst (concat (map snd MOMENT_TO_STRPTIME))"

lemma table_formats_eq: "take 103 table_formats @ drop (Suc 103) table_formats = COMPOUND_TIMESTAMP_FORMATS"
  by code_simp

lemma table_duplicate: "length table_formats = 128 \<and> table_formats ! 103 = take 103 table_formats ! 69"
  by code_simp

lemma table_keys: "set table_formats = set COMPOUND_TIMESTAMP_FORMATS"
proof -
  have "take 103 table_formats ! 69 \<in> set (take 103 table_formats)" using table_duplicate by (intro nth_mem) simp
  then have "set (take 103 table_formats @ table_formats ! 103 # drop (Suc 103) table_formats)
      = set (take 103 table_formats @ drop (Suc 103) table_formats)"
    using table_duplicate by auto
  moreover have "table_formats = take 103 table_formats @ table_formats ! 103 # drop (Suc 103) table_formats"
    using table_duplicate by (intro id_take_nth_drop) simp
  ultimately show ?thesis by (simp only: table_formats_eq)
qed

section \<open>Lookups\<close>

lemma set_assign: "set (assign_formats m ps) \<subseteq> set ps \<union> set m"
proof (induction ps arbitrary: m)
  case (Cons p ps)
  have "set (om_set (fst p) (snd p) m) \<subseteq> insert p (set m)"
    by (induction m) auto
  then show ?case using Cons [of "om_set (fst p) (snd p) m"] by (auto simp: assign_formats_def case_prod_beta)
qed (simp add: assign_formats_def)

lemma keys_assign: "fst ` set (assign_formats m ps) = fst ` set ps \<union> fst ` set m"
  by (induction ps arbitrary: m) (auto simp: assign_formats_def case_prod_beta dom_update)

lemma compound_set:
  "set (fold (\<lambda>cur prev. assign_formats prev (snd cur)) cs m) \<subseteq> set (concat (map snd cs)) \<union> set m"
proof (induction cs arbitrary: m)
  case (Cons c cs)
  then show ?case using set_assign [of m "snd c"] by fastforce
qed simp

lemma compound_fst:
  "fst ` set (fold (\<lambda>cur prev. assign_formats prev (snd cur)) cs m) = fst ` set (concat (map snd cs)) \<union> fst ` set m"
  by (induction cs arbitrary: m) (auto simp: keys_assign)

lemma compound_lookup:
  assumes "f \<in> set COMPOUND_TIMESTAMP_FORMATS"
  shows "\<exists>p. (f, p) \<in> set COMPOUND_TIMESTAMP_FORMAT_PY_MAPPINGS"
proof -
  have "f \<in> fst ` set (concat (map snd MOMENT_TO_STRPTIME))" using assms table_keys by (simp add: table_formats_def)
  then show ?thesis
    using compound_fst [of MOMENT_TO_STRPTIME "[]"] unfolding COMPOUND_TIMESTAMP_FORMAT_PY_MAPPINGS_def by force
qed

lemma entry_okI: "p \<in> set (concat (map snd MOMENT_TO_STRPTIME)) \<Longrightarrow> entry_ok p"
  using entries_ok by (auto simp: list_all_iff)

lemma backend_lookup:
  assumes "f \<in> set COMPOUND_TIMESTAMP_FORMATS" and "f \<noteq> UNIX_TIMESTAMP_SEC_MOMENT_FORMAT" and "f \<noteq> UNIX_TIMESTAMP_MILLISEC_MOMENT_FORMAT"
  shows "om_get ALL_TIMESTAMP_FORMAT_PY_MAPPINGS f = Some (if seconds_as_fraction f then whole_seconds f else translate f)"
proof -
  let ?C = "COMPOUND_TIMESTAMP_FORMAT_PY_MAPPINGS" and ?U = "[(UNIX_TIMESTAMP_SEC_MOMENT_FORMAT, UNIX_TIMESTAMP_SEC_BACKEND_FORMAT),
      (UNIX_TIMESTAMP_MILLISEC_MOMENT_FORMAT, UNIX_TIMESTAMP_MILLISEC_BACKEND_FORMAT)]"
  have sub: "set ALL_TIMESTAMP_FORMAT_PY_MAPPINGS \<subseteq> set ?U \<union> set ?C"
    unfolding ALL_TIMESTAMP_FORMAT_PY_MAPPINGS_def
    using set_assign [of "assign_formats [] ?C" ?U] set_assign [of "[]" ?C] by auto
  have keys: "fst ` set ALL_TIMESTAMP_FORMAT_PY_MAPPINGS = fst ` set ?U \<union> fst ` set ?C"
    unfolding ALL_TIMESTAMP_FORMAT_PY_MAPPINGS_def by (simp only: keys_assign set_empty image_empty) auto
  obtain q where "(f, q) \<in> set ?C" using compound_lookup [OF assms(1)] by blast
  then have "f \<in> fst ` set ALL_TIMESTAMP_FORMAT_PY_MAPPINGS" unfolding keys by force
  then obtain p where p: "om_get ALL_TIMESTAMP_FORMAT_PY_MAPPINGS f = Some p"
    by (metis map_of_eq_None_iff not_None_eq set_map)
  then have "(f, p) \<in> set ?U \<union> set ?C" using sub by (auto dest: map_of_SomeD)
  then have "(f, p) \<in> set ?C" using assms(2,3) by auto
  then have "(f, p) \<in> set (concat (map snd MOMENT_TO_STRPTIME))"
    using compound_set [of MOMENT_TO_STRPTIME "[]"] unfolding COMPOUND_TIMESTAMP_FORMAT_PY_MAPPINGS_def by auto
  then have "entry_ok (f, p)" by (rule entry_okI)
  then show ?thesis using p by (auto simp: entry_ok_def)
qed

text \<open>C18: every format in which the file service can read a column of times has a format for the model runner that
  names the same parts of the time in the same order, except for the 16 formats that end in
  minutes and \<open>SS\<close>: the browser reads these digits as a fraction of a second, the model runner
  as seconds.\<close>

theorem backend_formats:
  "(\<forall>f\<in>set COMPOUND_TIMESTAMP_FORMATS. om_get ALL_TIMESTAMP_FORMAT_PY_MAPPINGS f
      = Some (if seconds_as_fraction f then whole_seconds f else translate f))
    \<and> length (filter seconds_as_fraction COMPOUND_TIMESTAMP_FORMATS) = 16"
proof
  have no: "UNIX_TIMESTAMP_SEC_MOMENT_FORMAT \<notin> set COMPOUND_TIMESTAMP_FORMATS"
    "UNIX_TIMESTAMP_MILLISEC_MOMENT_FORMAT \<notin> set COMPOUND_TIMESTAMP_FORMATS"
    by code_simp+
  show "\<forall>f\<in>set COMPOUND_TIMESTAMP_FORMATS. om_get ALL_TIMESTAMP_FORMAT_PY_MAPPINGS f
      = Some (if seconds_as_fraction f then whole_seconds f else translate f)"
    using backend_lookup no by blast
  show "length (filter seconds_as_fraction COMPOUND_TIMESTAMP_FORMATS) = 16" by code_simp
qed

text \<open>The format for \<open>1/31/15 9:05:30\<close>.\<close>

theorem backend_formats_witness:
  "om_get ALL_TIMESTAMP_FORMAT_PY_MAPPINGS ''M/DD/YY H:mm:SS'' = Some ''%m/%d/%y %H:%M:%S''
    \<and> translate ''M/DD/YY H:mm:SS'' = ''%m/%d/%y %H:%M:%f''"
proof -
  have "list_ex (\<lambda>f. f = ''M/DD/YY H:mm:SS'') COMPOUND_TIMESTAMP_FORMATS" by code_simp
  then have "''M/DD/YY H:mm:SS'' \<in> set COMPOUND_TIMESTAMP_FORMATS" by (auto simp: list_ex_iff)
  with backend_formats have "om_get ALL_TIMESTAMP_FORMAT_PY_MAPPINGS ''M/DD/YY H:mm:SS''
      = Some (if seconds_as_fraction ''M/DD/YY H:mm:SS'' then whole_seconds ''M/DD/YY H:mm:SS'' else translate ''M/DD/YY H:mm:SS'')"
    by blast
  moreover have "seconds_as_fraction ''M/DD/YY H:mm:SS''" "whole_seconds ''M/DD/YY H:mm:SS'' = ''%m/%d/%y %H:%M:%S''"
    "translate ''M/DD/YY H:mm:SS'' = ''%m/%d/%y %H:%M:%f''"
    by code_simp+
  ultimately show ?thesis by simp
qed

end
