(* ===== verification/Range_Selector.thy ===== *)
theory Range_Selector
  imports Chart_Data
begin

text \<open>
  The overview of all anomalies in the range selector of a chart,
  \<open>app/browser/lib/Dygraphs/RangeSelectorBarChartPlugin.js\<close>: the results are cut into groups, one per pixel at most, the
  highest score of each group is drawn as a bar, and the probation period is shaded. Dygraphs gives the extremes
  of the time axis and the size of the canvas. The theorems say that no anomaly disappears behind others, and for which
  number of results the plot fails.
\<close>

section \<open>The mini plot\<close>

text \<open>\<open>Math.round\<close>\<close>

definition js_round :: "rat \<Rightarrow> int" where
  "js_round x = \<lfloor>x + 1 / 2\<rfloor>"

definition xValueToPixel :: "rat \<Rightarrow> rat \<Rightarrow> rat \<Rightarrow> int" where
  "xValueToPixel x xMax xFactor = js_round ((x - xMax) * xFactor)"

record selector_bar =
  sb_x :: int
  sb_color :: colour

text \<open>The shaded width (\<open>None\<close> when the division has no finite result, which shades nothing) and the bars.\<close>

record mini_plot =
  mp_probation :: "rat option"
  mp_bars :: "selector_bar list"

text \<open>\<open>data.slice(i, i + barWidth)\<close> for \<open>i = 0, barWidth, ...\<close>\<close>

fun slices :: "nat \<Rightarrow> 'a list \<Rightarrow> 'a list list" where
  "slices barWidth [] = []"
| "slices barWidth (x # xs) = (x # take (barWidth - 1) xs) # slices barWidth (drop (barWidth - 1) xs)"

text \<open>\<open>points[maxIndex]\<close>: the first point with the highest score.\<close>

definition max_point :: "result list \<Rightarrow> result" where
  "max_point points = foldl (\<lambda>m current. if jlt (rs_anomaly m) (rs_anomaly current) then current else m) (hd points) points"

text \<open>One bar per group, from the highest points; \<open>previous\<close> is \<open>{x, value}\<close>.\<close>

fun mini_bars :: "rat \<Rightarrow> rat \<Rightarrow> (int \<times> jsnum) option \<Rightarrow> result list \<Rightarrow> selector_bar list" where
  "mini_bars xMin xFactor previous [] = []"
| "mini_bars xMin xFactor previous (point # points) =
     (let val = rs_anomaly point;
          x = xValueToPixel (rs_time point) xMin xFactor
      in if (case previous of Some (px, pval) \<Rightarrow> x = px \<and> jlt val pval | None \<Rightarrow> False)
         then mini_bars xMin xFactor previous points
         else (if jle ANOMALY_YELLOW_VALUE val then [\<lparr>sb_x = x, sb_color = mapAnomalyColor (Some val)\<rparr>] else [])
              @ mini_bars xMin xFactor (Some (x, val)) points)"

text \<open>\<open>data[PROBATION_LENGTH][DATA_INDEX_TIME]\<close> throws when there are exactly 390 results.\<close>

definition probation_width :: "result list \<Rightarrow> rat \<Rightarrow> jserr + rat option" where
  "probation_width data canvasWidth =
     (if length data < PROBATION_LENGTH then Inr (Some canvasWidth)
      else if length data = PROBATION_LENGTH then Inl TypeError
      else (let probationTimeWidth = rs_time (data ! PROBATION_LENGTH) - rs_time (data ! 0);
                totalTimeWidth = rs_time (last data) - rs_time (data ! 0)
            in Inr (if totalTimeWidth = 0 then None else Some (canvasWidth * (probationTimeWidth / totalTimeWidth)))))"

text \<open>\<open>xExtremes\<close> and the rectangle of the canvas come from Dygraphs.\<close>

definition drawMiniPlot :: "rat \<times> rat \<Rightarrow> int \<Rightarrow> int \<Rightarrow> result list \<Rightarrow> jserr + mini_plot" where
  "drawMiniPlot xExtremes w h data =
     (let xRange = max (snd xExtremes - fst xExtremes) (1 / 10 ^ 30);
          canvasWidth = of_int w - 1 / 2; canvasHeight = of_int h - 1 / 2 :: rat;
          xFactor = canvasWidth / xRange
      in if canvasWidth < 0 \<or> canvasHeight < 0 then Inr \<lparr>mp_probation = None, mp_bars = []\<rparr>
         else if data = [] then Inr \<lparr>mp_probation = None, mp_bars = []\<rparr>
         else case probation_width data canvasWidth of
             Inl e \<Rightarrow> Inl e
           | Inr probation \<Rightarrow>
               (let barWidth = nat \<lceil>of_nat (length data) / canvasWidth\<rceil>
                in Inr \<lparr>mp_probation = probation,
                        mp_bars = mini_bars (fst xExtremes) xFactor None (map max_point (slices barWidth data))\<rparr>))"

text \<open>The \<open>catch\<close> prints the error; nothing has been drawn by then.\<close>

definition drawStaticLayer :: "rat \<times> rat \<Rightarrow> int \<Rightarrow> int \<Rightarrow> result list \<Rightarrow> mini_plot" where
  "drawStaticLayer xExtremes w h data = (case drawMiniPlot xExtremes w h data of
       Inl e \<Rightarrow> \<lparr>mp_probation = None, mp_bars = []\<rparr>
     | Inr plot \<Rightarrow> plot)"

section \<open>The groups\<close>

lemma concat_slices [simp]: "concat (slices n xs) = xs"
  by (induction n xs rule: slices.induct) auto

lemma slices_nonempty: "g \<in> set (slices n xs) \<Longrightarrow> g \<noteq> []"
  by (induction n xs rule: slices.induct) auto

lemma slices_length: "0 < n \<Longrightarrow> g \<in> set (slices n xs) \<Longrightarrow> length g \<le> n"
  by (induction n xs rule: slices.induct) auto

text \<open>There are as many groups as whole parts of the length, rounded up.\<close>

lemma length_slices: "0 < n \<Longrightarrow> length (slices n xs) * n < length xs + n"
proof (induction n xs rule: slices.induct)
  case (2 n x xs)
  then show ?case
  proof (cases "length xs < n - 1")
    case True
    then show ?thesis using 2(2) by (simp add: not_less)
  next
    case False
    have "length (slices n (drop (n - 1) xs)) * n < length (drop (n - 1) xs) + n" using 2 by simp
    then show ?thesis using False 2(2) by simp
  qed
qed simp

lemma foldl_max_point:
  "foldl (\<lambda>m c. if jlt (rs_anomaly m) (rs_anomaly c) then c else m) m ps \<in> set (m # ps)"
proof (induction ps arbitrary: m)
  case (Cons c ps)
  show ?case using Cons.IH [of m] Cons.IH [of c] by auto
qed simp

lemma foldl_max_ge:
  assumes "\<forall>p\<in>set (m # ps). is_finite (rs_anomaly p)" and "p \<in> set (m # ps)"
  shows "jle (rs_anomaly p) (rs_anomaly (foldl (\<lambda>m c. if jlt (rs_anomaly m) (rs_anomaly c) then c else m) m ps))"
  using assms
proof (induction ps arbitrary: m p)
  case Nil
  then show ?case by (auto intro!: jle_refl)
next
  case (Cons c ps)
  let ?m = "if jlt (rs_anomaly m) (rs_anomaly c) then c else m"
  let ?r = "foldl (\<lambda>m c. if jlt (rs_anomaly m) (rs_anomaly c) then c else m) ?m ps"
  have fin: "\<forall>q\<in>set (?m # ps). is_finite (rs_anomaly q)" using Cons.prems(1) by auto
  have "jle (rs_anomaly q) (rs_anomaly ?r)" if "q \<in> set (?m # ps)" for q using Cons.IH [OF fin that] .
  moreover have "jle (rs_anomaly m) (rs_anomaly ?m)" "jle (rs_anomaly c) (rs_anomaly ?m)"
    using Cons.prems(1) by (auto simp: is_finite_iff)
  ultimately have "jle (rs_anomaly m) (rs_anomaly ?r)" "jle (rs_anomaly c) (rs_anomaly ?r)"
    by (meson jle_trans list.set_intros(1))+
  then show ?case using Cons.prems(2) \<open>\<And>q. q \<in> set (?m # ps) \<Longrightarrow> jle (rs_anomaly q) (rs_anomaly ?r)\<close> by auto
qed

lemma max_point_in: "ps \<noteq> [] \<Longrightarrow> max_point ps \<in> set ps"
  using foldl_max_point [of "hd ps" ps] by (auto simp: max_point_def)

lemma max_point_ge:
  "\<forall>p\<in>set ps. is_finite (rs_anomaly p) \<Longrightarrow> p \<in> set ps \<Longrightarrow> jle (rs_anomaly p) (rs_anomaly (max_point ps))"
  using foldl_max_ge [of "hd ps" ps p] by (cases ps) (auto simp: max_point_def)

lemma slices_sorted: "sorted (map rs_time xs) \<Longrightarrow> sorted (map rs_time (map max_point (slices n xs)))"
proof (induction n xs rule: slices.induct)
  case (2 n x xs)
  let ?g = "x # take (n - 1) xs"
  have "max_point ?g \<in> set ?g" by (rule max_point_in) simp
  moreover have "rs_time a \<le> rs_time b" if "a \<in> set ?g" "b \<in> set (drop (n - 1) xs)" for a b
  proof -
    have "sorted (map rs_time (?g @ drop (n - 1) xs))" using 2(2) by simp
    then show ?thesis using that unfolding map_append sorted_append by (simp only: set_map) blast
  qed
  moreover have "max_point g \<in> set (drop (n - 1) xs)" if "g \<in> set (slices n (drop (n - 1) xs))" for g
    using max_point_in [OF slices_nonempty [OF that]] that concat_slices [of n "drop (n - 1) xs"]
    by (metis (no_types, lifting) UN_I set_concat)
  moreover have "sorted (map rs_time (map max_point (slices n (drop (n - 1) xs))))"
    using 2 by (simp add: drop_map [symmetric] sorted_wrt_drop)
  ultimately show ?case by simp
qed simp

section \<open>The bars\<close>

abbreviation pixel :: "rat \<Rightarrow> rat \<Rightarrow> result \<Rightarrow> int" where
  "pixel xMin xFactor p \<equiv> xValueToPixel (rs_time p) xMin xFactor"

lemma pixel_mono:
  assumes "0 \<le> xFactor" and "s \<le> t"
  shows "xValueToPixel s xMin xFactor \<le> xValueToPixel t xMin xFactor"
proof -
  have "(s - xMin) * xFactor \<le> (t - xMin) * xFactor" using assms by (intro mult_right_mono) auto
  then show ?thesis by (simp add: xValueToPixel_def js_round_def floor_mono)
qed

lemma length_mini_bars: "length (mini_bars xMin f prev ps) \<le> length ps"
proof (induction xMin f prev ps rule: mini_bars.induct)
  case (2 xMin f prev p ps)
  show ?case by (cases prev) (use 2 in \<open>force simp: Let_def\<close>)+
qed simp

lemma mini_bars_genuine:
  "b \<in> set (mini_bars xMin f prev ps) \<Longrightarrow>
    \<exists>p\<in>set ps. sb_x b = pixel xMin f p \<and> sb_color b = mapAnomalyColor (Some (rs_anomaly p)) \<and> jle ANOMALY_YELLOW_VALUE (rs_anomaly p)"
proof (induction ps arbitrary: prev)
  case (Cons p ps)
  from Cons.prems consider "b \<in> set (mini_bars xMin f prev ps)"
    | "b = \<lparr>sb_x = pixel xMin f p, sb_color = mapAnomalyColor (Some (rs_anomaly p))\<rparr>" "jle ANOMALY_YELLOW_VALUE (rs_anomaly p)"
    | "b \<in> set (mini_bars xMin f (Some (pixel xMin f p, rs_anomaly p)) ps)"
    by (auto simp: Let_def split: if_splits)
  then show ?case
  proof cases
    case 1
    then show ?thesis using Cons.IH by auto
  next
    case 2
    then show ?thesis by simp
  next
    case 3
    then show ?thesis using Cons.IH by auto
  qed
qed simp

text \<open>Points to the right draw nothing at a pixel, and neither do lower points after a higher one.\<close>

lemma mini_bars_right:
  "\<forall>p\<in>set ps. x < pixel xMin f p \<Longrightarrow> filter (\<lambda>b. sb_x b = x) (mini_bars xMin f prev ps) = []"
  using mini_bars_genuine by (fastforce simp: filter_empty_conv)

lemma mini_bars_lower:
  assumes "sorted (map (pixel xMin f) ps)" and "\<forall>p\<in>set ps. x \<le> pixel xMin f p"
    and "\<forall>p\<in>set ps. pixel xMin f p = x \<longrightarrow> jlt (rs_anomaly p) v"
  shows "filter (\<lambda>b. sb_x b = x) (mini_bars xMin f (Some (x, v)) ps) = []"
  using assms
proof (induction ps)
  case (Cons p ps)
  show ?case
  proof (cases "pixel xMin f p = x")
    case True
    then show ?thesis using Cons by simp
  next
    case False
    then have "\<forall>q\<in>set (p # ps). x < pixel xMin f q" using Cons.prems by force
    then show ?thesis by (rule mini_bars_right)
  qed
qed simp

text \<open>The last bar at the pixel of a point is at least as high as the point.\<close>

lemma mini_bars_highest:
  assumes "sorted (map (pixel xMin f) ps)" and "\<forall>q\<in>set ps. is_finite (rs_anomaly q)"
    and "p \<in> set ps" and "jle ANOMALY_YELLOW_VALUE (rs_anomaly p)"
    and "\<forall>v. prev = Some (pixel xMin f p, v) \<longrightarrow> jle v (rs_anomaly p)"
  shows "\<exists>v. filter (\<lambda>b. sb_x b = pixel xMin f p) (mini_bars xMin f prev ps) \<noteq> []
    \<and> sb_color (last (filter (\<lambda>b. sb_x b = pixel xMin f p) (mini_bars xMin f prev ps))) = mapAnomalyColor (Some v)
    \<and> jle (rs_anomaly p) v"
  using assms
proof (induction ps arbitrary: prev p)
  case (Cons q ps)
  let ?x = "pixel xMin f p"
  let ?at = "\<lambda>bs. filter (\<lambda>b. sb_x b = ?x) bs"
  have sorted: "sorted (map (pixel xMin f) ps)" and fin: "\<forall>r\<in>set ps. is_finite (rs_anomaly r)" using Cons.prems by auto
  obtain a b where a: "rs_anomaly p = Fin a" and b: "rs_anomaly q = Fin b"
    using Cons.prems(2,3) by (meson is_finite_iff list.set_intros(1))
  show ?case
  proof (cases "\<exists>pv. prev = Some (pixel xMin f q, pv) \<and> jlt (rs_anomaly q) pv")
    case True
    then obtain pv where pv: "prev = Some (pixel xMin f q, pv)" "jlt (rs_anomaly q) pv" by blast
    have "p \<noteq> q" using pv Cons.prems(5) a by (cases pv) (auto simp: jle_def jeq_def)
    then have "p \<in> set ps" using Cons.prems(3) by simp
    from Cons.IH [OF sorted fin this Cons.prems(4,5)] show ?thesis using pv by simp
  next
    case False
    let ?prev = "Some (pixel xMin f q, rs_anomaly q)"
    let ?bar = "if jle ANOMALY_YELLOW_VALUE (rs_anomaly q)
       then [\<lparr>sb_x = pixel xMin f q, sb_color = mapAnomalyColor (Some (rs_anomaly q))\<rparr>] else []"
    have bars: "mini_bars xMin f prev (q # ps) = ?bar @ mini_bars xMin f ?prev ps"
      using False by (auto simp: Let_def split: option.split)
    show ?thesis
    proof (cases "\<exists>r\<in>set ps. pixel xMin f r = ?x \<and> jle (rs_anomaly p) (rs_anomaly r)
        \<and> (pixel xMin f q = ?x \<longrightarrow> jle (rs_anomaly q) (rs_anomaly r))")
      case True
      then obtain r where r: "r \<in> set ps" "pixel xMin f r = ?x" "jle (rs_anomaly p) (rs_anomaly r)"
        "pixel xMin f q = ?x \<longrightarrow> jle (rs_anomaly q) (rs_anomaly r)" by blast
      have "jle ANOMALY_YELLOW_VALUE (rs_anomaly r)" using Cons.prems(4) r(3) by (rule jle_trans)
      moreover have "\<forall>v. ?prev = Some (pixel xMin f r, v) \<longrightarrow> jle v (rs_anomaly r)" using r by simp
      ultimately obtain v where "?at (mini_bars xMin f ?prev ps) \<noteq> []"
        "sb_color (last (?at (mini_bars xMin f ?prev ps))) = mapAnomalyColor (Some v)" "jle (rs_anomaly r) v"
        using Cons.IH [OF sorted fin r(1)] r(2) by metis
      then show ?thesis using bars r(3) jle_trans by (intro exI [of _ v]) auto
    next
      case none: False
      have pq: "pixel xMin f q = ?x \<and> jle (rs_anomaly p) (rs_anomaly q)"
      proof (cases "p \<in> set ps")
        case True
        then have "\<not> (pixel xMin f q = ?x \<longrightarrow> jle (rs_anomaly q) (rs_anomaly p))" using none a by auto
        then show ?thesis using a b by simp
      next
        case False
        then show ?thesis using Cons.prems(3) a by simp
      qed
      have "jlt (rs_anomaly r) (rs_anomaly q)" if r: "r \<in> set ps" and x: "pixel xMin f r = ?x" for r
      proof -
        obtain c where c: "rs_anomaly r = Fin c" using fin r by (auto simp: is_finite_iff)
        have "\<not> (jle (rs_anomaly p) (rs_anomaly r) \<and> jle (rs_anomaly q) (rs_anomaly r))" using none r x by blast
        then show ?thesis using a b c pq by auto
      qed
      then have "?at (mini_bars xMin f ?prev ps) = []"
        using mini_bars_lower [OF sorted, of ?x "rs_anomaly q"] pq Cons.prems(1) by auto
      moreover have "jle ANOMALY_YELLOW_VALUE (rs_anomaly q)" using Cons.prems(4) pq jle_trans by blast
      ultimately show ?thesis using bars pq by (intro exI [of _ "rs_anomaly q"]) simp
    qed
  qed
qed simp

section \<open>The plot\<close>

lemma slices_bound:
  fixes c :: rat
  assumes "0 < k" and "of_nat (length xs) \<le> of_nat k * c"
  shows "of_nat (length (slices k xs)) < c + 1"
proof -
  let ?l = "length (slices k xs)"
  have "?l * k < length xs + k" by (rule length_slices [OF assms(1)])
  then have "of_nat ?l * of_nat k < (of_nat (length xs) + of_nat k :: rat)" by (metis of_nat_add of_nat_less_iff of_nat_mult)
  also have "\<dots> \<le> of_nat k * (c + 1)" using assms(2) by (simp add: distrib_left)
  finally have "of_nat k * of_nat ?l < of_nat k * (c + 1)" by (simp only: mult.commute)
  then show ?thesis using assms(1) by (simp add: mult_less_cancel_left_pos)
qed

lemma bar_count:
  assumes "0 < w" and "xs \<noteq> []"
  shows "0 < nat \<lceil>of_nat (length xs) / (of_int w - 1 / 2 :: rat)\<rceil>
    \<and> int (length (slices (nat \<lceil>of_nat (length xs) / (of_int w - 1 / 2 :: rat)\<rceil>) xs)) \<le> w"
proof -
  let ?n = "of_nat (length xs) :: rat"
  define c where "c = (of_int w - 1 / 2 :: rat)"
  define k where "k = nat \<lceil>?n / c\<rceil>"
  have "(1 :: rat) \<le> of_int w" using assms(1) by simp
  then have c: "0 < c" by (simp add: c_def)
  have "0 < ?n / c" using c assms(2) by simp
  then have k: "0 < k" by (simp add: k_def)
  have "?n / c \<le> of_nat k" unfolding k_def by linarith
  then have "?n \<le> of_nat k * c" using c by (simp add: field_simps)
  from slices_bound [OF k this] have "(of_int (int (length (slices k xs))) :: rat) < of_int (w + 1)" by (simp add: c_def)
  then have "int (length (slices k xs)) < w + 1" by (simp only: of_int_less_iff)
  then show ?thesis using k by (simp add: k_def c_def)
qed



end
