(* ===== verification/Model_Views.thy ===== *)
theory Model_Views
  imports Create_Dialog Timestamp_Formats Range_Selector
begin

text \<open>
  The card of a model, \<open>app/browser/components/Model.jsx\<close>, the list of the cards (\<open>ModelList.jsx\<close>) and
  the progress of a running model (\<open>ModelProgress.jsx\<close>): what they read from the stores, what
  they render, and what their buttons do. Texts and styles are not modelled; the dialogs of
  Electron are represented by what they return.
\<close>

section \<open>Properties of a card\<close>

record model_props =
  pr_model :: jsobj
  pr_rows :: "jsval list"
  pr_file :: jsobj
  pr_valueField :: "jsobj option"
  pr_timestampField :: "jsobj option"

text \<open>\<open>file.uid\<close> throws when the file is not known.\<close>

definition connect_model :: "string \<Rightarrow> 's app \<Rightarrow> jserr + model_props" where
  "connect_model modelId ap =
     (let model = get_model modelId (ap_models ap)
      in case store_getFile (str_prop model ''filename'') (ap_files ap) of
           None \<Rightarrow> Inl TypeError
         | Some fl \<Rightarrow>
             (let metrics = getMetricsByFileId (str_prop fl ''uid'') (ap_metrics ap)
              in Inr \<lparr>pr_model = model, pr_rows = fst (modelData_getData modelId (ap_modelData ap)), pr_file = fl,
                      pr_valueField = get_metric modelId (ap_metrics ap),
                      pr_timestampField = find (\<lambda>metric. obj_get metric ''type'' = JStr ''date'') metrics\<rparr>))"

section \<open>The summary\<close>

datatype aggregation_message = NotAggregated | AggregatedBy string jsnum jsnum jsnum

datatype pattern_message = NoPatterns | DailyOnly | WeeklyOnly | DailyAndWeekly

record summary =
  su_aggregation :: aggregation_message
  su_patterns :: pattern_message
  su_red :: nat
  su_yellow :: nat

definition anomaly_of :: "jsval \<Rightarrow> jsnum" where
  "anomaly_of row = (case as_arr row of t # v # a # rest \<Rightarrow> as_num a | _ \<Rightarrow> NaN)"

text \<open>One step of the \<open>reduce\<close> over the results.\<close>

definition count_anomaly :: "nat \<times> nat \<Rightarrow> jsval \<Rightarrow> nat \<times> nat" where
  "count_anomaly previous data =
     (let (red, yellow) = previous; anomaly = anomaly_of data
      in if jle ANOMALY_RED_VALUE anomaly then (red + 1, yellow)
         else if jle ANOMALY_YELLOW_VALUE anomaly then (red, yellow + 1) else (red, yellow))"

text \<open>An unknown method of aggregation leaves the message that there is none.\<close>

definition render_summary :: "lodash_env \<Rightarrow> duration_env \<Rightarrow> jsobj \<Rightarrow> jsval list \<Rightarrow> summary" where
  "render_summary L D valueField rows =
     (let encoders = lo_get L (JObj valueField)
            (join_dots [''model_options'', ''modelConfig'', ''modelParams'', ''sensorParams'', ''encoders'']);
          aggOpts = obj_get valueField ''aggregation_options'';
          daily = truthy (lo_get L encoders ''c0_timeOfDay'');
          weekly = truthy (lo_get L encoders ''c0_dayOfWeek'');
          method = (if property aggOpts ''func'' = JStr ''mean'' then Some ''average''
                    else if property aggOpts ''func'' = JStr ''sum'' then Some ''sum'' else None);
          size = property aggOpts ''windowSize'';
          (red, yellow) = foldl count_anomaly (0, 0) rows
      in \<lparr>su_aggregation = (if truthy aggOpts then
              (case method of Some m \<Rightarrow> AggregatedBy m (du_hours D size) (du_minutes D size) (du_seconds D size)
               | None \<Rightarrow> NotAggregated) else NotAggregated),
          su_patterns = (if daily \<and> \<not> weekly then DailyOnly else if \<not> daily \<and> weekly then WeeklyOnly
              else if daily \<and> weekly then DailyAndWeekly else NoPatterns),
          su_red = red, su_yellow = yellow\<rparr>)"

section \<open>The card\<close>

datatype card_modal = DeleteModal string | SummaryModal summary

text \<open>The message of the snackbar with the two texts put into it.\<close>

datatype snackbar = CompletedMessage jsval jsval | ExportedMessage jsval jsval

record model_ui =
  mu_modal :: "card_modal option"
  mu_create :: bool
  mu_showSnackbar :: bool
  mu_snackbar :: "snackbar option"
  mu_showNonAgg :: bool

definition new_model_ui :: model_ui where
  "new_model_ui = \<lparr>mu_modal = None, mu_create = False, mu_showSnackbar = False, mu_snackbar = None, mu_showNonAgg = False\<rparr>"

text \<open>The flag says whether the checkbox for raw data is there.\<close>

datatype card_actions = CreateButton | ProgressBar bool | DoneButtons bool

record card =
  cd_title :: jsval
  cd_subtitle :: jsval
  cd_failed :: bool
  cd_actions :: card_actions
  cd_showNonAgg :: bool

definition error_name :: "jsobj \<Rightarrow> jsobj \<Rightarrow> jsobj" where
  "error_name model fl = (if truthy (obj_get model ''error'')
     then om_set ''name'' (property (obj_get model ''error'') ''message'') fl else fl)"

text \<open>\<open>file.name = model.error.message\<close> changes the object of the file store.\<close>

definition render_card :: "string \<Rightarrow> model_ui \<Rightarrow> 's app \<Rightarrow> (jserr + card) \<times> 's app" where
  "render_card modelId ui ap = (case connect_model modelId ap of
       Inl e \<Rightarrow> (Inl e, ap)
     | Inr props \<Rightarrow>
         (let model = pr_model props;
              aggregated = truthy (obj_get model ''aggregated'');
              fl = error_name model (pr_file props)
          in (Inr \<lparr>cd_title = obj_get model ''metric'', cd_subtitle = obj_get fl ''name'',
                   cd_failed = truthy (obj_get model ''error''),
                   cd_actions = (if truthy (obj_get model ''ran'') then
                      (if truthy (obj_get model ''active'') then ProgressBar aggregated else DoneButtons aggregated)
                      else CreateButton),
                   cd_showNonAgg = (obj_get model ''aggregated'' = JBool True \<and> mu_showNonAgg ui)\<rparr>,
              if truthy (obj_get model ''error'')
              then ap\<lparr>ap_files := om_set (str_prop model ''filename'') fl (ap_files ap)\<rparr> else ap)))"

text \<open>\<open>visibleModelStack\<close> is an array, also when it is empty, so the message for an empty list is
  never rendered.\<close>

definition render_model_list :: "'s app \<Rightarrow> jsval list option" where
  "render_model_list ap =
     (let visibleModelStack = JArr (map JObj (getVisibleModelStack (ap_models ap)))
      in if \<not> truthy visibleModelStack then None
         else Some (map (\<lambda>model. obj_get (as_obj model) ''modelId'') (as_arr visibleModelStack)))"

section \<open>Handlers of the card\<close>

definition dismissModalDialog :: "model_ui \<Rightarrow> model_ui" where
  "dismissModalDialog ui = ui\<lparr>mu_modal := None\<rparr>"

definition deleteModel_click :: "string \<Rightarrow> model_ui \<Rightarrow> model_ui" where
  "deleteModel_click modelId ui = ui\<lparr>mu_modal := Some (DeleteModal modelId)\<rparr>"

definition delete_model_confirmed :: "('s, 'm) app_env \<Rightarrow> string \<Rightarrow> 's app \<times> model_ui \<Rightarrow> 's app \<times> model_ui" where
  "delete_model_confirmed V modelId st =
     (let (ap, ui) = st;
          ap = snd (ChartUpdateViewpoint V modelId JNull ap);
          ap = snd (DeleteModel V modelId ap)
      in (ap, dismissModalDialog ui))"

definition showModelSummaryDialog :: "lodash_env \<Rightarrow> duration_env \<Rightarrow> model_props \<Rightarrow> model_ui \<Rightarrow> jserr + model_ui" where
  "showModelSummaryDialog L D props ui = (case pr_valueField props of
       None \<Rightarrow> Inl TypeError
     | Some valueField \<Rightarrow> Inr (ui\<lparr>mu_modal := Some (SummaryModal (render_summary L D valueField (pr_rows props)))\<rparr>))"

definition toggleNonAggOverlay :: "model_props \<Rightarrow> model_ui \<Rightarrow> model_ui" where
  "toggleNonAggOverlay props ui =
     (if truthy (obj_get (pr_model props) ''aggregated'') then ui\<lparr>mu_showNonAgg := \<not> mu_showNonAgg ui\<rparr> else ui)"

definition showModelSnackbar :: "snackbar \<Rightarrow> model_ui \<Rightarrow> model_ui" where
  "showModelSnackbar message ui = ui\<lparr>mu_showSnackbar := True, mu_snackbar := Some message\<rparr>"

definition dismissSnackbar :: "model_ui \<Rightarrow> model_ui" where
  "dismissSnackbar ui = ui\<lparr>mu_showSnackbar := False\<rparr>"

text \<open>A model that was active and no longer is has completed.\<close>

definition model_willReceiveProps :: "model_props \<Rightarrow> model_props \<Rightarrow> model_ui \<Rightarrow> model_ui" where
  "model_willReceiveProps props nextProps ui =
     (if truthy (obj_get (pr_model props) ''active'') \<and> \<not> truthy (obj_get (pr_model nextProps) ''active'')
      then showModelSnackbar (CompletedMessage (obj_get (pr_file props) ''name'') (obj_get (pr_model props) ''metric'')) ui
      else ui)"


text \<open>\<open>_createModel\<close>: without a metric or a column of times, reading their index throws.\<close>

definition input_opts :: "jsobj \<Rightarrow> jsobj \<Rightarrow> jsobj \<Rightarrow> jsobj" where
  "input_opts fl valueField timestampField =
     [(''csv'', obj_get fl ''filename''), (''rowOffset'', obj_get fl ''rowOffset''),
      (''timestampIndex'', obj_get timestampField ''index''), (''valueIndex'', obj_get valueField ''index''),
      (''datetimeFormat'', case om_get ALL_TIMESTAMP_FORMAT_PY_MAPPINGS (str_prop timestampField ''format'') of
         Some f \<Rightarrow> JStr f | None \<Rightarrow> JUndef)]"

definition openCreateModelDialog :: "('s, 'm) app_env \<Rightarrow> jsobj \<Rightarrow> jsobj \<Rightarrow> 's app \<times> model_ui \<Rightarrow> 's app \<times> model_ui" where
  "openCreateModelDialog V fl valueField st =
     (let (ap, ui) = st
      in (snd (ShowCreateModelDialog V (obj_get fl ''name'') (obj_get valueField ''name'') ap), ui\<lparr>mu_create := True\<rparr>))"

definition createModel_click :: "('s, 'm) app_env \<Rightarrow> model_props \<Rightarrow> 's app \<times> model_ui \<Rightarrow> jserr + 's app \<times> model_ui" where
  "createModel_click V props st = (case (pr_timestampField props, pr_valueField props) of
       (Some timestampField, Some valueField) \<Rightarrow>
         (let inputOpts = input_opts (pr_file props) valueField timestampField;
              (ap, ui) = openCreateModelDialog V (pr_file props) valueField st
          in Inr (snd (StartParamFinder V (str_prop (pr_model props) ''modelId'') (JObj inputOpts) ap), ui))
     | _ \<Rightarrow> Inl TypeError)"

definition dismissCreateModelDialog_card :: "('s, 'm) app_env \<Rightarrow> 's app \<times> model_ui \<Rightarrow> 's app \<times> model_ui" where
  "dismissCreateModelDialog_card V st = (let (ap, ui) = st in (snd (HideCreateModelDialog V ap), ui\<lparr>mu_create := False\<rparr>))"

text \<open>\<open>s.replace(pattern, '')\<close> for a string: the first occurrence goes.\<close>

fun remove_first :: "string \<Rightarrow> string \<Rightarrow> string" where
  "remove_first p [] = []"
| "remove_first p (c # s) = (if take (length p) (c # s) = p then drop (length p) (c # s) else c # remove_first p s)"

definition export_path :: "string \<Rightarrow> string \<Rightarrow> string" where
  "export_path filename metricname =
     ''htm_results_'' @ remove_first ''.csv'' filename @ ''_'' @ metricname @ ''.csv''"

datatype export_box = NoPermission string | ExportFailed jserr

text \<open>\<open>chosen\<close> is the path of the save dialog; \<open>denied\<close> tells errors with the codes for missing
  permission. The export writes to the path and calls back once.\<close>

definition export_callback ::
    "(jserr \<Rightarrow> bool) \<Rightarrow> string \<Rightarrow> jserr option \<Rightarrow> model_props \<Rightarrow> 's app \<times> model_ui \<Rightarrow> 's app \<times> model_ui \<times> export_box option" where
  "export_callback denied chosen error props st = (case (error, st) of
       (Some e, (ap, ui)) \<Rightarrow> (exception ''EXPORT_MODEL_RESULTS_FAILED'' ap, ui,
          Some (if denied e then NoPermission (dirname chosen) else ExportFailed e))
     | (None, (ap, ui)) \<Rightarrow>
          (ap, showModelSnackbar (ExportedMessage (obj_get (pr_file props) ''name'') (obj_get (pr_model props) ''metric'')) ui, None))"

definition exportModelResults ::
    "('s, 'm) app_env \<Rightarrow> (jserr \<Rightarrow> bool) \<Rightarrow> (string \<Rightarrow> jserr option) \<Rightarrow> string option \<Rightarrow> model_props
      \<Rightarrow> 's app \<times> model_ui \<Rightarrow> 's app \<times> model_ui \<times> export_box option" where
  "exportModelResults V denied written chosen props st = (case (chosen, st) of
       (Some path, (ap, ui)) \<Rightarrow>
         if path \<noteq> [] then export_callback denied path (written path) props (event ''EXPORT_MODEL_RESULTS'' ap, ui)
         else (ap, ui, None)
     | (None, (ap, ui)) \<Rightarrow> (ap, ui, None))"

section \<open>Progress\<close>

definition js_round_num :: "jsnum \<Rightarrow> jsnum" where
  "js_round_num x = (case x of Fin q \<Rightarrow> jint (js_round q) | _ \<Rightarrow> x)"

definition model_progress :: "string \<Rightarrow> 's app \<Rightarrow> jsnum" where
  "model_progress modelId ap =
     (let modelTimeRange = modelData_getTimeRange row_time modelId (ap_modelData ap);
          metricTimeRange = metricData_getTimeRange modelId (ap_metricData ap)
      in case (metricTimeRange, modelTimeRange) of
           (Some (metric_from, metric_to), Some (model_from, model_to)) \<Rightarrow>
             js_round_num (jdiv (jmul (Fin 100) (jsub (as_num model_to) (as_num model_from)))
                                (jsub (as_num metric_to) (as_num metric_from)))
         | _ \<Rightarrow> Fin 0)"

text \<open>\<open>shouldComponentUpdate\<close>: \<open>!==\<close> holds for two values that are not numbers.\<close>

definition progress_updates :: "jsnum \<Rightarrow> jsnum \<Rightarrow> bool" where
  "progress_updates current new = (\<not> jeq new current)"

section \<open>A failed model\<close>

lemma connect_some:
  "store_getFile (str_prop (get_model m (ap_models ap)) ''filename'') (ap_files ap) = Some fl \<Longrightarrow>
    \<exists>props. connect_model m ap = Inr props \<and> pr_model props = get_model m (ap_models ap) \<and> pr_file props = fl"
  by (simp add: connect_model_def Let_def)

text \<open>rendering the card of a model with an error puts the message of the error (\<open>undefined\<close> for an error that
  is a string) in the place of the name of its file in the file store: the list of files and
  the cards of the other models of the file show it too, until the file is stored again.\<close>

theorem failed_model_renames_file:
  assumes "store_getFile f (ap_files ap) = Some fl" and "str_prop (get_model m (ap_models ap)) ''filename'' = f"
    and "truthy (obj_get (get_model m (ap_models ap)) ''error'')"
    and "ap' = snd (render_card m ui ap)" and "message = property (obj_get (get_model m (ap_models ap)) ''error'') ''message''"
  shows "store_getFile f (ap_files ap') = Some (om_set ''name'' message fl)
    \<and> (\<forall>g. g \<noteq> f \<longrightarrow> store_getFile g (ap_files ap') = store_getFile g (ap_files ap))
    \<and> (\<forall>n ui'. str_prop (get_model n (ap_models ap)) ''filename'' = f \<and> \<not> truthy (obj_get (get_model n (ap_models ap)) ''error'')
         \<longrightarrow> (\<exists>c. fst (render_card n ui' ap') = Inr c \<and> cd_subtitle c = message \<and> \<not> cd_failed c))"
proof -
  obtain props where props: "connect_model m ap = Inr props" "pr_model props = get_model m (ap_models ap)" "pr_file props = fl"
    using connect_some [of m ap fl] assms(1,2) by auto
  have ap': "ap' = ap\<lparr>ap_files := om_set f (om_set ''name'' message fl) (ap_files ap)\<rparr>"
    using assms(2-5) props by (simp add: render_card_def error_name_def Let_def)
  have kept: "store_getFile g (ap_files ap') = (if g = f then Some (om_set ''name'' message fl) else store_getFile g (ap_files ap))" for g
    by (simp add: ap' store_getFile_def om_get_set)
  have "\<exists>c. fst (render_card n ui' ap') = Inr c \<and> cd_subtitle c = message \<and> \<not> cd_failed c"
    if named: "str_prop (get_model n (ap_models ap)) ''filename'' = f" and fine: "\<not> truthy (obj_get (get_model n (ap_models ap)) ''error'')" for n ui'
  proof -
    have same: "ap_models ap' = ap_models ap" by (simp add: ap')
    obtain props' where "connect_model n ap' = Inr props'" "pr_model props' = get_model n (ap_models ap)"
      "pr_file props' = om_set ''name'' message fl"
      using connect_some [of n ap' "om_set ''name'' message fl"] kept named same by auto
    then show ?thesis using fine by (simp add: render_card_def error_name_def Let_def)
  qed
  then show ?thesis using kept by auto
qed


definition failed_app :: "jsval mem app" where
  "failed_app = mem_app\<lparr>ap_files := [(''a.csv'', [(''name'', JStr ''a'')])],
     ap_models := \<lparr>ms_objs = [[(''filename'', JStr ''a.csv''), (''error'', JStr ''killed'')]], ms_models = [(''m'', 0)], ms_stack = []\<rparr>\<rparr>"

theorem failed_model_renames_file_witness:
  "store_getFile ''a.csv'' (ap_files (snd (render_card ''m'' new_model_ui failed_app))) = Some [(''name'', JUndef)]"
proof -
  have m: "get_model ''m'' (ap_models failed_app) = [(''filename'', JStr ''a.csv''), (''error'', JStr ''killed'')]"
    by (simp add: failed_app_def get_model_def assign_def)
  have "store_getFile ''a.csv'' (ap_files failed_app) = Some [(''name'', JStr ''a'')]"
    by (simp add: failed_app_def store_getFile_def)
  moreover have "str_prop (get_model ''m'' (ap_models failed_app)) ''filename'' = ''a.csv''"
    "truthy (obj_get (get_model ''m'' (ap_models failed_app)) ''error'')"
    "property (obj_get (get_model ''m'' (ap_models failed_app)) ''error'') ''message'' = JUndef"
    by (simp_all add: m str_prop_def obj_get_def property_def as_obj_def)
  ultimately show ?thesis
    using failed_model_renames_file [of "''a.csv''" failed_app "[(''name'', JStr ''a'')]" "''m''", OF _ _ _ refl refl, of new_model_ui]
    by simp
qed

section \<open>Counting anomalies\<close>

definition is_red :: "jsval \<Rightarrow> bool" where
  "is_red row = jle ANOMALY_RED_VALUE (anomaly_of row)"

definition is_yellow :: "jsval \<Rightarrow> bool" where
  "is_yellow row = (jle ANOMALY_YELLOW_VALUE (anomaly_of row) \<and> \<not> is_red row)"

lemma count_anomalies:
  "foldl count_anomaly (r, y) rows = (r + length (filter is_red rows), y + length (filter is_yellow rows))"
  by (induction rows arbitrary: r y) (auto simp: count_anomaly_def is_red_def is_yellow_def Let_def)

text \<open>the summary of a completed model counts every result with a high score once, as an anomaly or as a likely
  one, the results of the probation period (which the export and the chart leave out) included.\<close>

theorem summary_counts:
  "su_red (render_summary L D valueField rows)
      = length (filter is_red (take PROBATION_LENGTH rows)) + length (filter is_red (drop PROBATION_LENGTH rows))
    \<and> su_red (render_summary L D valueField rows) + su_yellow (render_summary L D valueField rows)
      = length (filter (\<lambda>row. jle ANOMALY_YELLOW_VALUE (anomaly_of row)) rows)"
proof -
  have "length (filter is_red rows) + length (filter is_yellow rows)
      = length (filter (\<lambda>row. jle ANOMALY_YELLOW_VALUE (anomaly_of row)) rows)"
  proof (induction rows)
    case (Cons row rows)
    have "jle ANOMALY_RED_VALUE x \<Longrightarrow> jle ANOMALY_YELLOW_VALUE x" for x
      by (erule jle_trans [rotated]) (simp add: ANOMALY_RED_VALUE_def ANOMALY_YELLOW_VALUE_def)
    then show ?case using Cons by (auto simp: is_red_def is_yellow_def)
  qed simp
  moreover have "length (filter is_red rows)
      = length (filter is_red (take PROBATION_LENGTH rows)) + length (filter is_red (drop PROBATION_LENGTH rows))"
    by (metis append_take_drop_id filter_append length_append)
  ultimately show ?thesis by (simp add: render_summary_def count_anomalies Let_def)
qed

section \<open>Bounds of the progress\<close>

lemma rnd_percent:
  assumes "0 \<le> q" and "q \<le> 100"
  shows "\<exists>k. js_round_num (rnd q) = jint k \<and> 0 \<le> k \<and> k \<le> 100 \<and> \<bar>of_int k - q\<bar> < 3 / 4"
proof -
  let ?m = "of_int (round_half_even (q / ulp q)) * ulp q"
  have "ilog2 q < 7" if "q \<noteq> 0" using ilog2_less [of q 7] that assms by simp
  moreover have "ilog2 0 < 7" by (simp add: ilog2_def floorlog_def Let_def)
  ultimately have "ilog2 q < 7" by (cases "q = 0") auto
  then have "max (ilog2 q) (- 1022) - 52 \<le> - 2" by simp
  then have "ulp q \<le> 2 powi (- 2)" unfolding ulp_def by (intro power_int_increasing) auto
  then have u: "ulp q \<le> 1 / 4" by (simp add: power_int_def power2_eq_square)
  have "(q / ulp q - 1 / 2) * ulp q \<le> ?m" "?m \<le> (q / ulp q + 1 / 2) * ulp q"
    using round_half_even_near [of "q / ulp q"] by (auto intro!: mult_right_mono less_imp_le [OF ulp_pos])
  then have m: "q - 1 / 8 \<le> ?m" "?m \<le> q + 1 / 8"
    using u ulp_pos [of q] by (simp_all add: left_diff_distrib distrib_right)
  have "(101 :: rat) < 2 ^ 1024" using power_strict_increasing [of 7 1024 "2::rat"] by simp
  then have "rnd q = Fin ?m" using m assms by (simp add: rnd_def Let_def)
  moreover have "0 \<le> js_round ?m" "js_round ?m \<le> 100" "\<bar>of_int (js_round ?m) - q\<bar> < 3 / 4"
    using m assms unfolding js_round_def by (linarith | simp add: floor_less_iff)+
  ultimately show ?thesis by (auto simp: js_round_num_def)
qed


lemma jmul_hundred: "\<bar>100 * a\<bar> < 2 ^ 53 \<Longrightarrow> jmul (Fin 100) (jint a) = jint (100 * a)"
  using rnd_int [of "100 * a"] by (simp add: jint_def)

text \<open>C33: the progress of a running model is a whole number of percent between 0 and 100, next to the share of the time
  that the results cover; with data of a single moment it is not a number.\<close>

theorem progress_bounds:
  assumes "metricData_getTimeRange m (ap_metricData ap) = Some (JNum (jint k0), JNum (jint k1))"
    and "modelData_getTimeRange row_time m (ap_modelData ap) = Some (JNum (jint t0), JNum (jint t1))"
    and "k0 \<le> t0" and "t0 \<le> t1" and "t1 \<le> k1" and "- (2 ^ 45) < k0" and "k1 < 2 ^ 45"
  shows "if k0 = k1 then model_progress m ap = NaN
    else \<exists>p. model_progress m ap = jint p \<and> 0 \<le> p \<and> p \<le> 100 \<and> \<bar>of_int p - 100 * of_int (t1 - t0) / of_int (k1 - k0)\<bar> < (1 :: rat)"
proof -
  have "jsub (jint t1) (jint t0) = jint (t1 - t0)" "jsub (jint k1) (jint k0) = jint (k1 - k0)"
    using assms(3-7) by simp_all
  moreover have "jmul (Fin 100) (jint (t1 - t0)) = jint (100 * (t1 - t0))" using assms(3-7) by (intro jmul_hundred) simp
  ultimately have "model_progress m ap = js_round_num (jdiv (jint (100 * (t1 - t0))) (jint (k1 - k0)))"
    using assms(1,2) by (simp add: model_progress_def Let_def)
  then have p: "model_progress m ap = (if k0 = k1 then js_round_num (signed_inf (of_int (100 * (t1 - t0))))
      else js_round_num (rnd (of_int (100 * (t1 - t0)) / of_int (k1 - k0))))"
    by (simp add: jint_def)
  show ?thesis
  proof (cases "k0 = k1")
    case True
    then have "t0 = t1" using assms(3-5) by simp
    then show ?thesis using p True by (simp add: signed_inf_def js_round_num_def)
  next
    case False
    let ?q = "of_int (100 * (t1 - t0)) / of_int (k1 - k0) :: rat"
    have k: "0 < k1 - k0" using False assms(3-5) by simp
    have "0 \<le> ?q" using k assms(4) by (intro divide_nonneg_pos) simp_all
    moreover have "?q \<le> 100"
    proof -
      have "100 * (t1 - t0) \<le> 100 * (k1 - k0)" using assms(3,5) by simp
      then have "(of_int (100 * (t1 - t0)) :: rat) \<le> of_int (100 * (k1 - k0))" by (simp only: of_int_le_iff)
      then show ?thesis using k by (simp add: pos_divide_le_eq)
    qed
    ultimately show ?thesis using rnd_percent [of ?q] p False by auto
  qed
qed

definition half_done :: "jsval mem app" where
  "half_done = mem_app\<lparr>ap_metricData := [(JStr ''m'', [JArr [JNum (jint 1000)], JArr [JNum (jint 3000)]])],
     ap_modelData := new_data_store\<lparr>dd_objs := [\<lparr>md_modelId = ''m'', md_data = [JArr [JNum (jint 1000)], JArr [JNum (jint 2000)]],
       md_modified = 0, md_lastFetchTime = 0, md_fetchTimeoutId = None\<rparr>], dd_models := [(''m'', 0)]\<rparr>\<rparr>"

theorem progress_bounds_witness:
  "\<exists>p. model_progress ''m'' half_done = jint p \<and> \<bar>of_int p - 50\<bar> < (1 :: rat)"
proof -
  have "metricData_getTimeRange ''m'' (ap_metricData half_done) = Some (JNum (jint 1000), JNum (jint 3000))"
    "modelData_getTimeRange row_time ''m'' (ap_modelData half_done) = Some (JNum (jint 1000), JNum (jint 2000))"
    by (simp_all add: half_done_def metricData_getTimeRange_def rows_range_def modelData_getTimeRange_def row_time_def)
  from progress_bounds [OF this] show ?thesis by auto
qed

section \<open>Creating a model\<close>

lemma dispatch_create_only:
  assumes "a = SHOW_CREATE_MODEL_DIALOG f n \<or> a = START_PARAM_FINDER i opts"
  shows "dispatch V a ap = (None, ap\<lparr>ap_create := snd (create_listens V a (ap_create ap))\<rparr>)"
  using assms by (auto simp: dispatch_def listens_defs handleShowCreateModelDialog_def handleStartParamFinder_def Let_def)

text \<open>\<open>Model._createModel\<close>: the dialog opens with the names of the file and the metric, the parameter finder is asked
  once, for the file, the two columns and the format in which the model runner can read the
  times, and the store of the dialog keeps the options it was asked with for the model runner.\<close>

theorem createModel_asks_finder:
  assumes "pr_timestampField props = Some ts" and "pr_valueField props = Some vf"
    and "str_prop ts ''format'' \<in> set COMPOUND_TIMESTAMP_FORMATS"
    and "str_prop ts ''format'' \<noteq> UNIX_TIMESTAMP_SEC_MOMENT_FORMAT" and "str_prop ts ''format'' \<noteq> UNIX_TIMESTAMP_MILLISEC_MOMENT_FORMAT"
  shows "\<exists>ap' opts. createModel_click V props (ap, ui) = Inr (ap', ui\<lparr>mu_create := True\<rparr>)
    \<and> ap_sent ap' = ap_sent ap @ [CreateParamFinderRequest (str_prop (pr_model props) ''modelId'') (JObj opts)]
    \<and> ap_create ap' = (ap_create ap)\<lparr>cm_fileName := obj_get (pr_file props) ''name'', cm_metricName := obj_get vf ''name'',
        cm_metricId := JStr (str_prop (pr_model props) ''modelId''), cm_inputOpts := JObj opts\<rparr>
    \<and> obj_get opts ''csv'' = obj_get (pr_file props) ''filename'' \<and> obj_get opts ''valueIndex'' = obj_get vf ''index''
    \<and> (\<exists>f. obj_get opts ''datetimeFormat'' = JStr f
         \<and> f = (if seconds_as_fraction (str_prop ts ''format'') then whole_seconds (str_prop ts ''format'') else translate (str_prop ts ''format'')))"
proof -
  let ?opts = "input_opts (pr_file props) vf ts" and ?id = "str_prop (pr_model props) ''modelId''"
  let ?ap1 = "snd (ShowCreateModelDialog V (obj_get (pr_file props) ''name'') (obj_get vf ''name'') ap)"
  let ?ap2 = "snd (StartParamFinder V ?id (JObj ?opts) ?ap1)"
  have "createModel_click V props (ap, ui) = Inr (?ap2, ui\<lparr>mu_create := True\<rparr>)"
    using assms(1,2) by (simp add: createModel_click_def openCreateModelDialog_def Let_def)
  moreover have "ap_sent ?ap2 = ap_sent ap @ [CreateParamFinderRequest ?id (JObj ?opts)]"
    "ap_create ?ap2 = (ap_create ap)\<lparr>cm_fileName := obj_get (pr_file props) ''name'', cm_metricName := obj_get vf ''name'',
        cm_metricId := JStr ?id, cm_inputOpts := JObj ?opts\<rparr>"
    by (simp_all add: ShowCreateModelDialog_def StartParamFinder_def dispatch_last_def dispatch_create_only event_def
        client_createParamFinder_def send_def create_listens_def handleShowCreateModelDialog_def handleStartParamFinder_def Let_def)
  moreover have "obj_get ?opts ''csv'' = obj_get (pr_file props) ''filename''" "obj_get ?opts ''valueIndex'' = obj_get vf ''index''"
    by (simp_all add: input_opts_def obj_get_def)
  moreover have "obj_get ?opts ''datetimeFormat'' = JStr (if seconds_as_fraction (str_prop ts ''format'')
      then whole_seconds (str_prop ts ''format'') else translate (str_prop ts ''format''))"
    using backend_lookup [OF assms(3-5)] by (simp add: input_opts_def obj_get_def)
  ultimately show ?thesis by blast
qed

definition demo_props :: model_props where
  "demo_props = \<lparr>pr_model = [(''modelId'', JStr ''m'')], pr_rows = [], pr_file = [(''filename'', JStr ''a.csv'')],
     pr_valueField = Some [(''index'', JNum (jint 1))],
     pr_timestampField = Some [(''index'', JNum (jint 0)), (''format'', JStr ''YYYY-MM-DD'')]\<rparr>"

theorem createModel_asks_finder_witness:
  "\<exists>ap' opts. createModel_click mem_app_env demo_props (mem_app, new_model_ui) = Inr (ap', new_model_ui\<lparr>mu_create := True\<rparr>)
    \<and> ap_sent ap' = [CreateParamFinderRequest ''m'' (JObj opts)] \<and> obj_get opts ''datetimeFormat'' = JStr ''%Y-%m-%d''"
proof -
  have "list_ex (\<lambda>f. f = ''YYYY-MM-DD'') COMPOUND_TIMESTAMP_FORMATS" by code_simp
  then have f: "''YYYY-MM-DD'' \<in> set COMPOUND_TIMESTAMP_FORMATS" by (auto simp: list_ex_iff)
  have t: "\<not> seconds_as_fraction ''YYYY-MM-DD''" "translate ''YYYY-MM-DD'' = ''%Y-%m-%d''" by code_simp+
  have p: "pr_timestampField demo_props = Some [(''index'', JNum (jint 0)), (''format'', JStr ''YYYY-MM-DD'')]"
    "pr_valueField demo_props = Some [(''index'', JNum (jint 1))]"
    "str_prop [(''index'', JNum (jint 0)), (''format'', JStr ''YYYY-MM-DD'')] ''format'' = ''YYYY-MM-DD''"
    "str_prop (pr_model demo_props) ''modelId'' = ''m''"
    by (simp_all add: demo_props_def str_prop_def obj_get_def)
  from createModel_asks_finder [OF p(1,2), unfolded p(3), OF f, of mem_app_env mem_app new_model_ui] show ?thesis
    unfolding p(4) using t by (auto simp: UNIX_TIMESTAMP_SEC_MOMENT_FORMAT_def UNIX_TIMESTAMP_MILLISEC_MOMENT_FORMAT_def mem_app_def)
qed

end
