(* ===== verification/Web_Dates.thy ===== *)
theory Web_Dates
  imports JS_Value
begin

text \<open>
  The timestamps of the HTM.IT web pages, \<open>htm.it/static/js/lib/htm-it/utils.js\<close>: the server's text
  \<open>YYYY-MM-DD HH:MM:SS\<close> and JavaScript dates in UTC. The part of \<open>Date\<close> the code uses is written
  out as the language standard has it (ECMAScript 5.1, 15.9.1). The theorem says that reading and printing are inverse.
\<close>

section \<open>Time values\<close>

text \<open>Milliseconds since 1970; \<open>None\<close> is \<open>NaN\<close>. Day numbers and their calendar:\<close>

definition leap_year :: "int \<Rightarrow> bool" where
  "leap_year y = (4 dvd y \<and> (\<not> 100 dvd y \<or> 400 dvd y))"

definition day_from_year :: "int \<Rightarrow> int" where
  "day_from_year y = 365 * (y - 1970) + (y - 1969) div 4 - (y - 1901) div 100 + (y - 1601) div 400"

definition month_start :: "bool \<Rightarrow> int \<Rightarrow> int" where
  "month_start leap m = [0, 31, 59, 90, 120, 151, 181, 212, 243, 273, 304, 334] ! nat m + (if leap \<and> 2 \<le> m then 1 else 0)"

definition month_length :: "bool \<Rightarrow> int \<Rightarrow> int" where
  "month_length leap m = (if m = 11 then 31 else month_start leap (m + 1) - month_start leap m)"

lemma div_bounds: "0 < (n :: int) \<Longrightarrow> n * (x div n) \<le> x \<and> x < n * (x div n) + n"
  using mult_div_mod_eq [of n x] pos_mod_sign [of n x] pos_mod_bound [of n x] by linarith

lemma div_next:
  fixes x n :: int
  assumes "0 < n"
  shows "(x + 1) div n = x div n + (if n dvd x + 1 then 1 else 0)"
proof (cases "n dvd x + 1")
  case True
  then obtain q where q: "x + 1 = n * q" by blast
  have "x = n * (q - 1) + (n - 1)" using q by (simp add: algebra_simps)
  then have "x div n = q - 1" using assms by (simp add: div_pos_pos_trivial)
  then show ?thesis using q assms True by simp
next
  case False
  have "x + 1 \<noteq> n * (x div n) + n" using False by (metis dvd_triv_left dvd_add_triv_right_iff)
  then have "(x + 1) div n = x div n"
    using div_bounds [OF assms, of x] assms by (intro int_div_pos_eq [where r = "x + 1 - n * (x div n)"]) auto
  then show ?thesis using False by simp
qed

lemma day_from_year_next: "day_from_year (y + 1) = day_from_year y + (if leap_year y then 366 else 365)"
proof -
  have m: "(4 :: int) dvd 1968" "(100 :: int) dvd 1900" "(400 :: int) dvd 1600" by simp_all
  have "(y - 1968) div 4 = (y - 1969) div 4 + (if 4 dvd y then 1 else 0)"
    using div_next [of 4 "y - 1969"] dvd_diff_left_iff [OF m(1), of y] by simp
  moreover have "(y - 1900) div 100 = (y - 1901) div 100 + (if 100 dvd y then 1 else 0)"
    using div_next [of 100 "y - 1901"] dvd_diff_left_iff [OF m(2), of y] by simp
  moreover have "(y - 1600) div 400 = (y - 1601) div 400 + (if 400 dvd y then 1 else 0)"
    using div_next [of 400 "y - 1601"] dvd_diff_left_iff [OF m(3), of y] by simp
  moreover have "day_from_year (y + 1) = 365 * (y - 1970) + 365 + (y - 1968) div 4 - (y - 1900) div 100 + (y - 1600) div 400"
    by (simp add: day_from_year_def)
  moreover have "100 dvd y \<longrightarrow> 4 dvd y" "400 dvd y \<longrightarrow> 100 dvd y"
    using dvd_trans [of 4 100 y] dvd_trans [of 100 400 y] by simp_all
  ultimately show ?thesis unfolding leap_year_def day_from_year_def [of y] by presburger
qed

lemma day_from_year_less: "day_from_year y < day_from_year (y + 1)"
  by (simp add: day_from_year_next)

text \<open>\<open>YearFromTime\<close>: the last year that starts on or before the day, looked for from below.\<close>

function year_search :: "int \<Rightarrow> int \<Rightarrow> int" where
  "year_search d y = (if day_from_year (y + 1) \<le> d then year_search d (y + 1) else y)"
  by auto
termination
proof (relation "measure (\<lambda>(d, y). nat (d - day_from_year y))")
  fix d y assume "day_from_year (y + 1) \<le> d"
  then show "((d, y + 1), (d, y)) \<in> measure (\<lambda>(d, y). nat (d - day_from_year y))" using day_from_year_less [of y] by simp
qed simp

declare year_search.simps [simp del]

definition year_from_day :: "int \<Rightarrow> int" where
  "year_from_day d = year_search d (1970 + (if 0 \<le> d then d div 366 else d div 365 - 1))"

definition month_from_day :: "bool \<Rightarrow> int \<Rightarrow> int" where
  "month_from_day leap k = int (length (filter (\<lambda>m. month_start leap m \<le> k) [1, 2, 3, 4, 5, 6, 7, 8, 9, 10, 11]))"

section \<open>Dates\<close>

text \<open>\<open>ToInteger\<close> of a finite number.\<close>

definition to_integer :: "jsnum \<Rightarrow> int option" where
  "to_integer n = (case n of Fin q \<Rightarrow> Some (if 0 \<le> q then \<lfloor>q\<rfloor> else \<lceil>q\<rceil>) | _ \<Rightarrow> None)"

definition make_day :: "int \<Rightarrow> int \<Rightarrow> int \<Rightarrow> int" where
  "make_day year month date =
     (let ym = year + month div 12; mn = month mod 12
      in day_from_year ym + month_start (leap_year ym) mn + date - 1)"

definition time_clip :: "int \<Rightarrow> int option" where
  "time_clip t = (if \<bar>t\<bar> \<le> 8640000000000000 then Some t else None)"

text \<open>\<open>Date.UTC\<close> on the integers of its arguments; sums are exact below \<open>2 ^ 53\<close>.\<close>

definition date_utc :: "int option list \<Rightarrow> int option" where
  "date_utc args =
     (if length args < 2 \<or> None \<in> set (take 7 args) then None
      else (let xs = map the args;
                xs = take 7 (xs @ drop (length xs) [0, 0, 1, 0, 0, 0, 0]);
                year = (if 0 \<le> xs ! 0 \<and> xs ! 0 \<le> 99 then 1900 + xs ! 0 else xs ! 0)
            in time_clip (make_day year (xs ! 1) (xs ! 2) * 86400000
                 + (xs ! 3 * 3600000 + xs ! 4 * 60000 + xs ! 5 * 1000 + xs ! 6))))"

record utc_fields =
  utc_year :: int
  utc_month :: int
  utc_date :: int
  utc_hours :: int
  utc_minutes :: int
  utc_seconds :: int

text \<open>The functions \<open>getUTCFullYear\<close> to \<open>getUTCSeconds\<close>.\<close>

definition get_utc :: "int \<Rightarrow> utc_fields" where
  "get_utc t =
     (let d = t div 86400000; y = year_from_day d; k = d - day_from_year y; m = month_from_day (leap_year y) k
      in \<lparr>utc_year = y, utc_month = m, utc_date = k - month_start (leap_year y) m + 1,
          utc_hours = t div 3600000 mod 24, utc_minutes = t div 60000 mod 60, utc_seconds = t div 1000 mod 60\<rparr>)"

section \<open>The code\<close>

text \<open>\<open>timestamp.split(/[ -/:]/)\<close>: the class is the range from the space to the slash, and the colon.\<close>

definition separator :: "char \<Rightarrow> bool" where
  "separator c = (let n = (of_char c :: nat) in (32 \<le> n \<and> n \<le> 47) \<or> n = 58)"

fun split_class :: "(char \<Rightarrow> bool) \<Rightarrow> string \<Rightarrow> string list" where
  "split_class p [] = [[]]"
| "split_class p (x # s) = (if p x then [] # split_class p s
     else case split_class p s of [] \<Rightarrow> [[x]] | w # ws \<Rightarrow> (x # w) # ws)"

definition part_number :: "jsval \<Rightarrow> jsnum" where
  "part_number v = (case v of JStr s \<Rightarrow> to_number s | JNum n \<Rightarrow> n | _ \<Rightarrow> NaN)"

text \<open>\<open>parts[1]--\<close> makes it a number; on an array of one element it adds \<open>NaN\<close>.\<close>

definition getDateParts :: "string \<Rightarrow> jsval list" where
  "getDateParts timestamp =
     (let parts = map JStr (split_class separator timestamp)
      in if length parts < 2 then parts @ [JNum NaN]
         else parts[1 := JNum (jsub (part_number (parts ! 1)) (Fin 1))])"

definition getUTCDate :: "jsval list \<Rightarrow> int option" where
  "getUTCDate dateParts = date_utc (map (to_integer \<circ> part_number) dateParts)"

definition getUTCDateFromTimestamp :: "string \<Rightarrow> int option" where
  "getUTCDateFromTimestamp timestamp = getUTCDate (getDateParts timestamp)"

definition show_int :: "int \<Rightarrow> string" where
  "show_int k = (if k < 0 then CHR ''-'' # show_nat (nat (- k)) else show_nat (nat k))"

definition two_digits :: "int \<Rightarrow> string" where
  "two_digits k = (if length (show_int k) = 1 then CHR ''0'' # show_int k else show_int k)"

definition getUTCTimestamp :: "int option \<Rightarrow> string" where
  "getUTCTimestamp utcDateObj = (case utcDateObj of
       None \<Rightarrow> ''NaN-NaN-NaN NaN:NaN:NaN''
     | Some t \<Rightarrow>
         (let f = get_utc t; month = utc_month f + 1
          in show_int (utc_year f) @ ''-'' @ two_digits month @ ''-'' @ two_digits (utc_date f) @ '' '' @
             two_digits (utc_hours f) @ '':'' @ two_digits (utc_minutes f) @ '':'' @ two_digits (utc_seconds f)))"

section \<open>The calendar\<close>

lemma year_search_spec:
  "day_from_year y \<le> d \<Longrightarrow> day_from_year (year_search d y) \<le> d \<and> d < day_from_year (year_search d y + 1)"
proof (induction d y rule: year_search.induct)
  case (1 d y)
  then show ?case by (subst (1 2) year_search.simps) auto
qed

lemma day_from_year_bound: "day_from_year (1970 + k) \<le> 365 * k + (if 0 \<le> k then k else 365)"
proof -
  have "4 * ((k + 1) div 4) \<le> k + 1" "k + 69 < 100 * ((k + 69) div 100) + 100" "400 * ((k + 369) div 400) \<le> k + 369"
    using div_bounds [of 4 "k + 1"] div_bounds [of 100 "k + 69"] div_bounds [of 400 "k + 369"] by simp_all
  moreover have "day_from_year (1970 + k) = 365 * k + (k + 1) div 4 - (k + 69) div 100 + (k + 369) div 400"
    by (simp add: day_from_year_def algebra_simps)
  moreover have "k = 0 \<or> k = 1 \<or> 2 \<le> k \<or> k < 0" by linarith
  ultimately show ?thesis by auto
qed

lemma year_from_day_spec: "day_from_year (year_from_day d) \<le> d \<and> d < day_from_year (year_from_day d + 1)"
proof -
  have "day_from_year (1970 + (if 0 \<le> d then d div 366 else d div 365 - 1)) \<le> d"
  proof (cases "0 \<le> d")
    case True
    then have "0 \<le> d div 366" by (simp add: pos_imp_zdiv_nonneg_iff)
    then show ?thesis using day_from_year_bound [of "d div 366"] div_bounds [of 366 d] True by simp
  next
    case False
    then have "d div 365 < 0" by (simp add: pos_imp_zdiv_neg_iff)
    then show ?thesis using day_from_year_bound [of "d div 365 - 1"] div_bounds [of 365 d] False by simp
  qed
  then show ?thesis unfolding year_from_day_def by (rule year_search_spec)
qed

lemma day_from_year_mono: "y < z \<Longrightarrow> day_from_year (y + 1) \<le> day_from_year z"
proof (induction "nat (z - y - 1)" arbitrary: z)
  case 0
  then have "z = y + 1" by simp
  then show ?case by simp
next
  case (Suc n)
  then have "day_from_year (y + 1) \<le> day_from_year (z - 1)" by (intro Suc.hyps(1)) auto
  then show ?case using day_from_year_less [of "z - 1"] by simp
qed

lemma year_from_day_eq:
  assumes "day_from_year y \<le> d" and "d < day_from_year (y + 1)"
  shows "year_from_day d = y"
proof -
  let ?z = "year_from_day d"
  have "\<not> y < ?z" using day_from_year_mono [of y ?z] year_from_day_spec [of d] assms by linarith
  moreover have "\<not> ?z < y" using day_from_year_mono [of ?z y] year_from_day_spec [of d] assms by linarith
  ultimately show ?thesis by simp
qed

lemma month_cases:
  fixes m :: int
  assumes "0 \<le> m" and "m < 12"
  obtains "m = 0" | "m = 1" | "m = 2" | "m = 3" | "m = 4" | "m = 5" | "m = 6" | "m = 7" | "m = 8" | "m = 9" | "m = 10" | "m = 11"
proof -
  have "m = 0 \<or> m = 1 \<or> m = 2 \<or> m = 3 \<or> m = 4 \<or> m = 5 \<or> m = 6 \<or> m = 7 \<or> m = 8 \<or> m = 9 \<or> m = 10 \<or> m = 11"
    using assms by presburger
  then show ?thesis using that by blast
qed

lemma month_from_day_eq:
  assumes "0 \<le> m" and "m < 12" and "0 \<le> k" and "k < month_length leap m"
  shows "month_from_day leap (month_start leap m + k) = m"
  using assms(1,2) by (rule month_cases) (use assms(3,4) in \<open>simp_all add: month_from_day_def month_start_def month_length_def split: if_splits\<close>)

lemma month_end: "0 \<le> m \<Longrightarrow> m < 12 \<Longrightarrow> k < month_length leap m \<Longrightarrow> month_start leap m + k < (if leap then 366 else 365)"
  by (rule month_cases [of m]) (simp_all add: month_start_def month_length_def split: if_splits)

lemma month_start_nonneg: "0 \<le> m \<Longrightarrow> m < 12 \<Longrightarrow> 0 \<le> month_start leap m"
  by (rule month_cases [of m]) (simp_all add: month_start_def)

text \<open>Which numbers are a calendar date and a time of day, and the time value of their fields.\<close>

definition valid_fields :: "utc_fields \<Rightarrow> bool" where
  "valid_fields f = (0 \<le> utc_month f \<and> utc_month f < 12 \<and> 1 \<le> utc_date f \<and> utc_date f \<le> month_length (leap_year (utc_year f)) (utc_month f)
     \<and> 0 \<le> utc_hours f \<and> utc_hours f < 24 \<and> 0 \<le> utc_minutes f \<and> utc_minutes f < 60 \<and> 0 \<le> utc_seconds f \<and> utc_seconds f < 60)"

definition field_time :: "utc_fields \<Rightarrow> int" where
  "field_time f = make_day (utc_year f) (utc_month f) (utc_date f) * 86400000
     + utc_hours f * 3600000 + utc_minutes f * 60000 + utc_seconds f * 1000"

lemma quotient: "0 \<le> r \<Longrightarrow> r < n \<Longrightarrow> (q * n + r) div n = (q :: int)"
  by (intro int_div_pos_eq [where r = r]) (auto simp: algebra_simps)

lemma remainder: "0 \<le> r \<Longrightarrow> r < n \<Longrightarrow> (q * n + r) mod n = (r :: int)"
  by simp

lemma time_of_day:
  fixes d h m s :: int
  assumes "0 \<le> h" "h < 24" "0 \<le> m" "m < 60" "0 \<le> s" "s < 60"
    and "t = d * 86400000 + h * 3600000 + m * 60000 + s * 1000"
  shows "t div 86400000 = d" "t div 3600000 mod 24 = h" "t div 60000 mod 60 = m" "t div 1000 mod 60 = s"
proof -
  have "t = d * 86400000 + (h * 3600000 + m * 60000 + s * 1000)" using assms(7) by simp
  moreover have "h * 3600000 + m * 60000 + s * 1000 < 86400000" using assms(1-6) by linarith
  ultimately show "t div 86400000 = d" using quotient [of "h * 3600000 + m * 60000 + s * 1000" 86400000 d] assms(1-6) by simp
  have "t = (d * 24 + h) * 3600000 + (m * 60000 + s * 1000)" using assms(7) by simp
  moreover have "m * 60000 + s * 1000 < 3600000" using assms(1-6) by linarith
  ultimately have "t div 3600000 = d * 24 + h" using quotient [of "m * 60000 + s * 1000" 3600000 "d * 24 + h"] assms(1-6) by simp
  then show "t div 3600000 mod 24 = h" using remainder [OF assms(1,2)] by (simp only:)
  have "t = ((d * 24 + h) * 60 + m) * 60000 + s * 1000" using assms(7) by simp
  then have "t div 60000 = (d * 24 + h) * 60 + m" using quotient [of "s * 1000" 60000 "(d * 24 + h) * 60 + m"] assms(1-6) by simp
  then show "t div 60000 mod 60 = m" using remainder [OF assms(3,4)] by (simp only:)
  have "t = (((d * 24 + h) * 60 + m) * 60 + s) * 1000 + 0" using assms(7) by simp
  then have "t div 1000 = ((d * 24 + h) * 60 + m) * 60 + s" by simp
  then show "t div 1000 mod 60 = s" using remainder [OF assms(5,6)] by (simp only:)
qed

lemma get_utc_field_time:
  assumes "valid_fields f"
  shows "get_utc (field_time f) = f"
proof -
  let ?lp = "leap_year (utc_year f)" and ?m = "utc_month f" and ?k = "utc_date f - 1"
  let ?d = "day_from_year (utc_year f) + (month_start ?lp ?m + ?k)"
  note v = assms [unfolded valid_fields_def]
  have t: "field_time f = ?d * 86400000 + utc_hours f * 3600000 + utc_minutes f * 60000 + utc_seconds f * 1000"
    using v by (simp add: field_time_def make_day_def Let_def algebra_simps)
  have tod: "field_time f div 86400000 = ?d" "field_time f div 3600000 mod 24 = utc_hours f"
    "field_time f div 60000 mod 60 = utc_minutes f" "field_time f div 1000 mod 60 = utc_seconds f"
    using v by (intro time_of_day [OF _ _ _ _ _ _ t]; simp)+
  have "year_from_day ?d = utc_year f"
    using v month_end [of ?m ?k ?lp] month_start_nonneg [of ?m ?lp] by (intro year_from_day_eq) (auto simp: day_from_year_next)
  moreover have "month_from_day ?lp (month_start ?lp ?m + ?k) = ?m" using v by (intro month_from_day_eq) auto
  ultimately show ?thesis by (simp add: get_utc_def tod Let_def)
qed

lemma step_exists:
  fixes g :: "nat \<Rightarrow> int"
  assumes "g 0 \<le> k" and "k < g n"
  shows "\<exists>m<n. g m \<le> k \<and> k < g (Suc m)"
  using assms(2)
proof (induction n)
  case 0
  then show ?case using assms(1) by simp
next
  case (Suc n)
  then show ?case by (cases "k < g n") (auto intro: less_SucI)
qed

lemma month_of_day:
  assumes "0 \<le> k" and "k < (if leap then 366 else 365)"
  shows "\<exists>m. 0 \<le> m \<and> m < 12 \<and> month_start leap m \<le> k \<and> k < month_start leap m + month_length leap m"
proof -
  let ?g = "\<lambda>m. if m = 12 then (if leap then 366 else 365) else month_start leap (int m)"
  have "?g 0 \<le> k" "k < ?g 12" using assms by (simp_all add: month_start_def)
  then obtain m where m: "m < 12" "?g m \<le> k" "k < ?g (Suc m)" using step_exists [of ?g k 12] by auto
  have "?g (Suc m) = month_start leap (int m) + month_length leap (int m)"
  proof (cases "m = 11")
    case True
    then show ?thesis by (simp add: month_start_def month_length_def)
  next
    case False
    then show ?thesis using m(1) by (simp add: month_length_def add.commute)
  qed
  then show ?thesis using m by (intro exI [of _ "int m"]) auto
qed

lemma get_utc_valid: "valid_fields (get_utc t) \<and> field_time (get_utc t) = t div 1000 * 1000"
proof -
  let ?d = "t div 86400000"
  let ?y = "year_from_day ?d"
  let ?k = "?d - day_from_year ?y" and ?lp = "leap_year ?y"
  have k: "0 \<le> ?k" "?k < (if ?lp then 366 else 365)"
    using year_from_day_spec [of ?d] day_from_year_next [of ?y] by (auto split: if_splits)
  then obtain m where m: "0 \<le> m" "m < 12" "month_start ?lp m \<le> ?k" "?k < month_start ?lp m + month_length ?lp m"
    using month_of_day by blast
  then have "month_from_day ?lp ?k = m" using month_from_day_eq [of m "?k - month_start ?lp m" ?lp] by simp
  then have f: "get_utc t = \<lparr>utc_year = ?y, utc_month = m, utc_date = ?k - month_start ?lp m + 1,
      utc_hours = t div 3600000 mod 24, utc_minutes = t div 60000 mod 60, utc_seconds = t div 1000 mod 60\<rparr>"
    by (simp add: get_utc_def Let_def)
  have "t div 60000 = t div 1000 div 60" "t div 3600000 = t div 1000 div 60 div 60" "t div 86400000 = t div 1000 div 60 div 60 div 24"
    by (simp_all add: zdiv_zmult2_eq [symmetric])
  then have "?d * 86400000 + t div 3600000 mod 24 * 3600000 + t div 60000 mod 60 * 60000 + t div 1000 mod 60 * 1000 = t div 1000 * 1000"
    by presburger
  then show ?thesis using m by (simp add: f valid_fields_def field_time_def make_day_def Let_def)
qed

section \<open>Reading what was printed\<close>

definition stamp :: "utc_fields \<Rightarrow> string" where
  "stamp f = show_int (utc_year f) @ ''-'' @ two_digits (utc_month f + 1) @ ''-'' @ two_digits (utc_date f) @ '' '' @
     two_digits (utc_hours f) @ '':'' @ two_digits (utc_minutes f) @ '':'' @ two_digits (utc_seconds f)"

lemma getUTCTimestamp_stamp: "getUTCTimestamp (Some t) = stamp (get_utc t)"
  by (simp add: getUTCTimestamp_def stamp_def Let_def)

lemma digit_not_separator: "is_digit c \<Longrightarrow> \<not> separator c"
  by (auto simp: is_digit_def separator_def Let_def)

lemma split_class_word: "list_all is_digit w \<Longrightarrow> split_class separator w = [w]"
  by (induction w) (auto simp: digit_not_separator)

lemma split_class_append: "list_all is_digit w \<Longrightarrow> separator c \<Longrightarrow> split_class separator (w @ c # s) = w # split_class separator s"
  by (induction w) (auto simp: digit_not_separator)

lemma show_int_digits: "0 \<le> k \<Longrightarrow> list_all is_digit (show_int k)"
  by (simp add: show_int_def show_nat_digits)

lemma two_digits_digits: "0 \<le> k \<Longrightarrow> list_all is_digit (two_digits k)"
  by (simp add: two_digits_def show_int_digits is_digit_def)

lemma to_number_show_int: "0 \<le> k \<Longrightarrow> k < 2 ^ 53 \<Longrightarrow> to_number (show_int k) = jint k"
  using to_number_show_nat [of "nat k"] by (simp add: show_int_def nat_less_iff)

lemma to_number_two_digits:
  assumes "0 \<le> k" and "k < 2 ^ 53"
  shows "to_number (two_digits k) = jint k"
proof -
  have "to_number (CHR ''0'' # show_int k) = to_number (show_int k)"
    using show_int_digits [OF assms(1)]
    by (subst (1 2) to_number_digits) (auto simp: show_int_def is_digit_def digits_val_Cons digit_val_def assms(1))
  then show ?thesis using to_number_show_int [OF assms] by (simp add: two_digits_def)
qed

lemma to_integer_jint [simp]: "to_integer (jint k) = Some k"
  by (simp add: to_integer_def jint_def)

lemma separators [simp]: "separator (CHR ''-'')" "separator (CHR '' '')" "separator (CHR '':'')"
  by (simp_all add: separator_def)

lemma read_stamp:
  assumes "valid_fields f" and "100 \<le> utc_year f" and "utc_year f < 2 ^ 53"
  shows "getUTCDateFromTimestamp (stamp f) = time_clip (field_time f)"
proof -
  note v = assms [unfolded valid_fields_def]
  have ml: "month_length lp m \<le> 31" if "0 \<le> m" "m < 12" for lp m
    using that by (rule month_cases) (simp_all add: month_length_def month_start_def)
  have date: "utc_date f \<le> 31" using v ml by (meson order_trans)
  have split: "split_class separator (stamp f) = [show_int (utc_year f), two_digits (utc_month f + 1), two_digits (utc_date f),
      two_digits (utc_hours f), two_digits (utc_minutes f), two_digits (utc_seconds f)]"
    using v by (simp add: stamp_def split_class_append split_class_word show_int_digits two_digits_digits)
  have "jsub (jint (utc_month f + 1)) (jint 1) = jint (utc_month f)" using v by (subst jsub_jint) simp_all
  then have dec: "jsub (jint (utc_month f + 1)) (Fin 1) = jint (utc_month f)" by (simp add: jint_def [of 1])
  have "map (to_integer \<circ> part_number) (getDateParts (stamp f)) = map Some [utc_year f, utc_month f, utc_date f,
      utc_hours f, utc_minutes f, utc_seconds f]"
    using v date dec by (simp add: getDateParts_def split part_number_def to_number_show_int to_number_two_digits Let_def)
  then show ?thesis using v by (simp add: getUTCDateFromTimestamp_def getUTCDate_def date_utc_def field_time_def add.assoc Let_def)
qed

lemma time_in_range:
  assumes "valid_fields f" and "100 \<le> utc_year f" and "utc_year f < 275760"
  shows "time_clip (field_time f) = Some (field_time f)"
proof -
  let ?lp = "leap_year (utc_year f)" and ?m = "utc_month f" and ?k = "utc_date f - 1"
  let ?d = "day_from_year (utc_year f) + (month_start ?lp ?m + ?k)"
  note v = assms [unfolded valid_fields_def]
  have t: "field_time f = ?d * 86400000 + utc_hours f * 3600000 + utc_minutes f * 60000 + utc_seconds f * 1000"
    using v by (simp add: field_time_def make_day_def Let_def algebra_simps)
  have m: "0 \<le> month_start ?lp ?m + ?k" "month_start ?lp ?m + ?k < (if ?lp then 366 else 365)"
    using v month_end [of ?m ?k ?lp] month_start_nonneg [of ?m ?lp] by auto
  have "day_from_year 100 \<le> day_from_year (utc_year f)"
    using day_from_year_mono [of 99 "utc_year f"] assms(2) by simp
  moreover have "day_from_year (utc_year f + 1) \<le> day_from_year 275760" using day_from_year_mono [of "utc_year f" 275760] assms(3) by simp
  moreover have "day_from_year 100 = - 683003" "day_from_year 275760 = 99999744" by (simp_all add: day_from_year_def)
  ultimately have "- 683003 \<le> ?d" "?d < 99999744" using m day_from_year_next [of "utc_year f"] by (auto split: if_splits)
  then show ?thesis using v by (simp add: time_clip_def t abs_le_iff)
qed

text \<open>C25: timestamps of the server and dates, for the years 100 to 275759: a valid date is printed (\<open>getUTCTimestamp\<close>)
  as \<open>YYYY-MM-DD HH:MM:SS\<close> and read back (\<open>getUTCDateFromTimestamp\<close>) as the same time up to milliseconds, and a
  timestamp of a valid date is read as a time that is printed as the same text.\<close>

theorem timestamp_roundtrip:
  "(100 \<le> utc_year (get_utc t) \<and> utc_year (get_utc t) < 275760 \<longrightarrow>
      getUTCDateFromTimestamp (getUTCTimestamp (Some t)) = Some (t div 1000 * 1000))
   \<and> (valid_fields f \<and> 100 \<le> utc_year f \<and> utc_year f < 275760 \<longrightarrow>
      getUTCTimestamp (getUTCDateFromTimestamp (stamp f)) = stamp f)"
proof -
  have r: "getUTCDateFromTimestamp (stamp f) = Some (field_time f)"
    if "valid_fields f" "100 \<le> utc_year f" "utc_year f < 275760" for f
    using read_stamp [OF that(1,2)] time_in_range [OF that] that(3) by simp
  show ?thesis using r [of "get_utc t"] r [of f] get_utc_valid [of t] get_utc_field_time [of f]
    by (auto simp: getUTCTimestamp_stamp)
qed

theorem timestamp_roundtrip_witness:
  "getUTCDateFromTimestamp (getUTCTimestamp (Some 1456790399999)) = Some 1456790399000"
proof -
  have "year_from_day 16860 = 2016" by (rule year_from_day_eq) (simp_all add: day_from_year_def)
  then have "utc_year (get_utc 1456790399999) = 2016" by (simp add: get_utc_def Let_def)
  then show ?thesis using conjunct1 [OF timestamp_roundtrip [of 1456790399999]] by simp
qed

end
