(* ===== verification/Web_Stamp_Order.thy ===== *)
theory Web_Stamp_Order
  imports Web_Dates
begin

text \<open>
  The order of the server's timestamps. The charts of the HTM.IT pages compare timestamps as strings; for valid dates
  of four-digit years this is the order of the times.
\<close>

section \<open>Strings of one length\<close>

lemma append_less_append:
  fixes xs ys :: string
  assumes "length xs = length ys"
  shows "xs @ r < ys @ s \<longleftrightarrow> xs < ys \<or> xs = ys \<and> r < s"
  using assms by (induction xs ys rule: list_induct2) auto

lemma length_show_nat_4: "1000 \<le> n \<Longrightarrow> n < 10000 \<Longrightarrow> length (show_nat n) = 4"
proof -
  assume "1000 \<le> n" "n < 10000"
  then have "\<not> n < 10" "\<not> n div 10 < 10" "\<not> n div 10 div 10 < 10" "n div 10 div 10 div 10 < 10" by linarith+
  then show ?thesis by (simp add: show_nat.simps [of n] show_nat.simps [of "n div 10"] show_nat.simps [of "n div 10 div 10"]
      show_nat.simps [of "n div 10 div 10 div 10"])
qed

lemma length_show_nat_2: "10 \<le> n \<Longrightarrow> n < 100 \<Longrightarrow> length (show_nat n) = 2"
  by (subst show_nat.simps, simp, subst show_nat.simps, simp)

lemma length_show_nat_1: "n < 10 \<Longrightarrow> length (show_nat n) = 1"
  by (subst show_nat.simps) simp

lemma length_two_digits: "0 \<le> k \<Longrightarrow> k < 100 \<Longrightarrow> length (two_digits k) = 2"
  using length_show_nat_2 [of "nat k"] length_show_nat_1 [of "nat k"]
  by (cases "k < 10") (auto simp: two_digits_def show_int_def nat_less_iff)

lemma digits_val_zero: "digits_val (CHR ''0'' # s) = digits_val s"
  using digits_val_replicate_0 [of 1 s] by simp

lemma digits_val_two_digits: "0 \<le> k \<Longrightarrow> digits_val (two_digits k) = nat k"
  by (simp add: two_digits_def show_int_def digits_val_zero)

text \<open>A number of fixed width before the rest of the text.\<close>

lemma two_digits_less:
  assumes "0 \<le> k" "k < 100" "0 \<le> j" "j < 100"
  shows "two_digits k @ r < two_digits j @ s \<longleftrightarrow> k < j \<or> k = j \<and> r < s"
proof -
  have "two_digits k < two_digits j \<longleftrightarrow> k < j"
    using assms by (subst digits_less_iff) (simp_all add: length_two_digits two_digits_digits digits_val_two_digits, arith)
  moreover have "two_digits k = two_digits j \<longleftrightarrow> k = j"
    using assms digits_val_two_digits [of k] digits_val_two_digits [of j] eq_nat_nat_iff [of k j] by metis
  ultimately show ?thesis using assms by (simp add: append_less_append length_two_digits)
qed

lemma show_nat_inject: "show_nat n = show_nat m \<longleftrightarrow> n = m"
  by (metis digits_val_show_nat)

lemma year_less:
  assumes "1000 \<le> k" "k < 10000" "1000 \<le> j" "j < 10000"
  shows "show_int k @ r < show_int j @ s \<longleftrightarrow> k < j \<or> k = j \<and> r < s"
proof -
  have l: "length (show_int k) = length (show_int j)"
    using assms length_show_nat_4 [of "nat k"] length_show_nat_4 [of "nat j"] by (simp add: show_int_def nat_less_iff)
  have "show_int k < show_int j \<longleftrightarrow> k < j"
    using assms by (subst digits_less_iff [OF l]) (simp_all add: show_int_digits, simp add: show_int_def nat_less_eq_zless)
  moreover have "show_int k = show_int j \<longleftrightarrow> k = j"
    using assms eq_nat_nat_iff [of k j] by (simp add: show_int_def show_nat_inject)
  ultimately show ?thesis by (simp add: append_less_append [OF l])
qed

section \<open>Fields and times\<close>

definition common_year :: "utc_fields \<Rightarrow> bool" where
  "common_year f = (valid_fields f \<and> 1000 \<le> utc_year f \<and> utc_year f < 10000)"

definition fields_list :: "utc_fields \<Rightarrow> int list" where
  "fields_list f = [utc_year f, utc_month f, utc_date f, utc_hours f, utc_minutes f, utc_seconds f]"

lemma month_length_le: "0 \<le> m \<Longrightarrow> m < 12 \<Longrightarrow> month_length leap m \<le> 31"
  by (rule month_cases [of m]) (simp_all add: month_length_def month_start_def)

lemma stamp_less_fields:
  assumes "common_year f" and "common_year g"
  shows "stamp f < stamp g \<longleftrightarrow> fields_list f < fields_list g"
proof -
  note v = assms [unfolded common_year_def valid_fields_def]
  have date: "utc_date f < 100" "utc_date g < 100"
    using v month_length_le [of "utc_month f" "leap_year (utc_year f)"] month_length_le [of "utc_month g" "leap_year (utc_year g)"] by linarith+
  have y: "show_int (utc_year f) @ r < show_int (utc_year g) @ s \<longleftrightarrow> utc_year f < utc_year g \<or> utc_year f = utc_year g \<and> r < s" for r s
    by (rule year_less) (use v in simp_all)
  have m: "two_digits (utc_month f + 1) @ r < two_digits (utc_month g + 1) @ s
      \<longleftrightarrow> utc_month f < utc_month g \<or> utc_month f = utc_month g \<and> r < s" for r s
    by (subst two_digits_less) (use v in \<open>simp_all, arith\<close>)
  have d: "two_digits (utc_date f) @ r < two_digits (utc_date g) @ s \<longleftrightarrow> utc_date f < utc_date g \<or> utc_date f = utc_date g \<and> r < s" for r s
    by (rule two_digits_less) (use v date in simp_all)
  have h: "two_digits (utc_hours f) @ r < two_digits (utc_hours g) @ s \<longleftrightarrow> utc_hours f < utc_hours g \<or> utc_hours f = utc_hours g \<and> r < s" for r s
    by (rule two_digits_less) (use v in simp_all)
  have i: "two_digits (utc_minutes f) @ r < two_digits (utc_minutes g) @ s
      \<longleftrightarrow> utc_minutes f < utc_minutes g \<or> utc_minutes f = utc_minutes g \<and> r < s" for r s
    by (rule two_digits_less) (use v in simp_all)
  have "two_digits (utc_seconds f) @ [] < two_digits (utc_seconds g) @ [] \<longleftrightarrow> utc_seconds f < utc_seconds g"
    by (subst two_digits_less) (use v in simp_all)
  then show ?thesis by (simp add: stamp_def fields_list_def y m d h i)
qed

lemma month_start_mono: "0 \<le> m \<Longrightarrow> m < n \<Longrightarrow> n < 12 \<Longrightarrow> month_start leap m + month_length leap m \<le> month_start leap n"
  by (rule month_cases [of m]; simp; rule month_cases [of n]) (simp_all add: month_length_def month_start_def)

definition fields_day :: "utc_fields \<Rightarrow> int" where
  "fields_day f = make_day (utc_year f) (utc_month f) (utc_date f)"

lemma fields_day_eq:
  "valid_fields f \<Longrightarrow> fields_day f = day_from_year (utc_year f) + (month_start (leap_year (utc_year f)) (utc_month f) + (utc_date f - 1))"
  by (simp add: fields_day_def make_day_def valid_fields_def Let_def)

lemma fields_day_less:
  assumes "valid_fields f" and "valid_fields g"
    and "utc_year f < utc_year g \<or> utc_year f = utc_year g \<and> (utc_month f < utc_month g \<or> utc_month f = utc_month g \<and> utc_date f < utc_date g)"
  shows "fields_day f < fields_day g"
proof -
  note v = assms(1,2) [unfolded valid_fields_def]
  consider (y) "utc_year f < utc_year g" | (m) "utc_year f = utc_year g" "utc_month f < utc_month g"
    | (d) "utc_year f = utc_year g" "utc_month f = utc_month g" "utc_date f < utc_date g" using assms(3) by blast
  then show ?thesis
  proof cases
    case y
    have "fields_day f < day_from_year (utc_year f + 1)"
      using v month_end [of "utc_month f" "utc_date f - 1" "leap_year (utc_year f)"]
      by (auto simp: fields_day_eq [OF assms(1)] day_from_year_next split: if_splits)
    also have "\<dots> \<le> day_from_year (utc_year g)" using y by (rule day_from_year_mono)
    also have "\<dots> \<le> fields_day g"
      using v month_start_nonneg [of "utc_month g" "leap_year (utc_year g)"] by (auto simp: fields_day_eq [OF assms(2)])
    finally show ?thesis .
  next
    case m
    then show ?thesis using v month_start_mono [of "utc_month f" "utc_month g" "leap_year (utc_year g)"]
      by (auto simp: fields_day_eq [OF assms(1)] fields_day_eq [OF assms(2)])
  qed (simp add: fields_day_eq [OF assms(1)] fields_day_eq [OF assms(2)])
qed

lemma field_time_less:
  assumes f: "valid_fields f" and g: "valid_fields g" and less: "fields_list f < fields_list g"
  shows "field_time f < field_time g"
proof -
  have eq: "field_time h = fields_day h * 86400000 + (utc_hours h * 3600000 + utc_minutes h * 60000 + utc_seconds h * 1000)" for h
    by (simp add: field_time_def fields_day_def)
  have day: "0 \<le> utc_hours h * 3600000 + utc_minutes h * 60000 + utc_seconds h * 1000 \<and>
      utc_hours h * 3600000 + utc_minutes h * 60000 + utc_seconds h * 1000 < 86400000" if "valid_fields h" for h
    using that by (simp add: valid_fields_def)
  show ?thesis
  proof (cases "fields_day f < fields_day g")
    case True
    then have "fields_day f * 86400000 + 86400000 \<le> fields_day g * 86400000" by simp
    then show ?thesis using day [OF f] day [OF g] by (simp add: eq)
  next
    case False
    then have "fields_day f = fields_day g \<and> [utc_hours f, utc_minutes f, utc_seconds f] < [utc_hours g, utc_minutes g, utc_seconds g]"
      using less fields_day_less [OF f g] by (auto simp: fields_list_def fields_day_def)
    then show ?thesis using f g by (auto simp: eq valid_fields_def)
  qed
qed

text \<open>timestamps of valid dates in years of four digits, compared as strings (\<open><\<close> of JavaScript), are in the order of the
  times they stand for.\<close>

theorem stamp_order:
  assumes "common_year f" and "common_year g"
  shows "stamp f < stamp g \<longleftrightarrow> field_time f < field_time g"
proof -
  have v: "valid_fields f" "valid_fields g" using assms by (simp_all add: common_year_def)
  consider "fields_list f < fields_list g" | "fields_list g < fields_list f" | "fields_list f = fields_list g" by fastforce
  then show ?thesis
  proof cases
    case 3
    then have "f = g" by (cases f; cases g) (simp add: fields_list_def)
    then show ?thesis by simp
  qed (use stamp_less_fields [OF assms] field_time_less [OF v] field_time_less [OF v(2,1)] in \<open>auto simp: less_asym\<close>)
qed

theorem stamp_order_witness:
  "stamp \<lparr>utc_year = 2015, utc_month = 8, utc_date = 30, utc_hours = 23, utc_minutes = 59, utc_seconds = 59\<rparr>
     < stamp \<lparr>utc_year = 2015, utc_month = 9, utc_date = 1, utc_hours = 0, utc_minutes = 0, utc_seconds = 0\<rparr>"
  by (subst stamp_order) (simp_all add: common_year_def valid_fields_def month_length_def month_start_def field_time_def make_day_def)

text \<open>The same for printed times.\<close>

definition common_time :: "int \<Rightarrow> bool" where
  "common_time t = (1000 \<le> utc_year (get_utc t) \<and> utc_year (get_utc t) < 10000)"

lemma common_time_fields: "common_time t \<Longrightarrow> common_year (get_utc t)"
  using get_utc_valid [of t] by (simp add: common_time_def common_year_def)

lemma printed_order:
  assumes "common_time t" and "common_time u"
  shows "getUTCTimestamp (Some t) < getUTCTimestamp (Some u) \<longleftrightarrow> t div 1000 < u div 1000"
  using stamp_order [OF common_time_fields common_time_fields, OF assms] get_utc_valid [of t] get_utc_valid [of u]
  by (simp add: getUTCTimestamp_stamp)

lemma printed_read: "common_time t \<Longrightarrow> getUTCDateFromTimestamp (getUTCTimestamp (Some t)) = Some (t div 1000 * 1000)"
  using read_stamp [of "get_utc t"] time_in_range [of "get_utc t"] get_utc_valid [of t]
  by (auto simp: getUTCTimestamp_stamp common_time_def)

end
