(* ===== verification/Web_Chart_Rows.thy ===== *)
theory Web_Chart_Rows
  imports Complex_Main Web_Stamp_Order
begin

text \<open>
  What a row of the HTM.IT charts shows, \<open>program/views/panels/embedChartsRow.js\<close>, \<open>embedChartsRowInstance.js\<close>,
  \<open>embedChartsRowMetric.js\<close> and \<open>embedChartsRowMetricDetail.js\<close>: the rows of a metric that the server sends, their
  combination to one row per instance, the bars of the views of hours, days and weeks, and the flags of annotations.
  Dygraphs draws what these functions return. The theorems say which records a bar stands for, and where records get lost.
\<close>

section \<open>Data\<close>

text \<open>A row of the server: timestamp, value and anomaly score, by the indices of \<open>messages.json\<close>.\<close>

record sample =
  sa_time :: string
  sa_value :: rat
  sa_anomaly :: rat

text \<open>\<open>minutesPerBar\<close>: 5, 60 or 480; \<open>minutesPerRecord\<close> is that of the view of hours.\<close>

definition minutesPerRecord :: nat where
  "minutesPerRecord = 5"

text \<open>\<open>Math.ceil(t / n) * n\<close> and \<open>Math.floor(t / n) * n\<close> on times.\<close>

definition ceil_to :: "int \<Rightarrow> int \<Rightarrow> int" where
  "ceil_to n t = - ((- t) div n) * n"

definition floor_to :: "int \<Rightarrow> int \<Rightarrow> int" where
  "floor_to n t = t div n * n"

definition sample_time :: "sample \<Rightarrow> int option" where
  "sample_time s = getUTCDateFromTimestamp (sa_time s)"

section \<open>One row per instance\<close>

text \<open>\<open>output[i]\<close> after \<open>data[i]\<close>: what is missing, empty or \<open>0\<close> is falsy.\<close>

definition combine_row :: "sample \<Rightarrow> sample \<Rightarrow> sample" where
  "combine_row out d = \<lparr>sa_time = (if sa_time out = [] then sa_time d else sa_time out),
     sa_value = (if sa_value d > sa_value out then sa_value d else sa_value out),
     sa_anomaly = (if sa_anomaly d > sa_anomaly out then sa_anomaly d else sa_anomaly out)\<rparr>"

definition empty_row :: sample where
  "empty_row = \<lparr>sa_time = [], sa_value = 0, sa_anomaly = 0\<rparr>"

fun combine :: "sample list \<Rightarrow> sample list \<Rightarrow> sample list" where
  "combine out [] = out"
| "combine [] (d # ds) = combine_row empty_row d # combine [] ds"
| "combine (r # out) (d # ds) = combine_row r d # combine out ds"

definition getInstancesFromMetrics :: "sample list list \<Rightarrow> sample list" where
  "getInstancesFromMetrics datas = foldl combine [] datas"

section \<open>Bars\<close>

text \<open>How many records \<open>startIndex\<close> skips: those before the first bar, the last record apart. A comparison with an
  invalid date is false.\<close>

fun skip_before :: "int option \<Rightarrow> sample list \<Rightarrow> nat" where
  "skip_before startBucket (x # y # rest) =
     (case (sample_time x, startBucket) of
        (Some t, Some b) \<Rightarrow> if t < b then Suc (skip_before startBucket (y # rest)) else 0
      | _ \<Rightarrow> 0)"
| "skip_before startBucket _ = 0"

text \<open>The largest of \<open>0\<close> and the numbers.\<close>

definition max_from_zero :: "rat list \<Rightarrow> rat" where
  "max_from_zero xs = foldl (\<lambda>m v. if m < v then v else m) 0 xs"

definition bar :: "int \<Rightarrow> sample \<Rightarrow> sample list \<Rightarrow> sample" where
  "bar msPerBar previous records =
     \<lparr>sa_time = getUTCTimestamp (map_option (ceil_to msPerBar) (sample_time previous)),
      sa_value = max_from_zero (map sa_value records), sa_anomaly = max_from_zero (map sa_anomaly records)\<rparr>"

text \<open>The loop over the groups of \<open>divider\<close> records; a group without a record before it is not pushed.\<close>

fun bars :: "nat \<Rightarrow> int \<Rightarrow> sample option \<Rightarrow> sample list \<Rightarrow> sample list" where
  "bars divider msPerBar previous [] = []"
| "bars divider msPerBar previous (x # xs) =
     (let records = x # take (divider - 1) xs; rest = drop (divider - 1) xs
      in (case previous of None \<Rightarrow> [] | Some p \<Rightarrow> [bar msPerBar p records]) @ bars divider msPerBar (Some (last records)) rest)"

text \<open>\<open>input[0]\<close> of an empty array is \<open>undefined\<close>, and reading its timestamp throws.\<close>

definition shapeDataToMinutesPerBar :: "nat \<Rightarrow> sample list \<Rightarrow> jserr + sample list" where
  "shapeDataToMinutesPerBar minutesPerBar input =
     (case input of
        [] \<Rightarrow> Inl TypeError
      | x # _ \<Rightarrow>
          (let msPerBar = int minutesPerBar * 60000;
               startBucket = map_option (ceil_to msPerBar) (sample_time x);
               startIndex = skip_before startBucket input
           in if 1 < minutesPerBar div minutesPerRecord
              then Inr (bars (minutesPerBar div minutesPerRecord) msPerBar
                     (if startIndex = 0 then None else Some (input ! (startIndex - 1))) (drop startIndex input))
              else Inr input))"

section \<open>Points of the charts\<close>

definition logScale :: "real \<Rightarrow> real" where
  "logScale v = (if v > 0.99999 then 1 else ln (1.0000000001 - v) / ln (1.0 - 0.9999999999))"

text \<open>\<open>parseFloat\<close> of a number is the number; an invalid date gives \<open>NaN\<close>, here \<open>None\<close>.\<close>

definition formatAnomalyModelOutputData :: "sample list \<Rightarrow> (int option \<times> real) list" where
  "formatAnomalyModelOutputData modelOutput =
     map (\<lambda>dataRow. (map_option (ceil_to 300000) (sample_time dataRow), logScale (of_rat (sa_anomaly dataRow)))) modelOutput"

definition instance_getFormattedData :: "nat \<Rightarrow> sample list list \<Rightarrow> jserr + (int option \<times> real) list" where
  "instance_getFormattedData minutesPerBar datas =
     map_sum id formatAnomalyModelOutputData (shapeDataToMinutesPerBar minutesPerBar (getInstancesFromMetrics datas))"

definition metric_getFormattedData :: "nat \<Rightarrow> sample list \<Rightarrow> jserr + (int option \<times> real) list" where
  "metric_getFormattedData minutesPerBar metricData =
     map_sum id formatAnomalyModelOutputData (shapeDataToMinutesPerBar minutesPerBar metricData)"

definition detail_getFormattedData :: "sample list \<Rightarrow> (int option \<times> rat) list" where
  "detail_getFormattedData metricData = map (\<lambda>dataRow. (sample_time dataRow, sa_value dataRow)) metricData"

section \<open>Flags of annotations\<close>

record annotation =
  an_server :: string
  an_timestamp :: string

text \<open>The keys of \<open>groupBy\<close> in the order of their first value; the key \<open>NaN\<close> is \<open>None\<close>.\<close>

fun group_keys :: "'a list \<Rightarrow> 'a list" where
  "group_keys [] = []"
| "group_keys (x # xs) = x # filter (\<lambda>y. y \<noteq> x) (group_keys xs)"

definition annotation_bar :: "int \<Rightarrow> annotation \<Rightarrow> int option" where
  "annotation_bar msPerBar ann = map_option (floor_to msPerBar) (getUTCDateFromTimestamp (an_timestamp ann))"

definition getFormattedAnnotations :: "nat \<Rightarrow> string \<Rightarrow> annotation list \<Rightarrow> int option list" where
  "getFormattedAnnotations minutesPerBar instanceId annotations =
     group_keys (map (annotation_bar (int minutesPerBar * 60000)) (filter (\<lambda>ann. an_server ann = instanceId) annotations))"

text \<open>The annotations that are listed when the flag at \<open>x\<close> is clicked.\<close>

definition handleAnnotation :: "nat \<Rightarrow> string \<Rightarrow> annotation list \<Rightarrow> int option \<Rightarrow> annotation list" where
  "handleAnnotation minutesPerBar server annotations x =
     (let from = getUTCTimestamp x; to = getUTCTimestamp (map_option (\<lambda>t. t + int minutesPerBar * 60000) x)
      in filter (\<lambda>model. an_server model = server \<and> from \<le> an_timestamp model \<and> an_timestamp model < to) annotations)"

section \<open>Combined rows\<close>

lemma combine_nth:
  "i < length ds \<Longrightarrow> combine out ds ! i = combine_row (if i < length out then out ! i else empty_row) (ds ! i)"
  "length ds \<le> i \<Longrightarrow> i < length out \<Longrightarrow> combine out ds ! i = out ! i"
  by (induction out ds arbitrary: i rule: combine.induct) (auto simp: nth_Cons split: nat.splits)

lemma length_combine: "length (combine out ds) = max (length out) (length ds)"
  by (induction out ds rule: combine.induct) auto

lemma max_from_zero_snoc: "max_from_zero (xs @ [x]) = (if max_from_zero xs < x then x else max_from_zero xs)"
  by (simp add: max_from_zero_def)

lemma max_from_zero_Nil [simp]: "max_from_zero [] = 0"
  by (simp add: max_from_zero_def)

lemma max_from_zero_Max: "0 \<le> max_from_zero xs \<and> (\<forall>x\<in>set xs. x \<le> max_from_zero xs) \<and> (max_from_zero xs = 0 \<or> max_from_zero xs \<in> set xs)"
  by (induction xs rule: rev_induct) (auto simp: max_from_zero_snoc)

text \<open>The rows of all metrics at one position.\<close>

definition rows_at :: "nat \<Rightarrow> sample list list \<Rightarrow> sample list" where
  "rows_at i datas = map (\<lambda>data. data ! i) (filter (\<lambda>data. i < length data) datas)"

lemma rows_at_snoc: "rows_at i (datas @ [data]) = rows_at i datas @ (if i < length data then [data ! i] else [])"
  by (simp add: rows_at_def)

lemma instance_length: "i < length (getInstancesFromMetrics datas) \<longleftrightarrow> rows_at i datas \<noteq> []"
proof (induction datas rule: rev_induct)
  case (snoc data datas)
  then show ?case by (auto simp: getInstancesFromMetrics_def length_combine rows_at_snoc less_max_iff_disj)
qed (simp add: getInstancesFromMetrics_def rows_at_def)

lemma instance_row:
  "i < length (getInstancesFromMetrics datas) \<Longrightarrow> getInstancesFromMetrics datas ! i =
     \<lparr>sa_time = (case filter (\<lambda>t. t \<noteq> []) (map sa_time (rows_at i datas)) of [] \<Rightarrow> [] | t # _ \<Rightarrow> t),
      sa_value = max_from_zero (map sa_value (rows_at i datas)), sa_anomaly = max_from_zero (map sa_anomaly (rows_at i datas))\<rparr>"
proof (induction datas rule: rev_induct)
  case (snoc data datas)
  let ?out = "getInstancesFromMetrics datas"
  have out: "getInstancesFromMetrics (datas @ [data]) = combine ?out data" by (simp add: getInstancesFromMetrics_def)
  show ?case
  proof (cases "i < length ?out")
    case True
    then show ?thesis using snoc.IH by (cases "i < length data")
        (auto simp: out combine_nth combine_row_def rows_at_snoc max_from_zero_snoc split: list.split dest: filter_eq_ConsD)
  next
    case False
    then have "i < length data" using snoc.prems by (simp add: out length_combine less_max_iff_disj)
    moreover have "rows_at i datas = []" using False by (simp add: instance_length)
    ultimately show ?thesis using False
      by (simp add: out combine_nth combine_row_def empty_row_def rows_at_snoc max_from_zero_def)
  qed
qed (simp add: getInstancesFromMetrics_def)

text \<open>The metrics of an instance are read at the same times.\<close>

definition aligned :: "sample list list \<Rightarrow> bool" where
  "aligned datas = (\<forall>a\<in>set datas. \<forall>b\<in>set datas. \<forall>i < min (length a) (length b). sa_time (a ! i) = sa_time (b ! i))"

text \<open>the row of an instance (\<open>getInstancesFromMetrics\<close>). When its metrics have their records at the same times, every
  record of every metric has a row of its time whose score is at least its score, and the score of a row is that of a record of
  its time, or \<open>0\<close>. The rows are joined by position: of two metrics, a higher score of the second is shown at the time of
  the first one's record at the same position, whatever its own time is.\<close>

theorem instance_shows_metrics:
  "(aligned datas \<and> (\<forall>data\<in>set datas. \<forall>r\<in>set data. sa_time r \<noteq> []) \<longrightarrow>
      (\<forall>data\<in>set datas. \<forall>r\<in>set data. \<exists>row\<in>set (getInstancesFromMetrics datas). sa_time row = sa_time r \<and> sa_anomaly r \<le> sa_anomaly row)
      \<and> (\<forall>row\<in>set (getInstancesFromMetrics datas). sa_anomaly row = 0
           \<or> (\<exists>data\<in>set datas. \<exists>r\<in>set data. sa_time r = sa_time row \<and> sa_anomaly r = sa_anomaly row)))
   \<and> (i < length a \<and> i < length b \<and> sa_time (a ! i) \<noteq> [] \<and> 0 \<le> sa_anomaly (a ! i) \<and> sa_anomaly (a ! i) < sa_anomaly (b ! i) \<longrightarrow>
      sa_time (getInstancesFromMetrics [a, b] ! i) = sa_time (a ! i) \<and> sa_anomaly (getInstancesFromMetrics [a, b] ! i) = sa_anomaly (b ! i))"
proof (intro conjI impI)
  assume al: "aligned datas \<and> (\<forall>data\<in>set datas. \<forall>r\<in>set data. sa_time r \<noteq> [])"
  let ?out = "getInstancesFromMetrics datas"
  have row: "i < length ?out \<and> sa_time (?out ! i) = sa_time (data ! i) \<and> sa_anomaly (data ! i) \<le> sa_anomaly (?out ! i)"
    if "data \<in> set datas" "i < length data" for data i
  proof -
    have m: "data ! i \<in> set (rows_at i datas)" using that by (auto simp: rows_at_def)
    then have i: "i < length ?out" by (auto simp: instance_length)
    have t: "sa_time r = sa_time (data ! i) \<and> sa_time r \<noteq> []" if r: "r \<in> set (rows_at i datas)" for r
    proof -
      obtain b where b: "b \<in> set datas" "i < length b" "r = b ! i" using r by (auto simp: rows_at_def)
      have "\<forall>i < min (length b) (length data). sa_time (b ! i) = sa_time (data ! i)"
        using conjunct1 [OF al] b(1) \<open>data \<in> set datas\<close> unfolding aligned_def by blast
      then have "sa_time (b ! i) = sa_time (data ! i)" using b(2) \<open>i < length data\<close> by simp
      then show ?thesis using b conjunct2 [OF al] nth_mem [of i b] by force
    qed
    obtain r rs where rs: "rows_at i datas = r # rs" using m by (cases "rows_at i datas") auto
    then have "sa_time (?out ! i) = sa_time (data ! i)" using t [of r] by (auto simp: instance_row [OF i])
    moreover have "sa_anomaly (data ! i) \<le> sa_anomaly (?out ! i)"
      using m max_from_zero_Max [of "map sa_anomaly (rows_at i datas)"] by (auto simp: instance_row [OF i])
    ultimately show ?thesis using i by simp
  qed
  then show "\<forall>data\<in>set datas. \<forall>r\<in>set data. \<exists>row\<in>set ?out. sa_time row = sa_time r \<and> sa_anomaly r \<le> sa_anomaly row"
    by (fastforce simp: in_set_conv_nth)
  show "\<forall>row\<in>set ?out. sa_anomaly row = 0 \<or> (\<exists>data\<in>set datas. \<exists>r\<in>set data. sa_time r = sa_time row \<and> sa_anomaly r = sa_anomaly row)"
  proof
    fix out assume "out \<in> set ?out"
    then obtain i where i: "i < length ?out" "out = ?out ! i" by (auto simp: in_set_conv_nth)
    consider "sa_anomaly out = 0" | "sa_anomaly out \<in> set (map sa_anomaly (rows_at i datas))"
      using max_from_zero_Max [of "map sa_anomaly (rows_at i datas)"] i by (auto simp: instance_row)
    then show "sa_anomaly out = 0 \<or> (\<exists>data\<in>set datas. \<exists>r\<in>set data. sa_time r = sa_time out \<and> sa_anomaly r = sa_anomaly out)"
    proof cases
      case 2
      then obtain data where "data \<in> set datas" "i < length data" "sa_anomaly (data ! i) = sa_anomaly out" by (auto simp: rows_at_def)
      then show ?thesis using row i by (metis nth_mem)
    qed simp
  qed
next
  assume *: "i < length a \<and> i < length b \<and> sa_time (a ! i) \<noteq> [] \<and> 0 \<le> sa_anomaly (a ! i) \<and> sa_anomaly (a ! i) < sa_anomaly (b ! i)"
  then have r: "rows_at i [a, b] = [a ! i, b ! i]" by (simp add: rows_at_def)
  then have l: "i < length (getInstancesFromMetrics [a, b])" by (simp add: instance_length)
  show "sa_time (getInstancesFromMetrics [a, b] ! i) = sa_time (a ! i)"
    "sa_anomaly (getInstancesFromMetrics [a, b] ! i) = sa_anomaly (b ! i)"
    using * by (auto simp: instance_row [OF l] r max_from_zero_def)
qed

theorem instance_shows_metrics_witness:
  "sa_time (getInstancesFromMetrics [[\<lparr>sa_time = ''2015-08-30 10:00:00'', sa_value = 1, sa_anomaly = 0\<rparr>],
       [\<lparr>sa_time = ''2015-08-30 12:00:00'', sa_value = 1, sa_anomaly = 1\<rparr>]] ! 0) = ''2015-08-30 10:00:00''
   \<and> (\<exists>row\<in>set (getInstancesFromMetrics [[\<lparr>sa_time = ''2015-08-30 10:00:00'', sa_value = 1, sa_anomaly = 1 / 2\<rparr>]]).
        1 / 2 \<le> sa_anomaly row)"
proof
  show "sa_time (getInstancesFromMetrics [[\<lparr>sa_time = ''2015-08-30 10:00:00'', sa_value = 1, sa_anomaly = 0\<rparr>],
       [\<lparr>sa_time = ''2015-08-30 12:00:00'', sa_value = 1, sa_anomaly = 1\<rparr>]] ! 0) = ''2015-08-30 10:00:00''"
    using conjunct2 [OF instance_shows_metrics, of 0 "[\<lparr>sa_time = ''2015-08-30 10:00:00'', sa_value = 1, sa_anomaly = 0\<rparr>]"
        "[\<lparr>sa_time = ''2015-08-30 12:00:00'', sa_value = 1, sa_anomaly = 1\<rparr>]"] by simp
  show "\<exists>row\<in>set (getInstancesFromMetrics [[\<lparr>sa_time = ''2015-08-30 10:00:00'', sa_value = 1, sa_anomaly = 1 / 2\<rparr>]]).
        1 / 2 \<le> sa_anomaly row"
    using conjunct1 [OF instance_shows_metrics [of "[[\<lparr>sa_time = ''2015-08-30 10:00:00'', sa_value = 1, sa_anomaly = 1 / 2\<rparr>]]"]]
    by (auto simp: aligned_def)
qed

section \<open>Bars of a shaped row\<close>

lemma filter_range:
  assumes "\<And>i. i < length xs \<Longrightarrow> P (xs ! i) \<longleftrightarrow> a \<le> i \<and> i < b"
  shows "filter P xs = take (b - a) (drop a xs)"
proof -
  have x: "P x \<longleftrightarrow> a \<le> i \<and> i < b" if "i < length xs" "x = xs ! i" for x i using assms that by simp
  have "filter P (take a xs) = []" by (auto simp: filter_empty_conv in_set_conv_nth x)
  moreover have "filter P (take (b - a) (drop a xs)) = take (b - a) (drop a xs)"
    by (auto simp: filter_id_conv in_set_conv_nth) (subst x, auto)
  moreover have "filter P (drop (b - a) (drop a xs)) = []"
    by (auto simp: filter_empty_conv in_set_conv_nth) (subst (asm) x, auto)
  moreover have "xs = take a xs @ take (b - a) (drop a xs) @ drop (b - a) (drop a xs)" by (simp only: append_take_drop_id)
  ultimately show ?thesis by (metis append_Nil append_Nil2 filter_append)
qed

text \<open>The bars after a first record: bar \<open>j\<close> stands for the records from \<open>j * divider\<close>.\<close>

lemma bars_step:
  "0 < d \<Longrightarrow> xs \<noteq> [] \<Longrightarrow>
     bars d ms (Some p) xs = bar ms p (take d xs) # bars d ms (Some (last (take d xs))) (drop d xs)"
  by (cases xs; cases d) (simp_all add: Let_def)

lemma bars_None: "0 < d \<Longrightarrow> bars d ms None xs = (if xs = [] then [] else bars d ms (Some (last (take d xs))) (drop d xs))"
  by (cases xs; cases d) (simp_all add: Let_def)

declare bars.simps(2) [simp del]

lemma bars_nth:
  assumes "0 < d"
  shows "(j < length (bars d ms (Some p) xs) \<longleftrightarrow> j * d < length xs)
    \<and> (j * d < length xs \<longrightarrow> bars d ms (Some p) xs ! j = bar ms (if j = 0 then p else xs ! (j * d - 1)) (take d (drop (j * d) xs)))"
proof (induction j arbitrary: p xs)
  case 0
  then show ?case using assms by (cases xs) (simp_all add: bars_step)
next
  case (Suc j)
  show ?case
  proof (cases "xs = []")
    case False
    let ?ys = "drop d xs"
    have l: "j * d < length ?ys \<longleftrightarrow> Suc j * d < length xs" by (simp only: length_drop less_diff_conv mult_Suc add.commute)
    have p: "(if j = 0 then last (take d xs) else ?ys ! (j * d - 1)) = xs ! (Suc j * d - 1)" if "Suc j * d < length xs"
    proof (cases j)
      case 0
      then show ?thesis using that False assms by (simp add: last_conv_nth)
    next
      case (Suc k)
      then have "1 \<le> j * d" using assms by (cases d) simp_all
      then have "d + (j * d - 1) = Suc j * d - 1" by (simp only: Nat.add_diff_assoc mult_Suc)
      moreover have "?ys ! (j * d - 1) = xs ! (d + (j * d - 1))" using that by (intro nth_drop) simp
      ultimately show ?thesis using Suc by (simp only: nat.simps if_False)
    qed
    have "bars d ms (Some p) xs ! Suc j = bars d ms (Some (last (take d xs))) ?ys ! j"
      "length (bars d ms (Some p) xs) = Suc (length (bars d ms (Some (last (take d xs))) ?ys))"
      using False assms by (simp_all add: bars_step)
    then show ?thesis using Suc [of "last (take d xs)" ?ys] p unfolding l by (simp add: add.commute)
  qed simp
qed

text \<open>Data every five minutes: the record \<open>i\<close> has the time \<open>t + 300000 * i\<close>.\<close>

definition regular :: "int \<Rightarrow> sample list \<Rightarrow> bool" where
  "regular t xs = (\<forall>i < length xs. sample_time (xs ! i) = Some (t + 300000 * int i))"

lemma regular_nth: "regular t xs \<Longrightarrow> i < length xs \<Longrightarrow> sample_time (xs ! i) = Some (t + 300000 * int i)"
  by (simp add: regular_def)

lemma regular_Cons: "regular t (x # xs) \<longleftrightarrow> sample_time x = Some t \<and> regular (t + 300000) xs"
  by (auto simp: regular_def nth_Cons algebra_simps split: nat.splits)

lemma skip_regular: "regular t xs \<Longrightarrow> skip_before (Some (t + 300000 * int n)) xs = min (length xs - 1) n"
proof (induction xs arbitrary: t n)
  case (Cons x xs)
  show ?case
  proof (cases "xs = [] \<or> n = 0")
    case True
    then show ?thesis using Cons.prems by (cases xs) (auto simp: regular_Cons)
  next
    case False
    then obtain y ys m where xs: "xs = y # ys" and n: "n = Suc m" by (cases xs; cases n) auto
    have "skip_before (Some (t + 300000 + 300000 * int m)) xs = min (length xs - 1) m"
      using Cons by (simp add: regular_Cons)
    then show ?thesis using Cons.prems by (simp add: xs n regular_Cons algebra_simps)
  qed
qed simp

text \<open>The records from time \<open>from\<close> up to \<open>to\<close>.\<close>

definition in_span :: "int \<Rightarrow> int \<Rightarrow> sample \<Rightarrow> bool" where
  "in_span from to r = (case sample_time r of Some t \<Rightarrow> from \<le> t \<and> t < to | None \<Rightarrow> False)"

lemma regular_span:
  assumes "regular t xs" and "first = t + 300000 * int a"
  shows "filter (in_span first (first + 300000 * int d)) xs = take d (drop a xs)"
proof -
  have "in_span first (first + 300000 * int d) (xs ! i) \<longleftrightarrow> a \<le> i \<and> i < a + d" if "i < length xs" for i
    using regular_nth [OF assms(1) that] assms(2) by (simp add: in_span_def) linarith
  then show ?thesis using filter_range [of xs _ a "a + d"] by simp
qed

lemma ceil_to_below: "0 < r \<Longrightarrow> r < n \<Longrightarrow> n dvd b \<Longrightarrow> ceil_to n (b - r) = b"
proof -
  assume *: "0 < r" "r < n" "n dvd b"
  then obtain q where "b = n * q" by blast
  then have "- (b - r) = (- q) * n + r" by (simp add: algebra_simps)
  then have "(- (b - r)) div n = - q" using * quotient [of r n "- q"] by simp
  then show ?thesis using \<open>b = n * q\<close> by (simp add: ceil_to_def)
qed

lemma ceil_to_bounds: "0 < n \<Longrightarrow> n dvd ceil_to n t \<and> t \<le> ceil_to n t \<and> ceil_to n t < t + n"
  using div_bounds [of n "- t"] by (auto simp: ceil_to_def algebra_simps)

text \<open>Where the bars of a regular row begin: at the first record when no record lies before it, the first bar is missing.\<close>

lemma bars_regular:
  assumes reg: "regular t xs" and d: "1 < d" and ms: "ms = 300000 * int d" and first: "first = t + 300000 * int k" "ms dvd first"
    and k: "0 < k" and out: "\<And>p. k < length xs \<Longrightarrow> p = xs ! (k - 1) \<Longrightarrow> out = bars d ms (Some p) (drop k xs)"
      "length xs \<le> k \<Longrightarrow> out = []"
  shows "(j < length out \<longleftrightarrow> k + j * d < length xs) \<and> (j < length out \<longrightarrow> out ! j =
     \<lparr>sa_time = getUTCTimestamp (Some (first + int j * ms)),
      sa_value = max_from_zero (map sa_value (filter (in_span (first + int j * ms) (first + int j * ms + ms)) xs)),
      sa_anomaly = max_from_zero (map sa_anomaly (filter (in_span (first + int j * ms) (first + int j * ms + ms)) xs))\<rparr>)"
proof (cases "k < length xs")
  case True
  let ?p = "xs ! (k - 1)" and ?a = "k + j * d"
  have o: "out = bars d ms (Some ?p) (drop k xs)" using out(1) True by simp
  have b: "j < length out \<longleftrightarrow> j * d < length (drop k xs)"
    "j * d < length (drop k xs) \<Longrightarrow> out ! j = bar ms (if j = 0 then ?p else drop k xs ! (j * d - 1)) (take d (drop (j * d) (drop k xs)))"
    using bars_nth [of d j ms ?p "drop k xs"] d unfolding o by simp_all
  have l: "j * d < length (drop k xs) \<longleftrightarrow> ?a < length xs" by (simp only: length_drop less_diff_conv add.commute)
  have "out ! j =
     \<lparr>sa_time = getUTCTimestamp (Some (first + int j * ms)),
      sa_value = max_from_zero (map sa_value (filter (in_span (first + int j * ms) (first + int j * ms + ms)) xs)),
      sa_anomaly = max_from_zero (map sa_anomaly (filter (in_span (first + int j * ms) (first + int j * ms + ms)) xs))\<rparr>"
    if lt: "?a < length xs"
  proof -
    have p: "(if j = 0 then ?p else drop k xs ! (j * d - 1)) = xs ! (?a - 1)"
    proof (cases "j = 0")
      case False
      then have "1 \<le> j * d" using d by (cases j) simp_all
      then have "k + (j * d - 1) = ?a - 1" by (simp only: Nat.add_diff_assoc)
      moreover have "drop k xs ! (j * d - 1) = xs ! (k + (j * d - 1))" using True by (intro nth_drop) simp
      ultimately show ?thesis using False by simp
    qed simp
    obtain q where q: "?a = Suc q" using k by (cases ?a) auto
    then have "sample_time (xs ! (?a - 1)) = Some (t + 300000 * (int ?a - 1))"
      using regular_nth [OF reg, of q] lt by (simp only: q) simp
    also have "t + 300000 * (int ?a - 1) = first + int j * ms - 300000" by (simp add: first(1) ms algebra_simps)
    finally have "sample_time (xs ! (?a - 1)) = Some (first + int j * ms - 300000)" .
    moreover have "ceil_to ms (first + int j * ms - 300000) = first + int j * ms"
      using d first(2) by (intro ceil_to_below) (auto simp: ms)
    moreover have "filter (in_span (first + int j * ms) (first + int j * ms + ms)) xs = take d (drop ?a xs)"
      unfolding ms by (rule regular_span [OF reg]) (simp add: first(1) ms algebra_simps)
    ultimately show ?thesis using b(2) lt l by (simp add: bar_def p add.commute)
  qed
  then show ?thesis using b(1) l by simp
qed (simp add: out(2))

lemma before_last: "x = t + 300000 * int a \<Longrightarrow> x \<le> t + 300000 * (int n - 1) \<longleftrightarrow> a < n"
  by (simp only: add_le_cancel_left mult_le_cancel_left_pos zero_less_numeral) presburger

text \<open>C32: the bars of the views of days and weeks, for records every five minutes (\<open>shapeDataToMinutesPerBar\<close>). Bars are
  labelled with consecutive multiples of the length of a bar, each shows the highest score and value of the records in
  the interval that begins at its label, and every such interval up to the last record has its bar. They begin at the first
  multiple after the first record; when the first record lies on a multiple itself, its interval has no bar.\<close>

theorem bars_are_intervals:
  assumes "regular t input" and "300000 dvd t" and "minutesPerBar = 60 \<or> minutesPerBar = 480"
    and "ms = int minutesPerBar * 60000" and "ceil_to ms t \<le> t + 300000 * (int (length input) - 1)"
    and "first = (if ms dvd t then t + ms else ceil_to ms t)"
  shows "\<exists>out. shapeDataToMinutesPerBar minutesPerBar input = Inr out
    \<and> (\<forall>j. j < length out \<longleftrightarrow> first + int j * ms \<le> t + 300000 * (int (length input) - 1))
    \<and> (\<forall>j < length out. out ! j =
        \<lparr>sa_time = getUTCTimestamp (Some (first + int j * ms)),
         sa_value = max_from_zero (map sa_value (filter (in_span (first + int j * ms) (first + int j * ms + ms)) input)),
         sa_anomaly = max_from_zero (map sa_anomaly (filter (in_span (first + int j * ms) (first + int j * ms + ms)) input))\<rparr>)"
proof -
  define d where "d = minutesPerBar div minutesPerRecord"
  have d: "1 < d" "ms = 300000 * int d" "0 < ms" using assms(3,4) by (auto simp: d_def minutesPerRecord_def)
  have c: "ms dvd ceil_to ms t" "t \<le> ceil_to ms t" "ceil_to ms t < t + ms" using ceil_to_bounds [OF d(3), of t] by auto
  have "300000 dvd ceil_to ms t - t" using c(1) d(2) assms(2) by (meson dvd_diff dvd_trans dvd_triv_left)
  then obtain m where m: "ceil_to ms t - t = 300000 * m" by blast
  define n where "n = nat m"
  have n: "ceil_to ms t = t + 300000 * int n" using m c(2) by (simp add: n_def)
  have ne: "n < length input" using assms(5) by (simp add: n)
  then obtain x xs where input: "input = x # xs" by (cases input) auto
  have x: "sample_time x = Some t" using assms(1) by (simp add: input regular_Cons)
  have z: "ms dvd t \<longleftrightarrow> n = 0"
  proof
    assume "ms dvd t"
    then have "ms dvd 300000 * int n" using c(1) by (simp add: n dvd_add_right_iff)
    moreover have "300000 * int n < ms" using c(3) by (simp add: n)
    ultimately show "n = 0" using zdvd_imp_le [of ms "300000 * int n"] by auto
  next
    assume "n = 0"
    then show "ms dvd t" using c(1) by (simp add: n)
  qed
  define k where "k = (if n = 0 then d else n)"
  have first: "first = t + 300000 * int k" "ms dvd first" using assms(6) z c(1) d(2) n by (auto simp: k_def)
  define out where "out = bars d ms (if n = 0 then None else Some (input ! (n - 1))) (drop n input)"
  have shape: "shapeDataToMinutesPerBar minutesPerBar input = Inr out"
    using d(1) skip_regular [OF assms(1), of n] ne x
    by (simp add: shapeDataToMinutesPerBar_def out_def input d_def [symmetric] assms(4) [symmetric] n Let_def)
  have o1: "out = bars d ms (Some p) (drop k input)" if "k < length input" "p = input ! (k - 1)" for p
  proof (cases "n = 0")
    case True
    then have "last (take d input) = input ! (d - 1)" using that d(1) by (subst last_conv_nth) (auto simp: k_def)
    then show ?thesis using True that d(1) by (simp add: out_def k_def bars_None input del: take_Cons' drop_Cons')
  qed (simp add: out_def k_def that)
  have o2: "out = []" if "length input \<le> k"
    using that ne d(1) by (auto simp: out_def k_def bars_None split: if_splits)
  have k: "0 < k" using d(1) by (simp add: k_def)
  note b = bars_regular [OF assms(1) d(1,2) first k o1 o2]
  have "j < length out \<longleftrightarrow> first + int j * ms \<le> t + 300000 * (int (length input) - 1)" for j
  proof -
    have "first + int j * ms = t + 300000 * int (k + j * d)" by (simp add: first(1) d(2) algebra_simps)
    then have "first + int j * ms \<le> t + 300000 * (int (length input) - 1) \<longleftrightarrow> k + j * d < length input" by (rule before_last)
    then show ?thesis using b by simp
  qed
  then show ?thesis using shape b by blast
qed

lemma printed_sample:
  assumes "year_from_day (t div 86400000) = 2015" and "1000 dvd t"
  shows "sample_time \<lparr>sa_time = getUTCTimestamp (Some t), sa_value = v, sa_anomaly = a\<rparr> = Some t"
  using assms printed_read [of t] by (simp add: sample_time_def common_time_def get_utc_def Let_def dvd_div_mult_self)

lemma day_16677: "year_from_day 16677 = 2015"
  by (rule year_from_day_eq) (simp_all add: day_from_year_def)

theorem bars_are_intervals_witness:
  "shapeDataToMinutesPerBar 60 (map (\<lambda>(t, a). \<lparr>sa_time = getUTCTimestamp (Some t), sa_value = 0, sa_anomaly = a\<rparr>)
       [(1440932100000, 1), (1440932400000, 1 / 4), (1440932700000, 1 / 2)])
     = Inr [\<lparr>sa_time = getUTCTimestamp (Some 1440932400000), sa_value = 0, sa_anomaly = 1 / 2\<rparr>]"
proof -
  define xs where "xs = map (\<lambda>(t, a). \<lparr>sa_time = getUTCTimestamp (Some t), sa_value = 0, sa_anomaly = a :: rat\<rparr>)
    [(1440932100000, 1), (1440932400000, 1 / 4), (1440932700000, 1 / 2)]"
  have times: "sample_time \<lparr>sa_time = getUTCTimestamp (Some 1440932100000), sa_value = v, sa_anomaly = a\<rparr> = Some 1440932100000"
    "sample_time \<lparr>sa_time = getUTCTimestamp (Some 1440932400000), sa_value = v, sa_anomaly = a\<rparr> = Some 1440932400000"
    "sample_time \<lparr>sa_time = getUTCTimestamp (Some 1440932700000), sa_value = v, sa_anomaly = a\<rparr> = Some 1440932700000" for v a
    by (rule printed_sample; simp add: day_16677)+
  have reg: "regular 1440932100000 xs" by (simp add: xs_def regular_Cons times) (simp add: regular_def)
  have len: "length xs = 3" by (simp add: xs_def)
  let ?in = "\<lambda>j. filter (in_span (1440932400000 + int j * 3600000) (1440932400000 + int j * 3600000 + 3600000)) xs"
  have "\<exists>out. shapeDataToMinutesPerBar 60 xs = Inr out
    \<and> (\<forall>j. j < length out \<longleftrightarrow> 1440932400000 + int j * 3600000 \<le> 1440932100000 + 300000 * (int (length xs) - 1))
    \<and> (\<forall>j < length out. out ! j = \<lparr>sa_time = getUTCTimestamp (Some (1440932400000 + int j * 3600000)),
         sa_value = max_from_zero (map sa_value (?in j)), sa_anomaly = max_from_zero (map sa_anomaly (?in j))\<rparr>)"
    by (rule bars_are_intervals [OF reg]) (simp_all add: len ceil_to_def)
  then obtain out where o: "shapeDataToMinutesPerBar 60 xs = Inr out"
    "\<forall>j. j < length out \<longleftrightarrow> 1440932400000 + int j * 3600000 \<le> 1440932100000 + 300000 * (int (length xs) - 1)"
    "\<forall>j < length out. out ! j = \<lparr>sa_time = getUTCTimestamp (Some (1440932400000 + int j * 3600000)),
         sa_value = max_from_zero (map sa_value (?in j)), sa_anomaly = max_from_zero (map sa_anomaly (?in j))\<rparr>" by blast
  have "0 < length out" "\<not> 1 < length out" using spec [OF o(2), of 0] spec [OF o(2), of 1] by (simp_all add: len)
  then obtain r where r: "out = [r]" by (cases out) auto
  have "?in 0 = drop 1 xs" by (simp add: xs_def in_span_def times)
  then have "out = [\<lparr>sa_time = getUTCTimestamp (Some 1440932400000), sa_value = 0, sa_anomaly = 1 / 2\<rparr>]"
    using spec [OF o(3), of 0] by (simp add: r xs_def max_from_zero_def)
  then show ?thesis using o(1) by (simp only: xs_def)
qed

section \<open>Flags\<close>

lemma group_keys_set [simp]: "set (group_keys xs) = set xs"
  by (induction xs) auto

lemma group_keys_distinct [simp]: "distinct (group_keys xs)"
  by (induction xs) auto

text \<open>A timestamp as the server prints it, of a time near which years have four digits.\<close>

definition server_time :: "int \<Rightarrow> string \<Rightarrow> bool" where
  "server_time ms s = (\<exists>t. s = getUTCTimestamp (Some t) \<and> common_time t \<and> common_time (floor_to ms t) \<and> common_time (floor_to ms t + ms))"

lemma in_bar:
  assumes "0 < ms" and "1000 dvd ms" and "common_time t" and "common_time (floor_to ms u)" and "common_time (floor_to ms u + ms)"
  shows "getUTCTimestamp (Some (floor_to ms u)) \<le> getUTCTimestamp (Some t) \<and> getUTCTimestamp (Some t) < getUTCTimestamp (Some (floor_to ms u + ms))
    \<longleftrightarrow> floor_to ms (t div 1000 * 1000) = floor_to ms u"
proof -
  obtain q where q: "ms = 1000 * q" using assms(2) by blast
  then have q0: "0 < q" using assms(1) by simp
  let ?k = "u div ms" and ?s = "t div 1000"
  have f: "floor_to ms u div 1000 = ?k * q" "(floor_to ms u + ms) div 1000 = ?k * q + q"
    by (simp_all add: floor_to_def q algebra_simps)
  have "?s * 1000 div ms = ?s div q" using div_mult_mult2 [of 1000 ?s q] by (simp add: q mult.commute)
  then have r: "floor_to ms (?s * 1000) = floor_to ms u \<longleftrightarrow> ?s div q = ?k" using assms(1) by (simp add: floor_to_def)
  have "?k * q \<le> ?s \<and> ?s < ?k * q + q \<longleftrightarrow> ?s div q = ?k"
    using div_bounds [OF q0, of ?s] quotient [of "?s - ?k * q" q ?k] by (auto simp: algebra_simps)
  then show ?thesis unfolding r
    using printed_order [OF assms(3,4)] printed_order [OF assms(3,5)] f by (auto simp: not_less [symmetric])
qed

text \<open>the flags of annotations, one per bar. For timestamps as the server prints them, every annotation of the instance is
  under exactly one flag of its row (\<open>getFormattedAnnotations\<close>), flags are distinct, none is empty, and a click on a flag lists
  exactly the annotations under it (\<open>handleAnnotation\<close>, which compares strings).\<close>

theorem flags_list_annotations:
  assumes "0 < minutesPerBar" and "\<forall>ann\<in>set annotations. server_time (int minutesPerBar * 60000) (an_timestamp ann)"
  shows "distinct (getFormattedAnnotations minutesPerBar i annotations)
    \<and> (\<forall>ann\<in>set annotations. an_server ann = i \<longrightarrow>
         (\<exists>!x. x \<in> set (getFormattedAnnotations minutesPerBar i annotations) \<and> ann \<in> set (handleAnnotation minutesPerBar i annotations x)))
    \<and> (\<forall>x\<in>set (getFormattedAnnotations minutesPerBar i annotations). handleAnnotation minutesPerBar i annotations x \<noteq> [])"
proof -
  let ?ms = "int minutesPerBar * 60000"
  have ms: "0 < ?ms" "1000 dvd ?ms" using assms(1) by simp_all
  have listed: "ann \<in> set (handleAnnotation minutesPerBar i annotations (annotation_bar ?ms b))
      \<longleftrightarrow> annotation_bar ?ms ann = annotation_bar ?ms b"
    if ann: "ann \<in> set annotations" "an_server ann = i" and b: "b \<in> set annotations" for ann b
  proof -
    obtain t where t: "an_timestamp ann = getUTCTimestamp (Some t)" "common_time t" using assms(2) ann by (auto simp: server_time_def)
    obtain u where u: "an_timestamp b = getUTCTimestamp (Some u)" "common_time u" "common_time (floor_to ?ms u)" "common_time (floor_to ?ms u + ?ms)"
      using assms(2) b by (auto simp: server_time_def)
    have "u div 1000 * 1000 div ?ms = u div ?ms"
      using div_mult_mult2 [of 1000 "u div 1000" "int minutesPerBar * 60"] zdiv_zmult2_eq [of "int minutesPerBar * 60" u 1000]
      by (simp add: mult.commute)
    then have "annotation_bar ?ms b = Some (floor_to ?ms u)" by (simp add: annotation_bar_def u printed_read floor_to_def)
    moreover have "annotation_bar ?ms ann = Some (floor_to ?ms (t div 1000 * 1000))" by (simp add: annotation_bar_def t printed_read)
    ultimately show ?thesis using in_bar [OF ms t(2) u(3,4)] ann t(1) by (simp add: handleAnnotation_def)
  qed
  let ?flags = "getFormattedAnnotations minutesPerBar i annotations"
  have flags: "x \<in> set ?flags \<longleftrightarrow> (\<exists>b\<in>set annotations. an_server b = i \<and> x = annotation_bar ?ms b)" for x
    by (auto simp: getFormattedAnnotations_def)
  have "\<exists>!x. x \<in> set ?flags \<and> ann \<in> set (handleAnnotation minutesPerBar i annotations x)"
    if "ann \<in> set annotations" "an_server ann = i" for ann
    using that listed by (intro ex1I [of _ "annotation_bar ?ms ann"]) (auto simp: flags)
  moreover have "handleAnnotation minutesPerBar i annotations x \<noteq> []" if "x \<in> set ?flags" for x
    using that listed by (fastforce simp: flags)
  moreover have "distinct ?flags" by (simp add: getFormattedAnnotations_def)
  ultimately show ?thesis by blast
qed

theorem flags_list_annotations_witness:
  "handleAnnotation 60 ''i-1'' [\<lparr>an_server = ''i-1'', an_timestamp = getUTCTimestamp (Some 1440932700000)\<rparr>]
     (hd (getFormattedAnnotations 60 ''i-1'' [\<lparr>an_server = ''i-1'', an_timestamp = getUTCTimestamp (Some 1440932700000)\<rparr>])) \<noteq> []"
proof -
  let ?as = "[\<lparr>an_server = ''i-1'', an_timestamp = getUTCTimestamp (Some 1440932700000)\<rparr>]"
  have c: "common_time 1440932700000" "common_time 1440932400000" "common_time 1440936000000"
    by (simp_all add: common_time_def get_utc_def Let_def day_16677)
  have s: "server_time (int 60 * 60000) (getUTCTimestamp (Some 1440932700000))"
    unfolding server_time_def by (rule exI [of _ 1440932700000]) (simp add: c floor_to_def)
  have "\<forall>x\<in>set (getFormattedAnnotations 60 ''i-1'' ?as). handleAnnotation 60 ''i-1'' ?as x \<noteq> []"
    using flags_list_annotations [of 60 ?as "''i-1''"] s by simp
  moreover have "getFormattedAnnotations 60 ''i-1'' ?as \<noteq> []" by (simp add: getFormattedAnnotations_def)
  ultimately show ?thesis using hd_in_set by blast
qed

section \<open>Height of a bar\<close>

lemma log_denominator: "ln (1.0 - 0.9999999999 :: real) = - 10 * ln 10"
proof -
  have "(1.0 - 0.9999999999 :: real) = inverse (10 ^ 10)" by simp
  then show ?thesis using ln_inverse [of "10 ^ 10 :: real"] ln_realpow [of "10 :: real" 10] by simp
qed

lemma ln_10: "1 < ln (10 :: real)"
proof -
  have "exp 1 \<le> (3 :: real)" by (rule exp_le)
  then have "ln (exp 1) < ln (10 :: real)" by (subst ln_less_cancel_iff) (simp_all add: le_less_trans)
  then show ?thesis by simp
qed

lemma logScale_low:
  assumes "0 \<le> w" and "w \<le> 0.99999"
  shows "logScale w = - ln (1.0000000001 - w) / (10 * ln 10) \<and> - 1 / 10 ^ 10 < logScale w \<and> logScale w \<le> 1 / 2"
proof -
  let ?g = "1.0000000001 - w"
  have eq: "logScale w = - ln ?g / (10 * ln 10)"
    using assms unfolding logScale_def log_denominator by (simp add: divide_simps)
  have "ln ?g \<le> ?g - 1" using assms by (intro ln_le_minus_one) simp
  then have "ln ?g \<le> 1 / 10 ^ 10" using assms by simp
  also have "\<dots> < 1 / 10 ^ 10 * (10 * ln 10)" using ln_10 by simp
  finally have a: "- 1 / 10 ^ 10 < logScale w" using ln_10 by (simp add: eq field_simps)
  have "ln (inverse (10 ^ 5)) \<le> ln ?g" using assms by (subst ln_le_cancel_iff) (simp_all add: divide_simps)
  then have "- (5 * ln 10) \<le> ln ?g" by (simp only: ln_inverse ln_realpow)
  then have "logScale w \<le> 1 / 2" using ln_10 by (simp add: eq field_simps)
  then show ?thesis using a eq by simp
qed

text \<open>the height of a bar (\<open>logScale\<close>, the real function; the code rounds). It grows with the score; scores up to
  0.99999 fill at most half of the row and higher ones all of it; the height of a score from \<open>0\<close> is never below the axis by
  more than \<open>1 / 10 ^ 10\<close>.\<close>

theorem height_grows_with_score:
  assumes "0 \<le> u" and "u < v" and "v \<le> 1"
  shows "- 1 / 10 ^ 10 < logScale u \<and> (if v \<le> 0.99999 then logScale u < logScale v \<and> logScale v \<le> 1 / 2
    else logScale v = 1 \<and> logScale u \<le> 1)"
proof (cases "v \<le> 0.99999")
  case True
  then have "ln (1.0000000001 - v) < ln (1.0000000001 - u)" using assms by (subst ln_less_cancel_iff) simp_all
  then have "logScale u < logScale v" using logScale_low [of u] logScale_low [of v] assms True ln_10
    by (simp add: divide_strict_right_mono)
  moreover have "u \<le> 0.99999" "0 \<le> v" using assms True by linarith+
  then have "- 1 / 10 ^ 10 < logScale u" "logScale v \<le> 1 / 2" using logScale_low assms(1) True by blast+
  ultimately show ?thesis using True by simp
next
  case False
  then have "logScale v = 1" by (simp add: logScale_def)
  moreover have "- 1 / 10 ^ 10 < logScale u \<and> logScale u \<le> 1"
  proof (cases "u \<le> 0.99999")
    case True
    then have "- 1 / 10 ^ 10 < logScale u" "logScale u \<le> 1 / 2" using logScale_low assms(1) by blast+
    then show ?thesis by linarith
  qed (simp add: logScale_def)
  ultimately show ?thesis using False by simp
qed

theorem height_grows_with_score_witness: "logScale (1 / 2) < logScale (9 / 10) \<and> logScale (9 / 10) \<le> 1 / 2"
  using height_grows_with_score [of "1 / 2" "9 / 10"] by simp

end
