(* ===== verification/Web_Chart_Clicks.thy ===== *)
theory Web_Chart_Clicks
  imports Prelude
begin

text \<open>
  The rows of the HTM.IT charts and the clicks on them, \<open>handleClick\<close> of
  \<open>program/views/panels/embedChartsRows.js\<close>: all instances, or one instance with its metrics and their details. A click
  starts animations of jQuery and sets \<open>isBusy\<close>; the ends of the animations are events. The theorems say that in every
  order of clicks and ends the rows are those of the view, and that the page does not stay busy.
\<close>

section \<open>Rows and events\<close>

datatype row_type = RowInstance | RowMetric | RowDetail

text \<open>A view of a row: its identity, \<open>type\<close>, \<open>instance\<close>, \<open>modelId\<close> and \<open>detailExpanded\<close>.\<close>

record row =
  rw_id :: nat
  rw_type :: row_type
  rw_instance :: string
  rw_model :: string
  rw_detail :: "nat option"

datatype chart_view = InstanceView | MetricView

text \<open>What the callbacks of the running animations will do.\<close>

datatype phase = Idle | HidingOthers string | ShowingMetrics | HidingMetrics | ShowingInstances | HidingDetail nat | ShowingDetail

record clicks =
  ck_state :: chart_view
  ck_busy :: bool
  ck_lines :: bool
  ck_rows :: "row list"
  ck_next :: nat
  ck_phase :: phase

text \<open>\<open>markers.update()\<close> draws the lines of the markers again.\<close>

definition redraw :: "clicks \<Rightarrow> clicks" where
  "redraw s = s\<lparr>ck_lines := True\<rparr>"

definition set_detail :: "nat \<Rightarrow> nat option \<Rightarrow> row list \<Rightarrow> row list" where
  "set_detail i d rows = map (\<lambda>r. if rw_id r = i then r\<lparr>rw_detail := d\<rparr> else r) rows"

definition handleClick :: "row \<Rightarrow> clicks \<Rightarrow> clicks" where
  "handleClick rowView s =
     (if ck_busy s then s
      else let s = s\<lparr>ck_lines := False\<rparr>
      in if ck_state s = InstanceView \<and> rw_type rowView = RowInstance
         then s\<lparr>ck_busy := True, ck_phase := HidingOthers (rw_instance rowView)\<rparr>
         else if ck_state s = MetricView then
           (case rw_type rowView of
              RowInstance \<Rightarrow> s\<lparr>ck_busy := True, ck_rows := filter (\<lambda>r. rw_type r = RowInstance) (ck_rows s), ck_phase := HidingMetrics\<rparr>
            | RowMetric \<Rightarrow>
                (case rw_detail rowView of
                   Some d \<Rightarrow> s\<lparr>ck_busy := True, ck_rows := filter (\<lambda>r. rw_id r \<noteq> d) (ck_rows s), ck_phase := HidingDetail (rw_id rowView)\<rparr>
                 | None \<Rightarrow> s\<lparr>ck_busy := True,
                     ck_rows := set_detail (rw_id rowView) (Some (ck_next s)) (ck_rows s) @
                       [\<lparr>rw_id = ck_next s, rw_type = RowDetail, rw_instance = rw_instance rowView, rw_model = rw_model rowView,
                         rw_detail = None\<rparr>],
                     ck_next := ck_next s + 1, ck_phase := ShowingDetail\<rparr>)
            | RowDetail \<Rightarrow> s)
         else s)"

text \<open>The metrics of an instance that have data, as new rows.\<close>

definition metric_rows :: "nat \<Rightarrow> string \<Rightarrow> string list \<Rightarrow> row list" where
  "metric_rows n i models = map (\<lambda>(k, m). \<lparr>rw_id = n + k, rw_type = RowMetric, rw_instance = i, rw_model = m, rw_detail = None\<rparr>)
     (enumerate 0 models)"

definition animation_done :: "(string \<Rightarrow> string list) \<Rightarrow> (string \<Rightarrow> bool) \<Rightarrow> clicks \<Rightarrow> clicks" where
  "animation_done models_of has_data s =
     (case ck_phase s of
        Idle \<Rightarrow> s
      | HidingOthers i \<Rightarrow>
          (let models = filter has_data (models_of i)
           in s\<lparr>ck_rows := ck_rows s @ metric_rows (ck_next s) i models, ck_next := ck_next s + length models, ck_phase := ShowingMetrics\<rparr>)
      | ShowingMetrics \<Rightarrow> (redraw s)\<lparr>ck_state := MetricView, ck_busy := False, ck_phase := Idle\<rparr>
      | HidingMetrics \<Rightarrow> s\<lparr>ck_phase := ShowingInstances\<rparr>
      | ShowingInstances \<Rightarrow> (redraw s)\<lparr>ck_state := InstanceView, ck_busy := False, ck_phase := Idle\<rparr>
      | HidingDetail r \<Rightarrow> (redraw s)\<lparr>ck_rows := set_detail r None (ck_rows s), ck_busy := False, ck_phase := Idle\<rparr>
      | ShowingDetail \<Rightarrow> (redraw s)\<lparr>ck_busy := False, ck_phase := Idle\<rparr>)"

text \<open>A click on one of the rows, or the end of the running animations; the data of the models may change in between.\<close>

datatype click_event = Click nat | AnimationEnd "string \<Rightarrow> bool"

fun click_step :: "(string \<Rightarrow> string list) \<Rightarrow> click_event \<Rightarrow> clicks \<Rightarrow> clicks" where
  "click_step models_of (Click i) s = (case find (\<lambda>r. rw_id r = i) (ck_rows s) of None \<Rightarrow> s | Some r \<Rightarrow> handleClick r s)"
| "click_step models_of (AnimationEnd has_data) s = animation_done models_of has_data s"

text \<open>The rows of instances when the charts are first shown.\<close>

definition first_rows :: "string list \<Rightarrow> row list" where
  "first_rows instances = map (\<lambda>(k, i). \<lparr>rw_id = k, rw_type = RowInstance, rw_instance = i, rw_model = [], rw_detail = None\<rparr>)
     (enumerate 0 instances)"

definition first_clicks :: "string list \<Rightarrow> clicks" where
  "first_clicks instances = \<lparr>ck_state = InstanceView, ck_busy = False, ck_lines = True, ck_rows = first_rows instances,
     ck_next = length instances, ck_phase = Idle\<rparr>"

section \<open>The order of the rows\<close>

text \<open>\<open>updateSortOrder\<close>: the rows of instances after the markers. A row whose instance is not in the list gets the index
  \<open>-1\<close> and is not put back.\<close>

definition updateSortOrder :: "string list \<Rightarrow> row list \<Rightarrow> row list" where
  "updateSortOrder instances rows =
     List.map_filter (\<lambda>i. find (\<lambda>r. rw_type r = RowInstance \<and> rw_instance r = i) (rev rows)) instances"

section \<open>Every order of events\<close>

definition of_type :: "row_type \<Rightarrow> row list \<Rightarrow> row list" where
  "of_type t rows = filter (\<lambda>r. rw_type r = t) rows"

text \<open>The details that are rows, and those that metrics have open, each with its model.\<close>

definition detail_rows :: "row list \<Rightarrow> (nat \<times> string) set" where
  "detail_rows rows = (\<lambda>r. (rw_id r, rw_model r)) ` set (of_type RowDetail rows)"

definition opened :: "nat option \<Rightarrow> string \<Rightarrow> (nat \<times> string) set" where
  "opened d m = (case d of None \<Rightarrow> {} | Some n \<Rightarrow> {(n, m)})"

definition open_details :: "row list \<Rightarrow> (nat \<times> string) set" where
  "open_details rows = (\<Union>r\<in>set (of_type RowMetric rows). opened (rw_detail r) (rw_model r))"

text \<open>One instance with its metrics, and the details they have open.\<close>

definition metric_view :: "(string \<Rightarrow> string list) \<Rightarrow> row list \<Rightarrow> bool" where
  "metric_view models_of rows = (\<exists>i keep. map rw_model (of_type RowMetric rows) = filter keep (models_of i)
     \<and> (\<forall>r\<in>set rows. rw_type r \<noteq> RowInstance \<longrightarrow> rw_instance r = i))"

definition clicks_inv :: "(string \<Rightarrow> string list) \<Rightarrow> row list \<Rightarrow> clicks \<Rightarrow> bool" where
  "clicks_inv models_of insts s =
     (ck_busy s = (ck_phase s \<noteq> Idle) \<and> of_type RowInstance (ck_rows s) = insts
      \<and> distinct (map rw_id (ck_rows s)) \<and> (\<forall>r\<in>set (ck_rows s). rw_id r < ck_next s)
      \<and> (\<forall>r\<in>set (ck_rows s). rw_type r \<noteq> RowMetric \<longrightarrow> rw_detail r = None)
      \<and> (case ck_phase s of
           Idle \<Rightarrow> if ck_state s = InstanceView then ck_rows s = insts
             else metric_view models_of (ck_rows s) \<and> detail_rows (ck_rows s) = open_details (ck_rows s)
         | HidingOthers i \<Rightarrow> ck_state s = InstanceView \<and> ck_rows s = insts
         | ShowingMetrics \<Rightarrow> ck_state s = InstanceView \<and> metric_view models_of (ck_rows s)
             \<and> detail_rows (ck_rows s) = open_details (ck_rows s)
         | HidingMetrics \<Rightarrow> ck_state s = MetricView \<and> ck_rows s = insts
         | ShowingInstances \<Rightarrow> ck_state s = MetricView \<and> ck_rows s = insts
         | HidingDetail i \<Rightarrow> ck_state s = MetricView \<and> metric_view models_of (ck_rows s)
             \<and> detail_rows (ck_rows s) = open_details (set_detail i None (ck_rows s))
         | ShowingDetail \<Rightarrow> ck_state s = MetricView \<and> metric_view models_of (ck_rows s)
             \<and> detail_rows (ck_rows s) = open_details (ck_rows s)))"

lemma set_detail_maps [simp]:
  "map rw_id (set_detail i d rows) = map rw_id rows" "map rw_model (set_detail i d rows) = map rw_model rows"
  "of_type t (set_detail i d rows) = set_detail i d (of_type t rows)"
  by (induction rows) (auto simp: set_detail_def of_type_def)

lemma set_detail_in: "r \<in> set (set_detail i d rows) \<longleftrightarrow>
    (\<exists>x\<in>set rows. r = (if rw_id x = i then x\<lparr>rw_detail := d\<rparr> else x))"
  by (induction rows) (auto simp: set_detail_def)

lemma of_type_in [simp]: "r \<in> set (of_type t rows) \<longleftrightarrow> r \<in> set rows \<and> rw_type r = t"
  by (auto simp: of_type_def)

lemma of_type_append [simp]: "of_type t (xs @ ys) = of_type t xs @ of_type t ys"
  by (simp add: of_type_def)

lemma set_detail_detail_rows [simp]: "detail_rows (set_detail i d rows) = detail_rows rows"
  by (induction rows) (auto simp: detail_rows_def of_type_def set_detail_def)

lemma set_detail_metric_view [simp]: "metric_view models_of (set_detail i d rows) = metric_view models_of rows"
proof -
  have "(\<forall>r\<in>set (set_detail i d rows). rw_type r \<noteq> RowInstance \<longrightarrow> rw_instance r = j)
      \<longleftrightarrow> (\<forall>r\<in>set rows. rw_type r \<noteq> RowInstance \<longrightarrow> rw_instance r = j)" for j
    by (induction rows) (auto simp: set_detail_def)
  then show ?thesis by (simp add: metric_view_def)
qed

lemma set_detail_absent: "i \<notin> rw_id ` set rows \<Longrightarrow> set_detail i d rows = rows"
  by (induction rows) (auto simp: set_detail_def)

lemma set_detail_none: "\<forall>r\<in>set rows. rw_detail r = None \<Longrightarrow> set_detail i None rows = rows"
  by (induction rows) (auto simp: set_detail_def)

lemma same_id: "distinct (map rw_id rows) \<Longrightarrow> r \<in> set rows \<Longrightarrow> x \<in> set rows \<Longrightarrow> rw_id x = rw_id r \<Longrightarrow> x = r"
  by (simp add: distinct_map inj_on_def)

text \<open>The open details apart from those of one row.\<close>

definition other_details :: "nat \<Rightarrow> row list \<Rightarrow> (nat \<times> string) set" where
  "other_details i rows = (\<Union>r\<in>{r \<in> set (of_type RowMetric rows). rw_id r \<noteq> i}. opened (rw_detail r) (rw_model r))"

lemma open_details_set_detail:
  "open_details (set_detail i d rows) = (\<Union>r\<in>set (of_type RowMetric rows). opened (if rw_id r = i then d else rw_detail r) (rw_model r))"
  by (induction rows) (auto simp: open_details_def of_type_def set_detail_def)

lemma split_details:
  assumes "distinct (map rw_id rows)" and "r \<in> set rows" and "rw_type r = RowMetric"
  shows "open_details (set_detail (rw_id r) d rows) = other_details (rw_id r) rows \<union> opened d (rw_model r)"
    and "open_details rows = other_details (rw_id r) rows \<union> opened (rw_detail r) (rw_model r)"
proof -
  have same: "x = r" if "x \<in> set rows" "rw_id x = rw_id r" for x using same_id [OF assms(1,2) that] .
  have "set (of_type RowMetric rows) = insert r {x \<in> set (of_type RowMetric rows). rw_id x \<noteq> rw_id r}"
    using same assms(2,3) by auto
  then show "open_details rows = other_details (rw_id r) rows \<union> opened (rw_detail r) (rw_model r)"
    and "open_details (set_detail (rw_id r) d rows) = other_details (rw_id r) rows \<union> opened d (rw_model r)"
    unfolding open_details_def [of rows] open_details_set_detail other_details_def by auto
qed

text \<open>Closing a detail: the metric that has it open is the only one, since the models of an instance are distinct.\<close>

lemma close_detail:
  assumes dist: "distinct (map rw_id rows)" and mods: "distinct (map rw_model (of_type RowMetric rows))"
    and r: "r \<in> set rows" "rw_type r = RowMetric" "rw_detail r = Some d" and eq: "detail_rows rows = open_details rows"
  shows "detail_rows (filter (\<lambda>x. rw_id x \<noteq> d) rows) = open_details (set_detail (rw_id r) None (filter (\<lambda>x. rw_id x \<noteq> d) rows))
    \<and> (\<forall>x\<in>set rows. rw_id x = d \<longrightarrow> rw_type x = RowDetail)"
proof -
  let ?rows = "filter (\<lambda>x. rw_id x \<noteq> d) rows"
  have split: "open_details rows = other_details (rw_id r) rows \<union> {(d, rw_model r)}"
    using split_details(2) [OF dist r(1,2)] r(3) by (simp add: opened_def)
  then have "(d, rw_model r) \<in> detail_rows rows" by (simp add: eq)
  then obtain y where y: "y \<in> set rows" "rw_type y = RowDetail" "rw_id y = d" "rw_model y = rw_model r" by (auto simp: detail_rows_def)
  have only: "x = y" if "x \<in> set rows" "rw_id x = d" for x using same_id [OF dist y(1) that(1)] that y(3) by simp
  have other: "e \<noteq> d" if em: "(e, m) \<in> other_details (rw_id r) rows" for e m
  proof
    assume "e = d"
    then obtain x where x: "x \<in> set rows" "rw_type x = RowMetric" "rw_id x \<noteq> rw_id r" "rw_detail x = Some d"
      using em by (auto simp: other_details_def opened_def split: option.splits)
    then have "(d, rw_model x) \<in> open_details rows" using split_details(2) [OF dist x(1,2)] by (simp add: opened_def)
    then obtain z where "z \<in> set rows" "rw_id z = d" "rw_model z = rw_model x" by (auto simp: eq [symmetric] detail_rows_def)
    then have "rw_model x = rw_model r" using only y(4) by metis
    then have "x = r" using inj_onD [of rw_model "set (of_type RowMetric rows)" x r] mods x(1,2) r(1,2) by (simp add: distinct_map)
    then show False using x(3) by simp
  qed
  have r': "r \<in> set ?rows" using r(1,2) y(2) only [of r] by auto
  have "detail_rows ?rows = {p \<in> detail_rows rows. fst p \<noteq> d}" by (auto simp: detail_rows_def)
  also have "\<dots> = other_details (rw_id r) rows" using other [of d] other by (fastforce simp: eq split)
  also have "\<dots> = other_details (rw_id r) ?rows"
  proof -
    have "rw_id x \<noteq> d" if "x \<in> set rows" "rw_type x = RowMetric" for x using only [OF that(1)] that(2) y(2) by auto
    then show ?thesis by (auto simp: other_details_def)
  qed
  also have "\<dots> = open_details (set_detail (rw_id r) None ?rows)"
    using split_details(1) [OF _ r' r(2), of None] dist by (simp add: distinct_map_filter opened_def)
  finally show ?thesis using only y(2) by blast
qed

lemma metric_view_models: "metric_view models_of rows \<Longrightarrow> (\<And>i. distinct (models_of i)) \<Longrightarrow> distinct (map rw_model (of_type RowMetric rows))"
  by (auto simp: metric_view_def)

lemma metric_view_filter:
  "metric_view models_of rows \<Longrightarrow> (\<And>x. x \<in> set rows \<Longrightarrow> \<not> P x \<Longrightarrow> rw_type x = RowDetail) \<Longrightarrow> metric_view models_of (filter P rows)"
proof -
  assume "metric_view models_of rows" and P: "\<And>x. x \<in> set rows \<Longrightarrow> \<not> P x \<Longrightarrow> rw_type x = RowDetail"
  moreover have "of_type RowMetric (filter P rows) = of_type RowMetric rows"
    using P by (induction rows) (auto simp: of_type_def)
  ultimately show ?thesis by (auto simp: metric_view_def)
qed

text \<open>New rows of metrics.\<close>

lemma metric_rows_props:
  "map rw_model (of_type RowMetric (metric_rows n i ms)) = ms" "of_type RowInstance (metric_rows n i ms) = []"
  "of_type RowDetail (metric_rows n i ms) = []" "map rw_id (metric_rows n i ms) = [n..<n + length ms]"
  "r \<in> set (metric_rows n i ms) \<Longrightarrow> rw_instance r = i \<and> rw_detail r = None \<and> rw_type r = RowMetric"
proof -
  show "map rw_id (metric_rows n i ms) = [n..<n + length ms]"
    by (rule nth_equalityI) (auto simp: metric_rows_def nth_enumerate_eq)
  have "of_type RowMetric (metric_rows n i ms) = metric_rows n i ms" by (auto simp: of_type_def metric_rows_def filter_id_conv)
  moreover have "map rw_model (metric_rows n i ms) = ms"
    by (rule nth_equalityI) (auto simp: metric_rows_def nth_enumerate_eq)
  ultimately show "map rw_model (of_type RowMetric (metric_rows n i ms)) = ms" by simp
qed (auto simp: of_type_def metric_rows_def filter_empty_conv)

lemma inv_rows_inst: "of_type RowInstance rows = rows \<Longrightarrow> r \<in> set rows \<Longrightarrow> rw_type r = RowInstance"
  by (metis of_type_in)

text \<open>The rows after opening the metrics of an instance, and after opening and closing a detail.\<close>

lemma rows_open_metrics:
  assumes "of_type RowInstance insts = insts"
  shows "metric_view models_of (insts @ metric_rows n i (filter keep (models_of i)))"
    and "detail_rows (insts @ metric_rows n i (filter keep (models_of i))) = open_details (insts @ metric_rows n i (filter keep (models_of i)))"
proof -
  have t: "of_type RowMetric insts = []" "of_type RowDetail insts = []" "\<forall>r\<in>set insts. rw_type r = RowInstance"
    using inv_rows_inst [OF assms] by (auto simp: of_type_def filter_empty_conv)
  show "metric_view models_of (insts @ metric_rows n i (filter keep (models_of i)))"
    using t metric_rows_props(1,5) by (auto simp: metric_view_def)
  show "detail_rows (insts @ metric_rows n i (filter keep (models_of i))) = open_details (insts @ metric_rows n i (filter keep (models_of i)))"
    using metric_rows_props(5) [of _ n i] by (auto simp: detail_rows_def open_details_def t metric_rows_props opened_def)
qed

lemma rows_open_detail:
  assumes dist: "distinct (map rw_id rows)" and r: "r \<in> set rows" "rw_type r = RowMetric" "rw_detail r = None"
    and d: "d = \<lparr>rw_id = n, rw_type = RowDetail, rw_instance = rw_instance r, rw_model = rw_model r, rw_detail = None\<rparr>"
    and eq: "detail_rows rows = open_details rows" and mv: "metric_view models_of rows"
  shows "metric_view models_of (set_detail (rw_id r) (Some n) rows @ [d])"
    and "detail_rows (set_detail (rw_id r) (Some n) rows @ [d]) = open_details (set_detail (rw_id r) (Some n) rows @ [d])"
proof -
  let ?rows = "set_detail (rw_id r) (Some n) rows"
  have "metric_view models_of ?rows" using mv by simp
  moreover have "\<exists>x\<in>set ?rows. rw_type x = RowMetric \<and> rw_instance x = rw_instance r"
    using r by (intro bexI [of _ "r\<lparr>rw_detail := Some n\<rparr>"]) (auto simp: set_detail_in)
  ultimately show "metric_view models_of (?rows @ [d])" by (fastforce simp: metric_view_def d of_type_def)
  have "detail_rows (?rows @ [d]) = detail_rows rows \<union> {(n, rw_model r)}"
    using set_detail_detail_rows [of "rw_id r" "Some n" rows] by (auto simp: detail_rows_def d of_type_def)
  also have "\<dots> = open_details ?rows" using split_details [OF dist r(1,2)] r(3) by (simp add: eq opened_def)
  also have "\<dots> = open_details (?rows @ [d])" by (simp add: open_details_def d of_type_def)
  finally show "detail_rows (?rows @ [d]) = open_details (?rows @ [d])" .
qed

lemma first_clicks_inv: "clicks_inv models_of (first_rows instances) (first_clicks instances)"
proof -
  have "map rw_id (first_rows instances) = [0..<length instances]"
    by (rule nth_equalityI) (auto simp: first_rows_def nth_enumerate_eq)
  moreover have "of_type RowInstance (first_rows instances) = first_rows instances"
    by (auto simp: of_type_def first_rows_def filter_id_conv)
  moreover have "rw_id r < length instances \<and> rw_detail r = None" if "r \<in> set (first_rows instances)" for r
    using that by (auto simp: first_rows_def in_set_enumerate_eq)
  ultimately show ?thesis by (simp add: clicks_inv_def first_clicks_def)
qed

lemma animation_inv:
  assumes inv: "clicks_inv models_of insts s" and insts: "of_type RowInstance insts = insts"
  shows "clicks_inv models_of insts (animation_done models_of has_data s)"
proof (cases "ck_phase s")
  case (HidingOthers i)
  let ?new = "metric_rows (ck_next s) i (filter has_data (models_of i))"
  have s: "ck_rows s = insts" "ck_state s = InstanceView" "ck_busy s" "distinct (map rw_id insts)" "\<forall>r\<in>set insts. rw_id r < ck_next s"
    "\<forall>r\<in>set insts. rw_type r \<noteq> RowMetric \<longrightarrow> rw_detail r = None"
    using inv HidingOthers by (auto simp: clicks_inv_def)
  have ids: "rw_id r \<in> set [ck_next s..<ck_next s + length (filter has_data (models_of i))]" if "r \<in> set ?new" for r
    using that metric_rows_props(4) [of "ck_next s" i "filter has_data (models_of i)"] by (metis image_eqI list.set_map)
  have "distinct (map rw_id (insts @ ?new))" using s(4,5) ids by (auto simp: metric_rows_props(4) distinct_map intro: ccontr)
  then show ?thesis
    using HidingOthers s ids insts rows_open_metrics [OF insts, where models_of = models_of and n = "ck_next s" and i = i and keep = has_data]
      metric_rows_props(2) [of "ck_next s" i "filter has_data (models_of i)"] metric_rows_props(5)
    by (fastforce simp: clicks_inv_def animation_done_def Let_def)
next
  case (HidingDetail i)
  then have "set_detail i None insts = insts" using inv by (intro set_detail_none) (auto simp: clicks_inv_def)
  then show ?thesis using inv HidingDetail
    by (auto simp: clicks_inv_def animation_done_def redraw_def set_detail_in split: if_splits)
qed (use inv in \<open>auto simp: clicks_inv_def animation_done_def redraw_def split: if_splits\<close>)

lemma handleClick_inv:
  assumes inv: "clicks_inv models_of insts s" and insts: "of_type RowInstance insts = insts"
    and dist: "\<And>i. distinct (models_of i)" and r: "r \<in> set (ck_rows s)"
  shows "clicks_inv models_of insts (handleClick r s)"
proof (cases "ck_busy s \<or> ck_state s = InstanceView")
  case True
  then show ?thesis using inv inv_rows_inst [OF insts] r by (auto simp: clicks_inv_def handleClick_def Let_def)
next
  case False
  then have s: "ck_state s = MetricView" "\<not> ck_busy s" "ck_phase s = Idle" using inv by (cases "ck_state s"; auto simp: clicks_inv_def)+
  then have i: "of_type RowInstance (ck_rows s) = insts" "distinct (map rw_id (ck_rows s))" "\<forall>r\<in>set (ck_rows s). rw_id r < ck_next s"
    "\<forall>r\<in>set (ck_rows s). rw_type r \<noteq> RowMetric \<longrightarrow> rw_detail r = None" "metric_view models_of (ck_rows s)"
    "detail_rows (ck_rows s) = open_details (ck_rows s)"
    using inv by (auto simp: clicks_inv_def)
  consider (inst) "rw_type r = RowInstance" | (detail) "rw_type r = RowDetail" | (close) d where "rw_type r = RowMetric" "rw_detail r = Some d"
    | (opn) "rw_type r = RowMetric" "rw_detail r = None" by (cases "rw_type r"; cases "rw_detail r") auto
  then show ?thesis
  proof cases
    case inst
    moreover have "distinct (map rw_id insts)" using i(1,2) by (auto simp: of_type_def distinct_map_filter)
    moreover have "set insts \<subseteq> set (ck_rows s)" using i(1) by (auto simp: of_type_def)
    ultimately show ?thesis using s i(1,3,4) insts by (auto simp: clicks_inv_def handleClick_def of_type_def)
  next
    case detail
    then show ?thesis using s i by (simp add: clicks_inv_def handleClick_def)
  next
    case close
    let ?rows = "filter (\<lambda>x. rw_id x \<noteq> d) (ck_rows s)"
    note c = close_detail [OF i(2) metric_view_models [OF i(5) dist] r close i(6)]
    have "of_type RowInstance ?rows = of_type RowInstance (ck_rows s)"
      using c by (induction "ck_rows s") (auto simp: of_type_def intro!: filter_cong)
    moreover have "metric_view models_of ?rows" using c by (intro metric_view_filter [OF i(5)]) auto
    ultimately show ?thesis using s i c close by (auto simp: clicks_inv_def handleClick_def distinct_map_filter)
  next
    case opn
    note o = rows_open_detail [OF i(2) r opn refl i(6,5), of "ck_next s"]
    have "ck_next s \<notin> rw_id ` set (ck_rows s)" using i(3) by auto
    then have "distinct (map rw_id (set_detail (rw_id r) (Some (ck_next s)) (ck_rows s)) @ [ck_next s])" using i(2) by simp
    moreover have "rw_id x < ck_next s + 1 \<and> (rw_type x \<noteq> RowMetric \<longrightarrow> rw_detail x = None)"
      if x: "x \<in> set (set_detail (rw_id r) (Some (ck_next s)) (ck_rows s))" for x
    proof -
      obtain y where y: "y \<in> set (ck_rows s)" "x = (if rw_id y = rw_id r then y\<lparr>rw_detail := Some (ck_next s)\<rparr> else y)"
        using x by (auto simp: set_detail_in)
      then show ?thesis using i(3,4) same_id [OF i(2) r, of y] opn(1) by (auto split: if_splits)
    qed
    moreover have "set_detail (rw_id r) (Some (ck_next s)) insts = insts"
    proof (rule set_detail_absent)
      have "y \<noteq> r" if "y \<in> set insts" for y using that inv_rows_inst [OF insts that] opn(1) by auto
      moreover have "set insts \<subseteq> set (ck_rows s)" using i(1) by (auto simp: of_type_def)
      ultimately show "rw_id r \<notin> rw_id ` set insts" using same_id [OF i(2) r] by (metis imageE subsetD)
    qed
    ultimately show ?thesis using s o opn i(1)
      by (simp add: clicks_inv_def handleClick_def Ball_def) (auto simp: of_type_def)
  qed
qed

lemma find_in: "find P xs = Some x \<Longrightarrow> x \<in> set xs \<and> P x"
  by (induction xs) (auto split: if_splits)

lemma step_inv:
  assumes "clicks_inv models_of insts s" and "of_type RowInstance insts = insts" and "\<And>i. distinct (models_of i)"
  shows "clicks_inv models_of insts (click_step models_of e s)"
proof (cases e)
  case (Click i)
  then show ?thesis using assms handleClick_inv [OF assms] by (auto dest: find_in split: option.split)
qed (simp add: assms animation_inv)

lemma run_inv:
  assumes "\<And>i. distinct (models_of i)"
  shows "clicks_inv models_of (first_rows instances) (fold (click_step models_of) es (first_clicks instances))"
proof -
  have "of_type RowInstance (first_rows instances) = first_rows instances"
    by (auto simp: of_type_def first_rows_def filter_id_conv)
  then show ?thesis by (induction es rule: rev_induct) (simp_all add: first_clicks_inv step_inv assms)
qed

text \<open>C37: clicks in the charts, in every order of clicks and ends of animations. In the view of instances the rows are those of the
  instances, unchanged; in the view of metrics they are these and, of one instance, one row for each of its models that had data, in
  their order, and exactly the details that its metrics have open, one each. At most two ends of animations after any click the page is
  ready for the next.\<close>

theorem rows_match_view:
  assumes "\<And>i. distinct (models_of i)" and "s = fold (click_step models_of) es (first_clicks instances)"
  shows "(\<not> ck_busy s \<and> ck_state s = InstanceView \<longrightarrow> ck_rows s = first_rows instances)
    \<and> (\<not> ck_busy s \<and> ck_state s = MetricView \<longrightarrow> of_type RowInstance (ck_rows s) = first_rows instances
         \<and> (\<exists>i keep. map rw_model (of_type RowMetric (ck_rows s)) = filter keep (models_of i)
              \<and> (\<forall>r\<in>set (ck_rows s). rw_type r \<noteq> RowInstance \<longrightarrow> rw_instance r = i))
         \<and> detail_rows (ck_rows s) = open_details (ck_rows s) \<and> distinct (map rw_id (ck_rows s)))
    \<and> \<not> ck_busy (animation_done models_of keep2 (animation_done models_of keep1 s))"
proof -
  have inv: "clicks_inv models_of (first_rows instances) s" unfolding assms(2) by (rule run_inv) (rule assms(1))
  then have "\<not> ck_busy (animation_done models_of keep2 (animation_done models_of keep1 s))"
    by (cases "ck_phase s") (simp_all add: clicks_inv_def animation_done_def redraw_def Let_def)
  then show ?thesis using inv by (auto simp: clicks_inv_def metric_view_def)
qed

definition two_models :: "string \<Rightarrow> string list" where
  "two_models i = (if i = ''web'' then [''cpu'', ''disk''] else [''cpu''])"

theorem rows_match_view_witness:
  "detail_rows (ck_rows (fold (click_step two_models) [Click 0, AnimationEnd (\<lambda>m. True), AnimationEnd (\<lambda>m. True)] (first_clicks [''web''])))
     = {}"
proof -
  let ?es = "[Click 0, AnimationEnd (\<lambda>m. True), AnimationEnd (\<lambda>m. True)]"
  let ?s = "fold (click_step two_models) ?es (first_clicks [''web''])"
  have d: "distinct (two_models i)" for i by (simp add: two_models_def)
  have "click_step two_models (Click 0) (first_clicks [''web'']) = (first_clicks [''web''])\<lparr>ck_lines := False, ck_busy := True, ck_phase := HidingOthers ''web''\<rparr>"
    by (simp add: first_clicks_def first_rows_def handleClick_def)
  then have s: "?s = (first_clicks [''web''])\<lparr>ck_lines := True, ck_state := MetricView, ck_next := 3,
      ck_rows := first_rows [''web''] @ metric_rows 1 ''web'' [''cpu'', ''disk'']\<rparr>"
    by (simp add: first_clicks_def animation_done_def redraw_def two_models_def)
  have "open_details (ck_rows ?s) = {}"
    unfolding s by (simp add: first_clicks_def first_rows_def metric_rows_def open_details_def of_type_def opened_def)
  moreover have "\<not> ck_busy ?s \<and> ck_state ?s = MetricView" unfolding s by (simp add: first_clicks_def)
  moreover have "\<not> ck_busy ?s \<and> ck_state ?s = MetricView \<longrightarrow> detail_rows (ck_rows ?s) = open_details (ck_rows ?s)"
    using rows_match_view [where models_of = two_models, OF d refl, where es = ?es and instances = "[''web'']"] by blast
  ultimately show ?thesis by (simp only: simp_thms)
qed

text \<open>a click on an open detail hides the lines of the markers, and nothing draws them again before another event.\<close>

theorem detail_click_hides_lines:
  "\<not> ck_busy s \<and> ck_state s = MetricView \<and> rw_type r = RowDetail \<longrightarrow> handleClick r s = s\<lparr>ck_lines := False\<rparr> \<and> \<not> ck_busy (handleClick r s)"
  by (simp add: handleClick_def)

text \<open>the order of the rows after \<open>updateSortOrder\<close>: those of the sorted instances in their order; an instance that is not among
  them is no longer on the page, although its row is still kept and updated.\<close>

theorem sorted_rows:
  assumes "distinct (map rw_instance (of_type RowInstance rows))"
  shows "map rw_instance (updateSortOrder instances rows) = filter (\<lambda>i. i \<in> rw_instance ` set (of_type RowInstance rows)) instances
    \<and> set (updateSortOrder instances rows) = {r \<in> set (of_type RowInstance rows). rw_instance r \<in> set instances}"
proof -
  let ?f = "\<lambda>i. find (\<lambda>r. rw_type r = RowInstance \<and> rw_instance r = i) (rev rows)"
  have f: "?f i = Some r \<longleftrightarrow> r \<in> set (of_type RowInstance rows) \<and> rw_instance r = i" for i r
  proof
    assume "?f i = Some r"
    then show "r \<in> set (of_type RowInstance rows) \<and> rw_instance r = i" by (auto dest: find_in)
  next
    assume r: "r \<in> set (of_type RowInstance rows) \<and> rw_instance r = i"
    then obtain x where x: "?f i = Some x" by (cases "?f i") (auto simp: find_None_iff)
    then have "x \<in> set (of_type RowInstance rows) \<and> rw_instance x = i" by (auto dest: find_in)
    then have "x = r" using r assms by (auto simp: distinct_map inj_on_def)
    then show "?f i = Some r" using x by simp
  qed
  have n: "?f i = None \<longleftrightarrow> i \<notin> rw_instance ` set (of_type RowInstance rows)" for i
  proof (cases "?f i")
    case None
    then have "r \<notin> set (of_type RowInstance rows) \<or> rw_instance r \<noteq> i" for r using f [of i r] by auto
    then show ?thesis using None by blast
  next
    case (Some r)
    then show ?thesis using f [of i r] by auto
  qed
  have "map rw_instance (updateSortOrder instances rows) = filter (\<lambda>i. i \<in> rw_instance ` set (of_type RowInstance rows)) instances"
    unfolding updateSortOrder_def using f n by (induction instances) (auto simp: List.map_filter_simps split: option.split)
  moreover have "set (updateSortOrder instances rows) = {r. \<exists>i\<in>set instances. ?f i = Some r}"
    by (auto simp: updateSortOrder_def List.map_filter_def) force
  ultimately show ?thesis using f by auto
qed

end
