(* ===== verification/Web_Chart_Loading.thy ===== *)
theory Web_Chart_Loading
  imports Web_Chart_Rows Web_Chart_Clicks "HOL-Library.Multiset"
begin

text \<open>
  How the HTM.IT charts load data, \<open>program/views/panels/embedChartsRows.js\<close>: the ranges of the data and of the view, the reload
  every five minutes, older data while scrolling or for a longer view, and the merging of what the server sends. A request is
  answered or fails at any later time; \<open>$.when\<close> runs its callback when all requests of a batch have been answered. The arrays
  of records are shared by reference: a request keeps the array its model had when it was sent, and merging takes
  records off that array. Backbone, the server and the drawing of the charts are outside.
\<close>

section \<open>Merging\<close>

text \<open>\<open>start.pop()\<close> while the last timestamp is not before the first of \<open>end\<close>; timestamps are compared as strings.\<close>

definition pop_overlap :: "sample list \<Rightarrow> string \<Rightarrow> sample list" where
  "pop_overlap start first = rev (dropWhile (\<lambda>r. \<not> sa_time r < first) (rev start))"

definition mergeModelData :: "sample list \<Rightarrow> sample list \<Rightarrow> sample list" where
  "mergeModelData start data =
     (case data of [] \<Rightarrow> start | d # _ \<Rightarrow> if start = [] then data else pop_overlap start (sa_time d) @ data)"

section \<open>State\<close>

datatype batch_kind = AutoReload | ScrollLoad | TabLoad

text \<open>A request: its model (\<open>None\<close> for the annotations), the array \<open>previousData\<close> and the limits sent to the server.\<close>

record request =
  rq_model :: "string option"
  rq_previous :: nat
  rq_from :: string
  rq_to :: string

record batch =
  ba_kind :: batch_kind
  ba_open :: "request list"
  ba_failed :: bool

text \<open>The arrays by address, the array of each model, the ranges (dates that are never invalid), and what is under way.\<close>

record board =
  bd_heap :: "nat \<Rightarrow> sample list"
  bd_free :: nat
  bd_data :: "string \<Rightarrow> nat"
  bd_data_start :: int
  bd_data_end :: int
  bd_view_start :: int
  bd_view_end :: int
  bd_perBar :: nat
  bd_loading :: bool
  bd_batches :: "batch list"

text \<open>The width of the chart in pixels and the models of each instance, \<open>Object.keys(row.datas)\<close>.\<close>

record chart_setup =
  cs_width :: rat
  cs_models :: "string \<Rightarrow> string list"

text \<open>A number becomes a date by dropping its fraction.\<close>

definition to_date :: "rat \<Rightarrow> int" where
  "to_date q = (if 0 \<le> q then \<lfloor>q\<rfloor> else \<lceil>q\<rceil>)"

definition getViewRangeWidth :: "chart_setup \<Rightarrow> nat \<Rightarrow> rat" where
  "getViewRangeWidth cs minutesPerBar = (cs_width cs / 12) * (of_nat minutesPerBar * 60000)"

definition models_data :: "board \<Rightarrow> string \<Rightarrow> sample list" where
  "models_data bd m = bd_heap bd (bd_data bd m)"

text \<open>The view ends at the end of the data.\<close>

definition align_view :: "chart_setup \<Rightarrow> board \<Rightarrow> board" where
  "align_view cs bd = bd\<lparr>bd_view_end := bd_data_end bd,
     bd_view_start := to_date (of_int (bd_data_end bd) - getViewRangeWidth cs (bd_perBar bd))\<rparr>"

section \<open>Answers\<close>

text \<open>\<open>model.set('data', mergeModelData(start, data))\<close> on addresses: the result is one of the two arrays, or a new one after
  records were taken off the first.\<close>

definition set_merged :: "string \<Rightarrow> nat \<Rightarrow> nat \<Rightarrow> board \<Rightarrow> board" where
  "set_merged m start data bd =
     (let h = bd_heap bd
      in if h start = [] then bd\<lparr>bd_data := (bd_data bd)(m := data)\<rparr>
         else case h data of
             [] \<Rightarrow> bd\<lparr>bd_data := (bd_data bd)(m := start)\<rparr>
           | d # _ \<Rightarrow>
               (let popped = pop_overlap (h start) (sa_time d)
                in bd\<lparr>bd_heap := h(start := popped, bd_free bd := popped @ h data), bd_free := bd_free bd + 1,
                      bd_data := (bd_data bd)(m := bd_free bd)\<rparr>))"

definition later_date :: "int \<Rightarrow> int option \<Rightarrow> int" where
  "later_date t d = (case d of Some u \<Rightarrow> if t < u then u else t | None \<Rightarrow> t)"

definition earlier_date :: "int \<Rightarrow> int option \<Rightarrow> int" where
  "earlier_date t d = (case d of Some u \<Rightarrow> if u < t then u else t | None \<Rightarrow> t)"

definition modelFetchNewerSuccess :: "nat \<Rightarrow> string \<Rightarrow> nat \<Rightarrow> board \<Rightarrow> board" where
  "modelFetchNewerSuccess previousData m newData bd =
     (if bd_heap bd newData \<noteq> []
      then set_merged m previousData newData
        (bd\<lparr>bd_data_end := later_date (bd_data_end bd) (sample_time (last (bd_heap bd newData)))\<rparr>)
      else bd\<lparr>bd_data := (bd_data bd)(m := previousData)\<rparr>)"

definition modelFetchOlderSuccess :: "nat \<Rightarrow> string \<Rightarrow> nat \<Rightarrow> board \<Rightarrow> board" where
  "modelFetchOlderSuccess previousData m newData bd =
     (if bd_heap bd newData \<noteq> []
      then set_merged m newData previousData
        (bd\<lparr>bd_data_start := earlier_date (bd_data_start bd) (sample_time (hd (bd_heap bd newData)))\<rparr>)
      else bd\<lparr>bd_data := (bd_data bd)(m := previousData)\<rparr>)"

text \<open>The callbacks of \<open>$.when\<close>.\<close>

definition batch_done :: "chart_setup \<Rightarrow> batch_kind \<Rightarrow> board \<Rightarrow> board" where
  "batch_done cs kind bd =
     (case kind of
        AutoReload \<Rightarrow>
          (if bd_view_end bd \<ge> bd_data_end bd - int (bd_perBar bd) * 60000 * 2 then align_view cs bd else bd)
      | ScrollLoad \<Rightarrow> bd\<lparr>bd_loading := False\<rparr>
      | TabLoad \<Rightarrow>
          (if bd_view_start bd < bd_data_start bd \<or> bd_view_end bd > bd_data_end bd then align_view cs bd else bd))"

definition drop_nth :: "nat \<Rightarrow> 'a list \<Rightarrow> 'a list" where
  "drop_nth i xs = take i xs @ drop (Suc i) xs"

text \<open>The request \<open>i\<close> of batch \<open>b\<close> is settled.\<close>

definition settle :: "chart_setup \<Rightarrow> nat \<Rightarrow> nat \<Rightarrow> bool \<Rightarrow> board \<Rightarrow> board" where
  "settle cs b i failed bd =
     (let ba = bd_batches bd ! b; ba = ba\<lparr>ba_open := drop_nth i (ba_open ba), ba_failed := ba_failed ba \<or> failed\<rparr>;
          bd = bd\<lparr>bd_batches := (bd_batches bd)[b := ba]\<rparr>
      in if ba_open ba = [] \<and> \<not> ba_failed ba then batch_done cs (ba_kind ba) bd else bd)"

text \<open>Backbone stores the answer in the model before it calls \<open>success\<close>.\<close>

definition answered :: "batch_kind \<Rightarrow> request \<Rightarrow> sample list \<Rightarrow> board \<Rightarrow> board" where
  "answered kind rq rows bd =
     (case rq_model rq of
        None \<Rightarrow> bd
      | Some m \<Rightarrow>
          (let new = bd_free bd; bd = bd\<lparr>bd_heap := (bd_heap bd)(new := rows), bd_free := new + 1, bd_data := (bd_data bd)(m := new)\<rparr>
           in if kind = AutoReload then modelFetchNewerSuccess (rq_previous rq) m new bd
              else modelFetchOlderSuccess (rq_previous rq) m new bd))"

section \<open>Requests\<close>

definition annotation_request :: request where
  "annotation_request = \<lparr>rq_model = None, rq_previous = 0, rq_from = [], rq_to = []\<rparr>"

definition start_batch :: "batch_kind \<Rightarrow> request list \<Rightarrow> board \<Rightarrow> board" where
  "start_batch kind rqs bd = bd\<lparr>bd_batches := bd_batches bd @ [\<lparr>ba_kind = kind, ba_open = rqs @ [annotation_request], ba_failed = False\<rparr>]\<rparr>"

text \<open>From the last record of the model, or from five minutes before the end of the data when it has none.\<close>

definition reload_request :: "int \<Rightarrow> board \<Rightarrow> string \<Rightarrow> request" where
  "reload_request now bd m =
     (let previous = models_data bd m;
          from = (if previous \<noteq> [] \<and> sa_time (last previous) \<noteq> [] then sample_time (last previous) else Some (bd_data_end bd - 5 * 60000))
      in \<lparr>rq_model = Some m, rq_previous = bd_data bd m, rq_from = getUTCTimestamp from, rq_to = getUTCTimestamp (Some now)\<rparr>)"

text \<open>All rows, those of metrics and details too, ask for all models of their instance.\<close>

definition autoReloadNewData :: "chart_setup \<Rightarrow> row list \<Rightarrow> int \<Rightarrow> board \<Rightarrow> board" where
  "autoReloadNewData cs rows now bd =
     start_batch AutoReload (concat (map (\<lambda>r. map (reload_request now bd) (cs_models cs (rw_instance r))) rows)) bd"

definition older_request :: "int \<Rightarrow> board \<Rightarrow> string \<Rightarrow> request" where
  "older_request pastDate bd m = \<lparr>rq_model = Some m, rq_previous = bd_data bd m, rq_from = getUTCTimestamp (Some pastDate),
     rq_to = getUTCTimestamp (Some (bd_data_start bd))\<rparr>"

definition older_requests :: "chart_setup \<Rightarrow> row list \<Rightarrow> int \<Rightarrow> board \<Rightarrow> request list" where
  "older_requests cs rows pastDate bd =
     concat (map (\<lambda>r. map (older_request pastDate bd) (cs_models cs (rw_instance r))) (of_type RowInstance rows))"

datatype direction = ToLeft | ToRight

definition handleScroll :: "chart_setup \<Rightarrow> row list \<Rightarrow> rat \<Rightarrow> rat \<Rightarrow> direction \<Rightarrow> board \<Rightarrow> board" where
  "handleScroll cs rows start end' dir bd =
     (let bd = bd\<lparr>bd_view_start := to_date start, bd_view_end := to_date end'\<rparr>
      in if dir \<noteq> ToRight then bd
         else if bd_view_start bd < bd_data_start bd + int (bd_perBar bd) * 3600000
         then if bd_loading bd then bd
              else start_batch ScrollLoad (older_requests cs rows (bd_data_start bd - 2 * int (bd_perBar bd) * 3600000) bd)
                     (bd\<lparr>bd_loading := True\<rparr>)
         else bd)"

definition updateMinutesPerBar :: "chart_setup \<Rightarrow> row list \<Rightarrow> nat \<Rightarrow> board \<Rightarrow> board" where
  "updateMinutesPerBar cs rows minutes bd =
     (let bd = bd\<lparr>bd_perBar := minutes, bd_view_start := to_date (of_int (bd_view_end bd) - getViewRangeWidth cs minutes)\<rparr>
      in if bd_view_start bd < bd_data_start bd
         then start_batch TabLoad (older_requests cs rows (bd_view_start bd - 2 * int minutes * 3600000) bd) bd
         else batch_done cs TabLoad bd)"

section \<open>Events\<close>

datatype load_event =
  Reload "row list" int | Scrolled "row list" rat rat direction | TabChanged "row list" nat
  | Answer nat nat "sample list" | Failure nat nat

text \<open>An answer or failure is for an open request.\<close>

definition is_open :: "nat \<Rightarrow> nat \<Rightarrow> board \<Rightarrow> bool" where
  "is_open b i bd = (b < length (bd_batches bd) \<and> i < length (ba_open (bd_batches bd ! b)))"

fun load_step :: "chart_setup \<Rightarrow> load_event \<Rightarrow> board \<Rightarrow> board" where
  "load_step cs (Reload rows now) bd = autoReloadNewData cs rows now bd"
| "load_step cs (Scrolled rows start end' dir) bd = handleScroll cs rows start end' dir bd"
| "load_step cs (TabChanged rows minutes) bd = updateMinutesPerBar cs rows minutes bd"
| "load_step cs (Answer b i rows) bd =
     (if is_open b i bd
      then settle cs b i False (answered (ba_kind (bd_batches bd ! b)) (ba_open (bd_batches bd ! b) ! i) rows bd) else bd)"
| "load_step cs (Failure b i) bd = (if is_open b i bd then settle cs b i True bd else bd)"

section \<open>Merged arrays\<close>

definition in_order :: "sample list \<Rightarrow> bool" where
  "in_order rows = sorted_wrt (\<lambda>a b. sa_time a < sa_time b) rows"

lemma in_order_simps [simp]:
  "in_order []" "in_order (r # rows) \<longleftrightarrow> (\<forall>x\<in>set rows. sa_time r < sa_time x) \<and> in_order rows"
  "in_order (xs @ ys) \<longleftrightarrow> in_order xs \<and> in_order ys \<and> (\<forall>x\<in>set xs. \<forall>y\<in>set ys. sa_time x < sa_time y)"
  by (auto simp: in_order_def sorted_wrt_append)

lemma pop_overlap_filter: "in_order start \<Longrightarrow> pop_overlap start t = filter (\<lambda>r. sa_time r < t) start"
proof (induction start rule: rev_induct)
  case (snoc r start)
  show ?case
  proof (cases "sa_time r < t")
    case True
    then have "\<forall>x\<in>set start. sa_time x < t" using snoc.prems by (auto intro: less_trans)
    then show ?thesis using True by (simp add: pop_overlap_def filter_id_conv)
  next
    case False
    then show ?thesis using snoc by (simp add: pop_overlap_def)
  qed
qed (simp add: pop_overlap_def)

lemma in_order_filter: "in_order rows \<Longrightarrow> in_order (filter P rows)"
  by (induction rows) auto

text \<open>merging two arrays whose timestamps increase (\<open>mergeModelData\<close>): the timestamps of the result increase, it has all records
  of the second array, and of the first exactly those before them.\<close>

theorem merged_in_order:
  assumes "in_order start" and "in_order data"
  shows "in_order (mergeModelData start data)
    \<and> set (mergeModelData start data) = set data \<union> {r \<in> set start. \<forall>d\<in>set data. sa_time r < sa_time d}"
  using assms by (cases data) (auto simp: mergeModelData_def pop_overlap_filter in_order_filter intro: less_trans)

theorem merged_in_order_witness:
  "in_order (mergeModelData [\<lparr>sa_time = ''10:00'', sa_value = 1, sa_anomaly = 0\<rparr>, \<lparr>sa_time = ''10:05'', sa_value = 1, sa_anomaly = 0\<rparr>]
      [\<lparr>sa_time = ''10:05'', sa_value = 2, sa_anomaly = 0\<rparr>])"
proof -
  have "in_order [\<lparr>sa_time = ''10:00'', sa_value = 1, sa_anomaly = 0\<rparr>, \<lparr>sa_time = ''10:05'', sa_value = 1, sa_anomaly = 0\<rparr>]"
    "in_order [\<lparr>sa_time = ''10:05'', sa_value = 2, sa_anomaly = 0\<rparr>]" by code_simp+
  then show ?thesis using conjunct1 [OF merged_in_order] by blast
qed

text \<open>The array of a model after \<open>set_merged\<close>, and those of other models.\<close>

lemma set_merged_data:
  assumes "start < bd_free bd" and "data < bd_free bd"
  shows "models_data (set_merged m start data bd) m = mergeModelData (bd_heap bd start) (bd_heap bd data)"
  using assms by (auto simp: set_merged_def models_data_def mergeModelData_def Let_def split: list.split)

lemma set_merged_other:
  assumes "m' \<noteq> m" and "bd_data bd m' < bd_free bd" and "bd_data bd m' \<noteq> start"
  shows "bd_data (set_merged m start data bd) m' = bd_data bd m'"
    and "models_data (set_merged m start data bd) m' = models_data bd m'"
  using assms by (auto simp: set_merged_def models_data_def Let_def split: list.split)

lemma set_merged_rest [simp]:
  "bd_batches (set_merged m start data bd) = bd_batches bd" "bd_loading (set_merged m start data bd) = bd_loading bd"
  "bd_data_start (set_merged m start data bd) = bd_data_start bd" "bd_data_end (set_merged m start data bd) = bd_data_end bd"
  by (auto simp: set_merged_def Let_def split: list.split)

lemma set_merged_address:
  "start < bd_free bd \<Longrightarrow> data < bd_free bd \<Longrightarrow> bd_data (set_merged m start data bd) m < bd_free (set_merged m start data bd)
     \<and> bd_free bd \<le> bd_free (set_merged m start data bd) \<and> bd_data (set_merged m start data bd) m \<in> {start, data, bd_free bd}"
  by (auto simp: set_merged_def Let_def split: list.split)

text \<open>An answer: the array of its model becomes the merged one, in the order of the kind of the batch.\<close>

lemma answered_data:
  assumes "rq_model rq = Some m" and "rq_previous rq < bd_free bd"
  shows "models_data (answered kind rq rows bd) m =
    (if kind = AutoReload then mergeModelData (bd_heap bd (rq_previous rq)) rows else mergeModelData rows (bd_heap bd (rq_previous rq)))"
  using assms by (auto simp: answered_def modelFetchNewerSuccess_def modelFetchOlderSuccess_def Let_def set_merged_data)
    (auto simp: models_data_def mergeModelData_def split: list.split)

text \<open>The board when the answer has been stored in the model.\<close>

definition stored :: "string \<Rightarrow> sample list \<Rightarrow> board \<Rightarrow> board" where
  "stored m rows bd = bd\<lparr>bd_heap := (bd_heap bd)(bd_free bd := rows), bd_free := bd_free bd + 1, bd_data := (bd_data bd)(m := bd_free bd)\<rparr>"

lemma stored_simps [simp]:
  "bd_free (stored m rows bd) = bd_free bd + 1" "bd_heap (stored m rows bd) (bd_free bd) = rows"
  "bd_data (stored m rows bd) m = bd_free bd" "bd_batches (stored m rows bd) = bd_batches bd" "bd_loading (stored m rows bd) = bd_loading bd"
  by (simp_all add: stored_def)

lemma stored_other: "m' \<noteq> m \<Longrightarrow> bd_data (stored m rows bd) m' = bd_data bd m'"
  "a < bd_free bd \<Longrightarrow> bd_heap (stored m rows bd) a = bd_heap bd a"
  by (auto simp: stored_def)

lemma answered_cases:
  assumes "rq_model rq = Some m"
  obtains "rows = []" "answered kind rq rows bd = (stored m rows bd)\<lparr>bd_data := (bd_data (stored m rows bd))(m := rq_previous rq)\<rparr>"
  | e where "answered kind rq rows bd = set_merged m (rq_previous rq) (bd_free bd) ((stored m rows bd)\<lparr>bd_data_end := e\<rparr>)"
  | e where "answered kind rq rows bd = set_merged m (bd_free bd) (rq_previous rq) ((stored m rows bd)\<lparr>bd_data_start := e\<rparr>)"
  using assms unfolding answered_def modelFetchNewerSuccess_def modelFetchOlderSuccess_def stored_def [symmetric] Let_def
  by (cases "rows = []"; cases "kind = AutoReload") (auto simp: stored_simps)

lemma answered_address:
  assumes m: "rq_model rq = Some m" and "rq_previous rq < bd_free bd"
  shows "bd_data (answered kind rq rows bd) m < bd_free (answered kind rq rows bd) \<and> bd_free bd \<le> bd_free (answered kind rq rows bd)
    \<and> (bd_data (answered kind rq rows bd) m = rq_previous rq \<or> bd_free bd \<le> bd_data (answered kind rq rows bd) m)"
proof (rule answered_cases [OF m, of rows kind bd])
  fix e assume "answered kind rq rows bd = set_merged m (rq_previous rq) (bd_free bd) ((stored m rows bd)\<lparr>bd_data_end := e\<rparr>)"
  then show ?thesis using assms(2) set_merged_address [of "rq_previous rq" "(stored m rows bd)\<lparr>bd_data_end := e\<rparr>" "bd_free bd" m] by auto
next
  fix e assume "answered kind rq rows bd = set_merged m (bd_free bd) (rq_previous rq) ((stored m rows bd)\<lparr>bd_data_start := e\<rparr>)"
  then show ?thesis using assms(2) set_merged_address [of "bd_free bd" "(stored m rows bd)\<lparr>bd_data_start := e\<rparr>" "rq_previous rq" m] by auto
qed (use assms(2) in simp)

lemma answered_other:
  assumes m: "rq_model rq = Some m" and o: "m' \<noteq> m" "bd_data bd m' < bd_free bd" "bd_data bd m' \<noteq> rq_previous rq"
  shows "bd_data (answered kind rq rows bd) m' = bd_data bd m' \<and> models_data (answered kind rq rows bd) m' = models_data bd m'"
proof -
  have s: "bd_data (stored m rows bd) m' = bd_data bd m'" "models_data (stored m rows bd) m' = models_data bd m'"
    using o by (simp_all add: stored_other models_data_def)
  show ?thesis
  proof (rule answered_cases [OF m, of rows kind bd])
    fix e assume "answered kind rq rows bd = set_merged m (rq_previous rq) (bd_free bd) ((stored m rows bd)\<lparr>bd_data_end := e\<rparr>)"
    then show ?thesis using s o set_merged_other [of m' m "(stored m rows bd)\<lparr>bd_data_end := e\<rparr>" "rq_previous rq" "bd_free bd"]
      by (simp add: models_data_def)
  next
    fix e assume "answered kind rq rows bd = set_merged m (bd_free bd) (rq_previous rq) ((stored m rows bd)\<lparr>bd_data_start := e\<rparr>)"
    then show ?thesis using s o set_merged_other [of m' m "(stored m rows bd)\<lparr>bd_data_start := e\<rparr>" "bd_free bd" "rq_previous rq"]
      by (simp add: models_data_def)
  qed (use s o in \<open>simp add: models_data_def\<close>)
qed

lemma answered_rest [simp]: "bd_batches (answered kind rq rows bd) = bd_batches bd" "bd_loading (answered kind rq rows bd) = bd_loading bd"
  by (auto simp: answered_def modelFetchNewerSuccess_def modelFetchOlderSuccess_def Let_def split: option.split)

section \<open>Runs without overlapping requests\<close>

definition models_in :: "batch \<Rightarrow> string list" where
  "models_in ba = List.map_filter rq_model (ba_open ba)"

definition open_models :: "board \<Rightarrow> string list" where
  "open_models bd = concat (map models_in (bd_batches bd))"

definition open_request :: "batch_kind \<Rightarrow> request \<Rightarrow> board \<Rightarrow> bool" where
  "open_request kind rq bd = (\<exists>ba\<in>set (bd_batches bd). ba_kind ba = kind \<and> rq \<in> set (ba_open ba))"

lemma models_in_append [simp]: "List.map_filter f (xs @ ys) = List.map_filter f xs @ List.map_filter f ys"
  by (simp add: List.map_filter_def)

lemma mset_update: "b < length xs \<Longrightarrow> mset (concat (map f (xs[b := y]))) + mset (f (xs ! b)) = mset (concat (map f xs)) + mset (f y)"
  by (induction xs arbitrary: b) (auto simp: nth_Cons split: nat.splits)

lemma drop_nth_models:
  assumes "i < length rqs" and "rq_model (rqs ! i) = Some m"
  shows "mset (List.map_filter rq_model (drop_nth i rqs)) + {#m#} = mset (List.map_filter rq_model rqs)"
proof -
  have "rqs = take i rqs @ rqs ! i # drop (Suc i) rqs" using assms(1) by (rule id_take_nth_drop)
  then have "List.map_filter rq_model rqs = List.map_filter rq_model (take i rqs) @ List.map_filter rq_model (rqs ! i # drop (Suc i) rqs)"
    by (metis models_in_append)
  then show ?thesis using assms(2) by (simp add: drop_nth_def List.map_filter_simps)
qed

lemma drop_nth_none:
  assumes "i < length rqs" and "rq_model (rqs ! i) = None"
  shows "List.map_filter rq_model (drop_nth i rqs) = List.map_filter rq_model rqs"
proof -
  have "rqs = take i rqs @ rqs ! i # drop (Suc i) rqs" using assms(1) by (rule id_take_nth_drop)
  then have "List.map_filter rq_model rqs = List.map_filter rq_model (take i rqs) @ List.map_filter rq_model (rqs ! i # drop (Suc i) rqs)"
    by (metis models_in_append)
  then show ?thesis using assms(2) by (simp add: drop_nth_def List.map_filter_simps)
qed

lemma set_drop_nth: "set (drop_nth i xs) \<subseteq> set xs"
  by (auto simp: drop_nth_def dest: in_set_takeD in_set_dropD)

lemma batch_done_rest [simp]: "bd_heap (batch_done cs k bd) = bd_heap bd" "bd_free (batch_done cs k bd) = bd_free bd"
  "bd_data (batch_done cs k bd) = bd_data bd" "bd_batches (batch_done cs k bd) = bd_batches bd"
  "bd_data_start (batch_done cs k bd) = bd_data_start bd" "bd_data_end (batch_done cs k bd) = bd_data_end bd"
  by (cases k; simp add: batch_done_def align_view_def)+

lemma settle_rest [simp]: "bd_heap (settle cs b i f bd) = bd_heap bd" "bd_free (settle cs b i f bd) = bd_free bd"
  "bd_data (settle cs b i f bd) = bd_data bd" "bd_data_start (settle cs b i f bd) = bd_data_start bd"
  "bd_data_end (settle cs b i f bd) = bd_data_end bd" "models_data (settle cs b i f bd) = models_data bd"
  by (simp_all add: settle_def Let_def models_data_def fun_eq_iff)

lemma settle_batches: "bd_batches (settle cs b i f bd) = (bd_batches bd)[b := (bd_batches bd ! b)
    \<lparr>ba_open := drop_nth i (ba_open (bd_batches bd ! b)), ba_failed := ba_failed (bd_batches bd ! b) \<or> f\<rparr>]"
  by (simp add: settle_def Let_def)

lemma mset_exchange:
  fixes A B C D E :: "'a multiset"
  assumes "A + B = C + D" and "D + E = B"
  shows "A + E = C"
proof -
  have "(A + E) + D = A + (D + E)" by (simp add: ac_simps)
  also have "\<dots> = C + D" using assms by simp
  finally show ?thesis by simp
qed

lemma settle_open_models:
  assumes "is_open b i bd"
  shows "mset (open_models (settle cs b i f bd)) + mset (case rq_model (ba_open (bd_batches bd ! b) ! i) of None \<Rightarrow> [] | Some m \<Rightarrow> [m])
    = mset (open_models bd)"
proof -
  let ?ba = "bd_batches bd ! b"
  let ?ba' = "?ba\<lparr>ba_open := drop_nth i (ba_open ?ba), ba_failed := ba_failed ?ba \<or> f\<rparr>"
  have "mset (open_models (settle cs b i f bd)) + mset (models_in ?ba) = mset (open_models bd) + mset (models_in ?ba')"
    using assms mset_update [of b "bd_batches bd" models_in ?ba'] by (simp add: open_models_def settle_batches is_open_def)
  moreover have "mset (models_in ?ba') + mset (case rq_model (ba_open ?ba ! i) of None \<Rightarrow> [] | Some m \<Rightarrow> [m]) = mset (models_in ?ba)"
    using assms drop_nth_models [of i "ba_open ?ba"] drop_nth_none [of i "ba_open ?ba"]
    by (cases "rq_model (ba_open ?ba ! i)") (simp_all add: is_open_def models_in_def)
  ultimately show ?thesis by (rule mset_exchange)
qed

lemma settle_open_request: "open_request k rq (settle cs b i f bd) \<Longrightarrow> is_open b i bd \<Longrightarrow> open_request k rq bd"
proof -
  assume "open_request k rq (settle cs b i f bd)" and o: "is_open b i bd"
  then obtain ba where ba: "ba \<in> set ((bd_batches bd)[b := (bd_batches bd ! b)
    \<lparr>ba_open := drop_nth i (ba_open (bd_batches bd ! b)), ba_failed := ba_failed (bd_batches bd ! b) \<or> f\<rparr>])"
    "ba_kind ba = k" "rq \<in> set (ba_open ba)" by (auto simp: open_request_def settle_batches)
  have b: "bd_batches bd ! b \<in> set (bd_batches bd)" using o by (simp add: is_open_def)
  from subsetD [OF set_update_subset_insert ba(1)] show ?thesis
  proof (rule insertE)
    assume "ba = (bd_batches bd ! b)\<lparr>ba_open := drop_nth i (ba_open (bd_batches bd ! b)), ba_failed := ba_failed (bd_batches bd ! b) \<or> f\<rparr>"
    then have "ba_kind (bd_batches bd ! b) = k" "rq \<in> set (ba_open (bd_batches bd ! b))"
      using ba(2,3) subsetD [OF set_drop_nth] by auto
    then show ?thesis using b by (auto simp: open_request_def)
  qed (use ba in \<open>auto simp: open_request_def\<close>)
qed

text \<open>A timestamp as the server prints it.\<close>

definition canonical :: "sample \<Rightarrow> bool" where
  "canonical r = (getUTCTimestamp (sample_time r) = sa_time r)"

lemma getUTCTimestamp_nonempty: "getUTCTimestamp t \<noteq> []"
  by (simp add: getUTCTimestamp_def Let_def split: option.split)

definition board_ok :: "string list \<Rightarrow> board \<Rightarrow> bool" where
  "board_ok ms bd = (inj_on (bd_data bd) (set ms) \<and> distinct (open_models bd)
     \<and> (\<forall>m\<in>set ms. bd_data bd m < bd_free bd \<and> in_order (models_data bd m) \<and> (\<forall>r\<in>set (models_data bd m). canonical r))
     \<and> (\<forall>kind rq m. open_request kind rq bd \<and> rq_model rq = Some m \<longrightarrow> m \<in> set ms \<and> rq_previous rq = bd_data bd m
          \<and> (kind = AutoReload \<and> models_data bd m \<noteq> [] \<longrightarrow> rq_from rq = sa_time (last (models_data bd m)))))"

text \<open>The server answers with records in order, printed as usual, from the first to the last timestamp asked for.\<close>

definition honest :: "request \<Rightarrow> sample list \<Rightarrow> bool" where
  "honest rq rows = (in_order rows \<and> (\<forall>r\<in>set rows. canonical r \<and> rq_from rq \<le> sa_time r \<and> sa_time r \<le> rq_to rq))"

definition models_of_rows :: "chart_setup \<Rightarrow> row list \<Rightarrow> string list" where
  "models_of_rows cs rows = concat (map (\<lambda>r. cs_models cs (rw_instance r)) rows)"

definition can_start :: "string list \<Rightarrow> chart_setup \<Rightarrow> row list \<Rightarrow> board \<Rightarrow> bool" where
  "can_start ms cs rows bd = (distinct (models_of_rows cs rows) \<and> set (models_of_rows cs rows) \<inter> set (open_models bd) = {}
     \<and> set (models_of_rows cs rows) \<subseteq> set ms)"

fun fair_event :: "string list \<Rightarrow> chart_setup \<Rightarrow> load_event \<Rightarrow> board \<Rightarrow> bool" where
  "fair_event ms cs (Reload rows now) bd = can_start ms cs rows bd"
| "fair_event ms cs (Scrolled rows start end' dir) bd = can_start ms cs (of_type RowInstance rows) bd"
| "fair_event ms cs (TabChanged rows minutes) bd = can_start ms cs (of_type RowInstance rows) bd"
| "fair_event ms cs (Answer b i rows) bd = (is_open b i bd \<longrightarrow> honest (ba_open (bd_batches bd ! b) ! i) rows)"
| "fair_event ms cs (Failure b i) bd = True"

fun fair_run :: "string list \<Rightarrow> chart_setup \<Rightarrow> load_event list \<Rightarrow> board \<Rightarrow> bool" where
  "fair_run ms cs [] bd = True"
| "fair_run ms cs (e # es) bd = (fair_event ms cs e bd \<and> fair_run ms cs es (load_step cs e bd))"

definition stamps :: "sample list \<Rightarrow> string set" where
  "stamps rows = sa_time ` set rows"

text \<open>Merging keeps the times that were there: an answer to a reload begins no earlier than the last record.\<close>

lemma merged_newer:
  assumes "in_order P" and "in_order rows" and "P \<noteq> [] \<Longrightarrow> from = sa_time (last P)" and "\<forall>r\<in>set rows. from \<le> sa_time r"
  shows "stamps P \<subseteq> stamps (mergeModelData P rows)"
proof (cases rows)
  case (Cons d ds)
  have "sa_time r \<in> stamps (mergeModelData P rows)" if r: "r \<in> set P" for r
  proof (cases "sa_time r < sa_time d")
    case True
    then show ?thesis using r assms(1) Cons by (auto simp: mergeModelData_def stamps_def pop_overlap_filter)
  next
    case False
    have P: "P \<noteq> []" using r by auto
    then have "r \<in> set (butlast P) \<or> r = last P" using r by (metis append_butlast_last_id rotate1.simps(2) set_ConsD set_rotate1)
    then have "sa_time r \<le> sa_time (last P)" using assms(1) P by (metis append_butlast_last_id in_order_simps(3) list.set_intros(1) order.refl less_imp_le)
    also have "\<dots> \<le> sa_time d" using assms(3,4) P Cons by auto
    finally have "sa_time r = sa_time d" using False by simp
    then show ?thesis using Cons by (auto simp: mergeModelData_def stamps_def)
  qed
  then show ?thesis by (auto simp: stamps_def)
qed (simp add: mergeModelData_def)

lemma merged_older: "stamps P \<subseteq> stamps (mergeModelData rows P)"
  by (auto simp: stamps_def mergeModelData_def split: list.split)

lemma start_open_models: "open_models (start_batch kind rqs bd) = open_models bd @ List.map_filter rq_model rqs"
  by (simp add: open_models_def start_batch_def models_in_def annotation_request_def List.map_filter_simps)

lemma start_open_request:
  "open_request k rq (start_batch kind rqs bd) \<longleftrightarrow> open_request k rq bd \<or> (k = kind \<and> rq \<in> set (rqs @ [annotation_request]))"
  by (auto simp: open_request_def start_batch_def)

lemma start_rest [simp]: "bd_heap (start_batch kind rqs bd) = bd_heap bd" "bd_free (start_batch kind rqs bd) = bd_free bd"
  "bd_data (start_batch kind rqs bd) = bd_data bd" "models_data (start_batch kind rqs bd) = models_data bd"
  by (simp_all add: start_batch_def models_data_def fun_eq_iff)

text \<open>Starting a batch with one request per model, and changes of the ranges only.\<close>

lemma start_ok:
  assumes ok: "board_ok ms bd" and ids: "List.map_filter rq_model rqs = mods" "distinct mods" "set mods \<inter> set (open_models bd) = {}" "set mods \<subseteq> set ms"
    and rqs: "\<And>rq m. rq \<in> set rqs \<Longrightarrow> rq_model rq = Some m \<Longrightarrow> rq_previous rq = bd_data bd m
          \<and> (kind = AutoReload \<and> models_data bd m \<noteq> [] \<longrightarrow> rq_from rq = sa_time (last (models_data bd m)))"
  shows "board_ok ms (start_batch kind rqs bd)"
proof -
  have m: "m \<in> set ms" if "rq \<in> set rqs" "rq_model rq = Some m" for rq m
    using that ids(1,4) by (force simp: List.map_filter_def)
  show ?thesis using ok ids(2,3) m rqs
    by (auto simp: board_ok_def start_open_models ids(1) start_open_request annotation_request_def)
qed

lemma board_ok_same:
  assumes "board_ok ms bd" and "bd_heap bd' = bd_heap bd" "bd_free bd' = bd_free bd" "bd_data bd' = bd_data bd" "bd_batches bd' = bd_batches bd"
  shows "board_ok ms bd'"
proof -
  have "models_data bd' = models_data bd" using assms by (simp add: models_data_def fun_eq_iff)
  moreover have "open_models bd' = open_models bd" "open_request k rq bd' = open_request k rq bd" for k rq
    using assms(5) by (simp_all add: open_models_def open_request_def)
  ultimately show ?thesis using assms(1) by (simp only: board_ok_def assms(3,4)) blast
qed

lemma older_models: "List.map_filter rq_model (older_requests cs rows p bd) = models_of_rows cs (of_type RowInstance rows)"
  by (simp add: older_requests_def models_of_rows_def List.map_filter_def older_request_def comp_def filter_concat map_concat)

lemma reload_models:
  "List.map_filter rq_model (concat (map (\<lambda>r. map (reload_request now bd) (cs_models cs (rw_instance r))) rows)) = models_of_rows cs rows"
  by (simp add: models_of_rows_def List.map_filter_def reload_request_def Let_def comp_def filter_concat map_concat)

lemma load_ok:
  assumes ok: "board_ok ms bd" and start: "can_start ms cs (of_type RowInstance rows) bd" and same: "models_data bd' = models_data bd"
    "bd_heap bd' = bd_heap bd" "bd_free bd' = bd_free bd" "bd_data bd' = bd_data bd" "bd_batches bd' = bd_batches bd" and "kind \<noteq> AutoReload" and d: "bd_data bd'' = bd_data bd"
  shows "board_ok ms (start_batch kind (older_requests cs rows p bd'') bd')"
proof (rule start_ok [OF board_ok_same [OF ok same(2-5)] older_models])
  show "distinct (models_of_rows cs (of_type RowInstance rows))" "set (models_of_rows cs (of_type RowInstance rows)) \<subseteq> set ms"
    "set (models_of_rows cs (of_type RowInstance rows)) \<inter> set (open_models bd') = {}"
    using start same by (simp_all add: can_start_def open_models_def)
next
  fix rq m assume "rq \<in> set (older_requests cs rows p bd'')" "rq_model rq = Some m"
  then show "rq_previous rq = bd_data bd' m \<and> (kind = AutoReload \<and> models_data bd' m \<noteq> [] \<longrightarrow> rq_from rq = sa_time (last (models_data bd' m)))"
    using assms(8) d same by (auto simp: older_requests_def older_request_def)
qed

lemma reload_ok:
  assumes ok: "board_ok ms bd" and start: "can_start ms cs rows bd"
  shows "board_ok ms (autoReloadNewData cs rows now bd)"
  unfolding autoReloadNewData_def
proof (rule start_ok [OF ok reload_models])
  show "distinct (models_of_rows cs rows)" "set (models_of_rows cs rows) \<subseteq> set ms" "set (models_of_rows cs rows) \<inter> set (open_models bd) = {}"
    using start by (simp_all add: can_start_def)
next
  fix rq m assume rq: "rq \<in> set (concat (map (\<lambda>r. map (reload_request now bd) (cs_models cs (rw_instance r))) rows))" "rq_model rq = Some m"
  then have r: "rq = reload_request now bd m" by (auto simp: reload_request_def Let_def)
  have "m \<in> set ms" using start rq by (auto simp: can_start_def models_of_rows_def reload_request_def Let_def)
  then have "canonical (last (models_data bd m))" if "models_data bd m \<noteq> []" using ok that by (auto simp: board_ok_def)
  then show "rq_previous rq = bd_data bd m \<and> (AutoReload = AutoReload \<and> models_data bd m \<noteq> [] \<longrightarrow> rq_from rq = sa_time (last (models_data bd m)))"
    using getUTCTimestamp_nonempty by (auto simp: r reload_request_def Let_def canonical_def) metis
qed

lemma settle_ok:
  assumes ok: "board_ok ms bd" and o: "is_open b i bd"
  shows "board_ok ms (settle cs b i f bd)"
proof -
  define A where "A = (case rq_model (ba_open (bd_batches bd ! b) ! i) of None \<Rightarrow> [] | Some m \<Rightarrow> [m])"
  have "mset (open_models (settle cs b i f bd)) + mset A = mset (open_models bd)" unfolding A_def by (rule settle_open_models [OF o])
  then have "mset (open_models (settle cs b i f bd) @ A) = mset (open_models bd)" by simp
  then have "distinct (open_models (settle cs b i f bd) @ A) = distinct (open_models bd)" by (rule mset_eq_imp_distinct_iff)
  moreover have "distinct (open_models bd)" using ok unfolding board_ok_def by blast
  ultimately have "distinct (open_models (settle cs b i f bd) @ A)" by (simp only:)
  then have "distinct (open_models (settle cs b i f bd))" by simp
  moreover have "m \<in> set ms \<and> rq_previous q = bd_data bd m \<and> (k = AutoReload \<and> models_data bd m \<noteq> [] \<longrightarrow> rq_from q = sa_time (last (models_data bd m)))"
    if "open_request k q (settle cs b i f bd)" "rq_model q = Some m" for k q m
    using ok settle_open_request [OF that(1) o] that(2) by (simp add: board_ok_def)
  ultimately show ?thesis using ok unfolding board_ok_def settle_rest by blast
qed

lemma answer_ok:
  assumes ok: "board_ok ms bd" and o: "is_open b i bd" and rq: "rq = ba_open (bd_batches bd ! b) ! i" and kind: "kind = ba_kind (bd_batches bd ! b)"
    and honest: "honest rq rows"
  shows "board_ok ms (settle cs b i f (answered kind rq rows bd))
    \<and> (\<forall>m\<in>set ms. stamps (models_data bd m) \<subseteq> stamps (models_data (answered kind rq rows bd) m))"
proof (cases "rq_model rq")
  case None
  then have "answered kind rq rows bd = bd" by (simp add: answered_def)
  then show ?thesis using settle_ok [OF ok o] by simp
next
  case (Some m)
  let ?a = "answered kind rq rows bd"
  have o': "is_open b i ?a" using o by (simp add: is_open_def)
  have "open_request kind rq bd" using o by (auto simp: open_request_def is_open_def rq kind intro!: bexI [of _ "bd_batches bd ! b"])
  then have r: "m \<in> set ms" "rq_previous rq = bd_data bd m"
    "kind = AutoReload \<Longrightarrow> models_data bd m \<noteq> [] \<Longrightarrow> rq_from rq = sa_time (last (models_data bd m))"
    using ok Some by (auto simp: board_ok_def)
  have P: "bd_data bd m < bd_free bd" "in_order (models_data bd m)" "\<forall>r\<in>set (models_data bd m). canonical r"
    using ok r(1) by (auto simp: board_ok_def)
  have h: "in_order rows" "\<forall>r\<in>set rows. canonical r \<and> rq_from rq \<le> sa_time r" using honest by (auto simp: honest_def)
  have am: "models_data ?a m = (if kind = AutoReload then mergeModelData (models_data bd m) rows else mergeModelData rows (models_data bd m))"
    using answered_data [OF Some, of bd kind rows] r(2) P(1) by (simp add: models_data_def [of bd])
  have m: "in_order (models_data ?a m) \<and> (\<forall>r\<in>set (models_data ?a m). canonical r) \<and> stamps (models_data bd m) \<subseteq> stamps (models_data ?a m)"
    using am merged_in_order [OF P(2) h(1)] merged_in_order [OF h(1) P(2)] P(3) h(2) merged_older
      merged_newer [OF P(2) h(1), of "rq_from rq"] r(3) by (auto split: if_splits)
  have other: "bd_data ?a m' = bd_data bd m' \<and> models_data ?a m' = models_data bd m'" if "m' \<in> set ms" "m' \<noteq> m" for m'
    using answered_other [OF Some that(2), of bd kind rows] ok that r by (auto simp: board_ok_def inj_on_def)
  note ad = answered_address [OF Some, of bd kind rows, unfolded r(2), OF P(1)]
  have inj: "inj_on (bd_data ?a) (set ms)"
  proof (rule inj_onI)
    fix x y assume xy: "x \<in> set ms" "y \<in> set ms" "bd_data ?a x = bd_data ?a y"
    have lt: "bd_data bd z < bd_free bd" if "z \<in> set ms" for z using ok that by (auto simp: board_ok_def)
    have inj: "z = w" if "z \<in> set ms" "w \<in> set ms" "bd_data bd z = bd_data bd w" for z w using ok that by (auto simp: board_ok_def inj_on_def)
    have ne: "bd_data ?a z \<noteq> bd_data ?a m" if z: "z \<in> set ms" "z \<noteq> m" for z
    proof
      assume "bd_data ?a z = bd_data ?a m"
      then have "bd_data bd z = bd_data ?a m" using other [OF z] by simp
      moreover have "bd_data bd z \<noteq> bd_data bd m" using inj [OF z(1) r(1)] z(2) by blast
      ultimately show False using ad lt [OF z(1)] by auto
    qed
    show "x = y"
    proof (cases "x = m \<or> y = m")
      case True
      then show ?thesis using ne [OF xy(1)] ne [OF xy(2)] xy(3) by metis
    next
      case False
      then show ?thesis using inj [OF xy(1,2)] other xy by metis
    qed
  qed
  have om: "mset (open_models (settle cs b i f ?a)) + {#m#} = mset (open_models bd)"
    using settle_open_models [OF o', of cs f] Some rq by (simp add: open_models_def)
  then have "distinct (m # open_models (settle cs b i f ?a))"
    using ok mset_eq_imp_distinct_iff [of "m # open_models (settle cs b i f ?a)" "open_models bd"] by (simp add: board_ok_def)
  then have d: "distinct (open_models (settle cs b i f ?a))" "m \<notin> set (open_models (settle cs b i f ?a))" by auto
  have req: "m' \<in> set ms \<and> rq_previous q = bd_data ?a m' \<and> (k = AutoReload \<and> models_data ?a m' \<noteq> [] \<longrightarrow> rq_from q = sa_time (last (models_data ?a m')))"
    if q: "open_request k q (settle cs b i f ?a)" "rq_model q = Some m'" for k q m'
  proof -
    have "m' \<in> set (open_models (settle cs b i f ?a))"
      using q by (force simp: open_request_def open_models_def models_in_def List.map_filter_def)
    then have "m' \<noteq> m" using d(2) by auto
    moreover have "open_request k q bd" using settle_open_request [OF q(1) o'] by (simp add: open_request_def)
    ultimately show ?thesis using ok q(2) other [of m'] by (auto simp: board_ok_def)
  qed
  have "bd_data ?a m' < bd_free ?a \<and> in_order (models_data ?a m') \<and> (\<forall>r\<in>set (models_data ?a m'). canonical r)
      \<and> stamps (models_data bd m') \<subseteq> stamps (models_data ?a m')" if "m' \<in> set ms" for m'
    using that m ad other [of m'] ok by (cases "m' = m") (auto simp: board_ok_def)
  then show ?thesis using inj d(1) req unfolding board_ok_def settle_rest by blast
qed

lemma step_ok:
  assumes ok: "board_ok ms bd" and fair: "fair_event ms cs e bd"
  shows "board_ok ms (load_step cs e bd) \<and> (\<forall>m\<in>set ms. stamps (models_data bd m) \<subseteq> stamps (models_data (load_step cs e bd) m))"
proof (cases e)
  case (Reload rows now)
  then show ?thesis using ok fair reload_ok by (simp add: autoReloadNewData_def)
next
  case (Scrolled rows start end' dir)
  let ?bd = "bd\<lparr>bd_view_start := to_date start, bd_view_end := to_date end'\<rparr>"
  have "board_ok ms ?bd" "models_data ?bd = models_data bd" by (rule board_ok_same [OF ok]; simp) (simp add: models_data_def fun_eq_iff)
  moreover have "board_ok ms (start_batch ScrollLoad (older_requests cs rows p ?bd) (?bd\<lparr>bd_loading := True\<rparr>))" for p
    using fair Scrolled by (intro load_ok [OF ok, where rows = rows]) (simp_all add: models_data_def fun_eq_iff)
  moreover have "models_data (?bd\<lparr>bd_loading := True\<rparr>) = models_data bd" by (simp add: models_data_def fun_eq_iff)
  ultimately show ?thesis using Scrolled by (auto simp: handleScroll_def Let_def)
next
  case (TabChanged rows minutes)
  let ?bd = "bd\<lparr>bd_perBar := minutes, bd_view_start := to_date (of_int (bd_view_end bd) - getViewRangeWidth cs minutes)\<rparr>"
  have m: "models_data ?bd = models_data bd" "models_data (batch_done cs TabLoad ?bd) = models_data bd" by (simp_all add: models_data_def fun_eq_iff)
  have "board_ok ms (start_batch TabLoad (older_requests cs rows p ?bd) ?bd)" for p
    using fair TabChanged m by (intro load_ok [OF ok, where rows = rows]) simp_all
  moreover have "board_ok ms (batch_done cs TabLoad ?bd)" by (rule board_ok_same [OF ok]) simp_all
  ultimately show ?thesis using TabChanged m by (simp add: updateMinutesPerBar_def Let_def)
next
  case (Answer b i rows)
  then show ?thesis using answer_ok [OF ok _ refl refl] fair ok by (auto simp del: fair_event.simps simp: fair_event.simps(4))
next
  case (Failure b i)
  show ?thesis
  proof (cases "is_open b i bd")
    case True
    then show ?thesis using Failure settle_ok [OF ok True] by simp
  qed (use Failure ok in simp)
qed

text \<open>C31: the data of the charts, over every run of reloads, scrolling, tabs, answers and failures in which no model is asked for twice
  at a time and the server answers in order and within the limits asked for: the timestamps of every model keep increasing, and no
  timestamp that was there is ever lost.\<close>

theorem rows_kept:
  assumes "board_ok ms bd" and "fair_run ms cs es bd" and "m \<in> set ms"
  shows "in_order (models_data (fold (load_step cs) es bd) m)
    \<and> stamps (models_data bd m) \<subseteq> stamps (models_data (fold (load_step cs) es bd) m)"
proof -
  have "board_ok ms (fold (load_step cs) es bd) \<and> stamps (models_data bd m) \<subseteq> stamps (models_data (fold (load_step cs) es bd) m)"
    using assms(1,2)
  proof (induction es arbitrary: bd)
    case (Cons e es)
    then have f: "fair_event ms cs e bd" "fair_run ms cs es (load_step cs e bd)" by simp_all
    note s = step_ok [OF Cons.prems(1) f(1)]
    show ?case using Cons.IH [OF conjunct1 [OF s] f(2)] s assms(3) by (auto simp: fold_simps dest!: bspec)
  qed simp
  then show ?thesis using assms(3) by (simp add: board_ok_def)
qed

text \<open>A board with one model.\<close>

definition sample_at :: "int \<Rightarrow> sample" where
  "sample_at t = \<lparr>sa_time = getUTCTimestamp (Some t), sa_value = 0, sa_anomaly = 0\<rparr>"

definition one_model :: chart_setup where
  "one_model = \<lparr>cs_width = 960, cs_models = (\<lambda>i. [''cpu''])\<rparr>"

definition first_board :: "sample list \<Rightarrow> board" where
  "first_board rows = \<lparr>bd_heap = (\<lambda>a. rows), bd_free = 1, bd_data = (\<lambda>m. 0), bd_data_start = 1440928800000, bd_data_end = 1440932700000,
     bd_view_start = 1440930000000, bd_view_end = 1440932700000, bd_perBar = 5, bd_loading = False, bd_batches = []\<rparr>"

definition one_row :: "row list" where
  "one_row = [\<lparr>rw_id = 0, rw_type = RowInstance, rw_instance = ''web'', rw_model = [], rw_detail = None\<rparr>]"

theorem rows_kept_witness:
  "getUTCTimestamp (Some 1440932400000) \<in> stamps (models_data (fold (load_step one_model)
     [Reload one_row 1440933000000, Answer 0 0 [sample_at 1440932400000, sample_at 1440932700000]] (first_board [sample_at 1440932400000])) ''cpu'')"
proof -
  let ?bd = "first_board [sample_at 1440932400000]"
  let ?es = "[Reload one_row 1440933000000, Answer 0 0 [sample_at 1440932400000, sample_at 1440932700000]]"
  have t: "sample_time (sample_at 1440932400000) = Some 1440932400000" "sample_time (sample_at 1440932700000) = Some 1440932700000"
    unfolding sample_at_def by (rule printed_sample; simp add: day_16677)+
  have c: "canonical (sample_at 1440932400000)" "canonical (sample_at 1440932700000)" unfolding canonical_def t by (simp_all add: sample_at_def)
  have y: "common_time 1440932400000" "common_time 1440932700000" "common_time 1440933000000"
    by (simp_all add: common_time_def get_utc_def Let_def day_16677)
  have less: "getUTCTimestamp (Some 1440932400000) < getUTCTimestamp (Some 1440932700000)"
    "getUTCTimestamp (Some 1440932700000) < getUTCTimestamp (Some 1440933000000)"
    by (simp_all add: printed_order y)
  have ok: "board_ok [''cpu''] ?bd"
    by (simp add: board_ok_def first_board_def models_data_def open_models_def open_request_def c)
  have "fair_run [''cpu''] one_model ?es ?bd"
    using getUTCTimestamp_nonempty [of "Some 1440932400000"] less c
    by (auto simp: can_start_def models_of_rows_def one_model_def one_row_def open_models_def first_board_def autoReloadNewData_def
        start_batch_def is_open_def reload_request_def models_data_def honest_def t Let_def) (simp_all add: sample_at_def)
  from conjunct2 [OF rows_kept [OF ok this, of "''cpu''"]] show ?thesis
    by (auto simp: stamps_def models_data_def first_board_def sample_at_def)
qed

section \<open>Overlapping and failing requests\<close>

text \<open>two requests of one model that overlap, a reload and a load of older data while scrolling, both sent when its array was \<open>P\<close>. When the
  reload is answered first, the answer to the other replaces the array by its own records and what is left of \<open>P\<close> (the
  merging has taken records off it): of the new records none is left that was not in one of them.\<close>

theorem overlap_loses_rows:
  assumes "rq_model new = Some m" and "rq_model old = Some m" and "rq_previous new = a" and "rq_previous old = a"
    and "a < bd_free bd" and "bd_heap bd a = P" and "P \<noteq> []" and "rows = d # ds" and "kind \<noteq> AutoReload"
  shows "models_data (answered kind old olds (answered AutoReload new rows bd)) m = mergeModelData olds (pop_overlap P (sa_time d))
    \<and> models_data (answered AutoReload new rows bd) m = pop_overlap P (sa_time d) @ rows"
proof -
  let ?bd = "answered AutoReload new rows bd"
  have "?bd = set_merged m a (bd_free bd) ((stored m rows bd)\<lparr>bd_data_end := later_date (bd_data_end bd) (sample_time (last rows))\<rparr>)"
    using assms by (simp add: answered_def modelFetchNewerSuccess_def stored_def Let_def)
  then have "bd_heap ?bd a = pop_overlap P (sa_time d)" "a < bd_free ?bd"
    using assms by (auto simp: set_merged_def stored_def Let_def)
  then show ?thesis using assms answered_data [of old m ?bd kind olds] answered_data [of new m bd AutoReload rows]
    by (simp add: mergeModelData_def)
qed

theorem overlap_loses_rows_witness:
  "models_data (answered ScrollLoad (older_request 0 (first_board [sample_at 1440932400000]) ''cpu'') []
      (answered AutoReload (reload_request 1440933000000 (first_board [sample_at 1440932400000]) ''cpu'')
        [sample_at 1440932400000, sample_at 1440932700000] (first_board [sample_at 1440932400000]))) ''cpu'' = []"
proof -
  let ?bd = "first_board [sample_at 1440932400000]"
  have "models_data (answered ScrollLoad (older_request 0 ?bd ''cpu'') []
      (answered AutoReload (reload_request 1440933000000 ?bd ''cpu'') [sample_at 1440932400000, sample_at 1440932700000] ?bd)) ''cpu''
    = mergeModelData [] (pop_overlap [sample_at 1440932400000] (sa_time (sample_at 1440932400000)))"
    using conjunct1 [OF overlap_loses_rows [of "reload_request 1440933000000 ?bd ''cpu''" "''cpu''" "older_request 0 ?bd ''cpu''" 0 ?bd
          "[sample_at 1440932400000]" "[sample_at 1440932400000, sample_at 1440932700000]" "sample_at 1440932400000"
          "[sample_at 1440932700000]" ScrollLoad "[]"]]
    by (simp add: reload_request_def older_request_def first_board_def Let_def)
  then show ?thesis by (simp add: pop_overlap_def mergeModelData_def)
qed

text \<open>How many loads of older data scrolling has started.\<close>

definition scroll_loads :: "board \<Rightarrow> nat" where
  "scroll_loads bd = count_list (map ba_kind (bd_batches bd)) ScrollLoad"

definition one_scroll :: "board \<Rightarrow> bool" where
  "one_scroll bd = (\<forall>b c. b < length (bd_batches bd) \<and> c < length (bd_batches bd) \<and> ba_kind (bd_batches bd ! b) = ScrollLoad
     \<and> ba_kind (bd_batches bd ! c) = ScrollLoad \<and> ba_open (bd_batches bd ! b) \<noteq> [] \<and> ba_open (bd_batches bd ! c) \<noteq> [] \<longrightarrow> b = c \<and> bd_loading bd)"

definition stuck :: "board \<Rightarrow> bool" where
  "stuck bd = (bd_loading bd \<and> (\<forall>ba\<in>set (bd_batches bd). ba_kind ba = ScrollLoad \<and> ba_open ba \<noteq> [] \<longrightarrow> ba_failed ba))"

lemma batch_done_loading: "bd_loading (batch_done cs k bd) = (k \<noteq> ScrollLoad \<and> bd_loading bd)"
  by (cases k) (simp_all add: batch_done_def align_view_def)

lemma settle_loading: "bd_loading (settle cs b i f bd) =
    (bd_loading bd \<and> \<not> (ba_kind (bd_batches bd ! b) = ScrollLoad \<and> drop_nth i (ba_open (bd_batches bd ! b)) = []
        \<and> \<not> ba_failed (bd_batches bd ! b) \<and> \<not> f))"
  by (auto simp: settle_def Let_def batch_done_loading)

lemma drop_nth_in: "i < length xs \<Longrightarrow> xs \<noteq> []"
  by auto

lemma start_batches: "bd_batches (start_batch k rqs bd) = bd_batches bd @ [\<lparr>ba_kind = k, ba_open = rqs @ [annotation_request], ba_failed = False\<rparr>]"
  "bd_loading (start_batch k rqs bd) = bd_loading bd"
  by (simp_all add: start_batch_def)

lemma stuck_settle:
  assumes "stuck bd" and "is_open b i bd"
  shows "stuck (settle cs b i f bd)"
proof -
  have b: "bd_batches bd ! b \<in> set (bd_batches bd)" "ba_open (bd_batches bd ! b) \<noteq> []" using assms(2) by (auto simp: is_open_def)
  have "ba_failed ba" if "ba \<in> set (bd_batches (settle cs b i f bd))" "ba_kind ba = ScrollLoad" "ba_open ba \<noteq> []" for ba
    using that b assms(1) unfolding settle_batches stuck_def
    by (auto dest!: set_update_subset_insert [THEN subsetD])
  then show ?thesis using b assms(1) by (auto simp: stuck_def settle_loading)
qed

lemma settle_kinds: "map ba_kind (bd_batches (settle cs b i f bd)) = map ba_kind (bd_batches bd)"
  by (cases "b < length (bd_batches bd)") (simp_all add: settle_batches map_update list_update_same_conv list_update_beyond)

lemma settle_nth: "c < length (bd_batches bd) \<Longrightarrow> ba_kind (bd_batches (settle cs b i f bd) ! c) = ba_kind (bd_batches bd ! c)"
  using settle_kinds [of cs b i f bd] by (metis length_map nth_map)

lemma stuck_step: "stuck bd \<Longrightarrow> stuck (load_step cs e bd) \<and> scroll_loads (load_step cs e bd) = scroll_loads bd"
proof (cases e)
  case (Answer b i rows)
  assume s: "stuck bd"
  let ?a = "answered (ba_kind (bd_batches bd ! b)) (ba_open (bd_batches bd ! b) ! i) rows bd"
  have a: "stuck ?a" "is_open b i bd \<Longrightarrow> is_open b i ?a" using s by (simp_all add: stuck_def is_open_def)
  show ?thesis using s a stuck_settle [OF a(1)] Answer by (simp add: scroll_loads_def settle_kinds)
next
  case (Failure b i)
  assume "stuck bd"
  then show ?thesis using stuck_settle Failure by (simp add: scroll_loads_def settle_kinds)
next
  case (Scrolled rows start end' dir)
  assume "stuck bd"
  then show ?thesis using Scrolled by (simp add: stuck_def handleScroll_def scroll_loads_def Let_def)
qed (auto simp: stuck_def scroll_loads_def autoReloadNewData_def updateMinutesPerBar_def start_batches batch_done_loading Let_def)

lemma one_scroll_settle:
  assumes "one_scroll bd" and "is_open b i bd"
  shows "one_scroll (settle cs b i f bd)"
proof -
  have sub: "ba_open (bd_batches (settle cs b i f bd) ! c) \<noteq> [] \<Longrightarrow> ba_open (bd_batches bd ! c) \<noteq> []" if "c < length (bd_batches bd)" for c
    using assms(2) that by (cases "c = b") (auto simp: settle_batches is_open_def)
  have len: "length (bd_batches (settle cs b i f bd)) = length (bd_batches bd)" by (simp add: settle_batches)
  have b: "b < length (bd_batches bd)" "ba_open (bd_batches bd ! b) \<noteq> []" using assms(2) by (auto simp: is_open_def)
  show ?thesis unfolding one_scroll_def len
  proof (intro allI impI)
    fix c d assume *: "c < length (bd_batches bd) \<and> d < length (bd_batches bd) \<and> ba_kind (bd_batches (settle cs b i f bd) ! c) = ScrollLoad
      \<and> ba_kind (bd_batches (settle cs b i f bd) ! d) = ScrollLoad \<and> ba_open (bd_batches (settle cs b i f bd) ! c) \<noteq> []
      \<and> ba_open (bd_batches (settle cs b i f bd) ! d) \<noteq> []"
    then have c: "ba_kind (bd_batches bd ! c) = ScrollLoad" "ba_kind (bd_batches bd ! d) = ScrollLoad"
      "ba_open (bd_batches bd ! c) \<noteq> []" "ba_open (bd_batches bd ! d) \<noteq> []" using sub settle_nth by auto
    then have "c = d" "bd_loading bd" using * assms(1) by (auto simp: one_scroll_def)
    moreover have "c = b" if "ba_kind (bd_batches bd ! b) = ScrollLoad" using assms(1) * c b that by (auto simp: one_scroll_def)
    then have "drop_nth i (ba_open (bd_batches bd ! b)) \<noteq> []" if "ba_kind (bd_batches bd ! b) = ScrollLoad"
      using * b(1) that by (auto simp: settle_batches)
    ultimately show "c = d \<and> bd_loading (settle cs b i f bd)" by (auto simp: settle_loading)
  qed
qed

lemma one_scroll_append:
  assumes "one_scroll bd" and "bd_batches bd' = bd_batches bd @ [ba]"
    and "ba_kind ba = ScrollLoad \<Longrightarrow> bd_loading bd' \<and> \<not> bd_loading bd" and "bd_loading bd \<Longrightarrow> bd_loading bd'"
  shows "one_scroll bd'"
proof -
  have "\<not> (c < length (bd_batches bd) \<and> ba_kind (bd_batches bd ! c) = ScrollLoad \<and> ba_open (bd_batches bd ! c) \<noteq> [])" if "\<not> bd_loading bd" for c
    using assms(1) that by (auto simp: one_scroll_def)
  note none = this
  let ?n = "length (bd_batches bd)"
  have old: "bd_batches bd' ! c = bd_batches bd ! c" if "c < ?n" for c using that assms(2) by (simp add: nth_append)
  have new: "bd_batches bd' ! ?n = ba" using assms(2) by simp
  show ?thesis unfolding one_scroll_def
  proof (intro allI impI)
    fix c d assume *: "c < length (bd_batches bd') \<and> d < length (bd_batches bd') \<and> ba_kind (bd_batches bd' ! c) = ScrollLoad
      \<and> ba_kind (bd_batches bd' ! d) = ScrollLoad \<and> ba_open (bd_batches bd' ! c) \<noteq> [] \<and> ba_open (bd_batches bd' ! d) \<noteq> []"
    show "c = d \<and> bd_loading bd'"
    proof (cases "ba_kind ba = ScrollLoad")
      case True
      then have "\<not> bd_loading bd" "bd_loading bd'" using assms(3) by auto
      then have "c = ?n" "d = ?n" using * none [of c] none [of d] old [of c] old [of d] assms(2) by (auto simp: less_Suc_eq)
      then show ?thesis using \<open>bd_loading bd'\<close> by simp
    next
      case False
      then have "c < ?n" "d < ?n" using * new assms(2) by (auto simp: less_Suc_eq)
      then have "c = d \<and> bd_loading bd" using * old assms(1) by (auto simp: one_scroll_def)
      then show ?thesis using assms(4) by simp
    qed
  qed
qed

lemma one_scroll_same: "one_scroll bd \<Longrightarrow> bd_batches bd' = bd_batches bd \<Longrightarrow> bd_loading bd' = bd_loading bd \<Longrightarrow> one_scroll bd'"
  by (simp add: one_scroll_def)

lemma one_scroll_step: "one_scroll bd \<Longrightarrow> one_scroll (load_step cs e bd)"
proof (cases e)
  case (Answer b i rows)
  assume "one_scroll bd"
  then have "one_scroll (answered k q rows bd)" for k q by (rule one_scroll_same) simp_all
  then show ?thesis using \<open>one_scroll bd\<close> Answer by (auto intro!: one_scroll_settle simp: is_open_def)
next
  case (Failure b i)
  assume "one_scroll bd"
  then show ?thesis using Failure one_scroll_settle by simp
next
  case (Reload rows now)
  assume "one_scroll bd"
  then show ?thesis unfolding Reload load_step.simps autoReloadNewData_def by (rule one_scroll_append [OF _ start_batches(1)]) (simp_all add: start_batches)
next
  case (TabChanged rows minutes)
  assume o: "one_scroll bd"
  let ?bd = "bd\<lparr>bd_perBar := minutes, bd_view_start := to_date (of_int (bd_view_end bd) - getViewRangeWidth cs minutes)\<rparr>"
  have "one_scroll ?bd" using o by (rule one_scroll_same) simp_all
  then have "one_scroll (start_batch TabLoad rqs ?bd)" for rqs
    by (rule one_scroll_append [OF _ start_batches(1)]) (simp_all add: start_batches)
  moreover have "one_scroll (batch_done cs TabLoad ?bd)" using o by (rule one_scroll_same) (simp_all add: batch_done_loading)
  ultimately show ?thesis by (simp add: TabChanged updateMinutesPerBar_def Let_def)
next
  case (Scrolled rows start end' dir)
  assume o: "one_scroll bd"
  let ?bd = "bd\<lparr>bd_view_start := to_date start, bd_view_end := to_date end'\<rparr>"
  have v: "one_scroll ?bd" using o by (rule one_scroll_same) simp_all
  then have "one_scroll (start_batch ScrollLoad rqs (?bd\<lparr>bd_loading := True\<rparr>))" if "\<not> bd_loading bd" for rqs
    by (rule one_scroll_append) (use that in \<open>simp_all add: start_batches\<close>)
  then show ?thesis using v by (simp add: Scrolled handleScroll_def Let_def)
qed

text \<open>C35: after a request for older data has failed while scrolling, whatever happens then, \<open>isLoading\<close> stays set and scrolling never asks for
  older data again: \<open>$.when\<close> only resets it when every request of the batch has been answered.\<close>

theorem failed_load_blocks_scrolling:
  assumes "bd_batches bd0 = []" and "bd = fold (load_step cs) es bd0" and "is_open b i bd" and "ba_kind (bd_batches bd ! b) = ScrollLoad"
    and "bd' = fold (load_step cs) es' (load_step cs (Failure b i) bd)"
  shows "bd_loading bd' \<and> scroll_loads bd' = scroll_loads bd"
proof -
  have "one_scroll bd0" using assms(1) by (simp add: one_scroll_def)
  then have one: "one_scroll bd" unfolding assms(2) by (induction es arbitrary: bd0) (simp_all add: one_scroll_step)
  let ?f = "settle cs b i True bd"
  have b: "b < length (bd_batches bd)" "ba_open (bd_batches bd ! b) \<noteq> []" using assms(3) by (auto simp: is_open_def)
  have "ba_failed (bd_batches ?f ! c)" if c: "c < length (bd_batches ?f)" "ba_kind (bd_batches ?f ! c) = ScrollLoad" "ba_open (bd_batches ?f ! c) \<noteq> []" for c
  proof -
    have "c = b" using c one b assms(4) settle_nth [of c bd cs b i True] by (cases "c = b") (auto simp: one_scroll_def settle_batches)
    then show ?thesis using b by (simp add: settle_batches)
  qed
  moreover have "bd_loading ?f" using one b assms(4) by (auto simp: settle_loading one_scroll_def)
  ultimately have "stuck ?f" by (auto simp: stuck_def in_set_conv_nth)
  then have "stuck (fold (load_step cs) es' ?f) \<and> scroll_loads (fold (load_step cs) es' ?f) = scroll_loads ?f"
    by (induction es' rule: rev_induct) (simp_all add: stuck_step)
  then show ?thesis using assms(3,5) by (simp add: stuck_def scroll_loads_def settle_kinds)
qed

theorem failed_load_blocks_scrolling_witness:
  "bd_loading (fold (load_step one_model) [Scrolled one_row 0 100 ToRight, Scrolled one_row 0 100 ToRight]
     (load_step one_model (Failure 0 0) (fold (load_step one_model) [Scrolled one_row 0 100 ToRight] (first_board []))))"
proof -
  let ?bd = "fold (load_step one_model) [Scrolled one_row 0 100 ToRight] (first_board [])"
  have "bd_batches (first_board []) = []" "is_open 0 0 ?bd" "ba_kind (bd_batches ?bd ! 0) = ScrollLoad"
    by (simp_all add: first_board_def handleScroll_def start_batch_def is_open_def to_date_def Let_def)
  from conjunct1 [OF failed_load_blocks_scrolling [OF this(1) refl this(2,3) refl]] show ?thesis .
qed

text \<open>the ranges: whatever happens, the range of the data only grows; and when a load for a tab is done, the view ends within the
  data and, unless it was inside, ends with it.\<close>

theorem ranges_grow:
  "bd_data_start (load_step cs e bd) \<le> bd_data_start bd \<and> bd_data_end bd \<le> bd_data_end (load_step cs e bd)
   \<and> bd_view_end (batch_done cs TabLoad bd) \<le> bd_data_end bd
   \<and> (bd_data_start bd \<le> bd_view_start (batch_done cs TabLoad bd) \<or> bd_view_end (batch_done cs TabLoad bd) = bd_data_end bd)"
proof -
  have a: "bd_data_start (answered k q rows bd) \<le> bd_data_start bd" "bd_data_end bd \<le> bd_data_end (answered k q rows bd)" for k q rows
    by (auto simp: answered_def modelFetchNewerSuccess_def modelFetchOlderSuccess_def Let_def later_date_def earlier_date_def split: option.splits)
  have "bd_data_start (load_step cs e bd) \<le> bd_data_start bd \<and> bd_data_end bd \<le> bd_data_end (load_step cs e bd)"
    by (cases e) (auto simp: a autoReloadNewData_def handleScroll_def updateMinutesPerBar_def start_batch_def Let_def)
  then show ?thesis by (auto simp: batch_done_def align_view_def)
qed

section \<open>The first load\<close>

text \<open>\<open>initialize\<close>: the tab of the URL, or \<open>days\<close> (names that every object inherits are left aside); the range of data by tab, ending now; then the view of its width.\<close>

definition init_tab :: "string option \<Rightarrow> string" where
  "init_tab url_tab = (case url_tab of Some t \<Rightarrow> if t \<in> {''hours'', ''days'', ''weeks''} then t else ''days'' | None \<Rightarrow> ''days'')"

definition perBar_of :: "string \<Rightarrow> nat" where
  "perBar_of tab = (if tab = ''hours'' then 5 else if tab = ''days'' then 60 else 480)"

definition initDataSize :: "string \<Rightarrow> int" where
  "initDataSize tab = (if tab = ''hours'' then 10 * 3600000 else if tab = ''days'' then 5 * 86400000 else 5 * 604800000)"

definition init_board :: "chart_setup \<Rightarrow> int \<Rightarrow> string option \<Rightarrow> board" where
  "init_board cs now url_tab =
     (let tab = init_tab url_tab
      in updateMinutesPerBar cs [] (perBar_of tab) \<lparr>bd_heap = (\<lambda>a. []), bd_free = 0, bd_data = (\<lambda>m. 0),
           bd_data_start = now - initDataSize tab, bd_data_end = now, bd_view_start = now, bd_view_end = now, bd_perBar = 0,
           bd_loading = False, bd_batches = []\<rparr>)"

text \<open>The first answers of all models.\<close>

definition first_answers :: "(string \<times> sample list) list \<Rightarrow> board \<Rightarrow> board" where
  "first_answers answers bd = fold (\<lambda>(m, rows). stored m rows) answers bd"

text \<open>\<open>getValidDataRowFromHandle\<close>: the first array whose first and last records have a timestamp; their numbers are numeric.\<close>

definition getValidDataRowFromHandle :: "sample list list \<Rightarrow> sample list option" where
  "getValidDataRowFromHandle handles = find (\<lambda>data. data \<noteq> [] \<and> sa_time (hd data) \<noteq> [] \<and> sa_time (last data) \<noteq> []) handles"

text \<open>The instances whose rows are rendered: the first model has data. \<open>None\<close> is the message that there is no data.\<close>

definition rendered_instances :: "chart_setup \<Rightarrow> string list \<Rightarrow> board \<Rightarrow> string list option" where
  "rendered_instances cs instances bd =
     (case getValidDataRowFromHandle (concat (map (\<lambda>i. map (models_data bd) (cs_models cs i)) instances)) of
        None \<Rightarrow> None
      | Some data \<Rightarrow> Some (filter (\<lambda>i. models_data bd (hd (cs_models cs i)) \<noteq> []) instances))"

lemma first_answers_ok:
  assumes "distinct (map fst as)" and "\<forall>(m, rows)\<in>set as. in_order rows \<and> (\<forall>r\<in>set rows. canonical r)" and "open_models bd = []"
    and "\<forall>ba\<in>set (bd_batches bd). \<forall>rq\<in>set (ba_open ba). rq_model rq = None"
  shows "board_ok (map fst as) (first_answers as bd) \<and> (\<forall>(m, rows)\<in>set as. models_data (first_answers as bd) m = rows)
    \<and> bd_batches (first_answers as bd) = bd_batches bd"
  using assms(1,2)
proof (induction as rule: rev_induct)
  case Nil
  then show ?case using assms(3,4) by (fastforce simp: board_ok_def first_answers_def open_request_def)
next
  case (snoc a as)
  obtain m rows where a: "a = (m, rows)" by (cases a)
  let ?bd = "first_answers as bd"
  have f: "first_answers (as @ [a]) bd = stored m rows ?bd" by (simp add: first_answers_def a)
  have IH: "board_ok (map fst as) ?bd" "\<And>m rows. (m, rows) \<in> set as \<Longrightarrow> models_data ?bd m = rows" "bd_batches ?bd = bd_batches bd"
    using snoc by auto
  have lt: "bd_data ?bd m' < bd_free ?bd" if "m' \<in> fst ` set as" for m' using IH(1) that by (auto simp: board_ok_def)
  have old: "bd_data (stored m rows ?bd) m' = bd_data ?bd m'" "models_data (stored m rows ?bd) m' = models_data ?bd m'" if "m' \<in> fst ` set as" for m'
  proof -
    have "m' \<noteq> m" using that snoc.prems(1) a by auto
    then show "bd_data (stored m rows ?bd) m' = bd_data ?bd m'" by (simp add: stored_other)
    then show "models_data (stored m rows ?bd) m' = models_data ?bd m'" using lt [OF that] by (simp add: models_data_def stored_other)
  qed
  have new: "models_data (stored m rows ?bd) m = rows" by (simp add: models_data_def)
  have inj: "inj_on (bd_data (stored m rows ?bd)) (set (map fst (as @ [a])))"
  proof -
    have "inj_on (bd_data (stored m rows ?bd)) (fst ` set as)"
      using IH(1) old(1) by (auto simp: board_ok_def inj_on_def)
    moreover have "bd_data (stored m rows ?bd) m \<notin> bd_data (stored m rows ?bd) ` (fst ` set as)" using old(1) lt by force
    ultimately show ?thesis by (auto simp: a)
  qed
  have none: "\<not> (open_request k rq (stored m rows ?bd) \<and> rq_model rq = Some m')" for k rq m'
    using assms(4) IH(3) by (auto simp: open_request_def)
  have om: "open_models (stored m rows ?bd) = []" using assms(3) IH(3) by (simp add: open_models_def)
  have each: "bd_data (stored m rows ?bd) m' < bd_free (stored m rows ?bd) \<and> in_order (models_data (stored m rows ?bd) m')
      \<and> (\<forall>r\<in>set (models_data (stored m rows ?bd) m'). canonical r)" if "m' \<in> set (map fst (as @ [a]))" for m'
  proof (cases "m' = m")
    case True
    then show ?thesis using new snoc.prems(2) a by simp
  next
    case False
    then have m': "m' \<in> fst ` set as" using that a by auto
    then show ?thesis using old [OF m'] lt [OF m'] IH(1) by (auto simp: board_ok_def less_SucI)
  qed
  have "board_ok (map fst (as @ [a])) (stored m rows ?bd)"
    unfolding board_ok_def using inj om each none by (simp only: distinct.simps) blast
  moreover have "models_data (stored m rows ?bd) m' = rows'" if "(m', rows') \<in> set (as @ [a])" for m' rows'
    using that new a IH(2) old(2) by (force simp: image_iff)
  ultimately show ?case using IH(3) f by auto
qed

lemma init_board_open: "\<forall>ba\<in>set (bd_batches (init_board cs now t)). \<forall>rq\<in>set (ba_open ba). rq_model rq = None"
  "open_models (init_board cs now t) = []"
  by (auto simp: init_board_def updateMinutesPerBar_def Let_def start_batch_def older_requests_def of_type_def annotation_request_def
      open_models_def models_in_def List.map_filter_simps)

text \<open>the board after the first load satisfies the invariant of \<open>rows_kept\<close>, with the records of the server; and an instance whose first
  model has no data is not rendered, whatever data its other models have.\<close>

theorem first_load_ok:
  assumes "distinct (map fst as)" and "\<forall>(m, rows)\<in>set as. in_order rows \<and> (\<forall>r\<in>set rows. canonical r)"
    and "bd = first_answers as (init_board cs now t)"
  shows "board_ok (map fst as) bd \<and> (\<forall>(m, rows)\<in>set as. models_data bd m = rows)
    \<and> (\<forall>shown. rendered_instances cs instances bd = Some shown \<longrightarrow> i \<in> set shown \<longrightarrow> models_data bd (hd (cs_models cs i)) \<noteq> [])"
  using first_answers_ok [OF assms(1,2) init_board_open(2,1)] unfolding assms(3)
  by (auto simp: rendered_instances_def split: option.splits)

theorem first_load_ok_witness:
  "models_data (first_answers [(''cpu'', [])] (init_board one_model 1440932700000 None)) ''cpu'' = []"
  using first_load_ok [of "[(''cpu'', [])]" _ one_model 1440932700000 None, OF _ _ refl] by simp

end
