(* ===== verification/Web_Encoding.thy ===== *)
theory Web_Encoding
  imports JS_String "HOL-Library.Word"
begin

text \<open>
  The encodings of the HTM.IT web pages, \<open>htm.it/static/js/lib/htm-it/utils.js\<close>: UTF-8 and base64 for the
  authorization header, XML entities for attributes, and the parameters of the page's URL. Each is compared with a reader
  written from the standard of the encoding.
\<close>

unbundle bit_operations_syntax

section \<open>UTF-8\<close>

text \<open>A string is the list of its 16-bit code units; \<open>charCodeAt\<close> gives a number, on which the bit operations work in 32 bits.\<close>

type_synonym code_unit = "16 word"

definition charCode :: "code_unit \<Rightarrow> 32 word" where
  "charCode c = ucast c"

definition fromCharCode :: "32 word \<Rightarrow> code_unit" where
  "fromCharCode n = ucast n"

text \<open>\<open>string.replace(/\r\n/g, "\n")\<close>\<close>

fun unix_newlines :: "code_unit list \<Rightarrow> code_unit list" where
  "unix_newlines [] = []"
| "unix_newlines [c] = [c]"
| "unix_newlines (c # d # s) = (if c = 13 \<and> d = 10 then 10 # unix_newlines s else c # unix_newlines (d # s))"

definition utf8_unit :: "code_unit \<Rightarrow> code_unit list" where
  "utf8_unit ch =
     (let c = charCode ch
      in if c < 128 then [fromCharCode c]
         else if c > 127 \<and> c < 2048 then
           [fromCharCode (signed_drop_bit 6 c OR 192), fromCharCode ((c AND 63) OR 128)]
         else
           [fromCharCode (signed_drop_bit 12 c OR 224), fromCharCode ((signed_drop_bit 6 c AND 63) OR 128),
            fromCharCode ((c AND 63) OR 128)])"

definition utf8_encode :: "code_unit list \<Rightarrow> code_unit list" where
  "utf8_encode str = concat (map utf8_unit (unix_newlines str))"

section \<open>Base64\<close>

definition keyStr :: string where
  "keyStr = ''ABCDEFGHIJKLMNOPQRSTUVWXYZabcdefghijklmnopqrstuvwxyz0123456789+/=''"

definition key_charAt :: "32 word \<Rightarrow> string" where
  "key_charAt i = (if unat i < length keyStr then [keyStr ! unat i] else [])"

text \<open>\<open>charCodeAt\<close> past the end is \<open>NaN\<close>, which is 0 in bit operations.\<close>

definition char_or_0 :: "code_unit option \<Rightarrow> 32 word" where
  "char_or_0 c = (case c of None \<Rightarrow> 0 | Some c \<Rightarrow> charCode c)"

definition encode_group :: "code_unit \<Rightarrow> code_unit option \<Rightarrow> code_unit option \<Rightarrow> string" where
  "encode_group c1 c2 c3 =
     (let chr1 = charCode c1; chr2 = char_or_0 c2; chr3 = char_or_0 c3;
          enc1 = signed_drop_bit 2 chr1;
          enc2 = push_bit 4 (chr1 AND 3) OR signed_drop_bit 4 chr2;
          enc3 = push_bit 2 (chr2 AND 15) OR signed_drop_bit 6 chr3;
          enc4 = chr3 AND 63;
          (enc3, enc4) = (if c2 = None then (64, 64) else if c3 = None then (enc3, 64) else (enc3, enc4))
      in key_charAt enc1 @ key_charAt enc2 @ key_charAt enc3 @ key_charAt enc4)"

fun encode_loop :: "code_unit list \<Rightarrow> string" where
  "encode_loop [] = []"
| "encode_loop [c1] = encode_group c1 None None"
| "encode_loop [c1, c2] = encode_group c1 (Some c2) None"
| "encode_loop (c1 # c2 # c3 # input) = encode_group c1 (Some c2) (Some c3) @ encode_loop input"

definition base64_encode :: "code_unit list \<Rightarrow> string" where
  "base64_encode input = encode_loop (utf8_encode input)"

section \<open>Readers\<close>

text \<open>UTF-8 of the basic plane, as RFC 3629 has it: shortest form, no surrogates.\<close>

definition continuation :: "code_unit \<Rightarrow> bool" where
  "continuation b = (b AND 192 = 128)"

definition utf8_two :: "code_unit \<Rightarrow> code_unit \<Rightarrow> code_unit" where
  "utf8_two b1 b2 = push_bit 6 (b1 AND 31) OR (b2 AND 63)"

definition utf8_three :: "code_unit \<Rightarrow> code_unit \<Rightarrow> code_unit \<Rightarrow> code_unit" where
  "utf8_three b1 b2 b3 = push_bit 12 (b1 AND 15) OR push_bit 6 (b2 AND 63) OR (b3 AND 63)"

definition surrogate :: "code_unit \<Rightarrow> bool" where
  "surrogate c = (c AND 63488 = 55296)"

fun utf8_decode :: "code_unit list \<Rightarrow> code_unit list option" where
  "utf8_decode [] = Some []"
| "utf8_decode (b1 # bs) =
     (if b1 < 128 then map_option (Cons b1) (utf8_decode bs)
      else if b1 AND 224 = 192 then
        (case bs of
           b2 # bs' \<Rightarrow>
             if continuation b2 \<and> 128 \<le> utf8_two b1 b2 then map_option (Cons (utf8_two b1 b2)) (utf8_decode bs') else None
         | _ \<Rightarrow> None)
      else if b1 AND 240 = 224 then
        (case bs of
           b2 # b3 # bs' \<Rightarrow>
             if continuation b2 \<and> continuation b3 \<and> 2048 \<le> utf8_three b1 b2 b3 \<and> \<not> surrogate (utf8_three b1 b2 b3)
             then map_option (Cons (utf8_three b1 b2 b3)) (utf8_decode bs') else None
         | _ \<Rightarrow> None)
      else None)"

text \<open>Base64, as RFC 4648 has it.\<close>

definition key_index :: "char \<Rightarrow> 16 word option" where
  "key_index c = (let i = length (takeWhile (\<lambda>k. k \<noteq> c) keyStr) in if i < 64 then Some (of_nat i) else None)"

definition byte1 :: "16 word \<Rightarrow> 16 word \<Rightarrow> code_unit" where
  "byte1 a b = push_bit 2 a OR drop_bit 4 b"

definition byte2 :: "16 word \<Rightarrow> 16 word \<Rightarrow> code_unit" where
  "byte2 b c = push_bit 4 (b AND 15) OR drop_bit 2 c"

definition byte3 :: "16 word \<Rightarrow> 16 word \<Rightarrow> code_unit" where
  "byte3 c d = push_bit 6 (c AND 3) OR d"

definition decode_group :: "char \<Rightarrow> char \<Rightarrow> char \<Rightarrow> char \<Rightarrow> code_unit list option" where
  "decode_group k1 k2 k3 k4 = (case (key_index k1, key_index k2) of
       (Some a, Some b) \<Rightarrow>
         (case key_index k3 of
            None \<Rightarrow> if k3 = CHR ''='' \<and> k4 = CHR ''='' then Some [byte1 a b] else None
          | Some c \<Rightarrow>
              (case key_index k4 of
                 None \<Rightarrow> if k4 = CHR ''='' then Some [byte1 a b, byte2 b c] else None
               | Some d \<Rightarrow> Some [byte1 a b, byte2 b c, byte3 c d]))
     | _ \<Rightarrow> None)"

fun base64_decode :: "string \<Rightarrow> code_unit list option" where
  "base64_decode [] = Some []"
| "base64_decode (k1 # k2 # k3 # k4 # s) =
     (case decode_group k1 k2 k3 k4 of
        None \<Rightarrow> None
      | Some bs \<Rightarrow> map_option (append bs) (base64_decode s))"
| "base64_decode s = None"

section \<open>Bits\<close>

lemma word16_eqI:
  fixes a b :: "16 word"
  assumes "list_all (\<lambda>n. bit a n = bit b n) [0,1,2,3,4,5,6,7,8,9,10,11,12,13,14,15]"
  shows "a = b"
proof (rule bit_word_eqI)
  fix n assume "n < LENGTH(16)"
  then have "n < 16" by simp
  then have "n \<in> set [0,1,2,3,4,5,6,7,8,9,10,11,12,13,14,15]" by (simp add: numeral_eq_Suc less_Suc_eq)
  then show "bit a n = bit b n" using assms by (simp only: list_all_iff)
qed

lemma less_bits:
  fixes c :: "'a::len word"
  assumes "unat c < 2 ^ k" and "k \<le> n"
  shows "\<not> bit c n"
proof
  assume b: "bit c n"
  have "(2 :: nat) ^ k \<le> 2 ^ n" using assms(2) by simp
  then have "unat c < 2 ^ n" using assms(1) by linarith
  then have "unat c div 2 ^ n = 0" by simp
  moreover have "bit (unat c) n" using b bit_imp_le_length [OF b] by (simp add: bit_unsigned_iff)
  ultimately show False by (simp add: bit_iff_odd)
qed

lemma high_bits [simp]: "16 \<le> n \<Longrightarrow> \<not> bit (c :: code_unit) n"
  by (auto dest: bit_imp_le_length)

lemma signed_drop_charCode: "bit (signed_drop_bit k (charCode c)) n = bit c (n + k)"
  by (auto simp: charCode_def bit_simps add.commute dest: bit_imp_le_length)

lemma fromCharCode_bit: "bit (fromCharCode w) n = (n < 16 \<and> bit w n)"
  by (auto simp: fromCharCode_def bit_simps)

lemma charCode_bit: "bit (charCode c) n = bit c n"
  by (auto simp: charCode_def bit_simps dest: bit_imp_le_length)

lemmas unit_bits = signed_drop_charCode fromCharCode_bit charCode_bit bit_and_iff bit_or_iff bit_push_bit_iff bit_drop_bit_eq

lemma charCode_unat: "unat (charCode c) = unat c"
  by (simp add: charCode_def unsigned_ucast_eq take_bit_nat_eq_self_iff) (rule less_trans [OF unsigned_less], simp)

lemma fromCharCode_charCode: "fromCharCode (charCode c) = c"
  by (rule bit_word_eqI) (auto simp: unit_bits)

lemma utf8_unit_one: "unat c < 128 \<Longrightarrow> utf8_unit c = [c]"
  by (simp add: utf8_unit_def word_less_nat_alt charCode_unat fromCharCode_charCode)

lemma utf8_unit_two:
  assumes "128 \<le> unat c" and "unat c < 2048"
  shows "\<exists>b1 b2. utf8_unit c = [b1, b2] \<and> \<not> b1 < 128 \<and> b1 AND 224 = 192 \<and> continuation b2 \<and> utf8_two b1 b2 = c"
proof -
  let ?b1 = "fromCharCode (signed_drop_bit 6 (charCode c) OR 192)" and ?b2 = "fromCharCode ((charCode c AND 63) OR 128)"
  have z: "\<not> bit c 11" "\<not> bit c 12" "\<not> bit c 13" "\<not> bit c 14" "\<not> bit c 15"
    using less_bits [of c 11] assms(2) by simp_all
  have "utf8_unit c = [?b1, ?b2]" using assms by (simp add: utf8_unit_def word_less_nat_alt charCode_unat Let_def)
  moreover have "bit ?b1 7" by (simp add: unit_bits)
  then have "\<not> unat ?b1 < 2 ^ 7" using less_bits by blast
  then have "\<not> ?b1 < 128" by (simp add: word_less_nat_alt)
  moreover have "?b1 AND 224 = 192" by (rule word16_eqI) (simp add: unit_bits z)
  moreover have "?b2 AND 192 = 128" by (rule word16_eqI) (simp add: unit_bits z)
  moreover have "utf8_two ?b1 ?b2 = c" by (rule word16_eqI) (simp add: utf8_two_def unit_bits z)
  ultimately show ?thesis by (simp add: continuation_def)
qed

lemma utf8_unit_three:
  assumes "2048 \<le> unat c"
  shows "\<exists>b1 b2 b3. utf8_unit c = [b1, b2, b3] \<and> \<not> b1 < 128 \<and> b1 AND 224 \<noteq> 192 \<and> b1 AND 240 = 224
    \<and> continuation b2 \<and> continuation b3 \<and> utf8_three b1 b2 b3 = c"
proof -
  let ?b1 = "fromCharCode (signed_drop_bit 12 (charCode c) OR 224)"
    and ?b2 = "fromCharCode ((signed_drop_bit 6 (charCode c) AND 63) OR 128)" and ?b3 = "fromCharCode ((charCode c AND 63) OR 128)"
  have "utf8_unit c = [?b1, ?b2, ?b3]" using assms by (simp add: utf8_unit_def word_less_nat_alt charCode_unat Let_def)
  moreover have b: "bit ?b1 7" "bit ?b1 5" by (simp_all add: unit_bits)
  then have "\<not> unat ?b1 < 2 ^ 7" using less_bits by blast
  then have "\<not> ?b1 < 128" by (simp add: word_less_nat_alt)
  moreover have "bit (?b1 AND 224) 5" using b(2) by (simp add: bit_and_iff)
  then have "?b1 AND 224 \<noteq> 192" by auto
  moreover have "?b1 AND 240 = 224" by (rule word16_eqI) (simp add: unit_bits)
  moreover have "?b2 AND 192 = 128" by (rule word16_eqI) (simp add: unit_bits)
  moreover have "?b3 AND 192 = 128" by (rule word16_eqI) (simp add: unit_bits)
  moreover have "utf8_three ?b1 ?b2 ?b3 = c" by (rule word16_eqI) (simp add: utf8_three_def unit_bits)
  ultimately show ?thesis by (simp add: continuation_def)
qed

section \<open>Reading UTF-8\<close>

lemma utf8_decode_unit:
  assumes "\<not> surrogate c"
  shows "utf8_decode (utf8_unit c @ bs) = map_option (Cons c) (utf8_decode bs)"
proof -
  consider "unat c < 128" | "128 \<le> unat c" "unat c < 2048" | "2048 \<le> unat c" by linarith
  then show ?thesis
  proof cases
    case 1
    then show ?thesis by (simp add: utf8_unit_one word_less_nat_alt)
  next
    case 2
    from utf8_unit_two [OF this] obtain b1 b2 where b: "utf8_unit c = [b1, b2]" "\<not> b1 < 128" "b1 AND 224 = 192"
      "continuation b2" "utf8_two b1 b2 = c" by blast
    have "128 \<le> c" using 2(1) by (simp add: word_le_nat_alt)
    then show ?thesis using b by simp
  next
    case 3
    from utf8_unit_three [OF this] obtain b1 b2 b3 where b: "utf8_unit c = [b1, b2, b3]" "\<not> b1 < 128" "b1 AND 224 \<noteq> 192"
      "b1 AND 240 = 224" "continuation b2" "continuation b3" "utf8_three b1 b2 b3 = c" by blast
    have "2048 \<le> c" using 3 by (simp add: word_le_nat_alt)
    then show ?thesis using b assms by simp
  qed
qed

lemma utf8_decode_units:
  "list_all (\<lambda>c. \<not> surrogate c) s \<Longrightarrow> utf8_decode (concat (map utf8_unit s)) = Some s"
  by (induction s) (simp_all add: utf8_decode_unit)

text \<open>A surrogate is encoded on its own, which no reader of UTF-8 takes.\<close>

lemma utf8_decode_surrogate:
  assumes "surrogate c"
  shows "utf8_decode (utf8_unit c @ bs) = None"
proof -
  have "bit (c AND 63488) 15" using assms by (simp add: surrogate_def)
  then have "bit c 15" by (simp add: bit_and_iff)
  then have "\<not> unat c < 2 ^ 11" using less_bits [of c 11 15] by auto
  then have c: "2048 \<le> unat c" by simp
  from utf8_unit_three [OF this] obtain b1 b2 b3 where b: "utf8_unit c = [b1, b2, b3]" "\<not> b1 < 128" "b1 AND 224 \<noteq> 192"
    "b1 AND 240 = 224" "utf8_three b1 b2 b3 = c" by blast
  then show ?thesis using assms by simp
qed

lemma unix_newlines_members: "set (unix_newlines s) \<subseteq> set s"
  by (induction s rule: unix_newlines.induct) auto

lemma surrogate_newline [simp]: "\<not> surrogate 10"
  by (simp add: surrogate_def)

section \<open>Reading base64\<close>

lemma distinct_keyStr: "distinct keyStr"
  by code_simp

lemma length_keyStr [simp]: "length keyStr = 65"
  by code_simp

lemma index_nth:
  assumes "distinct xs" and "i < length xs"
  shows "length (takeWhile (\<lambda>k. k \<noteq> xs ! i) xs) = i"
proof -
  have "takeWhile (\<lambda>k. k \<noteq> xs ! i) xs = take i xs"
    using assms by (intro takeWhile_eq_take_P_nth) (auto simp: nth_eq_iff_index_eq)
  then show ?thesis using assms by simp
qed

lemma key_index_nth: "i < 64 \<Longrightarrow> key_index (keyStr ! i) = Some (of_nat i)"
  using index_nth [OF distinct_keyStr, of i] by (simp add: key_index_def)

lemma key_index_pad [simp]: "key_index CHR ''='' = None"
  by code_simp

text \<open>The character of six bits, and what it is read as.\<close>

definition sextet :: "32 word \<Rightarrow> bool" where
  "sextet w = (unat w < 64)"

definition key_char :: "32 word \<Rightarrow> char" where
  "key_char w = keyStr ! unat w"

lemma sextet_bits: "(\<And>n. 6 \<le> n \<Longrightarrow> \<not> bit w n) \<Longrightarrow> sextet w"
proof -
  assume "\<And>n. 6 \<le> n \<Longrightarrow> \<not> bit w n"
  then have "take_bit 6 w = w" by (intro bit_word_eqI) (metis bit_take_bit_iff not_less)
  then have "unat w = take_bit 6 (unat w)" by (metis unsigned_take_bit_eq)
  also have "\<dots> < 2 ^ 6" by (rule take_bit_nat_less_exp)
  finally show ?thesis by (simp add: sextet_def)
qed

lemma key_charAt_sextet: "sextet w \<Longrightarrow> key_charAt w = [key_char w]"
  by (simp add: sextet_def key_charAt_def key_char_def)

lemma key_charAt_pad: "key_charAt 64 = ''=''"
  by code_simp

lemma key_index_char: "sextet w \<Longrightarrow> key_index (key_char w) = Some (ucast w)"
  by (simp add: sextet_def key_char_def key_index_nth)

lemma key_char_not_pad: "sextet w \<Longrightarrow> key_char w \<noteq> CHR ''=''"
  using key_index_char [of w] by auto

definition byte_unit :: "code_unit \<Rightarrow> bool" where
  "byte_unit c = (unat c < 256)"

lemma byte_bits: "byte_unit c \<Longrightarrow> 8 \<le> n \<Longrightarrow> \<not> bit c n"
  using less_bits [of c 8 n] by (simp add: byte_unit_def)

lemmas char_or_0_simps [simp] = char_or_0_def [of None, simplified] char_or_0_def [of "Some c" for c, simplified]

definition enc1 :: "code_unit \<Rightarrow> 32 word" where
  "enc1 c1 = signed_drop_bit 2 (charCode c1)"

definition enc2 :: "code_unit \<Rightarrow> code_unit option \<Rightarrow> 32 word" where
  "enc2 c1 c2 = push_bit 4 (charCode c1 AND 3) OR signed_drop_bit 4 (char_or_0 c2)"

definition enc3 :: "code_unit \<Rightarrow> code_unit option \<Rightarrow> 32 word" where
  "enc3 c2 c3 = push_bit 2 (charCode c2 AND 15) OR signed_drop_bit 6 (char_or_0 c3)"

definition enc4 :: "code_unit \<Rightarrow> 32 word" where
  "enc4 c3 = charCode c3 AND 63"

lemma small_bits:
  fixes m :: int
  assumes "0 \<le> m" and "m < 2 ^ k" and "k \<le> n"
  shows "\<not> bit m n"
proof -
  have "(2 :: int) ^ k \<le> 2 ^ n" using assms(3) by simp
  then have "m < 2 ^ n" using assms(2) by linarith
  then have "m div 2 ^ n = 0" using assms(1) by simp
  then show ?thesis by (simp add: bit_iff_odd)
qed

lemma mask_bits:
  "6 \<le> n \<Longrightarrow> \<not> bit (48 :: int) n" "6 \<le> n \<Longrightarrow> \<not> bit (60 :: int) n" "6 \<le> n \<Longrightarrow> \<not> bit (63 :: int) n"
  by (simp_all add: small_bits [where k = 6])

lemma sextets:
  assumes "byte_unit c1" and "byte_unit c2" and "byte_unit c3"
  shows "sextet (enc1 c1)" "sextet (enc2 c1 None)" "sextet (enc2 c1 (Some c2))" "sextet (enc3 c2 None)"
    "sextet (enc3 c2 (Some c3))" "sextet (enc4 c3)"
  using byte_bits [OF assms(1)] byte_bits [OF assms(2)] byte_bits [OF assms(3)]
  by (auto intro!: sextet_bits simp: enc1_def enc2_def enc3_def enc4_def unit_bits mask_bits)

text \<open>The groups of the encoder, by their sextets.\<close>

lemma encode_groups:
  "encode_group c1 None None = key_charAt (enc1 c1) @ key_charAt (enc2 c1 None) @ ''==''"
  "encode_group c1 (Some c2) None = key_charAt (enc1 c1) @ key_charAt (enc2 c1 (Some c2)) @ key_charAt (enc3 c2 None) @ ''=''"
  "encode_group c1 (Some c2) (Some c3) =
     key_charAt (enc1 c1) @ key_charAt (enc2 c1 (Some c2)) @ key_charAt (enc3 c2 (Some c3)) @ key_charAt (enc4 c3)"
  by (simp_all add: encode_group_def enc1_def enc2_def enc3_def enc4_def key_charAt_pad Let_def)

lemma bytes_of_sextets:
  assumes "byte_unit c1" and "byte_unit c2" and "byte_unit c3"
  shows "byte1 (ucast (enc1 c1)) (ucast (enc2 c1 None)) = c1"
    "byte1 (ucast (enc1 c1)) (ucast (enc2 c1 (Some c2))) = c1"
    "byte2 (ucast (enc2 c1 (Some c2))) (ucast (enc3 c2 None)) = c2"
    "byte2 (ucast (enc2 c1 (Some c2))) (ucast (enc3 c2 (Some c3))) = c2"
    "byte3 (ucast (enc3 c2 (Some c3))) (ucast (enc4 c3)) = c3"
  by (rule word16_eqI, simp add: byte1_def byte2_def byte3_def enc1_def enc2_def enc3_def enc4_def unit_bits bit_ucast_iff
      byte_bits [OF assms(1)] byte_bits [OF assms(2)] byte_bits [OF assms(3)] flip: numeral_2_eq_2 numeral_3_eq_3)+

lemma decode_encode_group:
  assumes "byte_unit c1" and "byte_unit c2" and "byte_unit c3"
  shows "base64_decode (encode_group c1 None None @ s) = map_option (append [c1]) (base64_decode s)"
    "base64_decode (encode_group c1 (Some c2) None @ s) = map_option (append [c1, c2]) (base64_decode s)"
    "base64_decode (encode_group c1 (Some c2) (Some c3) @ s) = map_option (append [c1, c2, c3]) (base64_decode s)"
  using sextets [OF assms] bytes_of_sextets [OF assms]
  by (simp_all add: encode_groups key_charAt_sextet decode_group_def key_index_char)

lemma base64_decode_loop: "list_all byte_unit bs \<Longrightarrow> base64_decode (encode_loop bs) = Some bs"
proof (induction bs rule: encode_loop.induct)
  case (2 c1)
  then show ?case using decode_encode_group(1) [of c1 c1 c1 "[]"] by simp
next
  case (3 c1 c2)
  then show ?case using decode_encode_group(2) [of c1 c2 c1 "[]"] by simp
next
  case (4 c1 c2 c3 input)
  then show ?case using decode_encode_group(3) [of c1 c2 c3] by simp
qed simp

lemma byte_unit_bits:
  assumes "\<And>n. 8 \<le> n \<Longrightarrow> n < 16 \<Longrightarrow> \<not> bit w n"
  shows "byte_unit (fromCharCode w)"
proof -
  have "bit (take_bit 8 (fromCharCode w)) n = bit (fromCharCode w) n" if "n < 16" for n
    using assms [of n] that by (cases "n < 8") (auto simp: bit_take_bit_iff fromCharCode_bit)
  then have "take_bit 8 (fromCharCode w) = fromCharCode w" by (intro bit_word_eqI) simp
  then have "unat (fromCharCode w) = take_bit 8 (unat (fromCharCode w))" by (metis unsigned_take_bit_eq)
  also have "\<dots> < 2 ^ 8" by (rule take_bit_nat_less_exp)
  finally show ?thesis by (simp add: byte_unit_def)
qed

lemma marker_bits:
  "8 \<le> n \<Longrightarrow> \<not> bit (192 :: int) n" "8 \<le> n \<Longrightarrow> \<not> bit (224 :: int) n" "8 \<le> n \<Longrightarrow> \<not> bit (128 :: int) n"
  "8 \<le> n \<Longrightarrow> \<not> bit (63 :: int) n"
  by (simp_all add: small_bits [where k = 8])

lemma utf8_unit_bytes: "list_all byte_unit (utf8_unit c)"
proof -
  consider "unat c < 128" | "128 \<le> unat c" "unat c < 2048" | "2048 \<le> unat c" by linarith
  then show ?thesis
  proof cases
    case 1
    then show ?thesis by (simp add: utf8_unit_one byte_unit_def)
  next
    case 2
    have "\<not> bit c (n + 6)" if "8 \<le> n" for n using less_bits [of c 11 "n + 6"] 2 that by simp
    then show ?thesis using 2
      by (simp add: utf8_unit_def word_less_nat_alt charCode_unat Let_def)
        (auto intro!: byte_unit_bits simp: unit_bits marker_bits)
  next
    case 3
    then show ?thesis
      by (simp add: utf8_unit_def word_less_nat_alt charCode_unat Let_def)
        (auto intro!: byte_unit_bits simp: unit_bits marker_bits)
  qed
qed

lemma utf8_encode_bytes: "list_all byte_unit (utf8_encode s)"
  using utf8_unit_bytes by (auto simp: utf8_encode_def list_all_iff)

text \<open>C24: \<open>Base64.encode\<close> of any string is read back, by a reader of base64 (RFC 4648), as the bytes
  of \<open>_utf8_encode\<close>, in groups of four characters; and these are read, by a reader of UTF-8 (RFC 3629), as
  the string with Windows line ends replaced, provided it has no surrogates. With a character
  outside the basic plane, which JavaScript holds as two surrogates, the bytes are not UTF-8.\<close>

theorem base64_roundtrip:
  "base64_decode (base64_encode s) = Some (utf8_encode s)
   \<and> 4 dvd length (base64_encode s)
   \<and> (if list_all (\<lambda>c. \<not> surrogate c) s then utf8_decode (utf8_encode s) = Some (unix_newlines s)
      else utf8_decode (utf8_encode s) = None)"
proof -
  have dec: "base64_decode t = Some bs \<Longrightarrow> 4 dvd length t" for t bs
  proof (induction t arbitrary: bs rule: base64_decode.induct)
    case (2 k1 k2 k3 k4 t)
    then obtain cs where "base64_decode t = Some cs" by (auto split: option.splits)
    with 2 have "4 dvd length t" by (auto split: option.splits)
    then show ?case by (simp add: dvd_def) presburger
  qed simp_all
  have b: "base64_decode (base64_encode s) = Some (utf8_encode s)"
    unfolding base64_encode_def by (rule base64_decode_loop [OF utf8_encode_bytes])
  have none: "utf8_decode (concat (map utf8_unit t)) = None" if "\<not> list_all (\<lambda>c. \<not> surrogate c) t" for t
    using that
  proof (induction t)
    case (Cons c t)
    then show ?case by (cases "surrogate c") (auto simp: utf8_decode_unit utf8_decode_surrogate)
  qed simp
  have "list_all (\<lambda>c. \<not> surrogate c) (unix_newlines s) = list_all (\<lambda>c. \<not> surrogate c) s"
    by (induction s rule: unix_newlines.induct) (auto simp: surrogate_def)
  then show ?thesis using b dec [OF b] none [of "unix_newlines s"] utf8_decode_units [of "unix_newlines s"]
    by (simp add: utf8_encode_def)
qed

section \<open>XML entities\<close>

text \<open>\<open>str.replace(/c/g, r)\<close>\<close>

definition replace_char :: "char \<Rightarrow> string \<Rightarrow> string \<Rightarrow> string" where
  "replace_char c r s = concat (map (\<lambda>x. if x = c then r else [x]) s)"

definition encodeXmlEntities :: "string \<Rightarrow> string" where
  "encodeXmlEntities str =
     replace_char (CHR 39) ''&apos;'' (replace_char (CHR 34) ''&quot;'' (replace_char (CHR ''>'') ''&gt;''
       (replace_char (CHR ''<'') ''&lt;'' (replace_char (CHR ''&'') ''&amp;'' str))))"

text \<open>A reader of the five entities of XML.\<close>

definition xml_entities :: "(string \<times> char) list" where
  "xml_entities = [(''&amp;'', CHR ''&''), (''&lt;'', CHR ''<''), (''&gt;'', CHR ''>''), (''&quot;'', CHR 34), (''&apos;'', CHR 39)]"

definition entity_at :: "string \<Rightarrow> (string \<times> char) option" where
  "entity_at s = find (\<lambda>(e, c). prefix e s) xml_entities"

fun xml_decode :: "string \<Rightarrow> string" where
  "xml_decode [] = []"
| "xml_decode (c # s) = (case entity_at (c # s) of
       None \<Rightarrow> c # xml_decode s
     | Some (e, d) \<Rightarrow> d # xml_decode (drop (length e - 1) s))"

lemma replace_char_simps [simp]:
  "replace_char c r [] = []" "replace_char c r (s @ t) = replace_char c r s @ replace_char c r t"
  by (simp_all add: replace_char_def)

lemma encodeXml_Cons: "encodeXmlEntities (c # s) = encodeXmlEntities [c] @ encodeXmlEntities s"
proof -
  have "encodeXmlEntities ([c] @ s) = encodeXmlEntities [c] @ encodeXmlEntities s"
    unfolding encodeXmlEntities_def by (simp only: replace_char_simps)
  then show ?thesis by simp
qed

lemma encodeXml_char:
  "encodeXmlEntities [c] = (if c = CHR ''&'' then ''&amp;'' else if c = CHR ''<'' then ''&lt;'' else if c = CHR ''>'' then ''&gt;''
     else if c = CHR 34 then ''&quot;'' else if c = CHR 39 then ''&apos;'' else [c])"
  by (simp add: encodeXmlEntities_def replace_char_def)

lemma xml_decode_char: "xml_decode (encodeXmlEntities [c] @ s) = c # xml_decode s"
  by (simp add: encodeXml_char entity_at_def xml_entities_def)

text \<open>\<open>encodeXmlEntities\<close>: the text can stand in an attribute, as it has no angle brackets and quotes,
  and a reader of XML entities gets back exactly the string.\<close>

theorem xml_roundtrip:
  "xml_decode (encodeXmlEntities s) = s
   \<and> set (encodeXmlEntities s) \<inter> {CHR ''<'', CHR ''>'', CHR 34, CHR 39} = {}"
proof (induction s)
  case Nil
  then show ?case by (simp add: encodeXmlEntities_def)
next
  case (Cons c s)
  have "xml_decode (encodeXmlEntities (c # s)) = c # s"
    using Cons by (subst encodeXml_Cons) (simp only: xml_decode_char)
  moreover have "set (encodeXmlEntities [c]) \<inter> {CHR ''<'', CHR ''>'', CHR 34, CHR 39} = {}"
    by (simp add: encodeXml_char)
  ultimately show ?case using Cons by (subst (2) encodeXml_Cons) (simp add: Int_Un_distrib2 del: Int_insert_right)
qed

section \<open>Parameters of the URL\<close>

text \<open>\<open>s.split(c)\<close> for a character.\<close>

fun split_on :: "char \<Rightarrow> string \<Rightarrow> string list" where
  "split_on c [] = [[]]"
| "split_on c (x # s) = (if x = c then [] # split_on c s
     else case split_on c s of [] \<Rightarrow> [[x]] | p # ps \<Rightarrow> (x # p) # ps)"

text \<open>\<open>search\<close> is \<open>window.location.search\<close>; \<open>None\<close> is \<open>undefined\<close>.\<close>

definition getUrlParam :: "string \<Rightarrow> string \<Rightarrow> string option" where
  "getUrlParam search key =
     (let params = split_on (CHR ''&'') (case search of c # s \<Rightarrow> if c = CHR ''?'' then s else search | [] \<Rightarrow> search)
      in case find (\<lambda>param. key = hd (split_on (CHR ''='') param)) params of
           None \<Rightarrow> None
         | Some param \<Rightarrow> (case tl (split_on (CHR ''='') param) of [] \<Rightarrow> None | valPart # _ \<Rightarrow> Some valPart))"

definition param_set :: "string \<Rightarrow> string \<Rightarrow> bool" where
  "param_set search key = (case getUrlParam search key of None \<Rightarrow> False | Some v \<Rightarrow> v \<noteq> [])"

definition isSetupFlow :: "string \<Rightarrow> bool" where
  "isSetupFlow search = param_set search ''setup''"

definition isExpert :: "string \<Rightarrow> bool" where
  "isExpert search = param_set search ''expert''"

text \<open>The search part of a URL with the given parameters.\<close>

fun query_string :: "(string \<times> string) list \<Rightarrow> string" where
  "query_string [] = []"
| "query_string [(k, v)] = k @ ''='' @ v"
| "query_string ((k, v) # ps) = k @ ''='' @ v @ ''&'' @ query_string ps"

lemma split_on_nonempty [simp]: "split_on c s \<noteq> []"
  by (induction s) (auto split: list.split)

lemma split_on_none: "c \<notin> set s \<Longrightarrow> split_on c s = [s]"
  by (induction s) auto

lemma split_on_append: "c \<notin> set s \<Longrightarrow> split_on c (s @ c # t) = s # split_on c t"
  by (induction s) auto

lemma hd_split_on: "hd (split_on c s) = takeWhile (\<lambda>x. x \<noteq> c) s"
proof (induction s)
  case (Cons x s)
  then show ?case by (cases "split_on c s") auto
qed simp

lemma split_query:
  "\<lbrakk>\<forall>(k, v)\<in>set ps. CHR ''&'' \<notin> set k \<union> set v; ps \<noteq> []\<rbrakk> \<Longrightarrow>
    split_on (CHR ''&'') (query_string ps) = map (\<lambda>(k, v). k @ ''='' @ v) ps"
proof (induction ps rule: query_string.induct)
  case (2 k v)
  then show ?case by (simp add: split_on_none)
next
  case (3 k v p ps)
  have "split_on (CHR ''&'') ((k @ ''='' @ v) @ CHR ''&'' # query_string (p # ps))
      = (k @ ''='' @ v) # split_on (CHR ''&'') (query_string (p # ps))"
    using 3(2) by (intro split_on_append) auto
  then show ?case using 3 by simp
qed simp

text \<open>\<open>getUrlParam\<close> on a URL with the given parameters, whose names have none of the two separators and whose
  values no ampersand: the first value of that name, up to its first equals sign, and
  \<open>undefined\<close> for other names.\<close>

theorem url_param_found:
  assumes "\<forall>(k, v)\<in>set ps. CHR ''&'' \<notin> set k \<union> set v \<and> CHR ''='' \<notin> set k"
  shows "getUrlParam (CHR ''?'' # query_string ps) key = map_option (takeWhile (\<lambda>c. c \<noteq> CHR ''='')) (map_of ps key)"
proof (cases "ps = []")
  case True
  then show ?thesis by (simp add: getUrlParam_def)
next
  case False
  have "split_on (CHR ''&'') (query_string ps) = map (\<lambda>(k, v). k @ ''='' @ v) ps"
    using assms False by (intro split_query) auto
  moreover have "find (\<lambda>param. key = hd (split_on (CHR ''='') param)) (map (\<lambda>(k, v). k @ ''='' @ v) ps)
      = map_option (\<lambda>v. key @ ''='' @ v) (map_of ps key)"
    using assms by (induction ps) (auto simp: split_on_append)
  moreover have "tl (split_on (CHR ''='') (key @ ''='' @ v)) = split_on (CHR ''='') v" if "map_of ps key = Some v" for v
    using assms map_of_SomeD [OF that] by (auto simp: split_on_append)
  moreover have "split_on (CHR ''='') v = takeWhile (\<lambda>c. c \<noteq> CHR ''='') v # tl (split_on (CHR ''='') v)" for v
    by (metis hd_split_on list.collapse split_on_nonempty)
  ultimately show ?thesis by (auto simp: getUrlParam_def split: option.split list.split) (metis list.inject)+
qed

theorem url_param_found_witness:
  "getUrlParam ''?setup=normal&step=1'' ''step'' = Some ''1''"
  using url_param_found [of "[(''setup'', ''normal''), (''step'', ''1'')]" "''step''"] by simp

end
