(* ===== verification/Web_Api.thy ===== *)
theory Web_Api
  imports JS_Value Web_Encoding
begin

text \<open>
  The client of the HTM.IT server: the requests of \<open>htm.it/static/js/lib/htm-it/HTMITAPI.js\<close>, how their answers reach the
  callbacks, the storage of \<open>utils.js\<close>, and the Backbone collections and models of \<open>program/collections\<close> and
  \<open>program/models\<close> that synchronise through them. jQuery's \<open>ajax\<close> is represented by the request it
  is given and by the answer of the server.
\<close>

section \<open>Requests\<close>

text \<open>The options of the client. A key is a list of code units, as it is encoded in base64.\<close>

record api_opts =
  ap_apiKey :: "code_unit list"
  ap_dataSource :: string
  ap_endPoint :: string

datatype http_method = GET | POST | DELETE

text \<open>\<open>CallbackData\<close>: the option \<open>data\<close> is the callback itself.\<close>

datatype http_data = NoData | Data jsval | CallbackData

record http_request =
  rq_url :: string
  rq_method :: http_method
  rq_data :: http_data
  rq_authorization :: "string option"

fun join_path :: "string list \<Rightarrow> string" where
  "join_path [] = []"
| "join_path [s] = s"
| "join_path (s # ss) = s @ ''/'' @ join_path ss"

text \<open>\<open>typeof data === 'object'\<close> holds for objects, arrays and \<open>null\<close>.\<close>

definition formatData :: "jsval \<Rightarrow> jsval" where
  "formatData data = (case data of JNull \<Rightarrow> stringify data | JArr _ \<Rightarrow> stringify data | JObj _ \<Rightarrow> stringify data | _ \<Rightarrow> data)"

text \<open>The header that \<open>beforeSend\<close> sets; the colon is code unit 58.\<close>

definition makeRequest :: "api_opts \<Rightarrow> string list \<Rightarrow> http_method \<Rightarrow> http_data \<Rightarrow> http_request" where
  "makeRequest A url type data =
     \<lparr>rq_url = join_path url, rq_method = type, rq_data = data,
      rq_authorization = (if ap_apiKey A \<noteq> [] then Some (''Basic '' @ base64_encode (ap_apiKey A @ [58])) else None)\<rparr>"

text \<open>\<open>if (section) url.push(section)\<close> and \<open>if (typeof region != 'undefined') url.push(region)\<close>\<close>

definition given :: "string option \<Rightarrow> string list" where
  "given s = (case s of None \<Rightarrow> [] | Some s \<Rightarrow> if s = [] then [] else [s])"

definition optional :: "string option \<Rightarrow> string list" where
  "optional s = (case s of None \<Rightarrow> [] | Some s \<Rightarrow> [s])"

section \<open>The operations of the client\<close>

text \<open>An argument that may be left out, so that the callback stands in its place, is an option.\<close>

definition api_auth :: "api_opts \<Rightarrow> jsval \<Rightarrow> http_request" where
  "api_auth A keys =
     makeRequest A [ap_endPoint A, ''_auth''] POST (Data (formatData keys))"

definition api_createMonitoredInstance :: "api_opts \<Rightarrow> string \<Rightarrow> string \<Rightarrow> string \<Rightarrow> http_request" where
  "api_createMonitoredInstance A region namespace inst =
     makeRequest A [ap_endPoint A, ''_instances'', region, namespace, inst] POST NoData"

definition api_deleteMonitoredInstances :: "api_opts \<Rightarrow> jsval \<Rightarrow> http_request" where
  "api_deleteMonitoredInstances A instances =
     makeRequest A [ap_endPoint A, ''_instances''] DELETE (Data (formatData instances))"

definition api_getMonitoredInstances :: "api_opts \<Rightarrow> http_request" where
  "api_getMonitoredInstances A =
     makeRequest A [ap_endPoint A, ''_instances''] GET NoData"

definition api_getAutostacks :: "api_opts \<Rightarrow> http_request" where
  "api_getAutostacks A =
     makeRequest A [ap_endPoint A, ''_autostacks''] GET NoData"

definition api_getAutostackPreview :: "api_opts \<Rightarrow> jsval \<Rightarrow> jsval \<Rightarrow> http_request" where
  "api_getAutostackPreview A region filters =
     makeRequest A [ap_endPoint A, ''_autostacks'', ''preview_instances''] GET (Data (JObj [(''region'', region), (''filters'', formatData filters)]))"

definition api_createAutostack :: "api_opts \<Rightarrow> jsval \<Rightarrow> jsval \<Rightarrow> jsval \<Rightarrow> http_request" where
  "api_createAutostack A name region filters =
     makeRequest A [ap_endPoint A, ''_autostacks''] POST (Data (formatData (JObj [(''name'', name), (''region'', region), (''filters'', filters)])))"

definition api_deleteAutostack :: "api_opts \<Rightarrow> string \<Rightarrow> http_request" where
  "api_deleteAutostack A autostackID =
     makeRequest A [ap_endPoint A, ''_autostacks'', autostackID] DELETE NoData"

definition api_getAutostackMetrics :: "api_opts \<Rightarrow> string \<Rightarrow> http_request" where
  "api_getAutostackMetrics A autostackID =
     makeRequest A [ap_endPoint A, ''_autostacks'', autostackID, ''metrics''] GET NoData"

definition api_createAutostackMetrics :: "api_opts \<Rightarrow> string \<Rightarrow> jsval \<Rightarrow> http_request" where
  "api_createAutostackMetrics A autostackID metrics =
     makeRequest A [ap_endPoint A, ''_autostacks'', autostackID, ''metrics''] POST (Data (formatData metrics))"

definition api_deleteAutostackMetric :: "api_opts \<Rightarrow> string \<Rightarrow> string \<Rightarrow> http_request" where
  "api_deleteAutostackMetric A autostackID metricID =
     makeRequest A [ap_endPoint A, ''_autostacks'', autostackID, ''metrics'', metricID] DELETE NoData"

definition api_putSettings :: "api_opts \<Rightarrow> jsval \<Rightarrow> string option \<Rightarrow> http_request" where
  "api_putSettings A settings section =
     makeRequest A ([ap_endPoint A, ''_settings''] @ given section) POST (Data (formatData settings))"

definition api_getSettings :: "api_opts \<Rightarrow> string option \<Rightarrow> http_request" where
  "api_getSettings A section =
     makeRequest A ([ap_endPoint A, ''_settings''] @ given section) GET NoData"

definition api_getDataSource :: "api_opts \<Rightarrow> http_request" where
  "api_getDataSource A =
     makeRequest A [ap_endPoint A, ''_metrics'', ap_dataSource A] GET NoData"

definition api_getRegions :: "api_opts \<Rightarrow> http_request" where
  "api_getRegions A =
     makeRequest A [ap_endPoint A, ''_metrics'', ap_dataSource A, ''regions''] GET NoData"

definition api_getRegionDetails :: "api_opts \<Rightarrow> string \<Rightarrow> jsval option \<Rightarrow> http_request" where
  "api_getRegionDetails A region opts =
     makeRequest A [ap_endPoint A, ''_metrics'', ap_dataSource A, ''regions'', region] GET (case opts of None \<Rightarrow> CallbackData | Some v \<Rightarrow> Data v)"

definition api_getInstanceMetrics :: "api_opts \<Rightarrow> string \<Rightarrow> string \<Rightarrow> jsval option \<Rightarrow> http_request" where
  "api_getInstanceMetrics A region namespace opts =
     makeRequest A [ap_endPoint A, ''_metrics'', ap_dataSource A, region, namespace] GET (case opts of None \<Rightarrow> CallbackData | Some v \<Rightarrow> Data v)"

definition api_getNamespaces :: "api_opts \<Rightarrow> http_request" where
  "api_getNamespaces A =
     makeRequest A [ap_endPoint A, ''_metrics'', ap_dataSource A, ''namespaces''] GET NoData"

definition api_getNamespaceDetails :: "api_opts \<Rightarrow> string \<Rightarrow> http_request" where
  "api_getNamespaceDetails A namespace =
     makeRequest A [ap_endPoint A, ''_metrics'', ap_dataSource A, namespace] GET NoData"

definition api_getHTMITCustomMetrics :: "api_opts \<Rightarrow> http_request" where
  "api_getHTMITCustomMetrics A =
     makeRequest A [ap_endPoint A, ''_metrics'', ''custom''] GET NoData"

definition api_deleteHTMITCustomMetric :: "api_opts \<Rightarrow> string \<Rightarrow> http_request" where
  "api_deleteHTMITCustomMetric A metricName =
     makeRequest A [ap_endPoint A, ''_metrics'', ''custom'', metricName] DELETE NoData"

definition api_getTags :: "api_opts \<Rightarrow> string \<Rightarrow> string option \<Rightarrow> string option \<Rightarrow> http_request" where
  "api_getTags A region res_type index =
     makeRequest A ([ap_endPoint A, ''_metrics'', ap_dataSource A, region, ''AWS/Tags''] @ given res_type @ given index) GET NoData"

definition api_getModels :: "api_opts \<Rightarrow> http_request" where
  "api_getModels A =
     makeRequest A [ap_endPoint A, ''_models''] GET NoData"

definition api_getModelsSortedByAnomaly :: "api_opts \<Rightarrow> string \<Rightarrow> http_request" where
  "api_getModelsSortedByAnomaly A period =
     makeRequest A [ap_endPoint A, ''_anomalies'', ''period'', period] GET NoData"

definition api_getModelData :: "api_opts \<Rightarrow> string \<Rightarrow> jsval option \<Rightarrow> http_request" where
  "api_getModelData A modelId opts =
     makeRequest A [ap_endPoint A, ''_models'', modelId, ''data''] GET (Data (case opts of None \<Rightarrow> JObj [] | Some v \<Rightarrow> v))"

definition api_getInstanceSuggestions :: "api_opts \<Rightarrow> string option \<Rightarrow> http_request" where
  "api_getInstanceSuggestions A region =
     makeRequest A ([ap_endPoint A, ''_instances'', ''suggestions''] @ optional region) GET NoData"

definition api_selectInstance :: "api_opts \<Rightarrow> string \<Rightarrow> http_request" where
  "api_selectInstance A inst =
     makeRequest A [ap_endPoint A, ''_instances'', inst] POST NoData"

definition api_selectInstances :: "api_opts \<Rightarrow> string \<Rightarrow> string \<Rightarrow> jsval \<Rightarrow> http_request" where
  "api_selectInstances A region namespace instances =
     makeRequest A [ap_endPoint A, ''_instances'', region, namespace] POST (Data (formatData instances))"

definition api_exportModels :: "api_opts \<Rightarrow> http_request" where
  "api_exportModels A =
     makeRequest A [ap_endPoint A, ''_models'', ''export''] GET NoData"

definition api_createModels :: "api_opts \<Rightarrow> jsval \<Rightarrow> http_request" where
  "api_createModels A modelCreators =
     makeRequest A [ap_endPoint A, ''_models''] POST (Data (formatData modelCreators))"

definition api_deleteModel :: "api_opts \<Rightarrow> string \<Rightarrow> http_request" where
  "api_deleteModel A modelId =
     makeRequest A [ap_endPoint A, ''_models'', modelId] DELETE NoData"

definition api_getNotifications :: "api_opts \<Rightarrow> http_request" where
  "api_getNotifications A =
     makeRequest A [ap_endPoint A, ''_notifications''] GET NoData"

definition api_setNotification :: "api_opts \<Rightarrow> jsval \<Rightarrow> http_request" where
  "api_setNotification A data =
     makeRequest A [ap_endPoint A, ''_notifications''] POST (Data (formatData data))"

definition api_getNotificationHistory :: "api_opts \<Rightarrow> jsval option \<Rightarrow> http_request" where
  "api_getNotificationHistory A opts =
     makeRequest A [ap_endPoint A, ''_notifications'', ''history''] GET (Data (formatData (case opts of None \<Rightarrow> JObj [] | Some v \<Rightarrow> v)))"

definition api_getSupportAccess :: "api_opts \<Rightarrow> http_request" where
  "api_getSupportAccess A =
     makeRequest A [ap_endPoint A, ''_support''] GET NoData"

definition api_removeSupportAccess :: "api_opts \<Rightarrow> http_request" where
  "api_removeSupportAccess A =
     makeRequest A [ap_endPoint A, ''_support''] DELETE NoData"

definition api_setSupportAccess :: "api_opts \<Rightarrow> http_request" where
  "api_setSupportAccess A =
     makeRequest A [ap_endPoint A, ''_support''] POST NoData"

definition api_getUpdate :: "api_opts \<Rightarrow> http_request" where
  "api_getUpdate A =
     makeRequest A [ap_endPoint A, ''_update''] GET NoData"

definition api_setUpdate :: "api_opts \<Rightarrow> http_request" where
  "api_setUpdate A =
     makeRequest A [ap_endPoint A, ''_update''] POST NoData"

definition api_sendWufooForm :: "api_opts \<Rightarrow> jsval \<Rightarrow> http_request" where
  "api_sendWufooForm A opts =
     makeRequest A [ap_endPoint A, ''_wufoo''] POST (Data (formatData opts))"

definition api_getAnnotations :: "api_opts \<Rightarrow> jsval option \<Rightarrow> http_request" where
  "api_getAnnotations A opts =
     makeRequest A [ap_endPoint A, ''_annotations''] GET (Data (formatData (case opts of None \<Rightarrow> JObj [] | Some v \<Rightarrow> v)))"

section \<open>Answers\<close>

text \<open>What the server does: an answer, or a failure with the text of its body (\<open>undefined\<close> or empty when there is none).\<close>

datatype http_answer = Answered jsval | HttpFailure jsval

definition isFlatJson :: "jsval \<Rightarrow> bool" where
  "isFlatJson v = (is_string v \<and> (case json_parse v of Inl e \<Rightarrow> False | Inr w \<Rightarrow> True))"

text \<open>The value of \<open>v.result\<close>: \<open>null\<close> has no properties, other values that are not objects give \<open>undefined\<close>.\<close>

definition result_prop :: "jsval \<Rightarrow> jserr + jsval" where
  "result_prop v = (case v of JNull \<Rightarrow> Inl TypeError | JUndef \<Rightarrow> Inl TypeError | JObj ob \<Rightarrow> Inr (obj_get ob ''result'') | _ \<Rightarrow> Inr JUndef)"

text \<open>The arguments of the callback: error and response.\<close>

definition request_done :: "http_answer \<Rightarrow> jserr + jsval \<times> jsval" where
  "request_done a = (case a of
       Answered response \<Rightarrow> Inr (JNull, response)
     | HttpFailure result \<Rightarrow>
         if isFlatJson result then
           (case result of JJson w \<Rightarrow> (case result_prop w of Inl e \<Rightarrow> Inl e | Inr r \<Rightarrow> Inr (r, JUndef)) | _ \<Rightarrow> Inr (result, JUndef))
         else Inr (result, JUndef))"

section \<open>Collections and models\<close>

datatype sync_method = SyncCreate | SyncRead | SyncUpdate | SyncDelete

text \<open>Which option of Backbone a callback calls; \<open>ok\<close> gives the argument of \<open>success\<close> from the response.\<close>

datatype sync_outcome = CallError jsval | CallSuccess jsval | SyncThrew jserr

definition sync_callback :: "(jsval \<Rightarrow> jserr + jsval) \<Rightarrow> http_answer \<Rightarrow> sync_outcome" where
  "sync_callback ok a = (case request_done a of
       Inl e \<Rightarrow> SyncThrew e
     | Inr (error, response) \<Rightarrow>
         if truthy error then CallError error
         else (case ok response of Inl e \<Rightarrow> SyncThrew e | Inr v \<Rightarrow> CallSuccess v))"

text \<open>A \<open>sync\<close> gives the request and what its answer does; \<open>None\<close> is a method that does nothing.\<close>

type_synonym sync = "(http_request \<times> (http_answer \<Rightarrow> sync_outcome)) option"

definition read_only :: "sync_method \<Rightarrow> http_request \<Rightarrow> sync" where
  "read_only meth r = (if meth = SyncRead then Some (r, sync_callback Inr) else None)"

definition annotations_sync :: "api_opts \<Rightarrow> sync_method \<Rightarrow> sync" where
  "annotations_sync A meth = read_only meth (api_getAnnotations A None)"

text \<open>\<open>None\<close> is an option that is not there.\<close>

definition awsMetrics_sync :: "api_opts \<Rightarrow> sync_method \<Rightarrow> string option \<Rightarrow> string option \<Rightarrow> sync" where
  "awsMetrics_sync A meth region namespace = (case (region, namespace) of
       (Some r, Some n) \<Rightarrow> read_only meth (api_getInstanceMetrics A r n None)
     | (Some r, None) \<Rightarrow> read_only meth (api_getRegionDetails A r None)
     | (None, _) \<Rightarrow> None)"

definition awsNamespaces_sync :: "api_opts \<Rightarrow> sync_method \<Rightarrow> sync" where
  "awsNamespaces_sync A meth = read_only meth (api_getNamespaces A)"

definition awsRegions_sync :: "api_opts \<Rightarrow> sync_method \<Rightarrow> sync" where
  "awsRegions_sync A meth = read_only meth (api_getRegions A)"

definition autostacks_sync :: "api_opts \<Rightarrow> sync_method \<Rightarrow> sync" where
  "autostacks_sync A meth = read_only meth (api_getAutostacks A)"

definition customMetrics_sync :: "api_opts \<Rightarrow> sync_method \<Rightarrow> sync" where
  "customMetrics_sync A meth = read_only meth (api_getHTMITCustomMetrics A)"

definition instances_sync :: "api_opts \<Rightarrow> sync_method \<Rightarrow> sync" where
  "instances_sync A meth = read_only meth (api_getMonitoredInstances A)"

definition modelExports_sync :: "api_opts \<Rightarrow> sync_method \<Rightarrow> sync" where
  "modelExports_sync A meth = read_only meth (api_exportModels A)"

definition models_sync :: "api_opts \<Rightarrow> sync_method \<Rightarrow> sync" where
  "models_sync A meth = read_only meth (api_getModels A)"

definition sortedModels_sync :: "api_opts \<Rightarrow> string \<Rightarrow> sync_method \<Rightarrow> sync" where
  "sortedModels_sync A period meth = read_only meth (api_getModelsSortedByAnomaly A period)"

definition autostack_sync :: "api_opts \<Rightarrow> sync_method \<Rightarrow> string \<Rightarrow> sync" where
  "autostack_sync A meth modelId = (case meth of
       SyncDelete \<Rightarrow> Some (api_deleteAutostack A modelId, sync_callback (\<lambda>r. Inr JUndef))
     | _ \<Rightarrow> None)"

definition instance_sync :: "api_opts \<Rightarrow> sync_method \<Rightarrow> jsobj \<Rightarrow> string \<Rightarrow> sync" where
  "instance_sync A meth model modelId = (case meth of
       SyncCreate \<Rightarrow> Some (api_createMonitoredInstance A (as_string (obj_get model ''location''))
           (as_string (obj_get model ''namespace'')) (as_string (obj_get model ''instance'')),
           sync_callback (\<lambda>r. Inr (JObj model)))
     | SyncDelete \<Rightarrow> Some (api_deleteMonitoredInstances A (JArr [JStr modelId]), sync_callback (\<lambda>r. Inr JUndef))
     | _ \<Rightarrow> None)"

text \<open>\<open>response[0]\<close>\<close>

definition first_of :: "jsval \<Rightarrow> jserr + jsval" where
  "first_of v = (case v of
       JUndef \<Rightarrow> Inl TypeError
     | JNull \<Rightarrow> Inl TypeError
     | JArr (x # xs) \<Rightarrow> Inr x
     | JStr (c # s) \<Rightarrow> Inr (JStr [c])
     | _ \<Rightarrow> Inr JUndef)"

definition model_sync :: "api_opts \<Rightarrow> sync_method \<Rightarrow> jsval \<Rightarrow> string \<Rightarrow> sync" where
  "model_sync A meth model modelId = (case meth of
       SyncCreate \<Rightarrow> Some (api_createModels A model, sync_callback first_of)
     | SyncDelete \<Rightarrow> Some (api_deleteModel A modelId, sync_callback (\<lambda>r. Inr JUndef))
     | _ \<Rightarrow> None)"

definition modelData_sync :: "api_opts \<Rightarrow> sync_method \<Rightarrow> string \<Rightarrow> jsobj \<Rightarrow> sync" where
  "modelData_sync A meth modelId options =
     (let filters = concat (map (\<lambda>key. if om_has options key then [(key, obj_get options key)] else [])
            [''anomaly'', ''limit'', ''from'', ''to''])
      in read_only meth (api_getModelData A modelId (Some (JObj filters))))"

section \<open>What a request carries\<close>

lemma authorization_of_key:
  "rq_authorization (makeRequest A url type data) =
     (if ap_apiKey A = [] then None else Some (''Basic '' @ base64_encode (ap_apiKey A @ [58])))"
  by (simp add: makeRequest_def)

lemma base64_decode_encode: "base64_decode (base64_encode s) = Some (utf8_encode s)"
  unfolding base64_encode_def by (rule base64_decode_loop [OF utf8_encode_bytes])

text \<open>A key of ASCII characters without line ends is its own UTF-8.\<close>

lemma utf8_ascii: "list_all (\<lambda>c. unat c < 128 \<and> c \<noteq> 13) s \<Longrightarrow> utf8_encode s = s"
proof -
  assume a: "list_all (\<lambda>c. unat c < 128 \<and> c \<noteq> 13) s"
  have "list_all (\<lambda>c. unat c < 128 \<and> c \<noteq> 13) s \<Longrightarrow> unix_newlines s = s" by (induction s rule: unix_newlines.induct) auto
  moreover have "list_all (\<lambda>c. unat c < 128 \<and> c \<noteq> 13) s \<Longrightarrow> concat (map utf8_unit s) = s"
    by (induction s) (auto simp: utf8_unit_one)
  ultimately show ?thesis using a by (simp add: utf8_encode_def)
qed

text \<open>every request of the client that is built by \<open>_makeRequest\<close> carries the header \<open>Basic\<close> with base64 text
  from which a reader gets back the key of ASCII characters and the colon of an empty password; without a key
  there is no header. Path, method and body are those of the operation.\<close>

theorem request_authorized:
  assumes "list_all (\<lambda>c. unat c < 128 \<and> c \<noteq> 13) (ap_apiKey A)" and "r = makeRequest A url type data"
  shows "(rq_authorization r = None \<longleftrightarrow> ap_apiKey A = [])
    \<and> (\<forall>h. rq_authorization r = Some h \<longrightarrow>
         (\<exists>code. h = ''Basic '' @ code \<and> base64_decode code = Some (ap_apiKey A @ [58])))
    \<and> rq_url r = join_path url \<and> rq_method r = type \<and> rq_data r = data"
proof -
  have "utf8_encode (ap_apiKey A @ [58]) = ap_apiKey A @ [58]" using assms(1) by (intro utf8_ascii) simp
  then show ?thesis using base64_decode_encode [of "ap_apiKey A @ [58]"]
    by (auto simp: assms(2) authorization_of_key) (simp_all add: makeRequest_def)
qed

definition local_api :: api_opts where
  "local_api = \<lparr>ap_apiKey = [], ap_dataSource = ''cloudwatch'', ap_endPoint = []\<rparr>"

theorem request_authorized_witness:
  "rq_authorization (api_getModels local_api) = None"
  using request_authorized [of local_api, OF _ refl] by (simp add: api_getModels_def local_api_def)

section \<open>Which answers count as errors\<close>

lemma failed_without_message:
  "sync_callback ok (HttpFailure (JStr [])) = (case ok JUndef of Inl e \<Rightarrow> SyncThrew e | Inr v \<Rightarrow> CallSuccess v)"
  "sync_callback ok (HttpFailure JUndef) = (case ok JUndef of Inl e \<Rightarrow> SyncThrew e | Inr v \<Rightarrow> CallSuccess v)"
  "\<not> truthy (obj_get ob ''result'') \<Longrightarrow>
    sync_callback ok (HttpFailure (JJson (JObj ob))) = (case ok JUndef of Inl e \<Rightarrow> SyncThrew e | Inr v \<Rightarrow> CallSuccess v)"
  "sync_callback ok (HttpFailure (JJson JNull)) = SyncThrew TypeError"
  by (simp_all add: sync_callback_def request_done_def isFlatJson_def is_string_def json_parse_def result_prop_def)

lemma failed_with_message:
  "s \<noteq> [] \<Longrightarrow> sync_callback ok (HttpFailure (JStr s)) = CallError (JStr s)"
  "truthy (obj_get ob ''result'') \<Longrightarrow> sync_callback ok (HttpFailure (JJson (JObj ob))) = CallError (obj_get ob ''result'')"
  "sync_callback ok (Answered v) = (case ok v of Inl e \<Rightarrow> SyncThrew e | Inr v \<Rightarrow> CallSuccess v)"
  by (simp_all add: sync_callback_def request_done_def isFlatJson_def is_string_def json_parse_def result_prop_def)

text \<open>C34: reading a collection or the data of a model (their \<open>sync\<close>). An answer of the server goes to \<open>success\<close>. After a
  failure, \<open>error\<close> gets the message when the body is text that is not JSON, or JSON with a message under
  \<open>result\<close>. But a failure without a body (no connection), or with JSON that has no message there, calls
  \<open>success\<close> with \<open>undefined\<close> as the data, and the body \<open>null\<close> throws before either is called. Deleting or
  creating a model object behaves alike, except that creating one throws where \<open>success\<close> would get no data.\<close>

theorem sync_outcomes:
  assumes "Some (r, answer) \<in> {annotations_sync A m, awsMetrics_sync A m reg ns, awsNamespaces_sync A m, awsRegions_sync A m,
      autostacks_sync A m, customMetrics_sync A m, instances_sync A m, modelExports_sync A m, models_sync A m,
      sortedModels_sync A period m, modelData_sync A m i opts}"
    and "model_sync A SyncCreate model i = Some (r', create)"
  shows "answer (Answered v) = CallSuccess v \<and> create (Answered (JArr [v])) = CallSuccess v
    \<and> (\<forall>f \<in> {answer, create}.
         (s \<noteq> [] \<longrightarrow> f (HttpFailure (JStr s)) = CallError (JStr s))
         \<and> (truthy (obj_get ob ''result'') \<longrightarrow> f (HttpFailure (JJson (JObj ob))) = CallError (obj_get ob ''result''))
         \<and> f (HttpFailure (JJson JNull)) = SyncThrew TypeError)
    \<and> (\<forall>body \<in> {JStr [], JUndef, JJson (JObj ob)}. \<not> truthy (obj_get ob ''result'') \<longrightarrow>
         answer (HttpFailure body) = CallSuccess JUndef \<and> create (HttpFailure body) = SyncThrew TypeError)"
proof -
  have "read_only m q = Some (r, answer) \<Longrightarrow> answer = sync_callback Inr" for q by (simp add: read_only_def split: if_splits)
  then have "answer = sync_callback Inr" using assms(1)
    by (auto simp: annotations_sync_def awsMetrics_sync_def awsNamespaces_sync_def awsRegions_sync_def autostacks_sync_def
        customMetrics_sync_def instances_sync_def modelExports_sync_def models_sync_def sortedModels_sync_def modelData_sync_def
        Let_def split: option.splits)
  moreover have "create = sync_callback first_of" using assms(2) by (simp add: model_sync_def)
  ultimately show ?thesis by (auto simp: failed_without_message failed_with_message first_of_def)
qed

theorem sync_outcomes_witness:
  "sync_callback Inr (HttpFailure JUndef) = CallSuccess JUndef"
proof -
  have "Some (api_getModels local_api, sync_callback Inr) \<in> {annotations_sync local_api SyncRead,
      awsMetrics_sync local_api SyncRead None None, awsNamespaces_sync local_api SyncRead, awsRegions_sync local_api SyncRead,
      autostacks_sync local_api SyncRead, customMetrics_sync local_api SyncRead, instances_sync local_api SyncRead,
      modelExports_sync local_api SyncRead, models_sync local_api SyncRead,
      sortedModels_sync local_api ''2'' SyncRead, modelData_sync local_api SyncRead ''m'' []}"
    by (simp add: models_sync_def read_only_def)
  moreover have "model_sync local_api SyncCreate JNull ''m'' = Some (api_createModels local_api JNull, sync_callback first_of)"
    by (simp add: model_sync_def)
  ultimately show ?thesis using sync_outcomes [where ob = "[]" and answer = "sync_callback Inr"] by fastforce
qed

end
