(* ===== verification/Web_Models.thy ===== *)
theory Web_Models
  imports Web_Api
begin

text \<open>
  What the HTM.IT web pages make of the server's records, \<open>program/models\<close> and \<open>program/collections\<close> of
  \<open>htm.it/static/js\<close>: names, status and messages of instances, dimensions of metrics; and the values kept in the browser's
  storage by \<open>lib/htm-it/utils.js\<close>.
\<close>

section \<open>Status of an instance\<close>

text \<open>\<open>CONST.STATUS\<close> in the order of its keys: code, name and weight.\<close>

definition STATUS :: "(32 word \<times> string \<times> nat) list" where
  "STATUS = [(0, ''Unmonitored'', 1), (1, ''Active'', 2), (2, ''Creating'', 3), (4, ''Error'', 5), (8, ''Pending'', 4)]"

definition parseStatusName :: "32 word \<Rightarrow> string" where
  "parseStatusName status = fst (foldl
     (\<lambda>(highest, weight) (code, name, w).
        if code \<noteq> 0 \<and> status AND code = code \<and> weight \<le> w then (name, w) else (highest, weight))
     (''Unmonitored'', 1) STATUS)"

text \<open>The bits of a status by rank.\<close>

lemma bit_of_code:
  fixes status :: "32 word"
  shows "status AND 1 = 1 \<longleftrightarrow> bit status 0" "status AND 2 = 2 \<longleftrightarrow> bit status 1" "status AND 4 = 4 \<longleftrightarrow> bit status 2"
    "status AND 8 = 8 \<longleftrightarrow> bit status 3"
proof -
  have "status AND 2 ^ n = 2 ^ n \<longleftrightarrow> bit status n" if "n < 32" for n
  proof
    assume "status AND 2 ^ n = 2 ^ n"
    then have "bit (status AND 2 ^ n) n" using that by (simp add: bit_exp_iff)
    then show "bit status n" by (simp add: bit_and_iff)
  next
    assume "bit status n"
    then show "status AND 2 ^ n = 2 ^ n" by (intro bit_word_eqI) (auto simp: bit_and_iff bit_exp_iff)
  qed
  from this [of 0] this [of 1] this [of 2] this [of 3]
  show "status AND 1 = 1 \<longleftrightarrow> bit status 0" "status AND 2 = 2 \<longleftrightarrow> bit status 1" "status AND 4 = 4 \<longleftrightarrow> bit status 2"
    "status AND 8 = 8 \<longleftrightarrow> bit status 3" by simp_all
qed

text \<open>the status name of an instance, a set of flags, is that of the gravest flag: an error, then pending, then
  creating, then active, and unmonitored without any of them.\<close>

theorem status_by_rank:
  "parseStatusName status =
     (if bit status 2 then ''Error'' else if bit status 3 then ''Pending'' else if bit status 1 then ''Creating''
      else if bit status 0 then ''Active'' else ''Unmonitored'')"
  by (simp add: parseStatusName_def STATUS_def bit_of_code)

section \<open>Messages\<close>

text \<open>What follows the tag when \<open><\<close> has been read: \<open>.*?>\<close> does not go over a line end.\<close>

fun tag_rest :: "string \<Rightarrow> string option" where
  "tag_rest [] = None"
| "tag_rest (c # s) = (if c = CHR ''>'' then Some s else if c = CHR 10 \<or> c = CHR 13 then None else tag_rest s)"

lemma tag_rest_length: "tag_rest s = Some t \<Longrightarrow> length t < length s"
  by (induction s) (auto split: if_splits)

text \<open>\<open>message.replace(/<.*?>/g, '')\<close>\<close>

function strip_tags :: "string \<Rightarrow> string" where
  "strip_tags [] = []"
| "strip_tags (c # s) = (if c = CHR ''<'' then (case tag_rest s of Some t \<Rightarrow> strip_tags t | None \<Rightarrow> c # strip_tags s)
     else c # strip_tags s)"
  by pat_completeness auto
termination
  by (relation "measure length") (auto dest: tag_rest_length)

fun has_tag :: "string \<Rightarrow> bool" where
  "has_tag [] = False"
| "has_tag (c # s) = ((c = CHR ''<'' \<and> tag_rest s \<noteq> None) \<or> has_tag s)"

definition parseStatusMessage :: "jsobj \<Rightarrow> jsobj" where
  "parseStatusMessage inst = (case obj_get inst ''message'' of
       JStr s \<Rightarrow> if has_tag s then om_set ''message'' (JStr (strip_tags s)) inst else inst
     | _ \<Rightarrow> inst)"

lemma strip_tags_rest: "tag_rest s = None \<Longrightarrow> tag_rest (strip_tags s) = None"
  by (induction s rule: strip_tags.induct) (auto split: if_splits)

lemma strip_tags_none: "\<not> has_tag s \<Longrightarrow> strip_tags s = s"
  by (induction s) auto

lemma strip_tags_clean: "\<not> has_tag (strip_tags s)"
proof (induction s rule: strip_tags.induct)
  case (2 c s)
  then show ?case by (auto simp: strip_tags_rest tag_rest_length split: option.split)
qed simp

text \<open>after \<open>parseStatusMessage\<close> the message of an instance has no tag, a message without one is as it was, and no other
  property of the instance changes.\<close>

theorem message_without_tags:
  "(obj_get inst ''message'' = JStr s \<longrightarrow>
      (\<exists>t. obj_get (parseStatusMessage inst) ''message'' = JStr t \<and> \<not> has_tag t \<and> (has_tag s \<or> t = s)))
   \<and> (k \<noteq> ''message'' \<longrightarrow> obj_get (parseStatusMessage inst) k = obj_get inst k)"
  using strip_tags_clean by (auto simp: parseStatusMessage_def split: jsval.split)

theorem message_without_tags_witness:
  "\<exists>t. obj_get (parseStatusMessage [(''message'', JStr ''<b>down'')]) ''message'' = JStr t \<and> \<not> has_tag t"
  using message_without_tags [of "[(''message'', JStr ''<b>down'')]" "''<b>down''"] by (auto simp: obj_get_def)

section \<open>Names of an instance\<close>

text \<open>The names of the site (\<open>site.json\<close>); \<open>match\<close> with such a name, which has no special characters, is a search for it.\<close>

record site =
  si_name :: string
  si_autostack :: string
  si_autoscale :: string
  si_real :: string
  si_custom :: string

definition after_last_slash :: "string \<Rightarrow> string" where
  "after_last_slash s = last (split_on (CHR ''/'') s)"

definition parseLocation :: "site \<Rightarrow> jsobj \<Rightarrow> jsobj" where
  "parseLocation S inst =
     (if truthy (obj_get inst ''location'') then inst
      else om_set ''namespace'' (JStr (si_custom S)) (om_set ''location'' (JStr (si_name S)) inst))"

text \<open>The keys of \<open>parameters.metricSpec.dimensions\<close>, where all three are there.\<close>

definition dimension_keys :: "jsobj \<Rightarrow> string list option" where
  "dimension_keys inst =
     (if om_has inst ''parameters'' \<and> om_has (as_obj (obj_get inst ''parameters'')) ''metricSpec''
        \<and> om_has (as_obj (obj_get (as_obj (obj_get inst ''parameters'')) ''metricSpec'')) ''dimensions''
      then Some (om_keys (as_obj (obj_get (as_obj (obj_get (as_obj (obj_get inst ''parameters'')) ''metricSpec'')) ''dimensions'')))
      else None)"

text \<open>\<open>match\<close> of \<open>undefined\<close> throws; names are strings.\<close>

definition parseDisplayName :: "site \<Rightarrow> jsobj \<Rightarrow> jserr + jsobj" where
  "parseDisplayName S inst = (case (obj_get inst ''server'', obj_get inst ''namespace'') of
       (JStr server, JStr namespace) \<Rightarrow>
         (let i = after_last_slash server; name = obj_get inst ''name'';
              display = (\<lambda>v. om_set ''display'' (JStr v) inst)
          in if (str_contains namespace (si_real S) \<or> str_contains namespace ''Autostacks/'') \<and> str_contains server (si_autostack S)
             then Inr (om_set ''namespace'' (JStr ''AWS/EC2'')
                    (display ((if name = JUndef then ''undefined'' else as_string name) @ '' ('' @ si_name S @ '' '' @ si_autostack S @ '')'')))
             else if truthy name \<and> name \<noteq> JStr i then Inr (display (as_string name @ '' ('' @ i @ '')''))
             else if (case dimension_keys inst of None \<Rightarrow> False | Some ks \<Rightarrow> list_ex (\<lambda>k. str_contains k (si_autoscale S)) ks)
             then Inr (display (i @ '' ('' @ si_autoscale S @ '')''))
             else Inr (display i))
     | _ \<Rightarrow> Inl TypeError)"

definition parse_instance :: "site \<Rightarrow> jsobj \<Rightarrow> jserr + jsobj" where
  "parse_instance S response =
     (let response = (if \<not> om_has response ''server'' \<and> om_has response ''_server''
            then om_set ''server'' (obj_get response ''_server'') response else response)
      in case parseDisplayName S (parseLocation S response) of
           Inl e \<Rightarrow> Inl e
         | Inr inst \<Rightarrow> Inr (parseStatusMessage (om_set ''statusName'' (JStr (parseStatusName
             (case obj_get inst ''status'' of JNum (Fin q) \<Rightarrow> word_of_int \<lfloor>q\<rfloor> | _ \<Rightarrow> 0))) inst)))"

section \<open>Other records\<close>

text \<open>The \<open>parse\<close> of a model: the last part of its name is the metric.\<close>

definition parse_model :: "jsobj \<Rightarrow> jsobj" where
  "parse_model response = (case obj_get response ''name'' of
       JStr name \<Rightarrow> om_set ''metric'' (JStr (after_last_slash name)) response
     | _ \<Rightarrow> response)"

text \<open>\<open>response.dimensions[dimension][0]\<close> for every dimension that is an object; \<open>null[0]\<close> throws.\<close>

definition first_dimension :: "jsval \<Rightarrow> jserr + jsval" where
  "first_dimension v = (case v of
       JNull \<Rightarrow> Inl TypeError
     | JArr (x # xs) \<Rightarrow> Inr x
     | JArr [] \<Rightarrow> Inr JUndef
     | JObj ob \<Rightarrow> Inr (obj_get ob ''0'')
     | _ \<Rightarrow> Inr v)"

fun first_dimensions :: "jsobj \<Rightarrow> jserr + jsobj" where
  "first_dimensions [] = Inr []"
| "first_dimensions ((k, v) # ds) = (case first_dimension v of
       Inl e \<Rightarrow> Inl e
     | Inr w \<Rightarrow> (case first_dimensions ds of Inl e \<Rightarrow> Inl e | Inr ws \<Rightarrow> Inr ((k, w) # ws)))"

definition parse_customMetric :: "jsobj \<Rightarrow> jserr + jsobj" where
  "parse_customMetric response =
     (if om_has response ''dimensions'' then
        (case first_dimensions (as_obj (obj_get response ''dimensions'')) of
           Inl e \<Rightarrow> Inl e
         | Inr ds \<Rightarrow> Inr (om_set ''dimensions'' (JObj ds) response))
      else Inr response)"

definition parse_awsMetric :: "site \<Rightarrow> jsobj \<Rightarrow> jserr + jsobj" where
  "parse_awsMetric S response =
     (let identifier = obj_get response ''identifier''; name = obj_get response ''name'';
          response = (if om_has response ''name'' \<and> as_string name \<noteq> []
             then om_set ''display'' (JStr (as_string name @ '' ('' @ as_string identifier @ '')'')) response
             else om_set ''name'' identifier (om_set ''display'' identifier response))
      in case parse_customMetric response of
           Inl e \<Rightarrow> Inl e
         | Inr response \<Rightarrow>
             (case om_keys (as_obj (obj_get response ''dimensions'')) of
                dimension # _ \<Rightarrow> if dimension \<noteq> [] \<and> str_contains dimension (si_autoscale S)
                  then Inr (om_set ''display'' (JStr (as_string (obj_get response ''name'') @ '' ('' @ si_autoscale S @ '')'')) response)
                  else Inr response
              | [] \<Rightarrow> Inr response))"

text \<open>\<open>name.replace(p, '')\<close>: the first occurrence.\<close>

fun remove_first :: "string \<Rightarrow> string \<Rightarrow> string" where
  "remove_first p [] = []"
| "remove_first p (c # s) = (if prefix p (c # s) then drop (length p) (c # s) else c # remove_first p s)"

text \<open>Regions and namespaces come as one object each; the collections list them in the order of their names.\<close>

definition parse_regions :: "(string \<times> string) list \<Rightarrow> jsobj list" where
  "parse_regions regions = map (\<lambda>region.
     [(''id'', JStr region),
      (''name'', JStr (''<strong>'' @ region @ ''</strong>: '' @ remove_first '' Region'' (the (map_of regions region))))])
     (sort (om_keys regions))"

definition parse_namespaces :: "(string \<times> jsobj) list \<Rightarrow> jsobj list" where
  "parse_namespaces namespaces = map (\<lambda>namespace. om_set ''id'' (JStr namespace) (the (map_of namespaces namespace)))
     (sort (om_keys namespaces))"

section \<open>Storage\<close>

text \<open>\<open>localStorage\<close>: an item is a string, \<open>JStr\<close> or the text \<open>JJson v\<close> of a JSON value.\<close>

type_synonym storage = "(string, jsval) omap"

definition store_set :: "string \<Rightarrow> jsval \<Rightarrow> storage \<Rightarrow> jserr option \<times> storage" where
  "store_set k v st =
     (if k = ''user'' \<and> truthy v \<and> \<not> truthy (obj_get (as_obj v) ''apiKey'')
      then (Some (ErrorMsg ''Cannot save user without an API key!''), st)
      else if k = ''user'' \<and> truthy v \<and> truthy (obj_get (as_obj v) ''password'')
      then (Some (ErrorMsg ''User should never be saved with a password hash!''), st)
      else if is_string v then (None, om_set k v st)
      else (None, om_set k (if v = JUndef then JStr ''undefined'' else stringify v) st))"

definition store_get :: "string \<Rightarrow> storage \<Rightarrow> jsval" where
  "store_get k st = (case om_get st k of
       None \<Rightarrow> JUndef
     | Some item \<Rightarrow> if \<not> truthy item then JUndef else (case json_parse item of Inl e \<Rightarrow> item | Inr result \<Rightarrow> result))"

definition store_clear :: "string \<Rightarrow> storage \<Rightarrow> storage" where
  "store_clear k st = om_delete k st"

definition store_logout :: "storage \<Rightarrow> storage" where
  "store_logout st = store_clear ''apiKey'' st"

definition isAuthorized :: "storage \<Rightarrow> bool" where
  "isAuthorized st = truthy (store_get ''apiKey'' st)"

text \<open>the storage of the pages. A JSON value that is no string, and a nonempty string that is no JSON text, is read as it
  was saved, and other keys keep their value; but a string that happens to be JSON text is read as the value it denotes, and
  the empty string as \<open>undefined\<close>. A user with a password or without a key is refused and nothing is saved. After
  logging out nobody is authorized.\<close>

theorem storage_roundtrip:
  "(k \<noteq> ''user'' \<and> is_json v \<and> \<not> is_string v \<longrightarrow>
      fst (store_set k v st) = None \<and> store_get k (snd (store_set k v st)) = v)
   \<and> (k \<noteq> ''user'' \<longrightarrow> store_get k (snd (store_set k (JStr s) st)) = (if s = [] then JUndef else JStr s)
      \<and> store_get k (snd (store_set k (JJson v) st)) = v)
   \<and> (j \<noteq> k \<longrightarrow> store_get j (snd (store_set k v st)) = store_get j st)
   \<and> (om_has ob ''password'' \<and> truthy (obj_get ob ''password'') \<or> \<not> truthy (obj_get ob ''apiKey'') \<longrightarrow>
      fst (store_set ''user'' (JObj ob) st) \<noteq> None \<and> snd (store_set ''user'' (JObj ob) st) = st)
   \<and> \<not> isAuthorized (store_logout st)"
proof -
  have "store_get k (snd (store_set k v st)) = v" if "k \<noteq> ''user''" "is_json v" "\<not> is_string v"
  proof -
    have "stringify v = JJson v" using that(2) json_norm_id [of v] by (cases "v = JUndef") (auto simp: stringify_def)
    then show ?thesis using that by (auto simp: store_set_def store_get_def om_get_set json_parse_def)
  qed
  then show ?thesis
    by (auto simp: store_set_def store_get_def om_get_set om_get_delete json_parse_def is_string_def isAuthorized_def store_logout_def
        store_clear_def)
qed

theorem storage_roundtrip_witness:
  "store_get ''a'' (snd (store_set ''a'' (JNum (Fin 1)) [])) = JNum (Fin 1)
   \<and> store_get ''a'' (snd (store_set ''a'' (JJson (JNum (Fin 1))) [])) = JNum (Fin 1)"
  using storage_roundtrip [of "''a''" "JNum (Fin 1)" "[]"] by (simp add: is_string_def)

end
