(* ===== verification/Web_Page.thy ===== *)
theory Web_Page
  imports Web_Models
begin

text \<open>
  What the pages of HTM.IT share (\<open>htm.it/static/js/lib/htm-it/utils.js\<close>): the throbber that
  covers a page while it waits, the dialogs that report errors and warnings, navigation, and the
  steps of the setup. The document is represented by the state these operations change.
\<close>

section \<open>The page\<close>

text \<open>
  The throbber is visible (\<open>pg_throb\<close>), the flag \<open>_throbbing\<close>, its text and whether the text is
  visible; the handler \<open>window.onscroll\<close> by name, empty for none, and the one kept in
  \<open>windowOnscroll\<close>; the dialogs opened, the addresses gone to, and \<open>localStorage\<close>. An exception
  nobody catches is kept in \<open>pg_uncaught\<close>.
\<close>

datatype dialog = Alert string string string | Warning string string

record page =
  pg_throb :: bool
  pg_throbbing :: bool
  pg_text :: string
  pg_text_on :: bool
  pg_onscroll :: string
  pg_kept :: string
  pg_dialogs :: "dialog list"
  pg_went :: "string list"
  pg_storage :: storage
  pg_uncaught :: "jserr list"

definition throb_stop :: "'a page_scheme \<Rightarrow> 'a page_scheme" where
  "throb_stop p = p\<lparr>pg_throb := False, pg_onscroll := pg_kept p, pg_throbbing := False\<rparr>"

definition throb_start :: "string \<Rightarrow> 'a page_scheme \<Rightarrow> 'a page_scheme" where
  "throb_start message p =
     (let p = (throb_stop p)\<lparr>pg_text_on := False\<rparr>
      in if pg_throbbing p then p
         else let p = p\<lparr>pg_throbbing := True, pg_kept := pg_onscroll p, pg_onscroll := ''pinned''\<rparr>;
                  p = (if message \<noteq> [] then p\<lparr>pg_text := message, pg_text_on := True\<rparr> else p)
              in p\<lparr>pg_throb := True\<rparr>)"

definition throb_message :: "string \<Rightarrow> 'a page_scheme \<Rightarrow> 'a page_scheme" where
  "throb_message message p = p\<lparr>pg_text := message\<rparr>"

section \<open>Navigation\<close>

definition linkTo :: "string \<Rightarrow> string \<Rightarrow> string" where
  "linkTo baseUrl target =
     (let sep = (case target of c # s \<Rightarrow> if c = CHR ''/'' then [] else ''/'' | [] \<Rightarrow> ''/'') in baseUrl @ sep @ target)"

definition go :: "string \<Rightarrow> string \<Rightarrow> 'a page_scheme \<Rightarrow> 'a page_scheme" where
  "go baseUrl target p = p\<lparr>pg_went := pg_went p @ [linkTo baseUrl target]\<rparr>"

text \<open>\<open>getSetupTotalSteps\<close> with the numbers of the site, and the share of the bar.\<close>

definition getSetupTotalSteps :: "nat \<Rightarrow> nat \<Rightarrow> string \<Rightarrow> nat" where
  "getSetupTotalSteps normal expert search = (if isExpert search then expert else normal)"

definition setup_percent :: "int \<Rightarrow> int \<Rightarrow> int" where
  "setup_percent step steps = 100 * (step - 1) div (steps - 1)"

text \<open>The width of the bar: \<open>this.percent || 1\<close>.\<close>

definition bar_width :: "int \<Rightarrow> int" where
  "bar_width percent = (if percent = 0 then 1 else percent)"

section \<open>Errors\<close>

text \<open>
  \<open>/Server limit exceeded;.*limit=(\d+)\./\<close>: the number of the last \<open>limit=\<close> of the line on which
  the first such phrase stands that has one.
\<close>

definition limit_at :: "string \<Rightarrow> string option" where
  "limit_at s =
     (if take 6 s = ''limit='' then
        let d = takeWhile is_digit (drop 6 s); r = dropWhile is_digit (drop 6 s)
        in if d \<noteq> [] \<and> (case r of c # r' \<Rightarrow> c = CHR ''.'' | [] \<Rightarrow> False) then Some d else None
      else None)"

definition line_end :: "char \<Rightarrow> bool" where
  "line_end c = (let n = (of_char c :: nat) in n = 10 \<or> n = 13)"

fun last_limit :: "string \<Rightarrow> string option" where
  "last_limit [] = None"
| "last_limit (c # s) = (case (if line_end c then None else last_limit s) of
       Some d \<Rightarrow> Some d
     | None \<Rightarrow> limit_at (c # s))"

definition limit_exceeded :: string where
  "limit_exceeded = ''Server limit exceeded;''"

fun quota :: "string \<Rightarrow> string option" where
  "quota [] = None"
| "quota (c # s) = (case (if take (length limit_exceeded) (c # s) = limit_exceeded
         then last_limit (drop (length limit_exceeded) (c # s)) else None) of
       Some d \<Rightarrow> Some d
     | None \<Rightarrow> quota s)"

definition invalid_key :: string where
  "invalid_key = ''Invalid API Key''"

definition bad_signature :: string where
  "bad_signature = ''request signature we calculated''"

definition unknown_error :: string where
  "unknown_error = ''An unknown error occured.''"

definition error_body :: string where
  "error_body = ''Sorry! A problem was encountered. Please try again.''"

definition limit_body :: "string \<Rightarrow> string" where
  "limit_body limit = ''Sorry, HTM-IT is limited to monitoring '' @ limit @
     '' instances and AutoStacks on an AWS EC2 server of the current size.''"

definition aws_message :: string where
  "aws_message = ''AWS was not able to validate the provided secret access credential.''"

definition upgrade_message :: string where
  "upgrade_message = ''Please upgrade to a bigger AWS EC2 instance type in order to <a href=\"http://www.numenta.com/assets/pdf/grok/resources/1.5/Upgrade-AWS-EC2-Instance-Size.pdf\" target=\"_new\">increase the monitoring capacity of HTM-IT</a>.''"

text \<open>An error is a text, empty where it is \<open>null\<close>. The order of the three cases is that of the code: an error of a quota
  replaces the message about credentials.\<close>

definition modalError :: "string \<Rightarrow> string \<Rightarrow> 'a page_scheme \<Rightarrow> 'a page_scheme" where
  "modalError baseUrl err p =
     (let message = (if err = [] then unknown_error else err);
          p = throb_stop p
      in if str_contains message invalid_key then
           go baseUrl ''/htmit/welcome'' (p\<lparr>pg_storage := store_clear ''apiKey'' (pg_storage p)\<rparr>)
         else
           let message = (if str_contains message bad_signature then aws_message else message)
           in case quota message of
                Some limit \<Rightarrow> p\<lparr>pg_dialogs := pg_dialogs p @ [Alert ''Limit Reached'' (limit_body limit) upgrade_message]\<rparr>
              | None \<Rightarrow> p\<lparr>pg_dialogs := pg_dialogs p @ [Alert ''Error'' error_body message]\<rparr>)"

definition modalWarning :: "string \<Rightarrow> string \<Rightarrow> 'a page_scheme \<Rightarrow> 'a page_scheme" where
  "modalWarning title message p = (let p = throb_stop p in p\<lparr>pg_dialogs := pg_dialogs p @ [Warning title message]\<rparr>)"

text \<open>An exception leaves the handler.\<close>

definition threw :: "jserr \<Rightarrow> 'a page_scheme \<Rightarrow> 'a page_scheme" where
  "threw e p = p\<lparr>pg_uncaught := pg_uncaught p @ [e]\<rparr>"

section \<open>What they do\<close>

named_theorems page_simps

lemmas page_ops = throb_stop_def throb_start_def throb_message_def go_def modalWarning_def threw_def Let_def

lemma throb_fields [page_simps]:
  "pg_throb (throb_stop p) = False" "pg_throb (throb_start m p) = True" "pg_throb (throb_message m p) = pg_throb p"
  "pg_throb (go b t p) = pg_throb p" "pg_throb (threw e p) = pg_throb p" "pg_throb (modalWarning t m p) = False"
  by (simp_all add: page_ops)

lemma uncaught_fields [page_simps]:
  "pg_uncaught (throb_stop p) = pg_uncaught p" "pg_uncaught (throb_start m p) = pg_uncaught p"
  "pg_uncaught (throb_message m p) = pg_uncaught p" "pg_uncaught (go b t p) = pg_uncaught p"
  "pg_uncaught (modalWarning t m p) = pg_uncaught p" "pg_uncaught (threw e p) = pg_uncaught p @ [e]"
  by (simp_all add: page_ops)

lemma dialogs_fields [page_simps]:
  "pg_dialogs (throb_stop p) = pg_dialogs p" "pg_dialogs (throb_start m p) = pg_dialogs p"
  "pg_dialogs (throb_message m p) = pg_dialogs p" "pg_dialogs (go b t p) = pg_dialogs p" "pg_dialogs (threw e p) = pg_dialogs p"
  by (simp_all add: page_ops)

lemma went_fields [page_simps]:
  "pg_went (throb_stop p) = pg_went p" "pg_went (throb_start m p) = pg_went p" "pg_went (throb_message m p) = pg_went p"
  "pg_went (modalWarning t m p) = pg_went p" "pg_went (threw e p) = pg_went p" "pg_went (go b t p) = pg_went p @ [linkTo b t]"
  by (simp_all add: page_ops)

lemma storage_fields [page_simps]:
  "pg_storage (throb_stop p) = pg_storage p" "pg_storage (throb_start m p) = pg_storage p"
  "pg_storage (throb_message m p) = pg_storage p" "pg_storage (go b t p) = pg_storage p"
  "pg_storage (modalWarning t m p) = pg_storage p" "pg_storage (threw e p) = pg_storage p"
  by (simp_all add: page_ops)

lemma more_fields [page_simps]:
  "page.more (throb_stop p) = page.more p" "page.more (throb_start m p) = page.more p"
  "page.more (throb_message m p) = page.more p" "page.more (go b t p) = page.more p"
  "page.more (modalWarning t m p) = page.more p" "page.more (threw e p) = page.more p"
  by (simp_all add: page_ops)

lemma modalError_fields [page_simps]:
  "pg_throb (modalError b err p) = False" "pg_uncaught (modalError b err p) = pg_uncaught p"
  "page.more (modalError b err p) = page.more p"
  by (simp_all add: modalError_def Let_def throb_stop_def go_def split: option.split)

text \<open>A message without the three phrases is shown as it is.\<close>

lemma quota_None: "\<not> str_contains s limit_exceeded \<Longrightarrow> quota s = None"
proof (induction s)
  case (Cons c s)
  then have "\<not> str_contains s limit_exceeded" by (simp add: str_contains_def sublist_Cons_right)
  moreover from Cons.prems have "take (length limit_exceeded) (c # s) \<noteq> limit_exceeded"
    by (metis sublist_take str_contains_def)
  ultimately show ?case using Cons.IH by simp
qed simp

text \<open>The number that is shown is made of digits and stands in the error, after \<open>limit=\<close> and before a full stop.\<close>

lemma limit_at_Some:
  assumes "limit_at s = Some d"
  shows "d \<noteq> [] \<and> list_all is_digit d \<and> prefix (''limit='' @ d @ ''.'') s"
proof -
  let ?r = "drop 6 s"
  from assms have t: "take 6 s = ''limit=''" and d: "d = takeWhile is_digit ?r" and ne: "d \<noteq> []"
    and dot: "case dropWhile is_digit ?r of c # r' \<Rightarrow> c = CHR ''.'' | [] \<Rightarrow> False"
    by (auto simp: limit_at_def Let_def split: if_splits)
  from dot obtain r' where r': "dropWhile is_digit ?r = CHR ''.'' # r'" by (auto split: list.splits)
  have r: "d @ dropWhile is_digit ?r = ?r" unfolding d by (rule takeWhile_dropWhile_id)
  have "''limit='' @ d @ CHR ''.'' # r' = s" by (simp only: t [symmetric] r' [symmetric] r append_take_drop_id)
  then have "(''limit='' @ d @ ''.'') @ r' = s" by simp
  then have "prefix (''limit='' @ d @ ''.'') s" by (rule subst) (rule prefixI, rule refl)
  moreover have "list_all is_digit d" unfolding d list_all_iff by (blast dest: set_takeWhileD)
  ultimately show ?thesis using ne by blast
qed

lemma last_limit_Some: "last_limit s = Some d \<Longrightarrow> d \<noteq> [] \<and> list_all is_digit d \<and> sublist (''limit='' @ d @ ''.'') s"
proof (induction s)
  case (Cons c s)
  show ?case
  proof (cases "line_end c \<or> last_limit s = None")
    case True
    with Cons.prems have "limit_at (c # s) = Some d" by (auto split: if_splits)
    from limit_at_Some [OF this] show ?thesis by (blast intro: prefix_imp_sublist)
  next
    case False
    with Cons.prems have "last_limit s = Some d" by auto
    from Cons.IH [OF this] show ?thesis by (simp add: sublist_Cons_right)
  qed
qed simp

lemma quota_Some: "quota s = Some d \<Longrightarrow> d \<noteq> [] \<and> list_all is_digit d \<and> sublist (''limit='' @ d @ ''.'') s"
proof (induction s)
  case (Cons c s)
  let ?n = "length limit_exceeded"
  show ?case
  proof (cases "take ?n (c # s) = limit_exceeded \<and> last_limit (drop ?n (c # s)) \<noteq> None")
    case True
    with Cons.prems have "last_limit (drop ?n (c # s)) = Some d" by auto
    from last_limit_Some [OF this] show ?thesis by (meson sublist_drop sublist_order.order_trans)
  next
    case False
    with Cons.prems have "quota s = Some d" by (auto split: if_splits option.splits)
    from Cons.IH [OF this] show ?thesis by (simp add: sublist_Cons_right)
  qed
qed simp

text \<open>how the pages report an error. However it is worded, the throbber is gone afterwards. A refused key logs the user out and
  leads to the welcome page without a dialog; every other error opens exactly one dialog and changes neither storage nor address; the
  limit in a dialog about the size of the server is a number that stands in the error.
\<close>

theorem error_reported:
  fixes p :: "'a page_scheme"
  shows "let q = modalError b err p in \<not> pg_throb q \<and>
    (if str_contains err invalid_key
     then \<not> isAuthorized (pg_storage q) \<and> pg_went q = pg_went p @ [b @ ''/htmit/welcome''] \<and> pg_dialogs q = pg_dialogs p
     else pg_storage q = pg_storage p \<and> pg_went q = pg_went p \<and>
       ((\<exists>message. pg_dialogs q = pg_dialogs p @ [Alert ''Error'' error_body message] \<and>
           message \<in> {unknown_error, aws_message, err}) \<or>
        (\<exists>d. pg_dialogs q = pg_dialogs p @ [Alert ''Limit Reached'' (limit_body d) upgrade_message] \<and>
           d \<noteq> [] \<and> list_all is_digit d \<and> sublist (''limit='' @ d @ ''.'') err)))"
proof -
  define q where "q = modalError b err p"
  let ?m = "if err = [] then unknown_error else err"
  let ?m' = "if str_contains ?m bad_signature then aws_message else ?m"
  have unknown: "\<not> str_contains unknown_error invalid_key" by code_simp
  have empty: "\<not> str_contains [] invalid_key" by code_simp
  have key: "str_contains ?m invalid_key = str_contains err invalid_key" using unknown empty by simp
  have q1: "quota aws_message = None" and q2: "quota unknown_error = None" by code_simp+
  have authorized: "\<not> isAuthorized (store_clear ''apiKey'' st)" for st
    by (simp add: isAuthorized_def store_get_def store_clear_def om_get_delete)
  have m': "?m' \<in> {unknown_error, aws_message, err}" by simp
  show ?thesis
  proof (cases "str_contains err invalid_key")
    case True
    with key show ?thesis
      by (simp add: modalError_def Let_def page_simps authorized linkTo_def go_def throb_stop_def)
  next
    case False
    show ?thesis
    proof (cases "quota ?m'")
      case None
      with False key have "q = (throb_stop p)\<lparr>pg_dialogs := pg_dialogs p @ [Alert ''Error'' error_body ?m']\<rparr>"
        by (simp add: q_def modalError_def Let_def page_simps)
      with False m' show ?thesis unfolding Let_def q_def [symmetric] by (simp add: page_simps)
    next
      case (Some d)
      with q1 q2 have "quota err = Some d" by (auto split: if_splits)
      note d = quota_Some [OF this]
      from Some False key have "q = (throb_stop p)\<lparr>pg_dialogs := pg_dialogs p @ [Alert ''Limit Reached'' (limit_body d) upgrade_message]\<rparr>"
        by (simp add: q_def modalError_def Let_def page_simps)
      with False show ?thesis unfolding Let_def q_def [symmetric] by (simp add: page_simps) (use d in \<open>auto intro!: exI [of _ d]\<close>)
    qed
  qed
qed

text \<open>the throbber and the handler of the page. A page that starts and stops the throbber is left with the handler that was kept
  last, not with its own: \<open>start\<close> stops the throbber first, and that already overwrites the handler of the page.
\<close>

theorem throbber_loses_handler:
  fixes p :: "'a page_scheme"
  shows "pg_onscroll (throb_stop (throb_start m p)) = pg_kept p \<and> pg_kept (throb_stop (throb_start m p)) = pg_kept p \<and>
    \<not> pg_throb (throb_stop (throb_start m p)) \<and> (pg_onscroll (throb_start m p) = ''pinned'')"
  by (simp add: page_ops)

end
