(* ===== verification/Web_Autostack.thy ===== *)
theory Web_Autostack
  imports Web_Page Web_Api
begin

text \<open>
  The page that groups servers by their tags (\<open>htm.it/static/js/program/views/pages/autostack.js\<close>): the language of
  its filter, which \<open>handleBegin\<close> reads in two scans of every term, the dictionary the terms are collected in, and the
  chain of requests that creates the group.
\<close>

section \<open>Reading a filter\<close>

definition backslash :: char where
  "backslash = CHR 0x5C"

definition marked :: "char \<Rightarrow> bool" where
  "marked c = (c = CHR '':'' \<or> c = CHR '','' \<or> c = CHR ''&'')"

text \<open>\<open>tag[i] == '\\' && (tag[i+1] == ':' || tag[i+1] == ',' || tag[i+1] == '&')\<close>\<close>

definition escape_here :: "string \<Rightarrow> bool" where
  "escape_here s = (case s of a # b # r \<Rightarrow> a = backslash \<and> marked b | _ \<Rightarrow> False)"

text \<open>
  The beginning of the body of both loops: \<open>previous\<close>, the character \<open>tag[i]\<close> and what follows it, after an
  escape has been stepped over. \<open>previous\<close> is \<open>None\<close> for the empty string it starts with.
\<close>

fun scan :: "char option \<Rightarrow> string \<Rightarrow> char option \<times> char \<times> string" where
  "scan previous s = (if escape_here s then (Some (hd s), hd (tl s), tl (tl s)) else (previous, hd s, tl s))"

text \<open>The first loop: the name before the first colon, empty when there is none, and the rest.\<close>

function tag_name :: "char option \<Rightarrow> string \<Rightarrow> string \<Rightarrow> string \<times> string" where
  "tag_name previous buffer s =
     (if s = [] then ([], [])
      else case scan previous s of (previous, c, r) \<Rightarrow>
        if c = CHR '':'' \<and> previous \<noteq> Some backslash then (buffer, r)
        else tag_name (Some c) (buffer @ [c]) r)"
  by pat_completeness auto
termination by (relation "measure (\<lambda>(_, _, s). length s)") (auto split: if_splits)

declare tag_name.simps [simp del]

text \<open>The second loop: the values between commas.\<close>

function tag_values :: "char option \<Rightarrow> string \<Rightarrow> string list \<Rightarrow> string \<Rightarrow> string list" where
  "tag_values previous buffer vals s =
     (if s = [] then (if buffer \<noteq> [] then vals @ [buffer] else vals)
      else case scan previous s of (previous, c, r) \<Rightarrow>
        if c = CHR '','' \<and> previous \<noteq> Some backslash then tag_values (Some c) [] (vals @ [buffer]) r
        else tag_values (Some c) (buffer @ [c]) vals r)"
  by pat_completeness auto
termination by (relation "measure (\<lambda>(_, _, _, s). length s)") (auto split: if_splits)

declare tag_values.simps [simp del]

definition parse_tag :: "string \<Rightarrow> string \<times> string list" where
  "parse_tag tag = (case tag_name None [] tag of (tagName, r) \<Rightarrow>
     if tagName = [] then (''tag:Name'', tag_values None [] [] tag)
     else (''tag:'' @ tagName, tag_values None [] [] r))"

text \<open>\<open>tags.split(/\s*&&\s*/)\<close>: where the separator matches at the beginning of a string, and what follows it.\<close>

definition and_here :: "string \<Rightarrow> string option" where
  "and_here s = (case dropWhile is_space s of
       a # b # r \<Rightarrow> if a = CHR ''&'' \<and> b = CHR ''&'' then Some (dropWhile is_space r) else None
     | _ \<Rightarrow> None)"

lemma and_here_shorter: "and_here s = Some r \<Longrightarrow> length r < length s"
proof -
  assume "and_here s = Some r"
  then obtain a b r' where s: "dropWhile is_space s = a # b # r'" and r: "r = dropWhile is_space r'"
    by (auto simp: and_here_def split: list.splits if_splits)
  have "length (a # b # r') \<le> length s" unfolding s [symmetric] by (rule length_dropWhile_le)
  moreover have "length r \<le> length r'" unfolding r by (rule length_dropWhile_le)
  ultimately show "length r < length s" by simp
qed

function split_and :: "string \<Rightarrow> string \<Rightarrow> string list" where
  "split_and piece s = (case and_here s of
       Some r \<Rightarrow> piece # split_and [] r
     | None \<Rightarrow> (case s of [] \<Rightarrow> [piece] | c # s' \<Rightarrow> split_and (piece @ [c]) s'))"
  by pat_completeness auto
termination by (relation "measure (\<lambda>(_, s). length s)") (auto dest: and_here_shorter)

declare split_and.simps [simp del]

definition parse_filters :: "string \<Rightarrow> (string \<times> string list) list" where
  "parse_filters tags = map parse_tag (split_and [] tags)"

text \<open>\<open>collapsedFilters\<close>. The keys begin with \<open>tag:\<close>, so none is a property every object has.\<close>

definition collect_filter :: "(string, string list) omap \<Rightarrow> string \<times> string list \<Rightarrow> (string, string list) omap" where
  "collect_filter m f = (let m = (if om_get m (fst f) = None then om_set (fst f) [] m else m)
     in om_set (fst f) (the (om_get m (fst f)) @ snd f) m)"

definition collapsedFilters :: "(string \<times> string list) list \<Rightarrow> (string, string list) omap" where
  "collapsedFilters fs = foldl collect_filter [] fs"

section \<open>What a term means\<close>

text \<open>A term as the characters the user meant, each with whether it was escaped.\<close>

fun tokens :: "string \<Rightarrow> (char \<times> bool) list" where
  "tokens [] = []"
| "tokens [a] = [(a, False)]"
| "tokens (a # b # r) = (if a = backslash \<and> marked b then (b, True) # tokens r else (a, False) # tokens (b # r))"

definition plain :: "(char \<times> bool) list \<Rightarrow> string" where
  "plain ts = map fst ts"

fun split_tokens :: "char \<times> bool \<Rightarrow> (char \<times> bool) list \<Rightarrow> (char \<times> bool) list list" where
  "split_tokens c [] = [[]]"
| "split_tokens c (t # ts) = (if t = c then [] # split_tokens c ts
     else case split_tokens c ts of [] \<Rightarrow> [[t]] | p # ps \<Rightarrow> (t # p) # ps)"

definition drop_last_empty :: "string list \<Rightarrow> string list" where
  "drop_last_empty vs = (if last vs = [] then butlast vs else vs)"

text \<open>The name is what stands before the first colon that is not escaped; the values stand between the commas that are not.\<close>

definition meaning :: "string \<Rightarrow> string \<times> string list" where
  "meaning tag =
     (let ts = tokens tag; n = plain (takeWhile (\<lambda>t. t \<noteq> (CHR '':'', False)) ts);
          given = (CHR '':'', False) \<in> set ts \<and> n \<noteq> [];
          vs = (if given then tl (dropWhile (\<lambda>t. t \<noteq> (CHR '':'', False)) ts) else ts)
      in (''tag:'' @ (if given then n else ''Name''),
          drop_last_empty (map plain (split_tokens (CHR '','', False) vs))))"

lemma split_tokens_ne [simp]: "split_tokens c ts \<noteq> []"
  by (induction ts) (auto split: list.split)

lemma backslash_not_marked [simp]: "\<not> marked backslash"
  by (simp add: marked_def backslash_def)

lemma plain_simps [simp]: "plain [] = []" "plain (t # ts) = fst t # plain ts"
  by (simp_all add: plain_def)

text \<open>
  A backslash that escapes nothing is never followed by a character it could escape. So \<open>previous\<close> decides
  nothing in either loop.
\<close>

definition harmless :: "char option \<Rightarrow> string \<Rightarrow> bool" where
  "harmless previous s = (previous = Some backslash \<longrightarrow> (case s of [] \<Rightarrow> True | c # r \<Rightarrow> \<not> marked c))"

lemma harmless_None [simp]: "harmless None s"
  by (simp add: harmless_def)

declare scan.simps [simp del]

lemma scan_tokens:
  assumes "harmless previous s" "s \<noteq> []"
  shows "\<exists>p d r e. scan previous s = (p, d, r) \<and> tokens s = (d, e) # tokens r \<and> harmless (Some d) r \<and>
    (marked d \<longrightarrow> e = (p = Some backslash)) \<and> length r < length s"
proof -
  from assms obtain c s' where s: "s = c # s'" by (cases s) auto
  show ?thesis
  proof (cases "escape_here s")
    case True
    with s obtain b r where r: "s' = b # r" "c = backslash" "marked b" by (auto simp: escape_here_def split: list.splits)
    then have "harmless (Some b) r" by (auto simp: harmless_def)
    with s r True have "scan previous s = (Some backslash, b, r) \<and> tokens s = (b, True) # tokens r \<and> harmless (Some b) r \<and>
        length r < length s" by (simp add: scan.simps)
    then show ?thesis by blast
  next
    case False
    with s have t: "tokens s = (c, False) # tokens s'" by (cases s') (auto simp: escape_here_def)
    from False s have h: "harmless (Some c) s'" by (auto simp: harmless_def escape_here_def split: list.splits)
    from assms s have "marked c \<Longrightarrow> previous \<noteq> Some backslash" by (auto simp: harmless_def)
    with s False t h have "scan previous s = (previous, c, s') \<and> tokens s = (c, False) # tokens s' \<and> harmless (Some c) s' \<and>
        (marked c \<longrightarrow> False = (previous = Some backslash)) \<and> length s' < length s" by (simp add: scan.simps)
    then show ?thesis by blast
  qed
qed

lemma tag_Nil [simp]: "tag_name previous buffer [] = ([], [])" "tag_values previous buffer vals [] = (if buffer \<noteq> [] then vals @ [buffer] else vals)"
  by (simp_all add: tag_name.simps tag_values.simps)

lemma tag_name_tokens:
  "harmless previous s \<Longrightarrow> tag_name previous buffer s =
     (if (CHR '':'', False) \<in> set (tokens s) then
        (buffer @ plain (takeWhile (\<lambda>t. t \<noteq> (CHR '':'', False)) (tokens s)), snd (tag_name previous buffer s))
      else ([], [])) \<and>
   ((CHR '':'', False) \<in> set (tokens s) \<longrightarrow>
      tokens (snd (tag_name previous buffer s)) = tl (dropWhile (\<lambda>t. t \<noteq> (CHR '':'', False)) (tokens s)))"
proof (induction "length s" arbitrary: previous buffer s rule: less_induct)
  case less
  show ?case
  proof (cases s)
    case Nil
    then show ?thesis by simp
  next
    case (Cons c s')
    then have "s \<noteq> []" by simp
    from scan_tokens [OF less.prems this] obtain d r p e where sc: "scan previous s = (p, d, r)"
      and t: "tokens s = (d, e) # tokens r" and h: "harmless (Some d) r" and e: "marked d \<Longrightarrow> e = (p = Some backslash)"
      and l: "length r < length s" by blast
    show ?thesis
    proof (cases "d = CHR '':'' \<and> p \<noteq> Some backslash")
      case True
      with e have "(d, e) = (CHR '':'', False)" by (auto simp: marked_def)
      moreover have "tag_name previous buffer s = (buffer, r)" using True Cons sc by (subst tag_name.simps) auto
      ultimately show ?thesis using t by simp
    next
      case False
      with e have "(d, e) \<noteq> (CHR '':'', False)" by (auto simp: marked_def)
      moreover have "tag_name previous buffer s = tag_name (Some d) (buffer @ [d]) r"
        using False Cons sc by (subst tag_name.simps) auto
      ultimately show ?thesis using less.hyps [OF l h, of "buffer @ [d]"] t by auto
    qed
  qed
qed

lemma tag_values_tokens:
  "harmless previous s \<Longrightarrow> tag_values previous buffer vals s =
     vals @ drop_last_empty (case map plain (split_tokens (CHR '','', False) (tokens s)) of v # vs \<Rightarrow> (buffer @ v) # vs)"
proof (induction "length s" arbitrary: previous buffer vals s rule: less_induct)
  case less
  show ?case
  proof (cases s)
    case Nil
    then show ?thesis by (simp add: drop_last_empty_def)
  next
    case (Cons c s')
    then have "s \<noteq> []" by simp
    from scan_tokens [OF less.prems this] obtain d r p e where sc: "scan previous s = (p, d, r)"
      and t: "tokens s = (d, e) # tokens r" and h: "harmless (Some d) r" and e: "marked d \<Longrightarrow> e = (p = Some backslash)"
      and l: "length r < length s" by blast
    obtain v vs where sp: "split_tokens (CHR '','', False) (tokens r) = v # vs"
      by (cases "split_tokens (CHR '','', False) (tokens r)") auto
    note IH = less.hyps [OF l h]
    show ?thesis
    proof (cases "d = CHR '','' \<and> p \<noteq> Some backslash")
      case True
      with e have de: "(d, e) = (CHR '','', False)" by (auto simp: marked_def)
      have "tag_values previous buffer vals s = tag_values (Some d) [] (vals @ [buffer]) r"
        using True Cons sc by (subst tag_values.simps) auto
      with IH de t sp show ?thesis by (auto simp: drop_last_empty_def)
    next
      case False
      with e have de: "(d, e) \<noteq> (CHR '','', False)" by (auto simp: marked_def)
      have "tag_values previous buffer vals s = tag_values (Some d) (buffer @ [d]) vals r"
        using False Cons sc by (subst tag_values.simps) auto
      with IH de t sp show ?thesis by auto
    qed
  qed
qed

theorem parse_tag_meaning: "parse_tag tag = meaning tag"
proof -
  let ?c = "(CHR '':'', False)" and ?ts = "tokens tag"
  obtain n r where n: "tag_name None [] tag = (n, r)" by force
  from tag_name_tokens [of None tag "[]", unfolded n]
  have nr: "(n, r) = (if ?c \<in> set ?ts then (plain (takeWhile (\<lambda>t. t \<noteq> ?c) ?ts), r) else ([], []))"
    and tr: "?c \<in> set ?ts \<Longrightarrow> tokens r = tl (dropWhile (\<lambda>t. t \<noteq> ?c) ?ts)" by auto
  have vals: "tag_values None [] [] s = drop_last_empty (map plain (split_tokens (CHR '','', False) (tokens s)))" for s
    using tag_values_tokens [of None s "[]" "[]"]
    by (cases "split_tokens (CHR '','', False) (tokens s)") auto
  show ?thesis
  proof (cases "?c \<in> set ?ts")
    case True
    with nr have "n = plain (takeWhile (\<lambda>t. t \<noteq> ?c) ?ts)" by simp
    with True tr n vals show ?thesis by (simp add: parse_tag_def meaning_def Let_def)
  next
    case False
    with nr n vals show ?thesis by (simp add: parse_tag_def meaning_def Let_def)
  qed
qed

section \<open>Writing a filter\<close>

text \<open>What a user has to write for the given tags: a backslash before every colon, comma and ampersand.\<close>

fun escape :: "string \<Rightarrow> string" where
  "escape [] = []"
| "escape (c # s) = (if marked c then backslash # c # escape s else c # escape s)"

fun join_with :: "string \<Rightarrow> string list \<Rightarrow> string" where
  "join_with sep [] = []"
| "join_with sep [s] = s"
| "join_with sep (s # ss) = s @ sep @ join_with sep ss"

definition print_tag :: "string \<times> string list \<Rightarrow> string" where
  "print_tag f = escape (fst f) @ '':'' @ join_with '','' (map escape (snd f))"

definition print_filters :: "(string \<times> string list) list \<Rightarrow> string" where
  "print_filters fs = join_with '' && '' (map print_tag fs)"

text \<open>
  What can be written: names that are not empty; neither a name nor a value before a comma ends with a backslash, the last value is
  not empty; no space at the beginning or the end.
\<close>

definition no_backslash_end :: "string \<Rightarrow> bool" where
  "no_backslash_end s = (s = [] \<or> last s \<noteq> backslash)"

fun good_values :: "string list \<Rightarrow> bool" where
  "good_values [] = True"
| "good_values [v] = (v \<noteq> [] \<and> \<not> is_space (last v))"
| "good_values (v # vs) = (no_backslash_end v \<and> good_values vs)"

definition writable :: "string \<times> string list \<Rightarrow> bool" where
  "writable f = (fst f \<noteq> [] \<and> \<not> is_space (hd (fst f)) \<and> no_backslash_end (fst f) \<and> good_values (snd f))"

definition given_tokens :: "string \<Rightarrow> (char \<times> bool) list" where
  "given_tokens v = map (\<lambda>c. (c, marked c)) v"

lemma plain_given [simp]: "plain (given_tokens v) = v"
  by (induction v) (auto simp: given_tokens_def)

lemma given_no_mark [simp]: "marked c \<Longrightarrow> (c, False) \<notin> set (given_tokens v)"
  by (auto simp: given_tokens_def)

lemma marks [simp]: "marked (CHR '':'')" "marked (CHR '','')" "marked (CHR ''&'')" "\<not> marked (CHR '' '')"
  by (simp_all add: marked_def)

lemma hd_escape: "v \<noteq> [] \<Longrightarrow> escape v \<noteq> [] \<and> \<not> marked (hd (escape v))"
  by (cases v) auto

lemma tokens_unmarked: "a \<noteq> backslash \<or> s = [] \<or> \<not> marked (hd s) \<Longrightarrow> tokens (a # s) = (a, False) # tokens s"
  by (cases s) auto

lemma tokens_escape:
  "no_backslash_end v \<or> s = [] \<or> \<not> marked (hd s) \<Longrightarrow> tokens (escape v @ s) = given_tokens v @ tokens s"
proof (induction v)
  case Nil
  then show ?case by (simp add: given_tokens_def)
next
  case (Cons c v)
  have IH: "tokens (escape v @ s) = given_tokens v @ tokens s"
    using Cons by (cases v) (auto simp: no_backslash_end_def given_tokens_def)
  show ?case
  proof (cases "marked c")
    case True
    then have "c \<noteq> backslash" by auto
    with True IH show ?thesis by (simp add: given_tokens_def)
  next
    case False
    have "c \<noteq> backslash \<or> escape v @ s = [] \<or> \<not> marked (hd (escape v @ s))"
      using Cons.prems hd_escape [of v] by (cases v) (auto simp: no_backslash_end_def)
    from tokens_unmarked [OF this] False IH show ?thesis by (simp add: given_tokens_def)
  qed
qed

lemma split_tokens_none: "c \<notin> set ts \<Longrightarrow> split_tokens c ts = [ts]"
  by (induction ts) auto

lemma split_tokens_append: "c \<notin> set ts \<Longrightarrow> split_tokens c (ts @ c # us) = ts # split_tokens c us"
  by (induction ts) auto

lemma values_read:
  "good_values vs \<Longrightarrow> drop_last_empty (map plain (split_tokens (CHR '','', False) (tokens (join_with '','' (map escape vs))))) = vs"
proof (induction vs rule: good_values.induct)
  case (2 v)
  then have "tokens (escape v) = given_tokens v" using tokens_escape [of v "[]"] by simp
  with 2 show ?case by (simp add: split_tokens_none drop_last_empty_def)
next
  case (3 v w vs)
  let ?r = "join_with '','' (map escape (w # vs))"
  from 3 have v: "no_backslash_end v" and good: "good_values (w # vs)" by simp_all
  have "tokens (join_with '','' (map escape (v # w # vs))) = tokens (escape v @ CHR '','' # ?r)" by simp
  also have "\<dots> = given_tokens v @ tokens (CHR '','' # ?r)" by (rule tokens_escape) (use v in simp)
  also have "tokens (CHR '','' # ?r) = (CHR '','', False) # tokens ?r"
    by (rule tokens_unmarked) (simp add: backslash_def)
  finally have "map plain (split_tokens (CHR '','', False) (tokens (join_with '','' (map escape (v # w # vs))))) =
      v # map plain (split_tokens (CHR '','', False) (tokens ?r))" by (simp add: split_tokens_append)
  with 3 good show ?case by (auto simp: drop_last_empty_def split: if_splits)
qed (simp add: drop_last_empty_def)

lemma print_tag_read: "writable f \<Longrightarrow> parse_tag (print_tag f) = (''tag:'' @ fst f, snd f)"
proof -
  let ?c = "(CHR '':'', False)" and ?v = "join_with '','' (map escape (snd f))"
  assume f: "writable f"
  then have n: "no_backslash_end (fst f)" "fst f \<noteq> []" and v: "good_values (snd f)" by (auto simp: writable_def)
  have "tokens (print_tag f) = given_tokens (fst f) @ tokens (CHR '':'' # ?v)"
    unfolding print_tag_def append_Cons append_Nil by (rule tokens_escape) (use n in simp)
  also have "tokens (CHR '':'' # ?v) = ?c # tokens ?v" by (rule tokens_unmarked) (simp add: backslash_def)
  finally have t: "tokens (print_tag f) = given_tokens (fst f) @ ?c # tokens ?v" .
  have "?c \<notin> set (given_tokens (fst f))" by simp
  then have "\<And>t. t \<in> set (given_tokens (fst f)) \<Longrightarrow> t \<noteq> ?c" by metis
  then have "takeWhile (\<lambda>t. t \<noteq> ?c) (given_tokens (fst f) @ ?c # tokens ?v) = given_tokens (fst f)"
    "dropWhile (\<lambda>t. t \<noteq> ?c) (given_tokens (fst f) @ ?c # tokens ?v) = ?c # tokens ?v"
    by (simp_all add: takeWhile_append2 dropWhile_append2)
  with t n values_read [OF v] show ?thesis by (simp add: parse_tag_meaning meaning_def Let_def)
qed

text \<open>No term that was written contains two ampersands in a row.\<close>

fun no_and :: "string \<Rightarrow> bool" where
  "no_and (a # b # r) = (\<not> (a = CHR ''&'' \<and> b = CHR ''&'') \<and> no_and (b # r))"
| "no_and _ = True"

lemma no_and_Cons: "no_and s \<Longrightarrow> s = [] \<or> hd s \<noteq> CHR ''&'' \<Longrightarrow> no_and (a # s)"
  by (cases s) auto

lemma no_and_append:
  "no_and s \<Longrightarrow> no_and t \<Longrightarrow> t = [] \<or> hd t \<noteq> CHR ''&'' \<Longrightarrow> no_and (s @ t)"
  by (induction s rule: no_and.induct) (auto intro: no_and_Cons)

lemma hd_escape_no_and: "escape v = [] \<or> hd (escape v) \<noteq> CHR ''&''"
  using hd_escape [of v] by (cases "v = []") auto

lemma no_and_escape: "no_and (escape v)"
proof (induction v)
  case (Cons c v)
  from no_and_Cons [OF Cons hd_escape_no_and, of c] have "no_and (c # escape v)" .
  then show ?case by (simp add: backslash_def)
qed simp

lemma no_and_join: "no_and (join_with '','' (map escape vs)) \<and> (join_with '','' (map escape vs) = [] \<or> hd (join_with '','' (map escape vs)) \<noteq> CHR ''&'')"
proof (induction vs rule: good_values.induct)
  case (2 v)
  then show ?case using no_and_escape hd_escape_no_and by simp
next
  case (3 v w vs)
  let ?r = "join_with '','' (map escape (w # vs))"
  have "no_and (CHR '','' # ?r)" by (rule no_and_Cons) (use 3 in blast)+
  then have "no_and (escape v @ CHR '','' # ?r)" by (intro no_and_append no_and_escape) auto
  moreover have "hd (escape v @ CHR '','' # ?r) \<noteq> CHR ''&''" using hd_escape_no_and [of v] by (cases "escape v") auto
  ultimately show ?case by simp
qed simp

lemma no_and_print: "no_and (print_tag f)"
proof -
  have "no_and (CHR '':'' # join_with '','' (map escape (snd f)))" by (rule no_and_Cons) (use no_and_join in blast)+
  then show ?thesis unfolding print_tag_def by (simp add: no_and_append no_and_escape)
qed

lemma last_escape: "v \<noteq> [] \<Longrightarrow> last (escape v) = last v"
  by (induction v rule: escape.induct) (auto simp: hd_escape)

lemma last_join: "good_values vs \<Longrightarrow> vs \<noteq> [] \<Longrightarrow>
  join_with '','' (map escape vs) \<noteq> [] \<and> \<not> is_space (last (join_with '','' (map escape vs)))"
  by (induction vs rule: good_values.induct) (auto simp: last_escape hd_escape)

lemma print_ends: "writable f \<Longrightarrow> print_tag f \<noteq> [] \<and> \<not> is_space (hd (print_tag f)) \<and> \<not> is_space (last (print_tag f))"
proof -
  assume f: "writable f"
  have sp: "\<not> is_space (CHR '':'')" "\<not> is_space backslash" by code_simp+
  from f obtain c n where "fst f = c # n" "\<not> is_space c" by (cases "fst f") (auto simp: writable_def)
  with sp have "\<not> is_space (hd (print_tag f))" by (auto simp: print_tag_def)
  moreover have "\<not> is_space (last (print_tag f))"
    using f last_join [of "snd f"] sp by (cases "snd f = []") (auto simp: print_tag_def writable_def)
  ultimately show ?thesis by (simp add: print_tag_def)
qed

lemma no_and_tl: "no_and (c # s) \<Longrightarrow> no_and s"
  by (cases s) auto

lemma no_and_dropWhile: "no_and s \<Longrightarrow> no_and (dropWhile P s)"
  by (induction s) (auto dest: no_and_tl)

lemma and_here_None:
  assumes "no_and t" "t \<noteq> []" "\<not> is_space (last t)" "rest = [] \<or> hd rest \<noteq> CHR ''&''"
  shows "and_here (t @ rest) = None"
proof -
  have "\<exists>x\<in>set t. \<not> is_space x" using assms(2,3) by (meson last_in_set)
  then have d: "dropWhile is_space (t @ rest) = dropWhile is_space t @ rest" by (auto simp: dropWhile_append1)
  have n: "no_and (dropWhile is_space t)" using assms(1) by (rule no_and_dropWhile)
  obtain a u where u: "dropWhile is_space t = a # u"
    using assms(2,3) by (metis dropWhile_eq_Nil_conv last_in_set neq_Nil_conv)
  show ?thesis
  proof (cases u)
    case Nil
    with d u assms(4) show ?thesis by (cases rest) (auto simp: and_here_def)
  next
    case (Cons b v)
    with d u n show ?thesis by (auto simp: and_here_def)
  qed
qed

lemma split_step: "and_here (c # s) = None \<Longrightarrow> split_and piece (c # s) = split_and (piece @ [c]) s"
  by (subst split_and.simps) simp

lemma split_term:
  "no_and t \<Longrightarrow> t = [] \<or> \<not> is_space (last t) \<Longrightarrow> rest = [] \<or> hd rest \<noteq> CHR ''&'' \<Longrightarrow>
   split_and piece (t @ rest) = split_and (piece @ t) rest"
proof (induction t arbitrary: piece)
  case (Cons c t)
  have "and_here ((c # t) @ rest) = None" by (rule and_here_None) (use Cons.prems in auto)
  then have "split_and piece ((c # t) @ rest) = split_and (piece @ [c]) (t @ rest)" by (simp add: split_step)
  also have "\<dots> = split_and ((piece @ [c]) @ t) rest"
    by (rule Cons.IH) (use Cons.prems no_and_tl in \<open>auto split: if_splits\<close>)
  finally show ?case by simp
qed simp

lemma split_end [simp]: "split_and piece [] = [piece]"
  by (subst split_and.simps) (simp add: and_here_def)

lemma split_sep: "rest = [] \<or> \<not> is_space (hd rest) \<Longrightarrow> split_and piece ('' && '' @ rest) = piece # split_and [] rest"
proof -
  assume r: "rest = [] \<or> \<not> is_space (hd rest)"
  have sp: "is_space (CHR '' '')" "\<not> is_space (CHR ''&'')" by code_simp+
  from r have "dropWhile is_space rest = rest" by (cases rest) auto
  with sp have "and_here ('' && '' @ rest) = Some rest" by (simp add: and_here_def)
  then show ?thesis by (subst split_and.simps) simp
qed

lemma split_printed: "list_all writable fs \<Longrightarrow> fs \<noteq> [] \<Longrightarrow> split_and [] (print_filters fs) = map print_tag fs"
proof (induction fs rule: induct_list012)
  case (2 f)
  from 2 have "split_and [] (print_tag f @ []) = split_and ([] @ print_tag f) []"
    by (intro split_term no_and_print) (auto dest: print_ends)
  then show ?case by (simp add: print_filters_def)
next
  case (3 f g fs)
  let ?r = "join_with '' && '' (map print_tag (g # fs))"
  from 3 have f: "writable f" and g: "writable g" by simp_all
  have hd: "?r \<noteq> [] \<and> \<not> is_space (hd ?r)" using print_ends [OF g] by (cases fs) (auto simp: hd_append)
  have "split_and [] (print_tag f @ '' && '' @ ?r) = split_and ([] @ print_tag f) ('' && '' @ ?r)"
    by (rule split_term) (use no_and_print print_ends [OF f] in auto)
  also have "\<dots> = print_tag f # split_and [] ?r" using hd by (subst split_sep) auto
  finally show ?case using 3 by (simp add: print_filters_def)
qed simp

text \<open>C29: the filter of a group of servers. Whatever tags and values a user means, what is written for them with a backslash before
  every colon, comma and ampersand is read back exactly, in its order, with the mark \<open>tag:\<close> before every name; values
  may contain all of these characters and backslashes themselves. Only a name or a value before a comma that ends with a backslash
  cannot be written, and no text can give a last value that is empty.
\<close>

theorem filters_roundtrip:
  "list_all writable fs \<Longrightarrow> fs \<noteq> [] \<Longrightarrow>
   parse_filters (print_filters fs) = map (\<lambda>(name, vals). (''tag:'' @ name, vals)) fs"
  by (auto simp: parse_filters_def split_printed print_tag_read list_all_iff)

theorem filters_roundtrip_witness:
  "parse_filters (print_filters [(''Name'', [''*web*'', ''a,b&&c'']), (''R:D'', [])]) =
     [(''tag:Name'', [''*web*'', ''a,b&&c'']), (''tag:R:D'', [])]"
  by (subst filters_roundtrip) code_simp+

section \<open>The dictionary of filters\<close>

lemma collect_get:
  "om_get (collect_filter m f) k =
     (if k = fst f then Some ((case om_get m k of None \<Rightarrow> [] | Some vs \<Rightarrow> vs) @ snd f) else om_get m k)"
  by (auto simp: collect_filter_def Let_def om_get_set split: option.split)

text \<open>the dictionary of filters asks for the same servers as the terms. A tag is a key exactly when a term names it, and its values
  are those of all its terms, in the order they were written; every tag occurs once.
\<close>

theorem filters_collected:
  "om_get (collapsedFilters fs) k =
     (if k \<in> fst ` set fs then Some (concat (map snd (filter (\<lambda>f. fst f = k) fs))) else None) \<and>
   om_ok (collapsedFilters fs)"
proof (induction fs rule: rev_induct)
  case (snoc f fs)
  have "collapsedFilters (fs @ [f]) = collect_filter (collapsedFilters fs) f" by (simp add: collapsedFilters_def)
  moreover have "om_ok (collect_filter m f)" if "om_ok m" for m
    using that by (simp add: collect_filter_def Let_def)
  moreover have "k \<notin> fst ` set fs \<Longrightarrow> concat (map snd (filter (\<lambda>f. fst f = k) fs)) = []"
    by (simp only: concat_eq_Nil_conv) (auto simp: image_iff)
  ultimately show ?case using snoc by (auto simp: collect_get split: option.splits if_splits)
qed (simp add: collapsedFilters_def)

section \<open>The page\<close>

text \<open>
  The fields of the form and which of them are disabled, the metrics of \<open>me.namespaces['AWS/EC2']\<close>, the regions of the
  select box, the dialog that waits for a confirmation with what its callback closes over, the requests made, the collection of
  groups of the list, and how often the instances have been fetched. The texts of the site are a parameter.
\<close>

record as_texts =
  tx_find :: string
  tx_starts :: string
  tx_name :: string
  tx_region :: string
  tx_tags :: string
  tx_instances :: string
  tx_default_region :: string
  tx_welcome :: string

record as_order =
  od_name :: string
  od_region :: string
  od_filters :: "(string, string list) omap"

record autostack_page = page +
  as_name :: string
  as_region :: string
  as_tags :: string
  as_name_off :: bool
  as_tags_off :: bool
  as_begin_off :: bool
  as_metrics :: jsval
  as_regions :: "(string \<times> string) list"
  as_confirm :: "(string \<times> as_order) option"
  as_requests :: "http_request list"
  as_autostacks :: "jsobj list"
  as_fetches :: nat

text \<open>An answer of the client: the text of the error, empty when there is none, and the response.\<close>

type_synonym answer = "string \<times> jsval"

definition ask :: "http_request \<Rightarrow> autostack_page \<Rightarrow> autostack_page" where
  "ask r p = p\<lparr>as_requests := as_requests p @ [r]\<rparr>"

definition autostack_initialize :: "as_texts \<Rightarrow> api_opts \<Rightarrow> autostack_page \<Rightarrow> autostack_page" where
  "autostack_initialize T A p =
     (let p = p\<lparr>as_regions := [], as_metrics := JArr []\<rparr>
      in if \<not> isAuthorized (pg_storage p) then p\<lparr>pg_went := pg_went p @ [tx_welcome T]\<rparr>
         else ask (api_getRegions A) (ask (api_getNamespaceDetails A ''AWS/EC2'') p))"

definition details_arrived :: "string \<Rightarrow> answer \<Rightarrow> autostack_page \<Rightarrow> autostack_page" where
  "details_arrived base a p =
     (if fst a \<noteq> [] then modalError base (fst a) p
      else case snd a of
        JObj nsdetails \<Rightarrow> (case obj_get nsdetails ''AWS/EC2'' of
            JUndef \<Rightarrow> threw TypeError p
          | JNull \<Rightarrow> threw TypeError p
          | d \<Rightarrow> p\<lparr>as_metrics := obj_get (as_obj d) ''metrics''\<rparr>)
      | _ \<Rightarrow> threw TypeError p)"

text \<open>The form is drawn again: empty, and disabled until a region is chosen.\<close>

definition autostack_render :: "autostack_page \<Rightarrow> autostack_page" where
  "autostack_render p = p\<lparr>as_name := [], as_region := [], as_tags := [], as_name_off := True, as_tags_off := True, as_begin_off := True\<rparr>"

definition autostack_regions_arrived :: "string \<Rightarrow> string \<times> (string \<times> string) list \<Rightarrow> autostack_page \<Rightarrow> autostack_page" where
  "autostack_regions_arrived base a p =
     (if fst a \<noteq> [] then modalError base (fst a) p
      else autostack_render ((throb_stop p)\<lparr>as_regions :=
          fold (\<lambda>(region, name). om_set region (remove_first '' Region'' name)) (snd a) (as_regions p)\<rparr>))"

definition region_changed :: "as_texts \<Rightarrow> string \<Rightarrow> autostack_page \<Rightarrow> autostack_page" where
  "region_changed T shown p =
     (if shown = tx_default_region T then p\<lparr>as_name_off := True, as_tags_off := True, as_begin_off := True\<rparr>
      else p\<lparr>as_name_off := False, as_tags_off := False, as_begin_off := False\<rparr>)"

definition js_filters :: "(string, string list) omap \<Rightarrow> jsval" where
  "js_filters m = JObj (map (\<lambda>(k, vs). (k, JArr (map JStr vs))) m)"

definition filterOutput :: "(string \<times> string list) list \<Rightarrow> string list" where
  "filterOutput filters = map (\<lambda>f. fst f @ '':'' @ join_with '','' (snd f)) filters"

definition handleBegin :: "as_texts \<Rightarrow> api_opts \<Rightarrow> autostack_page \<Rightarrow> autostack_page" where
  "handleBegin T A p =
     ask (api_getAutostackPreview A (JStr (as_region p)) (js_filters (collapsedFilters (parse_filters (as_tags p)))))
       (throb_start (tx_find T) p)"

text \<open>\<open>instance.tags.Name\<close> throws where there are no tags; names and identifiers are strings.\<close>

definition instance_line :: "jsval \<Rightarrow> jserr + string" where
  "instance_line v = (case v of
       JObj inst \<Rightarrow> (case obj_get inst ''tags'' of
           JUndef \<Rightarrow> Inl TypeError
         | JNull \<Rightarrow> Inl TypeError
         | tags \<Rightarrow> (let name = as_string (obj_get (as_obj tags) ''Name''); id = as_string (obj_get inst ''instanceID'')
             in Inr (if name \<noteq> [] then name @ '' ('' @ id @ '')'' else id)))
     | _ \<Rightarrow> Inl TypeError)"

fun instance_lines :: "jsval list \<Rightarrow> jserr + string list" where
  "instance_lines [] = Inr []"
| "instance_lines (v # vs) = (case instance_line v of
       Inl e \<Rightarrow> Inl e
     | Inr l \<Rightarrow> (case instance_lines vs of Inl e \<Rightarrow> Inl e | Inr ls \<Rightarrow> Inr (l # ls)))"

definition description :: "as_texts \<Rightarrow> string \<Rightarrow> string \<Rightarrow> string list \<Rightarrow> string list \<Rightarrow> string" where
  "description T name region output lines =
     ''<p class=\"lead\">Based on your criteria we found the following servers to include in this Autostack. Do you want to create?</p>'' @
     ''<dl>'' @
     ''<dt>'' @ tx_name T @ ''</dt><dd>'' @ name @ ''</dd>'' @
     ''<dt>'' @ tx_region T @ ''</dt><dd>'' @ region @ ''</dd>'' @
     ''<dt>'' @ tx_tags T @ ''</dt><dd>'' @ join_with '' <span class=\"text-muted\">&amp;&amp;</span> '' output @ ''</dd>'' @
     ''<hr>'' @ ''<dt>'' @ tx_instances T @ ''</dt><dd>'' @ join_with '' <br> '' lines @ ''</dd>'' @
     ''</dl>''"

text \<open>The callback of \<open>getAutostackPreview\<close>; \<open>name\<close>, \<open>region\<close> and \<open>tags\<close> were read when it was asked.\<close>

definition previewed :: "as_texts \<Rightarrow> string \<Rightarrow> string \<Rightarrow> string \<Rightarrow> string \<Rightarrow> answer \<Rightarrow> autostack_page \<Rightarrow> autostack_page" where
  "previewed T base name region tags a p =
     (let filters = parse_filters tags
      in if fst a \<noteq> [] then modalError base (fst a) p
         else case snd a of
           JArr results \<Rightarrow> (case instance_lines results of
               Inl e \<Rightarrow> threw e p
             | Inr lines \<Rightarrow> (throb_stop p)\<lparr>as_confirm := Some (description T name region (filterOutput filters) lines,
                 \<lparr>od_name = name, od_region = region, od_filters = collapsedFilters filters\<rparr>)\<rparr>)
         | _ \<Rightarrow> threw TypeError p)"

definition confirmed :: "as_texts \<Rightarrow> api_opts \<Rightarrow> bool \<Rightarrow> autostack_page \<Rightarrow> autostack_page" where
  "confirmed T A result p = (case as_confirm p of
       None \<Rightarrow> p
     | Some (desc, d) \<Rightarrow>
         let p = p\<lparr>as_confirm := None\<rparr>
         in if result then ask (api_createAutostack A (JStr (od_name d)) (JStr (od_region d)) (js_filters (od_filters d)))
                (throb_start (tx_starts T) p)
            else p)"

definition default_metrics :: "jsval list \<Rightarrow> jsval list" where
  "default_metrics metrics =
     map (\<lambda>m. JObj [(''namespace'', JStr ''AWS/EC2''), (''metric'', m)])
       (filter (\<lambda>m. m = JStr ''CPUUtilization'' \<or> m = JStr ''DiskWriteBytes'' \<or> m = JStr ''NetworkIn'') metrics)"

text \<open>The callback of \<open>createAutostack\<close>. The metrics are filtered before \<open>results.uid\<close> is read.\<close>

definition created :: "string \<Rightarrow> api_opts \<Rightarrow> answer \<Rightarrow> autostack_page \<Rightarrow> autostack_page" where
  "created base A a p =
     (if fst a \<noteq> [] then modalError base (fst a) p
      else case as_metrics p of
        JArr metrics \<Rightarrow> (case snd a of
            JObj results \<Rightarrow> ask (api_createAutostackMetrics A (as_string (obj_get results ''uid'')) (JArr (default_metrics metrics))) p
          | _ \<Rightarrow> threw TypeError p)
      | _ \<Rightarrow> threw TypeError p)"

text \<open>\<open>add\<close> leaves a collection as it is that has a model with the same \<open>uid\<close>.\<close>

definition add_autostack :: "jsobj \<Rightarrow> jsobj list \<Rightarrow> jsobj list" where
  "add_autostack ob c = (if list_ex (\<lambda>o'. obj_get o' ''uid'' = obj_get ob ''uid'') c then c else c @ [ob])"

definition metrics_added :: "string \<Rightarrow> as_order \<Rightarrow> string \<Rightarrow> string \<Rightarrow> autostack_page \<Rightarrow> autostack_page" where
  "metrics_added base d uid err p =
     (if err \<noteq> [] then modalError base err p
      else p\<lparr>as_region := [], as_name := [], as_name_off := True, as_tags := [], as_tags_off := True, as_begin_off := True,
          as_autostacks := add_autostack [(''id'', JStr uid), (''filters'', js_filters (od_filters d)), (''name'', JStr (od_name d)),
              (''region'', JStr (od_region d)), (''uid'', JStr uid)] (as_autostacks p),
          as_fetches := Suc (as_fetches p)\<rparr>)"

definition instances_fetched :: "string \<Rightarrow> string \<Rightarrow> autostack_page \<Rightarrow> autostack_page" where
  "instances_fetched base err p = (if err \<noteq> [] then modalError base err p else throb_stop p)"

section \<open>Creating a group\<close>

lemma property_Cons: "obj_get ((k, v) # ob) k' = (if k' = k then v else obj_get ob k')"
  by (simp add: obj_get_def)

lemma add_autostack_has: "obj_get ob ''uid'' = u \<Longrightarrow> \<exists>g \<in> set (add_autostack ob c). obj_get g ''uid'' = u"
  by (auto simp: add_autostack_def list_ex_iff)

lemma add_autostack_keeps: "set c \<subseteq> set (add_autostack ob c)"
  by (auto simp: add_autostack_def)

text \<open>a group is created by three requests. From the click to the last answer, when every request succeeds, the page asks for the
  servers of exactly the region and the filter that were typed, creates the group with the same name, region and filter, gives it those
  of the three default metrics that the namespace has, adds it to the list, clears the form and removes the throbber. Edits of
  the form in between do not matter, and nothing is created without the confirmation.
\<close>

theorem group_created:
  fixes p :: autostack_page
  assumes lines: "instance_lines results = Inr lines" and metrics: "as_metrics p = JArr ms"
  shows "let name = as_name p; region = as_region p; filters = collapsedFilters (parse_filters (as_tags p));
      d = \<lparr>od_name = name, od_region = region, od_filters = filters\<rparr>;
      p1 = handleBegin T A p;
      p2 = previewed T base name region (as_tags p) ([], JArr results) p1;
      p3 = confirmed T A True (p2\<lparr>as_name := name', as_tags := tags'\<rparr>);
      p4 = created base A ([], JObj ob) p3;
      uid = as_string (obj_get ob ''uid'');
      p6 = instances_fetched base [] (metrics_added base d uid [] p4)
    in as_requests p6 = as_requests p @
        [api_getAutostackPreview A (JStr region) (js_filters filters),
         api_createAutostack A (JStr name) (JStr region) (js_filters filters),
         api_createAutostackMetrics A uid (JArr (default_metrics ms))] \<and>
      (\<exists>g \<in> set (as_autostacks p6). obj_get g ''uid'' = JStr uid) \<and>
      set (as_autostacks p) \<subseteq> set (as_autostacks p6) \<and>
      pg_throb p1 \<and> pg_throb p3 \<and> pg_throb p4 \<and> \<not> pg_throb p6 \<and> as_name p6 = [] \<and> as_tags p6 = [] \<and> as_begin_off p6 \<and>
      pg_dialogs p6 = pg_dialogs p \<and> pg_uncaught p6 = pg_uncaught p \<and>
      as_requests (confirmed T A False p2) = as_requests p @ [api_getAutostackPreview A (JStr region) (js_filters filters)]"
proof -
  have first: "handleBegin T A p = (throb_start (tx_find T) p)\<lparr>as_requests := as_requests p @
      [api_getAutostackPreview A (JStr (as_region p)) (js_filters (collapsedFilters (parse_filters (as_tags p))))]\<rparr>"
    by (simp add: handleBegin_def ask_def page_ops)
  show ?thesis
    using lines metrics
    by (simp add: first previewed_def confirmed_def created_def metrics_added_def instances_fetched_def ask_def page_ops
        add_autostack_keeps add_autostack_has property_Cons)
qed

theorem group_created_witness:
  "(let p = \<lparr>pg_throb = False, pg_throbbing = False, pg_text = [], pg_text_on = False, pg_onscroll = [], pg_kept = [],
        pg_dialogs = [], pg_went = [], pg_storage = [], pg_uncaught = [], as_name = ''web'', as_region = ''us-west-2'',
        as_tags = ''Name:*web* && Env:p'', as_name_off = False, as_tags_off = False, as_begin_off = False,
        as_metrics = JArr [JStr ''CPUUtilization'', JStr ''Other''], as_regions = [], as_confirm = None, as_requests = [],
        as_autostacks = [], as_fetches = 0\<rparr>;
      T = \<lparr>tx_find = ''f'', tx_starts = ''s'', tx_name = [], tx_region = [], tx_tags = [], tx_instances = [],
        tx_default_region = [], tx_welcome = []\<rparr>;
      q = handleBegin T local_api p;
      r = previewed T [] (as_name p) (as_region p) (as_tags p) ([], JArr [JObj [(''tags'', JObj []), (''instanceID'', JStr ''i-1'')]]) q
    in as_requests (confirmed T local_api False r) =
        [api_getAutostackPreview local_api (JStr ''us-west-2'')
          (JObj [(''tag:Name'', JArr [JStr ''*web*'']), (''tag:Env'', JArr [JStr ''p''])])])"
proof -
  have f: "js_filters (collapsedFilters (parse_filters ''Name:*web* && Env:p'')) =
      JObj [(''tag:Name'', JArr [JStr ''*web*'']), (''tag:Env'', JArr [JStr ''p''])]" by code_simp
  have l: "instance_lines [JObj [(''tags'', JObj []), (''instanceID'', JStr ''i-1'')]] = Inr [''i-1'']" by code_simp
  let ?p = "\<lparr>pg_throb = False, pg_throbbing = False, pg_text = [], pg_text_on = False, pg_onscroll = [], pg_kept = [],
        pg_dialogs = [], pg_went = [], pg_storage = [], pg_uncaught = [], as_name = ''web'', as_region = ''us-west-2'',
        as_tags = ''Name:*web* && Env:p'', as_name_off = False, as_tags_off = False, as_begin_off = False,
        as_metrics = JArr [JStr ''CPUUtilization'', JStr ''Other''], as_regions = [], as_confirm = None, as_requests = [],
        as_autostacks = [], as_fetches = 0\<rparr>"
  have m: "as_metrics ?p = JArr [JStr ''CPUUtilization'', JStr ''Other'']" by simp
  note g = group_created [OF l m]
  from g show ?thesis unfolding Let_def by (simp add: f)
qed

text \<open>what goes wrong while a group is created. An error that is reported ends the chain: the throbber is gone, and form,
  confirmation, list and requests are as they were, also when the group already exists on the server and only its metrics could not be
  added. An answer that is neither an error nor the expected value (a failure without a body gives one) throws, and leaves the
  throbber over the page. A group created before the metrics of the namespace have arrived gets none.
\<close>

theorem group_errors:
  fixes p :: autostack_page
  assumes err: "err \<noteq> []"
  shows "(\<forall>q \<in> {previewed T base name region tags (err, v) p, created base A (err, v) p, metrics_added base d uid err p,
      instances_fetched base err p, details_arrived base (err, v) p}. page.more q = page.more p \<and> \<not> pg_throb q) \<and>
    (\<forall>q \<in> {previewed T base name region tags ([], JUndef) p, created base A ([], JUndef) p}.
      page.more q = page.more p \<and> pg_throb q = pg_throb p \<and> pg_uncaught q = pg_uncaught p @ [TypeError]) \<and>
    (as_metrics p = JArr [] \<longrightarrow> as_requests (created base A ([], JObj ob) p) =
      as_requests p @ [api_createAutostackMetrics A (as_string (obj_get ob ''uid'')) (JArr [])])"
  using err by (auto simp: previewed_def created_def metrics_added_def instances_fetched_def details_arrived_def page_simps
      ask_def default_metrics_def Let_def split: jsval.split)

end
