(* ===== verification/Web_Setup.thy ===== *)
theory Web_Setup
  imports Web_Autostack "HOL-Library.Multiset"
begin

text \<open>
  The pages of the setup, \<open>welcome.js\<close>, \<open>register.js\<close>, \<open>auth.js\<close>, \<open>confirm.js\<close> and \<open>complete.js\<close>, and
  \<open>notify.js\<close>, under \<open>htm.it/static/js/program/views/pages\<close>: where each of them leads, what it saves on the server, and how
  the parameters of the address carry the kind of setup from page to page.
\<close>

section \<open>The pages\<close>

text \<open>The addresses and tags of the site, and the texts of the throbber.\<close>

record paths =
  pt_welcome :: string
  pt_register :: string
  pt_auth :: string
  pt_confirm :: string
  pt_complete :: string
  pt_manage :: string
  pt_setup :: string
  pt_expert :: string
  pt_region :: string

text \<open>
  \<open>window.location.search\<close>, the key of the client, the requests, whether the button \<open>next\<close> is disabled, the choice of
  \<open>register.js\<close>, \<open>previousKey\<close> of \<open>auth.js\<close> and which of its fields are marked, and the callback of an open warning.
\<close>

record setup_page = page +
  st_search :: string
  st_key :: string
  st_requests :: "http_request list"
  st_next_off :: bool
  st_checked :: bool
  st_previous :: string
  st_bad_key :: bool
  st_bad_secret :: bool
  st_then :: "string option"

definition request :: "http_request \<Rightarrow> setup_page \<Rightarrow> setup_page" where
  "request r p = p\<lparr>st_requests := st_requests p @ [r]\<rparr>"

definition authorized :: "setup_page \<Rightarrow> bool" where
  "authorized p = isAuthorized (pg_storage p)"

text \<open>The settings an answer brings, \<open>None\<close> for a value that is not true. \<open>optin\<close> is a text.\<close>

definition registered :: "jsobj option \<Rightarrow> bool" where
  "registered settings = (case settings of None \<Rightarrow> False | Some s \<Rightarrow> om_has s ''optin'' \<and> obj_get s ''optin'' \<noteq> JStr [])"

subsection \<open>Welcome\<close>

definition welcome_initialize :: "string \<Rightarrow> paths \<Rightarrow> api_opts \<Rightarrow> setup_page \<Rightarrow> setup_page" where
  "welcome_initialize base P A p =
     (if authorized p then
        if \<not> isSetupFlow (st_search p) then go base (pt_manage P) p else request (api_getRegions A) p
      else request (api_getSettings A (Some ''usertrack'')) p)"

definition welcome_settings :: "string \<Rightarrow> paths \<Rightarrow> api_opts \<Rightarrow> string \<times> jsobj option \<Rightarrow> setup_page \<Rightarrow> setup_page" where
  "welcome_settings base P A a p =
     (if fst a \<noteq> [] then modalError base (fst a) p
      else if \<not> isSetupFlow (st_search p) \<and> registered (snd a) then go base (pt_auth P) p
      else request (api_getRegions A) p)"

definition welcome_handleNext :: "string \<Rightarrow> paths \<Rightarrow> bool \<Rightarrow> string \<Rightarrow> setup_page \<Rightarrow> setup_page" where
  "welcome_handleNext base P expert region p =
     (if expert then go base (pt_register P @ pt_setup P @ pt_expert P) p
      else go base (pt_register P @ pt_setup P @ pt_region P @ region) p)"

subsection \<open>Register\<close>

definition register_initialize :: "api_opts \<Rightarrow> setup_page \<Rightarrow> setup_page" where
  "register_initialize A p = request (api_getSettings A (Some ''usertrack'')) (p\<lparr>st_checked := True\<rparr>)"

definition register_settings :: "string \<Rightarrow> paths \<Rightarrow> string \<times> jsobj option \<Rightarrow> setup_page \<Rightarrow> setup_page" where
  "register_settings base P a p =
     (if fst a \<noteq> [] then modalError base (fst a) p
      else if \<not> authorized p \<and> registered (snd a) then go base (pt_auth P) p
      else case snd a of
        None \<Rightarrow> threw TypeError p
      | Some s \<Rightarrow> p\<lparr>st_checked := (obj_get s ''optin'' = JStr [] \<or> obj_get s ''optin'' = JStr ''true'')\<rparr>)"

definition handleAgreeToggle :: "bool \<Rightarrow> setup_page \<Rightarrow> setup_page" where
  "handleAgreeToggle agreed p = p\<lparr>st_next_off := \<not> agreed\<rparr>"

definition register_handleBack :: "string \<Rightarrow> paths \<Rightarrow> setup_page \<Rightarrow> setup_page" where
  "register_handleBack base P p =
     go base (if isSetupFlow (st_search p) then pt_welcome P @ st_search p else pt_manage P) p"

text \<open>The data of the user, and what is sent to the form service: without the choice, with the product.\<close>

definition user_settings :: "string \<Rightarrow> string \<Rightarrow> string \<Rightarrow> bool \<Rightarrow> jsobj" where
  "user_settings name company email usage = [(''name'', JStr name), (''company'', JStr company), (''email'', JStr email),
     (''optin'', JStr (if usage then ''true'' else ''false''))]"

definition wufoo_settings :: "jsobj \<Rightarrow> string \<Rightarrow> string \<Rightarrow> string \<Rightarrow> jsobj" where
  "wufoo_settings settings edition version build =
     om_delete ''optin'' (om_set ''build'' (JStr build) (om_set ''version'' (JStr version) (om_set ''edition'' (JStr edition) settings)))"

definition register_handleNext :: "string \<Rightarrow> api_opts \<Rightarrow> jsobj \<Rightarrow> setup_page \<Rightarrow> setup_page" where
  "register_handleNext save A settings p =
     request (api_putSettings A (JObj settings) (Some ''usertrack'')) (throb_start save p)"

definition register_saved :: "string \<Rightarrow> api_opts \<Rightarrow> jsobj \<Rightarrow> string \<Rightarrow> setup_page \<Rightarrow> setup_page" where
  "register_saved base A wufoo err p =
     (if err \<noteq> [] then modalError base err p else request (api_sendWufooForm A (JObj wufoo)) p)"

definition register_sent :: "string \<Rightarrow> paths \<Rightarrow> string \<Rightarrow> setup_page \<Rightarrow> setup_page" where
  "register_sent base P err p =
     (if err \<noteq> [] then modalError base err p
      else go base (if isSetupFlow (st_search p) then pt_auth P @ st_search p else pt_manage P) p)"

subsection \<open>Credentials\<close>

definition auth_initialize :: "api_opts \<Rightarrow> setup_page \<Rightarrow> setup_page" where
  "auth_initialize A p = (if authorized p then request (api_getSettings A (Some ''aws'')) p else p\<lparr>st_previous := []\<rparr>)"

definition auth_settings :: "string \<Rightarrow> string \<times> jsobj \<Rightarrow> setup_page \<Rightarrow> setup_page" where
  "auth_settings base a p =
     (if fst a \<noteq> [] then modalError base (fst a) p
      else p\<lparr>st_previous := as_string (obj_get (snd a) ''aws_access_key_id'')\<rparr>)"

definition auth_handleBack :: "string \<Rightarrow> paths \<Rightarrow> setup_page \<Rightarrow> setup_page" where
  "auth_handleBack base P p = go base (pt_register P @ st_search p) p"

definition auth_destination :: "paths \<Rightarrow> setup_page \<Rightarrow> string" where
  "auth_destination P p = (if isSetupFlow (st_search p) then if isExpert (st_search p) then pt_complete P else pt_confirm P
     else pt_manage P) @ st_search p"

definition credentials :: "string \<Rightarrow> string \<Rightarrow> jsobj" where
  "credentials key secret = [(''aws_access_key_id'', JStr key), (''aws_secret_access_key'', JStr secret)]"

definition auth_handleFormSubmit :: "string \<Rightarrow> string \<Rightarrow> paths \<Rightarrow> api_opts \<Rightarrow> jsobj \<Rightarrow> setup_page \<Rightarrow> setup_page" where
  "auth_handleFormSubmit base msg P A settings p =
     (let p = p\<lparr>st_bad_key := False, st_bad_secret := False\<rparr>
      in if st_previous p \<noteq> [] then go base (auth_destination P p) p
         else request (api_auth A (JObj settings)) (throb_start msg p))"

text \<open>The answer has the key as a text, or there is none and reading it throws. The key is in force before the credentials are saved.\<close>

definition authed :: "string \<Rightarrow> api_opts \<Rightarrow> jsobj \<Rightarrow> string \<times> string option \<Rightarrow> setup_page \<Rightarrow> setup_page" where
  "authed base A settings a p =
     (if fst a \<noteq> [] then
        modalError base (fst a)
          (if str_contains (fst a) ''AWS Secret Access Key'' then p\<lparr>st_bad_secret := True\<rparr>
           else if str_contains (fst a) ''provided access credentials'' then p\<lparr>st_bad_key := True, st_bad_secret := True\<rparr>
           else p)
      else case snd a of
        None \<Rightarrow> threw TypeError p
      | Some key \<Rightarrow> request (api_putSettings A (JObj settings) (Some ''aws''))
          (p\<lparr>pg_storage := snd (store_set ''apiKey'' (JStr key) (pg_storage p)), st_key := key\<rparr>))"

definition auth_saved :: "string \<Rightarrow> paths \<Rightarrow> string \<Rightarrow> setup_page \<Rightarrow> setup_page" where
  "auth_saved base P err p = (if err \<noteq> [] then modalError base err p else go base (auth_destination P p) p)"

subsection \<open>Confirmation\<close>

text \<open>The page asks for suggestions and is then filled; the button is enabled by a suggestion and follows the checkboxes.\<close>

definition confirm_initialize :: "string \<Rightarrow> api_opts \<Rightarrow> setup_page \<Rightarrow> setup_page" where
  "confirm_initialize searching A p = request (api_getInstanceSuggestions A (getUrlParam (st_search p) ''region'')) (throb_start searching p)"

definition suggestions_arrived :: "string \<Rightarrow> string \<times> nat \<Rightarrow> setup_page \<Rightarrow> setup_page" where
  "suggestions_arrived base a p =
     (if fst a \<noteq> [] then modalError base (fst a) p
      else let p = throb_stop p in if snd a > 0 then p\<lparr>st_next_off := False\<rparr> else p)"

definition suggestion_clicked :: "bool \<Rightarrow> nat \<Rightarrow> setup_page \<Rightarrow> setup_page" where
  "suggestion_clicked checked n p =
     (if \<not> checked then (if n = 0 then p\<lparr>st_next_off := True\<rparr> else p) else p\<lparr>st_next_off := False\<rparr>)"

definition confirm_handleBack :: "string \<Rightarrow> paths \<Rightarrow> setup_page \<Rightarrow> setup_page" where
  "confirm_handleBack base P p = go base (pt_auth P @ st_search p) p"

text \<open>\<open>substring(0, lastIndexOf('/'))\<close> and what follows that slash; \<open>substring\<close> and \<open>indexOf\<close> at the first one.\<close>

fun before_last_slash :: "string \<Rightarrow> string" where
  "before_last_slash [] = []"
| "before_last_slash (c # s) = (if CHR ''/'' \<in> set s then c # before_last_slash s else [])"

definition before_slash :: "string \<Rightarrow> string" where
  "before_slash s = (if CHR ''/'' \<in> set s then takeWhile (\<lambda>c. c \<noteq> CHR ''/'') s else [])"

definition after_slash :: "string \<Rightarrow> string" where
  "after_slash s = (if CHR ''/'' \<in> set s then tl (dropWhile (\<lambda>c. c \<noteq> CHR ''/'') s) else s)"

fun group_by :: "('a \<Rightarrow> 'k) \<Rightarrow> 'a list \<Rightarrow> ('k, 'a list) omap \<Rightarrow> ('k, 'a list) omap" where
  "group_by f [] m = m"
| "group_by f (x # xs) m = group_by f xs (om_set (f x) ((case om_get m (f x) of None \<Rightarrow> [] | Some ys \<Rightarrow> ys) @ [x]) m)"

definition select_request :: "api_opts \<Rightarrow> string \<Rightarrow> string \<Rightarrow> http_request" where
  "select_request A key inst = api_selectInstances A (before_slash key) (after_slash key) (JArr [JStr inst])"

definition confirm_requests :: "api_opts \<Rightarrow> string list \<Rightarrow> http_request list" where
  "confirm_requests A checked =
     concat (map (\<lambda>(key, vals). map (\<lambda>v. select_request A key (after_last_slash v)) vals) (group_by before_last_slash checked []))"

definition confirm_handleNext :: "string \<Rightarrow> api_opts \<Rightarrow> string list \<Rightarrow> setup_page \<Rightarrow> setup_page" where
  "confirm_handleNext starts A checked p = (throb_start starts p)\<lparr>st_requests := st_requests p @ confirm_requests A checked\<rparr>"

text \<open>\<open>/Server limit exceeded;.*edition=(\w+);.+limit=(\d+)\./\<close>\<close>

definition is_word :: "char \<Rightarrow> bool" where
  "is_word c = (let n = (of_char c :: nat) in is_digit c \<or> (65 \<le> n \<and> n \<le> 90) \<or> (97 \<le> n \<and> n \<le> 122) \<or> n = 95)"

definition edition_at :: "string \<Rightarrow> (string \<times> string) option" where
  "edition_at s =
     (if take 8 s = ''edition='' then
        let w = takeWhile is_word (drop 8 s)
        in case dropWhile is_word (drop 8 s) of
             a # b # r \<Rightarrow> if w \<noteq> [] \<and> a = CHR '';'' \<and> \<not> line_end b then map_option (Pair w) (last_limit r) else None
           | _ \<Rightarrow> None
      else None)"

fun last_edition :: "string \<Rightarrow> (string \<times> string) option" where
  "last_edition [] = None"
| "last_edition (c # s) = (case (if line_end c then None else last_edition s) of
       Some d \<Rightarrow> Some d
     | None \<Rightarrow> edition_at (c # s))"

fun edition_quota :: "string \<Rightarrow> (string \<times> string) option" where
  "edition_quota [] = None"
| "edition_quota (c # s) = (case (if take (length limit_exceeded) (c # s) = limit_exceeded
         then last_edition (drop (length limit_exceeded) (c # s)) else None) of
       Some d \<Rightarrow> Some d
     | None \<Rightarrow> edition_quota s)"

text \<open>
  All requests succeed, or the first that fails: its result, a text, empty where there is none. The message of an edition is a
  parameter, \<open>None\<close> where the site has none.
\<close>

definition confirm_done :: "string \<Rightarrow> paths \<Rightarrow> setup_page \<Rightarrow> setup_page" where
  "confirm_done base P p = go base (pt_complete P @ st_search p) p"

definition confirm_failed :: "paths \<Rightarrow> (string \<Rightarrow> string \<Rightarrow> string option) \<Rightarrow> string \<Rightarrow> setup_page \<Rightarrow> setup_page" where
  "confirm_failed P messages result p =
     (let p = throb_stop p
      in if result = [] then p
         else case edition_quota result of
           None \<Rightarrow> threw TypeError p
         | Some (edition, capacity) \<Rightarrow> (case messages (toLowerCase edition) capacity of
               None \<Rightarrow> threw TypeError p
             | Some m \<Rightarrow> (modalWarning ''Sorry!'' m p)\<lparr>st_then := Some (pt_complete P @ st_search p)\<rparr>))"

definition warning_closed :: "string \<Rightarrow> setup_page \<Rightarrow> setup_page" where
  "warning_closed base p = (case st_then p of None \<Rightarrow> p | Some d \<Rightarrow> go base d (p\<lparr>st_then := None\<rparr>))"

subsection \<open>Completion and notifications\<close>

definition complete_initialize :: "string \<Rightarrow> paths \<Rightarrow> setup_page \<Rightarrow> setup_page" where
  "complete_initialize base P p = (if \<not> authorized p then go base (pt_welcome P) p else p)"

definition complete_handleNext :: "string \<Rightarrow> paths \<Rightarrow> setup_page \<Rightarrow> setup_page" where
  "complete_handleNext base P p = go base (pt_manage P) p"

definition notify_handleFormSubmit :: "api_opts \<Rightarrow> string \<Rightarrow> setup_page \<Rightarrow> setup_page" where
  "notify_handleFormSubmit A sender p = request (api_putSettings A (JObj [(''sender'', JStr sender)]) (Some ''notifications'')) p"

definition notify_saved :: "string \<Rightarrow> api_opts \<Rightarrow> string \<Rightarrow> string \<Rightarrow> setup_page \<Rightarrow> setup_page" where
  "notify_saved base A region err p =
     (if err \<noteq> [] then modalError base err p else request (api_putSettings A (JObj [(''default_region'', JStr region)]) (Some ''aws'')) p)"

definition notify_region_saved :: "string \<Rightarrow> paths \<Rightarrow> string \<Rightarrow> setup_page \<Rightarrow> setup_page" where
  "notify_region_saved base P err p = (if err \<noteq> [] then modalError base err p else go base (pt_manage P) p)"

section \<open>The way through the setup\<close>

definition site_paths :: "paths \<Rightarrow> bool" where
  "site_paths P = (pt_setup P = ''?setup=1'' \<and> pt_expert P = ''&expert=1'' \<and> pt_region P = ''&region='')"

definition novice :: "string \<Rightarrow> string" where
  "novice region = ''?setup=1&region='' @ region"

definition expert :: string where
  "expert = ''?setup=1&expert=1''"

lemma split_on_no: "c \<notin> set s \<Longrightarrow> split_on c s = [s]"
  by (induction s) auto

lemma novice_params:
  assumes "CHR ''&'' \<notin> set region"
  shows "isSetupFlow (novice region)" "\<not> isExpert (novice region)"
proof -
  have "split_on (CHR ''&'') (''region='' @ region) = [''region='' @ region]" using assms by (intro split_on_no) auto
  then have a: "split_on (CHR ''&'') (''setup=1&region='' @ region) = [''setup=1'', ''region='' @ region]" by simp
  obtain v vs where b: "split_on (CHR ''='') (''region='' @ region) = ''region'' # v # vs"
    by (cases "split_on (CHR ''='') region") (auto dest: arg_cong [where f = length] split: list.splits)
  show "isSetupFlow (novice region)"
    unfolding isSetupFlow_def param_set_def getUrlParam_def novice_def using a by simp
  show "\<not> isExpert (novice region)"
    unfolding isExpert_def param_set_def getUrlParam_def novice_def using a b by simp
qed

lemma expert_params: "isSetupFlow expert" "isExpert expert"
  unfolding expert_def by code_simp+

lemma stored_key: "k \<noteq> [] \<Longrightarrow> isAuthorized (snd (store_set ''apiKey'' (JStr k) st))"
  by (simp add: isAuthorized_def store_set_def store_get_def om_get_set truthy_def json_parse_def is_string_def)

text \<open>the way through the setup. From the welcome page a novice is led over registration, credentials and confirmation, an expert over
  registration and credentials, to the last page, and the address keeps the kind of setup and the region all the way. Once the
  credentials are accepted the user is logged in, so that the last page does not send them back; without the setup parameters
  credentials lead to the list of instances.
\<close>

theorem setup_leads_on:
  fixes p :: setup_page
  assumes P: "site_paths P" and region: "CHR ''&'' \<notin> set region" and key: "key \<noteq> []"
  shows "let leads = (\<lambda>q target. pg_went q = pg_went p @ [linkTo base target]) in
    leads (welcome_handleNext base P False region p) (pt_register P @ novice region) \<and>
    leads (welcome_handleNext base P True region p) (pt_register P @ expert) \<and>
    (\<forall>search \<in> {novice region, expert}. st_search p = search \<longrightarrow>
      leads (register_sent base P [] p) (pt_auth P @ search) \<and>
      leads (auth_saved base P [] p) ((if search = expert then pt_complete P else pt_confirm P) @ search) \<and>
      leads (confirm_done base P p) (pt_complete P @ search)) \<and>
    authorized (authed base A settings ([], Some key) p) \<and>
    complete_initialize base P (authed base A settings ([], Some key) p) = authed base A settings ([], Some key) p \<and>
    (\<not> isSetupFlow (st_search p) \<longrightarrow> leads (auth_saved base P [] p) (pt_manage P @ st_search p))"
proof -
  have ne: "novice region \<noteq> expert" using novice_params [OF region] expert_params by auto
  have went: "pg_went (go base target q) = pg_went q @ [linkTo base target]" for target and q :: setup_page by (simp add: go_def)
  have auth: "authorized (authed base A settings ([], Some key) p)"
    by (simp add: authed_def authorized_def request_def stored_key [OF key])
  have nov: "welcome_handleNext base P False region p = go base (pt_register P @ novice region) p"
    "welcome_handleNext base P True region p = go base (pt_register P @ expert) p"
    using P by (simp_all add: welcome_handleNext_def site_paths_def novice_def expert_def)
  have n: "register_sent base P [] p = go base (pt_auth P @ novice region) p" "auth_saved base P [] p = go base (pt_confirm P @ novice region) p"
    if "st_search p = novice region"
    using that novice_params [OF region] by (simp_all add: register_sent_def auth_saved_def auth_destination_def)
  have e: "register_sent base P [] p = go base (pt_auth P @ expert) p" "auth_saved base P [] p = go base (pt_complete P @ expert) p"
    if "st_search p = expert"
    using that expert_params by (simp_all add: register_sent_def auth_saved_def auth_destination_def)
  have m: "auth_saved base P [] p = go base (pt_manage P @ st_search p) p" if "\<not> isSetupFlow (st_search p)"
    using that by (simp add: auth_saved_def auth_destination_def)
  have c: "complete_initialize base P (authed base A settings ([], Some key) p) = authed base A settings ([], Some key) p"
    using auth by (simp add: complete_initialize_def)
  show ?thesis unfolding Let_def nov c using auth ne n e m by (auto simp: went confirm_done_def)
qed

text \<open>going back loses the setup. A user who has registered but not given credentials yet, and goes back from the page of the
  credentials, is sent on from the registration to the credentials without the parameters of the address; credentials accepted there
  lead to the list of instances, and the confirmation is skipped.
\<close>

theorem back_loses_setup:
  fixes p :: setup_page
  assumes "\<not> authorized p" "registered (Some s)" "st_search p = novice region"
  shows "let back = auth_handleBack base P p; again = register_settings base P ([], Some s) back
    in pg_went again = pg_went p @ [linkTo base (pt_register P @ novice region), linkTo base (pt_auth P)] \<and>
      pg_went (auth_saved base P [] (again\<lparr>st_search := []\<rparr>)) = pg_went again @ [linkTo base (pt_manage P)]"
proof -
  have "\<not> isSetupFlow []" by code_simp
  with assms show ?thesis
    by (simp add: auth_handleBack_def register_settings_def authorized_def auth_saved_def auth_destination_def go_def)
qed

section \<open>What is confirmed\<close>

lemma group_by_mset:
  "om_ok m \<Longrightarrow> mset (concat (map (\<lambda>(k, ys). map (Pair k) ys) (group_by f xs m))) =
     mset (concat (map (\<lambda>(k, ys). map (Pair k) ys) m)) + mset (map (\<lambda>x. (f x, x)) xs)"
proof (induction xs arbitrary: m)
  case (Cons x xs)
  have upd: "mset (concat (map (\<lambda>(k, ys). map (Pair k) ys) (om_set k (case om_get m k of None \<Rightarrow> [x] | Some ys \<Rightarrow> ys @ [x]) m))) =
      add_mset (k, x) (mset (concat (map (\<lambda>(k, ys). map (Pair k) ys) m)))" if "om_ok m" for m k
    using that
  proof (induction m)
    case (Cons q m)
    obtain j ys where q: "q = (j, ys)" by (cases q)
    from Cons q have "om_ok m" by (simp add: om_ok_def)
    with Cons q show ?case by (auto simp: union_assoc)
  qed simp
  have "(case om_get m (f x) of None \<Rightarrow> [] | Some ys \<Rightarrow> ys) @ [x] = (case om_get m (f x) of None \<Rightarrow> [x] | Some ys \<Rightarrow> ys @ [x])"
    by (simp split: option.split)
  with Cons upd [of m "f x"] show ?case by simp
qed simp

lemma group_by_keys: "(k, ys) \<in> set (group_by f xs []) \<Longrightarrow> y \<in> set ys \<Longrightarrow> f y = k"
proof -
  assume "(k, ys) \<in> set (group_by f xs [])" "y \<in> set ys"
  then have "(k, y) \<in> set (concat (map (\<lambda>(k, ys). map (Pair k) ys) (group_by f xs [])))" by force
  then have "(k, y) \<in># mset (concat (map (\<lambda>(k, ys). map (Pair k) ys) (group_by f xs [])))" by (simp only: set_mset_mset)
  then show "f y = k" by (simp add: group_by_mset) auto
qed

lemma last_parts:
  "CHR ''/'' \<notin> set inst \<Longrightarrow> before_last_slash (s @ CHR ''/'' # inst) = s"
  "CHR ''/'' \<notin> set inst \<Longrightarrow> after_last_slash (s @ CHR ''/'' # inst) = inst"
proof -
  assume n: "CHR ''/'' \<notin> set inst"
  show "before_last_slash (s @ CHR ''/'' # inst) = s" using n by (induction s) auto
  have "last (split_on (CHR ''/'') (s @ CHR ''/'' # inst)) = inst \<and> 2 \<le> length (split_on (CHR ''/'') (s @ CHR ''/'' # inst))"
    using n split_on_no [OF n] by (induction s) (auto split: list.split)
  then show "after_last_slash (s @ CHR ''/'' # inst) = inst" by (simp add: after_last_slash_def)
qed

lemma first_parts:
  "CHR ''/'' \<notin> set region \<Longrightarrow> before_slash (region @ CHR ''/'' # ns) = region \<and> after_slash (region @ CHR ''/'' # ns) = ns"
  by (induction region) (auto simp: before_slash_def after_slash_def)

text \<open>what is confirmed is monitored. Grouping the checked instances by namespace loses none and repeats none: there is exactly one
  request for every checked instance, with its own region, namespace and identifier, whatever slashes the namespace has; and the
  page goes on only when all have succeeded. A failure without a text is not shown at all, and one that is not about the size of
  the server throws.
\<close>

theorem confirmed_are_selected:
  fixes p :: setup_page
  shows "mset (confirm_requests A checked) = mset (map (\<lambda>v. select_request A (before_last_slash v) (after_last_slash v)) checked) \<and>
    (\<forall>region ns inst. CHR ''/'' \<notin> set region \<longrightarrow> CHR ''/'' \<notin> set inst \<longrightarrow>
       select_request A (before_last_slash (region @ ''/'' @ ns @ ''/'' @ inst)) (after_last_slash (region @ ''/'' @ ns @ ''/'' @ inst)) =
       api_selectInstances A region ns (JArr [JStr inst])) \<and>
    confirm_failed P messages [] p = throb_stop p \<and>
    (result \<noteq> [] \<and> edition_quota result = None \<longrightarrow> confirm_failed P messages result p = threw TypeError (throb_stop p))"
proof -
  let ?g = "group_by before_last_slash checked []" and ?r = "\<lambda>(k, v). select_request A k (after_last_slash v)"
  have "confirm_requests A checked = map ?r (concat (map (\<lambda>(k, ys). map (Pair k) ys) ?g))"
    unfolding confirm_requests_def map_concat map_map by (intro arg_cong [where f = concat] map_cong) auto
  then have "mset (confirm_requests A checked) = image_mset ?r (mset (concat (map (\<lambda>(k, ys). map (Pair k) ys) ?g)))" by simp
  also have "\<dots> = image_mset ?r (mset (map (\<lambda>v. (before_last_slash v, v)) checked))" by (subst group_by_mset) simp_all
  also have "\<dots> = mset (map (\<lambda>v. select_request A (before_last_slash v) (after_last_slash v)) checked)"
    by (simp add: image_mset.compositionality comp_def)
  finally have "mset (confirm_requests A checked) = mset (map (\<lambda>v. select_request A (before_last_slash v) (after_last_slash v)) checked)" .
  moreover have "select_request A (before_last_slash (region @ ''/'' @ ns @ ''/'' @ inst)) (after_last_slash (region @ ''/'' @ ns @ ''/'' @ inst)) =
      api_selectInstances A region ns (JArr [JStr inst])" if "CHR ''/'' \<notin> set region" "CHR ''/'' \<notin> set inst" for region ns inst
    using last_parts [OF that(2), of "region @ ''/'' @ ns"] first_parts [OF that(1), of ns] by (simp add: select_request_def)
  ultimately show ?thesis by (auto simp: confirm_failed_def Let_def)
qed

section \<open>The progress of the setup\<close>

text \<open>the bar of progress. On step \<open>k\<close> of \<open>n\<close> steps the bar shows at least one and at most a hundred percent, grows with the
  step, and is full exactly on the last one.
\<close>

theorem progress_of_setup:
  assumes "1 < n" "1 \<le> k" "k \<le> n"
  shows "1 \<le> bar_width (setup_percent k n) \<and> bar_width (setup_percent k n) \<le> 100 \<and>
    (setup_percent k n = 100 \<longleftrightarrow> k = n) \<and> (j \<le> k \<longrightarrow> setup_percent j n \<le> setup_percent k n)"
proof -
  have le: "setup_percent k n \<le> 100"
  proof -
    have "100 * (k - 1) div (n - 1) \<le> 100 * (n - 1) div (n - 1)" by (rule zdiv_mono1) (use assms in auto)
    also have "100 * (n - 1) div (n - 1) = 100" by (rule nonzero_mult_div_cancel_right) (use assms in simp)
    finally show ?thesis by (simp only: setup_percent_def)
  qed
  have ge: "0 \<le> setup_percent k n" unfolding setup_percent_def using assms by (simp add: pos_imp_zdiv_nonneg_iff)
  have full: "setup_percent k n = 100 \<longleftrightarrow> k = n"
  proof
    assume "setup_percent k n = 100"
    then have "100 * (n - 1) \<le> 100 * (k - 1)"
      unfolding setup_percent_def using assms by (metis diff_gt_0_iff_gt div_mult_mod_eq le_add_same_cancel1 mult.commute pos_mod_sign)
    with assms show "k = n" by simp
  next
    assume "k = n"
    then have "setup_percent k n = 100 * (n - 1) div (n - 1)" by (simp only: setup_percent_def)
    also have "\<dots> = 100" by (rule nonzero_mult_div_cancel_right) (use assms in simp)
    finally show "setup_percent k n = 100" .
  qed
  have mono: "setup_percent j n \<le> setup_percent k n" if "j \<le> k"
    unfolding setup_percent_def by (rule zdiv_mono1) (use assms that in auto)
  from le ge full mono show ?thesis by (auto simp: bar_width_def)
qed

end
