(* ===== verification/Web_Instances.thy ===== *)
theory Web_Instances
  imports Web_Autostack
begin

text \<open>
  The lists of monitored instances: \<open>panels/instanceList.js\<close> with its deletions, \<open>panels/instanceSelect.js\<close> and
  \<open>pages/instances-import.js\<close> that start monitoring what the user chose, and \<open>pages/manage-custom-metrics.js\<close>, all under
  \<open>htm.it/static/js/program/views\<close>. The first three send their requests one by one and stop at the first error; the last sends
  all at once and counts the answers.
\<close>

section \<open>One request after the other\<close>

text \<open>
  The answers of the server to the requests of a loop, in order. \<open>answered i err\<close> is the callback of request \<open>i\<close>,
  which starts the next request itself; after an error no further request is there to be answered.
\<close>

fun feed :: "(nat \<Rightarrow> string \<Rightarrow> 'p \<Rightarrow> 'p) \<Rightarrow> nat \<Rightarrow> string list \<Rightarrow> 'p \<Rightarrow> 'p" where
  "feed answered i [] p = p"
| "feed answered i (e # es) p = (let p = answered i e p in if e \<noteq> [] then p else feed answered (Suc i) es p)"

definition first_failure :: "string list \<Rightarrow> nat" where
  "first_failure es = length (takeWhile (\<lambda>e. e = []) es)"

text \<open>
  What the three loops promise. \<open>ready i p\<close> says that the items from \<open>i\<close> on can be requested; starting request \<open>i\<close> sends it and
  keeps the others possible, a success starts the next one and an error sends nothing.
\<close>

locale one_by_one =
  fixes start :: "nat \<Rightarrow> 'p \<Rightarrow> 'p"
    and answered :: "nat \<Rightarrow> string \<Rightarrow> 'p \<Rightarrow> 'p"
    and sent :: "'p \<Rightarrow> 'r list"
    and request :: "nat \<Rightarrow> 'r"
    and n :: nat
    and ready :: "nat \<Rightarrow> 'p \<Rightarrow> bool"
  assumes sends: "ready i p \<Longrightarrow> i < n \<Longrightarrow> sent (start i p) = sent p @ [request i] \<and> ready (Suc i) (start i p)"
    and finishes: "sent (start n p) = sent p"
    and succeeds: "ready (Suc i) p \<Longrightarrow> i < n \<Longrightarrow> \<exists>q. answered i [] p = start (Suc i) q \<and> sent q = sent p \<and> ready (Suc i) q"
    and fails: "e \<noteq> [] \<Longrightarrow> sent (answered i e p) = sent p"
begin

lemma feed_sends:
  "ready (Suc i) p \<Longrightarrow> i < n \<Longrightarrow> length es = n - i \<Longrightarrow>
   sent (feed answered i es p) = sent p @ map request [Suc i ..< min n (Suc i + first_failure es)]"
proof (induction es arbitrary: i p)
  case (Cons e es)
  show ?case
  proof (cases "e = []")
    case False
    with fails [of e i p] show ?thesis by (simp add: first_failure_def)
  next
    case True
    from succeeds [OF Cons.prems(1,2)] obtain q
      where q: "answered i [] p = start (Suc i) q" "sent q = sent p" "ready (Suc i) q" by blast
    show ?thesis
    proof (cases "Suc i < n")
      case False
      with Cons.prems(2) have "n = Suc i" by simp
      moreover from this Cons.prems(3) have "es = []" by simp
      ultimately have "Suc i = n" "es = []" by simp_all
      with True q finishes [of q] show ?thesis by (simp add: first_failure_def)
    next
      case Suc: True
      from sends [OF q(3) Suc] have s: "sent (start (Suc i) q) = sent p @ [request (Suc i)]" "ready (Suc (Suc i)) (start (Suc i) q)"
        using q by auto
      have "sent (feed answered (Suc i) es (start (Suc i) q)) =
          sent p @ request (Suc i) # map request [Suc (Suc i) ..< min n (Suc (Suc i) + first_failure es)]"
        using Cons.IH [OF s(2) Suc] Cons.prems(3) s(1) by simp
      moreover have "first_failure (e # es) = Suc (first_failure es)" using True by (simp add: first_failure_def)
      moreover have "[Suc i ..< min n (Suc i + Suc k)] = Suc i # [Suc (Suc i) ..< min n (Suc (Suc i) + k)]" for k
        using Suc by (subst upt_rec) auto
      ultimately show ?thesis using True q by simp
    qed
  qed
qed simp

text \<open>All items up to the first that fails are requested, in order, and none behind it.\<close>

lemma stops_at_first_failure:
  assumes "ready 0 p" "length es = n"
  shows "sent (feed answered 0 es (start 0 p)) = sent p @ map request [0 ..< min n (Suc (first_failure es))]"
proof (cases "n = 0")
  case True
  with assms finishes show ?thesis by simp
next
  case False
  then have n: "0 < n" by simp
  from sends [OF assms(1) n] have s: "sent (start 0 p) = sent p @ [request 0]" "ready (Suc 0) (start 0 p)" by auto
  have "[0 ..< min n (Suc k)] = 0 # [Suc 0 ..< min n (Suc k)]" for k
    using n by (subst upt_rec) auto
  with feed_sends [OF s(2) n] assms(2) s(1) show ?thesis by simp
qed

end

text \<open>A loop whose start of an item has an effect that lasts.\<close>

locale one_by_one_effect = one_by_one start answered sent request n ready
  for start :: "nat \<Rightarrow> 'p \<Rightarrow> 'p" and answered :: "nat \<Rightarrow> string \<Rightarrow> 'p \<Rightarrow> 'p" and sent :: "'p \<Rightarrow> 'r list"
    and request :: "nat \<Rightarrow> 'r" and n :: nat and ready :: "nat \<Rightarrow> 'p \<Rightarrow> bool" +
  fixes gone :: "nat \<Rightarrow> 'p \<Rightarrow> bool"
  assumes does: "ready i p \<Longrightarrow> i < n \<Longrightarrow> gone i (start i p)"
    and lasts: "gone j p \<Longrightarrow> gone j (answered i e p)"
begin

lemma feed_lasts: "gone j p \<Longrightarrow> gone j (feed answered i es p)"
  by (induction es arbitrary: i p) (auto simp: Let_def lasts)

lemma feed_does:
  "ready (Suc i) p \<Longrightarrow> length es = n - i \<Longrightarrow> j \<in> {Suc i ..< min n (Suc i + first_failure es)} \<Longrightarrow>
   gone j (feed answered i es p)"
proof (induction es arbitrary: i p)
  case (Cons e es)
  from Cons.prems(3) have e: "e = []" and i: "Suc i < n" and j: "Suc i \<le> j" "j < n" "j < Suc (Suc i + first_failure es)"
    by (auto simp: first_failure_def split: if_splits)
  from succeeds [OF Cons.prems(1)] i obtain q where q: "answered i [] p = start (Suc i) q" "ready (Suc i) q"
    by (meson Suc_lessD)
  show ?case
  proof (cases "j = Suc i")
    case True
    with does [OF q(2) i] e q(1) show ?thesis by (simp add: feed_lasts)
  next
    case False
    with Cons.IH [of "Suc i" "start (Suc i) q"] sends [OF q(2) i] Cons.prems(2) e q(1) j show ?thesis by simp
  qed
qed (simp add: first_failure_def)

lemma all_requested_done:
  assumes "ready 0 p" "length es = n" "j < min n (Suc (first_failure es))"
  shows "gone j (feed answered 0 es (start 0 p))"
proof (cases j)
  case 0
  with assms show ?thesis by (auto intro: feed_lasts does)
next
  case (Suc k)
  with assms have "0 < n" by simp
  from sends [OF assms(1) this] have "ready (Suc 0) (start 0 p)" by simp
  from feed_does [OF this, of es j] assms Suc show ?thesis by simp
qed

end

section \<open>The list of instances\<close>

text \<open>
  The collections of the list, the requests made and the collections fetched. A collection finds a model by its identifier,
  \<open>server\<close> for instances and \<open>uid\<close> for groups.
\<close>

record list_page = page +
  il_instances :: "jsobj list"
  il_autostacks :: "jsobj list"
  il_models :: "jsobj list"
  il_requests :: "http_request list"
  il_fetches :: "string list"

definition coll_get :: "string \<Rightarrow> string \<Rightarrow> jsobj list \<Rightarrow> jsobj option" where
  "coll_get idAttribute key c = find (\<lambda>m. obj_get m idAttribute = JStr key) c"

definition coll_remove :: "string \<Rightarrow> string \<Rightarrow> jsobj list \<Rightarrow> jsobj list" where
  "coll_remove idAttribute key c = filter (\<lambda>m. obj_get m idAttribute \<noteq> JStr key) c"

text \<open>A model of a group without an instance that shows it becomes an instance; \<open>parse\<close> completes its attributes, which
  \<open>set\<close> puts over the defaults.\<close>

definition autostack_instance :: "jsobj \<Rightarrow> jsobj" where
  "autostack_instance autostack =
     [(''status'', JNum (Fin 0)), (''name'', obj_get autostack ''name''), (''namespace'', JStr ''AWS/EC2''),
      (''server'', JStr (''Autostacks/'' @ as_string (obj_get autostack ''uid''))), (''location'', obj_get autostack ''region'')]"

definition shown_by :: "jsobj \<Rightarrow> jsobj \<Rightarrow> bool" where
  "shown_by autostack inst = (obj_get inst ''server'' = JStr (''Autostacks/'' @ as_string (obj_get autostack ''uid'')))"

definition defaults :: jsobj where
  "defaults = [(''status'', JNum (Fin 2)), (''statusName'', JStr ''Creating'')]"

definition render_instances :: "site \<Rightarrow> jsobj list \<Rightarrow> jsobj list \<Rightarrow> jserr + jsobj list" where
  "render_instances S autostacks instances =
     foldl (\<lambda>r ob. case r of Inl e \<Rightarrow> Inl e
         | Inr c \<Rightarrow> (case parse_instance S (autostack_instance ob) of Inl e \<Rightarrow> Inl e | Inr attrs \<Rightarrow> Inr (c @ [assign defaults attrs])))
       (Inr instances) (filter (\<lambda>ob. \<not> list_ex (shown_by ob) instances) autostacks)"

definition render :: "site \<Rightarrow> list_page \<Rightarrow> list_page" where
  "render S p = (case render_instances S (il_autostacks p) (il_instances p) of
       Inl e \<Rightarrow> threw e p
     | Inr c \<Rightarrow> p\<lparr>il_instances := c\<rparr>)"

section \<open>Deleting instances\<close>

text \<open>The model an item stands for: a group by the part of the item after its first slash, if its first part names one.\<close>

datatype target = Group "string option" | Instance string

definition target :: "site \<Rightarrow> string \<Rightarrow> target" where
  "target S item = (let parts = split_on (CHR ''/'') item
     in if str_contains (hd parts) (si_autostack S) then Group (case tl parts of [] \<Rightarrow> None | key # _ \<Rightarrow> Some key) else Instance item)"

text \<open>\<open>destroy\<close> without \<open>wait\<close>: the request, and the model leaves the collection at once. \<open>undefined.destroy\<close> throws.\<close>

definition delete_item :: "site \<Rightarrow> api_opts \<Rightarrow> string \<Rightarrow> list_page \<Rightarrow> list_page" where
  "delete_item S A item p = (case target S item of
       Group None \<Rightarrow> threw TypeError p
     | Group (Some key) \<Rightarrow> (case coll_get ''uid'' key (il_autostacks p) of
           None \<Rightarrow> threw TypeError p
         | Some m \<Rightarrow> p\<lparr>il_requests := il_requests p @ [api_deleteAutostack A key],
                       il_autostacks := coll_remove ''uid'' key (il_autostacks p)\<rparr>)
     | Instance key \<Rightarrow> (case coll_get ''server'' key (il_instances p) of
           None \<Rightarrow> threw TypeError p
         | Some m \<Rightarrow> p\<lparr>il_requests := il_requests p @ [api_deleteMonitoredInstances A (JArr [JStr key])],
                       il_instances := coll_remove ''server'' key (il_instances p)\<rparr>))"

text \<open>\<open>Math.round((index / list.length) * 100)\<close>\<close>

definition percent :: "nat \<Rightarrow> nat \<Rightarrow> nat" where
  "percent index n = (200 * index + n) div (2 * n)"

definition percent_text :: "string \<Rightarrow> nat \<Rightarrow> nat \<Rightarrow> string" where
  "percent_text message index n = message @ '' ('' @ show_nat (percent index n) @ ''%)''"

definition performDelete :: "site \<Rightarrow> api_opts \<Rightarrow> string list \<Rightarrow> nat \<Rightarrow> list_page \<Rightarrow> list_page" where
  "performDelete S A items index p =
     (if index < length items then delete_item S A (items ! index) p
      else p\<lparr>il_fetches := il_fetches p @ [''instances'']\<rparr>)"

text \<open>The callbacks of \<open>destroyOpts\<close>; \<open>stop\<close> is \<open>site.state.instance.stop\<close>.\<close>

definition delete_answered :: "string \<Rightarrow> string \<Rightarrow> site \<Rightarrow> api_opts \<Rightarrow> string list \<Rightarrow> nat \<Rightarrow> string \<Rightarrow> list_page \<Rightarrow> list_page" where
  "delete_answered base stop S A items index err p =
     (if err \<noteq> [] then modalError base err (throb_stop p)
      else performDelete S A items (index + 1) (throb_message (percent_text stop index (length items)) p))"

text \<open>The answer to the last fetch, and its \<open>sync\<close> event, which fetches the models and draws the list again.\<close>

definition list_fetched :: "string \<Rightarrow> site \<Rightarrow> string \<Rightarrow> jsobj list \<Rightarrow> list_page \<Rightarrow> list_page" where
  "list_fetched base S err c p =
     (if err \<noteq> [] then modalError base err (throb_stop p)
      else render S ((throb_stop p)\<lparr>il_instances := c, il_fetches := il_fetches p @ [''models'']\<rparr>))"

text \<open>The question of \<open>handleDeleteOne\<close>, and the callbacks of both confirmations.\<close>

definition delete_question :: "string \<Rightarrow> string" where
  "delete_question region = (if region \<noteq> ''HTMIT'' then ''Remove this instance from monitoring?''
     else ''Stop monitoring this custom metric?'')"

definition deleteOne_confirmed :: "string \<Rightarrow> site \<Rightarrow> api_opts \<Rightarrow> string \<Rightarrow> bool \<Rightarrow> list_page \<Rightarrow> list_page" where
  "deleteOne_confirmed stop S A item result p = (if result then performDelete S A [item] 0 (throb_start stop p) else p)"

definition rows_instances :: "string list \<Rightarrow> string list" where
  "rows_instances rows = filter (\<lambda>i. i \<noteq> []) rows"

definition deleteAll_confirmed :: "string \<Rightarrow> site \<Rightarrow> api_opts \<Rightarrow> string list \<Rightarrow> bool \<Rightarrow> list_page \<Rightarrow> list_page" where
  "deleteAll_confirmed stop S A rows result p =
     (let instances = rows_instances rows
      in if instances \<noteq> [] \<and> result then performDelete S A instances 0 (throb_start stop p) else p)"

section \<open>Starting to monitor\<close>

text \<open>A row of the dialog: what its checkbox stands for, and whether it is checked.\<close>

record choice =
  ch_region :: string
  ch_namespace :: string
  ch_instance :: string
  ch_creator :: jsval
  ch_checked :: bool

definition chosen :: "choice list \<Rightarrow> choice list" where
  "chosen rows = filter ch_checked rows"

definition added_instance :: "choice \<Rightarrow> jsobj" where
  "added_instance c = [(''name'', JStr (ch_instance c)), (''location'', JStr (ch_region c)), (''namespace'', JStr (ch_namespace c)),
     (''instance'', JStr (ch_instance c)), (''server'', JStr (ch_instance c))]"

definition coll_add :: "string \<Rightarrow> jsobj \<Rightarrow> jsobj list \<Rightarrow> jsobj list" where
  "coll_add idAttribute ob c =
     (if list_ex (\<lambda>m. obj_get m idAttribute \<noteq> JUndef \<and> obj_get m idAttribute = obj_get ob idAttribute) c then c else c @ [ob])"

text \<open>
  \<open>createInstances\<close>: the request of an item, and its callback. An event \<open>view-models-created\<close> makes the page fetch
  the instances again, after it has stopped the throbber.
\<close>

definition models_created :: "list_page \<Rightarrow> list_page" where
  "models_created p = (throb_stop p)\<lparr>il_fetches := il_fetches p @ [''instances'']\<rparr>"

definition choice_request :: "site \<Rightarrow> api_opts \<Rightarrow> choice \<Rightarrow> http_request" where
  "choice_request S A c =
     (if str_contains (ch_namespace c) (si_real S)
      then api_createMonitoredInstance A (ch_region c) (ch_namespace c) (ch_instance c)
      else api_createModels A (ch_creator c))"

definition createInstances :: "site \<Rightarrow> api_opts \<Rightarrow> choice list \<Rightarrow> nat \<Rightarrow> list_page \<Rightarrow> list_page" where
  "createInstances S A items index p =
     (if index < length items then p\<lparr>il_requests := il_requests p @ [choice_request S A (items ! index)]\<rparr>
      else throb_stop (models_created p))"

text \<open>A creator is a plain object, as jQuery reads it from its attribute, and has no method \<open>get\<close>: the callback of the second
  kind of request throws when there is no error.\<close>

definition instance_created :: "string \<Rightarrow> string \<Rightarrow> site \<Rightarrow> api_opts \<Rightarrow> choice list \<Rightarrow> nat \<Rightarrow> string \<Rightarrow> list_page \<Rightarrow> list_page" where
  "instance_created base starts S A items index err p =
     (if err \<noteq> [] then modalError base err (models_created p)
      else if str_contains (ch_namespace (items ! index)) (si_real S) then
        createInstances S A items (index + 1) (throb_message (percent_text starts index (length items))
          (p\<lparr>il_instances := coll_add ''server'' (added_instance (items ! index)) (il_instances p)\<rparr>))
      else threw TypeError p)"

text \<open>\<open>createModels\<close> of an imported file; an item is an object of the file, the answer a list with the new model.\<close>

definition imported_model :: "jsobj \<Rightarrow> jsval \<Rightarrow> jsobj" where
  "imported_model item uid = [(''datasource'', obj_get item ''datasource''), (''location'', obj_get item ''region''),
     (''metric'', obj_get item ''metric''), (''server'', obj_get item ''instance''), (''id'', uid), (''uid'', uid)]"

definition import_models :: "api_opts \<Rightarrow> jsobj list \<Rightarrow> nat \<Rightarrow> list_page \<Rightarrow> list_page" where
  "import_models A items index p =
     (if index < length items then p\<lparr>il_requests := il_requests p @ [api_createModels A (JObj (items ! index))]\<rparr>
      else throb_stop (p\<lparr>il_fetches := il_fetches p @ [''instances'', ''autostacks'', ''customs'', ''namespaces'']\<rparr>))"

definition model_imported :: "string \<Rightarrow> string \<Rightarrow> api_opts \<Rightarrow> jsobj list \<Rightarrow> nat \<Rightarrow> string \<Rightarrow> jsval \<Rightarrow> list_page \<Rightarrow> list_page" where
  "model_imported base starts A items index err results p =
     (if err \<noteq> [] then modalError base err p
      else case results of
        JArr (JObj r # rs) \<Rightarrow>
          import_models A items (index + 1) (throb_message (percent_text starts index (length items))
            (p\<lparr>il_models := coll_add ''uid'' (imported_model (items ! index) (obj_get r ''uid'')) (il_models p)\<rparr>))
      | _ \<Rightarrow> threw TypeError p)"

section \<open>The requests of the three loops\<close>

definition known :: "target \<Rightarrow> list_page \<Rightarrow> bool" where
  "known t p = (case t of
       Group None \<Rightarrow> False
     | Group (Some key) \<Rightarrow> coll_get ''uid'' key (il_autostacks p) \<noteq> None
     | Instance key \<Rightarrow> coll_get ''server'' key (il_instances p) \<noteq> None)"

definition target_request :: "api_opts \<Rightarrow> target \<Rightarrow> http_request" where
  "target_request A t = (case t of
       Group (Some key) \<Rightarrow> api_deleteAutostack A key
     | Group None \<Rightarrow> api_deleteAutostack A []
     | Instance key \<Rightarrow> api_deleteMonitoredInstances A (JArr [JStr key]))"

definition deletable :: "site \<Rightarrow> string list \<Rightarrow> nat \<Rightarrow> list_page \<Rightarrow> bool" where
  "deletable S items i p = (distinct (map (target S) items) \<and> (\<forall>item \<in> set (drop i items). known (target S item) p))"

lemma coll_get_remove: "key \<noteq> id' \<Longrightarrow> coll_get a key (coll_remove a id' c) = coll_get a key c"
  by (induction c) (auto simp: coll_get_def coll_remove_def)

lemma known_after:
  "t \<noteq> target S item \<Longrightarrow> known t p \<Longrightarrow> known t (delete_item S A item p)"
  by (auto simp: known_def delete_item_def coll_get_remove threw_def split: target.splits option.splits)

lemma delete_item_sends:
  "known (target S item) p \<Longrightarrow> il_requests (delete_item S A item p) = il_requests p @ [target_request A (target S item)]"
  by (auto simp: known_def delete_item_def target_request_def split: target.splits option.splits)

lemma deletable_start:
  assumes r: "deletable S items i p" and i: "i < length items"
  shows "il_requests (performDelete S A items i p) = il_requests p @ [target_request A (target S (items ! i))] \<and>
    deletable S items (Suc i) (performDelete S A items i p)"
proof -
  from i have d: "drop i items = items ! i # drop (Suc i) items" by (simp add: Cons_nth_drop_Suc)
  from r have dist: "distinct (map (target S) items)" by (simp add: deletable_def)
  then have "distinct (map (target S) (drop i items))" unfolding drop_map [symmetric] by (rule distinct_drop)
  with d have "target S (items ! i) \<notin> target S ` set (drop (Suc i) items)" by simp
  then have "\<And>item. item \<in> set (drop (Suc i) items) \<Longrightarrow> target S item \<noteq> target S (items ! i)" by (metis imageI)
  with r d i dist known_after show ?thesis
    by (auto simp: deletable_def performDelete_def delete_item_sends)
qed

lemma list_fields [page_simps]:
  "il_requests (throb_stop p) = il_requests p" "il_requests (throb_message m p) = il_requests p"
  "il_requests (modalError b err p) = il_requests p" "il_requests (threw e p) = il_requests p"
  by (simp_all add: page_ops modalError_def split: option.split)

lemma known_message: "known t (throb_message m p) = known t p"
  by (auto simp: known_def throb_message_def split: target.split option.split)

lemma unknown_lasts: "\<not> known t p \<Longrightarrow> \<not> known t (delete_item S A item p)"
  by (auto simp: known_def delete_item_def coll_get_def coll_remove_def find_None_iff threw_def split: target.splits option.splits)

lemma unknown_deleted: "\<not> known (target S item) (delete_item S A item p)"
  by (auto simp: known_def delete_item_def coll_get_def coll_remove_def find_None_iff threw_def split: target.splits option.splits)

lemma known_fields: "il_instances p = il_instances q \<Longrightarrow> il_autostacks p = il_autostacks q \<Longrightarrow> known t p = known t q"
  by (auto simp: known_def split: target.split option.split)

lemma error_keeps_lists [page_simps]:
  "il_instances (modalError b err p) = il_instances p" "il_autostacks (modalError b err p) = il_autostacks p"
  "il_fetches (modalError b err p) = il_fetches p"
  "il_instances (throb_stop p) = il_instances p" "il_autostacks (throb_stop p) = il_autostacks p" "il_fetches (throb_stop p) = il_fetches p"
  "il_instances (throb_message m p) = il_instances p" "il_autostacks (throb_message m p) = il_autostacks p"
  "il_fetches (throb_message m p) = il_fetches p" "il_fetches (threw e p) = il_fetches p"
  by (simp_all add: page_ops modalError_def split: option.split)

lemma unknown_answered: "\<not> known t p \<Longrightarrow> \<not> known t (delete_answered base stop S A items i err p)"
proof -
  assume u: "\<not> known t p"
  have "known t (modalError base err (throb_stop p)) = known t p" by (rule known_fields) (simp_all add: page_simps)
  moreover have "known t (p\<lparr>il_fetches := f\<rparr>) = known t p" for p f by (rule known_fields) simp_all
  ultimately show ?thesis using u by (auto simp: delete_answered_def performDelete_def known_message unknown_lasts)
qed

interpretation deleting: one_by_one_effect "performDelete S A items" "delete_answered base stop S A items" il_requests
    "\<lambda>i. target_request A (target S (items ! i))" "length items" "deletable S items"
    "\<lambda>i p. i < length items \<longrightarrow> \<not> known (target S (items ! i)) p" for base stop S A items
proof
  fix i p assume "deletable S items i p" "i < length items"
  then show "il_requests (performDelete S A items i p) = il_requests p @ [target_request A (target S (items ! i))] \<and>
    deletable S items (Suc i) (performDelete S A items i p)" by (rule deletable_start)
next
  fix i p assume "deletable S items (Suc i) p"
  then show "\<exists>q. delete_answered base stop S A items i [] p = performDelete S A items (Suc i) q \<and>
      il_requests q = il_requests p \<and> deletable S items (Suc i) q"
    by (intro exI [of _ "throb_message (percent_text stop i (length items)) p"])
      (auto simp: delete_answered_def page_simps deletable_def known_message)
next
  fix j p i err assume "j < length items \<longrightarrow> \<not> known (target S (items ! j)) p"
  then show "j < length items \<longrightarrow> \<not> known (target S (items ! j)) (delete_answered base stop S A items i err p)"
    using unknown_answered by blast
qed (simp_all add: performDelete_def delete_answered_def page_simps unknown_deleted)

interpretation selecting: one_by_one "createInstances S A items" "instance_created base starts S A items" il_requests
    "\<lambda>i. choice_request S A (items ! i)" "length items" "\<lambda>_ _. list_all (\<lambda>c. str_contains (ch_namespace c) (si_real S)) items"
  for base starts S A items
proof
  fix i and p :: list_page assume "list_all (\<lambda>c. str_contains (ch_namespace c) (si_real S)) items" "i < length items"
  then show "\<exists>q. instance_created base starts S A items i [] p = createInstances S A items (Suc i) q \<and>
      il_requests q = il_requests p \<and> list_all (\<lambda>c. str_contains (ch_namespace c) (si_real S)) items"
    by (intro exI [of _ "throb_message (percent_text starts i (length items))
          (p\<lparr>il_instances := coll_add ''server'' (added_instance (items ! i)) (il_instances p)\<rparr>)"])
      (simp add: instance_created_def page_simps list_all_length)
qed (simp_all add: createInstances_def instance_created_def models_created_def page_simps)

text \<open>An import whose requests are answered with a model as the server makes it.\<close>

definition answered_with_model :: "(nat \<Rightarrow> jsval) \<Rightarrow> bool" where
  "answered_with_model results = (\<forall>i. \<exists>r rs. results i = JArr (JObj r # rs))"

interpretation importing: one_by_one "import_models A items" "\<lambda>i err. model_imported base starts A items i err (results i)" il_requests
    "\<lambda>i. api_createModels A (JObj (items ! i))" "length items" "\<lambda>_ _. answered_with_model results"
  for base starts A items results
proof
  fix i and p :: list_page assume a: "answered_with_model results"
  from a have "\<exists>r rs. results i = JArr (JObj r # rs)" unfolding answered_with_model_def by blast
  then obtain r rs where "results i = JArr (JObj r # rs)" by blast
  with a show "\<exists>q. model_imported base starts A items i [] (results i) p = import_models A items (Suc i) q \<and>
      il_requests q = il_requests p \<and> answered_with_model results"
    by (intro exI [of _ "throb_message (percent_text starts i (length items))
          (p\<lparr>il_models := coll_add ''uid'' (imported_model (items ! i) (obj_get r ''uid'')) (il_models p)\<rparr>)"])
      (simp add: model_imported_def page_simps)
qed (simp_all add: import_models_def model_imported_def page_simps)

lemma feed_error:
  assumes "\<And>k e r. e \<noteq> [] \<Longrightarrow> P (answered k e r)" "\<exists>e \<in> set es. e \<noteq> []"
  shows "P (feed answered i es p)"
  using assms(2)
proof (induction es arbitrary: i p)
  case (Cons e es)
  then show ?case using assms(1) [of e i p] by (cases "e = []") (auto simp: Let_def)
qed simp

lemma delete_answered_fetches:
  "il_fetches (delete_answered base stop S A items i e p) =
     il_fetches p @ (if e = [] \<and> length items \<le> Suc i then [''instances''] else [])"
proof -
  have "il_fetches (delete_item S A item q) = il_fetches q" for item q
    by (auto simp: delete_item_def page_simps split: target.split option.split)
  then show ?thesis by (simp add: delete_answered_def performDelete_def page_simps)
qed

lemma delete_answered_error: "e \<noteq> [] \<Longrightarrow> \<not> pg_throb (delete_answered base stop S A items i e p)"
  by (simp add: delete_answered_def page_simps)

lemma delete_fetches:
  "i + length es \<le> length items \<Longrightarrow> il_fetches (feed (delete_answered base stop S A items) i es p) =
     il_fetches p @ (if es \<noteq> [] \<and> (\<forall>e \<in> set es. e = []) \<and> i + length es = length items then [''instances''] else [])"
proof (induction es arbitrary: i p)
  case (Cons e es)
  let ?q = "delete_answered base stop S A items i e p"
  show ?case
  proof (cases "e = []")
    case False
    then show ?thesis by (simp add: Let_def delete_answered_fetches)
  next
    case True
    have IH: "il_fetches (feed (delete_answered base stop S A items) (Suc i) es ?q) =
        il_fetches ?q @ (if es \<noteq> [] \<and> (\<forall>e \<in> set es. e = []) \<and> Suc i + length es = length items then [''instances''] else [])"
      by (rule Cons.IH) (use Cons.prems in simp)
    show ?thesis
    proof (cases "es = []")
      case True
      with \<open>e = []\<close> Cons.prems show ?thesis by (auto simp: Let_def delete_answered_fetches)
    next
      case False
      moreover have "i + Suc (length es) \<le> length items" using Cons.prems by simp
      ultimately have "\<not> length items \<le> Suc i" by (cases es) simp_all
      with True IH False show ?thesis by (simp add: Let_def delete_answered_fetches)
    qed
  qed
qed simp

text \<open>C30: deleting instances. The items are deleted one by one in the order of the list, the first error ends the loop: exactly the
  items up to the failing one have been requested, and only those. When all succeed the instances are fetched once; after an error
  they are not, the throbber is gone, and the failing item is missing from the page although the server still monitors it, as a
  model leaves its collection before the answer.
\<close>

theorem deletes_until_failure:
  assumes "deletable S items 0 p" and "length es = length items"
  shows "let q = feed (delete_answered base stop S A items) 0 es (performDelete S A items 0 p) in
    il_requests q = il_requests p @ map (target_request A \<circ> target S) (take (Suc (first_failure es)) items) \<and>
    (\<forall>item \<in> set (take (Suc (first_failure es)) items). \<not> known (target S item) q) \<and>
    (if \<forall>e \<in> set es. e = [] then il_fetches q = il_fetches p @ [''instances'']
     else il_fetches q = il_fetches p \<and> \<not> pg_throb q)"
proof -
  define q where "q = feed (delete_answered base stop S A items) 0 es (performDelete S A items 0 p)"
  have take_nth: "map (\<lambda>i. f (items ! i)) [0..<min (length items) k] = map f (take k items)" for f :: "string \<Rightarrow> 'b" and k
    by (rule nth_equalityI) auto
  have "il_requests q = il_requests p @ map (target_request A \<circ> target S) (take (Suc (first_failure es)) items)"
    unfolding q_def using deleting.stops_at_first_failure [OF assms(1,2)] take_nth [of "target_request A \<circ> target S"] by simp
  moreover have "\<forall>item \<in> set (take (Suc (first_failure es)) items). \<not> known (target S item) q"
  proof
    fix item assume "item \<in> set (take (Suc (first_failure es)) items)"
    then obtain j where j: "j < min (length items) (Suc (first_failure es))" "items ! j = item"
      by (auto simp: in_set_conv_nth)
    from deleting.all_requested_done [OF assms(1,2) j(1)] j show "\<not> known (target S item) q" unfolding q_def by simp
  qed
  moreover have "if \<forall>e \<in> set es. e = [] then il_fetches q = il_fetches p @ [''instances'']
     else il_fetches q = il_fetches p \<and> \<not> pg_throb q"
  proof -
    have f: "il_fetches (performDelete S A items 0 p) = il_fetches p @ (if items = [] then [''instances''] else [])"
      by (auto simp: performDelete_def delete_item_def page_simps split: target.split option.split)
    have "\<not> pg_throb q" if bad: "\<exists>e \<in> set es. e \<noteq> []"
      unfolding q_def by (rule feed_error [where P = "\<lambda>q. \<not> pg_throb q", OF _ bad], rule delete_answered_error)
    moreover have "il_fetches q = il_fetches p @ (if \<forall>e \<in> set es. e = [] then [''instances''] else [])"
    proof (cases "items = []")
      case True
      with f assms(2) show ?thesis by (simp add: q_def)
    next
      case False
      with assms(2) have "es \<noteq> []" by auto
      with False f delete_fetches [of 0 es items base stop S A "performDelete S A items 0 p"] assms(2) show ?thesis
        unfolding q_def by simp
    qed
    ultimately show ?thesis by simp
  qed
  ultimately show ?thesis unfolding q_def Let_def by blast
qed

theorem deletes_until_failure_witness:
  "(let S = \<lparr>si_name = ''H'', si_autostack = ''Autostack'', si_autoscale = ''G'', si_real = ''AWS/'', si_custom = ''C''\<rparr>;
      p = \<lparr>pg_throb = True, pg_throbbing = True, pg_text = [], pg_text_on = False, pg_onscroll = [], pg_kept = [],
        pg_dialogs = [], pg_went = [], pg_storage = [], pg_uncaught = [],
        il_instances = [[(''server'', JStr ''r/AWS/EC2/i'')], [(''server'', JStr ''m'')]], il_autostacks = [[(''uid'', JStr ''u'')]],
        il_models = [], il_requests = [], il_fetches = []\<rparr>;
      items = [''r/AWS/EC2/i'', ''Autostacks/u'', ''m''];
      q = feed (delete_answered [] [] S local_api items) 0 [[], ''no'', []] (performDelete S local_api items 0 p)
    in il_requests q = [api_deleteMonitoredInstances local_api (JArr [JStr ''r/AWS/EC2/i'']), api_deleteAutostack local_api ''u''])"
proof -
  let ?S = "\<lparr>si_name = ''H'', si_autostack = ''Autostack'', si_autoscale = ''G'', si_real = ''AWS/'', si_custom = ''C''\<rparr>"
  let ?p = "\<lparr>pg_throb = True, pg_throbbing = True, pg_text = [], pg_text_on = False, pg_onscroll = [], pg_kept = [],
        pg_dialogs = [], pg_went = [], pg_storage = [], pg_uncaught = [],
        il_instances = [[(''server'', JStr ''r/AWS/EC2/i'')], [(''server'', JStr ''m'')]], il_autostacks = [[(''uid'', JStr ''u'')]],
        il_models = [], il_requests = [], il_fetches = []\<rparr>"
  let ?items = "[''r/AWS/EC2/i'', ''Autostacks/u'', ''m'']"
  have t: "map (target ?S) ?items = [Instance ''r/AWS/EC2/i'', Group (Some ''u''), Instance ''m'']" by code_simp
  have d: "deletable ?S ?items 0 ?p"
    unfolding deletable_def t by (use t in \<open>simp add: known_def coll_get_def obj_get_def\<close>)
  have f: "first_failure [[], ''no'', []] = 1" by (simp add: first_failure_def)
  have l: "length [[], ''no'', []] = length ?items" by simp
  from deletes_until_failure [OF d l, of "[]" "[]" local_api] t f show ?thesis
    by (simp add: Let_def target_request_def eval_nat_numeral)
qed

lemma select_ends:
  "i + length es = length items \<Longrightarrow> es \<noteq> [] \<Longrightarrow> list_all (\<lambda>c. str_contains (ch_namespace c) (si_real S)) items \<Longrightarrow>
   (let q = feed (instance_created base starts S A items) i es p in il_fetches q = il_fetches p @ [''instances''] \<and> \<not> pg_throb q)"
proof (induction es arbitrary: i p)
  case (Cons e es)
  show ?case
  proof (cases "e = []")
    case False
    then show ?thesis by (simp add: instance_created_def models_created_def page_simps Let_def)
  next
    case True
    from Cons.prems have aws: "str_contains (ch_namespace (items ! i)) (si_real S)" by (simp add: list_all_length)
    show ?thesis
    proof (cases "es = []")
      case True
      with \<open>e = []\<close> aws Cons.prems show ?thesis
        by (simp add: instance_created_def createInstances_def models_created_def page_simps Let_def)
    next
      case False
      then have "0 < length es" by simp
      moreover have "i + Suc (length es) = length items" using Cons.prems(1) by simp
      ultimately have i: "Suc i < length items" by (cases es) simp_all
      have "il_fetches (instance_created base starts S A items i [] p) = il_fetches p"
        using aws i by (simp add: instance_created_def createInstances_def page_simps)
      with Cons.IH [of "Suc i" "instance_created base starts S A items i [] p"] Cons.prems False True show ?thesis
        by (simp add: Let_def)
    qed
  qed
qed simp

text \<open>starting to monitor. The chosen servers are requested one by one up to the first that fails, and however it ends the
  instances are fetched once and the throbber is gone. An import stops in the same way, but after an error it fetches nothing.
\<close>

theorem created_until_failure:
  assumes "list_all (\<lambda>c. str_contains (ch_namespace c) (si_real S)) items" and "length es = length items"
  shows "let q = feed (instance_created base starts S A items) 0 es (createInstances S A items 0 p) in
    il_requests q = il_requests p @ map (choice_request S A) (take (Suc (first_failure es)) items) \<and>
    il_fetches q = il_fetches p @ [''instances''] \<and> \<not> pg_throb q"
proof -
  have take_nth: "map (\<lambda>i. f (items ! i)) [0..<min (length items) k] = map f (take k items)" for f :: "choice \<Rightarrow> 'b" and k
    by (rule nth_equalityI) auto
  have "il_requests (feed (instance_created base starts S A items) 0 es (createInstances S A items 0 p)) =
      il_requests p @ map (choice_request S A) (take (Suc (first_failure es)) items)"
    using selecting.stops_at_first_failure [OF assms] take_nth [of "choice_request S A"] by simp
  moreover have "let q = feed (instance_created base starts S A items) 0 es (createInstances S A items 0 p) in
      il_fetches q = il_fetches p @ [''instances''] \<and> \<not> pg_throb q"
  proof (cases "items = []")
    case True
    with assms show ?thesis by (simp add: createInstances_def models_created_def page_simps)
  next
    case False
    with assms(2) have "es \<noteq> []" by auto
    with select_ends [of 0 es items S base starts A "createInstances S A items 0 p"] assms False show ?thesis
      by (simp add: createInstances_def)
  qed
  ultimately show ?thesis by (simp add: Let_def)
qed

text \<open>a metric whose name contains the word for groups and no slash is taken for a group without an identifier. Deleting it throws
  before any request is made, and the throbber stays over the page.
\<close>

theorem metric_taken_for_group:
  "CHR ''/'' \<notin> set item \<Longrightarrow> str_contains item (si_autostack S) \<Longrightarrow>
   deleteOne_confirmed stop S A item True p = threw TypeError (throb_start stop p) \<and>
   pg_throb (deleteOne_confirmed stop S A item True p)"
proof -
  have "CHR ''/'' \<notin> set s \<Longrightarrow> split_on (CHR ''/'') s = [s]" for s by (induction s) auto
  moreover assume "CHR ''/'' \<notin> set item" "str_contains item (si_autostack S)"
  ultimately show ?thesis
    by (simp add: deleteOne_confirmed_def performDelete_def delete_item_def target_def Let_def page_simps)
qed

section \<open>Groups in the list\<close>

lemma om_ok_message: "om_ok m \<Longrightarrow> om_ok (parseStatusMessage m)"
  by (simp add: parseStatusMessage_def split: jsval.split)

lemma message_keeps: "k \<noteq> ''message'' \<Longrightarrow> obj_get (parseStatusMessage m) k = obj_get m k"
  by (simp add: parseStatusMessage_def split: jsval.split)

text \<open>\<open>parse\<close> of the instance that stands for a group never throws, and keeps its identifier.\<close>

lemma parse_autostack:
  "\<exists>attrs. parse_instance S (autostack_instance ob) = Inr attrs \<and> om_ok attrs \<and>
     obj_get attrs ''server'' = JStr (''Autostacks/'' @ as_string (obj_get ob ''uid''))"
proof -
  let ?a = "autostack_instance ob"
  have ok: "om_ok ?a" by (simp add: autostack_instance_def om_ok_def)
  have srv: "om_has ?a ''server''" "obj_get ?a ''server'' = JStr (''Autostacks/'' @ as_string (obj_get ob ''uid''))"
    "obj_get ?a ''namespace'' = JStr ''AWS/EC2''"
    by (simp_all add: autostack_instance_def om_has_def obj_get_def)
  obtain ns where loc: "obj_get (parseLocation S ?a) ''server'' = obj_get ?a ''server''" "om_ok (parseLocation S ?a)"
    "obj_get (parseLocation S ?a) ''namespace'' = JStr ns"
    using ok srv by (cases "truthy (obj_get ?a ''location'')") (auto simp: parseLocation_def)
  have "\<exists>d. parseDisplayName S (parseLocation S ?a) = Inr d \<and> om_ok d \<and> obj_get d ''server'' = obj_get ?a ''server''"
    using loc srv unfolding parseDisplayName_def by (simp add: Let_def)
  then obtain d where "parseDisplayName S (parseLocation S ?a) = Inr d" "om_ok d" "obj_get d ''server'' = obj_get ?a ''server''" by blast
  with srv show ?thesis unfolding parse_instance_def by (simp add: Let_def message_keeps om_ok_message)
qed

definition missing :: "jsobj list \<Rightarrow> jsobj list \<Rightarrow> jsobj list" where
  "missing autostacks instances = filter (\<lambda>ob. \<not> list_ex (shown_by ob) instances) autostacks"

lemma render_fold:
  "\<exists>new. foldl (\<lambda>r ob. case r of Inl e \<Rightarrow> Inl e
         | Inr c \<Rightarrow> (case parse_instance S (autostack_instance ob) of Inl e \<Rightarrow> Inl e | Inr attrs \<Rightarrow> Inr (c @ [assign defaults attrs])))
       (Inr instances) obs = Inr (instances @ new) \<and> list_all2 shown_by obs new"
proof (induction obs arbitrary: instances)
  case (Cons ob obs)
  from parse_autostack [of S ob] obtain attrs where a: "parse_instance S (autostack_instance ob) = Inr attrs" "om_ok attrs"
    "obj_get attrs ''server'' = JStr (''Autostacks/'' @ as_string (obj_get ob ''uid''))" by blast
  then have "om_has attrs ''server''" by (auto simp: om_has_def obj_get_def split: option.splits)
  with a have s: "shown_by ob (assign defaults attrs)" by (simp add: shown_by_def obj_get_assign)
  from Cons.IH [of "instances @ [assign defaults attrs]"] obtain new where "foldl (\<lambda>r ob. case r of Inl e \<Rightarrow> Inl e
         | Inr c \<Rightarrow> (case parse_instance S (autostack_instance ob) of Inl e \<Rightarrow> Inl e | Inr attrs \<Rightarrow> Inr (c @ [assign defaults attrs])))
       (Inr (instances @ [assign defaults attrs])) obs = Inr ((instances @ [assign defaults attrs]) @ new)" "list_all2 shown_by obs new" by blast
  with a s show ?case by (intro exI [of _ "assign defaults attrs # new"]) simp
qed simp

text \<open>groups in the list. Drawing the list never throws; it keeps every instance in its place and appends, in the order of the
  groups, one instance for every group that no instance shows. Afterwards every group is shown, so that drawing again changes
  nothing.
\<close>

theorem groups_shown:
  "\<exists>new. render_instances S autostacks instances = Inr (instances @ new) \<and>
     list_all2 shown_by (missing autostacks instances) new \<and>
     (\<forall>ob \<in> set autostacks. list_ex (shown_by ob) (instances @ new)) \<and>
     render_instances S autostacks (instances @ new) = Inr (instances @ new)"
proof -
  from render_fold [of S instances "missing autostacks instances"] obtain new
    where n: "render_instances S autostacks instances = Inr (instances @ new)" and
      l: "list_all2 shown_by (missing autostacks instances) new"
    unfolding render_instances_def missing_def by blast
  have "list_ex (shown_by ob) (instances @ new)" if "ob \<in> set autostacks" for ob
  proof (cases "list_ex (shown_by ob) instances")
    case False
    with that have "ob \<in> set (missing autostacks instances)" by (simp add: missing_def)
    with l have "\<exists>x \<in> set new. shown_by ob x" by (metis list_all2_conv_all_nth in_set_conv_nth)
    then show ?thesis by (auto simp: list_ex_iff)
  qed simp
  then have all: "\<forall>ob \<in> set autostacks. list_ex (shown_by ob) (instances @ new)" by blast
  then have "filter (\<lambda>ob. \<not> list_ex (shown_by ob) (instances @ new)) autostacks = []" by (simp add: filter_empty_conv)
  then have "render_instances S autostacks (instances @ new) = Inr (instances @ new)"
    unfolding render_instances_def by simp
  with n l all show ?thesis by blast
qed

section \<open>Custom metrics\<close>

text \<open>
  \<open>handleDeleteAll\<close> of the custom metrics sends every request at once. \<open>handler\<close> is a global variable that holds the last
  request made; \<open>cm_status\<close> has the status of every request, 0 until it is answered, \<open>cm_count\<close> is \<open>metricCount\<close>.
\<close>

record custom_page = page +
  cm_status :: "nat list"
  cm_count :: nat
  cm_requests :: "http_request list"
  cm_fetches :: nat

definition deleteAll_custom :: "string \<Rightarrow> api_opts \<Rightarrow> string list \<Rightarrow> bool \<Rightarrow> custom_page \<Rightarrow> custom_page" where
  "deleteAll_custom remove A rows result p =
     (let metricList = rows_instances rows
      in if metricList \<noteq> [] \<and> result then
           (throb_start remove p)\<lparr>cm_requests := cm_requests p @ map (api_deleteHTMITCustomMetric A) metricList,
              cm_status := replicate (length metricList) 0, cm_count := 0\<rparr>
         else p)"

text \<open>The answer to request \<open>k\<close>: its status and the text of the error, empty for a success. jQuery sets the status first.\<close>

definition custom_deleted :: "string \<Rightarrow> string \<Rightarrow> nat \<times> nat \<times> string \<Rightarrow> custom_page \<Rightarrow> custom_page" where
  "custom_deleted base remove a p = (case a of (k, status, err) \<Rightarrow>
     let p = p\<lparr>cm_status := (cm_status p)[k := status]\<rparr>; n = length (cm_status p)
     in if err \<noteq> [] \<and> last (cm_status p) \<noteq> 404 then modalError base err p
        else
          let p = p\<lparr>cm_count := cm_count p + 1\<rparr>;
              p = throb_message (percent_text remove (cm_count p) n) p
          in if cm_count p = n then p\<lparr>cm_fetches := cm_fetches p + 1\<rparr> else p)"

definition custom_answers :: "string \<Rightarrow> string \<Rightarrow> (nat \<times> nat \<times> string) list \<Rightarrow> custom_page \<Rightarrow> custom_page" where
  "custom_answers base remove as p = fold (custom_deleted base remove) as p"

text \<open>\<open>handleDeleteOne\<close>: here the last request is the one that is answered.\<close>

definition custom_deletedOne :: "string \<Rightarrow> nat \<Rightarrow> string \<Rightarrow> custom_page \<Rightarrow> custom_page" where
  "custom_deletedOne base status err p =
     (if err \<noteq> [] \<and> status \<noteq> 404 then modalError base err p else p\<lparr>cm_fetches := cm_fetches p + 1\<rparr>)"

lemma custom_fields:
  "length (cm_status (custom_deleted base remove a p)) = length (cm_status p)"
  "cm_count (custom_deleted base remove a p) \<in> {cm_count p, cm_count p + 1}"
  "cm_fetches (custom_deleted base remove a p) =
     cm_fetches p + (if cm_count (custom_deleted base remove a p) = length (cm_status p) \<and>
       cm_count (custom_deleted base remove a p) \<noteq> cm_count p then 1 else 0)"
  by (cases a; simp add: custom_deleted_def Let_def modalError_def throb_stop_def throb_message_def go_def split: option.split)+

text \<open>The list is fetched exactly when the count reaches the number of requests.\<close>

lemma custom_run:
  assumes "length as + cm_count p \<le> length (cm_status p)" "cm_count p < length (cm_status p)"
  shows "let q = custom_answers base remove as p in length (cm_status q) = length (cm_status p) \<and>
    cm_count p \<le> cm_count q \<and> cm_count q \<le> cm_count p + length as \<and>
    cm_fetches q = cm_fetches p + (if cm_count q = length (cm_status p) then 1 else 0)"
  using assms
proof (induction as arbitrary: p rule: rev_induct)
  case (snoc a as)
  let ?q = "custom_answers base remove as p"
  from snoc have IH: "length (cm_status ?q) = length (cm_status p)" "cm_count p \<le> cm_count ?q" "cm_count ?q \<le> cm_count p + length as"
    "cm_fetches ?q = cm_fetches p + (if cm_count ?q = length (cm_status p) then 1 else 0)" by (auto simp: Let_def)
  from IH snoc.prems have lt: "cm_count ?q < length (cm_status p)" by simp
  have step: "custom_answers base remove (as @ [a]) p = custom_deleted base remove a ?q" by (simp add: custom_answers_def)
  note f = custom_fields [of base remove a ?q]
  show ?case unfolding step Let_def using IH lt f by auto
qed (simp add: custom_answers_def)

lemma custom_run_count:
  "(\<forall>(k, status, err) \<in> set as. err = []) \<Longrightarrow> cm_count (custom_answers base remove as p) = cm_count p + length as"
proof (induction as arbitrary: p)
  case (Cons a as)
  have "cm_count (custom_deleted base remove a p) = cm_count p + 1" using Cons.prems
    by (auto simp: custom_deleted_def Let_def throb_message_def)
  with Cons show ?case by (auto simp: custom_answers_def)
qed (simp add: custom_answers_def)

text \<open>deleting all custom metrics. When every request succeeds, in whatever order the answers come, the metrics are fetched exactly
  once, after the last answer. But an error is compared with the status of the last request, not of its own: a metric that is
  already gone (404), answered before the last request, is taken for an error, and then the list is never fetched again, however the
  others end.
\<close>

theorem custom_deletions:
  assumes "n = length (cm_status p)" "1 < n" "cm_count p = 0" "length as = n"
  shows "((\<forall>(k, status, err) \<in> set as. err = []) \<longrightarrow>
      cm_fetches (custom_answers base remove as p) = cm_fetches p + 1 \<and>
      cm_fetches (custom_answers base remove (butlast as) p) = cm_fetches p) \<and>
    (\<forall>k err. as = (k, 404, err) # tl as \<and> err \<noteq> [] \<and> k < n - 1 \<and> last (cm_status p) = 0 \<longrightarrow>
      cm_fetches (custom_answers base remove as p) = cm_fetches p \<and> pg_throb (custom_deleted base remove (hd as) p) = False)"
proof (intro conjI impI allI)
  have lt: "cm_count p < length (cm_status p)" "cm_status p \<noteq> []" using assms by auto
  assume ok: "\<forall>(k, status, err) \<in> set as. err = []"
  from custom_run_count [OF this] custom_run [of as p base remove] assms lt
  show "cm_fetches (custom_answers base remove as p) = cm_fetches p + 1" by (simp add: Let_def)
  from ok have "\<forall>(k, status, err) \<in> set (butlast as). err = []" by (auto dest: in_set_butlastD)
  from custom_run_count [OF this] custom_run [of "butlast as" p base remove] assms lt
  show "cm_fetches (custom_answers base remove (butlast as) p) = cm_fetches p" by (simp add: Let_def)
next
  fix k err assume a: "as = (k, 404, err) # tl as \<and> err \<noteq> [] \<and> k < n - 1 \<and> last (cm_status p) = 0"
  let ?p = "custom_deleted base remove (k, 404, err) p"
  from a assms have "last ((cm_status p)[k := 404]) = 0"
    by (subst last_list_update) auto
  with a have p': "?p = modalError base err (p\<lparr>cm_status := (cm_status p)[k := 404]\<rparr>)"
    by (simp add: custom_deleted_def)
  then have c: "cm_count ?p = 0" "length (cm_status ?p) = n" "cm_fetches ?p = cm_fetches p" "\<not> pg_throb ?p"
    using assms by (simp_all add: modalError_def Let_def throb_stop_def go_def split: option.split)
  from a have h: "hd as = (k, 404, err)" by (metis list.sel(1))
  from a obtain bs where bs: "as = (k, 404, err) # bs" by blast
  then have "custom_answers base remove as p = custom_answers base remove (tl as) ?p" by (simp add: custom_answers_def)
  moreover have "length (tl as) < n" "cm_status p \<noteq> []" using assms by auto
  ultimately show "cm_fetches (custom_answers base remove as p) = cm_fetches p"
    using custom_run [of "tl as" ?p base remove] c assms by (auto simp: Let_def)
  from c h show "pg_throb (custom_deleted base remove (hd as) p) = False" by simp
qed

end
