(* ===== verification/Web_Discovery.thy ===== *)
theory Web_Discovery
  imports Web_Instances
begin

text \<open>
  The two pages that look for instances to monitor, under \<open>htm.it/static/js/program/views/pages\<close>: \<open>instances-auto.js\<close>
  searches a region by name tags and shows every instance once, \<open>instances-manual.js\<close> browses regions, namespaces and
  instances in a tree.
\<close>

section \<open>The first of every key\<close>

text \<open>\<open>if(! (key in m)) m[key] = ...\<close> in a loop.\<close>

definition keep_first :: "('a \<Rightarrow> 'k) \<Rightarrow> ('a \<Rightarrow> 'v) \<Rightarrow> 'a list \<Rightarrow> ('k, 'v) omap \<Rightarrow> ('k, 'v) omap" where
  "keep_first key val xs m = fold (\<lambda>x m. if om_has m (key x) then m else om_set (key x) (val x) m) xs m"

lemma om_has_Nil [simp]: "\<not> om_has [] k"
  by (simp add: om_has_def)

lemma keep_first_get:
  "om_get (keep_first key val xs m) k = (if om_has m k then om_get m k else map_option val (find (\<lambda>x. key x = k) xs))"
proof (induction xs arbitrary: m)
  case (Cons x xs)
  then show ?case by (auto simp: keep_first_def om_get_set om_has_set om_has_def)
qed (auto simp: keep_first_def om_has_def)

text \<open>The keys are in the order of their first occurrence.\<close>

fun first_keys :: "'k list \<Rightarrow> 'k list" where
  "first_keys [] = []"
| "first_keys (k # ks) = k # filter (\<lambda>k'. k' \<noteq> k) (first_keys ks)"

lemma first_keys_facts: "set (first_keys ks) = set ks \<and> distinct (first_keys ks)"
  by (induction ks) auto

lemma first_keys_filter: "first_keys (filter P ks) = filter P (first_keys ks)"
  by (induction ks) (auto intro!: filter_cong simp: conj_commute)

lemma keep_first_keys:
  "om_keys (keep_first key val xs m) = om_keys m @ filter (\<lambda>k. \<not> om_has m k) (first_keys (map key xs))"
proof (induction xs arbitrary: m)
  case (Cons x xs)
  show ?case
  proof (cases "om_has m (key x)")
    case True
    with Cons show ?thesis by (auto simp: keep_first_def intro!: filter_cong)
  next
    case False
    with Cons [of "om_set (key x) (val x) m"] show ?thesis
      by (auto simp: keep_first_def om_set_absent om_has_set intro!: filter_cong) (auto simp: om_has_def map_of_eq_None_iff)
  qed
qed (simp add: keep_first_def)

section \<open>Searching by tags\<close>

text \<open>\<open>tag.split(/[\s,]+/)\<close>\<close>

definition tag_separator :: "char \<Rightarrow> bool" where
  "tag_separator c = (is_space c \<or> c = CHR '','')"

function split_tags :: "string \<Rightarrow> string list" where
  "split_tags s = (case dropWhile (\<lambda>c. \<not> tag_separator c) s of
       [] \<Rightarrow> [s]
     | r \<Rightarrow> takeWhile (\<lambda>c. \<not> tag_separator c) s # split_tags (dropWhile tag_separator r))"
  by pat_completeness auto
termination
proof (relation "measure length")
  fix s c r assume d: "dropWhile (\<lambda>c. \<not> tag_separator c) s = c # r"
  have "tag_separator c" using hd_dropWhile [of "\<lambda>c. \<not> tag_separator c" s] d by simp
  moreover have "length (c # r) \<le> length s" unfolding d [symmetric] by (rule length_dropWhile_le)
  moreover have "length (dropWhile tag_separator r) \<le> length r" by (rule length_dropWhile_le)
  ultimately show "(dropWhile tag_separator (c # r), s) \<in> measure length" by simp
qed simp

declare split_tags.simps [simp del]

definition tag_options :: "string \<Rightarrow> jsobj" where
  "tag_options tag = (let tags = (if tag \<noteq> [] then split_tags tag else [])
     in if tags \<noteq> [] then [(''tags'', JStr (join_with '','' (map (\<lambda>t. ''Name:'' @ t) tags)))] else [])"

text \<open>
  The page: the requests made, the entries of the selection dialog, and the global variable \<open>display\<close>, \<open>None\<close> until
  some code assigns it.
\<close>

record entry =
  en_display :: string
  en_service :: string
  en_region :: string
  en_creator :: jsobj

record auto_page = page +
  au_requests :: "http_request list"
  au_entries :: "(string, entry) omap option"
  au_display :: "string option"
  au_fetches :: nat

record auto_texts =
  at_find :: string
  at_selectRegion :: string
  at_empty :: string
  at_customRegion :: string

definition auto_handleBegin :: "string \<Rightarrow> auto_texts \<Rightarrow> api_opts \<Rightarrow> string \<Rightarrow> string \<Rightarrow> auto_page \<Rightarrow> auto_page" where
  "auto_handleBegin base T A region tag p =
     (if region = [] then modalError base (at_selectRegion T) p
      else (throb_start (at_find T) p)\<lparr>au_requests := au_requests p @
        [api_getInstanceMetrics A region ''AWS/EC2'' (Some (JObj (tag_options tag)))]\<rparr>)"

text \<open>A property that is a nonempty string; names and identifiers are strings.\<close>

definition field_of :: "jsobj \<Rightarrow> string \<Rightarrow> string" where
  "field_of m k = as_string (obj_get m k)"

definition sort_name :: "jsobj \<Rightarrow> string" where
  "sort_name m = (if field_of m ''name'' \<noteq> [] then field_of m ''name'' else field_of m ''identifier'')"

text \<open>The assignments to the global \<open>display\<close>, which keeps its value where a metric has neither name nor identifier.\<close>

definition display_of :: "jsobj \<Rightarrow> string option \<Rightarrow> string option" where
  "display_of m d =
     (let name = field_of m ''name''; identifier = field_of m ''identifier''
      in if name \<noteq> [] then Some (if identifier \<noteq> [] then name @ '' ('' @ identifier @ '')'' else name)
         else if identifier \<noteq> [] then Some identifier else d)"

definition single_dimensions :: "jsobj \<Rightarrow> jsobj" where
  "single_dimensions m = (case obj_get m ''dimensions'' of
       JObj ds \<Rightarrow> om_set ''dimensions'' (JObj (map (\<lambda>(k, v). (k, case v of JArr (x # xs) \<Rightarrow> x | JArr [] \<Rightarrow> JUndef | _ \<Rightarrow> v)) ds)) m
     | _ \<Rightarrow> m)"

definition entry_of :: "site \<Rightarrow> string \<Rightarrow> string \<Rightarrow> jsobj \<Rightarrow> entry" where
  "entry_of S customRegion display m =
     \<lparr>en_display = display,
      en_service = (if field_of m ''namespace'' \<noteq> [] then field_of m ''namespace'' else si_custom S),
      en_region = (if field_of m ''region'' \<noteq> [] then field_of m ''region'' else si_name S @ '' '' @ customRegion),
      en_creator = single_dimensions m\<rparr>"

text \<open>A metric without an identifier has the key \<open>undefined\<close>.\<close>

definition entry_key :: "jsobj \<Rightarrow> string" where
  "entry_key m = (case obj_get m ''identifier'' of JStr s \<Rightarrow> s | _ \<Rightarrow> ''undefined'')"

text \<open>
  The names every object has from its prototype, for which \<open>in\<close> holds from the start.
\<close>

definition prototype_names :: "string list" where
  "prototype_names = [''constructor'', ''toString'', ''toLocaleString'', ''valueOf'', ''hasOwnProperty'', ''isPrototypeOf'',
     ''propertyIsEnumerable'', ''__proto__'', ''__defineGetter__'', ''__defineSetter__'', ''__lookupGetter__'', ''__lookupSetter__'']"

text \<open>The body of the loop; reading \<open>display\<close> before any assignment is a reference error.\<close>

fun collapse :: "site \<Rightarrow> string \<Rightarrow> jsobj list \<Rightarrow> string option \<Rightarrow> (string, entry) omap \<Rightarrow> jserr + string option \<times> (string, entry) omap" where
  "collapse S customRegion [] d m = Inr (d, m)"
| "collapse S customRegion (x # xs) d m =
     (let d = display_of x d
      in if om_has m (entry_key x) \<or> entry_key x \<in> set prototype_names then collapse S customRegion xs d m
         else case d of
           None \<Rightarrow> Inl (ErrorMsg ''ReferenceError'')
         | Some display \<Rightarrow> collapse S customRegion xs d (om_set (entry_key x) (entry_of S customRegion display x) m))"

definition displaySelectionModal :: "string \<Rightarrow> auto_texts \<Rightarrow> site \<Rightarrow> jsobj list \<Rightarrow> auto_page \<Rightarrow> auto_page" where
  "displaySelectionModal base T S data p =
     (let p = throb_stop p
      in if data = [] then modalError base (at_empty T) p
         else case collapse S (at_customRegion T) (sort_key sort_name data) (au_display p) [] of
           Inl e \<Rightarrow> threw e p
         | Inr (d, m) \<Rightarrow> p\<lparr>au_display := d, au_entries := Some m\<rparr>)"

text \<open>The answer for the one region that is searched; the progress is then complete.\<close>

definition auto_found :: "string \<Rightarrow> auto_texts \<Rightarrow> site \<Rightarrow> string \<times> jsobj list \<Rightarrow> auto_page \<Rightarrow> auto_page" where
  "auto_found base T S a p =
     (if fst a \<noteq> [] then modalError base (fst a) p
      else displaySelectionModal base T S (snd a) (throb_message (percent_text (at_find T) 1 1) p))"

definition auto_models_created :: "auto_page \<Rightarrow> auto_page" where
  "auto_models_created p = (throb_stop p)\<lparr>au_fetches := au_fetches p + 1\<rparr>"

section \<open>Every instance once\<close>

definition identified :: "jsobj \<Rightarrow> bool" where
  "identified m = (\<exists>s. obj_get m ''identifier'' = JStr s \<and> s \<noteq> [] \<and> s \<notin> set prototype_names)"

definition own_display :: "jsobj \<Rightarrow> string" where
  "own_display m = (if field_of m ''name'' \<noteq> [] then field_of m ''name'' @ '' ('' @ field_of m ''identifier'' @ '')''
     else field_of m ''identifier'')"

lemma display_identified: "identified m \<Longrightarrow> display_of m d = Some (own_display m)"
  by (auto simp: identified_def display_of_def own_display_def field_of_def Let_def)

lemma collapse_keep_first:
  "list_all identified xs \<Longrightarrow>
   \<exists>d'. collapse S R xs d m = Inr (d', keep_first entry_key (\<lambda>x. entry_of S R (own_display x) x) xs m)"
proof (induction xs arbitrary: d m)
  case (Cons x xs)
  then have "entry_key x \<notin> set prototype_names" by (auto simp: identified_def entry_key_def)
  with Cons show ?case by (auto simp: display_identified keep_first_def Let_def)
qed (simp add: keep_first_def)

text \<open>the result of a search. When every metric found has an identifier, the dialog shows every instance exactly once, in the order of
  the names, and what it shows of an instance, and what it creates, is that of its first metric in this order; its name is its own
  and never that of another instance. An empty result, or no region, is reported and opens no dialog.
\<close>

theorem search_shows_instances:
  fixes p :: auto_page
  assumes "list_all identified metrics" "metrics \<noteq> []"
  shows "(\<exists>m. au_entries (auto_found base T S ([], metrics) p) = Some m \<and>
      om_keys m = first_keys (map entry_key (sort_key sort_name metrics)) \<and>
      (\<forall>k. om_get m k = map_option (\<lambda>x. entry_of S (at_customRegion T) (own_display x) x)
        (find (\<lambda>x. entry_key x = k) (sort_key sort_name metrics)))) \<and>
    \<not> pg_throb (auto_found base T S ([], metrics) p) \<and>
    au_entries (auto_found base T S ([], []) p) = au_entries p \<and>
    au_requests (auto_handleBegin base T A [] tag p) = au_requests p"
proof -
  let ?xs = "sort_key sort_name metrics"
  have "list_all identified ?xs" using assms(1) by (simp add: list_all_iff)
  from collapse_keep_first [OF this, of S "at_customRegion T" "au_display p" "[]"]
  obtain d where d: "collapse S (at_customRegion T) ?xs (au_display p) [] =
      Inr (d, keep_first entry_key (\<lambda>x. entry_of S (at_customRegion T) (own_display x) x) ?xs [])" by blast
  have keep: "au_entries (modalError b err q) = au_entries q" "au_requests (modalError b err q) = au_requests q" for b err and q :: auto_page
    by (simp_all add: modalError_def throb_stop_def go_def Let_def split: option.split)
  from d assms(2) show ?thesis
    by (simp add: auto_found_def displaySelectionModal_def Let_def throb_stop_def throb_message_def keep_first_keys keep_first_get
        keep auto_handleBegin_def)
qed

text \<open>a metric without name and identifier is shown under the name of the metric before it, as the variable that holds the name is
  global.
\<close>

theorem nameless_shows_previous:
  "identified x \<Longrightarrow> field_of y ''name'' = [] \<Longrightarrow> field_of y ''identifier'' = [] \<Longrightarrow> entry_key x \<noteq> entry_key y \<Longrightarrow>
   entry_key y \<notin> set prototype_names \<Longrightarrow>
   \<exists>m e. collapse S R [x, y] d [] = Inr (Some (own_display x), m) \<and> om_get m (entry_key y) = Some e \<and> en_display e = own_display x"
proof -
  assume x: "identified x" and y: "field_of y ''name'' = []" "field_of y ''identifier'' = []"
    and k: "entry_key x \<noteq> entry_key y" "entry_key y \<notin> set prototype_names"
  have "entry_key x \<notin> set prototype_names" using x by (auto simp: identified_def entry_key_def)
  moreover have "display_of y d' = d'" for d' using y by (simp add: display_of_def)
  ultimately show ?thesis using k by (simp add: display_identified [OF x] om_has_def om_get_set entry_of_def)
qed

section \<open>Browsing\<close>

text \<open>
  The internal structure of \<open>instances-manual.js\<close>: regions with namespaces with instances with metrics, and the nodes of the
  tree that is shown: a label, an identifier, the type of a region, and the children.
\<close>

record man_instance =
  mi_id :: string
  mi_display :: string
  mi_name :: jsval
  mi_metrics :: "(string, jsobj) omap"

record man_namespace =
  mn_attrs :: jsobj
  mn_instances :: "(string, man_instance) omap"

record man_region =
  mr_name :: string
  mr_type :: string
  mr_namespaces :: "(string, man_namespace) omap"

datatype tree_node = Tree_Node (nd_label: string) (nd_id: "string option") (nd_type: "string option") (nd_children: "tree_node list")

record man_page = page +
  mp_regions :: "(string, man_region) omap"
  mp_tree :: "tree_node list"
  mp_metrics :: "jsobj list"
  mp_requests :: "http_request list"
  mp_loaded :: "(string \<times> string \<times> tree_node list) list"
  mp_instances :: "jsobj list"
  mp_models :: "jsobj list"

record man_texts =
  mt_aws :: string
  mt_htmit :: string
  mt_custom :: string
  mt_loading_label :: string
  mt_loading :: string
  mt_start :: string

definition id_of :: "jsobj \<Rightarrow> string" where
  "id_of m = field_of m ''id''"

definition processAwsRegionsNamespaces :: "man_texts \<Rightarrow> jsobj list \<Rightarrow> jsobj list \<Rightarrow> man_page \<Rightarrow> man_page" where
  "processAwsRegionsNamespaces T regions namespaces p =
     (let namespaces = filter (\<lambda>n. id_of n \<noteq> ''Autostacks'') namespaces
      in fold (\<lambda>region p. p\<lparr>
           mp_regions := om_set (id_of region) \<lparr>mr_name = field_of region ''name'', mr_type = mt_aws T,
             mr_namespaces = fold (\<lambda>n m. om_set (id_of n) \<lparr>mn_attrs = n, mn_instances = []\<rparr> m) namespaces []\<rparr> (mp_regions p),
           mp_tree := mp_tree p @ [Tree_Node (field_of region ''name'') (Some (id_of region)) (Some (mt_aws T))
             (map (\<lambda>n. Tree_Node (id_of n) (Some (id_of n)) None [Tree_Node (mt_loading_label T) None None []]) namespaces)]\<rparr>) regions p)"

definition processHTMITCustomMetrics :: "man_texts \<Rightarrow> site \<Rightarrow> jsobj list \<Rightarrow> man_page \<Rightarrow> man_page" where
  "processHTMITCustomMetrics T S metrics p =
     (if metrics = [] then p
      else p\<lparr>
        mp_regions := om_set (si_name S) \<lparr>mr_name = mt_custom T, mr_type = mt_htmit T,
          mr_namespaces = [(si_custom S, \<lparr>mn_attrs = [], mn_instances =
            fold (\<lambda>m is. om_set (field_of m ''name'') \<lparr>mi_id = [], mi_display = [], mi_name = JUndef,
              mi_metrics = [(field_of m ''name'', m)]\<rparr> is) metrics []\<rparr>)]\<rparr> (mp_regions p),
        mp_tree := mp_tree p @ [Tree_Node (''<strong>'' @ si_name S @ ''</strong>: '' @ mt_custom T) (Some (si_name S)) (Some (mt_htmit T))
          [Tree_Node (si_custom S) None None
            (map (\<lambda>m. Tree_Node (field_of m ''name'') (Some (field_of m ''name'')) None []) metrics)]]\<rparr>)"

text \<open>\<open>collapseDataToTree\<close>: the instance of a metric, by its first dimension and its identifier.\<close>

definition inst_key :: "jsobj \<Rightarrow> string" where
  "inst_key r = (case om_keys (as_obj (obj_get r ''dimensions'')) of [] \<Rightarrow> ''undefined'' | d # ds \<Rightarrow> d) @ ''/'' @ field_of r ''identifier''"

definition metric_name :: "jsobj \<Rightarrow> string" where
  "metric_name r = field_of r ''metric''"

definition new_instance :: "jsobj \<Rightarrow> man_instance" where
  "new_instance r = \<lparr>mi_id = inst_key r, mi_display = field_of r ''display'', mi_name = obj_get r ''name'', mi_metrics = []\<rparr>"

definition add_metric :: "jsobj \<Rightarrow> man_instance \<Rightarrow> man_instance" where
  "add_metric r i = (if om_has (mi_metrics i) (metric_name r) then i else i\<lparr>mi_metrics := om_set (metric_name r) r (mi_metrics i)\<rparr>)"

definition add_result :: "jsobj \<Rightarrow> (string, man_instance) omap \<Rightarrow> (string, man_instance) omap" where
  "add_result r parent = om_set (inst_key r)
     (add_metric r (case om_get parent (inst_key r) of None \<Rightarrow> new_instance r | Some i \<Rightarrow> i)) parent"

definition instance_nodes :: "(string, man_instance) omap \<Rightarrow> tree_node list" where
  "instance_nodes parent = sort_key nd_label (map (\<lambda>(k, i). Tree_Node (mi_display i) (Some k) None []) parent)"

definition no_services :: tree_node where
  "no_services = Tree_Node ''<em class=\"flash-danger\">No Services Found</em>'' None None []"

definition parent_of :: "string \<Rightarrow> string \<Rightarrow> man_page \<Rightarrow> (string, man_instance) omap" where
  "parent_of region namespace p = (case om_get (mp_regions p) region of
       None \<Rightarrow> []
     | Some r \<Rightarrow> (case om_get (mr_namespaces r) namespace of None \<Rightarrow> [] | Some n \<Rightarrow> mn_instances n))"

definition set_parent :: "string \<Rightarrow> string \<Rightarrow> (string, man_instance) omap \<Rightarrow> man_page \<Rightarrow> man_page" where
  "set_parent region namespace is p = (case om_get (mp_regions p) region of
       None \<Rightarrow> p
     | Some r \<Rightarrow> (case om_get (mr_namespaces r) namespace of
         None \<Rightarrow> p
       | Some n \<Rightarrow> p\<lparr>mp_regions := om_set region (r\<lparr>mr_namespaces := om_set namespace (n\<lparr>mn_instances := is\<rparr>) (mr_namespaces r)\<rparr>) (mp_regions p)\<rparr>))"

definition of_namespace :: "string \<Rightarrow> string \<Rightarrow> jsobj \<Rightarrow> bool" where
  "of_namespace region namespace m = (obj_get m ''region'' = JStr region \<and> obj_get m ''namespace'' = JStr namespace)"

definition collapseDataToTree :: "string \<Rightarrow> string \<Rightarrow> man_page \<Rightarrow> man_page" where
  "collapseDataToTree region namespace p =
     (let p = throb_stop p; results = filter (of_namespace region namespace) (mp_metrics p);
          parent = fold add_result results (parent_of region namespace p);
          nodes = (if results \<noteq> [] then instance_nodes parent else [no_services])
      in throb_stop ((if results \<noteq> [] then set_parent region namespace parent p else p)
           \<lparr>mp_loaded := mp_loaded p @ [(region, namespace, nodes)]\<rparr>))"

text \<open>A namespace is opened; the answer adds to the collection of metrics.\<close>

definition getAWSRegionNamespaceDetails :: "man_texts \<Rightarrow> api_opts \<Rightarrow> string \<Rightarrow> string \<Rightarrow> man_page \<Rightarrow> man_page" where
  "getAWSRegionNamespaceDetails T A region namespace p =
     (if parent_of region namespace p \<noteq> [] then p
      else
        let p = throb_start (mt_loading T) p
        in if filter (of_namespace region namespace) (mp_metrics p) = []
           then (throb_start (mt_loading T) p)\<lparr>mp_requests := mp_requests p @ [api_getInstanceMetrics A region namespace None]\<rparr>
           else collapseDataToTree region namespace p)"

definition metrics_fetched :: "string \<Rightarrow> string \<Rightarrow> string \<Rightarrow> string \<times> jsobj list \<Rightarrow> man_page \<Rightarrow> man_page" where
  "metrics_fetched base region namespace a p =
     (if fst a \<noteq> [] then modalError base (fst a) p
      else collapseDataToTree region namespace (p\<lparr>mp_metrics := mp_metrics p @ snd a\<rparr>))"

text \<open>An instance of the tree is selected. \<open>create\<close> puts it into the collection at once, its answer sets what \<open>parse\<close> gives.\<close>

definition monitored_as :: "string \<Rightarrow> string \<Rightarrow> string \<Rightarrow> jsobj \<Rightarrow> bool" where
  "monitored_as region namespace key m = (obj_get m ''location'' = JStr region \<and> obj_get m ''namespace'' = JStr namespace \<and>
     obj_get m ''server'' = JStr key)"

definition already :: string where
  "already = ''This instance is already being monitored.''"

definition select_aws :: "string \<Rightarrow> man_texts \<Rightarrow> api_opts \<Rightarrow> string \<Rightarrow> string \<Rightarrow> string \<Rightarrow> string \<Rightarrow> man_page \<Rightarrow> man_page" where
  "select_aws base T A region namespace node name p =
     (let key = region @ ''/'' @ namespace @ ''/'' @ node; p = throb_start (mt_start T) p
      in if list_ex (monitored_as region namespace key) (mp_instances p) then modalError base already p
         else
           let data = [(''location'', JStr region), (''namespace'', JStr namespace), (''_server'', JStr key),
             (''instance'', JStr node), (''name'', JStr name)]
           in p\<lparr>mp_instances := mp_instances p @ [assign defaults data],
                mp_requests := mp_requests p @ [api_createMonitoredInstance A region namespace node]\<rparr>)"

definition aws_selected :: "string \<Rightarrow> site \<Rightarrow> nat \<Rightarrow> string \<Rightarrow> man_page \<Rightarrow> man_page" where
  "aws_selected base S i err p =
     (if err \<noteq> [] then modalError base err p
      else case parse_instance S (mp_instances p ! i) of
        Inl e \<Rightarrow> threw e p
      | Inr attrs \<Rightarrow> throb_stop (p\<lparr>mp_instances := (mp_instances p)[i := assign (mp_instances p ! i) attrs]\<rparr>))"

definition select_custom :: "string \<Rightarrow> man_texts \<Rightarrow> api_opts \<Rightarrow> string \<Rightarrow> jsobj \<Rightarrow> man_page \<Rightarrow> man_page" where
  "select_custom base T A metric creator p =
     (let p = throb_start (mt_start T) p; new = [(''datasource'', obj_get creator ''datasource''), (''metric'', JStr metric)]
      in if list_ex (\<lambda>m. obj_get m ''display'' = JStr metric \<and> obj_get m ''server'' = JStr metric) (mp_instances p)
         then modalError base already p
         else p\<lparr>mp_models := mp_models p @ [new], mp_requests := mp_requests p @ [api_createModels A (JObj new)]\<rparr>)"

section \<open>What the tree shows\<close>

lemma add_results_get:
  "om_get (fold add_result rs []) k = (case filter (\<lambda>r. inst_key r = k) rs of
       [] \<Rightarrow> None
     | r # _ \<Rightarrow> Some ((new_instance r)\<lparr>mi_metrics := keep_first metric_name (\<lambda>r. r) (filter (\<lambda>r. inst_key r = k) rs) []\<rparr>))"
proof (induction rs rule: rev_induct)
  case (snoc r rs)
  define M where "M = fold add_result rs []"
  have M: "fold add_result (rs @ [r]) [] = add_result r M" by (simp add: M_def)
  note IH = snoc [folded M_def]
  show ?case
  proof (cases "inst_key r = k")
    case False
    with IH show ?thesis unfolding M by (simp add: add_result_def om_get_set split: list.splits)
  next
    case True
    have k1: "keep_first metric_name (\<lambda>r. r) (xs @ [r]) [] = (let m = keep_first metric_name (\<lambda>r. r) xs [] in
        if om_has m (metric_name r) then m else om_set (metric_name r) r m)" for xs by (simp add: keep_first_def)
    show ?thesis
    proof (cases "filter (\<lambda>r. inst_key r = k) rs")
      case Nil
      with IH True show ?thesis unfolding M
        by (simp add: add_result_def om_get_set add_metric_def new_instance_def keep_first_def)
    next
      case (Cons r0 rs0)
      with IH have "om_get M k = Some ((new_instance r0)\<lparr>mi_metrics := keep_first metric_name (\<lambda>r. r) (r0 # rs0) []\<rparr>)" by simp
      with True Cons k1 [of "r0 # rs0"] show ?thesis unfolding M
        by (simp add: add_result_def om_get_set add_metric_def new_instance_def Let_def)
    qed
  qed
qed simp

lemma distinct_Some: "distinct ks \<Longrightarrow> distinct (map Some ks)"
  by (simp add: distinct_map)

lemma distinct_map_sort: "distinct (map f (sort_key g xs)) = distinct (map f xs)"
  by (simp add: distinct_map)

lemma add_results_has: "om_has (fold add_result rs m) k = (om_has m k \<or> k \<in> inst_key ` set rs)"
  by (induction rs arbitrary: m) (auto simp: add_result_def om_has_set)

lemma add_results_keys: "set (om_keys (fold add_result rs [])) = inst_key ` set rs"
  using add_results_has [of rs "[]"] by (auto simp: om_has_iff_key)

lemma add_results_ok: "om_ok m \<Longrightarrow> om_ok (fold add_result rs m)"
  by (induction rs arbitrary: m) (auto simp: add_result_def)

text \<open>the tree of instances. Opening a namespace for the first time gives one node for every instance that has a metric in this region
  and namespace, in the order of the labels, and keeps under every instance the metrics it has, by name, the first of each. A
  namespace without metrics gets the node that says so. A namespace that shows instances is not loaded again.
\<close>

theorem tree_shows_instances:
  fixes p :: man_page
  assumes region: "om_get (mp_regions p) region = Some r" "om_get (mr_namespaces r) namespace = Some n" "mn_instances n = []"
  shows "let results = filter (of_namespace region namespace) (mp_metrics p); q = collapseDataToTree region namespace p;
      nodes = snd (snd (last (mp_loaded q)))
    in (if results = [] then nodes = [no_services]
        else distinct (map nd_id nodes) \<and> set (map nd_id nodes) = (\<lambda>r. Some (inst_key r)) ` set results \<and>
          sorted (map nd_label nodes) \<and> getAWSRegionNamespaceDetails T A region namespace q = q) \<and>
       (\<forall>k i. om_get (parent_of region namespace q) k = Some i \<longrightarrow>
          mi_metrics i = keep_first metric_name (\<lambda>r. r) (filter (\<lambda>r. inst_key r = k) results) [])"
proof -
  define results where "results = filter (of_namespace region namespace) (mp_metrics p)"
  let ?q = "collapseDataToTree region namespace p"
  let ?parent = "fold add_result results []"
  have p0: "parent_of region namespace (throb_stop p) = []" "mp_metrics (throb_stop p) = mp_metrics p" "mp_regions (throb_stop p) = mp_regions p"
    using region by (simp_all add: parent_of_def throb_stop_def)
  have nodes: "snd (snd (last (mp_loaded ?q))) = (if results \<noteq> [] then instance_nodes ?parent else [no_services])"
    using p0 by (simp add: collapseDataToTree_def results_def Let_def throb_stop_def)
  have parent: "parent_of region namespace ?q = ?parent"
  proof (cases "results = []")
    case True
    with p0 region show ?thesis by (simp add: collapseDataToTree_def results_def Let_def parent_of_def throb_stop_def)
  next
    case False
    with p0 region show ?thesis
      by (simp add: collapseDataToTree_def results_def [symmetric] Let_def parent_of_def set_parent_def om_get_set) (simp add: throb_stop_def om_get_set)
  qed
  have ids: "map nd_id (map (\<lambda>(k, i). Tree_Node (mi_display i) (Some k) None []) m) = map Some (om_keys m)" for m
    by (induction m) auto
  have "set (map nd_id (instance_nodes ?parent)) = set (map Some (om_keys ?parent))"
    unfolding instance_nodes_def ids [symmetric] by (simp add: image_image)
  also have "\<dots> = (\<lambda>r. Some (inst_key r)) ` set results" using add_results_keys [of results] by auto
  finally have s: "set (map nd_id (instance_nodes ?parent)) = (\<lambda>r. Some (inst_key r)) ` set results" .
  have "distinct (map Some (om_keys ?parent))" using add_results_ok [of "[]" results] unfolding om_ok_def by (intro distinct_Some) simp
  then have d: "distinct (map nd_id (instance_nodes ?parent))"
    unfolding instance_nodes_def ids [symmetric] by (simp only: distinct_map_sort)
  have o: "sorted (map nd_label (instance_nodes ?parent))" by (simp add: instance_nodes_def)
  have again: "getAWSRegionNamespaceDetails T A region namespace ?q = ?q" if "results \<noteq> []"
  proof -
    have "set (om_keys ?parent) \<noteq> {}" using add_results_keys [of results] that by auto
    then have "?parent \<noteq> []" by auto
    with parent show ?thesis by (simp add: getAWSRegionNamespaceDetails_def)
  qed
  have m: "mi_metrics i = keep_first metric_name (\<lambda>r. r) (filter (\<lambda>r. inst_key r = k) results) []"
    if "om_get ?parent k = Some i" for k i
    using that unfolding add_results_get by (auto split: list.splits)
  show ?thesis unfolding Let_def results_def [symmetric] nodes parent using s d o again m by auto
qed

section \<open>Selecting an instance\<close>

lemma display_keeps:
  assumes "parseDisplayName S m = Inr d" "om_ok m" "obj_get m ''server'' = JStr key" "\<not> str_contains key (si_autostack S)"
  shows "om_ok d \<and> (\<forall>k. k \<noteq> ''display'' \<longrightarrow> obj_get d k = obj_get m k)"
  using assms by (auto simp: parseDisplayName_def Let_def split: jsval.splits if_splits)

lemma display_total:
  "obj_get m ''server'' = JStr key \<Longrightarrow> obj_get m ''namespace'' = JStr ns \<Longrightarrow> \<exists>d. parseDisplayName S m = Inr d"
  by (simp add: parseDisplayName_def Let_def)

text \<open>The attributes that \<open>parse\<close> gives the selected instance.\<close>

lemma parse_selected:
  assumes "om_ok m" and False: "\<not> om_has m ''server''" and "obj_get m ''_server'' = JStr key" "obj_get m ''location'' = JStr region"
    "obj_get m ''namespace'' = JStr ns" "region \<noteq> []" "\<not> str_contains key (si_autostack S)"
  shows "\<exists>attrs. parse_instance S m = Inr attrs \<and> om_ok attrs \<and> obj_get attrs ''server'' = JStr key \<and>
    obj_get attrs ''location'' = JStr region \<and> obj_get attrs ''namespace'' = JStr ns"
proof -
  let ?m = "om_set ''server'' (JStr key) m"
  have s: "om_has m ''_server''" using assms(3) by (auto simp: om_has_def obj_get_def split: option.splits)
  have loc: "parseLocation S ?m = ?m" using assms(4,6) by (simp add: parseLocation_def truthy_def)
  have "obj_get ?m ''server'' = JStr key" "obj_get ?m ''namespace'' = JStr ns" using assms(5) by simp_all
  from display_total [OF this] obtain d where d: "parseDisplayName S ?m = Inr d" by blast
  note k = display_keeps [OF d _ _ assms(7)]
  have d': "om_ok d" "obj_get d ''server'' = JStr key" "obj_get d ''location'' = JStr region" "obj_get d ''namespace'' = JStr ns"
    using k assms by simp_all
  from False s loc d assms(3) show ?thesis unfolding parse_instance_def
    by (simp add: Let_def) (use d' in \<open>simp add: message_keeps om_ok_message\<close>)
qed

text \<open>an instance is monitored once. After the server has accepted an instance that was selected in the tree, selecting it again is
  refused with a message and sends nothing. But until the answer has come the new instance has no \<open>server\<close>, so that selecting it
  again sends a second request.
\<close>

theorem selected_once:
  fixes p :: man_page
  assumes new: "\<not> list_ex (monitored_as region namespace key) (mp_instances p)"
    and key: "key = region @ ''/'' @ namespace @ ''/'' @ node" "region \<noteq> []" "\<not> str_contains key (si_autostack S)"
  shows "let select = select_aws base T A region namespace node name; p1 = select p;
      p2 = aws_selected base S (length (mp_instances p)) [] p1;
      request = api_createMonitoredInstance A region namespace node
    in mp_requests p1 = mp_requests p @ [request] \<and> mp_requests (select p1) = mp_requests p @ [request, request] \<and>
      mp_requests (select p2) = mp_requests p @ [request] \<and> mp_instances (select p2) = mp_instances p2 \<and> \<not> pg_throb (select p2)"
proof -
  let ?request = "api_createMonitoredInstance A region namespace node"
  define m where "m = assign defaults [(''location'', JStr region), (''namespace'', JStr namespace), (''_server'', JStr key),
      (''instance'', JStr node), (''name'', JStr name)]"
  have m: "m = [(''status'', JNum (Fin 2)), (''statusName'', JStr ''Creating''), (''location'', JStr region), (''namespace'', JStr namespace),
      (''_server'', JStr key), (''instance'', JStr node), (''name'', JStr name)]"
    by (simp add: m_def assign_def defaults_def)
  have sel: "select_aws base T A region namespace node name q = (if list_ex (monitored_as region namespace key) (mp_instances q)
      then modalError base already (throb_start (mt_start T) q)
      else (throb_start (mt_start T) q)\<lparr>mp_instances := mp_instances q @ [m], mp_requests := mp_requests q @ [?request]\<rparr>)" for q
    by (simp add: select_aws_def key(1) m_def Let_def throb_start_def throb_stop_def)
  have keep: "mp_requests (modalError b err q) = mp_requests q" "mp_instances (modalError b err q) = mp_instances q"
    "mp_requests (throb_start msg q) = mp_requests q" "mp_instances (throb_start msg q) = mp_instances q" for b err msg and q :: man_page
    by (simp_all add: modalError_def throb_start_def throb_stop_def go_def Let_def split: option.split)
  have no_server: "\<not> monitored_as region namespace key m" by (simp add: monitored_as_def m property_Cons)
  obtain attrs where a: "parse_instance S m = Inr attrs" "om_ok attrs" "obj_get attrs ''server'' = JStr key"
    "obj_get attrs ''location'' = JStr region" "obj_get attrs ''namespace'' = JStr namespace"
    using parse_selected [of m key region namespace S] key(2,3) by (auto simp: m om_ok_def om_has_def property_Cons)
  have has: "om_has attrs k" if "obj_get attrs k = JStr v" for k v
    using that by (auto simp: om_has_def obj_get_def split: option.splits)
  have listed: "monitored_as region namespace key (assign m attrs)"
    using a has by (simp add: monitored_as_def obj_get_assign)
  define p1 where "p1 = select_aws base T A region namespace node name p"
  have p1: "p1 = (throb_start (mt_start T) p)\<lparr>mp_instances := mp_instances p @ [m], mp_requests := mp_requests p @ [?request]\<rparr>"
    using new by (simp add: p1_def sel)
  define p2 where "p2 = aws_selected base S (length (mp_instances p)) [] p1"
  have p2: "mp_instances p2 = mp_instances p @ [assign m attrs]" "mp_requests p2 = mp_requests p @ [?request]"
    by (simp_all add: p2_def aws_selected_def p1 a(1) throb_stop_def)
  have again: "select_aws base T A region namespace node name p2 = modalError base already (throb_start (mt_start T) p2)"
    using listed by (simp add: sel p2)
  have "mp_requests (select_aws base T A region namespace node name p1) = mp_requests p @ [?request, ?request]"
    using new no_server by (simp add: sel p1)
  with p1 p2 again show ?thesis
    unfolding Let_def p1_def [symmetric] p2_def [symmetric] by (simp add: keep page_simps)
qed

end
