(* ===== verification/Web_Metric_Switches.thy ===== *)
theory Web_Metric_Switches
  imports Web_Instances
begin

text \<open>
  The dialog with one switch per metric of an instance (\<open>panels/modalMetricList.js\<close> under
  \<open>htm.it/static/js/program/views\<close>): which metrics it offers, which switches are on, and what a click does.
\<close>

section \<open>The dialog\<close>

text \<open>
  The instance the dialog is about; \<open>metrics\<close>, where a switch is \<open>false\<close> or the identifier of the model that runs, and
  \<open>creators\<close>; the collection of models, where every model carries the number Backbone gives it, \<open>cid\<close>; the requests
  made, the members of a group and whether the dialog is open.
\<close>

record switches = page +
  sw_instance :: string
  sw_name :: string
  sw_namespace :: string
  sw_region :: string
  sw_metrics :: "(string, jsval) omap"
  sw_creators :: "(string, jsobj) omap"
  sw_models :: "(nat \<times> jsobj) list"
  sw_next :: nat
  sw_requests :: "http_request list"
  sw_fetches :: nat
  sw_members :: "string list"
  sw_shown :: bool

definition isHTMITAutostack :: "site \<Rightarrow> switches \<Rightarrow> bool" where
  "isHTMITAutostack S p = str_contains (sw_instance p) (si_autostack S)"

definition isHTMITCustomMetric :: "site \<Rightarrow> switches \<Rightarrow> bool" where
  "isHTMITCustomMetric S p = str_contains (sw_namespace p) (si_custom S)"

text \<open>\<open>this.metrics[key] = false; this.creators[key] = metric\<close>\<close>

definition offer :: "(string \<times> jsobj) list \<Rightarrow> switches \<Rightarrow> switches" where
  "offer ms p = fold (\<lambda>(key, m) p. p\<lparr>sw_metrics := om_set key (JBool False) (sw_metrics p),
     sw_creators := om_set key m (sw_creators p)\<rparr>) ms p"

definition group_metric :: "switches \<Rightarrow> string \<Rightarrow> string \<Rightarrow> string \<times> jsobj" where
  "group_metric p ns metric = (metric, [(''metric'', JStr metric), (''region'', JStr (sw_region p)), (''namespace'', JStr ns),
     (''identifier'', JStr (sw_instance p))])"

definition namespace_metrics :: "switches \<Rightarrow> string \<Rightarrow> jsobj \<Rightarrow> (string \<times> jsobj) list" where
  "namespace_metrics p ns m = map (\<lambda>v. group_metric p ns (as_string v)) (as_arr (obj_get m ''metrics''))"

text \<open>\<open>where\<close>: the models that agree with every attribute of the filter.\<close>

definition agrees :: "jsobj \<Rightarrow> jsobj \<Rightarrow> bool" where
  "agrees pattern m = list_all (\<lambda>(k, v). obj_get m k = v) pattern"

definition metric_key :: "jsobj \<Rightarrow> string" where
  "metric_key m = as_string (obj_get m ''metric'')"

text \<open>The models that run, and the switch of each.\<close>

definition full_name :: "switches \<Rightarrow> string" where
  "full_name p = sw_region p @ ''/'' @ sw_namespace p @ ''/'' @ after_last_slash (sw_instance p)"

definition model_name :: "site \<Rightarrow> switches \<Rightarrow> string" where
  "model_name S p = (if isHTMITAutostack S p \<or> isHTMITCustomMetric S p then sw_instance p else full_name p)"

definition mark_on :: "site \<Rightarrow> switches \<Rightarrow> switches" where
  "mark_on S p = fold (\<lambda>(cid, m) q.
       if obj_get m ''server'' = JStr (model_name S p) \<and> obj_get m ''metric'' = JStr (metric_key m) \<and> om_has (sw_metrics q) (metric_key m)
       then q\<lparr>sw_metrics := om_set (metric_key m) (obj_get m ''uid'') (sw_metrics q)\<rparr> else q) (sw_models p) p"

text \<open>
  \<open>render\<close> with the collections it reads. A namespace that is not there throws; a group that is not there is reported
  and no dialog opens. \<open>customRegion\<close> is \<open>site.regions.htmit.custom\<close>.
\<close>

record sources =
  src_namespaces :: "jsobj list"
  src_autostacks :: "jsobj list"
  src_customs :: "jsobj list"
  src_metrics :: "jsobj list"

definition show_dialog :: "site \<Rightarrow> switches \<Rightarrow> switches" where
  "show_dialog S p = (mark_on S p)\<lparr>sw_shown := True\<rparr>"

definition is_group :: "switches \<Rightarrow> jsobj \<Rightarrow> bool" where
  "is_group p g = (obj_get g ''region'' = JStr (sw_region p) \<and> obj_get g ''uid'' = JStr (after_last_slash (sw_instance p)))"

definition render_switches :: "string \<Rightarrow> string \<Rightarrow> site \<Rightarrow> api_opts \<Rightarrow> sources \<Rightarrow> switches \<Rightarrow> switches" where
  "render_switches base customRegion S A D p =
     (if isHTMITAutostack S p then
        (case (coll_get ''id'' ''Autostacks'' (src_namespaces D), coll_get ''id'' ''AWS/EC2'' (src_namespaces D)) of
           (Some a, Some e) \<Rightarrow>
             let p = offer (namespace_metrics p ''Autostacks'' a @ namespace_metrics p ''AWS/EC2'' e) p
             in (case find (is_group p) (src_autostacks D) of
                  None \<Rightarrow> modalError base ''Autostack not found.'' p
                | Some g \<Rightarrow> show_dialog S (p\<lparr>sw_requests := sw_requests p @
                    [api_getAutostackPreview A (obj_get g ''region'') (obj_get g ''filters'')]\<rparr>))
         | _ \<Rightarrow> threw TypeError p)
      else if isHTMITCustomMetric S p then
        let p = p\<lparr>sw_region := si_name S @ '' '' @ customRegion, sw_namespace := si_custom S\<rparr>
        in show_dialog S (offer (map (\<lambda>m. (sw_name p, m)) (filter (\<lambda>m. obj_get m ''name'' = JStr (sw_name p)) (src_customs D))) p)
      else
        show_dialog S (offer (map (\<lambda>m. (metric_key m, m)) (filter (agrees [(''region'', JStr (sw_region p)),
          (''namespace'', JStr (sw_namespace p)), (''identifier'', JStr (after_last_slash (sw_instance p)))]) (src_metrics D))) p))"

text \<open>The answer with the members of a group.\<close>

definition members_arrived :: "string \<Rightarrow> answer \<Rightarrow> switches \<Rightarrow> switches" where
  "members_arrived base a p =
     (if fst a \<noteq> [] then modalError base (fst a) p
      else case snd a of
        JArr instances \<Rightarrow> (case instance_lines instances of Inl e \<Rightarrow> threw e p | Inr ls \<Rightarrow> p\<lparr>sw_members := ls\<rparr>)
      | _ \<Rightarrow> threw TypeError p)"

section \<open>A click on a switch\<close>

text \<open>The filter of the models that a switch stands for, and the model that is created.\<close>

definition model_filter :: "site \<Rightarrow> switches \<Rightarrow> string \<Rightarrow> jsobj" where
  "model_filter S p metric =
     (if isHTMITAutostack S p then [(''location'', JStr (sw_region p)), (''server'', JStr (sw_instance p)), (''metric'', JStr metric)]
      else if isHTMITCustomMetric S p then [(''server'', JStr metric), (''metric'', JStr metric)]
      else [(''location'', JStr (sw_region p)), (''server'', JStr (full_name p)), (''metric'', JStr metric)])"

definition new_model :: "jsobj \<Rightarrow> string \<Rightarrow> jsobj" where
  "new_model creator metric =
     (if obj_get creator ''datasource'' = JStr ''custom''
      then [(''datasource'', obj_get creator ''datasource''), (''metric'', JStr metric)] else creator)"

definition model_of_switch :: "site \<Rightarrow> switches \<Rightarrow> string \<Rightarrow> jsval" where
  "model_of_switch S p metric = (case find (\<lambda>(cid, m). agrees (model_filter S p metric) m) (sw_models p) of
       None \<Rightarrow> JNull
     | Some (cid, m) \<Rightarrow> obj_get m ''uid'')"

text \<open>
  \<open>create\<close> puts the model into the collection before it is answered, \<open>destroy\<close> takes it out. The texts of the
  throbber are parameters.
\<close>

definition handleCheckBoxClick :: "string \<Rightarrow> string \<Rightarrow> site \<Rightarrow> api_opts \<Rightarrow> string \<Rightarrow> bool \<Rightarrow> switches \<Rightarrow> switches" where
  "handleCheckBoxClick starting stopping S A metric checked p = (case om_get (sw_creators p) metric of
       None \<Rightarrow> threw TypeError p
     | Some creator \<Rightarrow>
         let key = after_last_slash (sw_instance p); modelId = model_of_switch S p metric
         in if checked then
              (let p = throb_start starting p
               in if isHTMITAutostack S p then
                    p\<lparr>sw_requests := sw_requests p @ [api_createAutostackMetrics A key
                      (JArr [JObj [(''metric'', obj_get creator ''metric''), (''namespace'', obj_get creator ''namespace'')]])]\<rparr>
                  else
                    p\<lparr>sw_models := sw_models p @ [(sw_next p, new_model creator metric)], sw_next := sw_next p + 1,
                      sw_requests := sw_requests p @ [api_createModels A (JObj (new_model creator metric))]\<rparr>)
            else if truthy modelId then
              (let p = throb_start stopping p
               in if isHTMITAutostack S p then
                    p\<lparr>sw_requests := sw_requests p @ [api_deleteAutostackMetric A key (as_string modelId)]\<rparr>
                  else
                    p\<lparr>sw_models := filter (\<lambda>(cid, m). obj_get m ''uid'' \<noteq> modelId) (sw_models p),
                      sw_requests := sw_requests p @ [api_deleteModel A (as_string modelId)]\<rparr>)
            else p)"

text \<open>The answers. A model of a group is added when it has been created; \<open>response.metric.uid\<close> is a string here.\<close>

definition group_metric_created :: "string \<Rightarrow> string \<Rightarrow> answer \<Rightarrow> switches \<Rightarrow> switches" where
  "group_metric_created base metric a p =
     (if fst a \<noteq> [] then modalError base (fst a) p
      else case (snd a, om_get (sw_creators p) metric) of
        (JObj response, Some c) \<Rightarrow>
          if obj_get response ''metric'' \<in> {JUndef, JNull} then threw TypeError p
          else
            let uid = obj_get (as_obj (obj_get response ''metric'')) ''uid'';
                new = [(''datasource'', obj_get c ''datasource''), (''location'', obj_get c ''region''), (''metric'', obj_get c ''metric''),
                  (''server'', JStr (sw_instance p)), (''id'', uid), (''uid'', uid)]
            in throb_stop (if list_ex (\<lambda>(cid, m). obj_get m ''uid'' = uid \<and> uid \<noteq> JUndef) (sw_models p) then p
                 else p\<lparr>sw_models := sw_models p @ [(sw_next p, new)], sw_next := sw_next p + 1\<rparr>)
      | _ \<Rightarrow> threw TypeError p)"

text \<open>The attributes of the answer are set on the model that was created; an error leaves it in the collection.\<close>

definition model_created :: "string \<Rightarrow> nat \<Rightarrow> string \<Rightarrow> jsval \<Rightarrow> switches \<Rightarrow> switches" where
  "model_created base cid err response p =
     (if err \<noteq> [] then modalError base err p
      else throb_stop (p\<lparr>sw_models := map (\<lambda>(c, m). if c = cid then (c, assign m (parse_model (as_obj response))) else (c, m))
          (sw_models p)\<rparr>))"

definition model_deleted :: "string \<Rightarrow> string \<Rightarrow> switches \<Rightarrow> switches" where
  "model_deleted base err p = (if err \<noteq> [] then modalError base err p else throb_stop p)"

definition group_metric_deleted :: "string \<Rightarrow> jsval \<Rightarrow> string \<Rightarrow> switches \<Rightarrow> switches" where
  "group_metric_deleted base modelId err p =
     (if err \<noteq> [] then modalError base err p
      else p\<lparr>sw_models := filter (\<lambda>(cid, m). obj_get m ''uid'' \<noteq> modelId) (sw_models p), sw_fetches := sw_fetches p + 1\<rparr>)"

section \<open>What the switches show\<close>

lemma offer_metrics:
  "om_get (sw_metrics (offer ms p)) k = (if k \<in> fst ` set ms then Some (JBool False) else om_get (sw_metrics p) k)"
  by (induction ms arbitrary: p) (auto simp: offer_def om_get_set)

lemma offer_keeps [simp]:
  "sw_models (offer ms p) = sw_models p" "sw_instance (offer ms p) = sw_instance p" "sw_namespace (offer ms p) = sw_namespace p"
  "sw_region (offer ms p) = sw_region p"
  by (induction ms arbitrary: p) (auto simp: offer_def)

text \<open>The identifiers of the models that run for a metric.\<close>

definition running :: "string \<Rightarrow> (nat \<times> jsobj) list \<Rightarrow> string \<Rightarrow> jsval list" where
  "running name models k = map (\<lambda>(cid, m). obj_get m ''uid'')
     (filter (\<lambda>(cid, m). obj_get m ''server'' = JStr name \<and> obj_get m ''metric'' = JStr k) models)"

lemma mark_fold:
  "om_get (sw_metrics (fold (\<lambda>(cid, m) q.
       if obj_get m ''server'' = JStr name \<and> obj_get m ''metric'' = JStr (metric_key m) \<and> om_has (sw_metrics q) (metric_key m)
       then q\<lparr>sw_metrics := om_set (metric_key m) (obj_get m ''uid'') (sw_metrics q)\<rparr> else q) models q)) k =
   (if om_has (sw_metrics q) k \<and> running name models k \<noteq> [] then Some (last (running name models k)) else om_get (sw_metrics q) k)"
proof (induction models arbitrary: q)
  case (Cons x models)
  obtain cid m where x: "x = (cid, m)" by (cases x)
  have "obj_get m ''metric'' = JStr k \<longleftrightarrow> obj_get m ''metric'' = JStr (metric_key m) \<and> metric_key m = k"
    by (auto simp: metric_key_def)
  with Cons x show ?case by (auto simp: running_def om_get_set om_has_set)
qed (simp add: running_def)

text \<open>C21: the switches show what is monitored. Of an instance that is neither a group nor a custom metric, the dialog has a switch exactly
  for the metrics of its region, namespace and identifier; a switch is on exactly when a model of that instance and that metric runs,
  and then it carries the identifier of such a model.
\<close>

theorem switches_show_models:
  fixes p :: switches
  assumes plain: "\<not> isHTMITAutostack S p" "\<not> isHTMITCustomMetric S p" and new: "sw_metrics p = []"
  shows "let q = render_switches base customRegion S A D p;
      offered = {metric_key m |m. m \<in> set (src_metrics D) \<and> obj_get m ''region'' = JStr (sw_region p) \<and>
        obj_get m ''namespace'' = JStr (sw_namespace p) \<and> obj_get m ''identifier'' = JStr (after_last_slash (sw_instance p))};
      ids = running (full_name p) (sw_models p) k
    in sw_shown q \<and> om_get (sw_metrics q) k =
      (if k \<in> offered then Some (if ids = [] then JBool False else last ids) else None)"
proof -
  define ms where "ms = map (\<lambda>m. (metric_key m, m)) (filter (agrees [(''region'', JStr (sw_region p)),
      (''namespace'', JStr (sw_namespace p)), (''identifier'', JStr (after_last_slash (sw_instance p)))]) (src_metrics D))"
  have q: "render_switches base customRegion S A D p = show_dialog S (offer ms p)"
    using plain by (simp add: render_switches_def ms_def)
  have name: "model_name S (offer ms p) = full_name p"
    using plain by (simp add: model_name_def isHTMITAutostack_def isHTMITCustomMetric_def full_name_def)
  have offered: "fst ` set ms = {metric_key m |m. m \<in> set (src_metrics D) \<and> obj_get m ''region'' = JStr (sw_region p) \<and>
      obj_get m ''namespace'' = JStr (sw_namespace p) \<and> obj_get m ''identifier'' = JStr (after_last_slash (sw_instance p))}"
    by (auto simp: ms_def agrees_def image_iff)
  have "om_get (sw_metrics (mark_on S (offer ms p))) k =
      (if k \<in> fst ` set ms then Some (if running (full_name p) (sw_models p) k = [] then JBool False
         else last (running (full_name p) (sw_models p) k)) else None)"
    unfolding mark_on_def name by (subst mark_fold) (simp add: offer_metrics new om_has_def)
  then show ?thesis unfolding q offered by (simp add: show_dialog_def Let_def)
qed

theorem switches_show_models_witness:
  "(let S = \<lparr>si_name = ''H'', si_autostack = ''Autostack'', si_autoscale = ''G'', si_real = ''AWS/'', si_custom = ''C''\<rparr>;
      m = (\<lambda>k. [(''region'', JStr ''r''), (''namespace'', JStr ''n''), (''identifier'', JStr ''i''), (''metric'', JStr k)]);
      p = \<lparr>pg_throb = False, pg_throbbing = False, pg_text = [], pg_text_on = False, pg_onscroll = [], pg_kept = [],
        pg_dialogs = [], pg_went = [], pg_storage = [], pg_uncaught = [], sw_instance = ''r/n/i'', sw_name = ''i'', sw_namespace = ''n'',
        sw_region = ''r'', sw_metrics = [], sw_creators = [],
        sw_models = [(0, [(''server'', JStr ''r/n/i''), (''metric'', JStr ''cpu''), (''uid'', JStr ''u'')])], sw_next = 1,
        sw_requests = [], sw_fetches = 0, sw_members = [], sw_shown = False\<rparr>;
      q = render_switches [] [] S local_api \<lparr>src_namespaces = [], src_autostacks = [], src_customs = [], src_metrics = [m ''cpu'', m ''net'']\<rparr> p
    in om_get (sw_metrics q) ''cpu'' = Some (JStr ''u'') \<and> om_get (sw_metrics q) ''net'' = Some (JBool False))"
proof -
  let ?S = "\<lparr>si_name = ''H'', si_autostack = ''Autostack'', si_autoscale = ''G'', si_real = ''AWS/'', si_custom = ''C''\<rparr>"
  let ?m = "\<lambda>k. [(''region'', JStr ''r''), (''namespace'', JStr ''n''), (''identifier'', JStr ''i''), (''metric'', JStr k)]"
  let ?p = "\<lparr>pg_throb = False, pg_throbbing = False, pg_text = [], pg_text_on = False, pg_onscroll = [], pg_kept = [],
        pg_dialogs = [], pg_went = [], pg_storage = [], pg_uncaught = [], sw_instance = ''r/n/i'', sw_name = ''i'', sw_namespace = ''n'',
        sw_region = ''r'', sw_metrics = [], sw_creators = [],
        sw_models = [(0, [(''server'', JStr ''r/n/i''), (''metric'', JStr ''cpu''), (''uid'', JStr ''u'')])], sw_next = 1,
        sw_requests = [], sw_fetches = 0, sw_members = [], sw_shown = False\<rparr>"
  have a: "\<not> isHTMITAutostack ?S ?p" "\<not> isHTMITCustomMetric ?S ?p" "sw_metrics ?p = []" by code_simp+
  have l: "after_last_slash ''r/n/i'' = ''i''" by code_simp
  let ?D = "\<lparr>src_namespaces = [], src_autostacks = [], src_customs = [], src_metrics = [?m ''cpu'', ?m ''net'']\<rparr>"
  have mem: "k \<in> {metric_key m |m. m \<in> set (src_metrics ?D) \<and> obj_get m ''region'' = JStr (sw_region ?p) \<and>
        obj_get m ''namespace'' = JStr (sw_namespace ?p) \<and> obj_get m ''identifier'' = JStr (after_last_slash (sw_instance ?p))}"
    if "k = ''cpu'' \<or> k = ''net''" for k
    by (intro CollectI exI [of _ "?m k"]) (use that l in \<open>auto simp: metric_key_def property_Cons\<close>)
  have ids: "running (full_name ?p) (sw_models ?p) ''cpu'' = [JStr ''u'']" "running (full_name ?p) (sw_models ?p) ''net'' = []"
    by (simp_all add: running_def full_name_def l property_Cons)
  note t = switches_show_models [OF a, of "[]" "[]" local_api ?D, unfolded Let_def]
  from t [of "''cpu''"] t [of "''net''"] mem [of "''cpu''"] mem [of "''net''"] ids show ?thesis
    unfolding Let_def by (simp only: if_True if_False simp_thms list.distinct last.simps)
qed

section \<open>On and off\<close>

lemma agrees_assign: "om_ok r \<Longrightarrow> agrees f r \<Longrightarrow> (\<And>k v. (k, v) \<in> set f \<Longrightarrow> v \<noteq> JUndef) \<Longrightarrow> agrees f (assign c r)"
  unfolding agrees_def list_all_iff
proof (intro ballI, clarify)
  fix k v assume "om_ok r" and all: "\<forall>x \<in> set f. case x of (k, v) \<Rightarrow> obj_get r k = v"
    and def: "\<And>k v. (k, v) \<in> set f \<Longrightarrow> v \<noteq> JUndef" and kv: "(k, v) \<in> set f"
  from all kv have "obj_get r k = v" by auto
  moreover from def [OF kv] this have "obj_get r k \<noteq> JUndef" by simp
  ultimately have "obj_get r k = v" "obj_get r k \<noteq> JUndef" by simp_all
  then have "om_has r k" by (auto simp: obj_get_def om_has_def split: option.splits)
  with \<open>om_ok r\<close> \<open>obj_get r k = v\<close> show "obj_get (assign c r) k = v" by (simp add: obj_get_assign)
qed

lemma model_filter_cong:
  "sw_instance p = sw_instance q \<Longrightarrow> sw_namespace p = sw_namespace q \<Longrightarrow> sw_region p = sw_region q \<Longrightarrow>
   model_filter S p metric = model_filter S q metric"
  by (simp add: model_filter_def isHTMITAutostack_def isHTMITCustomMetric_def full_name_def)

lemma model_filter_given: "(k, v) \<in> set (model_filter S p metric) \<Longrightarrow> v \<noteq> JUndef"
  by (auto simp: model_filter_def split: if_splits)

lemma model_filter_server: "\<exists>s. (''server'', JStr s) \<in> set (model_filter S p metric)"
  by (auto simp: model_filter_def)

text \<open>A switch turned off while no model of the collection has its attributes does nothing; one that has a model deletes it.\<close>

lemma off_without_model:
  "om_has (sw_creators p) metric \<Longrightarrow> \<forall>(cid, m) \<in> set (sw_models p). \<not> agrees (model_filter S p metric) m \<Longrightarrow>
   handleCheckBoxClick on_text off_text S A metric False p = p"
proof -
  assume "om_has (sw_creators p) metric"
  then obtain c where c: "om_get (sw_creators p) metric = Some c" by (auto simp: om_has_def)
  assume "\<forall>(cid, m) \<in> set (sw_models p). \<not> agrees (model_filter S p metric) m"
  then have "find (\<lambda>(cid, m). agrees (model_filter S p metric) m) (sw_models p) = None" by (auto simp: find_None_iff)
  with c show ?thesis by (simp add: handleCheckBoxClick_def model_of_switch_def)
qed

lemma off_with_model:
  assumes "\<not> isHTMITAutostack S p" "om_has (sw_creators p) metric" "sw_models p = before @ [(cid, m)]"
    "\<forall>(cid, m) \<in> set before. \<not> agrees (model_filter S p metric) m \<and> obj_get m ''uid'' \<noteq> JStr uid"
    "agrees (model_filter S p metric) m" "obj_get m ''uid'' = JStr uid" "uid \<noteq> []"
  shows "sw_models (handleCheckBoxClick on_text off_text S A metric False p) = before \<and>
    sw_requests (handleCheckBoxClick on_text off_text S A metric False p) = sw_requests p @ [api_deleteModel A uid]"
proof -
  from assms(2) obtain c where c: "om_get (sw_creators p) metric = Some c" by (auto simp: om_has_def)
  have "find (\<lambda>(cid, m). agrees (model_filter S p metric) m) before = None" using assms(4) by (auto simp: find_None_iff)
  then have "find (\<lambda>(cid, m). agrees (model_filter S p metric) m) (before @ [(cid, m)]) = Some (cid, m)"
    using assms(5) by (induction before) (auto split: if_splits)
  then have id: "model_of_switch S p metric = JStr uid" using assms by (simp add: model_of_switch_def)
  have "filter (\<lambda>(cid, m). obj_get m ''uid'' \<noteq> JStr uid) before = before" using assms(4) by (auto intro: filter_True)
  with id c assms show ?thesis
    by (simp add: handleCheckBoxClick_def Let_def truthy_def isHTMITAutostack_def throb_start_def throb_stop_def)
qed

text \<open>a metric that is switched on and off again. Once the server has answered with the model, switching off deletes exactly that
  model, and the collection is as before. But a switch that is turned off before the answer, or after an error, does nothing:
  the model in the collection has no identifier yet, the request that starts the metric stands, and nobody is told.
\<close>

theorem switched_on_and_off:
  fixes p :: switches
  assumes plain: "\<not> isHTMITAutostack S p" "\<not> isHTMITCustomMetric S p"
    and creator: "om_get (sw_creators p) metric = Some c" "obj_get c ''datasource'' \<noteq> JStr ''custom''" "obj_get c ''server'' = JUndef"
    and off: "\<forall>(cid, m) \<in> set (sw_models p). \<not> agrees (model_filter S p metric) m \<and> obj_get m ''uid'' \<noteq> JStr uid \<and> cid < sw_next p"
    and answer: "om_ok r" "agrees (model_filter S p metric) r" "obj_get r ''uid'' = JStr uid" "uid \<noteq> []" "obj_get r ''name'' = JUndef"
  shows "let click = handleCheckBoxClick on_text off_text S A metric;
      p1 = click True p; p2 = model_created base (sw_next p) [] (JObj r) p1; p3 = click False p2
    in sw_requests p3 = sw_requests p @ [api_createModels A (JObj c), api_deleteModel A uid] \<and> sw_models p3 = sw_models p \<and>
       click False p1 = p1 \<and>
       (err \<noteq> [] \<longrightarrow> sw_requests (click False (model_created base (sw_next p) err JUndef p1)) = sw_requests p @ [api_createModels A (JObj c)])"
proof -
  let ?f = "model_filter S p metric"
  define p1 where "p1 = handleCheckBoxClick on_text off_text S A metric True p"
  have p1: "p1 = (throb_start on_text p)\<lparr>sw_models := sw_models p @ [(sw_next p, c)], sw_next := sw_next p + 1,
      sw_requests := sw_requests p @ [api_createModels A (JObj c)]\<rparr>"
    using plain creator by (simp add: p1_def handleCheckBoxClick_def Let_def new_model_def isHTMITAutostack_def throb_start_def throb_stop_def)
  have f: "model_filter S p1 metric = ?f" by (rule model_filter_cong) (simp_all add: p1 throb_start_def throb_stop_def Let_def)
  have fields: "sw_creators p1 = sw_creators p" "sw_models p1 = sw_models p @ [(sw_next p, c)]"
    "sw_requests p1 = sw_requests p @ [api_createModels A (JObj c)]" "\<not> isHTMITAutostack S p1"
    using plain by (simp_all add: p1 isHTMITAutostack_def throb_start_def throb_stop_def Let_def)
  have nc: "\<not> agrees ?f c"
  proof
    assume a: "agrees ?f c"
    obtain s where "(''server'', JStr s) \<in> set ?f" using model_filter_server [of S p metric] by blast
    with a have "case (''server'', JStr s) of (k, v) \<Rightarrow> obj_get c k = v" unfolding agrees_def list_all_iff by (rule bspec)
    then have "obj_get c ''server'' = JStr s" by simp
    with creator(3) show False by simp
  qed
  have early: "handleCheckBoxClick on_text off_text S A metric False p1 = p1"
    by (rule off_without_model) (use f fields off nc creator in \<open>auto simp: om_has_def\<close>)
  define p2 where "p2 = model_created base (sw_next p) [] (JObj r) p1"
  have "map (\<lambda>(i, m). if i = sw_next p then (i, assign m r) else (i, m)) (sw_models p) = sw_models p"
    using off by (intro map_idI) auto
  then have m2: "sw_models p2 = sw_models p @ [(sw_next p, assign c r)]"
    using answer(5) by (simp add: p2_def model_created_def fields parse_model_def throb_stop_def cong: if_cong)
  have f2: "model_filter S p2 metric = ?f" unfolding f [symmetric]
    by (rule model_filter_cong) (simp_all add: p2_def model_created_def throb_stop_def)
  have fields2: "sw_creators p2 = sw_creators p" "sw_requests p2 = sw_requests p1" "\<not> isHTMITAutostack S p2"
    using fields by (simp_all add: p2_def model_created_def isHTMITAutostack_def throb_stop_def)
  have "agrees ?f (assign c r)" using answer(1,2) model_filter_given by (rule agrees_assign)
  moreover have "om_has r ''uid''" using answer(3) by (auto simp: om_has_def obj_get_def split: option.splits)
  with answer(1,3) have "obj_get (assign c r) ''uid'' = JStr uid" by (simp add: obj_get_assign)
  ultimately have del: "sw_models (handleCheckBoxClick on_text off_text S A metric False p2) = sw_models p \<and>
      sw_requests (handleCheckBoxClick on_text off_text S A metric False p2) = sw_requests p2 @ [api_deleteModel A uid]"
    using off creator fields2 m2 f2 answer(4) by (intro off_with_model) (auto simp: om_has_def)
  have failed: "sw_requests (handleCheckBoxClick on_text off_text S A metric False (model_created base (sw_next p) err JUndef p1)) =
      sw_requests p1" if "err \<noteq> []"
  proof -
    let ?q = "model_created base (sw_next p) err JUndef p1"
    have q: "?q = modalError base err p1" using that by (simp add: model_created_def)
    have k: "sw_models ?q = sw_models p1" "sw_creators ?q = sw_creators p1" "sw_requests ?q = sw_requests p1"
      "sw_instance ?q = sw_instance p1" "sw_namespace ?q = sw_namespace p1" "sw_region ?q = sw_region p1"
      unfolding q by (simp_all add: modalError_def Let_def throb_stop_def go_def split: option.split)
    have "model_filter S ?q metric = ?f" unfolding f [symmetric] using k by (intro model_filter_cong) auto
    then have "handleCheckBoxClick on_text off_text S A metric False ?q = ?q"
      using k fields off nc creator by (intro off_without_model) (auto simp: om_has_def)
    with k show ?thesis by simp
  qed
  from early del failed fields fields2 show ?thesis unfolding Let_def p1_def [symmetric] p2_def [symmetric] by simp
qed

end
