(* ===== verification/Spec2Isabelle.thy ===== *)
theory Spec2Isabelle
  imports Time_Aggregator Google_Analytics Anomaly_Bars File_Views Model_Views Web_Chart_Loading Web_Setup Web_Discovery Web_Metric_Switches Web_Models
begin

text \<open>
  HTM Studio: the Electron application under \<open>src/unicorn/app\<close>, which imports CSV files, runs one
  Python process per metric that computes anomaly scores, stores the scores and charts them. This
  library models the JavaScript of its two processes, and of the web pages of HTM.IT.

  \<^bold>\<open>How the program works.\<close> The main process (\<open>app/main\<close>) owns a LevelDB database, the file service that
  parses CSV files, and two services that spawn child processes: one per model and one per
  parameter finder. The browser process (\<open>app/browser\<close>) is a Flux application: components execute
  actions, actions call the services of the main process and dispatch events, stores handle the
  events and emit changes, components show the stores. The two processes exchange messages:
  the clients of the browser send requests, the IPC layer calls the services and forwards what the
  child processes print; a result of a model is stored by the main process, announced to the browser
  and read back from the database by the model data store.

  The repository also holds the web pages of HTM.IT, \<open>src/htm.it/static/js\<close>: Backbone views of instances and
  metrics that a server monitors. The library models their client of the server, their records and storage, and
  the charts with the loading of their data.

  \<^bold>\<open>Theories and sources.\<close> Every definition carries the name of the function it models.
  \<^item> \<open>Prelude\<close>: insertion-ordered maps and shared list facts. \<open>JS_Number\<close>, \<open>JS_String\<close>, \<open>JS_Value\<close>: what
    the code uses of the language: binary64 arithmetic with rounding, decimal reading and
    printing, trimming and case folding, objects with ordered properties, truthiness,
    \<open>Object.assign\<close>, property access that throws on \<open>undefined\<close>, JSON values.
  \<^item> \<open>Generate_Id\<close> (\<open>main/generateId.js\<close>), \<open>Common_Utils\<close> (\<open>common/common-utils.js\<close>,
    \<open>common/timestamp.js\<close>, \<open>browser/lib/browser-utils.js\<close>), \<open>Time_Aggregator\<close>
    (\<open>main/TimeAggregator.js\<close>).
  \<^item> \<open>Level_Store\<close>: the ordered key-value store behind \<open>levelup\<close>; \<open>Database_Service\<close>
    (\<open>main/DatabaseService.js\<close>), \<open>File_Service\<close> (\<open>main/FileService.js\<close>), \<open>Upload\<close> (the import of a
    file, which joins the two).
  \<^item> \<open>Process_Service\<close>: the locale of a service with child processes; \<open>Model_Service\<close>
    (\<open>main/ModelService.js\<close>), \<open>Param_Finder_Service\<close> (\<open>main/ParamFinderService.js\<close>); \<open>Service_IPC\<close>
    (\<open>main/ModelServiceIPC.js\<close>, \<open>main/ParamFinderServiceIPC.js\<close>); \<open>Main_Process\<close> (\<open>main/index.js\<close>).
  \<^item> \<open>Flux\<close>: handlers that change a store, emit or throw, and the contracts of a store; the stores
    of \<open>browser/stores\<close> in \<open>File_Store\<close>, \<open>Metric_Store\<close>, \<open>Model_Store\<close>, \<open>Model_Data_Store\<close>,
    \<open>Create_Model_Store\<close>; \<open>Browser_App\<close>: the actions, the dispatcher and the state of all stores;
    \<open>Actions\<close> (\<open>browser/actions\<close>); \<open>Clients\<close> (\<open>browser/lib/HTMStudio\<close>); \<open>App_Views\<close>: what the
    components see of the stores.
  \<^item> Components of \<open>browser/components\<close>: \<open>Create_Dialog\<close> (\<open>CreateModelDialog.jsx\<close>, \<open>AdvancedSettings.jsx\<close>, over the lodash
    of \<open>Lodash_Paths\<close>), \<open>File_Views\<close> (\<open>FileList.jsx\<close>, \<open>FileDetails.jsx\<close>), \<open>Model_Views\<close> (\<open>Model.jsx\<close>,
    \<open>ModelList.jsx\<close>, \<open>ModelProgress.jsx\<close>); \<open>Timestamp_Formats\<close> (\<open>common/timestamp.js\<close>, the table of formats in
    \<open>app/config\<close>).
  \<^item> \<open>Chart_Data\<close> (\<open>components/ModelData.jsx\<close>, data of \<open>components/Chart.jsx\<close>), \<open>Chart_Window\<close> (the time
    window of \<open>Chart.jsx\<close>), \<open>Anomaly_Bars\<close> (\<open>lib/Dygraphs/AnomalyBarChartUnderlay.js\<close>), \<open>Range_Selector\<close>
    (\<open>lib/Dygraphs/RangeSelectorBarChartPlugin.js\<close>).
  \<^item> \<open>Google_Analytics\<close> (\<open>lib/Analytics/GoogleAnalytics.js\<close>).
  \<^item> The pages of HTM.IT: \<open>Web_Encoding\<close>, \<open>Web_Dates\<close> and \<open>Web_Stamp_Order\<close> (\<open>lib/htm-it/utils.js\<close>), \<open>Web_Api\<close>
    (\<open>lib/htm-it/HTMITAPI.js\<close> and the \<open>sync\<close> of \<open>program/collections\<close> and \<open>program/models\<close>), \<open>Web_Models\<close> (what they
    make of the records, and the storage), \<open>Web_Chart_Rows\<close> (\<open>program/views/panels/embedChartsRow*.js\<close>),
    \<open>Web_Chart_Clicks\<close> and \<open>Web_Chart_Loading\<close> (\<open>embedChartsRows.js\<close>).

  \<^bold>\<open>State and effects.\<close> A service or store is a record with the fields of the class; an operation maps
  the record and its arguments to the new record and a result. An exception or an error given to a
  callback is an \<open>Inl\<close> or a constructor of an outcome type, a callback that is never called is an
  empty list of calls. Objects shared by reference (the model objects of the model store and its
  visible stack) live in a store of addresses. Asynchronous code is a function from one event to
  the next state: the events are the completions of database calls, timers, messages and user
  input, and properties hold for every list of events. Times and values in the charts are rational
  numbers, the rounding of binary64 is ignored there; the services compute with binary64 values.

  \<^bold>\<open>What the lemmas show.\<close>
  \<^item> Storage: writes and reads of one record agree and leave the rest alone; results are
    appended at consecutive indices; deletions remove exactly what belongs to a file or metric;
    importing a file stores exactly its rows, its metrics and its metadata, or rejects it.
  \<^item> Files: a file that passes validation is rectangular with one date column of one format; the
    fields guessed for it; slices and statistics.
  \<^item> Processes: the running processes, the listeners and the concurrency limit after any history of
    requests and child events, and where the code loses track of a process.
  \<^item> Browser: every store changes only with an emitted change, so what a component shows is
    current; the types of the stored values; the visible models in order of their activation; results
    shown are a prefix of the stored ones and every announced row is fetched; user settings win over
    recommended ones; complete flows from an action through both processes and back.
  \<^item> Charts: the merged chart shows every metric value with the result of the same
    time; gaps get a marker; the point under the mouse is a nearest one; the visible window stays
    inside the data under every gesture; a bar shows the maximum of its bucket.
  \<^item> Components: what their buttons do to the application (models of a deleted file are stopped and deleted, a new model is
    started with the options shown), and that what they show are the values of the stores.
  \<^item> Pages of HTM.IT: base64, XML and timestamps are read back; which answers of the server are taken for errors; the
    bars and flags of a chart stand for the records of their interval; data that was loaded is not lost while requests do
    not overlap, and what is lost or blocked when they overlap or fail; rows and details match the view after any clicks.
  \<^item> Usage statistics: no hit is lost while the database is open, and the two histories in which
    hits are lost or posted twice.

  \<^bold>\<open>Bounds.\<close> Keys of results use a 13 digit index, so appending assumes less than \<open>10 ^ 13\<close> results; the
  binary search is correct for arrays shorter than \<open>2 ^ 31\<close> elements, beyond which its 32-bit middle
  would wrap; window properties assume that the smallest window is at most a quarter of the data,
  since a link of the chart shows a quarter of it. Loops are recursive functions with their
  termination proved; the binary search is a partial function with a proof that it returns.

  \<^bold>\<open>Parameters.\<close> Code that is not in the repository is an argument of the definitions: the timestamp
  parser and formatter of moment, the schema validators, SHA-1, the CSV reader (its rows), lodash
  merging, child processes (the lines they print and when they end). Hypotheses on them are named in the
  statements and instantiated by concrete functions in the witnesses.

  \<^bold>\<open>Not modelled.\<close> Rendering (React elements, styles, canvas calls, d3 and Dygraphs), Electron windows,
  menus and updates, logging, configuration files, and the start and stop of IPC and database
  drivers: these only call libraries. Of the pages of HTM.IT: the set-up pages and forms, dialogs, routes and templates, which
  pass data between Backbone, jQuery and the server client. The libraries copied into the repository (jQuery, Dygraphs,
  jqTree and others, most of its JavaScript), and the Python and Java products.
\<close>

end
